(* ===== verification/Prelude.thy ===== *)
theory Prelude
  imports Complex_Main "HOL-Library.Word"
begin

section \<open>Shared types, error values and generic lemmas\<close>

text \<open>
  What every component theory uses: the error values of \<open>td::Status\<close>, the integer ranges of
  the C++ types, the collections of rewrite rules the component proofs draw on, and facts on
  lists and maps that are not tied to one component.

  Machine integers. Signed 64-bit and 32-bit quantities (sizes, offsets, identifiers) are
  modelled as \<^typ>\<open>int\<close>: signed overflow is undefined behaviour in C++, so the
  development proves that the intermediate values stay in range instead of giving the overflow
  a value. Unsigned arithmetic that wraps (\<open>td::to_integer\<close>, IPv4 masks, the generation
  counters of \<open>td::Container\<close>) is written with \<open>mod 2 ^ w\<close> or on words.
  Times (\<open>double\<close> seconds) are exact \<^typ>\<open>real\<close> numbers: rounding is not modelled.
\<close>

named_theorems range_simps \<open>ranges of the C++ integer types\<close>
named_theorems cursor_simps \<open>unfolding of the file stream cursor\<close>

text \<open>\<open>td::Status::Error(code, message)\<close>; \<open>td::Result<T>\<close> is \<open>td_error + T\<close>.\<close>

datatype td_error = Error (err_code: int) (err_message: string)

type_synonym 'a result = "td_error + 'a"

definition int64_max :: int where
  "int64_max = 2 ^ 63 - 1"

definition int64_min :: int where
  "int64_min = - (2 ^ 63)"

definition is_int64 :: "int \<Rightarrow> bool" where
  "is_int64 x \<longleftrightarrow> int64_min \<le> x \<and> x \<le> int64_max"

definition int32_max :: int where
  "int32_max = 2 ^ 31 - 1"

declare int64_max_def [range_simps] int64_min_def [range_simps] is_int64_def [range_simps]
  int32_max_def [range_simps]

lemma is_int64_between:
  assumes "is_int64 a" and "is_int64 b" and "a \<le> x" and "x \<le> b"
  shows "is_int64 x"
  using assms by (auto simp: range_simps)

lemma is_int64_nonneg_diff:
  assumes "0 \<le> a" and "0 \<le> b" and "is_int64 a" and "is_int64 b"
  shows "is_int64 (a - b)"
  using assms by (auto simp: range_simps)

subsection \<open>Lists\<close>

lemma takeWhile_neq_append_Cons [simp]:
  "c \<notin> set xs \<Longrightarrow> takeWhile (\<lambda>x. x \<noteq> c) (xs @ c # ys) = xs"
  by (induction xs) auto

lemma dropWhile_neq_append_Cons [simp]:
  "c \<notin> set xs \<Longrightarrow> dropWhile (\<lambda>x. x \<noteq> c) (xs @ c # ys) = c # ys"
  by (induction xs) auto

lemma dropWhile_eq_Cons_hd: "dropWhile P xs = y # ys \<Longrightarrow> \<not> P y"
  by (induction xs) (auto split: if_splits)

lemma length_dropWhile_less:
  "dropWhile P xs = y # ys \<Longrightarrow> length ys < length xs"
  by (induction xs) (auto split: if_splits)

lemma take_append_take_drop:
  "take m xs @ take n (drop m xs) = take (m + n) xs"
  by (simp add: take_add)

lemma all_less_split_at:
  fixes m n :: nat
  assumes "m \<le> n"
  shows "(\<forall>i<n. P i) \<longleftrightarrow> (\<forall>i<m. P i) \<and> (\<forall>i. m \<le> i \<and> i < n \<longrightarrow> P i)"
  using assms by (meson less_le_trans linorder_not_le)

lemma mult_add_eq_iff_div_mod:
  fixes a b k n :: nat
  assumes "b < k"
  shows "a * k + b = n \<longleftrightarrow> a = n div k \<and> b = n mod k"
  using assms by (auto simp: mult.commute)

lemma last_block_div_mod:
  fixes i n :: nat
  assumes "8 * (n div 8) \<le> i" and "i < n"
  shows "i div 8 = n div 8" and "i mod 8 < n mod 8"
proof -
  define j where "j = i - 8 * (n div 8)"
  have n: "n = 8 * (n div 8) + n mod 8" by simp
  have i: "i = 8 * (n div 8) + j" using assms(1) by (simp add: j_def)
  have j: "j < n mod 8" using assms(2) n i by linarith
  moreover have "n mod 8 < 8" by simp
  ultimately have "j < 8" by linarith
  then have "(8 * (n div 8) + j) div 8 = n div 8" and "(8 * (n div 8) + j) mod 8 = j" by simp_all
  with i j show "i div 8 = n div 8" and "i mod 8 < n mod 8" by simp_all
qed

lemma sorted_map_last_le:
  fixes f :: "'a \<Rightarrow> int"
  shows "sorted_wrt (<) (map f xs) \<Longrightarrow> x \<in> set xs \<Longrightarrow> f x \<le> f (last xs)"
  by (induction xs) (auto simp: less_imp_le)

lemma sum_list_map_filter_split:
  fixes f :: "'a \<Rightarrow> int"
  shows "sum_list (map f xs) =
    sum_list (map f (filter P xs)) + sum_list (map f (filter (\<lambda>x. \<not> P x) xs))"
  by (induction xs) auto

lemma sum_list_nonneg_int:
  fixes f :: "'a \<Rightarrow> int"
  shows "(\<And>x. x \<in> set xs \<Longrightarrow> 0 \<le> f x) \<Longrightarrow> 0 \<le> sum_list (map f xs)"
  by (induction xs) auto

subsection \<open>Finite maps used as hash tables\<close>

lemma map_upd_None_same [simp]: "m k = None \<Longrightarrow> m(k := None) = m"
  by auto

lemma dom_fun_upd_None_subset: "dom (m(k := None)) \<subseteq> dom m"
  by auto

end
