(* ===== verification/Stream_Cursor.thy ===== *)
theory Stream_Cursor
  imports Prelude
begin

section \<open>The cursor of a file stream\<close>

text \<open>
  \<open>FileStreamCursor\<close> (\<open>FileStreamCore.h\<close>, \<open>FileStreamCursor.cpp\<close>) and the two
  recovery predicates of \<open>FileStreamRecovery.cpp\<close>. The cursor keeps the size of the file
  (-1 while it is unknown), the offset of the next byte to send and the end of the prefix the
  download has made available. The interface the streaming connection relies on is the locale
  \<open>block_cursor\<close>: whatever sequence of progress reports and committed blocks is accepted,
  the blocks are consecutive from the start of the file and never pass its end.
\<close>

record cursor =
  total_size :: int
  next_offset :: int
  contiguous_end :: int

definition new_cursor :: cursor where
  "new_cursor = \<lparr>total_size = -1, next_offset = 0, contiguous_end = 0\<rparr>"

definition update_progress :: "cursor \<Rightarrow> int \<Rightarrow> int \<Rightarrow> bool \<Rightarrow> cursor result" where
  "update_progress c download_offset prefix_size is_completed =
     (if total_size c < 0 \<or> download_offset < 0 \<or> prefix_size < 0 \<or> download_offset > total_size c \<or>
         prefix_size > total_size c - download_offset
      then Inl (Error 500 ''Inconsistent file download progress'')
      else
        let c1 = (if download_offset = 0 \<and> prefix_size > contiguous_end c
                  then c\<lparr>contiguous_end := prefix_size\<rparr> else c);
            c2 = (if is_completed \<and> download_offset = 0 \<and> prefix_size = total_size c1
                  then c1\<lparr>contiguous_end := total_size c1\<rparr> else c1)
        in Inr c2)"

definition next_read_size :: "cursor \<Rightarrow> int \<Rightarrow> int" where
  "next_read_size c chunk_size =
     (if chunk_size \<le> 0 \<or> total_size c < 0 \<or> next_offset c \<ge> total_size c \<or>
         next_offset c \<ge> contiguous_end c
      then 0
      else min chunk_size (min (contiguous_end c - next_offset c) (total_size c - next_offset c)))"

definition commit :: "cursor \<Rightarrow> int \<Rightarrow> int \<Rightarrow> cursor result" where
  "commit c offset sz =
     (if offset \<noteq> next_offset c \<or> sz \<le> 0 \<or> sz > contiguous_end c - next_offset c \<or>
         sz > total_size c - next_offset c
      then Inl (Error 500 ''Out-of-order, duplicate, or incomplete file stream block'')
      else Inr (c\<lparr>next_offset := next_offset c + sz\<rparr>))"

definition is_complete :: "cursor \<Rightarrow> bool" where
  "is_complete c \<longleftrightarrow> total_size c \<ge> 0 \<and> next_offset c = total_size c"

definition file_stream_waits_for_redownload :: "bool \<Rightarrow> bool \<Rightarrow> bool" where
  "file_stream_waits_for_redownload download_completed first_byte_sent \<longleftrightarrow>
     download_completed \<and> \<not> first_byte_sent"

definition file_stream_fails_on_stopped_download :: "bool \<Rightarrow> bool \<Rightarrow> bool" where
  "file_stream_fails_on_stopped_download download_completed first_byte_sent \<longleftrightarrow>
     \<not> download_completed \<and> first_byte_sent"

declare update_progress_def [cursor_simps] next_read_size_def [cursor_simps]
  commit_def [cursor_simps] is_complete_def [cursor_simps] new_cursor_def [cursor_simps]

subsection \<open>The interface of a block cursor\<close>

text \<open>A run of a cursor: progress reports and committed blocks, in the order they happen.\<close>

datatype 'p cursor_event = Progress 'p | Block int int

fun run_events ::
  "('c \<Rightarrow> 'p \<Rightarrow> 'c result) \<Rightarrow> ('c \<Rightarrow> int \<Rightarrow> int \<Rightarrow> 'c result) \<Rightarrow> 'c \<Rightarrow> 'p cursor_event list \<Rightarrow> 'c result"
where
  "run_events prog com c [] = Inr c"
| "run_events prog com c (e # es) =
     (case (case e of Progress p \<Rightarrow> prog c p | Block off sz \<Rightarrow> com c off sz) of
        Inl err \<Rightarrow> Inl err
      | Inr c' \<Rightarrow> run_events prog com c' es)"

fun blocks_of :: "'p cursor_event list \<Rightarrow> (int \<times> int) list" where
  "blocks_of [] = []"
| "blocks_of (Progress p # es) = blocks_of es"
| "blocks_of (Block off sz # es) = (off, sz) # blocks_of es"

text \<open>The blocks are consecutive, non-empty and start at the given offset.\<close>

fun consecutive :: "int \<Rightarrow> (int \<times> int) list \<Rightarrow> bool" where
  "consecutive k [] = True"
| "consecutive k ((off, sz) # bs) \<longleftrightarrow> off = k \<and> 0 < sz \<and> consecutive (k + sz) bs"

locale block_cursor =
  fixes inv :: "'c \<Rightarrow> bool"
    and total :: "'c \<Rightarrow> int"
    and position :: "'c \<Rightarrow> int"
    and prog :: "'c \<Rightarrow> 'p \<Rightarrow> 'c result"
    and read_size :: "'c \<Rightarrow> int \<Rightarrow> int"
    and com :: "'c \<Rightarrow> int \<Rightarrow> int \<Rightarrow> 'c result"
  assumes prog_ok: "inv c \<Longrightarrow> prog c p = Inr c' \<Longrightarrow> inv c' \<and> position c' = position c \<and> total c' = total c"
    and com_ok: "inv c \<Longrightarrow> com c off sz = Inr c' \<Longrightarrow>
      inv c' \<and> off = position c \<and> 0 < sz \<and> position c' = position c + sz \<and> total c' = total c"
    and read_ok: "inv c \<Longrightarrow> 0 < read_size c n \<Longrightarrow> \<exists>c'. com c (position c) (read_size c n) = Inr c'"
    and in_file: "inv c \<Longrightarrow> 0 \<le> total c \<Longrightarrow> position c \<le> total c"
begin

lemma run_consecutive:
  assumes "inv c" and "run_events prog com c es = Inr c'"
  shows "inv c' \<and> total c' = total c \<and> consecutive (position c) (blocks_of es) \<and>
    position c' = position c + sum_list (map snd (blocks_of es))"
  using assms
proof (induction es arbitrary: c)
  case Nil
  then show ?case by simp
next
  case (Cons e es)
  show ?case
  proof (cases e)
    case (Progress p)
    with Cons.prems obtain d where d: "prog c p = Inr d" and run: "run_events prog com d es = Inr c'"
      by (auto split: sum.splits)
    from prog_ok [OF Cons.prems(1) d] Cons.IH [OF _ run] show ?thesis by (simp add: Progress)
  next
    case (Block off sz)
    with Cons.prems obtain d where d: "com c off sz = Inr d" and run: "run_events prog com d es = Inr c'"
      by (auto split: sum.splits)
    from com_ok [OF Cons.prems(1) d] Cons.IH [OF _ run] show ?thesis by (simp add: Block)
  qed
qed

lemma run_within_file:
  assumes "inv c" and "run_events prog com c es = Inr c'" and "0 \<le> total c"
  shows "position c' \<le> total c"
  using run_consecutive [OF assms(1,2)] in_file [of c'] assms(3) by simp

end

subsection \<open>The cursor of the code is a block cursor\<close>

definition cursor_inv :: "cursor \<Rightarrow> bool" where
  "cursor_inv c \<longleftrightarrow>
     is_int64 (total_size c) \<and> -1 \<le> total_size c \<and> 0 \<le> next_offset c \<and>
     next_offset c \<le> contiguous_end c \<and> contiguous_end c \<le> max 0 (total_size c)"

lemma cursor_inv_new: "cursor_inv new_cursor"
  by (simp add: cursor_inv_def new_cursor_def range_simps)

lemma update_progress_inv:
  assumes "cursor_inv c" and "update_progress c doff pre fin = Inr c'"
  shows "cursor_inv c' \<and> next_offset c' = next_offset c \<and> total_size c' = total_size c \<and>
    contiguous_end c \<le> contiguous_end c'"
  using assms by (cases c; cases c') (auto simp: cursor_inv_def cursor_simps Let_def split: if_splits)

lemma commit_inv:
  assumes "cursor_inv c" and "commit c off sz = Inr c'"
  shows "cursor_inv c' \<and> off = next_offset c \<and> 0 < sz \<and> next_offset c' = next_offset c + sz \<and>
    total_size c' = total_size c \<and> contiguous_end c' = contiguous_end c"
  using assms by (auto simp: cursor_inv_def cursor_simps split: if_splits)

lemma commit_next_read_size:
  assumes "cursor_inv c" and "0 < next_read_size c n"
  shows "commit c (next_offset c) (next_read_size c n) =
    Inr (c\<lparr>next_offset := next_offset c + next_read_size c n\<rparr>)"
  using assms by (auto simp: cursor_simps split: if_splits)

lemma next_read_size_bounds:
  assumes "cursor_inv c"
  shows "0 \<le> next_read_size c n \<and> next_read_size c n \<le> max 0 n \<and>
    next_offset c + next_read_size c n \<le> contiguous_end c"
  using assms by (auto simp: cursor_inv_def cursor_simps)

interpretation fsc: block_cursor cursor_inv total_size next_offset
  "\<lambda>c (doff, pre, fin). update_progress c doff pre fin" next_read_size commit
proof
  fix c c' and p :: "int \<times> int \<times> bool"
  assume "cursor_inv c" and "(case p of (doff, pre, fin) \<Rightarrow> update_progress c doff pre fin) = Inr c'"
  then show "cursor_inv c' \<and> next_offset c' = next_offset c \<and> total_size c' = total_size c"
    using update_progress_inv by (cases p) auto
next
  fix c off sz c'
  assume "cursor_inv c" and "commit c off sz = Inr c'"
  then show "cursor_inv c' \<and> off = next_offset c \<and> 0 < sz \<and> next_offset c' = next_offset c + sz \<and>
      total_size c' = total_size c"
    using commit_inv by blast
next
  fix c n
  assume "cursor_inv c" and "0 < next_read_size c n"
  then show "\<exists>c'. commit c (next_offset c) (next_read_size c n) = Inr c'"
    using commit_next_read_size by blast
next
  fix c
  assume "cursor_inv c" and "0 \<le> total_size c"
  then show "next_offset c \<le> total_size c"
    by (simp add: cursor_inv_def)
qed

text \<open>The run of a stream's cursor, with the operations of the code.\<close>

definition run_cursor :: "cursor \<Rightarrow> (int \<times> int \<times> bool) cursor_event list \<Rightarrow> cursor result" where
  "run_cursor = run_events (\<lambda>c (doff, pre, fin). update_progress c doff pre fin) commit"

text \<open>
  Streaming cursor: on a file of \<open>n\<close> bytes, whatever sequence of progress reports and
  committed blocks the cursor accepts, the committed blocks are non-empty, consecutive from
  offset 0, they add up to \<open>next_offset\<close>, never pass the end of the file, and the cursor is
  complete exactly when they cover all \<open>n\<close> bytes.
\<close>

lemma cursor_blocks_consecutive:
  assumes "0 \<le> n" and "is_int64 n"
    and "run_cursor (new_cursor\<lparr>total_size := n\<rparr>) es = Inr c"
  shows "consecutive 0 (blocks_of es) \<and> next_offset c = sum_list (map snd (blocks_of es)) \<and>
    next_offset c \<le> n \<and> (is_complete c \<longleftrightarrow> sum_list (map snd (blocks_of es)) = n)"
proof -
  have inv: "cursor_inv (new_cursor\<lparr>total_size := n\<rparr>)"
    using assms by (simp add: cursor_inv_def new_cursor_def)
  note run = fsc.run_consecutive [OF inv assms(3) [unfolded run_cursor_def]]
  note bound = fsc.run_within_file [OF inv assms(3) [unfolded run_cursor_def]]
  from run bound assms(1) show ?thesis by (auto simp: new_cursor_def is_complete_def)
qed

lemma cursor_blocks_consecutive_witness:
  "consecutive 0 [(0, 4), (4, 6)] \<and> (4 :: int) + 6 = 10"
proof -
  have "run_cursor (new_cursor\<lparr>total_size := 10\<rparr>)
      [Progress (0, 4, False), Block 0 4, Progress (0, 10, True), Block 4 6] =
    Inr \<lparr>total_size = 10, next_offset = 10, contiguous_end = 10\<rparr>"
    by (simp add: run_cursor_def cursor_simps)
  from cursor_blocks_consecutive [OF _ _ this] show ?thesis by (simp add: range_simps)
qed

text \<open>
  A block of the size the cursor proposes is always accepted, moves the cursor by exactly
  that size, lies in the downloaded prefix, and no intermediate 64-bit subtraction or addition of
  the operations leaves its range.
\<close>

lemma next_read_size_commit:
  assumes "cursor_inv c" and "0 < next_read_size c n"
  shows "\<exists>c'. commit c (next_offset c) (next_read_size c n) = Inr c' \<and> cursor_inv c' \<and>
    next_offset c' = next_offset c + next_read_size c n \<and> next_offset c' \<le> contiguous_end c \<and>
    is_int64 (next_offset c') \<and> is_int64 (contiguous_end c - next_offset c) \<and>
    is_int64 (total_size c - next_offset c)"
proof -
  obtain c' where c': "commit c (next_offset c) (next_read_size c n) = Inr c'"
    using commit_next_read_size [OF assms] by blast
  have inv': "cursor_inv c'" and off: "next_offset c' = next_offset c + next_read_size c n"
    using commit_inv [OF assms(1) c'] by auto
  have "is_int64 (next_offset c')" "is_int64 (contiguous_end c - next_offset c)"
    "is_int64 (total_size c - next_offset c)"
    using assms(1) inv' by (auto simp: cursor_inv_def range_simps)
  with c' inv' off next_read_size_bounds [OF assms(1), of n] show ?thesis by auto
qed

lemma next_read_size_commit_witness:
  "\<exists>c'. commit \<lparr>total_size = 10, next_offset = 2, contiguous_end = 7\<rparr> 2 4 = Inr c' \<and> next_offset c' = 6"
proof -
  let ?c = "\<lparr>total_size = 10, next_offset = 2, contiguous_end = 7\<rparr>"
  have "cursor_inv ?c" by (simp add: cursor_inv_def range_simps)
  moreover have "next_read_size ?c 4 = 4" by (simp add: cursor_simps)
  ultimately show ?thesis using next_read_size_commit [of ?c 4] by auto
qed

end
