(* ===== verification/Text_Utils.thy ===== *)
theory Text_Utils
  imports Prelude
begin

section \<open>Character and number utilities of tdutils\<close>

text \<open>
  The helpers of \<open>td/utils/misc.h\<close>, \<open>td/utils/misc.cpp\<close> and
  \<open>td/utils/PathView.h\<close> the Bot API server builds on: character classes, trimming,
  case folding, prefix and suffix tests, integer parsing and percent-encoding. A C++ string is
  a \<^typ>\<open>string\<close> of bytes. Plain \<open>char\<close> is signed, so a byte of 128 or more compares
  below every ASCII literal; the classes below only ever hold for bytes under 128, as there.
\<close>

subsection \<open>Characters\<close>

definition byte :: "char \<Rightarrow> nat" where
  "byte c = of_char c"

definition is_space :: "char \<Rightarrow> bool" where
  "is_space c \<longleftrightarrow> byte c \<in> {32, 9, 13, 10, 0, 11}"

definition is_digit :: "char \<Rightarrow> bool" where
  "is_digit c \<longleftrightarrow> 48 \<le> byte c \<and> byte c \<le> 57"

text \<open>\<open>c |= 0x20\<close>\<close>

definition set_bit5 :: "nat \<Rightarrow> nat" where
  "set_bit5 b = (if odd (b div 32) then b else b + 32)"

definition is_alpha :: "char \<Rightarrow> bool" where
  "is_alpha c \<longleftrightarrow> 97 \<le> set_bit5 (byte c) \<and> set_bit5 (byte c) \<le> 122"

definition is_alnum :: "char \<Rightarrow> bool" where
  "is_alnum c \<longleftrightarrow> is_alpha c \<or> is_digit c"

definition to_lower_char :: "char \<Rightarrow> char" where
  "to_lower_char c = (if 65 \<le> byte c \<and> byte c \<le> 90 then char_of (byte c + 32) else c)"

definition to_lower :: "string \<Rightarrow> string" where
  "to_lower s = map to_lower_char s"

definition hex_to_int :: "char \<Rightarrow> nat" where
  "hex_to_int c =
     (if is_digit c then byte c - 48
      else if 97 \<le> set_bit5 (byte c) \<and> set_bit5 (byte c) \<le> 102 then set_bit5 (byte c) - 97 + 10
      else 16)"

subsection \<open>Strings\<close>

definition trim :: "string \<Rightarrow> string" where
  "trim s = rev (dropWhile is_space (rev (dropWhile is_space s)))"

definition begins_with :: "string \<Rightarrow> string \<Rightarrow> bool" where
  "begins_with str pre \<longleftrightarrow> length pre \<le> length str \<and> pre = take (length pre) str"

definition ends_with :: "string \<Rightarrow> string \<Rightarrow> bool" where
  "ends_with str suffix \<longleftrightarrow>
     length suffix \<le> length str \<and> suffix = drop (length str - length suffix) str"

text \<open>\<open>find(sub) != npos\<close> for a string argument.\<close>

fun contains :: "string \<Rightarrow> string \<Rightarrow> bool" where
  "contains [] sub = (sub = [])"
| "contains (c # cs) sub = (begins_with (c # cs) sub \<or> contains cs sub)"

definition is_slash :: "char \<Rightarrow> bool" where
  "is_slash c \<longleftrightarrow> c = CHR ''/'' \<or> c = CHR 0x5C"

text \<open>\<open>PathView(path).file_name()\<close>: what follows the last slash of either kind.\<close>

definition file_name :: "string \<Rightarrow> string" where
  "file_name path = rev (takeWhile (\<lambda>c. \<not> is_slash c) (rev path))"

text \<open>\<open>td::split\<close>: the text before the first delimiter and the text after it.\<close>

definition split_at :: "string \<Rightarrow> char \<Rightarrow> string \<times> string" where
  "split_at s d = (takeWhile (\<lambda>c. c \<noteq> d) s, drop 1 (dropWhile (\<lambda>c. c \<noteq> d) s))"

subsection \<open>Integers\<close>

text \<open>
  The digit loop of \<open>td::to_integer\<close>: an unsigned accumulator of \<open>w\<close> bits, stopping at
  the first character that is not a digit.
\<close>

fun digits_value :: "nat \<Rightarrow> nat \<Rightarrow> string \<Rightarrow> nat" where
  "digits_value w acc [] = acc"
| "digits_value w acc (c # cs) =
     (if is_digit c then digits_value w ((acc * 10 + (byte c - 48)) mod 2 ^ w) cs else acc)"

definition to_integer :: "nat \<Rightarrow> string \<Rightarrow> int" where
  "to_integer w str =
     (let neg = (str \<noteq> [] \<and> hd str = CHR ''-'');
          v = digits_value w 0 (if neg then tl str else str);
          max_v = 2 ^ (w - 1) - 1
      in if v > max_v
         then (let v' = (2 ^ w - v) mod 2 ^ w
               in if v' > max_v then - (2 ^ (w - 1))
                  else if \<not> neg then - int v' else int v')
         else if neg then - int v else int v)"

definition to_unsigned :: "nat \<Rightarrow> string \<Rightarrow> nat" where
  "to_unsigned w str = digits_value w 0 str"

text \<open>Decimal printing of an integer by \<open>td::StringBuilder\<close>.\<close>

fun show_nat :: "nat \<Rightarrow> string" where
  "show_nat n =
     (if n < 10 then [char_of (48 + n)] else show_nat (n div 10) @ [char_of (48 + n mod 10)])"

definition show_int :: "int \<Rightarrow> string" where
  "show_int i = (if i < 0 then CHR ''-'' # show_nat (nat (- i)) else show_nat (nat i))"

text \<open>
  \<open>td::to_integer_safe\<close> accepts a text only if printing the parsed number gives the text
  back; \<^const>\<open>None\<close> is its error result.
\<close>

definition to_integer_safe :: "nat \<Rightarrow> string \<Rightarrow> int option" where
  "to_integer_safe w str =
     (let res = to_integer w str in if show_int res \<noteq> str then None else Some res)"

definition to_unsigned_safe :: "nat \<Rightarrow> string \<Rightarrow> nat option" where
  "to_unsigned_safe w str =
     (let res = to_unsigned w str in if show_nat res \<noteq> str then None else Some res)"

definition clamp :: "int \<Rightarrow> int \<Rightarrow> int \<Rightarrow> int" where
  "clamp value min_value max_value =
     (if value < min_value then min_value else if value > max_value then max_value else value)"

subsection \<open>Percent-encoding\<close>

definition is_url_char :: "char \<Rightarrow> bool" where
  "is_url_char c \<longleftrightarrow>
     is_alnum c \<or> c = CHR ''-'' \<or> c = CHR ''.'' \<or> c = CHR ''_'' \<or> c = CHR ''~''"

definition hex_digits :: string where
  "hex_digits = ''0123456789ABCDEF''"

fun url_encode :: "string \<Rightarrow> string" where
  "url_encode [] = []"
| "url_encode (c # cs) =
     (if is_url_char c then c # url_encode cs
      else CHR ''%'' # hex_digits ! (byte c div 16) # hex_digits ! (byte c mod 16) # url_encode cs)"

fun url_decode :: "string \<Rightarrow> bool \<Rightarrow> string" where
  "url_decode [] sp = []"
| "url_decode (c # h # l # cs) sp =
     (if c = CHR ''%'' \<and> hex_to_int h < 16 \<and> hex_to_int l < 16
      then char_of (hex_to_int h * 16 + hex_to_int l) # url_decode cs sp
      else (if sp \<and> c = CHR ''+'' then CHR '' '' else c) # url_decode (h # l # cs) sp)"
| "url_decode (c # cs) sp =
     (if sp \<and> c = CHR ''+'' then CHR '' '' else c) # url_decode cs sp"


subsection \<open>Facts on characters\<close>

lemma byte_less [simp]: "byte c < 256"
  by (simp add: byte_def)

lemma byte_div_16: "byte c div 16 < 16"
  using byte_less [of c] by (simp add: less_mult_imp_div_less del: byte_less)

lemma char_of_byte [simp]: "char_of (byte c) = c"
  by (simp add: byte_def)

lemma byte_char_of [simp]: "n < 256 \<Longrightarrow> byte (char_of n) = n"
  by (simp add: byte_def)

lemma byte_inject: "byte c = byte d \<longleftrightarrow> c = d"
  by (metis char_of_byte)

lemma hex_to_int_hex_digits: "n < 16 \<Longrightarrow> hex_to_int (hex_digits ! n) = n"
proof -
  have "\<forall>n \<in> set [0..<16]. hex_to_int (hex_digits ! n) = n"
    by (simp add: hex_digits_def hex_to_int_def is_digit_def byte_def set_bit5_def upt_rec)
  then show "n < 16 \<Longrightarrow> hex_to_int (hex_digits ! n) = n" by simp
qed

lemma percent_not_url_char: "\<not> is_url_char CHR ''%''"
  by (simp add: is_url_char_def is_alnum_def is_alpha_def is_digit_def byte_def set_bit5_def)

lemma plus_not_url_char: "\<not> is_url_char CHR ''+''"
  by (simp add: is_url_char_def is_alnum_def is_alpha_def is_digit_def byte_def set_bit5_def)

lemma slash_not_url_char: "\<not> is_url_char CHR ''/''"
  by (simp add: is_url_char_def is_alnum_def is_alpha_def is_digit_def byte_def set_bit5_def)

lemma hex_digit_cases: "n < 16 \<Longrightarrow> hex_digits ! n \<in> set hex_digits"
  by (rule nth_mem) (simp add: hex_digits_def)

lemma hex_digits_not_slash: "CHR ''/'' \<notin> set hex_digits"
  by (simp add: hex_digits_def)

subsection \<open>Percent-encoding round trip\<close>

lemma url_decode_Cons_plain:
  "c \<noteq> CHR ''%'' \<Longrightarrow>
   url_decode (c # cs) sp = (if sp \<and> c = CHR ''+'' then CHR '' '' else c) # url_decode cs sp"
  by (cases cs; cases "tl cs") auto

lemma url_decode_url_encode: "url_decode (url_encode s) sp = s"
proof (induction s)
  case Nil
  then show ?case by simp
next
  case (Cons c cs)
  show ?case
  proof (cases "is_url_char c")
    case True
    then have "c \<noteq> CHR ''%''" and "c \<noteq> CHR ''+''"
      using percent_not_url_char plus_not_url_char by auto
    with True Cons.IH show ?thesis by (simp add: url_decode_Cons_plain)
  next
    case False
    have lt: "byte c div 16 < 16" by (rule byte_div_16)
    have "byte c div 16 * 16 + byte c mod 16 = byte c"
      by (simp add: div_mult_mod_eq)
    with False Cons.IH lt show ?thesis
      by (simp add: hex_to_int_hex_digits)
  qed
qed

lemma url_encode_no_slash: "CHR ''/'' \<notin> set (url_encode s)"
proof (induction s)
  case Nil
  then show ?case by simp
next
  case (Cons c cs)
  have "hex_digits ! (byte c div 16) \<noteq> CHR ''/''"
    using hex_digit_cases [of "byte c div 16"] hex_digits_not_slash
    by (metis byte_div_16)
  moreover have "hex_digits ! (byte c mod 16) \<noteq> CHR ''/''"
    using hex_digit_cases [of "byte c mod 16"] hex_digits_not_slash
    by (metis mod_less_divisor zero_less_numeral)
  ultimately show ?case
    using Cons.IH slash_not_url_char by auto
qed

lemma url_encode_eq_Nil [simp]: "url_encode s = [] \<longleftrightarrow> s = []"
  by (cases s) auto

lemma length_url_decode: "length (url_decode s sp) \<le> length s"
  by (induction s sp rule: url_decode.induct) auto

subsection \<open>Integer parsing\<close>

declare show_nat.simps [simp del]

lemma is_digit_char_of: "(n::nat) < 10 \<Longrightarrow> is_digit (char_of (48 + n))"
  by (simp add: is_digit_def)

lemma show_nat_digits: "list_all is_digit (show_nat n)"
proof (induction n rule: show_nat.induct)
  case (1 n)
  then show ?case
    by (subst show_nat.simps) (auto simp: is_digit_char_of)
qed

lemma show_nat_not_Nil [simp]: "show_nat n \<noteq> []"
  by (subst show_nat.simps) auto

lemma digits_value_append:
  "list_all is_digit xs \<Longrightarrow> digits_value w acc (xs @ ys) = digits_value w (digits_value w acc xs) ys"
  by (induction xs arbitrary: acc) auto

lemma digits_value_show_nat: "digits_value w 0 (show_nat n) = n mod 2 ^ w"
  if "4 \<le> w"
proof (induction n rule: show_nat.induct)
  case (1 n)
  show ?case
  proof (cases "n < 10")
    case True
    then show ?thesis by (subst show_nat.simps) (simp add: is_digit_char_of)
  next
    case False
    then have IH: "digits_value w 0 (show_nat (n div 10)) = (n div 10) mod 2 ^ w"
      using 1 by simp
    have "digits_value w 0 (show_nat n) =
        digits_value w (digits_value w 0 (show_nat (n div 10))) [char_of (48 + n mod 10)]"
      using False by (subst show_nat.simps) (simp add: digits_value_append show_nat_digits)
    also have "\<dots> = (((n div 10) mod 2 ^ w) * 10 + n mod 10) mod 2 ^ w"
      by (simp add: IH is_digit_char_of)
    also have "\<dots> = (n div 10 * 10 + n mod 10) mod 2 ^ w"
      by (metis mod_add_left_eq mod_mult_left_eq)
    also have "\<dots> = n mod 2 ^ w"
      by (simp add: div_mult_mod_eq)
    finally show ?thesis .
  qed
qed

lemma digits_value_less: "acc < 2 ^ w \<Longrightarrow> digits_value w acc s < 2 ^ w"
  by (induction s arbitrary: acc) auto

lemma hd_show_nat_not_minus [simp]: "hd (show_nat n) \<noteq> CHR ''-''"
proof -
  have "is_digit (hd (show_nat n))"
    using show_nat_digits [of n] by (cases "show_nat n") auto
  then show ?thesis by (auto simp: is_digit_def byte_def)
qed

lemma to_integer_range:
  "- (2 ^ (w - 1)) \<le> to_integer w s \<and> to_integer w s < 2 ^ (w - 1)"
proof -
  have signed: "- (2 ^ k) \<le> (if b then - int v else int v) \<and> (if b then - int v else int v) < 2 ^ k"
    if "v \<le> 2 ^ k - 1" for v k :: nat and b
  proof -
    from that have "v < 2 ^ k"
      by (metis Suc_pred' le_imp_less_Suc zero_less_numeral zero_less_power)
    then have "int v < 2 ^ k" by (metis of_nat_less_iff of_nat_numeral of_nat_power)
    moreover have "0 < (2 :: int) ^ k" by simp
    ultimately have "- (2 ^ k) \<le> - int v \<and> - int v < 2 ^ k" and "- (2 ^ k) \<le> int v \<and> int v < 2 ^ k"
      by linarith+
    then show ?thesis by (cases b) (simp_all only: if_True if_False)
  qed
  have neg: "- (2 ^ k) < (2 :: int) ^ k" for k :: nat
    by (metis less_trans neg_less_0_iff_less zero_less_numeral zero_less_power)
  show ?thesis
    unfolding to_integer_def Let_def
    using signed [of _ "w - 1"] signed [of _ "w - 1" True] signed [of _ "w - 1" False] neg
    by (simp add: not_less)
qed

lemma to_integer_show_int:
  assumes "4 \<le> w" and "- (2 ^ (w - 1)) \<le> v" and "v < 2 ^ (w - 1)"
  shows "to_integer w (show_int v) = v"
proof (cases "v < 0")
  case False
  define n where "n = nat v"
  with False have v: "v = int n" by simp
  with assms have n: "n < 2 ^ (w - 1)"
    by (metis of_nat_less_iff of_nat_numeral of_nat_power)
  have "(2::nat) ^ (w - 1) \<le> 2 ^ w" by (simp add: power_increasing)
  with n have "n < 2 ^ w" by linarith
  with n assms(1) show ?thesis
    by (simp add: v to_integer_def show_int_def Let_def digits_value_show_nat)
next
  case True
  define n where "n = nat (- v)"
  with True have v: "v = - int n" and pos: "0 < n" by simp_all
  with assms have n: "n \<le> 2 ^ (w - 1)"
    by (metis neg_le_iff_le of_nat_le_iff of_nat_numeral of_nat_power)
  have ww: "(2::nat) ^ w = 2 * 2 ^ (w - 1)"
    using assms(1) by (metis Suc_pred' less_le_trans power_Suc zero_less_numeral)
  then have lt: "n < 2 ^ w" using n by (simp add: le_less_trans)
  have eq: "to_integer w (show_int v) =
     (if n > 2 ^ (w - 1) - 1
      then (if (2 ^ w - n) mod 2 ^ w > 2 ^ (w - 1) - 1 then - (2 ^ (w - 1)) else int ((2 ^ w - n) mod 2 ^ w))
      else - int n)"
    using True lt assms(1) by (simp add: n_def to_integer_def show_int_def Let_def digits_value_show_nat)
  show ?thesis
  proof (cases "n = 2 ^ (w - 1)")
    case True
    have half: "(2::nat) ^ (w - 1) < 2 ^ w" using ww by simp
    have "2 ^ w - n = (2::nat) ^ (w - 1)" using ww True by simp
    with half have "(2 ^ w - n) mod 2 ^ w = (2::nat) ^ (w - 1)" by (simp only: mod_less)
    then have "to_integer w (show_int v) = - (2 ^ (w - 1))"
      using True by (simp only: eq) simp
    then show ?thesis using True v by simp
  next
    case False
    with n have "\<not> n > 2 ^ (w - 1) - 1" by linarith
    then show ?thesis using v eq by simp
  qed
qed

text \<open>
  The whole behaviour of \<open>to_integer_safe\<close>: it accepts exactly the canonical decimal
  spelling of the numbers of the type.
\<close>

lemma to_integer_safe_iff:
  assumes "4 \<le> w"
  shows "to_integer_safe w s = Some v \<longleftrightarrow> s = show_int v \<and> - (2 ^ (w - 1)) \<le> v \<and> v < 2 ^ (w - 1)"
proof
  assume "to_integer_safe w s = Some v"
  then have "to_integer w s = v" and "show_int v = s"
    by (auto simp: to_integer_safe_def Let_def split: if_splits)
  with to_integer_range [of w s] show "s = show_int v \<and> - (2 ^ (w - 1)) \<le> v \<and> v < 2 ^ (w - 1)"
    by auto
next
  assume "s = show_int v \<and> - (2 ^ (w - 1)) \<le> v \<and> v < 2 ^ (w - 1)"
  with assms show "to_integer_safe w s = Some v"
    by (simp add: to_integer_safe_def to_integer_show_int)
qed

lemma to_unsigned_safe_iff:
  assumes "4 \<le> w"
  shows "to_unsigned_safe w s = Some n \<longleftrightarrow> s = show_nat n \<and> n < 2 ^ w"
  using assms digits_value_less [of 0 w s]
  by (auto simp: to_unsigned_safe_def to_unsigned_def Let_def digits_value_show_nat split: if_splits)

lemma show_nat_inject: "show_nat m = show_nat n \<Longrightarrow> m = n"
proof -
  assume eq: "show_nat m = show_nat n"
  define w where "w = max 4 (m + n)"
  have "w < 2 ^ w" by (rule less_exp)
  moreover have "m \<le> w" and "n \<le> w" by (simp_all add: w_def)
  ultimately have "m < 2 ^ w \<and> n < 2 ^ w" by linarith
  moreover have "m mod 2 ^ w = n mod 2 ^ w"
    using eq digits_value_show_nat [of w] by (metis max.cobounded1 w_def)
  ultimately show ?thesis by simp
qed

lemma show_int_no_char:
  assumes "\<not> is_digit c" and "c \<noteq> CHR ''-''"
  shows "c \<notin> set (show_int v)"
  using assms show_nat_digits by (auto simp: show_int_def list_all_iff)

lemma begins_with_append [simp]: "begins_with (p @ s) p"
  by (simp add: begins_with_def)

lemma begins_with_iff: "begins_with s p \<longleftrightarrow> (\<exists>r. s = p @ r)"
  by (auto simp: begins_with_def) (metis append_take_drop_id)

lemma ends_with_iff: "ends_with s p \<longleftrightarrow> (\<exists>r. s = r @ p)"
  by (auto simp: ends_with_def) (metis append_take_drop_id)

lemma clamp_bounds: "lo \<le> hi \<Longrightarrow> lo \<le> clamp v lo hi \<and> clamp v lo hi \<le> hi"
  by (simp add: clamp_def)

end
