(* ===== verification/Stream_Parser.thy ===== *)
theory Stream_Parser
  imports Text_Utils
begin

section \<open>The slice parser of tdutils\<close>

text \<open>
  \<open>td::ConstParser\<close> (\<open>td/utils/Parser.h\<close>): a cursor over a text with a sticky error
  status. The pointers \<open>ptr_\<close> and \<open>end_\<close> delimit the unread text, which is the
  field \<open>rest\<close>; \<open>status_\<close> is \<open>failure\<close>, \<^const>\<open>None\<close> while it is OK.
  Operations that return a slice and move the pointer return the slice and the new parser.
\<close>

record parser =
  rest :: string
  failure :: "string option"

definition new_parser :: "string \<Rightarrow> parser" where
  "new_parser s = \<lparr>rest = s, failure = None\<rparr>"

definition parser_empty :: "parser \<Rightarrow> bool" where
  "parser_empty p \<longleftrightarrow> rest p = []"

definition read_till_nofail :: "char \<Rightarrow> parser \<Rightarrow> string \<times> parser" where
  "read_till_nofail c p =
     (case failure p of
        Some e \<Rightarrow> ([], p)
      | None \<Rightarrow> (takeWhile (\<lambda>x. x \<noteq> c) (rest p), p\<lparr>rest := dropWhile (\<lambda>x. x \<noteq> c) (rest p)\<rparr>))"

text \<open>The overload on a set of delimiters stops at the earliest of them.\<close>

definition read_till_nofail_any :: "string \<Rightarrow> parser \<Rightarrow> string \<times> parser" where
  "read_till_nofail_any ds p =
     (case failure p of
        Some e \<Rightarrow> ([], p)
      | None \<Rightarrow>
          (takeWhile (\<lambda>x. x \<notin> set ds) (rest p), p\<lparr>rest := dropWhile (\<lambda>x. x \<notin> set ds) (rest p)\<rparr>))"

definition read_while :: "(char \<Rightarrow> bool) \<Rightarrow> parser \<Rightarrow> string \<times> parser" where
  "read_while f p = (takeWhile f (rest p), p\<lparr>rest := dropWhile f (rest p)\<rparr>)"

definition read_all :: "parser \<Rightarrow> string \<times> parser" where
  "read_all p = (rest p, p\<lparr>rest := []\<rparr>)"

definition read_till :: "char \<Rightarrow> parser \<Rightarrow> string \<times> parser" where
  "read_till c p =
     (case failure p of
        Some e \<Rightarrow> ([], p)
      | None \<Rightarrow>
          (let (res, q) = read_till_nofail c p
           in if rest q = [] \<or> hd (rest q) \<noteq> c
              then ([], q\<lparr>failure := Some (''Read till '' @ [CHR 0x27, c, CHR 0x27] @ '' failed'')\<rparr>)
              else (res, q)))"

definition peek_char :: "parser \<Rightarrow> char" where
  "peek_char p = (if rest p = [] then CHR 0x00 else hd (rest p))"

definition skip_nofail :: "char \<Rightarrow> parser \<Rightarrow> parser" where
  "skip_nofail c p =
     (if rest p \<noteq> [] \<and> hd (rest p) = c then p\<lparr>rest := tl (rest p)\<rparr> else p)"

definition skip :: "char \<Rightarrow> parser \<Rightarrow> parser" where
  "skip c p =
     (case failure p of
        Some e \<Rightarrow> p
      | None \<Rightarrow>
          if rest p = [] \<or> hd (rest p) \<noteq> c
          then p\<lparr>failure := Some (''Skip '' @ [CHR 0x27, c, CHR 0x27] @ '' failed'')\<rparr>
          else p\<lparr>rest := tl (rest p)\<rparr>)"

definition try_skip_char :: "char \<Rightarrow> parser \<Rightarrow> bool \<times> parser" where
  "try_skip_char c p =
     (if rest p \<noteq> [] \<and> hd (rest p) = c then (True, p\<lparr>rest := tl (rest p)\<rparr>) else (False, p))"

definition try_skip :: "string \<Rightarrow> parser \<Rightarrow> bool \<times> parser" where
  "try_skip pre p =
     (if length pre > length (rest p) \<or> pre \<noteq> take (length pre) (rest p) then (False, p)
      else (True, p\<lparr>rest := drop (length pre) (rest p)\<rparr>))"

definition skip_till_not :: "string \<Rightarrow> parser \<Rightarrow> parser" where
  "skip_till_not str p = p\<lparr>rest := dropWhile (\<lambda>c. c \<in> set str) (rest p)\<rparr>"

definition whitespace_chars :: string where
  "whitespace_chars = [CHR '' '', CHR 0x09, CHR 0x0D, CHR 0x0A]"

definition skip_whitespaces :: "parser \<Rightarrow> parser" where
  "skip_whitespaces p = skip_till_not whitespace_chars p"

definition read_word :: "parser \<Rightarrow> string \<times> parser" where
  "read_word p = read_till_nofail_any whitespace_chars (skip_whitespaces p)"

subsection \<open>Rules for the parsers of the development\<close>

named_theorems parser_simps \<open>evaluation of parser operations on a known prefix\<close>

lemma new_parser_simps [parser_simps]:
  "rest (new_parser s) = s" "failure (new_parser s) = None"
  by (simp_all add: new_parser_def)

lemma try_skip_prefix [parser_simps]:
  "rest p = pre @ s \<Longrightarrow> try_skip pre p = (True, p\<lparr>rest := s\<rparr>)"
  by (simp add: try_skip_def)

lemma try_skip_iff:
  "try_skip pre p = (b, q) \<longleftrightarrow>
     (b \<and> rest p = pre @ rest q \<and> failure q = failure p \<and> parser.more q = parser.more p) \<or>
     (\<not> b \<and> \<not> begins_with (rest p) pre \<and> q = p)"
proof (cases "begins_with (rest p) pre")
  case True
  then obtain s where s: "rest p = pre @ s" by (auto simp: begins_with_iff)
  with True show ?thesis
    by (cases q; cases p) (auto simp: try_skip_def)
next
  case False
  then show ?thesis by (auto simp: try_skip_def begins_with_def)
qed

lemma try_skip_new_cases:
  obtains b s' where "try_skip pre (new_parser s) = (b, new_parser s')"
    "s = (if b then pre else []) @ s'"
proof (cases "begins_with s pre")
  case True
  then obtain s' where "s = pre @ s'" by (auto simp: begins_with_iff)
  with that [of True s'] show ?thesis by (simp add: try_skip_def new_parser_def)
next
  case False
  with that [of False s] show ?thesis by (auto simp: try_skip_def new_parser_def begins_with_def)
qed

lemma read_till_found [parser_simps]:
  assumes "failure p = None" and "rest p = xs @ c # ys" and "c \<notin> set xs"
  shows "read_till c p = (xs, p\<lparr>rest := c # ys\<rparr>)"
  using assms by (simp add: read_till_def read_till_nofail_def)

lemma read_till_nofail_found [parser_simps]:
  assumes "failure p = None" and "rest p = xs @ c # ys" and "c \<notin> set xs"
  shows "read_till_nofail c p = (xs, p\<lparr>rest := c # ys\<rparr>)"
  using assms by (simp add: read_till_nofail_def)

lemma dropWhile_neq_notin [simp]: "c \<notin> set xs \<Longrightarrow> dropWhile (\<lambda>x. x \<noteq> c) xs = []"
  by (induction xs) auto

lemma takeWhile_neq_notin [simp]: "c \<notin> set xs \<Longrightarrow> takeWhile (\<lambda>x. x \<noteq> c) xs = xs"
  by (induction xs) auto

lemma read_till_missing [parser_simps]:
  assumes "failure p = None" and "c \<notin> set (rest p)"
  shows "fst (read_till c p) = [] \<and> failure (snd (read_till c p)) \<noteq> None"
  using assms by (simp add: read_till_def read_till_nofail_def)

lemma skip_found [parser_simps]:
  "failure p = None \<Longrightarrow> rest p = c # s \<Longrightarrow> skip c p = p\<lparr>rest := s\<rparr>"
  by (simp add: skip_def)

text \<open>What a loop of \<open>read_till_nofail\<close> and \<open>skip_nofail\<close> consumes: it always advances.\<close>

lemma read_till_nofail_skip_less:
  assumes "failure p = None" and "rest p \<noteq> []"
  shows "length (rest (skip_nofail c (snd (read_till_nofail c p)))) < length (rest p)"
proof -
  have eq: "rest (skip_nofail c (snd (read_till_nofail c p))) = tl (dropWhile (\<lambda>x. x \<noteq> c) (rest p))"
    using assms(1) by (cases "dropWhile (\<lambda>x. x \<noteq> c) (rest p)")
      (auto simp: read_till_nofail_def skip_nofail_def dest: dropWhile_eq_Cons_hd
        simp del: dropWhile_eq_Nil_conv)
  have "length (tl (dropWhile (\<lambda>x. x \<noteq> c) xs)) < length xs" if "xs \<noteq> []" for xs :: string
    using that length_dropWhile_le [of "\<lambda>x. x \<noteq> c" xs] by (cases xs) (auto simp: less_Suc_eq_le le_diff_conv)
  then show ?thesis using eq assms(2) by simp
qed

lemma failure_skip_nofail [simp]: "failure (skip_nofail c p) = failure p"
  by (simp add: skip_nofail_def)

lemma failure_read_till_nofail [simp]: "failure (snd (read_till_nofail c p)) = failure p"
  by (simp add: read_till_nofail_def split: option.splits)

end
