(* ===== verification/Ip_Address.thy ===== *)
theory Ip_Address
  imports Text_Utils
begin

unbundle bit_operations_syntax

section \<open>Network addresses\<close>

text \<open>
  \<open>td::IPAddress\<close> (\<open>td/utils/port/IPAddress.cpp\<close>). An address is not valid, an IPv4
  address (\<open>get_ipv4\<close>, 32 bits in host order) or an IPv6 address (\<open>get_ipv6\<close>, 16
  bytes in network order). The operating system's \<open>inet_pton\<close> is a parameter of the
  operations that parse an address text.
\<close>

datatype ip_address = InvalidAddress | IPv4 (get_ipv4: "32 word") | IPv6 (get_ipv6: "8 word list")

definition ip_is_valid :: "ip_address \<Rightarrow> bool" where
  "ip_is_valid a \<longleftrightarrow> a \<noteq> InvalidAddress"

definition is_ipv4 :: "ip_address \<Rightarrow> bool" where
  "is_ipv4 a \<longleftrightarrow> (case a of IPv4 w \<Rightarrow> True | _ \<Rightarrow> False)"

definition is_ipv6 :: "ip_address \<Rightarrow> bool" where
  "is_ipv6 a \<longleftrightarrow> (case a of IPv6 bs \<Rightarrow> True | _ \<Rightarrow> False)"

type_synonym pton4 = "string \<Rightarrow> 32 word option"
type_synonym pton6 = "string \<Rightarrow> 8 word list option"

definition init_ipv4_port :: "pton4 \<Rightarrow> string \<Rightarrow> int \<Rightarrow> ip_address result" where
  "init_ipv4_port pton ipv4 port =
     (if port \<le> 0 \<or> port \<ge> 2 ^ 16
      then Inl (Error 0 (''Invalid [IPv4 address port='' @ show_int port @ '']''))
      else case pton ipv4 of
             None \<Rightarrow> Inl (Error 0 (''Failed inet_pton(AF_INET, '' @ ipv4 @ '')''))
           | Some w \<Rightarrow> Inr (IPv4 w))"

definition init_ipv6_port :: "pton6 \<Rightarrow> string \<Rightarrow> int \<Rightarrow> ip_address result" where
  "init_ipv6_port pton ipv6 port =
     (if port \<le> 0 \<or> port \<ge> 2 ^ 16
      then Inl (Error 0 (''Invalid [IPv6 address port='' @ show_int port @ '']''))
      else let plain = (if length ipv6 > 2 \<and> hd ipv6 = CHR ''['' \<and> last ipv6 = CHR '']''
                        then butlast (tl ipv6) else ipv6)
           in case pton plain of
                None \<Rightarrow> Inl (Error 0 (''Failed inet_pton(AF_INET6, '' @ plain @ '')''))
              | Some bs \<Rightarrow> Inr (IPv6 bs))"

text \<open>The blocks of \<open>is_reserved\<close>: first address (dotted quad in the source) and mask length.\<close>

definition quad :: "nat \<Rightarrow> nat \<Rightarrow> nat \<Rightarrow> nat \<Rightarrow> 32 word" where
  "quad a b c d = word_of_nat (((a * 256 + b) * 256 + c) * 256 + d)"

definition reserved_blocks :: "(32 word \<times> nat) list" where
  "reserved_blocks =
     [(quad 0 0 0 0, 8), (quad 10 0 0 0, 8), (quad 100 64 0 0, 10), (quad 127 0 0 0, 8),
      (quad 169 254 0 0, 16), (quad 172 16 0 0, 12), (quad 192 0 0 0, 24), (quad 192 0 2 0, 24),
      (quad 192 88 99 0, 24), (quad 192 168 0 0, 16), (quad 198 18 0 0, 15), (quad 198 51 100 0, 24),
      (quad 203 0 113 0, 24), (quad 224 0 0 0, 3)]"

definition block_mask :: "nat \<Rightarrow> 32 word" where
  "block_mask m = push_bit (32 - m) (drop_bit (32 - m) (- 1))"

text \<open>An invalid address fails the check at its beginning.\<close>

definition is_reserved :: "ip_address \<Rightarrow> bool option" where
  "is_reserved a =
     (case a of
        IPv6 bs \<Rightarrow> Some True
      | IPv4 ip \<Rightarrow>
          Some (list_ex (\<lambda>(range, m). ip AND block_mask m = range AND block_mask m) reserved_blocks)
      | InvalidAddress \<Rightarrow> None)"

text \<open>Two addresses agree under a mask of the high bits iff they have the same high bits.\<close>

lemma and_mask_eq_iff:
  fixes ip range :: "32 word"
  shows "ip AND NOT (mask k) = range AND NOT (mask k) \<longleftrightarrow> drop_bit k ip = drop_bit k range"
proof
  assume eq: "ip AND NOT (mask k) = range AND NOT (mask k)"
  have "drop_bit k (x AND NOT (mask k)) = drop_bit k x" for x :: "32 word"
    by (rule bit_word_eqI) (auto simp: bit_simps dest: bit_imp_le_length)
  then show "drop_bit k ip = drop_bit k range" using eq by metis
next
  assume eq: "drop_bit k ip = drop_bit k range"
  show "ip AND NOT (mask k) = range AND NOT (mask k)"
  proof (rule bit_word_eqI)
    fix n
    assume n: "n < LENGTH(32)"
    have "bit ip n = bit range n" if "k \<le> n"
      using arg_cong [OF eq, of "\<lambda>w. bit w (n - k)"] that by (simp add: bit_simps)
    then show "bit (ip AND NOT (mask k)) n = bit (range AND NOT (mask k)) n"
      by (auto simp: bit_simps)
  qed
qed

lemma drop_bit_eq_iff_div:
  fixes ip range :: "32 word"
  shows "drop_bit k ip = drop_bit k range \<longleftrightarrow> unat ip div 2 ^ k = unat range div 2 ^ k"
proof -
  have "drop_bit k ip = drop_bit k range \<longleftrightarrow> unat (drop_bit k ip) = unat (drop_bit k range)"
    by (rule word_unat_eq_iff)
  moreover have "unat (drop_bit k w) = unat w div 2 ^ k" for w :: "32 word"
    by (metis unat_drop_bit_eq drop_bit_eq_div)
  ultimately show ?thesis by simp
qed

lemma block_mask_eq: "block_mask m = NOT (mask (32 - m))"
  by (rule bit_word_eqI) (auto simp: block_mask_def bit_simps)

lemmas masked_eq_iff = and_mask_eq_iff [unfolded drop_bit_eq_iff_div]

text \<open>A reserved IPv4 address is one whose leading bits are those of a listed block.\<close>

lemma is_reserved_ipv4_iff:
  "is_reserved (IPv4 ip) = Some True \<longleftrightarrow>
     (\<exists>(range, m) \<in> set reserved_blocks. unat ip div 2 ^ (32 - m) = unat range div 2 ^ (32 - m))"
  by (simp add: is_reserved_def list_ex_iff block_mask_eq masked_eq_iff)

end
