(* ===== verification/Stream_Route.thy ===== *)
theory Stream_Route
  imports Stream_Parser Ip_Address "HOL-Library.Monad_Syntax"
begin

unbundle bit_operations_syntax

section \<open>The routing decisions of the file streaming endpoint\<close>

text \<open>
  The pure functions of \<open>FileStreamRoute.cpp\<close>: who may use the endpoint
  (\<open>is_file_stream_ip_allowed\<close>), what a request path means (\<open>parse_file_stream_route\<close>),
  the size hint and no-cache headers, what to do with the local copy after a stream, and which
  size a stream announces.
\<close>

subsection \<open>Address allowlist\<close>

record ip_prefix =
  pfx_ipv4 :: "32 word"
  pfx_ipv6 :: "8 word list"
  pfx_is_ipv4 :: bool
  pfx_len :: int

text \<open>
  The constructor of \<open>CSlice\<close> checks that the character behind its text is NUL; a failed check is \<^const>\<open>None\<close>.
  The second argument is what follows the text in its buffer, up to the terminator of the buffer.
\<close>

definition c_slice :: "string \<Rightarrow> string \<Rightarrow> string option" where
  "c_slice str after = (if after = [] \<or> hd after = CHR 0x00 then Some str else None)"

definition parse_ipv6_prefix :: "pton6 \<Rightarrow> string \<Rightarrow> string \<Rightarrow> 8 word list option option" where
  "parse_ipv6_prefix pton str after =
     do { text \<leftarrow> c_slice str after;
          Some (case init_ipv6_port pton text 0 of
                  Inl e \<Rightarrow> None
                | Inr addr \<Rightarrow> if length (get_ipv6 addr) \<noteq> 16 then None else Some (get_ipv6 addr)) }"

text \<open>The text before the last slash and, if there is one, the text after it.\<close>

definition split_prefix_len :: "string \<Rightarrow> string \<times> string option" where
  "split_prefix_len entry =
     (if CHR ''/'' \<in> set entry
      then let after = rev (takeWhile (\<lambda>c. c \<noteq> CHR ''/'') (rev entry))
           in (take (length entry - length after - 1) entry, Some after)
      else (entry, None))"

text \<open>The spaces that \<open>trim\<close> removes at the end.\<close>

definition trimmed_tail :: "string \<Rightarrow> string" where
  "trimmed_tail s = rev (takeWhile is_space (rev (dropWhile is_space s)))"

definition entry_prefix_len :: "string option \<Rightarrow> int option" where
  "entry_prefix_len prefix_part =
     (case prefix_part of
        None \<Rightarrow> Some (-1)
      | Some t \<Rightarrow> if t = [] \<or> \<not> list_all is_digit t then None else to_integer_safe 32 t)"

text \<open>\<open>after\<close> is what follows the entry in the list.\<close>

definition parse_allow_ip_entry :: "pton4 \<Rightarrow> pton6 \<Rightarrow> string \<Rightarrow> string \<Rightarrow> ip_prefix option option" where
  "parse_allow_ip_entry p4 p6 raw_entry after =
     (let entry = trim raw_entry in
      if entry = [] then Some None
      else
        let (addr_part, prefix_part) = split_prefix_len entry;
            behind = drop (length addr_part) entry @ trimmed_tail raw_entry @ after
        in case entry_prefix_len prefix_part of
             None \<Rightarrow> Some None
           | Some prefix_len \<Rightarrow>
               do { text \<leftarrow> c_slice addr_part behind;
                    case init_ipv4_port p4 text 0 of
                      Inr addr \<Rightarrow>
                        (let len = (if prefix_len < 0 then 32 else prefix_len)
                         in Some (if 0 \<le> len \<and> len \<le> 32
                                  then Some \<lparr>pfx_ipv4 = get_ipv4 addr, pfx_ipv6 = replicate 16 0,
                                             pfx_is_ipv4 = True, pfx_len = len\<rparr>
                                  else None))
                    | Inl e \<Rightarrow>
                        map_option (\<lambda>r. case r of
                             None \<Rightarrow> None
                           | Some v6 \<Rightarrow>
                               (let len = (if prefix_len < 0 then 128 else prefix_len)
                                in if 0 \<le> len \<and> len \<le> 128
                                   then Some \<lparr>pfx_ipv4 = 0, pfx_ipv6 = v6, pfx_is_ipv4 = False, pfx_len = len\<rparr>
                                   else None))
                          (parse_ipv6_prefix p6 addr_part behind) })"

definition is_private_or_loopback :: "ip_address \<Rightarrow> bool" where
  "is_private_or_loopback addr =
     (case addr of
        InvalidAddress \<Rightarrow> False
      | IPv4 ip \<Rightarrow>
          drop_bit 24 ip = 0 \<or> drop_bit 24 ip = 10 \<or> drop_bit 24 ip = 127 \<or> drop_bit 16 ip = 0xA9FE \<or>
          drop_bit 20 ip AND 0xFFF = 0xAC1 \<or> drop_bit 16 ip = 0xC0A8
      | IPv6 v6 \<Rightarrow>
          length v6 = 16 \<and>
          (list_all (\<lambda>b. b = 0) (take 15 v6) \<and> v6 ! 15 = 1 \<or> hd v6 AND 0xFE = 0xFC))"

definition ipv4_matches :: "ip_prefix \<Rightarrow> 32 word \<Rightarrow> bool" where
  "ipv4_matches prefix ip =
     (let m = (if pfx_len prefix = 0 then 0 else push_bit (nat (32 - pfx_len prefix)) 0xFFFFFFFF)
      in pfx_ipv4 prefix AND m = ip AND m)"

definition ipv6_matches :: "ip_prefix \<Rightarrow> 8 word list \<Rightarrow> bool" where
  "ipv6_matches prefix ip =
     (let full_bytes = nat (pfx_len prefix) div 8;
          rem_bits = nat (pfx_len prefix) mod 8;
          m = (push_bit (8 - rem_bits) 0xFF :: 8 word)
      in list_all (\<lambda>i. pfx_ipv6 prefix ! i = ip ! i) [0..<full_bytes] \<and>
         (rem_bits > 0 \<longrightarrow> pfx_ipv6 prefix ! full_bytes AND m = ip ! full_bytes AND m))"

text \<open>The body of the loop of \<open>is_file_stream_ip_allowed\<close>: does one entry admit the peer?\<close>

definition entry_allows :: "pton4 \<Rightarrow> pton6 \<Rightarrow> ip_address \<Rightarrow> string \<Rightarrow> string \<Rightarrow> bool option" where
  "entry_allows p4 p6 peer entry after =
     map_option (\<lambda>r. case r of
        None \<Rightarrow> False
      | Some prefix \<Rightarrow>
          if pfx_is_ipv4 prefix \<and> is_ipv4 peer then ipv4_matches prefix (get_ipv4 peer)
          else if \<not> pfx_is_ipv4 prefix \<and> is_ipv6 peer
          then length (get_ipv6 peer) = 16 \<and> ipv6_matches prefix (get_ipv6 peer)
          else False) (parse_allow_ip_entry p4 p6 entry after)"

function allow_ip_loop :: "pton4 \<Rightarrow> pton6 \<Rightarrow> ip_address \<Rightarrow> string \<Rightarrow> bool option" where
  "allow_ip_loop p4 p6 peer str =
     (if str = [] then Some False
      else let (entry, p) = read_till_nofail CHR '','' (new_parser str)
           in case entry_allows p4 p6 peer entry (rest p) of
                None \<Rightarrow> None
              | Some allowed \<Rightarrow> if allowed then Some True else allow_ip_loop p4 p6 peer (rest (skip_nofail CHR '','' p)))"
  by pat_completeness auto
termination
proof (relation "measure (\<lambda>(p4, p6, peer, str). length str)")
  fix p4 :: pton4 and p6 :: pton6 and peer :: ip_address and str entry :: string and x p a
  assume "str \<noteq> []" and "x = read_till_nofail CHR '','' (new_parser str)" and "(entry, p) = x"
  then show "((p4, p6, peer, rest (skip_nofail CHR '','' p)), p4, p6, peer, str)
      \<in> measure (\<lambda>(p4, p6, peer, str). length str)"
    using read_till_nofail_skip_less [of "new_parser str" "CHR '',''"]
    by (simp add: new_parser_simps) (metis snd_conv)
qed simp

declare allow_ip_loop.simps [simp del]

definition is_file_stream_ip_allowed :: "pton4 \<Rightarrow> pton6 \<Rightarrow> ip_address \<Rightarrow> string \<Rightarrow> bool option" where
  "is_file_stream_ip_allowed p4 p6 peer_address allow_ip =
     (if \<not> ip_is_valid peer_address then Some False
      else if allow_ip = [] then Some (is_private_or_loopback peer_address)
      else allow_ip_loop p4 p6 peer_address allow_ip)"

subsection \<open>Request path and headers\<close>

record file_stream_route =
  route_token :: string
  route_file_id :: string
  route_is_test_dc :: bool
  route_expected_size :: int
  route_no_cache :: bool

definition is_hex :: "char \<Rightarrow> bool" where
  "is_hex c \<longleftrightarrow>
     48 \<le> byte c \<and> byte c \<le> 57 \<or> 97 \<le> byte c \<and> byte c \<le> 102 \<or> 65 \<le> byte c \<and> byte c \<le> 70"

definition invalid_encoding :: td_error where
  "invalid_encoding = Error 400 ''Invalid percent-encoding in file_id''"

fun validate_url_encoding :: "string \<Rightarrow> td_error option" where
  "validate_url_encoding [] = None"
| "validate_url_encoding (c # h # l # cs) =
     (if c = CHR ''%''
      then if \<not> is_hex h \<or> \<not> is_hex l then Some invalid_encoding else validate_url_encoding cs
      else validate_url_encoding (h # l # cs))"
| "validate_url_encoding (c # cs) =
     (if c = CHR ''%'' then Some invalid_encoding else validate_url_encoding cs)"

definition size_hint_error :: td_error where
  "size_hint_error = Error 400 ''Invalid X-Telegram-File-Size header''"

definition parse_file_stream_size_hint :: "string \<Rightarrow> int result" where
  "parse_file_stream_size_hint val =
     (if val = [] then Inr (-1)
      else if \<not> list_all is_digit val then Inl size_hint_error
      else case to_integer_safe 64 val of
             None \<Rightarrow> Inl size_hint_error
           | Some sz \<Rightarrow> if sz \<le> 0 then Inl size_hint_error else Inr sz)"

definition parse_file_stream_no_cache :: "string \<Rightarrow> bool" where
  "parse_file_stream_no_cache val = (trim val = ''1'' \<or> to_lower (trim val) = ''true'')"

definition parse_file_stream_route :: "string \<Rightarrow> file_stream_route result" where
  "parse_file_stream_route path =
     (case try_skip ''/stream/file/bot'' (new_parser path) of
        (False, p) \<Rightarrow> Inl (Error 404 ''Not Found'')
      | (True, p) \<Rightarrow>
          let (token, p1) = read_till CHR ''/'' p in
          if token = [] then Inl (Error 400 ''Token is empty'')
          else
            let p2 = skip CHR ''/'' p1 in
            if failure p2 \<noteq> None then Inl (Error 400 ''file_id is missing'')
            else
              let (is_test_dc, p3) = try_skip ''test/'' p2;
                  encoded = rest p3
              in if encoded = [] \<or> CHR ''/'' \<in> set encoded
                 then Inl (Error 400 ''Invalid file_id path'')
                 else case validate_url_encoding encoded of
                        Some e \<Rightarrow> Inl e
                      | None \<Rightarrow>
                          let file_id = url_decode encoded False in
                          if file_id = [] \<or> length file_id > 4096 \<or> CHR ''/'' \<in> set file_id \<or>
                             CHR 0x00 \<in> set file_id
                          then Inl (Error 400 ''Invalid file_id specified'')
                          else Inr \<lparr>route_token = token, route_file_id = file_id,
                                    route_is_test_dc = is_test_dc, route_expected_size = -1,
                                    route_no_cache = False\<rparr>)"

subsection \<open>Decisions after and before a stream\<close>

datatype local_copy_action = ActionNone | DeleteLocalCopy | CancelDownload | SkipBusy

record local_copy_decision_input =
  remove_requested :: bool
  completed_ok :: bool
  other_stream_listeners :: bool
  download_listener_active :: bool

definition decide_file_stream_local_copy_action :: "local_copy_decision_input \<Rightarrow> local_copy_action" where
  "decide_file_stream_local_copy_action i =
     (if \<not> remove_requested i then (if completed_ok i then ActionNone else CancelDownload)
      else if \<not> completed_ok i then CancelDownload
      else if other_stream_listeners i then ActionNone
      else if download_listener_active i then SkipBusy
      else DeleteLocalCopy)"

definition resolve_file_stream_size :: "int \<Rightarrow> int \<Rightarrow> int result" where
  "resolve_file_stream_size tdlib_size expected_size =
     (if tdlib_size > 0 \<and> expected_size > 0
      then if tdlib_size \<noteq> expected_size
           then Inl (Error 502 (''Exact file sizes from Telegram don'' @ [CHR 0x27] @ ''t match''))
           else Inr tdlib_size
      else if tdlib_size > 0 then Inr tdlib_size
      else if expected_size > 0 then Inr expected_size
      else Inl (Error 502 ''Exact file size is unavailable from Telegram''))"

subsection \<open>The allowlist\<close>

lemma push_bit_all_ones: "push_bit k (0xFFFFFFFF :: 32 word) = NOT (mask k)"
proof -
  have "(0xFFFFFFFF :: 32 word) = - 1" by simp
  then show ?thesis by (simp only: push_bit_minus_one_eq_not_mask)
qed

lemma ipv4_matches_iff_div:
  assumes "0 \<le> pfx_len p" and "pfx_len p \<le> 32"
  shows "ipv4_matches p ip \<longleftrightarrow>
    unat (pfx_ipv4 p) div 2 ^ nat (32 - pfx_len p) = unat ip div 2 ^ nat (32 - pfx_len p)"
proof (cases "pfx_len p = 0")
  case True
  have "unat w div 2 ^ 32 = 0" for w :: "32 word"
    using unsigned_less [of w, where ?'a = nat] by simp
  with True show ?thesis by (simp add: ipv4_matches_def)
next
  case False
  then show ?thesis by (simp add: ipv4_matches_def push_bit_all_ones masked_eq_iff)
qed

text \<open>The bits of an IPv6 address in network order, most significant bit of each byte first.\<close>

definition addr_bit :: "8 word list \<Rightarrow> nat \<Rightarrow> bool" where
  "addr_bit bs i = bit (bs ! (i div 8)) (7 - i mod 8)"

lemma byte_eq_iff_bits: "(a :: 8 word) = b \<longleftrightarrow> (\<forall>j<8. bit a (7 - j) = bit b (7 - j))"
proof
  assume all: "\<forall>j<8. bit a (7 - j) = bit b (7 - j)"
  show "a = b"
  proof (rule bit_word_eqI)
    fix n
    assume "n < LENGTH(8)"
    with all [rule_format, of "7 - n"] show "bit a n = bit b n" by simp
  qed
qed simp

lemma masked_byte_eq_iff_bits:
  assumes "0 < r" and "r < 8"
  shows "a AND push_bit (8 - r) (0xFF :: 8 word) = b AND push_bit (8 - r) 0xFF \<longleftrightarrow>
    (\<forall>j<r. bit a (7 - j) = bit b (7 - j))" (is "?l \<longleftrightarrow> ?r")
proof -
  have ff: "(0xFF :: 8 word) = - 1" by simp
  have bit_m: "bit (x AND push_bit (8 - r) (0xFF :: 8 word)) n \<longleftrightarrow> bit x n \<and> 8 - r \<le> n" for x n
    unfolding ff by (auto simp: bit_simps dest: bit_imp_le_length)
  show ?thesis
  proof
    assume ?l
    then have "bit a n = bit b n" if "8 - r \<le> n" for n
      using bit_m that by metis
    with assms show ?r by auto
  next
    assume R: ?r
    show ?l
    proof (rule bit_word_eqI)
      fix n
      assume n: "n < LENGTH(8)"
      have "bit a n = bit b n" if "8 - r \<le> n"
        using R [rule_format, of "7 - n"] that n assms by simp
      then show "bit (a AND push_bit (8 - r) 0xFF) n = bit (b AND push_bit (8 - r) 0xFF) n"
        by (auto simp only: bit_m)
    qed
  qed
qed

lemma ipv6_matches_iff_bits:
  assumes "0 \<le> pfx_len p"
  shows "ipv6_matches p ip \<longleftrightarrow> (\<forall>i < nat (pfx_len p). addr_bit (pfx_ipv6 p) i = addr_bit ip i)"
    (is "_ \<longleftrightarrow> ?bits")
proof -
  define n where "n = nat (pfx_len p)"
  define a where "a = pfx_ipv6 p"
  have full: "(\<forall>k < n div 8. a ! k = ip ! k) \<longleftrightarrow> (\<forall>i < 8 * (n div 8). addr_bit a i = addr_bit ip i)"
  proof
    assume "\<forall>k < n div 8. a ! k = ip ! k"
    then show "\<forall>i < 8 * (n div 8). addr_bit a i = addr_bit ip i"
      by (auto simp: addr_bit_def less_mult_imp_div_less mult.commute)
  next
    assume L: "\<forall>i < 8 * (n div 8). addr_bit a i = addr_bit ip i"
    have "bit (a ! k) (7 - j) = bit (ip ! k) (7 - j)" if "k < n div 8" and "j < 8" for k j
      using L [rule_format, of "8 * k + j"] that by (simp add: addr_bit_def)
    then show "\<forall>k < n div 8. a ! k = ip ! k" by (simp add: byte_eq_iff_bits)
  qed
  have part: "(\<forall>j < n mod 8. bit (a ! (n div 8)) (7 - j) = bit (ip ! (n div 8)) (7 - j)) \<longleftrightarrow>
      (\<forall>i. 8 * (n div 8) \<le> i \<and> i < n \<longrightarrow> addr_bit a i = addr_bit ip i)" (is "?A \<longleftrightarrow> ?B")
  proof
    assume A: ?A
    show ?B
    proof (intro allI impI)
      fix i
      assume i: "8 * (n div 8) \<le> i \<and> i < n"
      then have "i div 8 = n div 8" and "i mod 8 < n mod 8"
        by (simp_all add: last_block_div_mod)
      with A show "addr_bit a i = addr_bit ip i" by (simp add: addr_bit_def)
    qed
  next
    assume B: ?B
    show ?A
    proof (intro allI impI)
      fix j
      assume j: "j < n mod 8"
      have n: "8 * (n div 8) + n mod 8 = n" and "n mod 8 < 8" by simp_all
      with j have "8 * (n div 8) + j < n" and "j < 8" by linarith+
      then have "(8 * (n div 8) + j) div 8 = n div 8" "(8 * (n div 8) + j) mod 8 = j"
        "8 * (n div 8) + j < n"
        by simp_all
      with B [rule_format, of "8 * (n div 8) + j"]
      show "bit (a ! (n div 8)) (7 - j) = bit (ip ! (n div 8)) (7 - j)" by (simp add: addr_bit_def)
    qed
  qed
  have "ipv6_matches p ip \<longleftrightarrow> (\<forall>k < n div 8. a ! k = ip ! k) \<and>
      (\<forall>j < n mod 8. bit (a ! (n div 8)) (7 - j) = bit (ip ! (n div 8)) (7 - j))"
    using masked_byte_eq_iff_bits [of "n mod 8" "a ! (n div 8)" "ip ! (n div 8)"]
    by (auto simp: ipv6_matches_def Let_def list_all_iff n_def [symmetric] a_def [symmetric])
  also have "\<dots> \<longleftrightarrow> (\<forall>i < n. addr_bit a i = addr_bit ip i)"
    unfolding full part by (rule all_less_split_at [symmetric]) simp
  finally show ?thesis by (simp add: n_def a_def)
qed

text \<open>An entry is never accepted: it is skipped, or the check of its terminator fails.\<close>

definition entry_aborts :: "string \<Rightarrow> string \<Rightarrow> bool" where
  "entry_aborts raw_entry after \<longleftrightarrow>
     (let entry = trim raw_entry; (addr_part, prefix_part) = split_prefix_len entry
      in entry \<noteq> [] \<and> entry_prefix_len prefix_part \<noteq> None \<and>
         c_slice addr_part (drop (length addr_part) entry @ trimmed_tail raw_entry @ after) = None)"

lemma parse_allow_ip_entry_eq:
  "parse_allow_ip_entry p4 p6 raw_entry after = (if entry_aborts raw_entry after then None else Some None)"
  by (auto simp: parse_allow_ip_entry_def entry_aborts_def parse_ipv6_prefix_def init_ipv4_port_def init_ipv6_port_def
      Let_def split: prod.splits option.splits)

lemma entry_allows_eq: "entry_allows p4 p6 peer entry after = (if entry_aborts entry after then None else Some False)"
  by (simp add: entry_allows_def parse_allow_ip_entry_eq)

lemma allow_ip_loop_never: "allow_ip_loop p4 p6 peer str \<noteq> Some True"
proof (induction p4 p6 peer str rule: allow_ip_loop.induct)
  case (1 p4 p6 peer str)
  then show ?case
    by (subst allow_ip_loop.simps) (auto simp: entry_allows_eq split: prod.splits)
qed

lemma first_entry_aborts:
  assumes "allow_ip = e @ after" and "e \<noteq> []" and "CHR '','' \<notin> set e" and "after = [] \<or> hd after = CHR '',''"
    and "entry_aborts e after"
  shows "allow_ip_loop p4 p6 peer allow_ip = None"
proof -
  have "read_till_nofail CHR '','' (new_parser allow_ip) = (e, (new_parser allow_ip)\<lparr>rest := after\<rparr>)"
  proof (cases after)
    case Nil
    then show ?thesis using assms(1,3) by (simp add: read_till_nofail_def new_parser_def)
  next
    case (Cons c cs)
    then show ?thesis using assms(1,3,4) by (simp add: read_till_nofail_def new_parser_def)
  qed
  then show ?thesis using assms by (subst allow_ip_loop.simps) (simp add: entry_allows_eq)
qed

lemma split_prefix_len_slash:
  assumes "CHR ''/'' \<notin> set t"
  shows "split_prefix_len (a @ CHR ''/'' # t) = (a, Some t)"
  using assms by (simp add: split_prefix_len_def takeWhile_append)

lemma listed_entry_aborts:
  assumes "trim e \<noteq> []" and "CHR ''/'' \<notin> set e" and "CHR 0x00 \<notin> set e"
  shows "entry_aborts e (CHR '','' # others)"
proof -
  have "CHR ''/'' \<notin> set (trim e)" using assms(2) by (auto simp: trim_def dest!: set_dropWhileD)
  moreover have "set (trimmed_tail e) \<subseteq> set e" by (auto simp: trimmed_tail_def dest!: set_takeWhileD set_dropWhileD)
  then have "hd (trimmed_tail e @ CHR '','' # others) \<noteq> CHR 0x00"
    using assms(3) by (cases "trimmed_tail e") auto
  ultimately show ?thesis using assms(1)
    by (auto simp: entry_aborts_def split_prefix_len_def entry_prefix_len_def c_slice_def)
qed

lemma digit_not_space: "is_digit c \<Longrightarrow> \<not> is_space c"
  by (auto simp: is_digit_def is_space_def)

lemma prefix_entry_aborts:
  assumes "n < 2 ^ 31"
  shows "entry_aborts (a @ CHR ''/'' # show_nat n) after"
proof -
  define t where "t = show_nat n"
  have t: "t \<noteq> []" "list_all is_digit t" by (simp_all add: t_def show_nat_digits)
  have "is_digit (last t)" using t by (simp add: list_all_iff)
  then have "\<not> is_space (last t)" by (rule digit_not_space)
  have "\<not> is_space CHR ''/''" by (simp add: is_space_def byte_def)
  then have lead: "dropWhile is_space (a @ CHR ''/'' # t) = dropWhile is_space a @ CHR ''/'' # t"
    by (simp add: dropWhile_append)
  obtain t0 c where tc: "t = t0 @ [c]" "\<not> is_space c" using t(1) \<open>\<not> is_space (last t)\<close> by (metis append_butlast_last_id)
  have trim: "trim (a @ CHR ''/'' # t) = dropWhile is_space a @ CHR ''/'' # t"
    unfolding trim_def lead using tc by simp
  have "CHR ''/'' \<notin> set t" using t(2) by (auto simp: list_all_iff is_digit_def byte_def)
  moreover have "show_int (int n) = t" by (simp add: t_def show_int_def)
  then have "to_integer_safe 32 t = Some (int n)" using assms to_integer_safe_iff [of 32 t "int n"] by simp
  ultimately show ?thesis
    using t unfolding t_def [symmetric] entry_aborts_def trim
    by (simp add: split_prefix_len_slash entry_prefix_len_def c_slice_def)
qed

lemma quad_octets:
  assumes "a < 256" "b < 256" "c < 256" "d < 256"
  shows "unat (quad a b c d) = ((a * 256 + b) * 256 + c) * 256 + d"
proof -
  have "((a * 256 + b) * 256 + c) * 256 + d < 2 ^ LENGTH(32)" using assms by simp
  then show ?thesis unfolding quad_def by (simp only: unsigned_of_nat of_nat_id take_bit_nat_eq_self)
qed

lemma quad_div:
  assumes "a < 256" "b < 256" "c < 256" "d < 256"
  shows "unat (quad a b c d) div 2 ^ 24 = a"
    and "unat (quad a b c d) div 2 ^ 16 = a * 256 + b"
    and "unat (quad a b c d) div 2 ^ 20 = a * 16 + b div 16"
proof -
  let ?n = "((a * 256 + b) * 256 + c) * 256 + d"
  have "?n div 65536 = a * 256 + b" using assms by simp
  moreover from this have "?n div 65536 div 256 = a" using assms by simp
  moreover have "?n div 65536 div 16 = a * 16 + b div 16" using \<open>?n div 65536 = a * 256 + b\<close> by simp
  ultimately show "unat (quad a b c d) div 2 ^ 24 = a"
    and "unat (quad a b c d) div 2 ^ 16 = a * 256 + b"
    and "unat (quad a b c d) div 2 ^ 20 = a * 16 + b div 16"
    by (simp_all add: quad_octets [OF assms] div_mult2_eq [symmetric])
qed

lemma drop_bit_eq_numeral_iff:
  fixes ip :: "32 word"
  assumes "n < 2 ^ 32"
  shows "drop_bit k ip = word_of_nat n \<longleftrightarrow> unat ip div 2 ^ k = n"
proof -
  have "unat (word_of_nat n :: 32 word) = n" using assms by (simp add: unat_of_nat take_bit_nat_eq_self)
  moreover have "unat (drop_bit k ip) = unat ip div 2 ^ k" by (metis unat_drop_bit_eq drop_bit_eq_div)
  ultimately show ?thesis by (metis word_unat_eq_iff)
qed

text \<open>
  Default access policy of the streaming endpoint: with an empty allowlist an IPv4 peer is
  admitted exactly when it is in 0.0.0.0/8, 10.0.0.0/8, 127.0.0.0/8, 169.254.0.0/16,
  172.16.0.0/12 or 192.168.0.0/16.
\<close>

lemma default_policy_ipv4:
  assumes "a < 256" "b < 256" "c < 256" "d < 256"
  shows "is_file_stream_ip_allowed p4 p6 (IPv4 (quad a b c d)) [] = Some True \<longleftrightarrow>
    a = 0 \<or> a = 10 \<or> a = 127 \<or> (a = 169 \<and> b = 254) \<or> (a = 172 \<and> 16 \<le> b \<and> b < 32) \<or>
    (a = 192 \<and> b = 168)"
proof -
  let ?ip = "quad a b c d"
  have nums: "n < 2 ^ 32 \<Longrightarrow> drop_bit k ?ip = word_of_nat n \<longleftrightarrow> unat ?ip div 2 ^ k = n" for n k
    by (rule drop_bit_eq_numeral_iff)
  have d24: "drop_bit 24 ?ip = 0 \<longleftrightarrow> a = 0" "drop_bit 24 ?ip = 10 \<longleftrightarrow> a = 10"
    "drop_bit 24 ?ip = 127 \<longleftrightarrow> a = 127"
    using nums [of 0 24] nums [of 10 24] nums [of 127 24] quad_div(1) [OF assms] by auto
  have octets: "a * 256 + b = 43518 \<longleftrightarrow> a = 169 \<and> b = 254" "a * 256 + b = 49320 \<longleftrightarrow> a = 192 \<and> b = 168"
    by (simp_all add: mult_add_eq_iff_div_mod [OF assms(2)])
  have d16: "drop_bit 16 ?ip = 0xA9FE \<longleftrightarrow> a = 169 \<and> b = 254" "drop_bit 16 ?ip = 0xC0A8 \<longleftrightarrow> a = 192 \<and> b = 168"
    using nums [of "0xA9FE" 16] nums [of "0xC0A8" 16] quad_div(2) [OF assms] octets by auto
  have "drop_bit 20 ?ip AND 0xFFF = drop_bit 20 ?ip"
  proof -
    have "(0xFFF :: 32 word) = mask 12" by (simp add: mask_eq_exp_minus_1)
    moreover have "drop_bit 20 ?ip AND mask 12 = drop_bit 20 ?ip"
      by (rule bit_word_eqI) (auto simp: bit_simps dest: bit_imp_le_length)
    ultimately show ?thesis by (simp only:)
  qed
  moreover have "a * 16 + q = 2753 \<longleftrightarrow> a = 172 \<and> q = 1" if "q < 16" for q
    by (simp add: mult_add_eq_iff_div_mod [OF that])
  then have "a * 16 + b div 16 = 2753 \<longleftrightarrow> a = 172 \<and> b div 16 = 1" using assms(2) by simp
  moreover have "b div 16 = 1 \<longleftrightarrow> 16 \<le> b \<and> b < 32" by linarith
  ultimately have d20: "drop_bit 20 ?ip AND 0xFFF = 0xAC1 \<longleftrightarrow> a = 172 \<and> 16 \<le> b \<and> b < 32"
    using nums [of "0xAC1" 20] quad_div(3) [OF assms] by auto
  show ?thesis
    unfolding is_file_stream_ip_allowed_def is_private_or_loopback_def ip_is_valid_def ip_address.case
      d24 d16 d20
    by auto
qed

lemma default_policy_ipv4_witness:
  "is_file_stream_ip_allowed (\<lambda>s. None) (\<lambda>s. None) (IPv4 (quad 172 31 0 1)) [] = Some True \<and>
   is_file_stream_ip_allowed (\<lambda>s. None) (\<lambda>s. None) (IPv4 (quad 8 8 8 8)) [] \<noteq> Some True"
  using default_policy_ipv4 [of 172 31 0 1] default_policy_ipv4 [of 8 8 8 8] by simp

text \<open>
  (C40) A non-empty \<open>--file-stream-allow-ip\<close> admits nobody, because every address is parsed with port 0, which
  \<open>IPAddress::init_ipv4_port\<close> and \<open>init_ipv6_port\<close> reject. Worse, for a connection from a valid address the server aborts
  in the constructor of \<open>CSlice\<close>, which expects a NUL behind the address, when the first of several entries is a
  plain address, and when the list is one address with a prefix length.
\<close>

theorem nonempty_allowlist_admits_nobody:
  assumes "allow_ip \<noteq> []" and "ip_is_valid peer"
    and "trim e \<noteq> []" and "set e \<inter> {CHR '','', CHR ''/'', CHR 0x00} = {}"
    and "CHR '','' \<notin> set a" and "n < 2 ^ 31"
  shows "is_file_stream_ip_allowed p4 p6 peer allow_ip \<noteq> Some True \<and>
    is_file_stream_ip_allowed p4 p6 peer (e @ '','' @ others) = None \<and>
    is_file_stream_ip_allowed p4 p6 peer (a @ ''/'' @ show_nat n) = None"
proof (intro conjI)
  show "is_file_stream_ip_allowed p4 p6 peer allow_ip \<noteq> Some True"
    using assms(1) allow_ip_loop_never by (simp add: is_file_stream_ip_allowed_def)
  have "e \<noteq> []" using assms(3) by (auto simp: trim_def)
  moreover have "entry_aborts e (CHR '','' # others)" using assms(3,4) by (intro listed_entry_aborts) auto
  ultimately show "is_file_stream_ip_allowed p4 p6 peer (e @ '','' @ others) = None"
    using assms(2,4) first_entry_aborts [of "e @ CHR '','' # others" e "CHR '','' # others"]
    by (simp add: is_file_stream_ip_allowed_def)
  have "CHR '','' \<notin> set (show_nat n)" using show_nat_digits [of n] by (auto simp: list_all_iff is_digit_def byte_def)
  then show "is_file_stream_ip_allowed p4 p6 peer (a @ ''/'' @ show_nat n) = None"
    using assms(2,5) prefix_entry_aborts [OF assms(6)] first_entry_aborts [of _ "a @ CHR ''/'' # show_nat n" "[]"]
    by (simp add: is_file_stream_ip_allowed_def)
qed

theorem nonempty_allowlist_admits_nobody_witness:
  "is_file_stream_ip_allowed (\<lambda>s. Some (quad 10 0 0 1)) (\<lambda>s. None) (IPv4 (quad 10 0 0 1)) ''10.0.0.1'' \<noteq> Some True \<and>
   is_file_stream_ip_allowed (\<lambda>s. Some (quad 10 0 0 1)) (\<lambda>s. None) (IPv4 (quad 10 0 0 1)) ''10.0.0.1,10.0.0.2'' = None \<and>
   is_file_stream_ip_allowed (\<lambda>s. Some (quad 10 0 0 1)) (\<lambda>s. None) (IPv4 (quad 10 0 0 1)) (''10.0.0.1/'' @ show_nat 32) = None"
proof -
  have "trim ''10.0.0.1'' \<noteq> []" by (simp add: trim_def is_space_def byte_def)
  from nonempty_allowlist_admits_nobody [OF _ _ this, of "''10.0.0.1''" "IPv4 (quad 10 0 0 1)" "''10.0.0.1''" 32
      "\<lambda>s. Some (quad 10 0 0 1)" "\<lambda>s. None" "''10.0.0.2''"]
  show ?thesis by (simp add: ip_is_valid_def)
qed

text \<open>
  (C36) Prefix matching: an IPv4 (IPv6) prefix of \<open>k\<close> bits matches an address exactly when the
  first \<open>k\<close> bits agree, for every length the parser accepts, 0 and the full length included.
\<close>

theorem prefix_matches_iff_leading_bits:
  assumes "0 \<le> pfx_len p"
  shows "(pfx_len p \<le> 32 \<longrightarrow> ipv4_matches p ip =
      (unat (pfx_ipv4 p) div 2 ^ nat (32 - pfx_len p) = unat ip div 2 ^ nat (32 - pfx_len p))) \<and>
    ipv6_matches p bs = (\<forall>i < nat (pfx_len p). addr_bit (pfx_ipv6 p) i = addr_bit bs i)"
  using ipv4_matches_iff_div [OF assms] ipv6_matches_iff_bits [OF assms] by blast

theorem prefix_matches_iff_leading_bits_witness:
  "ipv4_matches \<lparr>pfx_ipv4 = quad 10 1 2 3, pfx_ipv6 = replicate 16 0, pfx_is_ipv4 = True, pfx_len = 8\<rparr>
     (quad 10 200 0 0)"
  using prefix_matches_iff_leading_bits
    [of "\<lparr>pfx_ipv4 = quad 10 1 2 3, pfx_ipv6 = replicate 16 0, pfx_is_ipv4 = True, pfx_len = 8\<rparr>"
        "quad 10 200 0 0" "replicate 16 0"]
    quad_div(1) [of 10 1 2 3] quad_div(1) [of 10 200 0 0]
  by simp

subsection \<open>Paths and headers\<close>

lemma hex_digits_is_hex: "n < 16 \<Longrightarrow> is_hex (hex_digits ! n)"
proof -
  have "\<forall>n \<in> set [0..<16]. is_hex (hex_digits ! n)"
    by (simp add: hex_digits_def is_hex_def byte_def upt_rec)
  then show "n < 16 \<Longrightarrow> is_hex (hex_digits ! n)" by simp
qed

lemma validate_url_encoding_Cons_plain:
  "c \<noteq> CHR ''%'' \<Longrightarrow> validate_url_encoding (c # cs) = validate_url_encoding cs"
  by (cases cs; cases "tl cs") auto

lemma validate_url_encode: "validate_url_encoding (url_encode s) = None"
proof (induction s)
  case (Cons c cs)
  show ?case
  proof (cases "is_url_char c")
    case True
    then have "c \<noteq> CHR ''%''" using percent_not_url_char by auto
    with True Cons.IH show ?thesis by (simp add: validate_url_encoding_Cons_plain)
  next
    case False
    with Cons.IH show ?thesis by (simp add: hex_digits_is_hex byte_div_16)
  qed
qed simp

lemma is_hex_hex_to_int: "is_hex c \<longleftrightarrow> hex_to_int c < 16"
proof -
  have "n div 32 = 2" if "64 \<le> n" "n < 96" for n :: nat using that by linarith
  moreover have "n div 32 = 3" if "96 \<le> n" "n < 128" for n :: nat using that by linarith
  ultimately show ?thesis by (auto simp: is_hex_def hex_to_int_def is_digit_def set_bit5_def)
qed

definition stream_path :: "string \<Rightarrow> bool \<Rightarrow> string \<Rightarrow> string" where
  "stream_path token test encoded =
     ''/stream/file/bot'' @ token @ CHR ''/'' # (if test then ''test/'' else []) @ encoded"

lemma parse_file_stream_route_prefix:
  "parse_file_stream_route (''/stream/file/bot'' @ r) =
     (let (token, p1) = read_till CHR ''/'' (new_parser r) in
      if token = [] then Inl (Error 400 ''Token is empty'')
      else
        let p2 = skip CHR ''/'' p1 in
        if failure p2 \<noteq> None then Inl (Error 400 ''file_id is missing'')
        else
          let (is_test_dc, p3) = try_skip ''test/'' p2;
              encoded = rest p3
          in if encoded = [] \<or> CHR ''/'' \<in> set encoded
             then Inl (Error 400 ''Invalid file_id path'')
             else case validate_url_encoding encoded of
                    Some e \<Rightarrow> Inl e
                  | None \<Rightarrow>
                      let file_id = url_decode encoded False in
                      if file_id = [] \<or> length file_id > 4096 \<or> CHR ''/'' \<in> set file_id \<or>
                         CHR 0x00 \<in> set file_id
                      then Inl (Error 400 ''Invalid file_id specified'')
                      else Inr \<lparr>route_token = token, route_file_id = file_id,
                                route_is_test_dc = is_test_dc, route_expected_size = -1,
                                route_no_cache = False\<rparr>)"
proof -
  have "try_skip ''/stream/file/bot'' (new_parser (''/stream/file/bot'' @ r)) = (True, new_parser r)"
    using try_skip_prefix [of "new_parser (''/stream/file/bot'' @ r)" "''/stream/file/bot''" r]
    by (simp add: new_parser_def)
  then show ?thesis unfolding parse_file_stream_route_def by simp
qed

lemma parse_file_stream_route_eq:
  assumes "CHR ''/'' \<notin> set token" and "token \<noteq> []" and "CHR ''/'' \<notin> set enc"
  shows "parse_file_stream_route (stream_path token test enc) =
    (if enc = [] then Inl (Error 400 ''Invalid file_id path'')
     else case validate_url_encoding enc of
            Some e \<Rightarrow> Inl e
          | None \<Rightarrow>
              let file_id = url_decode enc False in
              if file_id = [] \<or> length file_id > 4096 \<or> CHR ''/'' \<in> set file_id \<or> CHR 0x00 \<in> set file_id
              then Inl (Error 400 ''Invalid file_id specified'')
              else Inr \<lparr>route_token = token, route_file_id = file_id, route_is_test_dc = test,
                        route_expected_size = -1, route_no_cache = False\<rparr>)"
proof -
  let ?tail = "(if test then ''test/'' else []) @ enc"
  have rt: "read_till CHR ''/'' (new_parser (token @ CHR ''/'' # ?tail)) = (token, new_parser (CHR ''/'' # ?tail))"
    using read_till_found [of "new_parser (token @ CHR ''/'' # ?tail)" token "CHR ''/''" ?tail] assms(1)
    by (simp add: new_parser_def)
  have sk: "skip CHR ''/'' (new_parser (CHR ''/'' # ?tail)) = new_parser ?tail"
    by (simp add: skip_def new_parser_def)
  have "\<not> begins_with enc ''test/''"
    using assms(3) by (auto simp: begins_with_iff)
  then have ts: "try_skip ''test/'' (new_parser ?tail) = (test, new_parser enc)"
    by (auto simp: try_skip_def new_parser_def begins_with_def)
  show ?thesis
    unfolding stream_path_def parse_file_stream_route_prefix rt
    using assms(2,3) by (simp add: sk ts new_parser_simps Let_def cong: option.case_cong)
qed

text \<open>
  (C35) Round trip of the streaming route: for every non-empty token without a slash and every file
  identifier of 1 to 4096 bytes without slash and NUL, the path built with the percent-encoded
  identifier is parsed back to exactly that token, identifier and data centre.
\<close>

theorem route_round_trip:
  assumes "token \<noteq> []" and "CHR ''/'' \<notin> set token"
    and "file_id \<noteq> []" and "length file_id \<le> 4096" and "CHR ''/'' \<notin> set file_id"
    and "CHR 0x00 \<notin> set file_id"
  shows "parse_file_stream_route (stream_path token test (url_encode file_id)) =
    Inr \<lparr>route_token = token, route_file_id = file_id, route_is_test_dc = test,
         route_expected_size = -1, route_no_cache = False\<rparr>"
  using assms
  by (simp add: parse_file_stream_route_eq url_encode_no_slash validate_url_encode url_decode_url_encode)

theorem route_round_trip_witness:
  "parse_file_stream_route (stream_path ''12:ab'' True (url_encode ''a b%'')) =
    Inr \<lparr>route_token = ''12:ab'', route_file_id = ''a b%'', route_is_test_dc = True,
         route_expected_size = -1, route_no_cache = False\<rparr>"
  by (rule route_round_trip) simp_all

lemma read_till_cases:
  assumes "failure p = None"
  obtains (missing) "c \<notin> set (rest p)" "fst (read_till c p) = []"
  | (found) xs ys where "rest p = xs @ c # ys" "c \<notin> set xs"
    "read_till c p = (xs, p\<lparr>rest := c # ys\<rparr>)"
proof (cases "c \<in> set (rest p)")
  case True
  then obtain xs ys where "rest p = xs @ c # ys" "c \<notin> set xs"
    by (metis split_list_first)
  with assms show ?thesis using that(2) read_till_found by blast
next
  case False
  with assms show ?thesis using that(1) read_till_missing by blast
qed

lemma parse_file_stream_route_cases:
  obtains (bad_prefix) "\<not> begins_with path ''/stream/file/bot''"
      "parse_file_stream_route path = Inl (Error 404 ''Not Found'')"
  | (no_token) "parse_file_stream_route path = Inl (Error 400 ''Token is empty'')"
      "begins_with path ''/stream/file/bot''"
  | (slash) token r where "path = ''/stream/file/bot'' @ token @ CHR ''/'' # r"
      "parse_file_stream_route path = Inl (Error 400 ''Invalid file_id path'')"
  | (parsed) token test enc where "path = stream_path token test enc" "CHR ''/'' \<notin> set token"
      "token \<noteq> []" "CHR ''/'' \<notin> set enc"
proof (cases "begins_with path ''/stream/file/bot''")
  case False
  then have "try_skip ''/stream/file/bot'' (new_parser path) = (False, new_parser path)"
    by (simp add: try_skip_iff new_parser_simps)
  with False bad_prefix show ?thesis by (simp add: parse_file_stream_route_def)
next
  case True
  then obtain r where r: "path = ''/stream/file/bot'' @ r" by (auto simp: begins_with_iff)
  have ok: "failure (new_parser r) = None" by (simp add: new_parser_simps)
  consider (missing) "fst (read_till CHR ''/'' (new_parser r)) = []"
    | (found) xs ys where "rest (new_parser r) = xs @ CHR ''/'' # ys" "CHR ''/'' \<notin> set xs"
        "read_till CHR ''/'' (new_parser r) = (xs, (new_parser r)\<lparr>rest := CHR ''/'' # ys\<rparr>)"
    using read_till_cases [OF ok] by metis
  then show ?thesis
  proof cases
    case missing
    then have "parse_file_stream_route path = Inl (Error 400 ''Token is empty'')"
      unfolding r parse_file_stream_route_prefix by (simp add: case_prod_beta)
    with True no_token show ?thesis by blast
  next
    case (found xs ys)
    have rxs: "r = xs @ CHR ''/'' # ys" using found(1) by (simp add: new_parser_simps)
    show ?thesis
    proof (cases "xs = []")
      case True
      with found have "parse_file_stream_route path = Inl (Error 400 ''Token is empty'')"
        unfolding r parse_file_stream_route_prefix by simp
      with \<open>begins_with path _\<close> no_token show ?thesis by blast
    next
      case False
      obtain test enc where te: "try_skip ''test/'' (new_parser ys) = (test, new_parser enc)"
        and ys: "ys = (if test then ''test/'' else []) @ enc"
        by (rule try_skip_new_cases)
      show ?thesis
      proof (cases "CHR ''/'' \<in> set enc")
        case True
        have "skip CHR ''/'' ((new_parser r)\<lparr>rest := CHR ''/'' # ys\<rparr>) = new_parser ys"
          by (simp add: skip_def new_parser_def)
        with True found(3) False te have "parse_file_stream_route path = Inl (Error 400 ''Invalid file_id path'')"
          unfolding r parse_file_stream_route_prefix by (simp add: new_parser_simps)
        with r rxs slash show ?thesis by simp
      next
        case no: False
        have "path = stream_path xs test enc" by (simp add: r rxs ys stream_path_def)
        with no False found(2) parsed show ?thesis by blast
      qed
    qed
  qed
qed

text \<open>
  (C34) Soundness of the streaming route: an accepted path has the documented form, its token is
  non-empty and slash-free, the encoded identifier decodes to the reported one, and that one has 1
  to 4096 bytes, no slash and no NUL.
\<close>

theorem route_sound:
  assumes "parse_file_stream_route path = Inr route"
  shows "\<exists>enc. path = stream_path (route_token route) (route_is_test_dc route) enc \<and>
      validate_url_encoding enc = None \<and> url_decode enc False = route_file_id route \<and>
      route_token route \<noteq> [] \<and> CHR ''/'' \<notin> set (route_token route) \<and>
      route_file_id route \<noteq> [] \<and> length (route_file_id route) \<le> 4096 \<and>
      CHR ''/'' \<notin> set (route_file_id route) \<and> CHR 0x00 \<notin> set (route_file_id route) \<and>
      route_expected_size route = -1 \<and> \<not> route_no_cache route"
proof (cases path rule: parse_file_stream_route_cases)
  case (parsed token test enc)
  with assms show ?thesis
    by (auto simp: parse_file_stream_route_eq Let_def split: if_splits option.splits)
qed (use assms in auto)

theorem route_sound_witness:
  "\<exists>enc. ''/stream/file/bot1:a/test/x%20y'' = stream_path ''1:a'' True enc \<and> url_decode enc False = ''x y''"
proof -
  have "parse_file_stream_route ''/stream/file/bot1:a/test/x%20y'' =
    Inr \<lparr>route_token = ''1:a'', route_file_id = ''x y'', route_is_test_dc = True,
         route_expected_size = -1, route_no_cache = False\<rparr>"
    by code_simp
  from route_sound [OF this] show ?thesis by auto
qed

text \<open>
  Errors of the streaming route: a path that does not start with the endpoint's prefix is
  answered with code 404, every other rejected path with code 400.
\<close>

lemma route_error_codes:
  assumes "parse_file_stream_route path = Inl e"
  shows "err_code e = (if begins_with path ''/stream/file/bot'' then 400 else 404)"
proof -
  have enc: "err_code e' = 400" if "validate_url_encoding s = Some e'" for s e'
    using that by (induction s rule: validate_url_encoding.induct)
      (auto simp: invalid_encoding_def split: if_splits)
  show ?thesis
  proof (cases path rule: parse_file_stream_route_cases)
    case (parsed token test enc)
    then have "begins_with path ''/stream/file/bot''" by (simp add: stream_path_def begins_with_def)
    with assms parsed show ?thesis
      by (auto simp: parse_file_stream_route_eq Let_def enc split: if_splits option.splits)
  qed (use assms in \<open>auto simp: begins_with_def\<close>)
qed

lemma route_error_codes_witness:
  "err_code (projl (parse_file_stream_route ''/stream/file/bot1:a/%zz'')) = 400"
proof -
  have "parse_file_stream_route ''/stream/file/bot1:a/%zz'' = Inl invalid_encoding" by code_simp
  from route_error_codes [OF this] this show ?thesis by (simp add: begins_with_def)
qed

text \<open>
  The \<open>X-Telegram-File-Size\<close> header: absent means unknown (-1); otherwise exactly the
  canonical decimal spellings of 1 .. 2^63 - 1 are accepted (no sign, no leading zero, no overflow
  wrap-around) and everything else is answered with error 400.
\<close>

lemma size_hint_iff:
  "(parse_file_stream_size_hint s = Inr v \<longleftrightarrow>
      s = [] \<and> v = -1 \<or> s = show_int v \<and> 0 < v \<and> v \<le> int64_max) \<and>
   (case parse_file_stream_size_hint s of Inl e \<Rightarrow> err_code e = 400 | Inr x \<Rightarrow> True)"
proof
  have iff: "to_integer_safe 64 s = Some x \<longleftrightarrow> s = show_int x \<and> - (2 ^ 63) \<le> x \<and> x < 2 ^ 63" for x
    using to_integer_safe_iff [of 64 s x] by simp
  have digits: "list_all is_digit (show_int x)" if "0 < x" for x
    using that show_nat_digits by (simp add: show_int_def)
  have "show_int x \<noteq> []" for x by (simp add: show_int_def)
  with iff [of v] digits [of v]
  have "parse_file_stream_size_hint s = Inr v" if "s = show_int v" "0 < v" "v \<le> int64_max"
    using that by (auto simp: parse_file_stream_size_hint_def range_simps)
  moreover have "s = [] \<and> v = -1 \<or> s = show_int v \<and> 0 < v \<and> v \<le> int64_max"
    if "parse_file_stream_size_hint s = Inr v"
  proof -
    from that have "s = [] \<and> v = -1 \<or> to_integer_safe 64 s = Some v \<and> 0 < v"
      by (auto simp: parse_file_stream_size_hint_def split: option.splits if_splits)
    with iff [of v] show ?thesis by (auto simp: range_simps)
  qed
  moreover have "parse_file_stream_size_hint [] = Inr (-1)"
    by (simp add: parse_file_stream_size_hint_def)
  ultimately show "parse_file_stream_size_hint s = Inr v \<longleftrightarrow>
      s = [] \<and> v = -1 \<or> s = show_int v \<and> 0 < v \<and> v \<le> int64_max"
    by auto
  show "case parse_file_stream_size_hint s of Inl e \<Rightarrow> err_code e = 400 | Inr x \<Rightarrow> True"
    by (auto simp: parse_file_stream_size_hint_def size_hint_error_def split: option.splits)
qed

text \<open>
  The local copy of a streamed file is deleted only when its removal was requested, the
  stream completed and nobody else (no other stream, no \<open>getFile\<close> download) uses it, and in
  that case it is; an unfinished stream never deletes anything but cancels the download.
\<close>

lemma local_copy_deleted_iff:
  "(decide_file_stream_local_copy_action i = DeleteLocalCopy \<longleftrightarrow>
      remove_requested i \<and> completed_ok i \<and> \<not> other_stream_listeners i \<and> \<not> download_listener_active i) \<and>
   (decide_file_stream_local_copy_action i = CancelDownload \<longleftrightarrow> \<not> completed_ok i)"
  by (simp add: decide_file_stream_local_copy_action_def)

lemma resolve_file_stream_size_pos:
  "resolve_file_stream_size tdlib expected = Inr n \<Longrightarrow>
     0 < n \<and> (0 < tdlib \<longrightarrow> n = tdlib) \<and> (0 < expected \<longrightarrow> n = expected)"
  by (auto simp: resolve_file_stream_size_def split: if_splits)

end
