(* ===== verification/Http_Header.thy ===== *)
theory Http_Header
  imports Text_Utils
begin

section \<open>HTTP response headers\<close>

text \<open>
  \<open>td::HttpHeaderCreator\<close> (\<open>td/net/HttpHeaderCreator.h\<close>, \<open>.cpp\<close>) on top of the
  fixed-size mode of \<open>td::StringBuilder\<close>: text is appended to a buffer of 4096 bytes, an
  overflow truncates and raises a sticky error flag. The lemmas show that a header that is
  returned as a success is never truncated, and that the digit loop of \<open>StringBuilder\<close> prints
  the decimal spelling \<^const>\<open>show_int\<close> that \<open>to_integer_safe\<close> compares with.
\<close>

subsection \<open>Printing integers\<close>

text \<open>The loop of \<open>print_uint\<close>: least significant digit first, reversed afterwards.\<close>

fun uint_digits :: "nat \<Rightarrow> string" where
  "uint_digits x = char_of (48 + x mod 10) # (if x div 10 > 0 then uint_digits (x div 10) else [])"

declare uint_digits.simps [simp del]

definition print_uint :: "nat \<Rightarrow> string" where
  "print_uint x =
     (if x < 100
      then if x < 10 then [char_of (48 + x)] else [char_of (48 + x div 10), char_of (48 + x mod 10)]
      else rev (uint_digits x))"

definition print_int :: "nat \<Rightarrow> int \<Rightarrow> string" where
  "print_int w x =
     (if x < 0
      then if x = - (2 ^ (w - 1))
           then let s = (if x + 1 < 0 then CHR ''-'' # print_uint (nat (- (x + 1))) else print_uint (nat (x + 1)))
                in butlast s @ [char_of (byte (last s) + 1)]
           else CHR ''-'' # print_uint (nat (- x))
      else print_uint (nat x))"

lemma rev_uint_digits: "rev (uint_digits x) = show_nat x"
proof (induction x rule: uint_digits.induct)
  case (1 x)
  show ?case
  proof (cases "x < 10")
    case True
    then show ?thesis by (subst uint_digits.simps, subst show_nat.simps) simp
  next
    case False
    then have "x div 10 > 0" by (simp add: div_greater_zero_iff)
    with 1 False show ?thesis by (subst uint_digits.simps, subst show_nat.simps) simp
  qed
qed

lemma print_uint_show_nat: "print_uint x = show_nat x"
proof (cases "x < 100")
  case True
  then have "x div 10 < 10" by simp
  with True show ?thesis
    by (subst show_nat.simps) (simp add: print_uint_def show_nat.simps [of "x div 10"])
qed (simp add: print_uint_def rev_uint_digits)

lemma show_nat_Suc:
  assumes "n mod 10 \<noteq> 9"
  shows "show_nat (Suc n) = butlast (show_nat n) @ [char_of (byte (last (show_nat n)) + 1)]"
proof -
  have m: "Suc n mod 10 = Suc (n mod 10)" and d: "Suc n div 10 = n div 10" and lt: "n mod 10 < 10"
    using assms by (simp_all add: mod_Suc div_Suc)
  show ?thesis
  proof (cases "n < 10")
    case True
    with assms have "n < 9" by auto
    then show ?thesis by (simp add: show_nat.simps [of "Suc n"] show_nat.simps [of n])
  next
    case False
    with m d lt show ?thesis by (simp add: show_nat.simps [of "Suc n"] show_nat.simps [of n])
  qed
qed

lemma pow2_mod_10: "(2 :: nat) ^ k mod 10 \<in> {1, 2, 4, 6, 8}"
proof (induction k)
  case (Suc k)
  have "(2 :: nat) ^ Suc k mod 10 = (2 * (2 ^ k mod 10)) mod 10" by (simp add: mod_mult_right_eq)
  with Suc.IH show ?case by auto
qed simp

text \<open>The printed text of every number of a \<open>w\<close>-bit type, the smallest one included.\<close>

lemma print_int_show_int:
  assumes "1 < w" and "- (2 ^ (w - 1)) \<le> x"
  shows "print_int w x = show_int x"
proof (cases "x = - (2 ^ (w - 1))")
  case False
  then show ?thesis by (simp add: print_int_def show_int_def print_uint_show_nat)
next
  case True
  define n :: nat where "n = 2 ^ (w - 1) - 1"
  have pos: "1 < (2 :: nat) ^ (w - 1)" using assms(1) by (intro one_less_power) simp_all
  have Suc_n: "Suc n = 2 ^ (w - 1)" using pos by (simp add: n_def)
  have x: "x = - int (Suc n)" unfolding Suc_n by (simp add: True)
  have "Suc n mod 10 \<noteq> 0" using pow2_mod_10 [of "w - 1"] Suc_n by auto
  then have n9: "n mod 10 \<noteq> 9" by (auto simp: mod_Suc)
  have "0 < n" using pos by (simp add: n_def)
  then have "print_int w x = CHR ''-'' # butlast (show_nat n) @ [char_of (byte (last (show_nat n)) + 1)]"
  proof -
    have "x < 0" and "x + 1 < 0" and "nat (- (x + 1)) = n" using x \<open>0 < n\<close> by simp_all
    then show ?thesis
      unfolding print_int_def True [symmetric] by (simp only: if_True Let_def print_uint_show_nat) simp
  qed
  also have "\<dots> = CHR ''-'' # show_nat (Suc n)" using show_nat_Suc [OF n9] by simp
  also have "\<dots> = show_int x" by (simp add: show_int_def x nat_add_distrib)
  finally show ?thesis .
qed

subsection \<open>The fixed-size string builder\<close>

record string_builder =
  sb_text :: string
  sb_error :: bool

text \<open>\<open>MAX_HEADER - RESERVED_SIZE\<close>; the text may still use the reserve, but not start in it.\<close>

definition reserved_size :: nat where "reserved_size = 30"
definition max_header :: nat where "max_header = 4096"
definition sb_capacity :: nat where "sb_capacity = max_header - reserved_size"

definition sb_new :: string_builder where
  "sb_new = \<lparr>sb_text = [], sb_error = False\<rparr>"

definition sb_append :: "string \<Rightarrow> string_builder \<Rightarrow> string_builder" where
  "sb_append str b =
     (let cur = length (sb_text b); sz = length str in
      if sb_capacity > cur \<and> sb_capacity - cur \<ge> sz then b\<lparr>sb_text := sb_text b @ str\<rparr>
      else if sb_capacity < cur then b\<lparr>sb_error := True\<rparr>
      else let available = sb_capacity + reserved_size - 1 - cur in
           if sz > available then b\<lparr>sb_text := sb_text b @ take available str, sb_error := True\<rparr>
           else b\<lparr>sb_text := sb_text b @ str\<rparr>)"

definition sb_push_char :: "char \<Rightarrow> string_builder \<Rightarrow> string_builder" where
  "sb_push_char c b =
     (if sb_capacity > length (sb_text b) then b\<lparr>sb_text := sb_text b @ [c]\<rparr> else b\<lparr>sb_error := True\<rparr>)"

definition sb_push_int :: "int \<Rightarrow> string_builder \<Rightarrow> string_builder" where
  "sb_push_int x b =
     (if sb_capacity > length (sb_text b) then b\<lparr>sb_text := sb_text b @ print_int 32 x\<rparr>
      else b\<lparr>sb_error := True\<rparr>)"

lemma sb_append_ok:
  "\<not> sb_error (sb_append s b) \<Longrightarrow> \<not> sb_error b \<and> sb_text (sb_append s b) = sb_text b @ s"
  by (auto simp: sb_append_def Let_def split: if_splits)

lemma sb_push_char_ok:
  "\<not> sb_error (sb_push_char c b) \<Longrightarrow> \<not> sb_error b \<and> sb_text (sb_push_char c b) = sb_text b @ [c]"
  by (auto simp: sb_push_char_def split: if_splits)

lemma sb_push_int_ok:
  "\<not> sb_error (sb_push_int x b) \<Longrightarrow> \<not> sb_error b \<and> sb_text (sb_push_int x b) = sb_text b @ print_int 32 x"
  by (auto simp: sb_push_int_def split: if_splits)

lemma sb_append_fits:
  assumes "\<not> sb_error b" and "length (sb_text b) + length s \<le> sb_capacity" and "length (sb_text b) < sb_capacity"
  shows "sb_append s b = \<lparr>sb_text = sb_text b @ s, sb_error = False\<rparr>"
  using assms by (cases b) (auto simp: sb_append_def Let_def)

subsection \<open>The header creator\<close>

definition crlf :: string where
  "crlf = [CHR 0x0D, CHR 0x0A]"

definition get_status_line :: "int \<Rightarrow> string" where
  "get_status_line code =
     (if code = 200 then ''OK''
      else case map_of
        [(201, ''Created''), (202, ''Accepted''), (204, ''No Content''), (206, ''Partial Content''),
         (301, ''Moved Permanently''), (302, ''Found''), (303, ''See Other''), (304, ''Not Modified''),
         (307, ''Temporary Redirect''), (308, ''Permanent Redirect''), (400, ''Bad Request''),
         (401, ''Unauthorized''), (403, ''Forbidden''), (404, ''Not Found''), (405, ''Method Not Allowed''),
         (406, ''Not Acceptable''), (408, ''Request Timeout''), (409, ''Conflict''), (410, ''Gone''),
         (411, ''Length Required''), (412, ''Precondition Failed''), (413, ''Request Entity Too Large''),
         (414, ''Request-URI Too Long''), (415, ''Unsupported Media Type''), (416, ''Range Not Satisfiable''),
         (417, ''Expectation Failed''), (418, ''I'' @ [CHR 0x27] @ ''m a teapot''), (421, ''Misdirected Request''),
         (426, ''Upgrade Required''), (429, ''Too Many Requests''), (431, ''Request Header Fields Too Large''),
         (480, ''Temporarily Unavailable''), (501, ''Not Implemented''), (502, ''Bad Gateway''),
         (503, ''Service Unavailable''), (505, ''HTTP Version Not Supported'')] code of
          Some reason \<Rightarrow> reason
        | None \<Rightarrow> ''Internal Server Error'')"

definition init_error :: "int \<Rightarrow> string \<Rightarrow> string_builder" where
  "init_error code reason =
     sb_append crlf (sb_append reason (sb_push_char CHR '' '' (sb_push_int code (sb_append ''HTTP/1.1 '' sb_new))))"

definition init_status_line :: "int \<Rightarrow> string_builder" where
  "init_status_line code = init_error code (get_status_line code)"

definition init_post :: "string \<Rightarrow> string_builder" where
  "init_post url = sb_append ('' HTTP/1.1'' @ crlf) (sb_append url (sb_append ''POST '' sb_new))"

definition add_header :: "string \<Rightarrow> string \<Rightarrow> string_builder \<Rightarrow> string_builder" where
  "add_header key val b = sb_append crlf (sb_append val (sb_append '': '' (sb_append key b)))"

definition set_content_type :: "string \<Rightarrow> string_builder \<Rightarrow> string_builder" where
  "set_content_type type b = add_header ''Content-Type'' type b"

definition set_content_size :: "nat \<Rightarrow> string_builder \<Rightarrow> string_builder" where
  "set_content_size sz b = add_header ''Content-Length'' (show_nat sz) b"

definition set_keep_alive :: "string_builder \<Rightarrow> string_builder" where
  "set_keep_alive b = add_header ''Connection'' ''keep-alive'' b"

definition header_finish :: "string \<Rightarrow> string_builder \<Rightarrow> string result" where
  "header_finish content b =
     (let b1 = sb_append crlf b;
          b2 = (if content \<noteq> [] then sb_append content b1 else b1)
      in if sb_error b2 then Inl (Error 0 ''Too many headers'') else Inr (sb_text b2))"

text \<open>The text of a header field.\<close>

definition header_line :: "string \<Rightarrow> string \<Rightarrow> string" where
  "header_line key val = key @ '': '' @ val @ crlf"

lemma add_header_ok:
  "\<not> sb_error (add_header k v b) \<Longrightarrow> \<not> sb_error b \<and> sb_text (add_header k v b) = sb_text b @ header_line k v"
  by (auto simp: add_header_def header_line_def dest!: sb_append_ok)

lemma init_error_ok:
  "\<not> sb_error (init_error code reason) \<Longrightarrow>
   sb_text (init_error code reason) = ''HTTP/1.1 '' @ print_int 32 code @ '' '' @ reason @ crlf"
  by (auto simp: init_error_def sb_new_def dest!: sb_append_ok sb_push_char_ok sb_push_int_ok)

lemma header_finish_ok:
  "header_finish content b = Inr s \<Longrightarrow> \<not> sb_error b \<and> s = sb_text b @ crlf @ content"
  by (auto simp: header_finish_def Let_def split: if_splits dest!: sb_append_ok)

lemma fold_headers_ok:
  "\<not> sb_error (fold (\<lambda>(k, v). add_header k v) hs b) \<Longrightarrow> \<not> sb_error b \<and>
   sb_text (fold (\<lambda>(k, v). add_header k v) hs b) = sb_text b @ concat (map (\<lambda>(k, v). header_line k v) hs)"
proof (induction hs arbitrary: b)
  case (Cons h hs)
  obtain k v where h: "h = (k, v)" by (cases h)
  from Cons.prems have "\<not> sb_error (fold (\<lambda>(k, v). add_header k v) hs (add_header k v b))" by (simp add: h)
  from Cons.IH [OF this] add_header_ok [of k v b] show ?case by (auto simp: h)
qed simp

text \<open>
  (C38) Response headers are never truncated: whenever the header creator reports success for a
  status, a list of fields and a body, the text is exactly the status line, every field, an empty
  line and the body, whatever the lengths are.
\<close>

theorem header_success_exact:
  assumes "- (2 ^ 31) \<le> code"
    and "header_finish content (fold (\<lambda>(k, v). add_header k v) hs (init_status_line code)) = Inr s"
  shows "s = ''HTTP/1.1 '' @ show_int code @ '' '' @ get_status_line code @ crlf @
    concat (map (\<lambda>(k, v). header_line k v) hs) @ crlf @ content"
proof -
  note f = header_finish_ok [OF assms(2)]
  then have h: "\<not> sb_error (fold (\<lambda>(k, v). add_header k v) hs (init_status_line code))" by simp
  note i = fold_headers_ok [OF h]
  have "print_int 32 code = show_int code" using assms(1) by (intro print_int_show_int) simp_all
  with f i init_error_ok [of code "get_status_line code"] show ?thesis by (simp add: init_status_line_def)
qed

theorem header_success_exact_witness:
  "header_finish ''x'' (fold (\<lambda>(k, v). add_header k v) [(''A'', ''b'')] (init_status_line 404)) =
     Inr (''HTTP/1.1 '' @ show_int 404 @ '' '' @ get_status_line 404 @ crlf @ header_line ''A'' ''b'' @ crlf @ ''x'')"
proof -
  obtain s where s: "header_finish ''x'' (fold (\<lambda>(k, v). add_header k v) [(''A'', ''b'')] (init_status_line 404)) = Inr s"
    by (simp add: header_finish_def add_header_def init_status_line_def init_error_def sb_append_def sb_push_char_def
        sb_push_int_def sb_new_def sb_capacity_def max_header_def reserved_size_def print_int_def print_uint_show_nat
        show_nat.simps get_status_line_def crlf_def)
  from header_success_exact [OF _ s] s show ?thesis by simp
qed

end
