(* ===== verification/Stream_Connection.thy ===== *)
theory Stream_Connection
  imports Stream_Cursor Stream_Route Http_Header
begin

section \<open>The file streaming connection\<close>

text \<open>
  \<open>FileStreamConnection\<close> (\<open>FileStream.h\<close>, \<open>FileStream.cpp\<close>): the actor that answers
  one streaming request. Its state is the record \<open>stream\<close>; a message handler is a function
  on that state that also appends the messages it sends to \<open>trace\<close>, in order. The
  configuration holds the connection's options and, as \<open>error_json\<close>, the JSON text of
  \<open>JsonQueryError\<close>. What the disk answers when a handler opens or reads the local file is an
  argument of the handler (\<open>disk\<close>). An actor that called \<open>stop\<close> is torn down after the
  handler and receives no further message; this is \<open>stream_step\<close>.
\<close>

record fs_config =
  fs_chunk_size :: int
  fs_first_byte_timeout :: real
  fs_idle_timeout :: real
  fs_write_high_watermark :: int
  fs_max_size :: int
  fs_has_cleanup :: bool
  error_json :: "int \<Rightarrow> string \<Rightarrow> string"

datatype effect =
    WriteNext string
  | WriteNoflush string
  | WriteOk
  | WriteError td_error
  | TouchActivity
  | SetTimeout real
  | CancelTimeout
  | RetainFile string
  | ReleaseFile string
  | SendFileStream int string bool string int
  | RequestRedownload int
  | OnFileStreamTimeout bool
  | ReleaseFileStream int
  | RemoveFileStream int int bool bool

record disk =
  disk_open :: "string \<Rightarrow> td_error option"
  disk_pread :: "string \<Rightarrow> int \<Rightarrow> int \<Rightarrow> string result"

record stream =
  stream_id :: int
  route :: file_stream_route
  has_client :: bool
  conn_open :: bool
  file_id :: int
  local_path :: string
  local_file :: "string option"
  cursor :: cursor
  headers_sent :: bool
  read_in_flight :: bool
  write_in_flight :: bool
  download_completed :: bool
  first_byte_sent :: bool
  completed :: bool
  redownload_requested :: bool
  pending_write_offset :: int
  pending_write_size :: int
  finished :: bool
  stopped :: bool
  trace :: "effect list"

definition new_stream :: "int \<Rightarrow> file_stream_route \<Rightarrow> stream" where
  "new_stream sid r =
     \<lparr>stream_id = sid, route = r, has_client = False, conn_open = True, file_id = 0, local_path = [],
      local_file = None, cursor = new_cursor, headers_sent = False, read_in_flight = False,
      write_in_flight = False, download_completed = False, first_byte_sent = False, completed = False,
      redownload_requested = False, pending_write_offset = -1, pending_write_size = 0,
      finished = False, stopped = False, trace = []\<rparr>"

definition emit :: "effect \<Rightarrow> stream \<Rightarrow> stream" where
  "emit e s = s\<lparr>trace := trace s @ [e]\<rparr>"

definition start_up :: "fs_config \<Rightarrow> stream \<Rightarrow> stream" where
  "start_up cfg s =
     emit (SendFileStream (stream_id s) (route_token (route s)) (route_is_test_dc (route s))
             (route_file_id (route s)) (route_expected_size (route s)))
       (emit (SetTimeout (fs_first_byte_timeout cfg)) s)"

definition set_client :: "stream \<Rightarrow> stream" where
  "set_client s = s\<lparr>has_client := True\<rparr>"

subsection \<open>Ending a stream\<close>

definition http_code :: "int \<Rightarrow> int" where
  "http_code code = (if code < 400 \<or> code > 599 then 502 else code)"

text \<open>The part of \<open>fail\<close> that answers with a JSON error; nothing was sent before.\<close>

definition fail_json :: "fs_config \<Rightarrow> int \<Rightarrow> string \<Rightarrow> stream \<Rightarrow> stream" where
  "fail_json cfg code message s =
     (let content = error_json cfg code message;
          header = header_finish []
            (set_content_size (length content) (set_content_type ''application/json'' (init_status_line code)));
          s1 = emit CancelTimeout (s\<lparr>finished := True\<rparr>);
          s2 = (case header of
                  Inl e \<Rightarrow> emit (WriteError e) s1
                | Inr h \<Rightarrow> emit WriteOk (emit (WriteNoflush content) (emit (WriteNoflush h) s1)))
      in s2\<lparr>conn_open := False, stopped := True\<rparr>)"

definition abort :: "fs_config \<Rightarrow> td_error \<Rightarrow> stream \<Rightarrow> stream" where
  "abort cfg e s =
     (if finished s then s
      else if \<not> headers_sent s then fail_json cfg (http_code (err_code e)) (err_message e) s
      else
        let s1 = emit CancelTimeout (s\<lparr>finished := True\<rparr>);
            s2 = (if conn_open s1 then (emit (WriteError e) s1)\<lparr>conn_open := False\<rparr> else s1)
        in s2\<lparr>stopped := True\<rparr>)"

definition fail :: "fs_config \<Rightarrow> int \<Rightarrow> string \<Rightarrow> stream \<Rightarrow> stream" where
  "fail cfg code message s =
     (if finished s then s
      else if headers_sent s then abort cfg (Error code message) s
      else fail_json cfg code message s)"

definition stream_header :: "int \<Rightarrow> string result" where
  "stream_header total_sz =
     header_finish []
       (add_header ''Cache-Control'' ''private''
         (add_header ''Content-Disposition'' ''attachment''
           (set_content_size (nat total_sz)
             (set_content_type ''application/octet-stream'' (set_keep_alive (init_status_line 200))))))"

definition send_headers :: "fs_config \<Rightarrow> stream \<Rightarrow> bool \<times> stream" where
  "send_headers cfg s =
     (if headers_sent s then (True, s)
      else case stream_header (total_size (cursor s)) of
             Inl e \<Rightarrow> (False, fail cfg 500 ''Failed to create streaming response headers'' s)
           | Inr h \<Rightarrow> (True, emit (WriteNext h) (s\<lparr>headers_sent := True\<rparr>)))"

definition finish :: "fs_config \<Rightarrow> stream \<Rightarrow> stream" where
  "finish cfg s =
     (if finished s then s
      else if \<not> is_complete (cursor s) \<or> read_in_flight s \<or> write_in_flight s
      then abort cfg (Error 500 ''Attempted to finish an incomplete stream'') s
      else case send_headers cfg s of
             (False, s1) \<Rightarrow> s1
           | (True, s1) \<Rightarrow>
               let s2 = emit CancelTimeout (s1\<lparr>finished := True, completed := True\<rparr>);
                   s3 = (if conn_open s2 then (emit WriteOk s2)\<lparr>conn_open := False\<rparr> else s2)
               in s3\<lparr>stopped := True\<rparr>)"

definition on_file_error :: "fs_config \<Rightarrow> td_error \<Rightarrow> stream \<Rightarrow> stream" where
  "on_file_error cfg e s =
     (if finished s then s
      else if \<not> headers_sent s then fail cfg (http_code (err_code e)) (err_message e) s
      else abort cfg e s)"

definition timeout_expired :: "fs_config \<Rightarrow> stream \<Rightarrow> stream" where
  "timeout_expired cfg s =
     (let first_byte_timeout = \<not> first_byte_sent s in
      on_file_error cfg
        (Error 504 (if first_byte_timeout then ''File stream first byte timeout'' else ''File stream stalled''))
        (emit (OnFileStreamTimeout first_byte_timeout) s))"

definition tear_down :: "fs_config \<Rightarrow> stream \<Rightarrow> stream" where
  "tear_down cfg s =
     (let s1 = s\<lparr>local_file := None\<rparr>;
          s2 = (if local_path s1 \<noteq> [] \<and> fs_has_cleanup cfg then emit (ReleaseFile (local_path s1)) s1 else s1);
          s3 = emit (ReleaseFileStream (stream_id s2)) s2
      in if has_client s3
         then emit (RemoveFileStream (stream_id s3) (file_id s3) (route_no_cache (route s3)) (completed s3)) s3
         else s3)"

subsection \<open>Recovery of a lost local copy\<close>

definition drop_stale_download_state :: "fs_config \<Rightarrow> stream \<Rightarrow> stream" where
  "drop_stale_download_state cfg s =
     (let s1 = s\<lparr>download_completed := False, local_file := None\<rparr>;
          s2 = (if next_offset (cursor s1) = 0 then s1\<lparr>cursor := (cursor s1)\<lparr>contiguous_end := 0\<rparr>\<rparr> else s1)
      in emit (SetTimeout (fs_first_byte_timeout cfg)) s2)"

definition request_file_redownload :: "stream \<Rightarrow> stream" where
  "request_file_redownload s =
     (if redownload_requested s \<or> file_id s \<le> 0 \<or> \<not> has_client s then s
      else emit (RequestRedownload (file_id s)) (s\<lparr>redownload_requested := True\<rparr>))"

subsection \<open>Reading and writing\<close>

definition effective_chunk_size :: "fs_config \<Rightarrow> int" where
  "effective_chunk_size cfg = min (fs_chunk_size cfg) (fs_write_high_watermark cfg)"

definition on_file_data :: "fs_config \<Rightarrow> int \<Rightarrow> string result \<Rightarrow> stream \<Rightarrow> stream" where
  "on_file_data cfg offset res s0 =
     (let s = s0\<lparr>read_in_flight := False\<rparr> in
      if finished s then s
      else case res of
             Inl e \<Rightarrow> abort cfg (Error 502 (err_message e)) s
           | Inr dat \<Rightarrow>
               if int (length dat) \<noteq> next_read_size (cursor s) (effective_chunk_size cfg) \<or> dat = []
               then abort cfg (Error 500 ''TDLib local file returned an incomplete part'') s
               else
                 let s1 = s\<lparr>write_in_flight := True, pending_write_offset := offset,
                            pending_write_size := int (length dat)\<rparr>
                 in case send_headers cfg s1 of
                      (False, s2) \<Rightarrow> s2
                    | (True, s2) \<Rightarrow> emit (WriteNext dat) s2)"

text \<open>The part of \<open>try_read\<close> after the local file is open.\<close>

definition read_chunk :: "fs_config \<Rightarrow> disk \<Rightarrow> string \<Rightarrow> int \<Rightarrow> stream \<Rightarrow> stream" where
  "read_chunk cfg d path count s0 =
     (let s = s0\<lparr>read_in_flight := True\<rparr> in
      case disk_pread d path (next_offset (cursor s)) count of
        Inl e \<Rightarrow> abort cfg (Error 500 (''Failed to read TDLib local file: '' @ err_message e)) (s\<lparr>read_in_flight := False\<rparr>)
      | Inr dat \<Rightarrow>
          if int (length dat) \<noteq> count
          then if \<not> download_completed s then s\<lparr>read_in_flight := False, local_file := None\<rparr>
               else abort cfg (Error 500 ''TDLib local file returned an incomplete part'') (s\<lparr>read_in_flight := False\<rparr>)
          else on_file_data cfg (next_offset (cursor s)) (Inr dat) s)"

definition try_read :: "fs_config \<Rightarrow> disk \<Rightarrow> stream \<Rightarrow> stream" where
  "try_read cfg d s =
     (if finished s \<or> read_in_flight s \<or> write_in_flight s \<or> total_size (cursor s) < 0 then s
      else if is_complete (cursor s) then finish cfg s
      else
        let count = next_read_size (cursor s) (effective_chunk_size cfg) in
        if count = 0 then s
        else if count < 0 then abort cfg (Error 500 ''Invalid stream read size'') s
        else if local_path s = [] then s
        else case local_file s of
               Some path \<Rightarrow> read_chunk cfg d path count s
             | None \<Rightarrow>
                 (case disk_open d (local_path s) of
                    Some e \<Rightarrow>
                      if \<not> download_completed s then s
                      else if \<not> file_stream_waits_for_redownload (download_completed s) (first_byte_sent s)
                      then abort cfg (Error 500 (''Failed to open TDLib local file: '' @ err_message e)) s
                      else request_file_redownload (drop_stale_download_state cfg s)
                  | None \<Rightarrow> read_chunk cfg d (local_path s) count (s\<lparr>local_file := Some (local_path s)\<rparr>)))"

definition on_chunk_flushed :: "fs_config \<Rightarrow> unit result \<Rightarrow> disk \<Rightarrow> stream \<Rightarrow> stream" where
  "on_chunk_flushed cfg res d s0 =
     (let s = s0\<lparr>write_in_flight := False\<rparr> in
      if finished s then s
      else case res of
             Inl e \<Rightarrow> abort cfg e s
           | Inr _ \<Rightarrow>
               (case commit (cursor s) (pending_write_offset s) (pending_write_size s) of
                  Inl e \<Rightarrow> abort cfg e (s\<lparr>pending_write_offset := -1, pending_write_size := 0\<rparr>)
                | Inr c \<Rightarrow>
                    let s1 = s\<lparr>cursor := c, pending_write_offset := -1, pending_write_size := 0,
                               first_byte_sent := True\<rparr>;
                        s2 = (if conn_open s1 then emit TouchActivity s1 else s1)
                    in try_read cfg d (emit (SetTimeout (fs_idle_timeout cfg)) s2)))"

definition on_headers_flushed :: "fs_config \<Rightarrow> unit result \<Rightarrow> stream \<Rightarrow> stream" where
  "on_headers_flushed cfg res s =
     (if finished s then s else case res of Inl e \<Rightarrow> abort cfg e s | Inr _ \<Rightarrow> s)"

subsection \<open>Reports of TDLib\<close>

text \<open>The handling of a new local path; \<open>close\<close>: the open file is closed as well.\<close>

definition change_path :: "fs_config \<Rightarrow> bool \<Rightarrow> string \<Rightarrow> stream \<Rightarrow> stream" where
  "change_path cfg close path s =
     (if path \<noteq> [] \<and> local_path s \<noteq> path
      then
        let s0 = (if close then s\<lparr>local_file := None\<rparr> else s);
            s1 = (if local_path s0 \<noteq> [] \<and> fs_has_cleanup cfg then emit (ReleaseFile (local_path s0)) s0 else s0);
            s2 = s1\<lparr>local_path := path\<rparr>
        in if fs_has_cleanup cfg then emit (RetainFile path) s2 else s2
      else s)"

definition on_file_ready ::
  "fs_config \<Rightarrow> int \<Rightarrow> int \<Rightarrow> string \<Rightarrow> int \<Rightarrow> int \<Rightarrow> bool \<Rightarrow> disk \<Rightarrow> stream \<Rightarrow> stream"
where
  "on_file_ready cfg fid total_sz path download_offset prefix_size is_completed d s =
     (if finished s then s
      else if fid \<le> 0 \<or> total_sz < 0 then fail cfg 500 ''Invalid file metadata received from TDLib'' s
      else
        let s1 = change_path cfg False path (s\<lparr>file_id := fid\<rparr>) in
        if total_sz > 2 ^ 64 - 1 then fail cfg 413 ''File is too large for this build'' s1
        else if fs_max_size cfg > 0 \<and> total_sz > fs_max_size cfg
        then fail cfg 413 ''File is too large for the streaming endpoint'' s1
        else
          let s2 = emit (SetTimeout (fs_first_byte_timeout cfg)) s1;
              s3 = s2\<lparr>cursor := (cursor s2)\<lparr>total_size := total_sz\<rparr>\<rparr>
          in case update_progress (cursor s3) download_offset prefix_size is_completed of
               Inl e \<Rightarrow> fail cfg 502 (err_message e) s3
             | Inr c \<Rightarrow>
                 let s4 = s3\<lparr>cursor := c, download_completed := is_completed\<rparr> in
                 if download_completed s4 \<and> contiguous_end (cursor s4) < total_size (cursor s4)
                 then fail cfg 502 ''Telegram download completed with an incomplete file'' s4
                 else try_read cfg d s4)"

definition on_file_progress ::
  "fs_config \<Rightarrow> int \<Rightarrow> string \<Rightarrow> int \<Rightarrow> int \<Rightarrow> bool \<Rightarrow> bool \<Rightarrow> disk \<Rightarrow> stream \<Rightarrow> stream"
where
  "on_file_progress cfg reported_total path download_offset prefix_size is_completed is_active d s =
     (if finished s \<or> total_size (cursor s) < 0 then s
      else if reported_total > 0 \<and> reported_total \<noteq> total_size (cursor s)
      then abort cfg (Error 502 ''File size metadata changed during download'') s
      else
        let s1 = change_path cfg True path s;
            s2 = (if download_completed s1 \<and> \<not> is_completed
                  then request_file_redownload (drop_stale_download_state cfg s1) else s1)
        in case update_progress (cursor s2) download_offset prefix_size is_completed of
             Inl e \<Rightarrow> abort cfg e s2
           | Inr c \<Rightarrow>
               let s3 = s2\<lparr>cursor := c, download_completed := download_completed s2 \<or> is_completed\<rparr> in
               if \<not> is_active \<and> file_stream_fails_on_stopped_download (download_completed s3) (first_byte_sent s3)
               then abort cfg (Error 502 ''Telegram file download stopped before completion'') s3
               else if download_completed s3 \<and> contiguous_end (cursor s3) < total_size (cursor s3)
               then abort cfg (Error 502 ''Telegram download completed with an incomplete file'') s3
               else try_read cfg d s3)"

subsection \<open>The actor\<close>

datatype stream_event =
    SetClient
  | FileReady int int string int int bool disk
  | FileProgress int string int int bool bool disk
  | ChunkFlushed "unit result" disk
  | HeadersFlushed "unit result"
  | FileError td_error
  | TimeoutExpired

fun handle_event :: "fs_config \<Rightarrow> stream_event \<Rightarrow> stream \<Rightarrow> stream" where
  "handle_event cfg SetClient s = set_client s"
| "handle_event cfg (FileReady fid total_sz path off pre fin d) s = on_file_ready cfg fid total_sz path off pre fin d s"
| "handle_event cfg (FileProgress total_sz path off pre fin act d) s =
     on_file_progress cfg total_sz path off pre fin act d s"
| "handle_event cfg (ChunkFlushed r d) s = on_chunk_flushed cfg r d s"
| "handle_event cfg (HeadersFlushed r) s = on_headers_flushed cfg r s"
| "handle_event cfg (FileError e) s = on_file_error cfg e s"
| "handle_event cfg TimeoutExpired s = timeout_expired cfg s"

definition stream_step :: "fs_config \<Rightarrow> stream_event \<Rightarrow> stream \<Rightarrow> stream" where
  "stream_step cfg ev s =
     (if stopped s then s
      else let s' = handle_event cfg ev s in if stopped s' then tear_down cfg s' else s')"

end
