(* ===== verification/Stream_Safety.thy ===== *)
theory Stream_Safety
  imports Stream_Connection
begin

section \<open>What a file stream delivers\<close>

text \<open>
  The invariant of \<open>FileStreamConnection\<close> under every sequence of messages: the bytes given to
  the connection are the response header followed by a prefix of the file, each byte once and in
  order, or one JSON error response; a response has exactly one end; only a complete file ends as completed; and every local copy
  retained for the stream is released.
\<close>

subsection \<open>The header of a stream always fits\<close>

lemma length_show_nat: "n < 10 ^ k \<Longrightarrow> 0 < k \<Longrightarrow> length (show_nat n) \<le> k"
proof (induction n arbitrary: k rule: show_nat.induct)
  case (1 n)
  show ?case
  proof (cases "n < 10")
    case True
    then show ?thesis using 1 by (simp add: show_nat.simps [of n])
  next
    case False
    then obtain j where k: "k = Suc j" "0 < j" using 1 by (cases k; cases "k - 1") auto
    have "n div 10 < 10 ^ j" using 1(2) k by (simp add: div_less_iff_less_mult)
    with 1 False k show ?thesis by (simp add: show_nat.simps [of n])
  qed
qed

lemma add_header_fits:
  assumes "\<not> sb_error b" and "length (sb_text b) + length k + length v + 4 < sb_capacity"
  shows "add_header k v b = \<lparr>sb_text = sb_text b @ header_line k v, sb_error = False\<rparr>"
  using assms by (simp add: add_header_def header_line_def sb_append_fits crlf_def)

text \<open>The response header of a stream of \<open>n\<close> bytes.\<close>

definition stream_header_text :: "int \<Rightarrow> string" where
  "stream_header_text n =
     ''HTTP/1.1 200 OK'' @ crlf @ header_line ''Connection'' ''keep-alive'' @
     header_line ''Content-Type'' ''application/octet-stream'' @
     header_line ''Content-Length'' (show_nat (nat n)) @
     header_line ''Content-Disposition'' ''attachment'' @ header_line ''Cache-Control'' ''private'' @ crlf"

lemma stream_header_ok:
  assumes "0 \<le> n" and "is_int64 n"
  shows "stream_header n = Inr (stream_header_text n)"
proof -
  have "nat n < 10 ^ 20" using assms by (simp add: range_simps)
  then have len: "length (show_nat (nat n)) \<le> 20" by (rule length_show_nat) simp
  have i: "init_status_line 200 = \<lparr>sb_text = ''HTTP/1.1 200 OK'' @ crlf, sb_error = False\<rparr>"
    by code_simp
  note defs = sb_capacity_def max_header_def reserved_size_def header_line_def crlf_def
  define b1 where "b1 = set_content_type ''application/octet-stream'' (set_keep_alive (init_status_line 200))"
  have b1: "b1 = \<lparr>sb_text = ''HTTP/1.1 200 OK'' @ crlf @ header_line ''Connection'' ''keep-alive'' @
      header_line ''Content-Type'' ''application/octet-stream'', sb_error = False\<rparr>"
    unfolding b1_def set_content_type_def set_keep_alive_def i
    by (subst add_header_fits, simp, simp add: defs) (subst add_header_fits, simp, simp add: defs, simp)
  define b2 where "b2 = set_content_size (nat n) b1"
  have b2: "b2 = \<lparr>sb_text = sb_text b1 @ header_line ''Content-Length'' (show_nat (nat n)), sb_error = False\<rparr>"
    unfolding b2_def set_content_size_def using len by (intro add_header_fits) (simp_all add: b1 defs)
  define b3 where "b3 = add_header ''Content-Disposition'' ''attachment'' b2"
  have b3: "b3 = \<lparr>sb_text = sb_text b2 @ header_line ''Content-Disposition'' ''attachment'', sb_error = False\<rparr>"
    unfolding b3_def using len by (intro add_header_fits) (simp_all add: b1 b2 defs)
  define b4 where "b4 = add_header ''Cache-Control'' ''private'' b3"
  have b4: "b4 = \<lparr>sb_text = sb_text b3 @ header_line ''Cache-Control'' ''private'', sb_error = False\<rparr>"
    unfolding b4_def using len by (intro add_header_fits) (simp_all add: b1 b2 b3 defs)
  have "sb_append crlf b4 = \<lparr>sb_text = sb_text b4 @ crlf, sb_error = False\<rparr>"
    using len by (intro sb_append_fits) (simp_all add: b1 b2 b3 b4 defs)
  then have "header_finish [] b4 = Inr (sb_text b4 @ crlf)" by (simp add: header_finish_def)
  moreover have "sb_text b4 @ crlf = stream_header_text n" by (simp add: stream_header_text_def b1 b2 b3 b4)
  ultimately show ?thesis
    unfolding stream_header_def b1_def [symmetric] b2_def [symmetric] b3_def [symmetric] b4_def [symmetric] by simp
qed

subsection \<open>The invariant\<close>

fun wire_text :: "effect \<Rightarrow> string" where
  "wire_text (WriteNext t) = t"
| "wire_text (WriteNoflush t) = t"
| "wire_text _ = []"

fun is_end :: "effect \<Rightarrow> bool" where
  "is_end WriteOk = True"
| "is_end (WriteError e) = True"
| "is_end _ = False"

definition wire :: "stream \<Rightarrow> string" where
  "wire s = concat (map wire_text (trace s))"

definition ends :: "stream \<Rightarrow> nat" where
  "ends s = length (filter is_end (trace s))"

text \<open>A complete JSON error response.\<close>

definition json_response :: "fs_config \<Rightarrow> string \<Rightarrow> bool" where
  "json_response cfg t \<longleftrightarrow>
     (\<exists>code message header. 400 \<le> code \<and> code \<le> 599 \<and>
        header_finish [] (set_content_size (length (error_json cfg code message))
          (set_content_type ''application/json'' (init_status_line code))) = Inr header \<and>
        t = header @ error_json cfg code message)"

definition body_inv :: "fs_config \<Rightarrow> string \<Rightarrow> int \<Rightarrow> stream \<Rightarrow> bool" where
  "body_inv cfg contents n s \<longleftrightarrow>
     finished s \<and> \<not> headers_sent s \<and> \<not> completed s \<and> json_response cfg (wire s) \<or>
     (\<exists>k. k \<le> length contents \<and> wire s = (if headers_sent s then stream_header_text n else []) @ take k contents \<and>
        (0 < k \<longrightarrow> headers_sent s) \<and>
        (\<not> finished s \<longrightarrow>
           int k = next_offset (cursor s) + (if write_in_flight s then pending_write_size s else 0)) \<and>
        (completed s \<longrightarrow> headers_sent s \<and> int k = n))"

definition stream_inv :: "fs_config \<Rightarrow> string \<Rightarrow> int \<Rightarrow> stream \<Rightarrow> bool" where
  "stream_inv cfg contents n s \<longleftrightarrow>
     cursor_inv (cursor s) \<and> total_size (cursor s) \<in> {-1, n} \<and> (finished s \<longleftrightarrow> stopped s) \<and>
     (conn_open s \<longleftrightarrow> \<not> finished s) \<and> \<not> read_in_flight s \<and>
     (headers_sent s \<longrightarrow> total_size (cursor s) = n \<and> 0 \<le> n) \<and> (completed s \<longrightarrow> finished s) \<and>
     ends s = (if finished s then 1 else 0) \<and> body_inv cfg contents n s \<and>
     (write_in_flight s \<and> \<not> finished s \<longrightarrow>
        pending_write_offset s = next_offset (cursor s) \<and> 0 < pending_write_size s \<and> headers_sent s) \<and>
     (\<not> write_in_flight s \<and> \<not> finished s \<longrightarrow> pending_write_size s = 0)"

text \<open>What the disk promises: a successful read returns bytes of the file at that offset.\<close>

definition disk_ok :: "string \<Rightarrow> disk \<Rightarrow> bool" where
  "disk_ok contents d \<longleftrightarrow>
     (\<forall>path off count bs. disk_pread d path off count = Inr bs \<longrightarrow> (\<exists>ys. drop (nat off) contents = bs @ ys))"

lemma wire_emit [simp]: "wire (emit e s) = wire s @ wire_text e"
  by (simp add: wire_def emit_def)

lemma ends_emit [simp]: "ends (emit e s) = ends s + (if is_end e then 1 else 0)"
  by (simp add: ends_def emit_def)

lemma emit_fields [simp]:
  "cursor (emit e s) = cursor s" "finished (emit e s) = finished s" "stopped (emit e s) = stopped s"
  "conn_open (emit e s) = conn_open s" "read_in_flight (emit e s) = read_in_flight s"
  "headers_sent (emit e s) = headers_sent s" "completed (emit e s) = completed s"
  "write_in_flight (emit e s) = write_in_flight s" "pending_write_offset (emit e s) = pending_write_offset s"
  "pending_write_size (emit e s) = pending_write_size s" "local_path (emit e s) = local_path s"
  "local_file (emit e s) = local_file s" "download_completed (emit e s) = download_completed s"
  "first_byte_sent (emit e s) = first_byte_sent s" "has_client (emit e s) = has_client s"
  "file_id (emit e s) = file_id s" "redownload_requested (emit e s) = redownload_requested s"
  "stream_id (emit e s) = stream_id s" "route (emit e s) = route s"
  by (simp_all add: emit_def)

text \<open>Two states that differ only in what the invariant does not mention.\<close>

lemma stream_inv_cong:
  assumes "stream_inv cfg contents n s" and "cursor s' = cursor s" "finished s' = finished s" "stopped s' = stopped s"
    "conn_open s' = conn_open s" "read_in_flight s' = read_in_flight s" "headers_sent s' = headers_sent s"
    "completed s' = completed s" "write_in_flight s' = write_in_flight s"
    "pending_write_offset s' = pending_write_offset s" "pending_write_size s' = pending_write_size s"
    "wire s' = wire s" "ends s' = ends s"
  shows "stream_inv cfg contents n s'"
  using assms(1) unfolding stream_inv_def body_inv_def assms(2-13) .

lemma wire_updates [simp]:
  "wire (s\<lparr>cursor := c\<rparr>) = wire s" "wire (s\<lparr>finished := b\<rparr>) = wire s" "wire (s\<lparr>stopped := b\<rparr>) = wire s"
  "wire (s\<lparr>conn_open := b\<rparr>) = wire s" "wire (s\<lparr>read_in_flight := b\<rparr>) = wire s"
  "wire (s\<lparr>headers_sent := b\<rparr>) = wire s" "wire (s\<lparr>completed := b\<rparr>) = wire s"
  "wire (s\<lparr>write_in_flight := b\<rparr>) = wire s" "wire (s\<lparr>pending_write_offset := i\<rparr>) = wire s"
  "wire (s\<lparr>pending_write_size := i\<rparr>) = wire s" "wire (s\<lparr>local_path := p\<rparr>) = wire s"
  "wire (s\<lparr>local_file := f\<rparr>) = wire s" "wire (s\<lparr>download_completed := b\<rparr>) = wire s"
  "wire (s\<lparr>first_byte_sent := b\<rparr>) = wire s" "wire (s\<lparr>has_client := b\<rparr>) = wire s"
  "wire (s\<lparr>file_id := i\<rparr>) = wire s" "wire (s\<lparr>redownload_requested := b\<rparr>) = wire s"
  by (simp_all add: wire_def)

lemma ends_updates [simp]:
  "ends (s\<lparr>cursor := c\<rparr>) = ends s" "ends (s\<lparr>finished := b\<rparr>) = ends s" "ends (s\<lparr>stopped := b\<rparr>) = ends s"
  "ends (s\<lparr>conn_open := b\<rparr>) = ends s" "ends (s\<lparr>read_in_flight := b\<rparr>) = ends s"
  "ends (s\<lparr>headers_sent := b\<rparr>) = ends s" "ends (s\<lparr>completed := b\<rparr>) = ends s"
  "ends (s\<lparr>write_in_flight := b\<rparr>) = ends s" "ends (s\<lparr>pending_write_offset := i\<rparr>) = ends s"
  "ends (s\<lparr>pending_write_size := i\<rparr>) = ends s" "ends (s\<lparr>local_path := p\<rparr>) = ends s"
  "ends (s\<lparr>local_file := f\<rparr>) = ends s" "ends (s\<lparr>download_completed := b\<rparr>) = ends s"
  "ends (s\<lparr>first_byte_sent := b\<rparr>) = ends s" "ends (s\<lparr>has_client := b\<rparr>) = ends s"
  "ends (s\<lparr>file_id := i\<rparr>) = ends s" "ends (s\<lparr>redownload_requested := b\<rparr>) = ends s"
  by (simp_all add: ends_def)

subsection \<open>Ending a stream keeps the invariant\<close>

text \<open>What an unfinished stream has when it is ended by an error, whatever is in flight.\<close>

definition endable :: "string \<Rightarrow> int \<Rightarrow> stream \<Rightarrow> bool" where
  "endable contents n s \<longleftrightarrow>
     cursor_inv (cursor s) \<and> total_size (cursor s) \<in> {-1, n} \<and> \<not> finished s \<and> \<not> stopped s \<and> conn_open s \<and>
     \<not> read_in_flight s \<and> (headers_sent s \<longrightarrow> total_size (cursor s) = n \<and> 0 \<le> n) \<and> \<not> completed s \<and> ends s = 0 \<and>
     (\<exists>k. k \<le> length contents \<and> wire s = (if headers_sent s then stream_header_text n else []) @ take k contents \<and>
        (0 < k \<longrightarrow> headers_sent s))"

lemma stream_inv_endable: "stream_inv cfg contents n s \<Longrightarrow> \<not> finished s \<Longrightarrow> endable contents n s"
  by (auto simp: stream_inv_def body_inv_def endable_def)

lemma fail_json_inv:
  assumes "endable contents n s" and "\<not> headers_sent s" and "400 \<le> code" "code \<le> 599"
  shows "stream_inv cfg contents n (fail_json cfg code msg s)"
proof -
  let ?header = "header_finish [] (set_content_size (length (error_json cfg code msg))
    (set_content_type ''application/json'' (init_status_line code)))"
  have "wire s = []" using assms(1,2) by (auto simp: endable_def)
  then show ?thesis
  proof (cases ?header)
    case (Inl e)
    then show ?thesis using assms by (auto simp: fail_json_def endable_def stream_inv_def body_inv_def Let_def)
  next
    case (Inr h)
    then have "json_response cfg (h @ error_json cfg code msg)" using assms(3,4) by (auto simp: json_response_def)
    then show ?thesis using assms(1,2) Inr \<open>wire s = []\<close>
      by (auto simp: fail_json_def endable_def stream_inv_def body_inv_def Let_def)
  qed
qed

lemma http_code_range: "400 \<le> http_code code" "http_code code \<le> 599"
  by (simp_all add: http_code_def)

lemma abort_inv:
  assumes "endable contents n s"
  shows "stream_inv cfg contents n (abort cfg e s)"
proof (cases "headers_sent s")
  case False
  moreover have "\<not> finished s" using assms by (simp add: endable_def)
  ultimately show ?thesis using fail_json_inv [OF assms False http_code_range] by (simp add: abort_def)
next
  case True
  with assms show ?thesis
    by (auto simp: abort_def endable_def stream_inv_def body_inv_def Let_def)
qed

lemma fail_inv:
  assumes "endable contents n s" and "400 \<le> code" "code \<le> 599"
  shows "stream_inv cfg contents n (fail cfg code msg s)"
proof -
  have "\<not> finished s" using assms by (simp add: endable_def)
  then show ?thesis using abort_inv [OF assms(1)] fail_json_inv [OF assms(1) _ assms(2,3)] by (simp add: fail_def)
qed

lemma send_headers_eq:
  assumes "0 \<le> n" and "is_int64 n" and "total_size (cursor s) = n"
  shows "send_headers cfg s =
    (True, if headers_sent s then s else emit (WriteNext (stream_header_text n)) (s\<lparr>headers_sent := True\<rparr>))"
  using assms stream_header_ok [OF assms(1,2)] by (simp add: send_headers_def)

lemma stream_inv_total:
  assumes "stream_inv cfg contents n s" and "0 \<le> total_size (cursor s)"
  shows "total_size (cursor s) = n" "0 \<le> n" "is_int64 n"
  using assms by (auto simp: stream_inv_def cursor_inv_def)

lemma finish_inv:
  assumes "stream_inv cfg contents n s" and "\<not> finished s"
  shows "stream_inv cfg contents n (finish cfg s)"
proof (cases "\<not> is_complete (cursor s) \<or> read_in_flight s \<or> write_in_flight s")
  case True
  with assms abort_inv [OF stream_inv_endable [OF assms]] show ?thesis by (simp add: finish_def)
next
  case False
  then have tot: "0 \<le> total_size (cursor s)" and nxt: "next_offset (cursor s) = total_size (cursor s)"
    by (auto simp: is_complete_def)
  note n = stream_inv_total [OF assms(1) tot]
  show ?thesis
    using assms False nxt n
    by (auto simp: finish_def send_headers_eq [OF n(2,3,1)] stream_inv_def body_inv_def Let_def)
qed

lemma take_append_read:
  assumes "drop k contents = dat @ ys" and "k \<le> length contents"
  shows "take k contents @ dat = take (k + length dat) contents" "k + length dat \<le> length contents"
proof -
  have "length contents - k = length dat + length ys" using arg_cong [OF assms(1), of length] by simp
  then show "k + length dat \<le> length contents" using assms(2) by linarith
  show "take k contents @ dat = take (k + length dat) contents" by (simp add: take_add assms(1))
qed

lemma on_file_data_inv:
  assumes inv: "stream_inv cfg contents n (s\<lparr>read_in_flight := False\<rparr>)" and "\<not> finished s" and "\<not> write_in_flight s"
    and tot: "0 \<le> total_size (cursor s)" and dat: "drop (nat (next_offset (cursor s))) contents = dat @ ys"
  shows "stream_inv cfg contents n (on_file_data cfg (next_offset (cursor s)) (Inr dat) s)"
proof (cases "int (length dat) \<noteq> next_read_size (cursor s) (effective_chunk_size cfg) \<or> dat = []")
  case True
  with assms abort_inv [OF stream_inv_endable [OF inv]] show ?thesis by (simp add: on_file_data_def)
next
  case False
  note n = stream_inv_total [OF inv, simplified, OF tot]
  define s1 where "s1 = s\<lparr>read_in_flight := False, write_in_flight := True,
    pending_write_offset := next_offset (cursor s), pending_write_size := int (length dat)\<rparr>"
  have eq: "on_file_data cfg (next_offset (cursor s)) (Inr dat) s =
      emit (WriteNext dat) (if headers_sent s then s1
        else emit (WriteNext (stream_header_text n)) (s1\<lparr>headers_sent := True\<rparr>))"
    using False assms(2) n send_headers_eq [of n s1 cfg] by (simp add: on_file_data_def s1_def)
  from inv obtain k where k: "k \<le> length contents" "int k = next_offset (cursor s)"
    "wire s = (if headers_sent s then stream_header_text n else []) @ take k contents" "0 < k \<longrightarrow> headers_sent s"
    using assms(2,3) by (auto simp: stream_inv_def body_inv_def)
  have "drop k contents = dat @ ys" using dat k(2) by (metis nat_int)
  note rd = take_append_read [OF this k(1)]
  have "body_inv cfg contents n (on_file_data cfg (next_offset (cursor s)) (Inr dat) s)"
    unfolding body_inv_def
  proof (intro disjI2 exI [of _ "k + length dat"] conjI)
    have "wire s1 = wire s" by (simp add: s1_def)
    then show "wire (on_file_data cfg (next_offset (cursor s)) (Inr dat) s) =
        (if headers_sent (on_file_data cfg (next_offset (cursor s)) (Inr dat) s) then stream_header_text n else []) @
        take (k + length dat) contents"
      using k(3,4) rd(1) by (cases "headers_sent s") (auto simp: eq s1_def)
    show "completed (on_file_data cfg (next_offset (cursor s)) (Inr dat) s) \<longrightarrow>
        headers_sent (on_file_data cfg (next_offset (cursor s)) (Inr dat) s) \<and> int (k + length dat) = n"
      using inv assms(2) by (auto simp: eq s1_def stream_inv_def)
  qed (use rd(2) k(2) in \<open>auto simp: eq s1_def\<close>)
  moreover have "0 < int (length dat)" using False by (cases dat) auto
  ultimately show ?thesis using inv assms(2) n by (auto simp: stream_inv_def eq s1_def)
qed

lemma read_chunk_inv:
  assumes inv: "stream_inv cfg contents n s" and "\<not> finished s" and "\<not> write_in_flight s"
    and tot: "0 \<le> total_size (cursor s)" and "disk_ok contents d"
  shows "stream_inv cfg contents n (read_chunk cfg d path count s)"
proof (cases "disk_pread d path (next_offset (cursor s)) count")
  case (Inl e)
  have r: "s\<lparr>read_in_flight := False\<rparr> = s" using inv by (simp add: stream_inv_def)
  with Inl abort_inv [OF stream_inv_endable [OF inv assms(2)]] show ?thesis by (simp add: read_chunk_def)
next
  case (Inr dat)
  have r: "s\<lparr>read_in_flight := False\<rparr> = s" using inv by (simp add: stream_inv_def)
  from Inr assms(5) obtain ys where ys: "drop (nat (next_offset (cursor s))) contents = dat @ ys"
    unfolding disk_ok_def by blast
  have data: "stream_inv cfg contents n (on_file_data cfg (next_offset (cursor s)) (Inr dat) (s\<lparr>read_in_flight := True\<rparr>))"
    using on_file_data_inv [of cfg contents n "s\<lparr>read_in_flight := True\<rparr>" dat ys] inv assms(2-4) ys r by simp
  have "stream_inv cfg contents n (s\<lparr>read_in_flight := False, local_file := None\<rparr>)"
    using inv by (rule stream_inv_cong) (use inv in \<open>simp_all add: stream_inv_def\<close>)
  with data Inr r abort_inv [OF stream_inv_endable [OF inv assms(2)]] show ?thesis
    by (simp add: read_chunk_def Let_def)
qed

lemma drop_stale_inv:
  assumes "stream_inv cfg contents n s"
  shows "stream_inv cfg contents n (drop_stale_download_state cfg s)"
proof -
  define c where "c = (if next_offset (cursor s) = 0 then (cursor s)\<lparr>contiguous_end := 0\<rparr> else cursor s)"
  have c: "cursor_inv c" "next_offset c = next_offset (cursor s)" "total_size c = total_size (cursor s)"
    using assms by (simp_all add: c_def stream_inv_def cursor_inv_def)
  have "body_inv cfg contents n (s\<lparr>cursor := c\<rparr>) = body_inv cfg contents n s" by (simp add: body_inv_def c(2))
  then have "stream_inv cfg contents n (s\<lparr>cursor := c\<rparr>)"
    using assms c unfolding stream_inv_def by auto
  then show ?thesis
    by (rule stream_inv_cong) (simp_all add: drop_stale_download_state_def Let_def c_def)
qed

lemma request_file_redownload_inv:
  "stream_inv cfg contents n s \<Longrightarrow> stream_inv cfg contents n (request_file_redownload s)"
  by (rule stream_inv_cong, assumption) (simp_all add: request_file_redownload_def)

lemma try_read_inv:
  assumes inv: "stream_inv cfg contents n s" and "disk_ok contents d"
  shows "stream_inv cfg contents n (try_read cfg d s)"
proof (cases "finished s \<or> read_in_flight s \<or> write_in_flight s \<or> total_size (cursor s) < 0")
  case True
  with inv show ?thesis by (simp add: try_read_def)
next
  case False
  then have nf: "\<not> finished s" "\<not> write_in_flight s" "0 \<le> total_size (cursor s)" by auto
  note ab = abort_inv [OF stream_inv_endable [OF inv nf(1)]]
  note rc = read_chunk_inv [OF inv nf assms(2)]
  have opened: "stream_inv cfg contents n (s\<lparr>local_file := f\<rparr>)" for f
    using inv by (rule stream_inv_cong) simp_all
  note rc' = read_chunk_inv [OF opened, simplified, OF nf assms(2)]
  note lost = request_file_redownload_inv [OF drop_stale_inv [OF inv]]
  show ?thesis
    using False inv finish_inv [OF inv nf(1)] ab rc rc' lost
    by (simp add: try_read_def Let_def split: option.splits)
qed

lemma change_path_inv: "stream_inv cfg contents n s \<Longrightarrow> stream_inv cfg contents n (change_path cfg b path s)"
  by (rule stream_inv_cong, assumption) (simp_all add: change_path_def Let_def)

subsection \<open>Messages keep the invariant\<close>

lemma on_file_error_inv:
  assumes "stream_inv cfg contents n s"
  shows "stream_inv cfg contents n (on_file_error cfg e s)"
  using assms fail_inv [OF stream_inv_endable [OF assms]] abort_inv [OF stream_inv_endable [OF assms]]
  by (simp add: on_file_error_def http_code_range)

lemma timeout_expired_inv:
  assumes "stream_inv cfg contents n s"
  shows "stream_inv cfg contents n (timeout_expired cfg s)"
proof -
  have "stream_inv cfg contents n (emit (OnFileStreamTimeout b) s)" for b
    using assms by (rule stream_inv_cong) simp_all
  then show ?thesis by (simp add: timeout_expired_def on_file_error_inv Let_def)
qed

lemma on_chunk_flushed_inv:
  assumes inv: "stream_inv cfg contents n s" and "disk_ok contents d"
  shows "stream_inv cfg contents n (on_chunk_flushed cfg res d s)"
proof (cases "finished s")
  case True
  with inv show ?thesis by (auto simp: on_chunk_flushed_def stream_inv_def body_inv_def Let_def)
next
  case False
  have en: "endable contents n (s\<lparr>write_in_flight := b\<rparr>)"
    "endable contents n (s\<lparr>write_in_flight := b, pending_write_offset := i, pending_write_size := j\<rparr>)" for b i j
    using stream_inv_endable [OF inv False] by (simp_all add: endable_def)
  show ?thesis
  proof (cases res)
    case (Inl e)
    with False abort_inv [OF en(1)] show ?thesis by (simp add: on_chunk_flushed_def)
  next
    case (Inr u)
    show ?thesis
    proof (cases "commit (cursor s) (pending_write_offset s) (pending_write_size s)")
      case (Inl e)
      with Inr False abort_inv [OF en(2)] show ?thesis by (simp add: on_chunk_flushed_def)
    next
      case com: (Inr c)
      define s1 where "s1 = s\<lparr>write_in_flight := False, cursor := c, pending_write_offset := -1,
        pending_write_size := 0, first_byte_sent := True\<rparr>"
      have ci: "cursor_inv (cursor s)" using inv by (simp add: stream_inv_def)
      note c = commit_inv [OF ci com]
      have wif: "write_in_flight s" using inv False c by (auto simp: stream_inv_def)
      have "stream_inv cfg contents n s1"
        using inv False c wif by (auto simp: s1_def stream_inv_def body_inv_def)
      then have "stream_inv cfg contents n (emit (SetTimeout (fs_idle_timeout cfg))
          (if conn_open s1 then emit TouchActivity s1 else s1))"
        by (rule stream_inv_cong) simp_all
      from try_read_inv [OF this assms(2)] show ?thesis
        using Inr com False by (simp add: on_chunk_flushed_def Let_def s1_def cong: if_cong)
    qed
  qed
qed

lemma on_headers_flushed_inv:
  assumes "stream_inv cfg contents n s"
  shows "stream_inv cfg contents n (on_headers_flushed cfg res s)"
  using assms abort_inv [OF stream_inv_endable [OF assms]]
  by (simp add: on_headers_flushed_def split: sum.splits)

text \<open>A progress report that the cursor accepts.\<close>

lemma progress_inv:
  assumes "stream_inv cfg contents n s" and "update_progress (cursor s) off pre fin = Inr c"
  shows "stream_inv cfg contents n (s\<lparr>cursor := c, download_completed := b\<rparr>)"
proof -
  have "cursor_inv (cursor s)" using assms(1) by (simp add: stream_inv_def)
  note c = update_progress_inv [OF this assms(2)]
  have "body_inv cfg contents n (s\<lparr>cursor := c, download_completed := b\<rparr>) = body_inv cfg contents n s"
    using c by (simp add: body_inv_def)
  with assms(1) c show ?thesis unfolding stream_inv_def by auto
qed

lemma on_file_progress_inv:
  assumes inv: "stream_inv cfg contents n s" and "disk_ok contents d"
  shows "stream_inv cfg contents n (on_file_progress cfg tot path off pre fin act d s)"
proof (cases "finished s \<or> total_size (cursor s) < 0")
  case True
  with inv show ?thesis by (simp add: on_file_progress_def)
next
  case False
  define s1 where "s1 = change_path cfg True path s"
  define s2 where "s2 = (if download_completed s1 \<and> \<not> fin
    then request_file_redownload (drop_stale_download_state cfg s1) else s1)"
  have i1: "stream_inv cfg contents n s1" unfolding s1_def by (rule change_path_inv [OF inv])
  have i2: "stream_inv cfg contents n s2"
    unfolding s2_def using i1 request_file_redownload_inv [OF drop_stale_inv [OF i1]] by simp
  have nf: "\<not> finished s2"
    using False by (simp add: s2_def s1_def change_path_def request_file_redownload_def drop_stale_download_state_def Let_def)
  note ab = abort_inv [OF stream_inv_endable [OF i2 nf]]
  have eq: "on_file_progress cfg tot path off pre fin act d s =
     (if tot > 0 \<and> tot \<noteq> total_size (cursor s) then abort cfg (Error 502 ''File size metadata changed during download'') s
      else case update_progress (cursor s2) off pre fin of
             Inl e \<Rightarrow> abort cfg e s2
           | Inr c \<Rightarrow>
               let s3 = s2\<lparr>cursor := c, download_completed := download_completed s2 \<or> fin\<rparr> in
               if \<not> act \<and> file_stream_fails_on_stopped_download (download_completed s3) (first_byte_sent s3)
               then abort cfg (Error 502 ''Telegram file download stopped before completion'') s3
               else if download_completed s3 \<and> contiguous_end (cursor s3) < total_size (cursor s3)
               then abort cfg (Error 502 ''Telegram download completed with an incomplete file'') s3
               else try_read cfg d s3)"
    unfolding on_file_progress_def s2_def s1_def Let_def using False by simp
  show ?thesis
  proof (cases "update_progress (cursor s2) off pre fin")
    case (Inl e)
    with eq ab abort_inv [OF stream_inv_endable [OF inv]] False show ?thesis by simp
  next
    case (Inr c)
    define s3 where "s3 = s2\<lparr>cursor := c, download_completed := download_completed s2 \<or> fin\<rparr>"
    have i3: "stream_inv cfg contents n s3" unfolding s3_def by (rule progress_inv [OF i2 Inr])
    have "\<not> finished s3" using nf by (simp add: s3_def)
    then show ?thesis
      unfolding eq Inr sum.case Let_def s3_def [symmetric]
      using try_read_inv [OF i3 assms(2)] abort_inv [OF stream_inv_endable [OF i3]] False
        abort_inv [OF stream_inv_endable [OF inv]]
      by simp
  qed
qed

lemma on_file_ready_inv:
  assumes inv: "stream_inv cfg contents n s" and "disk_ok contents d" and "is_int64 n"
  shows "stream_inv cfg contents n (on_file_ready cfg fid n path off pre fin d s)"
proof (cases "finished s \<or> fid \<le> 0 \<or> n < 0")
  case True
  with inv fail_inv [OF stream_inv_endable [OF inv]] show ?thesis by (auto simp: on_file_ready_def)
next
  case False
  define s1 where "s1 = change_path cfg False path (s\<lparr>file_id := fid\<rparr>)"
  define s3 where "s3 = (emit (SetTimeout (fs_first_byte_timeout cfg)) s1)
    \<lparr>cursor := (cursor (emit (SetTimeout (fs_first_byte_timeout cfg)) s1))\<lparr>total_size := n\<rparr>\<rparr>"
  have "stream_inv cfg contents n (s\<lparr>file_id := fid\<rparr>)" using inv by (rule stream_inv_cong) simp_all
  then have i1: "stream_inv cfg contents n s1" unfolding s1_def by (rule change_path_inv)
  have nf1: "\<not> finished s1" using False by (simp add: s1_def change_path_def Let_def)
  have "body_inv cfg contents n s3 = body_inv cfg contents n s1" by (simp add: s3_def body_inv_def)
  then have i3: "stream_inv cfg contents n s3"
    using i1 False assms(3) by (auto simp: s3_def stream_inv_def cursor_inv_def)
  have nf3: "\<not> finished s3" using nf1 by (simp add: s3_def)
  note f1 = fail_inv [OF stream_inv_endable [OF i1 nf1]] and f3 = fail_inv [OF stream_inv_endable [OF i3 nf3]]
  have eq: "on_file_ready cfg fid n path off pre fin d s =
     (if n > 2 ^ 64 - 1 then fail cfg 413 ''File is too large for this build'' s1
      else if fs_max_size cfg > 0 \<and> n > fs_max_size cfg
      then fail cfg 413 ''File is too large for the streaming endpoint'' s1
      else case update_progress (cursor s3) off pre fin of
             Inl e \<Rightarrow> fail cfg 502 (err_message e) s3
           | Inr c \<Rightarrow>
               let s4 = s3\<lparr>cursor := c, download_completed := fin\<rparr> in
               if download_completed s4 \<and> contiguous_end (cursor s4) < total_size (cursor s4)
               then fail cfg 502 ''Telegram download completed with an incomplete file'' s4
               else try_read cfg d s4)"
    unfolding on_file_ready_def s1_def s3_def Let_def using False by simp
  show ?thesis
  proof (cases "update_progress (cursor s3) off pre fin")
    case (Inl e)
    with eq f1 f3 show ?thesis by simp
  next
    case (Inr c)
    define s4 where "s4 = s3\<lparr>cursor := c, download_completed := fin\<rparr>"
    have i4: "stream_inv cfg contents n s4" unfolding s4_def by (rule progress_inv [OF i3 Inr])
    have "\<not> finished s4" using nf3 by (simp add: s4_def)
    then show ?thesis
      unfolding eq Inr sum.case Let_def s4_def [symmetric]
      using f1 try_read_inv [OF i4 assms(2)] fail_inv [OF stream_inv_endable [OF i4]] by simp
  qed
qed

subsection \<open>The response of a stream\<close>

text \<open>What TDLib and the disk report: the size of the file is \<open>n\<close>, reads return its bytes.\<close>

fun event_ok :: "string \<Rightarrow> int \<Rightarrow> stream_event \<Rightarrow> bool" where
  "event_ok contents n (FileReady fid tot path off pre fin d) \<longleftrightarrow> tot = n \<and> disk_ok contents d"
| "event_ok contents n (FileProgress tot path off pre fin act d) \<longleftrightarrow> disk_ok contents d"
| "event_ok contents n (ChunkFlushed r d) \<longleftrightarrow> disk_ok contents d"
| "event_ok contents n _ \<longleftrightarrow> True"

definition run_stream :: "fs_config \<Rightarrow> int \<Rightarrow> file_stream_route \<Rightarrow> stream_event list \<Rightarrow> stream" where
  "run_stream cfg sid r evs = fold (stream_step cfg) evs (start_up cfg (new_stream sid r))"

lemma handle_event_inv:
  assumes "stream_inv cfg contents n s" and "is_int64 n" and "event_ok contents n ev"
  shows "stream_inv cfg contents n (handle_event cfg ev s)"
proof (cases ev)
  case SetClient
  have "stream_inv cfg contents n (set_client s)" using assms(1) by (rule stream_inv_cong) (simp_all add: set_client_def)
  with SetClient show ?thesis by simp
qed (use assms in \<open>auto intro: on_file_ready_inv on_file_progress_inv on_chunk_flushed_inv on_headers_flushed_inv
      on_file_error_inv timeout_expired_inv\<close>)

lemma tear_down_inv: "stream_inv cfg contents n s \<Longrightarrow> stream_inv cfg contents n (tear_down cfg s)"
  by (rule stream_inv_cong, assumption) (simp_all add: tear_down_def Let_def)

lemma stream_step_inv:
  assumes "stream_inv cfg contents n s" and "is_int64 n" and "event_ok contents n ev"
  shows "stream_inv cfg contents n (stream_step cfg ev s)"
  using assms handle_event_inv [OF assms] tear_down_inv by (simp add: stream_step_def Let_def)

lemma run_stream_inv:
  assumes "is_int64 n" and "\<forall>ev \<in> set evs. event_ok contents n ev"
  shows "stream_inv cfg contents n (run_stream cfg sid r evs)"
proof -
  have "stream_inv cfg contents n (start_up cfg (new_stream sid r))"
    by (simp add: start_up_def stream_inv_def body_inv_def new_stream_def cursor_inv_new)
      (simp add: wire_def ends_def emit_def new_cursor_def)
  moreover have "stream_inv cfg contents n s \<Longrightarrow> \<forall>ev \<in> set evs. event_ok contents n ev \<Longrightarrow>
      stream_inv cfg contents n (fold (stream_step cfg) evs s)" for s
    by (induction evs arbitrary: s) (auto simp: stream_step_inv [OF _ assms(1)])
  ultimately show ?thesis using assms(2) by (simp add: run_stream_def)
qed

text \<open>
  (C1) Integrity of a file stream: for every sequence of messages, the text given to the connection is nothing, or
  the response header announcing the size \<open>n\<close> followed by the first bytes of the file, each once and in order, or,
  when the stream stopped before it sent that header, one complete JSON error response with an HTTP error code and
  nothing else; the response has exactly one end, when the stream stops; and a stream that stops as completed has sent
  the header and exactly \<open>n\<close> bytes of the file.
\<close>

theorem stream_integrity:
  assumes "is_int64 n" and "\<forall>ev \<in> set evs. event_ok contents n ev" and "s = run_stream cfg sid r evs"
  shows "length (filter is_end (trace s)) = (if stopped s then 1 else 0) \<and> (completed s \<longrightarrow> stopped s) \<and>
    ((\<exists>k \<le> length contents.
        wire s = (if headers_sent s then stream_header_text n else []) @ take k contents \<and> (0 < k \<longrightarrow> headers_sent s) \<and>
        (completed s \<longrightarrow> headers_sent s \<and> int k = n)) \<or>
     stopped s \<and> \<not> headers_sent s \<and> \<not> completed s \<and>
     (\<exists>code message header. 400 \<le> code \<and> code \<le> 599 \<and>
        header_finish [] (set_content_size (length (error_json cfg code message))
          (set_content_type ''application/json'' (init_status_line code))) = Inr header \<and>
        wire s = header @ error_json cfg code message))"
proof -
  have inv: "stream_inv cfg contents n s" unfolding assms(3) by (rule run_stream_inv [OF assms(1,2)])
  then have ends: "length (filter is_end (trace s)) = (if stopped s then 1 else 0)" "completed s \<longrightarrow> stopped s"
    "finished s \<longleftrightarrow> stopped s" "body_inv cfg contents n s"
    by (auto simp: stream_inv_def ends_def)
  then show ?thesis unfolding body_inv_def json_response_def by blast
qed

text \<open>A disk that holds the whole file.\<close>

definition exact_disk :: "string \<Rightarrow> disk" where
  "exact_disk contents =
     \<lparr>disk_open = (\<lambda>p. None), disk_pread = (\<lambda>p off count. Inr (take (nat count) (drop (nat off) contents)))\<rparr>"

lemma disk_ok_exact: "disk_ok contents (exact_disk contents)"
  unfolding disk_ok_def exact_disk_def by simp (metis append_take_drop_id)

definition sample_config :: fs_config where
  "sample_config = \<lparr>fs_chunk_size = 2, fs_first_byte_timeout = 30, fs_idle_timeout = 60,
     fs_write_high_watermark = 9, fs_max_size = 0, fs_has_cleanup = True, error_json = (\<lambda>c m. m)\<rparr>"

definition sample_route :: file_stream_route where
  "sample_route = \<lparr>route_token = ''t'', route_file_id = ''f'', route_is_test_dc = False,
     route_expected_size = -1, route_no_cache = False\<rparr>"

definition sample_events :: "stream_event list" where
  "sample_events = [SetClient, FileReady 5 3 ''p'' 0 3 True (exact_disk ''abc''),
     HeadersFlushed (Inr ()), ChunkFlushed (Inr ()) (exact_disk ''abc''), ChunkFlushed (Inr ()) (exact_disk ''abc'')]"

theorem stream_integrity_witness:
  "wire (run_stream sample_config 1 sample_route sample_events) = stream_header_text 3 @ ''abc''"
proof -
  let ?s = "run_stream sample_config 1 sample_route sample_events"
  have ok: "\<forall>ev \<in> set sample_events. event_ok ''abc'' 3 ev"
    by (simp add: sample_events_def disk_ok_exact)
  have "is_int64 3" by (simp add: range_simps)
  moreover have "completed ?s" by code_simp
  ultimately obtain k where
    "wire ?s = (if headers_sent ?s then stream_header_text 3 else []) @ take k ''abc''"
    "completed ?s \<longrightarrow> headers_sent ?s \<and> int k = 3"
    using stream_integrity [OF _ ok refl, of sample_config 1 sample_route] by blast
  moreover have "completed ?s" by code_simp
  ultimately show ?thesis by auto
qed


subsection \<open>Resources of a stream\<close>

text \<open>
  How often the cleanup manager is asked to retain a path, less how often to release it, and how
  often the client manager is told that the stream is gone.
\<close>

fun retain_weight :: "string \<Rightarrow> effect \<Rightarrow> int" where
  "retain_weight p (RetainFile q) = (if p = q then 1 else 0)"
| "retain_weight p (ReleaseFile q) = (if p = q then -1 else 0)"
| "retain_weight p _ = 0"

fun is_slot_release :: "effect \<Rightarrow> bool" where
  "is_slot_release (ReleaseFileStream sid) = True"
| "is_slot_release _ = False"

definition balance :: "string \<Rightarrow> stream \<Rightarrow> int" where
  "balance p s = sum_list (map (retain_weight p) (trace s))"

definition slot_releases :: "stream \<Rightarrow> nat" where
  "slot_releases s = length (filter is_slot_release (trace s))"

definition holds_path :: "fs_config \<Rightarrow> string \<Rightarrow> stream \<Rightarrow> int" where
  "holds_path cfg p s = (if fs_has_cleanup cfg \<and> p \<noteq> [] \<and> local_path s = p then 1 else 0)"

text \<open>The part of a stream the counts depend on: the messages about local copies and slots, and the local path.\<close>

fun is_resource :: "effect \<Rightarrow> bool" where
  "is_resource (RetainFile p) = True"
| "is_resource (ReleaseFile p) = True"
| "is_resource (ReleaseFileStream sid) = True"
| "is_resource _ = False"

definition core :: "stream \<Rightarrow> effect list \<times> string" where
  "core s = (filter is_resource (trace s), local_path s)"

lemma balance_emit [simp]: "balance p (emit e s) = balance p s + retain_weight p e"
  by (simp add: balance_def emit_def)

lemma slot_releases_emit [simp]: "slot_releases (emit e s) = slot_releases s + (if is_slot_release e then 1 else 0)"
  by (simp add: slot_releases_def emit_def)

lemma balance_core: "balance p s = sum_list (map (retain_weight p) (fst (core s)))"
proof -
  have "retain_weight p e = 0" if "\<not> is_resource e" for e using that by (cases e) simp_all
  then have "sum_list (map (retain_weight p) es) = sum_list (map (retain_weight p) (filter is_resource es))" for es
    by (induction es) auto
  then show ?thesis by (simp add: balance_def core_def)
qed

lemma slot_releases_core: "slot_releases s = length (filter is_slot_release (fst (core s)))"
proof -
  have "\<not> is_slot_release e" if "\<not> is_resource e" for e using that by (cases e) simp_all
  then have "filter is_slot_release es = filter is_slot_release (filter is_resource es)" for es
    by (induction es) auto
  then show ?thesis by (simp add: slot_releases_def core_def)
qed

lemma core_cong: "trace s' = trace s \<Longrightarrow> local_path s' = local_path s \<Longrightarrow> core s' = core s"
  by (simp add: core_def)

lemma core_emit [simp]: "\<not> is_resource e \<Longrightarrow> core (emit e s) = core s"
  by (simp add: core_def emit_def)

lemma core_updates [simp]:
  "core (s\<lparr>cursor := c\<rparr>) = core s" "core (s\<lparr>finished := b\<rparr>) = core s"
  "core (s\<lparr>stopped := b\<rparr>) = core s" "core (s\<lparr>conn_open := b\<rparr>) = core s"
  "core (s\<lparr>read_in_flight := b\<rparr>) = core s" "core (s\<lparr>headers_sent := b\<rparr>) = core s"
  "core (s\<lparr>completed := b\<rparr>) = core s" "core (s\<lparr>write_in_flight := b\<rparr>) = core s"
  "core (s\<lparr>pending_write_offset := i\<rparr>) = core s" "core (s\<lparr>pending_write_size := i\<rparr>) = core s"
  "core (s\<lparr>local_file := f\<rparr>) = core s" "core (s\<lparr>download_completed := b\<rparr>) = core s"
  "core (s\<lparr>first_byte_sent := b\<rparr>) = core s" "core (s\<lparr>has_client := b\<rparr>) = core s"
  "core (s\<lparr>file_id := i\<rparr>) = core s" "core (s\<lparr>redownload_requested := b\<rparr>) = core s"
  by (rule core_cong, simp, simp)+

lemma core_fail_json [simp]: "core (fail_json cfg' code msg s) = core s"
  by (simp add: fail_json_def Let_def core_emit split: sum.splits)

lemma core_abort [simp]: "core (abort cfg' e s) = core s"
  by (simp add: abort_def Let_def core_emit)

lemma core_fail [simp]: "core (fail cfg' code msg s) = core s"
  by (simp add: fail_def)

lemma core_send_headers [simp]: "core (snd (send_headers cfg' s)) = core s"
  by (simp add: send_headers_def core_emit split: sum.splits)

lemma core_send_headers_eq: "send_headers cfg' s = (b, s') \<Longrightarrow> core s' = core s"
  using core_send_headers [of cfg' s] by simp

lemma core_finish [simp]: "core (finish cfg' s) = core s"
  by (auto simp: finish_def Let_def core_emit core_send_headers_eq split: prod.splits bool.splits)

lemma core_on_file_data [simp]: "core (on_file_data cfg' off r s) = core s"
  by (auto simp: on_file_data_def Let_def core_emit dest: core_send_headers_eq
      split: prod.splits bool.splits sum.splits)

lemma core_read_chunk [simp]: "core (read_chunk cfg' d path count s) = core s"
  by (simp add: read_chunk_def Let_def split: sum.splits)

lemma core_redownload [simp]:
  "core (request_file_redownload s) = core s"
  "core (drop_stale_download_state cfg' s) = core s"
  by (simp_all add: request_file_redownload_def drop_stale_download_state_def Let_def core_emit)

lemma core_try_read [simp]: "core (try_read cfg' d s) = core s"
  by (simp add: try_read_def Let_def split: option.splits)

lemma core_handle_event:
  "core (handle_event cfg ev s) = core s \<or> (\<exists>b path. core (handle_event cfg ev s) = core (change_path cfg b path s))"
proof -
  have fid: "core (change_path cfg b path (s\<lparr>file_id := i\<rparr>)) = core (change_path cfg b path s)" for b path i
    by (simp add: change_path_def core_def emit_def Let_def)
  show ?thesis
    by (cases ev) (auto simp: set_client_def on_file_ready_def on_file_progress_def on_chunk_flushed_def
        on_headers_flushed_def on_file_error_def timeout_expired_def Let_def fid split: sum.splits)
qed

text \<open>The messages of a running stream keep both counts in step with its local path.\<close>

definition books :: "fs_config \<Rightarrow> stream \<Rightarrow> (string \<Rightarrow> int) \<times> nat" where
  "books cfg s = ((\<lambda>p. balance p s - holds_path cfg p s), slot_releases s)"

lemma books_core:
  assumes "core s' = core s"
  shows "books cfg s' = books cfg s"
proof -
  have "local_path s' = local_path s" using assms by (simp add: core_def)
  with assms show ?thesis by (simp add: books_def balance_core slot_releases_core holds_path_def)
qed

lemma books_change_path [simp]: "books cfg (change_path cfg b path s) = books cfg s"
proof -
  have "balance p (change_path cfg b path s) - holds_path cfg p (change_path cfg b path s) =
      balance p s - holds_path cfg p s" for p
    by (auto simp: change_path_def Let_def holds_path_def balance_def emit_def)
  moreover have "slot_releases (change_path cfg b path s) = slot_releases s"
    by (simp add: change_path_def Let_def slot_releases_def emit_def)
  ultimately show ?thesis by (simp add: books_def)
qed

lemma books_handle_event [simp]: "books cfg (handle_event cfg ev s) = books cfg s"
  using core_handle_event [of cfg ev s] books_core [of "handle_event cfg ev s"] books_change_path [of cfg _ _ s] by metis

definition resources_inv :: "fs_config \<Rightarrow> stream \<Rightarrow> bool" where
  "resources_inv cfg s \<longleftrightarrow>
     (if stopped s then (\<forall>p. balance p s = 0) \<and> slot_releases s = 1
      else (\<forall>p. balance p s = holds_path cfg p s) \<and> slot_releases s = 0)"

lemma stream_step_resources: "resources_inv cfg s \<Longrightarrow> resources_inv cfg (stream_step cfg ev s)"
proof (cases "stopped s")
  case False
  assume inv: "resources_inv cfg s"
  define s' where "s' = handle_event cfg ev s"
  have "books cfg s' = books cfg s" by (simp add: s'_def)
  then have b: "balance p s' = holds_path cfg p s'" "slot_releases s' = 0" for p
    using inv False by (auto simp: books_def resources_inv_def dest: fun_cong [where x = p])
  have "stopped (tear_down cfg s') = stopped s'" "balance p (tear_down cfg s') = 0"
    "slot_releases (tear_down cfg s') = 1" for p
    using b by (auto simp: tear_down_def Let_def holds_path_def balance_def slot_releases_def emit_def)
  with b False show ?thesis by (simp add: stream_step_def s'_def [symmetric] resources_inv_def)
qed (simp add: stream_step_def)

text \<open>
  (C21) No leak: while a stream runs, exactly its current local copy is retained against the workdir
  cleanup; when it has stopped, however it stopped, every copy it retained has been released, and its
  slot has been returned to the client manager exactly once.
\<close>

theorem stream_releases_resources:
  "resources_inv cfg (run_stream cfg sid r evs)"
proof -
  have "resources_inv cfg (start_up cfg (new_stream sid r))"
    by (auto simp: start_up_def resources_inv_def new_stream_def holds_path_def balance_def slot_releases_def emit_def)
  moreover have "resources_inv cfg s \<Longrightarrow> resources_inv cfg (fold (stream_step cfg) evs s)" for s
    by (induction evs arbitrary: s) (auto simp: stream_step_resources)
  ultimately show ?thesis by (simp add: run_stream_def)
qed

end
