(* ===== verification/Workdir.thy ===== *)
theory Workdir
  imports Text_Utils
begin

section \<open>The workdir cleanup manager\<close>

text \<open>
  \<open>WorkdirCleanupManager.h\<close> and \<open>WorkdirCleanupManager.cpp\<close>: the admission check before
  a new local copy is written, the choice of files that may be deleted, one cleanup run over the
  scanned files, and the manager with its reference counts of files in use. The files a walk of the
  workdir finds, the clock, the free space of the disk and the outcome of every attempt to delete a
  file are arguments. \<open>std::sort\<close> is \<^const>\<open>sort_key\<close> on the access time.
\<close>

subsection \<open>Space admission\<close>

record workdir_space_check =
  allowed :: bool
  free_space_known :: bool
  unknown_size :: bool
  chk_free_bytes :: int
  chk_min_free_bytes :: int
  required_bytes :: int
  increment_bytes :: int

definition check_workdir_space :: "int \<Rightarrow> int \<Rightarrow> int \<Rightarrow> int \<Rightarrow> int \<Rightarrow> workdir_space_check" where
  "check_workdir_space free_bytes min_free file_size existing_local_size unknown_size_margin =
     (let r0 = \<lparr>allowed = False, free_space_known = False, unknown_size = False, chk_free_bytes = -1,
                chk_min_free_bytes = max 0 min_free, required_bytes = 0, increment_bytes = 0\<rparr>
      in if free_bytes < 0 then r0
         else
           let r1 = r0\<lparr>free_space_known := True, chk_free_bytes := free_bytes\<rparr>;
               r2 = (if file_size \<ge> 0
                     then r1\<lparr>increment_bytes := max 0 (file_size - max 0 existing_local_size)\<rparr>
                     else r1\<lparr>unknown_size := True, increment_bytes := max 0 unknown_size_margin\<rparr>);
               r3 = (if increment_bytes r2 > int64_max - chk_min_free_bytes r2
                     then r2\<lparr>required_bytes := int64_max\<rparr>
                     else r2\<lparr>required_bytes := chk_min_free_bytes r2 + increment_bytes r2\<rparr>)
           in r3\<lparr>allowed := chk_free_bytes r3 \<ge> required_bytes r3\<rparr>)"

definition default_unknown_file_min_free_bytes :: int where
  "default_unknown_file_min_free_bytes = 512 * 2 ^ 20"

subsection \<open>Files that may be deleted\<close>

definition is_tdlib_persistent_file :: "string \<Rightarrow> bool" where
  "is_tdlib_persistent_file path =
     (let name = file_name path in
      if name = [] then False
      else if ends_with name ''.binlog'' \<or> ends_with name ''.binlog.new'' then True
      else ends_with name ''.sqlite'' \<or> ends_with name ''.sqlite-wal'' \<or> ends_with name ''.sqlite-shm'' \<or>
           ends_with name ''.sqlite-journal'')"

definition workdir_root :: "string \<Rightarrow> string" where
  "workdir_root workdir = (if last workdir \<noteq> CHR ''/'' then workdir @ ''/'' else workdir)"

definition is_workdir_cleanup_candidate :: "string \<Rightarrow> string \<Rightarrow> bool" where
  "is_workdir_cleanup_candidate workdir path =
     (if workdir = [] \<or> path = [] then False
      else
        let root = workdir_root workdir in
        if \<not> begins_with path root \<or> path = root then False
        else if contains (drop (length root) path) ''..'' then False
        else \<not> is_tdlib_persistent_file path)"

subsection \<open>A cleanup run\<close>

record workdir_cleanup_config =
  workdir :: string
  threshold_bytes :: int
  target_bytes :: int
  cleanup_interval :: real
  file_ttl :: int
  min_free_bytes :: int

record workdir_cleanup_result =
  scanned_bytes :: int
  scanned_files :: int
  deleted_bytes :: int
  deleted_files :: int
  failed_files :: int
  res_free_bytes :: int
  threshold_cleanup :: bool
  disk_emergency :: bool

record candidate =
  cand_path :: string
  cand_size :: int
  access_time :: nat

text \<open>A file of the walk; \<open>None\<close>: it is not a regular file or \<open>stat\<close> failed.\<close>

type_synonym walk_entry = "string \<times> (int \<times> nat) option"

fun active_count :: "(string \<rightharpoonup> int) \<Rightarrow> string \<Rightarrow> int" where
  "active_count active path = (case active path of None \<Rightarrow> 0 | Some n \<Rightarrow> n)"

definition is_active :: "(string \<rightharpoonup> int) \<Rightarrow> string \<Rightarrow> bool" where
  "is_active active path \<longleftrightarrow> (case active path of None \<Rightarrow> False | Some n \<Rightarrow> n > 0)"

text \<open>\<open>del path attempt\<close> is the outcome of an attempt.\<close>

fun delete_attempts :: "(string \<Rightarrow> nat \<Rightarrow> bool) \<Rightarrow> string \<Rightarrow> nat \<Rightarrow> nat \<Rightarrow> bool" where
  "delete_attempts del path attempt 0 = del path attempt"
| "delete_attempts del path attempt (Suc left) =
     (if del path attempt then True else delete_attempts del path (attempt + 1) left)"

definition delete_workdir_file_with_retries :: "(string \<Rightarrow> nat \<Rightarrow> bool) \<Rightarrow> string \<Rightarrow> nat \<Rightarrow> bool" where
  "delete_workdir_file_with_retries del path max_retries = delete_attempts del path 0 max_retries"

definition scanned :: "workdir_cleanup_config \<Rightarrow> walk_entry list \<Rightarrow> candidate list" where
  "scanned config files =
     List.map_filter (\<lambda>(path, st).
        case st of None \<Rightarrow> None
        | Some (sz, atime) \<Rightarrow>
            if is_workdir_cleanup_candidate (workdir config) path
            then Some \<lparr>cand_path = path, cand_size = max 0 sz, access_time = atime\<rparr> else None) files"

definition expired :: "workdir_cleanup_config \<Rightarrow> nat \<Rightarrow> candidate \<Rightarrow> bool" where
  "expired config now_nsec c =
     (let ttl_nsec = (if file_ttl config > 0 then nat (file_ttl config) * 1000000000 mod 2 ^ 64 else 0)
      in ttl_nsec > 0 \<and> access_time c \<le> now_nsec \<and> now_nsec - access_time c \<ge> ttl_nsec)"

text \<open>The deletion loop: the deleted files, the number of failures and the bytes that remain.\<close>

fun cleanup_loop ::
  "workdir_cleanup_config \<Rightarrow> nat \<Rightarrow> (string \<rightharpoonup> int) \<Rightarrow> (string \<Rightarrow> nat \<Rightarrow> bool) \<Rightarrow> bool \<Rightarrow> int \<Rightarrow> candidate list \<Rightarrow>
   candidate list \<times> int \<times> int"
where
  "cleanup_loop config now active del threshold remaining [] = ([], 0, remaining)"
| "cleanup_loop config now active del threshold remaining (c # cs) =
     (let must_reduce = threshold \<and> remaining > target_bytes config in
      if \<not> must_reduce \<and> \<not> expired config now c then cleanup_loop config now active del threshold remaining cs
      else if is_active active (cand_path c) then cleanup_loop config now active del threshold remaining cs
      else if \<not> delete_workdir_file_with_retries del (cand_path c) 3 then ([], 1, remaining)
      else let (ds, failed, rem) = cleanup_loop config now active del threshold (remaining - cand_size c) cs
           in (c # ds, failed, rem))"

definition run_workdir_cleanup ::
  "workdir_cleanup_config \<Rightarrow> (string \<rightharpoonup> int) \<Rightarrow> (string \<Rightarrow> nat \<Rightarrow> bool) \<Rightarrow> walk_entry list \<Rightarrow> nat \<Rightarrow> int \<Rightarrow>
   workdir_cleanup_result \<times> candidate list"
where
  "run_workdir_cleanup config active del files now_nsec free_space =
     (let all = scanned config files;
          bytes = sum_list (map cand_size all);
          cands = sort_key access_time (filter (\<lambda>c. \<not> is_active active (cand_path c)) all);
          threshold = (threshold_bytes config > 0 \<and> bytes \<ge> threshold_bytes config);
          (ds, failed, rem) = cleanup_loop config now_nsec active del threshold bytes cands
      in (\<lparr>scanned_bytes = bytes, scanned_files = int (length all),
           deleted_bytes = sum_list (map cand_size ds), deleted_files = int (length ds), failed_files = failed,
           res_free_bytes = free_space, threshold_cleanup = threshold,
           disk_emergency = (min_free_bytes config > 0 \<and> free_space \<ge> 0 \<and> free_space < min_free_bytes config)\<rparr>,
          ds))"

subsection \<open>The manager\<close>

text \<open>The counters of \<open>SharedData\<close> the manager writes, and its own state.\<close>

record cleanup_manager =
  active_files :: "string \<rightharpoonup> int"
  next_periodic_cleanup :: real
  next_threshold_check :: real
  cleanup_timeout :: real
  workdir_bytes :: int
  workdir_files :: int
  workdir_cleanup_runs :: int
  workdir_deleted_bytes :: int
  workdir_disk_emergency :: bool
  workdir_shutdown_requested :: bool

definition retain_file :: "workdir_cleanup_config \<Rightarrow> string \<Rightarrow> cleanup_manager \<Rightarrow> cleanup_manager" where
  "retain_file config path m =
     (if is_workdir_cleanup_candidate (workdir config) path
      then m\<lparr>active_files := (active_files m)(path \<mapsto> active_count (active_files m) path + 1)\<rparr>
      else m)"

definition release_file :: "string \<Rightarrow> cleanup_manager \<Rightarrow> cleanup_manager" where
  "release_file path m =
     (case active_files m path of
        None \<Rightarrow> m
      | Some n \<Rightarrow>
          if n - 1 \<le> 0 then m\<lparr>active_files := (active_files m)(path := None)\<rparr>
          else m\<lparr>active_files := (active_files m)(path \<mapsto> n - 1)\<rparr>)"

definition threshold_check_interval :: real where
  "threshold_check_interval = 300"

definition schedule_next :: "cleanup_manager \<Rightarrow> cleanup_manager" where
  "schedule_next m = m\<lparr>cleanup_timeout := min (next_periodic_cleanup m) (next_threshold_check m)\<rparr>"

definition manager_start_up :: "real \<Rightarrow> cleanup_manager \<Rightarrow> cleanup_manager" where
  "manager_start_up now m = schedule_next (m\<lparr>next_periodic_cleanup := now, next_threshold_check := now\<rparr>)"

definition run_cleanup ::
  "workdir_cleanup_config \<Rightarrow> (string \<Rightarrow> nat \<Rightarrow> bool) \<Rightarrow> walk_entry list \<Rightarrow> nat \<Rightarrow> int \<Rightarrow> cleanup_manager \<Rightarrow>
   cleanup_manager \<times> candidate list"
where
  "run_cleanup config del files now_nsec free_space m =
     (let (res, ds) = run_workdir_cleanup config (active_files m) del files now_nsec free_space;
          m1 = m\<lparr>workdir_bytes := scanned_bytes res, workdir_files := scanned_files res,
                  workdir_cleanup_runs := workdir_cleanup_runs m + 1,
                  workdir_deleted_bytes := workdir_deleted_bytes m + deleted_bytes res\<rparr>
      in (if disk_emergency res
          then m1\<lparr>workdir_disk_emergency := True, workdir_shutdown_requested := True\<rparr> else m1, ds))"

definition manager_timeout_expired ::
  "workdir_cleanup_config \<Rightarrow> (string \<Rightarrow> nat \<Rightarrow> bool) \<Rightarrow> walk_entry list \<Rightarrow> nat \<Rightarrow> int \<Rightarrow> real \<Rightarrow> cleanup_manager \<Rightarrow>
   cleanup_manager \<times> candidate list"
where
  "manager_timeout_expired config del files now_nsec free_space now m =
     (let periodic = (now \<ge> next_periodic_cleanup m);
          (m1, ds) = run_cleanup config del files now_nsec free_space m;
          m2 = (if periodic then m1\<lparr>next_periodic_cleanup := now + cleanup_interval config\<rparr> else m1);
          m3 = m2\<lparr>next_threshold_check := now + min threshold_check_interval (cleanup_interval config)\<rparr>
      in (schedule_next m3, ds))"

subsection \<open>Admission\<close>

text \<open>
  Space admission: whenever the free space is known (and below the largest 64-bit value), a new
  copy is admitted exactly when the configured minimum stays free after it; an unknown free space is
  always refused; and the sum is computed without overflow.
\<close>

lemma space_check_iff:
  assumes "free < int64_max" and "is_int64 min_free" and "is_int64 sz" and "is_int64 existing" and "is_int64 margin"
  shows "(allowed (check_workdir_space free min_free sz existing margin) \<longleftrightarrow>
      0 \<le> free \<and>
      max 0 min_free + (if 0 \<le> sz then max 0 (sz - max 0 existing) else max 0 margin) \<le> free) \<and>
    is_int64 (required_bytes (check_workdir_space free min_free sz existing margin))"
  using assms by (auto simp: check_workdir_space_def Let_def range_simps)

lemma space_check_iff_witness:
  "allowed (check_workdir_space 100 30 80 20 0) = (30 + (80 - 20) \<le> (100 :: int))"
  using space_check_iff [of 100 30 80 20 0] by (simp add: range_simps)

subsection \<open>A cleanup run\<close>

lemma scanned_candidate:
  "c \<in> set (scanned config files) \<Longrightarrow>
     is_workdir_cleanup_candidate (workdir config) (cand_path c) \<and> 0 \<le> cand_size c"
  by (auto simp: scanned_def List.map_filter_def split: option.splits if_splits)

lemma cleanup_loop_spec:
  assumes "cleanup_loop config now active del thr remaining cs = (ds, failed, rem)"
    and "\<forall>c \<in> set cs. 0 \<le> cand_size c"
  shows "set ds \<subseteq> set cs \<and> rem = remaining - sum_list (map cand_size ds) \<and>
    (\<forall>d \<in> set ds. \<not> is_active active (cand_path d) \<and>
       (expired config now d \<or> thr \<and> remaining > target_bytes config)) \<and>
    (failed = 0 \<longrightarrow> (\<forall>c \<in> set cs. \<not> is_active active (cand_path c) \<longrightarrow>
       c \<in> set ds \<or> \<not> expired config now c \<and> (thr \<longrightarrow> rem \<le> target_bytes config)))"
  using assms
proof (induction config now active del thr remaining cs arbitrary: ds failed rem rule: cleanup_loop.induct)
  case (2 config now active del thr remaining c cs)
  let ?must = "thr \<and> remaining > target_bytes config"
  obtain ds1 failed1 rem1 where rec:
    "cleanup_loop config now active del thr (remaining - cand_size c) cs = (ds1, failed1, rem1)"
    by (cases "cleanup_loop config now active del thr (remaining - cand_size c) cs")
  have pos: "0 \<le> cand_size c" "\<forall>c \<in> set cs. 0 \<le> cand_size c" using "2.prems"(2) by simp_all
  have nonneg: "0 \<le> sum_list (map cand_size xs)" if "set xs \<subseteq> set cs" for xs
    using that pos(2) by (intro sum_list_nonneg_int) blast
  show ?case
  proof (cases "\<not> ?must \<and> \<not> expired config now c \<or> is_active active (cand_path c)")
    case True
    then have eq: "cleanup_loop config now active del thr remaining cs = (ds, failed, rem)"
      using "2.prems"(1) by (auto split: if_splits)
    have IH: "set ds \<subseteq> set cs \<and> rem = remaining - sum_list (map cand_size ds) \<and>
      (\<forall>d \<in> set ds. \<not> is_active active (cand_path d) \<and> (expired config now d \<or> ?must)) \<and>
      (failed = 0 \<longrightarrow> (\<forall>c \<in> set cs. \<not> is_active active (cand_path c) \<longrightarrow>
         c \<in> set ds \<or> \<not> expired config now c \<and> (thr \<longrightarrow> rem \<le> target_bytes config)))"
      using "2.IH"(1) [OF refl _ eq pos(2)] "2.IH"(2) [OF refl _ _ eq pos(2)] True by argo
    have "\<not> thr \<or> rem \<le> target_bytes config" if "\<not> ?must" using that IH nonneg [of ds] by linarith
    with True IH show ?thesis by (simp add: subset_insertI2) blast
  next
    case False
    show ?thesis
    proof (cases "delete_workdir_file_with_retries del (cand_path c) 3")
      case True
      then have "ds = c # ds1" "failed = failed1" "rem = rem1"
        using "2.prems"(1) False rec by (auto simp: Let_def)
      moreover have "set ds1 \<subseteq> set cs \<and> rem1 = remaining - cand_size c - sum_list (map cand_size ds1) \<and>
        (\<forall>d \<in> set ds1. \<not> is_active active (cand_path d) \<and>
           (expired config now d \<or> thr \<and> remaining - cand_size c > target_bytes config)) \<and>
        (failed1 = 0 \<longrightarrow> (\<forall>c \<in> set cs. \<not> is_active active (cand_path c) \<longrightarrow>
           c \<in> set ds1 \<or> \<not> expired config now c \<and> (thr \<longrightarrow> rem1 \<le> target_bytes config)))"
        using "2.IH"(3) [OF refl _ _ _ rec pos(2)] True False by argo
      ultimately show ?thesis using False pos(1) by auto
    next
      case no: False
      with "2.prems"(1) False show ?thesis by (auto simp: Let_def)
    qed
  qed
qed simp

text \<open>Least recently used first: what is deleted for its size is not newer than what is kept.\<close>

lemma cleanup_loop_lru:
  assumes "cleanup_loop config now active del thr remaining cs = (ds, failed, rem)"
    and "\<forall>c \<in> set cs. 0 \<le> cand_size c" and "sorted (map access_time cs)"
    and "d \<in> set ds" and "\<not> expired config now d"
    and "k \<in> set cs" and "k \<notin> set ds" and "\<not> is_active active (cand_path k)"
  shows "access_time d \<le> access_time k"
  using assms
proof (induction config now active del thr remaining cs arbitrary: ds failed rem rule: cleanup_loop.induct)
  case (2 config now active del thr remaining c cs)
  let ?must = "thr \<and> remaining > target_bytes config"
  have pos: "\<forall>c \<in> set cs. 0 \<le> cand_size c" and sorted: "sorted (map access_time cs)"
    using "2.prems"(2,3) by simp_all
  have must: ?must
    using cleanup_loop_spec [OF "2.prems"(1,2)] "2.prems"(4,5) by auto
  show ?case
  proof (cases "is_active active (cand_path c)")
    case True
    have "k \<in> set cs" using True "2.prems"(6,8) by auto
    then show ?thesis using "2.IH"(2) must True "2.prems" pos sorted by (auto simp: Let_def)
  next
    case False
    show ?thesis
    proof (cases "delete_workdir_file_with_retries del (cand_path c) 3")
      case True
      obtain ds1 failed1 rem1 where rec:
        "cleanup_loop config now active del thr (remaining - cand_size c) cs = (ds1, failed1, rem1)"
        by (cases "cleanup_loop config now active del thr (remaining - cand_size c) cs")
      have ds: "ds = c # ds1" using "2.prems"(1) must False True rec by (auto simp: Let_def)
      then have k: "k \<in> set cs" "k \<notin> set ds1" using "2.prems"(6,7) by auto
      show ?thesis
      proof (cases "d = c")
        case True
        then show ?thesis using "2.prems"(3) k by auto
      next
        case no: False
        then have "d \<in> set ds1" using "2.prems"(4) ds by simp
        from "2.IH"(3) [OF refl _ _ _ rec pos sorted this "2.prems"(5) k "2.prems"(8)] must False True
        show ?thesis by simp
      qed
    next
      case no: False
      then have "ds = []" using "2.prems"(1) must False by (simp add: Let_def)
      with "2.prems"(4) show ?thesis by simp
    qed
  qed
qed simp

lemma run_workdir_cleanup_loop:
  fixes config files active
  defines "cs \<equiv> sort_key access_time (filter (\<lambda>c. \<not> is_active active (cand_path c)) (scanned config files))"
  assumes "run_workdir_cleanup config active del files now free_space = (res, ds)"
  obtains rem where
    "cleanup_loop config now active del (threshold_cleanup res) (scanned_bytes res) cs = (ds, failed_files res, rem)"
    and "\<forall>c \<in> set cs. 0 \<le> cand_size c"
    and "deleted_bytes res = sum_list (map cand_size ds)"
proof -
  define bytes where "bytes = sum_list (map cand_size (scanned config files))"
  define thr where "thr = (threshold_bytes config > 0 \<and> bytes \<ge> threshold_bytes config)"
  obtain ds' failed rem where loop: "cleanup_loop config now active del thr bytes cs = (ds', failed, rem)"
    by (cases "cleanup_loop config now active del thr bytes cs")
  have "ds = ds'" "failed_files res = failed" "scanned_bytes res = bytes" "threshold_cleanup res = thr"
    "deleted_bytes res = sum_list (map cand_size ds)"
    using assms(2) loop unfolding run_workdir_cleanup_def Let_def
    by (auto simp: cs_def bytes_def thr_def)
  moreover have "\<forall>c \<in> set cs. 0 \<le> cand_size c"
    using scanned_candidate by (auto simp: cs_def)
  ultimately show thesis using that loop by blast
qed

lemma cleanup_run_deletes:
  assumes "run_workdir_cleanup config active del files now free_space = (res, ds)" and "d \<in> set ds"
  shows "is_workdir_cleanup_candidate (workdir config) (cand_path d)" and "\<not> is_active active (cand_path d)"
proof -
  obtain rem where loop: "cleanup_loop config now active del (threshold_cleanup res) (scanned_bytes res)
      (sort_key access_time (filter (\<lambda>c. \<not> is_active active (cand_path c)) (scanned config files))) =
      (ds, failed_files res, rem)"
    and pos: "\<forall>c \<in> set (sort_key access_time (filter (\<lambda>c. \<not> is_active active (cand_path c))
      (scanned config files))). 0 \<le> cand_size c"
    using run_workdir_cleanup_loop [OF assms(1)] by blast
  from cleanup_loop_spec [OF loop pos] assms(2) have "d \<in> set (scanned config files)"
    and "\<not> is_active active (cand_path d)" by auto
  then show "is_workdir_cleanup_candidate (workdir config) (cand_path d)" "\<not> is_active active (cand_path d)"
    using scanned_candidate by auto
qed

text \<open>
  (C28) A cleanup run deletes only cache files of the workdir (never a path outside it, never a TDLib
  database or binlog) that no stream uses, and only because they are expired or because the threshold
  is passed; what it deletes for its size is not more recently used than what it keeps; and a run
  without failure deletes every expired file and ends at or below the target or has nothing left to
  delete.
\<close>

theorem cleanup_run_safe:
  assumes "run_workdir_cleanup config active del files now free_space = (res, ds)"
  shows "(\<forall>d \<in> set ds. is_workdir_cleanup_candidate (workdir config) (cand_path d) \<and>
      \<not> is_active active (cand_path d) \<and>
      (expired config now d \<or> threshold_cleanup res \<and> scanned_bytes res > target_bytes config)) \<and>
    (\<forall>d \<in> set ds. \<forall>k \<in> set (scanned config files). \<not> expired config now d \<and> k \<notin> set ds \<and>
       \<not> is_active active (cand_path k) \<longrightarrow> access_time d \<le> access_time k) \<and>
    (failed_files res = 0 \<longrightarrow> (\<forall>k \<in> set (scanned config files). \<not> is_active active (cand_path k) \<longrightarrow>
       k \<in> set ds \<or> \<not> expired config now k \<and>
         (threshold_cleanup res \<longrightarrow> scanned_bytes res - deleted_bytes res \<le> target_bytes config)))"
proof -
  define cs where
    "cs = sort_key access_time (filter (\<lambda>c. \<not> is_active active (cand_path c)) (scanned config files))"
  obtain rem where
    loop: "cleanup_loop config now active del (threshold_cleanup res) (scanned_bytes res) cs = (ds, failed_files res, rem)"
    and pos: "\<forall>c \<in> set cs. 0 \<le> cand_size c" and del: "deleted_bytes res = sum_list (map cand_size ds)"
    using run_workdir_cleanup_loop [OF assms] unfolding cs_def by blast
  have sorted: "sorted (map access_time cs)" by (simp add: cs_def)
  have cs: "c \<in> set cs \<longleftrightarrow> c \<in> set (scanned config files) \<and> \<not> is_active active (cand_path c)" for c
    by (auto simp: cs_def)
  have "\<forall>d \<in> set ds. is_workdir_cleanup_candidate (workdir config) (cand_path d)"
    using cleanup_run_deletes(1) [OF assms] by blast
  with cleanup_loop_spec [OF loop pos] cleanup_loop_lru [OF loop pos sorted] cs del show ?thesis by auto
qed

theorem cleanup_run_safe_witness:
  "is_workdir_cleanup_candidate ''/w'' ''/w/a'' \<and> \<not> is_active Map.empty ''/w/a''"
proof -
  let ?cfg = "\<lparr>workdir = ''/w'', threshold_bytes = 10, target_bytes = 5, cleanup_interval = 60, file_ttl = 0,
    min_free_bytes = 0\<rparr>"
  obtain res where "run_workdir_cleanup ?cfg Map.empty (\<lambda>p n. True) [(''/w/a'', Some (12, 7))] 100 50 =
      (res, [\<lparr>cand_path = ''/w/a'', cand_size = 12, access_time = 7\<rparr>])"
    by (simp add: run_workdir_cleanup_def scanned_def List.map_filter_def is_workdir_cleanup_candidate_def
        workdir_root_def begins_with_def is_tdlib_persistent_file_def file_name_def is_slash_def ends_with_def
        is_active_def delete_workdir_file_with_retries_def eval_nat_numeral)
  from cleanup_run_safe [OF this] show ?thesis by simp
qed

subsection \<open>Reference counts\<close>

text \<open>
  The interface the users of local files rely on: as long as a path has been retained more often than
  it has been released, it is guarded.
\<close>

datatype 'p guard_msg = Retain 'p | Release 'p

fun msg_weight :: "'p \<Rightarrow> 'p guard_msg \<Rightarrow> int" where
  "msg_weight p (Retain q) = (if p = q then 1 else 0)"
| "msg_weight p (Release q) = (if p = q then -1 else 0)"

definition msg_balance :: "'p \<Rightarrow> 'p guard_msg list \<Rightarrow> int" where
  "msg_balance p msgs = sum_list (map (msg_weight p) msgs)"

text \<open>Nobody releases what it has not retained.\<close>

definition never_negative :: "'p \<Rightarrow> 'p guard_msg list \<Rightarrow> bool" where
  "never_negative p msgs \<longleftrightarrow> (\<forall>k. 0 \<le> msg_balance p (take k msgs))"

fun apply_msg :: "('p \<Rightarrow> 'm \<Rightarrow> 'm) \<Rightarrow> ('p \<Rightarrow> 'm \<Rightarrow> 'm) \<Rightarrow> 'p guard_msg \<Rightarrow> 'm \<Rightarrow> 'm" where
  "apply_msg ret rel (Retain p) m = ret p m"
| "apply_msg ret rel (Release p) m = rel p m"

lemma msg_balance_snoc [simp]: "msg_balance p (msgs @ [x]) = msg_balance p msgs + msg_weight p x"
  by (simp add: msg_balance_def)

lemma never_negative_snoc: "never_negative p (msgs @ [x]) \<Longrightarrow> never_negative p msgs \<and> 0 \<le> msg_balance p (msgs @ [x])"
proof
  assume nn: "never_negative p (msgs @ [x])"
  show "never_negative p msgs" unfolding never_negative_def
  proof
    fix k
    have "take (min k (length msgs)) (msgs @ [x]) = take k msgs" by (simp add: min_def)
    then show "0 \<le> msg_balance p (take k msgs)" using nn unfolding never_negative_def by metis
  qed
  from nn show "0 \<le> msg_balance p (msgs @ [x])"
    unfolding never_negative_def by (metis order_refl take_all)
qed

locale file_guard =
  fixes inv :: "'m \<Rightarrow> bool"
    and ret :: "'p \<Rightarrow> 'm \<Rightarrow> 'm"
    and rel :: "'p \<Rightarrow> 'm \<Rightarrow> 'm"
    and count :: "'m \<Rightarrow> 'p \<Rightarrow> int"
    and guards :: "'p \<Rightarrow> bool"
  assumes inv_ret: "inv m \<Longrightarrow> inv (ret p m)"
    and inv_rel: "inv m \<Longrightarrow> inv (rel p m)"
    and count_ret: "inv m \<Longrightarrow> count (ret p m) q = count m q + (if q = p \<and> guards p then 1 else 0)"
    and count_rel: "inv m \<Longrightarrow> count (rel p m) q = (if q = p \<and> 0 < count m q then count m q - 1 else count m q)"
begin

lemma inv_fold: "inv m \<Longrightarrow> inv (fold (apply_msg ret rel) msgs m)"
proof (induction msgs arbitrary: m)
  case (Cons x msgs)
  then show ?case by (cases x) (auto simp: inv_ret inv_rel)
qed simp

lemma count_balance:
  assumes "inv m" and "guards p" and "count m p = 0" and "never_negative p msgs"
  shows "count (fold (apply_msg ret rel) msgs m) p = msg_balance p msgs"
  using assms(4)
proof (induction msgs rule: rev_induct)
  case Nil
  then show ?case using assms by (simp add: msg_balance_def)
next
  case (snoc x msgs)
  from never_negative_snoc [OF snoc.prems] snoc.IH
  have IH: "count (fold (apply_msg ret rel) msgs m) p = msg_balance p msgs"
    and pos: "0 \<le> msg_balance p msgs + msg_weight p x" by auto
  note i = inv_fold [OF assms(1), of msgs]
  show ?case
  proof (cases x)
    case (Retain q)
    then show ?thesis using IH assms(2) i by (auto simp: count_ret)
  next
    case (Release q)
    then show ?thesis using IH pos i by (auto simp: count_rel split: if_splits)
  qed
qed

end

definition counts_positive :: "cleanup_manager \<Rightarrow> bool" where
  "counts_positive m \<longleftrightarrow> (\<forall>p n. active_files m p = Some n \<longrightarrow> 0 < n)"

definition file_count :: "cleanup_manager \<Rightarrow> string \<Rightarrow> int" where
  "file_count m p = active_count (active_files m) p"

lemma active_count_nonneg: "counts_positive m \<Longrightarrow> 0 \<le> file_count m p"
  by (auto simp: counts_positive_def file_count_def less_imp_le split: option.splits)

lemma is_active_count: "counts_positive m \<Longrightarrow> is_active (active_files m) p \<longleftrightarrow> 0 < file_count m p"
  by (auto simp: counts_positive_def file_count_def is_active_def split: option.splits)

interpretation wcm: file_guard counts_positive "retain_file config" release_file file_count
  "is_workdir_cleanup_candidate (workdir config)" for config
proof
  fix m p
  assume inv: "counts_positive m"
  have "0 < active_count (active_files m) p + 1"
    using active_count_nonneg [OF inv, of p] by (simp add: file_count_def)
  with inv show "counts_positive (retain_file config p m)"
    by (auto simp: retain_file_def counts_positive_def split: if_splits)
  from inv show "counts_positive (release_file p m)"
    by (auto simp: release_file_def counts_positive_def split: option.splits if_splits)
  fix q
  show "file_count (retain_file config p m) q =
      file_count m q + (if q = p \<and> is_workdir_cleanup_candidate (workdir config) p then 1 else 0)"
    by (simp add: retain_file_def file_count_def)
  show "file_count (release_file p m) q =
      (if q = p \<and> 0 < file_count m q then file_count m q - 1 else file_count m q)"
  proof (cases "active_files m p")
    case (Some n)
    with inv have "0 < n" by (simp add: counts_positive_def)
    with Some show ?thesis by (simp add: release_file_def file_count_def)
  qed (simp add: release_file_def file_count_def)
qed

text \<open>
  Files in use survive: after any sequence of retain and release messages in which nobody releases
  more than was retained, a cleanup run of the manager does not delete a file that is retained more
  often than released.
\<close>

lemma retained_file_not_deleted:
  assumes "active_files m = Map.empty" and "never_negative p msgs" and "0 < msg_balance p msgs"
    and "run_cleanup config del files now_nsec free_space
      (fold (apply_msg (retain_file config) release_file) msgs m) = (m', ds)"
  shows "p \<notin> cand_path ` set ds"
proof
  assume "p \<in> cand_path ` set ds"
  then obtain d where d: "d \<in> set ds" "cand_path d = p" by auto
  define m1 where "m1 = fold (apply_msg (retain_file config) release_file) msgs m"
  have inv: "counts_positive m" using assms(1) by (simp add: counts_positive_def)
  obtain res where run: "run_workdir_cleanup config (active_files m1) del files now_nsec free_space = (res, ds)"
    using assms(4) by (auto simp: run_cleanup_def m1_def Let_def split: prod.splits)
  have safe: "is_workdir_cleanup_candidate (workdir config) p" "\<not> is_active (active_files m1) p"
    using cleanup_run_deletes [OF run d(1)] d(2) by auto
  have "file_count m1 p = msg_balance p msgs"
    unfolding m1_def using safe(1) assms by (intro wcm.count_balance [OF inv]) (auto simp: file_count_def)
  moreover have "counts_positive m1" unfolding m1_def by (rule wcm.inv_fold [OF inv])
  ultimately show False using safe(2) assms(3) is_active_count by simp
qed

lemma retained_file_not_deleted_witness:
  "''/w/a'' \<notin> cand_path ` set (snd (run_cleanup
      \<lparr>workdir = ''/w'', threshold_bytes = 10, target_bytes = 5, cleanup_interval = 60, file_ttl = 0, min_free_bytes = 0\<rparr>
      (\<lambda>p n. True) [(''/w/a'', Some (12, 7))] 100 50
      (fold (apply_msg (retain_file \<lparr>workdir = ''/w'', threshold_bytes = 10, target_bytes = 5,
          cleanup_interval = 60, file_ttl = 0, min_free_bytes = 0\<rparr>) release_file) [Retain ''/w/a'']
        \<lparr>active_files = Map.empty, next_periodic_cleanup = 0, next_threshold_check = 0, cleanup_timeout = 0,
         workdir_bytes = 0, workdir_files = 0, workdir_cleanup_runs = 0, workdir_deleted_bytes = 0,
         workdir_disk_emergency = False, workdir_shutdown_requested = False\<rparr>)))"
proof -
  have "never_negative ''/w/a'' [Retain ''/w/a'']" and "0 < msg_balance ''/w/a'' [Retain ''/w/a'']"
    by (simp_all add: never_negative_def msg_balance_def take_Cons')
  then show ?thesis
    by (intro retained_file_not_deleted [where msgs = "[Retain ''/w/a'']", OF _ _ _ prod.collapse [symmetric]])
      simp_all
qed

end
