(* ===== verification/Stream_Cleanup.thy ===== *)
theory Stream_Cleanup
  imports Stream_Safety Workdir
begin

section \<open>Streams and the workdir cleanup\<close>

text \<open>
  The streaming connections and the cleanup of the working directory together. The manager runs on another
  scheduler: what a stream sends about its local copy is a message on its way, delivered later, in the order in which
  that stream sent it. Steps of the streams, deliveries and cleanup runs interleave in any way. The facts about the
  manager come from its interface (locale \<open>file_guard\<close>).
\<close>

subsection \<open>What one stream holds\<close>

text \<open>The path a stream holds after its messages; \<^const>\<open>None\<close>: a path is retained twice or released without being held.\<close>

fun holding :: "effect list \<Rightarrow> string \<Rightarrow> string option" where
  "holding [] cur = Some cur"
| "holding (RetainFile p # es) cur = (if cur = [] \<and> p \<noteq> [] then holding es p else None)"
| "holding (ReleaseFile p # es) cur = (if cur = p \<and> p \<noteq> [] then holding es [] else None)"
| "holding (_ # es) cur = holding es cur"

lemma holding_append: "holding (xs @ ys) cur = Option.bind (holding xs cur) (holding ys)"
  by (induction xs cur rule: holding.induct) auto

definition held_path :: "fs_config \<Rightarrow> stream \<Rightarrow> string" where
  "held_path cfg s = (if fs_has_cleanup cfg \<and> \<not> stopped s then local_path s else [])"

definition resources :: "stream \<Rightarrow> effect list" where
  "resources s = filter is_resource (trace s)"

definition disciplined :: "fs_config \<Rightarrow> stream \<Rightarrow> bool" where
  "disciplined cfg s \<longleftrightarrow> holding (resources s) [] = Some (held_path cfg s)"

lemma resources_core: "resources s = fst (core s)" "local_path s = snd (core s)"
  by (simp_all add: resources_def core_def)

lemma change_path_resources:
  assumes "cur = (if fs_has_cleanup cfg then local_path s else [])"
  shows "\<exists>new. resources (change_path cfg b path s) = resources s @ new \<and>
    holding new cur = Some (if fs_has_cleanup cfg then local_path (change_path cfg b path s) else [])"
  using assms by (auto simp: change_path_def Let_def resources_def emit_def)

lemma handle_event_resources:
  assumes "cur = (if fs_has_cleanup cfg then local_path s else [])"
  shows "\<exists>new. resources (handle_event cfg ev s) = resources s @ new \<and>
    holding new cur = Some (if fs_has_cleanup cfg then local_path (handle_event cfg ev s) else [])"
proof -
  consider "core (handle_event cfg ev s) = core s"
    | b path where "core (handle_event cfg ev s) = core (change_path cfg b path s)"
    using core_handle_event by blast
  then show ?thesis
  proof cases
    case 1
    with assms show ?thesis by (simp add: resources_core)
  next
    case 2
    from change_path_resources [OF assms, where b = b and path = path] show ?thesis by (simp only: resources_core 2)
  qed
qed

lemma stream_step_resources_new:
  "\<exists>new. resources (stream_step cfg ev s) = resources s @ new \<and>
     holding new (held_path cfg s) = Some (held_path cfg (stream_step cfg ev s))"
proof (cases "stopped s")
  case False
  define s' where "s' = handle_event cfg ev s"
  from handle_event_resources [OF refl, where cfg = cfg and s = s and ev = ev] obtain new where
    new: "resources s' = resources s @ new"
      "holding new (held_path cfg s) = Some (if fs_has_cleanup cfg then local_path s' else [])"
    using False by (auto simp: held_path_def s'_def)
  have "\<exists>more. resources (tear_down cfg s') = resources s' @ more \<and>
      holding more (if fs_has_cleanup cfg then local_path s' else []) = Some []" "stopped (tear_down cfg s') = stopped s'"
    by (auto simp: tear_down_def Let_def resources_def emit_def)
  with new False show ?thesis
    by (auto simp: stream_step_def s'_def [symmetric] held_path_def holding_append)
qed (simp add: stream_step_def)

lemma disciplined_step: "disciplined cfg s \<Longrightarrow> disciplined cfg (stream_step cfg ev s)"
  using stream_step_resources_new [of cfg ev s] by (auto simp: disciplined_def holding_append)

lemma disciplined_start: "disciplined cfg (start_up cfg (new_stream sid r))"
  by (simp add: disciplined_def start_up_def new_stream_def resources_def emit_def held_path_def)

subsection \<open>Messages to the manager\<close>

fun guard_msgs :: "effect list \<Rightarrow> string guard_msg list" where
  "guard_msgs [] = []"
| "guard_msgs (RetainFile p # es) = Retain p # guard_msgs es"
| "guard_msgs (ReleaseFile p # es) = Release p # guard_msgs es"
| "guard_msgs (_ # es) = guard_msgs es"

text \<open>The path held after delivering messages; \<^const>\<open>None\<close> as for \<^const>\<open>holding\<close>.\<close>

fun delivering :: "string guard_msg list \<Rightarrow> string \<Rightarrow> string option" where
  "delivering [] cur = Some cur"
| "delivering (Retain p # ms) cur = (if cur = [] \<and> p \<noteq> [] then delivering ms p else None)"
| "delivering (Release p # ms) cur = (if cur = p \<and> p \<noteq> [] then delivering ms [] else None)"

lemma delivering_guard_msgs: "delivering (guard_msgs es) cur = holding es cur"
  by (induction es cur rule: holding.induct) auto

lemma delivering_append: "delivering (xs @ ys) cur = Option.bind (delivering xs cur) (delivering ys)"
  by (induction xs cur rule: delivering.induct) auto

lemma delivered_before:
  assumes "delivering ms cur = Some p" and "p \<noteq> []" and "Retain p \<notin> set ms"
  shows "cur = p"
  using assms by (induction ms cur rule: delivering.induct) (auto split: if_splits)

definition holds :: "string \<Rightarrow> string \<Rightarrow> int" where
  "holds cur p = (if cur = p \<and> p \<noteq> [] then 1 else 0)"

lemma holds_simps [simp]: "holds [] p = 0" "0 \<le> holds cur p"
  by (simp_all add: holds_def)

subsection \<open>The system\<close>

text \<open>Each stream with its messages to the manager that are on their way, oldest first.\<close>

record stream_system =
  sys_streams :: "(stream \<times> string guard_msg list) list"
  sys_manager :: cleanup_manager

datatype system_event =
    Open_Stream int file_stream_route
  | Stream_Event nat stream_event
  | Deliver nat
  | Cleanup_Run "string \<Rightarrow> nat \<Rightarrow> bool" "walk_entry list" nat int

fun system_step :: "fs_config \<Rightarrow> workdir_cleanup_config \<Rightarrow> system_event \<Rightarrow> stream_system \<Rightarrow> stream_system" where
  "system_step cfg config (Open_Stream sid r) sys =
     sys\<lparr>sys_streams := sys_streams sys @ [(start_up cfg (new_stream sid r), [])]\<rparr>"
| "system_step cfg config (Stream_Event i ev) sys =
     (if i < length (sys_streams sys)
      then let (s, mail) = sys_streams sys ! i;
               s' = stream_step cfg ev s
           in sys\<lparr>sys_streams := (sys_streams sys)[i := (s', mail @ guard_msgs (drop (length (resources s)) (resources s')))]\<rparr>
      else sys)"
| "system_step cfg config (Deliver i) sys =
     (if i < length (sys_streams sys)
      then case sys_streams sys ! i of
             (s, []) \<Rightarrow> sys
           | (s, msg # mail) \<Rightarrow>
               sys\<lparr>sys_streams := (sys_streams sys)[i := (s, mail)],
                   sys_manager := apply_msg (retain_file config) release_file msg (sys_manager sys)\<rparr>
      else sys)"
| "system_step cfg config (Cleanup_Run del files now_nsec free_space) sys =
     sys\<lparr>sys_manager := fst (run_cleanup config del files now_nsec free_space (sys_manager sys))\<rparr>"

text \<open>The path the manager knows a stream to hold: the one before the messages on their way.\<close>

fun known_path :: "fs_config \<Rightarrow> stream \<times> string guard_msg list \<Rightarrow> string" where
  "known_path cfg (s, []) = held_path cfg s"
| "known_path cfg (s, Retain p # ms) = []"
| "known_path cfg (s, Release p # ms) = p"

definition mail_ok :: "fs_config \<Rightarrow> stream \<times> string guard_msg list \<Rightarrow> bool" where
  "mail_ok cfg x \<longleftrightarrow> delivering (snd x) (known_path cfg x) = Some (held_path cfg (fst x))"

lemma known_pathI: "delivering ms cur = Some (held_path cfg s) \<Longrightarrow> known_path cfg (s, ms) = cur"
  by (cases "(ms, cur)" rule: delivering.cases) (auto split: if_splits)

definition system_inv :: "fs_config \<Rightarrow> workdir_cleanup_config \<Rightarrow> stream_system \<Rightarrow> bool" where
  "system_inv cfg config sys \<longleftrightarrow>
     counts_positive (sys_manager sys) \<and> (\<forall>x \<in> set (sys_streams sys). mail_ok cfg x) \<and>
     (\<forall>p. is_workdir_cleanup_candidate (workdir config) p \<longrightarrow>
        file_count (sys_manager sys) p = sum_list (map (\<lambda>x. holds (known_path cfg x) p) (sys_streams sys)))"

lemma active_files_run: "active_files (fst (run_cleanup config del files now_nsec free_space m)) = active_files m"
  by (simp add: run_cleanup_def Let_def split: prod.split)

lemma sum_list_update_int:
  fixes f :: "'a \<Rightarrow> int"
  shows "i < length xs \<Longrightarrow> sum_list (map f (xs[i := x])) = sum_list (map f xs) - f (xs ! i) + f x"
proof (induction xs arbitrary: i)
  case (Cons y ys)
  then show ?case by (cases i) auto
qed simp

lemma holds_le_sum:
  "x \<in> set xs \<Longrightarrow> holds (known_path cfg x) p \<le> sum_list (map (\<lambda>x. holds (known_path cfg x) p) xs)"
  by (rule member_le_sum_list) (auto simp: holds_def)

text \<open>Replacing one stream and the manager keeps the invariant when their counts move together.\<close>

lemma system_inv_update:
  assumes inv: "system_inv cfg config sys" and i: "i < length (sys_streams sys)" and x: "mail_ok cfg x"
    and m: "counts_positive m"
    and count: "\<And>p. is_workdir_cleanup_candidate (workdir config) p \<Longrightarrow>
      file_count m p = file_count (sys_manager sys) p - holds (known_path cfg (sys_streams sys ! i)) p + holds (known_path cfg x) p"
  shows "system_inv cfg config (sys\<lparr>sys_streams := (sys_streams sys)[i := x], sys_manager := m\<rparr>)"
proof -
  have "\<forall>y \<in> set ((sys_streams sys)[i := x]). mail_ok cfg y"
    using inv x set_update_subset_insert [of "sys_streams sys" i x] by (auto simp: system_inv_def)
  then show ?thesis using inv m count by (simp add: system_inv_def sum_list_update_int [OF i])
qed

lemma deliver_mail:
  assumes "mail_ok cfg (s, msg # mail)"
  shows "delivering mail (case msg of Retain q \<Rightarrow> q | Release q \<Rightarrow> []) = Some (held_path cfg s)" "mail_ok cfg (s, mail)"
    "msg = Retain q \<Longrightarrow> q \<noteq> []" "msg = Release q \<Longrightarrow> q \<noteq> []"
proof -
  show del: "delivering mail (case msg of Retain q \<Rightarrow> q | Release q \<Rightarrow> []) = Some (held_path cfg s)"
    "msg = Retain q \<Longrightarrow> q \<noteq> []" "msg = Release q \<Longrightarrow> q \<noteq> []"
    using assms by (cases msg; auto simp: mail_ok_def split: if_splits)+
  show "mail_ok cfg (s, mail)" using known_pathI [OF del(1)] del(1) by (simp add: mail_ok_def)
qed

lemma deliver_count:
  assumes inv: "system_inv cfg config sys" and i: "i < length (sys_streams sys)" and x: "sys_streams sys ! i = (s, msg # mail)"
    and p: "is_workdir_cleanup_candidate (workdir config) p"
  shows "file_count (apply_msg (retain_file config) release_file msg (sys_manager sys)) p =
      file_count (sys_manager sys) p - holds (known_path cfg (s, msg # mail)) p + holds (known_path cfg (s, mail)) p"
proof -
  have "(s, msg # mail) \<in> set (sys_streams sys)" using i x nth_mem by metis
  moreover from this have ok: "mail_ok cfg (s, msg # mail)" using inv by (auto simp: system_inv_def)
  ultimately have le: "holds (known_path cfg (s, msg # mail)) p \<le> file_count (sys_manager sys) p"
    using inv p holds_le_sum by (simp add: system_inv_def)
  have m: "counts_positive (sys_manager sys)" using inv by (simp add: system_inv_def)
  show ?thesis
    using m p le deliver_mail(3,4) [OF ok] known_pathI [OF deliver_mail(1) [OF ok]]
      wcm.count_ret [OF m, of config _ p] wcm.count_rel [OF m, of _ p]
    by (cases msg) (auto simp: holds_def split: if_splits)
qed

lemma system_step_inv:
  assumes inv: "system_inv cfg config sys"
  shows "system_inv cfg config (system_step cfg config ev sys)"
proof (cases ev)
  case (Open_Stream sid r)
  have "held_path cfg (start_up cfg (new_stream sid r)) = []"
    by (simp add: held_path_def start_up_def new_stream_def emit_def)
  with inv Open_Stream show ?thesis by (auto simp: system_inv_def mail_ok_def)
next
  case (Stream_Event i ev')
  show ?thesis
  proof (cases "i < length (sys_streams sys)")
    case i: True
    obtain s mail where x: "sys_streams sys ! i = (s, mail)" by fastforce
    define s' where "s' = stream_step cfg ev' s"
    from stream_step_resources_new [of cfg ev' s] obtain new where
      new: "resources s' = resources s @ new" "holding new (held_path cfg s) = Some (held_path cfg s')"
      unfolding s'_def by blast
    have "mail_ok cfg (s, mail)" using inv i x nth_mem [OF i] by (auto simp: system_inv_def)
    then have del: "delivering (mail @ guard_msgs new) (known_path cfg (s, mail)) = Some (held_path cfg s')"
      using new(2) by (simp add: mail_ok_def delivering_append delivering_guard_msgs)
    note known = known_pathI [OF del]
    with del have "mail_ok cfg (s', mail @ guard_msgs new)" by (simp add: mail_ok_def)
    from system_inv_update [OF inv i this, of "sys_manager sys"] inv
    have "system_inv cfg config (sys\<lparr>sys_streams := (sys_streams sys)[i := (s', mail @ guard_msgs new)], sys_manager := sys_manager sys\<rparr>)"
      by (simp add: x known system_inv_def)
    moreover have "system_step cfg config ev sys = sys\<lparr>sys_streams := (sys_streams sys)[i := (s', mail @ guard_msgs new)]\<rparr>"
      using i Stream_Event new(1) by (simp add: x s'_def [symmetric] Let_def)
    ultimately show ?thesis by simp
  next
    case False
    with Stream_Event inv show ?thesis by simp
  qed
next
  case (Deliver i)
  show ?thesis
  proof (cases "i < length (sys_streams sys) \<and> snd (sys_streams sys ! i) \<noteq> []")
    case True
    then obtain s msg mail where i: "i < length (sys_streams sys)" and x: "sys_streams sys ! i = (s, msg # mail)"
      by (metis list.exhaust prod.collapse)
    have "counts_positive (apply_msg (retain_file config) release_file msg (sys_manager sys))"
      using inv wcm.inv_fold [of "sys_manager sys" config "[msg]"] by (simp add: system_inv_def)
    moreover have "mail_ok cfg (s, msg # mail)" using inv nth_mem [OF i] x by (auto simp: system_inv_def)
    then have "mail_ok cfg (s, mail)" by (rule deliver_mail(2))
    ultimately have "system_inv cfg config (sys\<lparr>sys_streams := (sys_streams sys)[i := (s, mail)],
        sys_manager := apply_msg (retain_file config) release_file msg (sys_manager sys)\<rparr>)"
      using deliver_count [OF inv i x] by (intro system_inv_update [OF inv i]) (simp_all add: x)
    then show ?thesis using Deliver i x by simp
  next
    case False
    then have "system_step cfg config ev sys = sys" using Deliver by (auto split: prod.split list.split)
    with inv show ?thesis by simp
  qed
next
  case (Cleanup_Run del files now_nsec free_space)
  with inv show ?thesis by (simp add: system_inv_def counts_positive_def file_count_def active_files_run)
qed

definition system_run :: "fs_config \<Rightarrow> workdir_cleanup_config \<Rightarrow> system_event list \<Rightarrow> cleanup_manager \<Rightarrow> stream_system" where
  "system_run cfg config evs m = fold (system_step cfg config) evs \<lparr>sys_streams = [], sys_manager = m\<rparr>"

lemma system_run_inv:
  assumes "active_files m = Map.empty"
  shows "system_inv cfg config (system_run cfg config evs m)"
proof -
  have "system_inv cfg config \<lparr>sys_streams = [], sys_manager = m\<rparr>"
    using assms by (simp add: system_inv_def counts_positive_def file_count_def)
  moreover have "system_inv cfg config sys \<Longrightarrow> system_inv cfg config (fold (system_step cfg config) evs sys)" for sys
    by (induction evs arbitrary: sys) (auto simp: system_step_inv)
  ultimately show ?thesis by (simp add: system_run_def)
qed

text \<open>A path the manager knows to be held is counted there.\<close>

lemma known_copy_counted:
  assumes "system_inv cfg config sys" and "x \<in> set (sys_streams sys)" and "known_path cfg x = p" and "p \<noteq> []"
    and "is_workdir_cleanup_candidate (workdir config) p"
  shows "is_active (active_files (sys_manager sys)) p"
proof -
  have "holds (known_path cfg x) p = 1" using assms(3,4) by (simp add: holds_def)
  then have "0 < file_count (sys_manager sys) p"
    using assms(1,5) holds_le_sum [OF assms(2), of cfg p] by (simp add: system_inv_def)
  with assms(1) show ?thesis by (simp add: is_active_count system_inv_def)
qed

text \<open>A running stream whose retain message was delivered is known to hold its local copy.\<close>

lemma retained_known:
  assumes "system_inv cfg config sys" and "(s, mail) \<in> set (sys_streams sys)" and "held_path cfg s \<noteq> []"
    and "Retain (held_path cfg s) \<notin> set mail"
  shows "known_path cfg (s, mail) = held_path cfg s"
proof -
  have "mail_ok cfg (s, mail)" using assms(1,2) by (auto simp: system_inv_def)
  then show ?thesis using delivered_before assms(3,4) by (simp add: mail_ok_def)
qed

end
