(* ===== verification/TQueue.thy ===== *)
theory TQueue
  imports Text_Utils "HOL-Library.Product_Lexorder"
begin

section \<open>The persistent update queue\<close>

text \<open>
  \<open>td::TQueue\<close> (\<open>td/db/TQueue.h\<close>, \<open>td/db/TQueue.cpp\<close>): the queues of updates the
  server keeps for its bots. A queue is a map from event identifiers to events, here a list in
  ascending order of identifiers; the events are mirrored in a storage callback (\<^const>\<open>None\<close>
  is the null callback), here \<open>TQueueMemoryStorage\<close>, whose laws are those of
  \<open>TQueueBinlog\<close>: a push with log identifier 0 adds a record with a fresh, larger identifier,
  a push with another identifier rewrites that record, a pop erases it. So that the tail
  identifier survives a restart, the last event of a queue is not erased but emptied.

  Random numbers and readings of the clock are arguments.
\<close>

subsection \<open>Event identifiers\<close>

definition max_id :: int where "max_id = 2000000000"

definition is_valid_id :: "int \<Rightarrow> bool" where
  "is_valid_id i \<longleftrightarrow> 0 \<le> i \<and> i < max_id"

definition event_id_from_int32 :: "int \<Rightarrow> int result" where
  "event_id_from_int32 i = (if \<not> is_valid_id i then Inl (Error 0 ''Invalid ID'') else Inr i)"

definition event_id_empty :: "int \<Rightarrow> bool" where
  "event_id_empty i \<longleftrightarrow> i = 0"

definition event_id_is_valid :: "int \<Rightarrow> bool" where
  "event_id_is_valid i \<longleftrightarrow> \<not> event_id_empty i \<and> is_valid_id i"

definition event_id_next :: "int \<Rightarrow> int result" where
  "event_id_next i = event_id_from_int32 (i + 1)"

definition event_id_advance :: "int \<Rightarrow> nat \<Rightarrow> int result" where
  "event_id_advance i offset =
     (if i + int offset > int32_max then Inl (Error 0 ''Narrow cast failed'')
      else event_id_from_int32 (i + int offset))"

subsection \<open>Events, queues and storage\<close>

definition max_event_length :: nat where "max_event_length = 65536 * 8"
definition max_queue_events :: nat where "max_queue_events = 100000"
definition max_total_event_length :: nat where "max_total_event_length = 2 ^ 27"

record raw_event =
  ev_log_id :: nat
  ev_id :: int
  ev_expires_at :: int
  ev_data :: string
  ev_extra :: int

record queue =
  tail_id :: int
  events :: "raw_event list"
  total_event_length :: nat
  gc_at :: int

definition new_queue :: queue where
  "new_queue = \<lparr>tail_id = 0, events = [], total_event_length = 0, gc_at = 0\<rparr>"

text \<open>\<open>TQueueMemoryStorage\<close>: a map ordered by log identifier, as an ascending list.\<close>

record storage =
  next_log_event_id :: nat
  stored :: "(nat \<times> int \<times> raw_event) list"

definition new_storage :: storage where
  "new_storage = \<lparr>next_log_event_id = 1, stored = []\<rparr>"

fun store_put :: "nat \<Rightarrow> int \<times> raw_event \<Rightarrow> (nat \<times> int \<times> raw_event) list \<Rightarrow> (nat \<times> int \<times> raw_event) list" where
  "store_put k v [] = [(k, v)]"
| "store_put k v ((k', v') # xs) =
     (if k < k' then (k, v) # (k', v') # xs
      else if k = k' then (k, v) # xs
      else (k', v') # store_put k v xs)"

definition storage_push :: "int \<Rightarrow> raw_event \<Rightarrow> storage \<Rightarrow> nat \<times> storage" where
  "storage_push queue_id event s =
     (let (k, s1) = (if ev_log_id event = 0
                     then (next_log_event_id s, s\<lparr>next_log_event_id := next_log_event_id s + 1\<rparr>)
                     else (ev_log_id event, s))
      in (k, s1\<lparr>stored := store_put k (queue_id, event) (stored s1)\<rparr>))"

definition storage_pop :: "nat \<Rightarrow> storage \<Rightarrow> storage" where
  "storage_pop k s = s\<lparr>stored := filter (\<lambda>(k', v). k' \<noteq> k) (stored s)\<rparr>"

definition storage_pop_batch :: "nat list \<Rightarrow> storage \<Rightarrow> storage" where
  "storage_pop_batch ks s = fold storage_pop ks s"

record tqueue =
  queues :: "int \<rightharpoonup> queue"
  queue_gc_at :: "(int \<times> int) list"
  callback :: "storage option"

definition new_tqueue :: tqueue where
  "new_tqueue = \<lparr>queues = Map.empty, queue_gc_at = [], callback = None\<rparr>"

definition set_callback :: "storage option \<Rightarrow> tqueue \<Rightarrow> tqueue" where
  "set_callback cb t = t\<lparr>callback := cb\<rparr>"

text \<open>\<open>queues_[queue_id]\<close> creates a missing queue.\<close>

definition queue_of :: "tqueue \<Rightarrow> int \<Rightarrow> queue" where
  "queue_of t queue_id = (case queues t queue_id of None \<Rightarrow> new_queue | Some q \<Rightarrow> q)"

definition set_queue :: "int \<Rightarrow> queue \<Rightarrow> tqueue \<Rightarrow> tqueue" where
  "set_queue queue_id q t = t\<lparr>queues := (queues t)(queue_id \<mapsto> q)\<rparr>"

subsection \<open>Private operations\<close>

definition get_queue_head :: "queue \<Rightarrow> int" where
  "get_queue_head q = (case events q of [] \<Rightarrow> tail_id q | e # es \<Rightarrow> ev_id e)"

definition queue_size :: "queue \<Rightarrow> nat" where
  "queue_size q =
     (if events q = [] then 0
      else length (events q) - (if ev_data (last (events q)) = [] then 1 else 0))"

text \<open>
  \<open>pop\<close> on one event: \<^const>\<open>None\<close> when it is erased, the event left in place otherwise,
  with the storage and the total event length after it.
\<close>

definition pop ::
  "int \<Rightarrow> int \<Rightarrow> raw_event \<Rightarrow> storage option \<Rightarrow> nat \<Rightarrow> raw_event option \<times> storage option \<times> nat"
where
  "pop queue_id tail event cb len =
     (case cb of
        None \<Rightarrow> (None, cb, len - length (ev_data event))
      | Some s \<Rightarrow>
          if ev_log_id event = 0 then (None, cb, len - length (ev_data event))
          else if ev_id event + 1 = tail
          then if ev_data event \<noteq> []
               then let event' = event\<lparr>ev_data := []\<rparr>
                    in (Some event', Some (snd (storage_push queue_id event' s)),
                        len - length (ev_data event))
               else (Some event, cb, len)
          else (None, Some (storage_pop (ev_log_id event) s), len - length (ev_data event)))"

fun opt_list :: "'a option \<Rightarrow> 'a list" where
  "opt_list None = []"
| "opt_list (Some x) = [x]"

text \<open>The loop \<open>for (it = begin; it != end && P(it);) pop(q, queue_id, it, tail)\<close>.\<close>

fun pop_while ::
  "(raw_event \<Rightarrow> bool) \<Rightarrow> int \<Rightarrow> int \<Rightarrow> raw_event list \<Rightarrow> storage option \<Rightarrow> nat \<Rightarrow>
   raw_event list \<times> storage option \<times> nat"
where
  "pop_while P queue_id tail [] cb len = ([], cb, len)"
| "pop_while P queue_id tail (e # es) cb len =
     (if P e
      then let (r, cb1, len1) = pop queue_id tail e cb len;
               (es', cb2, len2) = pop_while P queue_id tail es cb1 len1
           in (opt_list r @ es', cb2, len2)
      else (e # es, cb, len))"

definition schedule_queue_gc :: "int \<Rightarrow> queue \<Rightarrow> int \<Rightarrow> (int \<times> int) list \<Rightarrow> queue \<times> (int \<times> int) list" where
  "schedule_queue_gc queue_id q new_gc_at gcs =
     (let gcs1 = (if gc_at q \<noteq> 0 then remove1 (gc_at q, queue_id) gcs else gcs);
          gcs2 = (if new_gc_at \<noteq> 0 then insort (new_gc_at, queue_id) gcs1 else gcs1)
      in (q\<lparr>gc_at := new_gc_at\<rparr>, gcs2))"

text \<open>The second loop of \<open>do_get\<close>, from the first event that is not before \<open>from_id\<close>.\<close>

fun get_loop ::
  "int \<Rightarrow> nat \<Rightarrow> int \<Rightarrow> int \<Rightarrow> raw_event list \<Rightarrow> storage option \<Rightarrow> nat \<Rightarrow>
   raw_event list \<times> raw_event list \<times> storage option \<times> nat"
where
  "get_loop now room queue_id tail [] cb len = ([], [], cb, len)"
| "get_loop now room queue_id tail (e # es) cb len =
     (if ev_expires_at e < now \<or> ev_data e = []
      then let (r, cb1, len1) = pop queue_id tail e cb len;
               (out, es', cb2, len2) = get_loop now room queue_id tail es cb1 len1
           in (out, opt_list r @ es', cb2, len2)
      else if room = 0 then ([], e # es, cb, len)
      else let (out, es', cb2, len2) = get_loop now (room - 1) queue_id tail es cb len
           in (e # out, e # es', cb2, len2))"

definition do_get ::
  "int \<Rightarrow> queue \<Rightarrow> int \<Rightarrow> bool \<Rightarrow> int \<Rightarrow> nat \<Rightarrow> storage option \<Rightarrow> raw_event list \<times> queue \<times> storage option"
where
  "do_get queue_id q from_id forget_previous now limit cb =
     (let (es1, cb1, len1) =
            (if forget_previous
             then pop_while (\<lambda>e. ev_id e < from_id) queue_id (tail_id q) (events q) cb (total_event_length q)
             else (events q, cb, total_event_length q));
          before = takeWhile (\<lambda>e. ev_id e < from_id) es1;
          (out, es2, cb2, len2) =
            get_loop now limit queue_id (tail_id q) (dropWhile (\<lambda>e. ev_id e < from_id) es1) cb1 len1
      in (out, q\<lparr>events := before @ es2, total_event_length := len2\<rparr>, cb2))"

subsection \<open>Public operations\<close>

definition do_push :: "int \<Rightarrow> raw_event \<Rightarrow> tqueue \<Rightarrow> bool \<times> tqueue" where
  "do_push queue_id raw_event t =
     (if length (ev_data raw_event) > max_event_length \<or> queue_id = 0 then (False, t)
      else
        let q = queue_of t queue_id; t0 = set_queue queue_id q t in
        if length (events q) \<ge> max_queue_events \<or>
           total_event_length q > max_total_event_length - length (ev_data raw_event) \<or>
           ev_expires_at raw_event \<le> 0
        then (False, t0)
        else if ev_id raw_event < tail_id q then (False, t0)
        else
          let (q1, cb1) =
                (if events q \<noteq> [] \<and> ev_data (last (events q)) = []
                 then (q\<lparr>events := butlast (events q)\<rparr>,
                       case callback t of
                         None \<Rightarrow> None
                       | Some s \<Rightarrow> if ev_log_id (last (events q)) \<noteq> 0
                                   then Some (storage_pop (ev_log_id (last (events q))) s) else Some s)
                 else (q, callback t));
              (q2, gcs) =
                (if events q1 = [] \<and> ev_data raw_event \<noteq> []
                 then schedule_queue_gc queue_id q1 (ev_expires_at raw_event) (queue_gc_at t)
                 else (q1, queue_gc_at t));
              (e, cb2) =
                (case cb1 of
                   None \<Rightarrow> (raw_event, None)
                 | Some s \<Rightarrow> if ev_log_id raw_event = 0
                             then let (k, s') = storage_push queue_id raw_event s
                                  in (raw_event\<lparr>ev_log_id := k\<rparr>, Some s')
                             else (raw_event, Some s));
              q3 = q2\<lparr>tail_id := ev_id raw_event + 1,
                       total_event_length := total_event_length q2 + length (ev_data e),
                       events := events q2 @ [e]\<rparr>
          in (True, t\<lparr>queues := (queues t)(queue_id \<mapsto> q3), queue_gc_at := gcs, callback := cb2\<rparr>))"

definition pick_tail :: "int \<Rightarrow> int \<Rightarrow> int \<Rightarrow> int" where
  "pick_tail hint_new_id rnd tail =
     (if event_id_empty tail then if event_id_empty hint_new_id then rnd else hint_new_id else tail)"

definition is_ok :: "'a result \<Rightarrow> bool" where
  "is_ok r \<longleftrightarrow> (case r of Inl e \<Rightarrow> False | Inr x \<Rightarrow> True)"

definition check_failed :: td_error where
  "check_failed = Error (-1) ''CHECK failed''"

text \<open>
  \<open>push\<close>. The loop over tail identifiers runs a second time when the identifiers are used up:
  the queue is then emptied and a new first identifier is chosen. \<open>check_failed\<close> is the
  abort of a failed \<open>CHECK\<close>.
\<close>

definition push :: "int \<Rightarrow> int \<Rightarrow> string \<Rightarrow> int \<Rightarrow> int \<Rightarrow> int \<Rightarrow> tqueue \<Rightarrow> int result \<times> tqueue" where
  "push rnd queue_id dat expires extra hint_new_id t =
     (if dat = [] then (Inl (Error 0 ''Data is empty''), t)
      else if length dat > max_event_length then (Inl (Error 0 ''Data is too big''), t)
      else if queue_id = 0 then (Inl (Error 0 ''Queue identifier is invalid''), t)
      else
        let q = queue_of t queue_id; t0 = set_queue queue_id q t in
        if length (events q) \<ge> max_queue_events then (Inl (Error 0 ''Queue is full''), t0)
        else if total_event_length q > max_total_event_length - length dat
        then (Inl (Error 0 ''Queue size is too big''), t0)
        else if expires \<le> 0 then (Inl (Error 0 ''Failed to add already expired event''), t0)
        else
          let id1 = pick_tail hint_new_id rnd (tail_id q);
              (id2, t1) =
                (if is_ok (event_id_next id1) then (id1, set_queue queue_id (q\<lparr>tail_id := id1\<rparr>) t)
                 else
                   let (es, cb, len) =
                         pop_while (\<lambda>e. True) queue_id 0 (events q) (callback t) (total_event_length q);
                       id2 = pick_tail hint_new_id rnd 0
                   in (id2, (set_queue queue_id
                              (q\<lparr>tail_id := id2, events := es, total_event_length := len\<rparr>) t)\<lparr>callback := cb\<rparr>))
          in if \<not> is_ok (event_id_next id2) then (Inl check_failed, t1)
             else
               let (added, t2) =
                     do_push queue_id
                       \<lparr>ev_log_id = 0, ev_id = id2, ev_expires_at = expires, ev_data = dat, ev_extra = extra\<rparr> t1
               in if added then (Inr id2, t2) else (Inl check_failed, t2))"

definition get_head :: "int \<Rightarrow> tqueue \<Rightarrow> int" where
  "get_head queue_id t = (case queues t queue_id of None \<Rightarrow> 0 | Some q \<Rightarrow> get_queue_head q)"

definition get_tail :: "int \<Rightarrow> tqueue \<Rightarrow> int" where
  "get_tail queue_id t = (case queues t queue_id of None \<Rightarrow> 0 | Some q \<Rightarrow> tail_id q)"

definition get_size :: "int \<Rightarrow> tqueue \<Rightarrow> nat" where
  "get_size queue_id t = (case queues t queue_id of None \<Rightarrow> 0 | Some q \<Rightarrow> queue_size q)"

definition forget :: "int \<Rightarrow> int \<Rightarrow> tqueue \<Rightarrow> tqueue" where
  "forget queue_id event_id t =
     (case queues t queue_id of
        None \<Rightarrow> t
      | Some q \<Rightarrow>
          (let before = takeWhile (\<lambda>e. ev_id e \<noteq> event_id) (events q) in
           case dropWhile (\<lambda>e. ev_id e \<noteq> event_id) (events q) of
             [] \<Rightarrow> t
           | e # after \<Rightarrow>
               let (r, cb, len) = pop queue_id (tail_id q) e (callback t) (total_event_length q)
               in (set_queue queue_id
                     (q\<lparr>events := before @ opt_list r @ after, total_event_length := len\<rparr>) t)\<lparr>callback := cb\<rparr>))"

definition data_length :: "raw_event list \<Rightarrow> nat" where
  "data_length es = sum_list (map (\<lambda>e. length (ev_data e)) es)"

definition clear_queue :: "int \<Rightarrow> nat \<Rightarrow> tqueue \<Rightarrow> raw_event list \<times> tqueue" where
  "clear_queue queue_id keep_count t =
     (case queues t queue_id of
        None \<Rightarrow> ([], t)
      | Some q \<Rightarrow>
          (let sz = queue_size q in
           if sz \<le> keep_count then ([], t)
           else
             let n = length (events q);
                 e = last (events q);
                 (pos, es, cb, len) =
                   (if keep_count > 0 then (n - keep_count, events q, callback t, total_event_length q)
                    else case callback t of
                           None \<Rightarrow> (n, events q, None, total_event_length q)
                         | Some s \<Rightarrow>
                             if ev_log_id e = 0 then (n, events q, Some s, total_event_length q)
                             else if ev_data e \<noteq> []
                             then let e' = e\<lparr>ev_data := []\<rparr>
                                  in (n - 1, butlast (events q) @ [e'], Some (snd (storage_push queue_id e' s)),
                                      total_event_length q - length (ev_data e))
                             else (n - 1, events q, Some s, total_event_length q));
                 deleted = take pos es;
                 kept = drop pos es;
                 cb' = map_option (storage_pop_batch
                         (map ev_log_id (filter (\<lambda>e. ev_log_id e \<noteq> 0) deleted))) cb;
                 len' = (if keep_count > sz div 2 then len - data_length deleted else data_length kept)
             in (deleted, (set_queue queue_id (q\<lparr>events := kept, total_event_length := len'\<rparr>) t)\<lparr>callback := cb'\<rparr>)))"

definition get_events ::
  "int \<Rightarrow> int \<Rightarrow> bool \<Rightarrow> int \<Rightarrow> nat \<Rightarrow> tqueue \<Rightarrow> (nat \<times> raw_event list) result \<times> tqueue"
where
  "get_events queue_id from_id forget_previous now limit t =
     (case queues t queue_id of
        None \<Rightarrow> (Inr (0, []), t)
      | Some q \<Rightarrow>
          if from_id > tail_id q + 10 then (Inl (Error 0 ''Specified from_id is in the future''), t)
          else if from_id < get_queue_head q - int max_queue_events
          then (Inl (Error 0 ''Specified from_id is in the past''), t)
          else let (out, q', cb) = do_get queue_id q from_id forget_previous now limit (callback t)
               in (Inr (queue_size q', out), (set_queue queue_id q' t)\<lparr>callback := cb\<rparr>))"

text \<open>
  Garbage collection. \<open>tick c\<close> tells whether the time budget is over at the check inside
  the loop when the counter is \<open>c\<close>, \<open>tock c\<close> at the check after a queue.
\<close>

fun gc_loop ::
  "(nat \<Rightarrow> bool) \<Rightarrow> int \<Rightarrow> int \<Rightarrow> int \<Rightarrow> raw_event list \<Rightarrow> storage option \<Rightarrow> nat \<Rightarrow> nat \<Rightarrow> int \<Rightarrow>
   raw_event list \<times> storage option \<times> nat \<times> nat \<times> int"
where
  "gc_loop tick now queue_id tail [] cb len counter new_gc_at = ([], cb, len, counter, new_gc_at)"
| "gc_loop tick now queue_id tail (e # es) cb len counter new_gc_at =
     (let counter1 = counter + 1 in
      if (counter1 div 128) mod 2 = 0 \<and> tick counter1
      then (e # es, cb, len, counter1, if new_gc_at = 0 then ev_expires_at e else new_gc_at)
      else if ev_expires_at e < now \<or> ev_data e = []
      then let (r, cb1, len1) = pop queue_id tail e cb len;
               (es', rest) = gc_loop tick now queue_id tail es cb1 len1 counter1 new_gc_at
           in (opt_list r @ es', rest)
      else if new_gc_at \<noteq> 0 then (e # es, cb, len, counter1, new_gc_at)
      else let (es', rest) = gc_loop tick now queue_id tail es cb len counter1 (ev_expires_at e)
           in (e # es', rest))"

fun run_gc ::
  "nat \<Rightarrow> (nat \<Rightarrow> bool) \<Rightarrow> (nat \<Rightarrow> bool) \<Rightarrow> int \<Rightarrow> nat \<Rightarrow> nat \<Rightarrow> tqueue \<Rightarrow> ((nat \<times> bool) \<times> tqueue) option"
where
  "run_gc 0 tick tock now counter deleted t = None"
| "run_gc (Suc fuel) tick tock now counter deleted t =
     (case queue_gc_at t of
        [] \<Rightarrow> Some ((deleted, True), t)
      | (due, queue_id) # _ \<Rightarrow>
          if due \<ge> now then Some ((deleted, True), t)
          else
            let q = queue_of t queue_id;
                (es, cb, len, counter', new_gc_at) =
                  gc_loop tick now queue_id (tail_id q) (events q) (callback t) (total_event_length q) counter 0;
                q1 = q\<lparr>events := es, total_event_length := len\<rparr>;
                deleted' = deleted + (queue_size q - queue_size q1);
                (q2, gcs) = schedule_queue_gc queue_id q1 new_gc_at (queue_gc_at t);
                t' = t\<lparr>queues := (queues t)(queue_id \<mapsto> q2), queue_gc_at := gcs, callback := cb\<rparr>
            in if tock counter' then Some ((deleted', False), t')
               else run_gc fuel tick tock now counter' deleted' t')"

text \<open>\<open>TQueueMemoryStorage::replay\<close>, with the result of each \<open>do_push\<close> (the code checks it).\<close>

fun replay :: "(nat \<times> int \<times> raw_event) list \<Rightarrow> tqueue \<Rightarrow> bool \<times> tqueue" where
  "replay [] t = (True, t)"
| "replay ((k, queue_id, e) # xs) t =
     (let (added, t1) = do_push queue_id (e\<lparr>ev_log_id := k\<rparr>) t
      in if added then replay xs t1 else (False, t1))"

end
