(* ===== verification/TQueue_Inv.thy ===== *)
theory TQueue_Inv
  imports TQueue
begin

section \<open>Invariants of the update queue\<close>

text \<open>
  The invariant of \<open>TQueue\<close> and its preservation by every operation. All loops of the code
  that remove events are instances of one relation, \<open>pops\<close>: an event is left in place or
  given to \<open>pop\<close>. What the removal does to the storage, to the order of the events and to
  the total length is proved once for that relation.
\<close>

subsection \<open>The storage as a list of records\<close>

fun sfor :: "int \<Rightarrow> (nat \<times> int \<times> raw_event) list \<Rightarrow> raw_event list" where
  "sfor qid [] = []"
| "sfor qid ((k, q, e) # xs) = (if q = qid then [e\<lparr>ev_log_id := k\<rparr>] else []) @ sfor qid xs"

definition storage_wf :: "storage \<Rightarrow> bool" where
  "storage_wf s \<longleftrightarrow> sorted_wrt (<) (map fst (stored s)) \<and>
     (\<forall>k \<in> set (map fst (stored s)). 0 < k \<and> k < next_log_event_id s) \<and> 0 < next_log_event_id s"

lemma sfor_append [simp]: "sfor qid (xs @ ys) = sfor qid xs @ sfor qid ys"
  by (induction qid xs rule: sfor.induct) auto

lemma sfor_not_Nil: "(k, qid, e) \<in> set l \<Longrightarrow> sfor qid l \<noteq> []"
  by (induction qid l rule: sfor.induct) auto

lemma sfor_split:
  assumes "sfor qid l = xs @ e # ys"
  obtains A B e0 where "l = A @ (ev_log_id e, qid, e0) # B" "sfor qid A = xs" "sfor qid B = ys"
  using assms
proof (induction l arbitrary: xs thesis)
  case Nil
  then show ?case by simp
next
  case (Cons x l)
  obtain k q e1 where x: "x = (k, q, e1)" by (cases x)
  show ?case
  proof (cases "q = qid \<and> xs = []")
    case True
    with Cons.prems x have "e = e1\<lparr>ev_log_id := k\<rparr>" and "sfor qid l = ys" by auto
    with Cons.prems(1) [of "[]" e1 l] x True show ?thesis by simp
  next
    case False
    define xs' where "xs' = (if q = qid then tl xs else xs)"
    have "sfor qid l = xs' @ e # ys" and xs: "xs = (if q = qid then [e1\<lparr>ev_log_id := k\<rparr>] else []) @ xs'"
      using Cons.prems(2) False x by (cases xs; auto simp: xs'_def)+
    from Cons.IH [OF _ this(1)] obtain A B e0 where
      "l = A @ (ev_log_id e, qid, e0) # B" "sfor qid A = xs'" "sfor qid B = ys" by blast
    with Cons.prems(1) [of "x # A" e0 B] x xs show ?thesis by simp
  qed
qed

lemma store_put_fresh: "\<forall>k' \<in> set (map fst xs). k' < k \<Longrightarrow> store_put k v xs = xs @ [(k, v)]"
  by (induction k v xs rule: store_put.induct) auto

lemma store_put_replace:
  "\<forall>k' \<in> set (map fst A). k' < k \<Longrightarrow> store_put k v (A @ (k, w) # B) = A @ (k, v) # B"
  by (induction A) auto

lemma sorted_split_keys:
  assumes "sorted_wrt (<) (map fst (A @ (k :: nat, v) # B))"
  shows "\<forall>k' \<in> set (map fst A). k' < k" and "\<forall>k' \<in> set (map fst B). k < k'"
    and "filter (\<lambda>(k', v). k' \<noteq> k) (A @ (k, v) # B) = A @ B"
proof -
  show A: "\<forall>k' \<in> set (map fst A). k' < k" and B: "\<forall>k' \<in> set (map fst B). k < k'"
    using assms by (auto simp: sorted_wrt_append)
  have "filter (\<lambda>(k', v). k' \<noteq> k) A = A" and "filter (\<lambda>(k', v). k' \<noteq> k) B = B"
    using A B by (fastforce simp: filter_id_conv)+
  then show "filter (\<lambda>(k', v). k' \<noteq> k) (A @ (k, v) # B) = A @ B" by simp
qed

lemma storage_push_new:
  assumes "storage_wf s" and "ev_log_id e = 0" and "storage_push qid e s = (k, s')"
  shows "k = next_log_event_id s \<and> 0 < k \<and> storage_wf s' \<and>
    (\<forall>o'. sfor o' (stored s') = sfor o' (stored s) @ (if o' = qid then [e\<lparr>ev_log_id := k\<rparr>] else []))"
proof -
  have fresh: "store_put (next_log_event_id s) (qid, e) (stored s) = stored s @ [(next_log_event_id s, qid, e)]"
    using assms(1) by (intro store_put_fresh) (auto simp: storage_wf_def)
  from assms(2,3) have "k = next_log_event_id s"
    and s': "s' = s\<lparr>next_log_event_id := next_log_event_id s + 1,
      stored := stored s @ [(next_log_event_id s, qid, e)]\<rparr>"
    by (auto simp: storage_push_def fresh)
  with assms(1) show ?thesis
    by (auto simp: storage_wf_def sorted_wrt_append less_Suc_eq)
qed

lemma storage_push_rewrite:
  assumes "storage_wf s" and "sfor qid (stored s) = xs @ e # ys"
    and "ev_log_id e' = ev_log_id e" and "ev_log_id e \<noteq> 0"
  shows "storage_wf (snd (storage_push qid e' s)) \<and>
    sfor qid (stored (snd (storage_push qid e' s))) = xs @ e' # ys \<and>
    (\<forall>o'. o' \<noteq> qid \<longrightarrow> sfor o' (stored (snd (storage_push qid e' s))) = sfor o' (stored s))"
proof -
  from sfor_split [OF assms(2)] obtain A B e0 where
    l: "stored s = A @ (ev_log_id e, qid, e0) # B" "sfor qid A = xs" "sfor qid B = ys" by blast
  have sorted: "sorted_wrt (<) (map fst (A @ (ev_log_id e, qid, e0) # B))"
    using assms(1) l(1) by (simp add: storage_wf_def)
  have "snd (storage_push qid e' s) = s\<lparr>stored := A @ (ev_log_id e, qid, e') # B\<rparr>"
    using assms(3,4) l(1) store_put_replace [OF sorted_split_keys(1) [OF sorted]]
    by (simp add: storage_push_def)
  moreover have "e'\<lparr>ev_log_id := ev_log_id e\<rparr> = e'" using assms(3) by (cases e') simp
  ultimately show ?thesis using assms(1) l by (auto simp: storage_wf_def)
qed

lemma storage_pop_one:
  assumes "storage_wf s" and "sfor qid (stored s) = xs @ e # ys"
  shows "storage_wf (storage_pop (ev_log_id e) s) \<and>
    sfor qid (stored (storage_pop (ev_log_id e) s)) = xs @ ys \<and>
    (\<forall>o'. o' \<noteq> qid \<longrightarrow> sfor o' (stored (storage_pop (ev_log_id e) s)) = sfor o' (stored s))"
proof -
  from sfor_split [OF assms(2)] obtain A B e0 where
    l: "stored s = A @ (ev_log_id e, qid, e0) # B" "sfor qid A = xs" "sfor qid B = ys" by blast
  have sorted: "sorted_wrt (<) (map fst (A @ (ev_log_id e, qid, e0) # B))"
    using assms(1) l(1) by (simp add: storage_wf_def)
  have "stored (storage_pop (ev_log_id e) s) = A @ B"
    using l(1) sorted_split_keys(3) [OF sorted] by (simp add: storage_pop_def)
  with assms(1) l show ?thesis
    by (auto simp: storage_wf_def sorted_wrt_append storage_pop_def)
qed

subsection \<open>A queue and its mirror\<close>

definition mirrors :: "int \<Rightarrow> raw_event list \<Rightarrow> storage option \<Rightarrow> bool" where
  "mirrors qid es cb \<longleftrightarrow>
     (case cb of None \<Rightarrow> True
      | Some s \<Rightarrow> storage_wf s \<and> sfor qid (stored s) = es \<and> (\<forall>e \<in> set es. ev_log_id e \<noteq> 0))"

definition same_others :: "int \<Rightarrow> storage option \<Rightarrow> storage option \<Rightarrow> bool" where
  "same_others qid cb cb' \<longleftrightarrow>
     (case cb of None \<Rightarrow> cb' = None
      | Some s \<Rightarrow> (\<exists>s'. cb' = Some s' \<and> (\<forall>o'. o' \<noteq> qid \<longrightarrow> sfor o' (stored s') = sfor o' (stored s))))"

lemma same_others_refl [simp]: "same_others qid cb cb"
  by (simp add: same_others_def split: option.splits)

lemma same_others_trans:
  "same_others qid a b \<Longrightarrow> same_others qid b c \<Longrightarrow> same_others qid a c"
  by (auto simp: same_others_def split: option.splits)

lemma same_others_None: "same_others qid a b \<Longrightarrow> a = None \<longleftrightarrow> b = None"
  by (auto simp: same_others_def split: option.splits)

lemma pop_mirrors:
  assumes "mirrors qid (xs @ e # ys) cb" and "pop qid tail e cb len = (r, cb', len')"
  shows "mirrors qid (xs @ opt_list r @ ys) cb' \<and> same_others qid cb cb'"
proof (cases cb)
  case None
  with assms(2) show ?thesis by (auto simp: pop_def mirrors_def)
next
  case (Some s)
  with assms(1) have s: "storage_wf s" "sfor qid (stored s) = xs @ e # ys" "ev_log_id e \<noteq> 0"
    "\<forall>e' \<in> set (xs @ ys). ev_log_id e' \<noteq> 0"
    by (auto simp: mirrors_def)
  consider (empty) "ev_id e + 1 = tail" "ev_data e = []" | (rewrite) "ev_id e + 1 = tail" "ev_data e \<noteq> []"
    | (erase) "ev_id e + 1 \<noteq> tail" by blast
  then show ?thesis
  proof cases
    case empty
    with assms s Some show ?thesis by (auto simp: pop_def)
  next
    case rewrite
    let ?e' = "e\<lparr>ev_data := []\<rparr>"
    note push = storage_push_rewrite [OF s(1,2), of ?e']
    from rewrite assms(2) s(3) Some have "r = Some ?e'" "cb' = Some (snd (storage_push qid ?e' s))"
      by (auto simp: pop_def Let_def)
    with push s Some show ?thesis by (auto simp: mirrors_def same_others_def)
  next
    case erase
    from erase assms(2) s(3) Some have "r = None" "cb' = Some (storage_pop (ev_log_id e) s)"
      by (auto simp: pop_def)
    with storage_pop_one [OF s(1,2)] s Some show ?thesis by (auto simp: mirrors_def same_others_def)
  qed
qed

lemma pop_result:
  assumes "pop qid tail e cb len = (r, cb', len')"
  shows "(\<forall>e'. r = Some e' \<longrightarrow> e' = e\<lparr>ev_data := []\<rparr> \<and> ev_id e + 1 = tail \<and> ev_log_id e \<noteq> 0) \<and>
    len' = len - length (ev_data e) \<and> (cb \<noteq> None \<and> ev_log_id e \<noteq> 0 \<and> ev_id e + 1 = tail \<longrightarrow> r \<noteq> None)"
  using assms by (cases e) (auto simp: pop_def Let_def split: option.splits if_splits)

subsection \<open>Removing events\<close>

inductive pops ::
  "int \<Rightarrow> int \<Rightarrow> raw_event list \<Rightarrow> storage option \<Rightarrow> nat \<Rightarrow> raw_event list \<Rightarrow> storage option \<Rightarrow> nat \<Rightarrow> bool"
  for qid tail
where
  stop: "pops qid tail es cb len es cb len"
| keep: "pops qid tail es cb len es' cb' len' \<Longrightarrow> pops qid tail (e # es) cb len (e # es') cb' len'"
| drop: "pop qid tail e cb len = (r, cb1, len1) \<Longrightarrow> pops qid tail es cb1 len1 es' cb' len' \<Longrightarrow>
    pops qid tail (e # es) cb len (opt_list r @ es') cb' len'"

lemma pops_prefix: "pops qid tail es cb len es' cb' len' \<Longrightarrow> pops qid tail (xs @ es) cb len (xs @ es') cb' len'"
  by (induction xs) (auto intro: pops.keep)

lemma pop_while_pops:
  "pop_while P qid tail es cb len = (es', cb', len') \<Longrightarrow> pops qid tail es cb len es' cb' len'"
  by (induction P qid tail es cb len arbitrary: es' cb' len' rule: pop_while.induct)
    (auto intro: pops.intros split: if_splits prod.splits)

lemma get_loop_pops:
  "get_loop now room qid tail es cb len = (out, es', cb', len') \<Longrightarrow> pops qid tail es cb len es' cb' len'"
  by (induction now room qid tail es cb len arbitrary: out es' cb' len' rule: get_loop.induct)
    (auto intro: pops.intros split: if_splits prod.splits)

lemma gc_loop_pops:
  "gc_loop tick now qid tail es cb len c g = (es', cb', len', c', g') \<Longrightarrow> pops qid tail es cb len es' cb' len'"
  by (induction tick now qid tail es cb len c g arbitrary: es' cb' len' c' g' rule: gc_loop.induct)
    (auto simp: Let_def intro: pops.intros split: if_splits prod.splits)

lemma pops_mirrors:
  assumes "pops qid tail es cb len es' cb' len'" and "mirrors qid (xs @ es) cb"
  shows "mirrors qid (xs @ es') cb' \<and> same_others qid cb cb'"
  using assms
proof (induction arbitrary: xs rule: pops.induct)
  case (keep es cb len es' cb' len' e)
  from keep.IH [of "xs @ [e]"] keep.prems show ?case by simp
next
  case (drop e cb len r cb1 len1 es es' cb' len')
  from pop_mirrors [OF drop.prems drop.hyps(1)]
  have m: "mirrors qid ((xs @ opt_list r) @ es) cb1" and so: "same_others qid cb cb1" by simp_all
  from drop.IH [OF m] so show ?case by (auto intro: same_others_trans)
qed simp

text \<open>Elementwise invariant of the events of a queue; \<open>per\<close>: the queue has a storage.\<close>

definition event_inv :: "bool \<Rightarrow> int \<Rightarrow> raw_event \<Rightarrow> bool" where
  "event_inv per tail e \<longleftrightarrow>
     0 < ev_id e \<and> ev_id e < tail \<and> 0 < ev_expires_at e \<and> length (ev_data e) \<le> max_event_length \<and>
     (per \<longrightarrow> ev_log_id e \<noteq> 0) \<and> (ev_data e = [] \<longrightarrow> ev_id e + 1 = tail)"

definition events_inv :: "bool \<Rightarrow> int \<Rightarrow> raw_event list \<Rightarrow> bool" where
  "events_inv per tail es \<longleftrightarrow>
     sorted_wrt (<) (map ev_id es) \<and> (\<forall>e \<in> set es. event_inv per tail e) \<and>
     (per \<and> es \<noteq> [] \<longrightarrow> (\<exists>e \<in> set es. ev_id e + 1 = tail))"

lemma data_length_simps [simp]:
  "data_length [] = 0" "data_length (e # es) = length (ev_data e) + data_length es"
  "data_length (xs @ ys) = data_length xs + data_length ys"
  by (simp_all add: data_length_def)

lemma pops_events:
  assumes "pops qid tail es cb len es' cb' len'"
  shows "(\<forall>e' \<in> set es'. \<exists>e \<in> set es. e' = e \<or> e' = e\<lparr>ev_data := []\<rparr> \<and> ev_id e + 1 = tail) \<and>
    length es' \<le> length es \<and> data_length es' \<le> data_length es"
  using assms
proof (induction rule: pops.induct)
  case (drop e cb len r cb1 len1 es es' cb' len')
  from pop_result [OF drop.hyps(1)] drop.IH show ?case
    by (cases r) (auto simp: le_SucI)
qed auto

lemma pops_length:
  assumes "pops qid tail es cb len es' cb' len'"
  shows "data_length es \<le> len \<Longrightarrow> len' + data_length es = len + data_length es'"
  using assms
proof (induction rule: pops.induct)
  case (keep es cb len es' cb' len' e)
  then show ?case by simp
next
  case (drop e cb len r cb1 len1 es es' cb' len')
  from pop_result [OF drop.hyps(1)] have len1: "len1 = len - length (ev_data e)"
    and r: "data_length (opt_list r) = 0" by (cases r; auto)+
  from drop.IH drop.prems len1 have "len' + data_length es = len1 + data_length es'" by simp
  with drop.prems len1 r show ?case by simp
qed simp

lemma pops_sorted:
  assumes "pops qid tail es cb len es' cb' len'"
  shows "sorted_wrt (<) (map ev_id es) \<Longrightarrow> sorted_wrt (<) (map ev_id es')"
  using assms
proof (induction rule: pops.induct)
  case (keep es cb len es' cb' len' e)
  then show ?case using pops_events [OF keep.hyps] by fastforce
next
  case (drop e cb len r cb1 len1 es es' cb' len')
  then show ?case using pops_events [OF drop.hyps(2)] pop_result [OF drop.hyps(1)]
    by (cases r) fastforce+
qed

lemma pops_keep_tail:
  assumes "pops qid tail es cb len es' cb' len'" and "cb \<noteq> None"
    and "\<forall>e \<in> set es. ev_log_id e \<noteq> 0" and "\<exists>e \<in> set es. ev_id e + 1 = tail"
  shows "\<exists>e \<in> set es'. ev_id e + 1 = tail"
  using assms
proof (induction rule: pops.induct)
  case (drop e cb len r cb1 len1 es es' cb' len')
  show ?case
  proof (cases "ev_id e + 1 = tail")
    case True
    with pop_result [OF drop.hyps(1)] drop.prems show ?thesis by fastforce
  next
    case False
    have "cb1 \<noteq> None"
      using drop.hyps(1) drop.prems(1) by (auto simp: pop_def Let_def split: option.splits if_splits)
    with False drop show ?thesis by auto
  qed
qed auto

lemma pops_events_inv:
  assumes "pops qid tail es cb len es' cb' len'" and "events_inv (cb \<noteq> None) tail es"
  shows "events_inv (cb \<noteq> None) tail es'"
proof -
  have "event_inv (cb \<noteq> None) tail e'" if "e' \<in> set es'" for e'
    using that pops_events [OF assms(1)] assms(2) by (fastforce simp: events_inv_def event_inv_def)
  moreover have "\<exists>e \<in> set es'. ev_id e + 1 = tail" if "cb \<noteq> None" "es' \<noteq> []"
  proof -
    have "es \<noteq> []" using that(2) pops_events [OF assms(1)] by auto
    with that assms pops_keep_tail [OF assms(1)] show ?thesis
      by (auto simp: events_inv_def event_inv_def)
  qed
  ultimately show ?thesis
    using assms(2) pops_sorted [OF assms(1)] by (auto simp: events_inv_def)
qed

subsection \<open>The invariant\<close>

definition queue_inv :: "bool \<Rightarrow> queue \<Rightarrow> bool" where
  "queue_inv per q \<longleftrightarrow>
     is_valid_id (tail_id q) \<and> events_inv per (tail_id q) (events q) \<and>
     total_event_length q = data_length (events q) \<and>
     total_event_length q \<le> max_total_event_length \<and> length (events q) \<le> max_queue_events \<and>
     ((\<exists>e \<in> set (events q). ev_data e \<noteq> []) \<longrightarrow> gc_at q \<noteq> 0)"

definition gc_inv :: "(int \<rightharpoonup> queue) \<Rightarrow> (int \<times> int) list \<Rightarrow> bool" where
  "gc_inv qs gcs \<longleftrightarrow> sorted gcs \<and> distinct gcs \<and>
     (\<forall>g qid. (g, qid) \<in> set gcs \<longleftrightarrow> g \<noteq> 0 \<and> (\<exists>q. qs qid = Some q \<and> gc_at q = g))"

definition tq_inv :: "tqueue \<Rightarrow> bool" where
  "tq_inv t \<longleftrightarrow>
     (\<forall>qid q. queues t qid = Some q \<longrightarrow> qid \<noteq> 0 \<and> queue_inv (callback t \<noteq> None) q) \<and>
     (\<forall>qid. mirrors qid (events (queue_of t qid)) (callback t)) \<and>
     gc_inv (queues t) (queue_gc_at t)"

text \<open>The events a client can still receive.\<close>

definition live :: "raw_event list \<Rightarrow> raw_event list" where
  "live es = filter (\<lambda>e. ev_data e \<noteq> []) es"

lemma events_new_queue [simp]: "events new_queue = []" "tail_id new_queue = 0"
  "total_event_length new_queue = 0" "gc_at new_queue = 0"
  by (simp_all add: new_queue_def)

lemma queue_inv_new: "queue_inv per new_queue"
  by (simp add: queue_inv_def events_inv_def is_valid_id_def max_id_def)

lemma queue_inv_queue_of: "tq_inv t \<Longrightarrow> queue_inv (callback t \<noteq> None) (queue_of t qid)"
  by (cases "queues t qid") (auto simp: tq_inv_def queue_of_def queue_inv_new)

lemma tq_inv_new: "tq_inv new_tqueue"
  by (simp add: tq_inv_def new_tqueue_def mirrors_def gc_inv_def)

lemma gc_inv_same:
  assumes "gc_inv qs gcs" and "gc_at q' = (case qs qid of None \<Rightarrow> 0 | Some q \<Rightarrow> gc_at q)"
  shows "gc_inv (qs(qid \<mapsto> q')) gcs"
  using assms by (auto simp: gc_inv_def split: option.splits if_splits)

lemma gc_inv_schedule:
  assumes inv: "gc_inv qs gcs" and same: "gc_at q = (case qs qid of None \<Rightarrow> 0 | Some q0 \<Rightarrow> gc_at q0)"
    and sched: "schedule_queue_gc qid q g gcs = (q2, gcs2)" and "gc_at q3 = g"
  shows "gc_inv (qs(qid \<mapsto> q3)) gcs2"
proof -
  define gcs1 where "gcs1 = (if gc_at q \<noteq> 0 then remove1 (gc_at q, qid) gcs else gcs)"
  have s1: "sorted gcs1" "distinct gcs1"
    using inv by (simp_all add: gcs1_def gc_inv_def sorted_remove1 distinct_remove1)
  have m1: "(g', qid') \<in> set gcs1 \<longleftrightarrow> (g', qid') \<in> set gcs \<and> qid' \<noteq> qid" for g' qid'
    using inv same by (auto simp: gcs1_def gc_inv_def split: option.splits)
  have gcs2: "gcs2 = (if g \<noteq> 0 then insort (g, qid) gcs1 else gcs1)"
    using sched by (auto simp: schedule_queue_gc_def gcs1_def Let_def)
  have "sorted gcs2" "distinct gcs2"
    using s1 m1 [of g qid] by (auto simp: gcs2 sorted_insort distinct_insort)
  moreover have "(g', qid') \<in> set gcs2 \<longleftrightarrow>
      g' \<noteq> 0 \<and> (\<exists>q. (qs(qid \<mapsto> q3)) qid' = Some q \<and> gc_at q = g')" for g' qid'
    using inv m1 [of g' qid'] assms(4) by (auto simp: gcs2 gc_inv_def set_insort_key split: if_splits)
  ultimately show ?thesis by (simp add: gc_inv_def)
qed

lemma tq_inv_update:
  assumes "tq_inv t" and "qid \<noteq> 0" and "queue_inv (callback t \<noteq> None) q'"
    and "mirrors qid (events q') cb'" and "same_others qid (callback t) cb'"
    and "gc_inv ((queues t)(qid \<mapsto> q')) gcs'"
  shows "tq_inv (t\<lparr>queues := (queues t)(qid \<mapsto> q'), queue_gc_at := gcs', callback := cb'\<rparr>)"
proof -
  have none: "callback t = None \<longleftrightarrow> cb' = None" by (rule same_others_None [OF assms(5)])
  have wf: "storage_wf s'" if "cb' = Some s'" for s' using assms(4) that by (simp add: mirrors_def)
  have "mirrors o' (events (case ((queues t)(qid \<mapsto> q')) o' of None \<Rightarrow> new_queue | Some q \<Rightarrow> q)) cb'" for o'
  proof (cases "o' = qid")
    case True
    then show ?thesis using assms(4) by simp
  next
    case False
    have "mirrors o' (events (queue_of t o')) (callback t)" using assms(1) by (simp add: tq_inv_def)
    then show ?thesis using False assms(5) wf
      by (auto simp: mirrors_def same_others_def queue_of_def split: option.splits)
  qed
  then show ?thesis using assms none by (auto simp: tq_inv_def queue_of_def)
qed

lemma tq_inv_set_queue:
  assumes "tq_inv t" and "qid \<noteq> 0" and "queue_inv (callback t \<noteq> None) q'"
    and "mirrors qid (events q') cb'" and "same_others qid (callback t) cb'"
    and "gc_at q' = gc_at (queue_of t qid)"
  shows "tq_inv ((set_queue qid q' t)\<lparr>callback := cb'\<rparr>)"
proof -
  have "gc_inv ((queues t)(qid \<mapsto> q')) (queue_gc_at t)"
    using assms(1,6) by (intro gc_inv_same) (auto simp: tq_inv_def queue_of_def split: option.splits)
  from tq_inv_update [OF assms(1-5) this] show ?thesis by (simp add: set_queue_def)
qed

lemma mirrors_queue_of: "tq_inv t \<Longrightarrow> mirrors qid (events (queue_of t qid)) (callback t)"
  by (simp add: tq_inv_def)

lemma pops_queue_inv:
  assumes "queue_inv (cb \<noteq> None) q"
    and pops: "pops qid (tail_id q) (events q) cb (total_event_length q) es' cb' len'"
  shows "queue_inv (cb \<noteq> None) (q\<lparr>events := es', total_event_length := len'\<rparr>)"
proof -
  have "len' = data_length es'"
    using pops_length [OF pops] assms(1) by (simp add: queue_inv_def)
  moreover have "events_inv (cb \<noteq> None) (tail_id q) es'"
    using pops_events_inv [OF pops] assms(1) by (simp add: queue_inv_def)
  moreover have "\<exists>e \<in> set (events q). ev_data e \<noteq> []" if "\<exists>e \<in> set es'. ev_data e \<noteq> []"
    using that pops_events [OF pops] by fastforce
  ultimately show ?thesis
    using assms(1) pops_events [OF pops] by (auto simp: queue_inv_def)
qed

text \<open>The rule for an operation that removes events of one queue.\<close>

lemma tq_inv_pops:
  assumes "tq_inv t" and "queues t qid = Some q"
    and pops: "pops qid (tail_id q) (events q) (callback t) (total_event_length q) es' cb' len'"
  shows "tq_inv ((set_queue qid (q\<lparr>events := es', total_event_length := len'\<rparr>) t)\<lparr>callback := cb'\<rparr>)"
proof -
  have q: "queue_of t qid = q" and "qid \<noteq> 0" using assms(1,2) by (auto simp: queue_of_def tq_inv_def)
  moreover have "queue_inv (callback t \<noteq> None) (q\<lparr>events := es', total_event_length := len'\<rparr>)"
    using queue_inv_queue_of [OF assms(1), of qid] pops by (intro pops_queue_inv) (simp_all add: q)
  moreover have "mirrors qid es' cb' \<and> same_others qid (callback t) cb'"
    using pops_mirrors [OF pops, of "[]"] mirrors_queue_of [OF assms(1), of qid] q by simp
  ultimately show ?thesis by (intro tq_inv_set_queue [OF assms(1)]) auto
qed

lemma set_queue_twice:
  "(set_queue qid q2 ((set_queue qid q1 t)\<lparr>callback := c1\<rparr>))\<lparr>callback := c2\<rparr> =
   (set_queue qid q2 t)\<lparr>callback := c2\<rparr>"
  by (simp add: set_queue_def)

lemma queues_set_queue [simp]:
  "queues (set_queue qid q t) = (queues t)(qid \<mapsto> q)" "callback (set_queue qid q t) = callback t"
  "queue_gc_at (set_queue qid q t) = queue_gc_at t"
  by (simp_all add: set_queue_def)

lemma queue_of_set_queue [simp]:
  "queue_of (set_queue qid q t) qid' = (if qid' = qid then q else queue_of t qid')"
  "queue_of (t\<lparr>callback := cb\<rparr>) qid' = queue_of t qid'"
  "queue_of (t\<lparr>queue_gc_at := gcs\<rparr>) qid' = queue_of t qid'"
  "queue_of (t\<lparr>queues := (queues t)(qid \<mapsto> q)\<rparr>) qid' = (if qid' = qid then q else queue_of t qid')"
  by (simp_all add: queue_of_def)

subsection \<open>Reading and forgetting keep the invariant\<close>

lemma do_get_unfold:
  assumes "do_get qid q from fp now limit cb = (out, q', cb')"
  obtains es1 cb1 len1 es2 len2 where
    "pops qid (tail_id q) (events q) cb (total_event_length q) es1 cb1 len1"
    "es1 = (if fp then fst (pop_while (\<lambda>e. ev_id e < from) qid (tail_id q) (events q) cb (total_event_length q))
            else events q)"
    "get_loop now limit qid (tail_id q) (dropWhile (\<lambda>e. ev_id e < from) es1) cb1 len1 = (out, es2, cb', len2)"
    "q' = q\<lparr>events := takeWhile (\<lambda>e. ev_id e < from) es1 @ es2, total_event_length := len2\<rparr>"
proof -
  define first where "first = (if fp
     then pop_while (\<lambda>e. ev_id e < from) qid (tail_id q) (events q) cb (total_event_length q)
     else (events q, cb, total_event_length q))"
  obtain es1 cb1 len1 where f: "first = (es1, cb1, len1)" by (cases first)
  obtain out' es2 cb2 len2 where
    g: "get_loop now limit qid (tail_id q) (dropWhile (\<lambda>e. ev_id e < from) es1) cb1 len1 = (out', es2, cb2, len2)"
    by (cases "get_loop now limit qid (tail_id q) (dropWhile (\<lambda>e. ev_id e < from) es1) cb1 len1")
  have "pops qid (tail_id q) (events q) cb (total_event_length q) es1 cb1 len1"
    using f by (auto simp: first_def pops.stop intro: pop_while_pops split: if_splits)
  moreover have "es1 = (if fp then fst (pop_while (\<lambda>e. ev_id e < from) qid (tail_id q) (events q) cb (total_event_length q))
            else events q)"
    using f by (auto simp: first_def split: if_splits)
  moreover have "out' = out" "cb2 = cb'"
      "q' = q\<lparr>events := takeWhile (\<lambda>e. ev_id e < from) es1 @ es2, total_event_length := len2\<rparr>"
    using assms f g unfolding do_get_def first_def [symmetric] by (auto simp: Let_def)
  ultimately show ?thesis using that g by blast
qed

lemma do_get_tq_inv:
  assumes "tq_inv t" and "queues t qid = Some q"
    and "do_get qid q from fp now limit (callback t) = (out, q', cb')"
  shows "tq_inv ((set_queue qid q' t)\<lparr>callback := cb'\<rparr>)"
proof -
  from do_get_unfold [OF assms(3)] obtain es1 cb1 len1 es2 len2 where
    p1: "pops qid (tail_id q) (events q) (callback t) (total_event_length q) es1 cb1 len1" and
    g: "get_loop now limit qid (tail_id q) (dropWhile (\<lambda>e. ev_id e < from) es1) cb1 len1 = (out, es2, cb', len2)" and
    q': "q' = q\<lparr>events := takeWhile (\<lambda>e. ev_id e < from) es1 @ es2, total_event_length := len2\<rparr>" .
  define q1 where "q1 = q\<lparr>events := es1, total_event_length := len1\<rparr>"
  define t1 where "t1 = (set_queue qid q1 t)\<lparr>callback := cb1\<rparr>"
  have t1: "tq_inv t1" unfolding t1_def q1_def by (rule tq_inv_pops [OF assms(1,2) p1])
  have "pops qid (tail_id q) es1 cb1 len1 (takeWhile (\<lambda>e. ev_id e < from) es1 @ es2) cb' len2"
    using pops_prefix [OF get_loop_pops [OF g], of "takeWhile (\<lambda>e. ev_id e < from) es1"] by simp
  then have "tq_inv ((set_queue qid (q1\<lparr>events := takeWhile (\<lambda>e. ev_id e < from) es1 @ es2,
      total_event_length := len2\<rparr>) t1)\<lparr>callback := cb'\<rparr>)"
    by (intro tq_inv_pops [OF t1]) (simp_all add: t1_def q1_def)
  then show ?thesis by (simp add: t1_def q1_def q' set_queue_twice)
qed

lemma get_events_inv: "tq_inv t \<Longrightarrow> tq_inv (snd (get_events qid from fp now limit t))"
  by (auto simp: get_events_def do_get_tq_inv split: option.splits prod.splits)

lemma forget_inv:
  assumes "tq_inv t"
  shows "tq_inv (forget qid i t)"
proof (cases "queues t qid")
  case None
  then show ?thesis using assms by (simp add: forget_def)
next
  case (Some q)
  show ?thesis
  proof (cases "dropWhile (\<lambda>e. ev_id e \<noteq> i) (events q)")
    case Nil
    then show ?thesis using assms Some by (simp add: forget_def Let_def del: dropWhile_eq_Nil_conv)
  next
    case (Cons e after)
    let ?before = "takeWhile (\<lambda>e. ev_id e \<noteq> i) (events q)"
    obtain r cb len where p: "pop qid (tail_id q) e (callback t) (total_event_length q) = (r, cb, len)"
      by (cases "pop qid (tail_id q) e (callback t) (total_event_length q)")
    have "pops qid (tail_id q) (?before @ e # after) (callback t) (total_event_length q)
        (?before @ opt_list r @ after) cb len"
      by (intro pops_prefix pops.drop [OF p] pops.stop)
    moreover have "?before @ e # after = events q" using Cons by (metis takeWhile_dropWhile_id)
    ultimately show ?thesis
      using tq_inv_pops [OF assms Some] Cons p Some by (simp add: forget_def Let_def)
  qed
qed

end
