(* ===== verification/TQueue_Ops.thy ===== *)
theory TQueue_Ops
  imports TQueue_Inv
begin

section \<open>Adding, clearing and collecting events\<close>

text \<open>
  The operations of \<open>TQueue\<close> that add events (\<open>do_push\<close>, \<open>push\<close>), drop a prefix of
  a queue (\<open>clear\<close>) and collect expired events (\<open>run_gc\<close>): they keep the invariant, and
  their effect is described on the events a client can still receive (\<open>live\<close>).
\<close>

subsection \<open>Adding events\<close>

lemma last_empty_live:
  assumes "events_inv per tail es"
  shows "(if es \<noteq> [] \<and> ev_data (last es) = [] then butlast es else es) = live es"
proof (cases es rule: rev_cases)
  case (snoc xs x)
  have "ev_data e \<noteq> []" if "e \<in> set xs" for e
    using assms that by (fastforce simp: snoc events_inv_def event_inv_def sorted_wrt_append)
  then have "live xs = xs" by (simp add: live_def filter_id_conv)
  then show ?thesis by (simp add: snoc live_def)
qed (simp add: live_def)

lemma live_append [simp]: "live (xs @ ys) = live xs @ live ys"
  by (simp add: live_def)

lemma data_length_live [simp]: "data_length (live es) = data_length es"
  by (induction es) (auto simp: live_def)

lemma length_live_le: "length (live es) \<le> length es"
  by (simp add: live_def)

lemma live_live [simp]: "live (live es) = live es"
  by (simp add: live_def)

lemma events_inv_live_append:
  assumes "events_inv per tail es" and "event_inv per (ev_id e + 1) e" and "tail \<le> ev_id e"
  shows "events_inv per (ev_id e + 1) (live es @ [e])"
proof -
  have "sorted_wrt (<) (map ev_id (live es))"
    using assms(1) by (auto simp: events_inv_def live_def intro: sorted_wrt_filter sorted_wrt_map
        simp: sorted_wrt_map)
  moreover have "ev_id x < ev_id e \<and> event_inv per (ev_id e + 1) x" if "x \<in> set (live es)" for x
    using that assms by (auto simp: events_inv_def event_inv_def live_def)
  ultimately show ?thesis
    using assms(2) by (auto simp: events_inv_def sorted_wrt_append)
qed

text \<open>The precondition under which \<open>do_push\<close> accepts an event.\<close>

definition push_ok :: "int \<Rightarrow> raw_event \<Rightarrow> tqueue \<Rightarrow> bool" where
  "push_ok qid e t \<longleftrightarrow>
     qid \<noteq> 0 \<and> length (ev_data e) \<le> max_event_length \<and>
     length (events (queue_of t qid)) < max_queue_events \<and>
     total_event_length (queue_of t qid) \<le> max_total_event_length - length (ev_data e) \<and>
     0 < ev_expires_at e \<and> tail_id (queue_of t qid) \<le> ev_id e \<and> 0 < ev_id e \<and> is_valid_id (ev_id e + 1)"

lemma do_push_accepts: "fst (do_push qid e t) \<longleftrightarrow>
   length (ev_data e) \<le> max_event_length \<and> qid \<noteq> 0 \<and> length (events (queue_of t qid)) < max_queue_events \<and>
   total_event_length (queue_of t qid) \<le> max_total_event_length - length (ev_data e) \<and>
   0 < ev_expires_at e \<and> tail_id (queue_of t qid) \<le> ev_id e"
  by (auto simp: do_push_def Let_def split: prod.splits)

lemma do_push_others:
  "qid' \<noteq> qid \<Longrightarrow> queues (snd (do_push qid e t)) qid' = queues t qid'"
  by (auto simp: do_push_def Let_def set_queue_def split: prod.splits)

text \<open>The last, emptied event of a queue is dropped from the queue and from the storage.\<close>

definition drop_empty_last :: "queue \<Rightarrow> storage option \<Rightarrow> queue \<times> storage option" where
  "drop_empty_last q cb =
     (if events q \<noteq> [] \<and> ev_data (last (events q)) = []
      then (q\<lparr>events := butlast (events q)\<rparr>,
            case cb of
              None \<Rightarrow> None
            | Some s \<Rightarrow> if ev_log_id (last (events q)) \<noteq> 0
                        then Some (storage_pop (ev_log_id (last (events q))) s) else Some s)
      else (q, cb))"

lemma drop_empty_last_spec:
  assumes "events_inv (cb \<noteq> None) tail (events q)" and "mirrors qid (events q) cb"
    and "drop_empty_last q cb = (q1, cb1)"
  shows "q1 = q\<lparr>events := live (events q)\<rparr> \<and> mirrors qid (live (events q)) cb1 \<and> same_others qid cb cb1"
proof (cases "events q \<noteq> [] \<and> ev_data (last (events q)) = []")
  case False
  with assms last_empty_live [OF assms(1)] show ?thesis
    by (cases q) (auto simp: drop_empty_last_def split: if_splits)
next
  case True
  then have split: "events q = live (events q) @ last (events q) # []"
    using last_empty_live [OF assms(1)] by (metis append_butlast_last_id)
  have q1: "q1 = q\<lparr>events := live (events q)\<rparr>"
    using True assms(3) last_empty_live [OF assms(1)] by (simp add: drop_empty_last_def)
  show ?thesis
  proof (cases cb)
    case None
    with True assms(3) q1 show ?thesis by (simp add: drop_empty_last_def mirrors_def)
  next
    case (Some s)
    with assms(2) True have s: "storage_wf s" "sfor qid (stored s) = live (events q) @ last (events q) # []"
      "\<forall>e \<in> set (events q). ev_log_id e \<noteq> 0" using split by (simp_all add: mirrors_def)
    have "cb1 = Some (storage_pop (ev_log_id (last (events q))) s)"
      using True assms(3) Some s(3) by (auto simp: drop_empty_last_def)
    with storage_pop_one [OF s(1,2)] s(3) Some q1 show ?thesis
      by (auto simp: mirrors_def same_others_def live_def)
  qed
qed

text \<open>The record of a new event in the storage.\<close>

definition log_event :: "int \<Rightarrow> raw_event \<Rightarrow> storage option \<Rightarrow> raw_event \<times> storage option" where
  "log_event qid e cb =
     (case cb of
        None \<Rightarrow> (e, None)
      | Some s \<Rightarrow> if ev_log_id e = 0
                  then let (k, s') = storage_push qid e s in (e\<lparr>ev_log_id := k\<rparr>, Some s')
                  else (e, Some s))"

lemma log_event_spec:
  assumes "mirrors qid es cb" and "cb = None \<or> ev_log_id e = 0" and "log_event qid e cb = (e', cb')"
  shows "(\<exists>k. e' = e\<lparr>ev_log_id := k\<rparr> \<and> (cb \<noteq> None \<longrightarrow> k \<noteq> 0)) \<and> mirrors qid (es @ [e']) cb' \<and>
    same_others qid cb cb'"
proof (cases cb)
  case None
  with assms show ?thesis by (cases e) (auto simp: log_event_def mirrors_def)
next
  case (Some s)
  with assms have s: "storage_wf s" "sfor qid (stored s) = es" "\<forall>e \<in> set es. ev_log_id e \<noteq> 0" "ev_log_id e = 0"
    by (auto simp: mirrors_def)
  obtain k s' where p: "storage_push qid e s = (k, s')" by (cases "storage_push qid e s")
  from storage_push_new [OF s(1,4) p] s assms(3) Some p show ?thesis
    by (auto simp: log_event_def mirrors_def same_others_def)
qed

lemma do_push_eq:
  assumes "push_ok qid e t"
  shows "do_push qid e t =
    (let q = queue_of t qid;
         (q1, cb1) = drop_empty_last q (callback t);
         (q2, gcs) = (if events q1 = [] \<and> ev_data e \<noteq> []
                      then schedule_queue_gc qid q1 (ev_expires_at e) (queue_gc_at t)
                      else (q1, queue_gc_at t));
         (e', cb2) = log_event qid e cb1;
         q3 = q2\<lparr>tail_id := ev_id e + 1, total_event_length := total_event_length q2 + length (ev_data e'),
                  events := events q2 @ [e']\<rparr>
     in (True, t\<lparr>queues := (queues t)(qid \<mapsto> q3), queue_gc_at := gcs, callback := cb2\<rparr>))"
  using assms unfolding do_push_def push_ok_def drop_empty_last_def log_event_def by (simp add: Let_def)

lemma queue_inv_append:
  assumes "queue_inv per q" and "push_ok qid e t" and "queue_of t qid = q"
    and "per \<longrightarrow> k \<noteq> 0" and "gc = 0 \<Longrightarrow> ev_data e = [] \<and> live (events q) = []"
  shows "queue_inv per (q\<lparr>tail_id := ev_id e + 1, total_event_length := total_event_length q + length (ev_data e),
    events := live (events q) @ [e\<lparr>ev_log_id := k\<rparr>], gc_at := gc\<rparr>)"
proof -
  have "event_inv per (ev_id e + 1) (e\<lparr>ev_log_id := k\<rparr>)"
    using assms(2,4) by (auto simp: event_inv_def push_ok_def)
  then have "events_inv per (ev_id e + 1) (live (events q) @ [e\<lparr>ev_log_id := k\<rparr>])"
    using events_inv_live_append [of per "tail_id q" "events q" "e\<lparr>ev_log_id := k\<rparr>"] assms(1-3)
    by (simp add: queue_inv_def push_ok_def)
  moreover have "gc \<noteq> 0" if "x \<in> set (live (events q)) \<or> x = e" and "ev_data x \<noteq> []" for x
    using that assms(5) by auto
  ultimately show ?thesis
    using assms(1-3) length_live_le [of "events q"]
    by (auto simp: queue_inv_def push_ok_def max_total_event_length_def max_event_length_def)
qed

text \<open>The collection time of a queue after an event is added.\<close>

lemma push_gc_inv:
  assumes "gc_inv (queues t) (queue_gc_at t)" and "gc_at q1 = gc_at (queue_of t qid)"
    and "(if b then schedule_queue_gc qid q1 g (queue_gc_at t) else (q1, queue_gc_at t)) = (q2, gcs)"
    and "gc_at q3 = (if b then g else gc_at q1)"
  shows "gc_inv ((queues t)(qid \<mapsto> q3)) gcs"
proof -
  have same: "gc_at q1 = (case queues t qid of None \<Rightarrow> 0 | Some q0 \<Rightarrow> gc_at q0)"
    using assms(2) by (simp add: queue_of_def split: option.splits)
  show ?thesis
  proof (cases b)
    case True
    with assms show ?thesis by (intro gc_inv_schedule [OF assms(1) same]) auto
  next
    case False
    with assms same show ?thesis by (intro gc_inv_same) auto
  qed
qed

lemma do_push_spec:
  assumes inv: "tq_inv t" and ok: "push_ok qid e t" and log: "callback t = None \<or> ev_log_id e = 0"
  shows "\<exists>t' k. do_push qid e t = (True, t') \<and> tq_inv t' \<and>
    events (queue_of t' qid) = live (events (queue_of t qid)) @ [e\<lparr>ev_log_id := k\<rparr>] \<and>
    (callback t = None \<longrightarrow> k = ev_log_id e) \<and> (callback t' = None \<longleftrightarrow> callback t = None) \<and>
    tail_id (queue_of t' qid) = ev_id e + 1"
proof -
  define q where "q = queue_of t qid"
  have qi: "queue_inv (callback t \<noteq> None) q" unfolding q_def by (rule queue_inv_queue_of [OF inv])
  have m0: "mirrors qid (events q) (callback t)" unfolding q_def by (rule mirrors_queue_of [OF inv])
  obtain q1 cb1 where d: "drop_empty_last q (callback t) = (q1, cb1)" by (cases "drop_empty_last q (callback t)")
  from drop_empty_last_spec [OF _ m0 d, of "tail_id q"] qi
  have q1: "q1 = q\<lparr>events := live (events q)\<rparr>" and m1: "mirrors qid (live (events q)) cb1"
    and so1: "same_others qid (callback t) cb1" by (auto simp: queue_inv_def)
  note none1 = same_others_None [OF so1]
  define b where "b = (events q1 = [] \<and> ev_data e \<noteq> [])"
  obtain q2 gcs where g: "(if b then schedule_queue_gc qid q1 (ev_expires_at e) (queue_gc_at t)
      else (q1, queue_gc_at t)) = (q2, gcs)" by fastforce
  obtain e' cb2 where l: "log_event qid e cb1 = (e', cb2)" by fastforce
  have "cb1 = None \<or> ev_log_id e = 0" using log none1 by auto
  from log_event_spec [OF m1 this l] obtain k where e': "e' = e\<lparr>ev_log_id := k\<rparr>"
    and k: "cb1 \<noteq> None \<longrightarrow> k \<noteq> 0" and m2: "mirrors qid (live (events q) @ [e']) cb2"
    and so2: "same_others qid cb1 cb2" by blast
  have so: "same_others qid (callback t) cb2" using so1 so2 by (rule same_others_trans)
  define q3 where "q3 = q\<lparr>tail_id := ev_id e + 1,
    total_event_length := total_event_length q + length (ev_data e),
    events := live (events q) @ [e\<lparr>ev_log_id := k\<rparr>], gc_at := if b then ev_expires_at e else gc_at q\<rparr>"
  define t' where "t' = t\<lparr>queues := (queues t)(qid \<mapsto> q3), queue_gc_at := gcs, callback := cb2\<rparr>"
  have "q2 = q1\<lparr>gc_at := if b then ev_expires_at e else gc_at q\<rparr>"
    using g q1 by (cases q) (auto simp: schedule_queue_gc_def Let_def split: if_splits)
  then have "q2\<lparr>tail_id := ev_id e + 1, total_event_length := total_event_length q2 + length (ev_data e'),
      events := events q2 @ [e']\<rparr> = q3"
    by (simp add: q3_def q1 e')
  then have push: "do_push qid e t = (True, t')"
    unfolding do_push_eq [OF ok] q_def [symmetric] Let_def d prod.case b_def [symmetric] g l t'_def
    by simp
  have "ev_data e = [] \<and> live (events q) = []" if "(if b then ev_expires_at e else gc_at q) = 0"
    using that ok qi q1 by (auto simp: b_def push_ok_def queue_inv_def live_def filter_empty_conv split: if_splits)
  then have "queue_inv (callback t \<noteq> None) q3"
    unfolding q3_def using k none1 by (intro queue_inv_append [OF qi ok]) (auto simp: q_def)
  moreover have "gc_inv ((queues t)(qid \<mapsto> q3)) gcs"
    using inv g by (intro push_gc_inv [of t q1]) (auto simp: tq_inv_def q1 q_def q3_def)
  ultimately have "tq_inv t'"
    unfolding t'_def using ok m2 so by (intro tq_inv_update [OF inv]) (auto simp: push_ok_def q3_def e')
  moreover have "callback t = None \<longrightarrow> k = ev_log_id e"
    using l e' none1 by (cases e) (auto simp: log_event_def)
  moreover have "queue_of t' qid = q3" by (simp add: queue_of_def t'_def)
  ultimately show ?thesis
    using push same_others_None [OF so] by (auto simp: q3_def t'_def q_def)
qed

text \<open>When the identifiers are used up the queue is emptied: no event has identifier -1.\<close>

lemma pop_while_all:
  assumes "\<forall>e \<in> set es. 0 < ev_id e" and "pop_while (\<lambda>e. True) qid 0 es cb len = (es', cb', len')"
  shows "es' = []"
  using assms
proof (induction es arbitrary: cb len es' cb' len')
  case (Cons e es)
  obtain r cb1 len1 where p: "pop qid 0 e cb len = (r, cb1, len1)" by (cases "pop qid 0 e cb len")
  obtain es1 cb2 len2 where w: "pop_while (\<lambda>e. True) qid 0 es cb1 len1 = (es1, cb2, len2)"
    by (cases "pop_while (\<lambda>e. True) qid 0 es cb1 len1")
  have "r = None" using pop_result [OF p] Cons.prems(1) by (cases r) auto
  with Cons.IH [OF _ w] Cons.prems p w show ?case by simp
qed simp

lemma queue_inv_tail_zero:
  assumes "queue_inv per q" and "tail_id q = 0"
  shows "events q = []"
proof (rule ccontr)
  assume "events q \<noteq> []"
  then obtain e where "e \<in> set (events q)" by (cases "events q") auto
  with assms show False by (auto simp: queue_inv_def events_inv_def event_inv_def)
qed

definition hint_ok :: "int \<Rightarrow> int \<Rightarrow> bool" where
  "hint_ok hint rnd \<longleftrightarrow> is_valid_id hint \<and> is_valid_id (hint + 1) \<and> 0 < rnd \<and> is_valid_id (rnd + 1)"

lemma is_ok_next: "is_ok (event_id_next i) \<longleftrightarrow> is_valid_id (i + 1)"
  by (simp add: event_id_next_def event_id_from_int32_def is_ok_def)

lemma pick_tail_zero: "hint_ok hint rnd \<Longrightarrow> 0 < pick_tail hint rnd 0 \<and> is_valid_id (pick_tail hint rnd 0 + 1)"
  by (auto simp: pick_tail_def hint_ok_def event_id_empty_def is_valid_id_def)

lemma pick_tail_inv:
  assumes "queue_inv per q" and "hint_ok hint rnd"
  shows "0 < pick_tail hint rnd (tail_id q)" "tail_id q \<noteq> 0 \<Longrightarrow> pick_tail hint rnd (tail_id q) = tail_id q"
    "tail_id q \<le> pick_tail hint rnd (tail_id q)"
  using assms pick_tail_zero [OF assms(2)]
  by (auto simp: pick_tail_def event_id_empty_def queue_inv_def is_valid_id_def split: if_splits)

lemma queue_inv_pick_tail:
  assumes "queue_inv per q" and "hint_ok hint rnd" and "is_valid_id (pick_tail hint rnd (tail_id q) + 1)"
  shows "queue_inv per (q\<lparr>tail_id := pick_tail hint rnd (tail_id q)\<rparr>)"
proof (cases "tail_id q = 0")
  case True
  with queue_inv_tail_zero [OF assms(1)] pick_tail_inv(1) [OF assms(1,2)] assms show ?thesis
    by (auto simp: queue_inv_def events_inv_def is_valid_id_def)
next
  case False
  then have "q\<lparr>tail_id := pick_tail hint rnd (tail_id q)\<rparr> = q"
    using pick_tail_inv(2) [OF assms(1,2)] by simp
  with assms(1) show ?thesis by simp
qed

text \<open>The event \<open>push\<close> builds.\<close>

definition fresh_event :: "int \<Rightarrow> int \<Rightarrow> string \<Rightarrow> int \<Rightarrow> raw_event" where
  "fresh_event i expires dat extra =
     \<lparr>ev_log_id = 0, ev_id = i, ev_expires_at = expires, ev_data = dat, ev_extra = extra\<rparr>"

definition push_accepts :: "int \<Rightarrow> string \<Rightarrow> int \<Rightarrow> tqueue \<Rightarrow> bool" where
  "push_accepts qid dat expires t \<longleftrightarrow>
     dat \<noteq> [] \<and> length dat \<le> max_event_length \<and> qid \<noteq> 0 \<and> 0 < expires \<and>
     length (events (queue_of t qid)) < max_queue_events \<and>
     total_event_length (queue_of t qid) \<le> max_total_event_length - length dat"

text \<open>The state in which \<open>push\<close> calls \<open>do_push\<close>, and the identifier of the new event.\<close>

definition push_prepare :: "int \<Rightarrow> int \<Rightarrow> int \<Rightarrow> tqueue \<Rightarrow> int \<times> tqueue" where
  "push_prepare rnd qid hint t =
     (let q = queue_of t qid; id1 = pick_tail hint rnd (tail_id q)
      in if is_ok (event_id_next id1) then (id1, set_queue qid (q\<lparr>tail_id := id1\<rparr>) t)
         else
           let (es, cb, len) = pop_while (\<lambda>e. True) qid 0 (events q) (callback t) (total_event_length q);
               id2 = pick_tail hint rnd 0
           in (id2, (set_queue qid (q\<lparr>tail_id := id2, events := es, total_event_length := len\<rparr>) t)\<lparr>callback := cb\<rparr>))"

lemma push_eq:
  assumes "push_accepts qid dat expires t"
  shows "push rnd qid dat expires extra hint t =
    (let (id2, t1) = push_prepare rnd qid hint t
     in if \<not> is_ok (event_id_next id2) then (Inl check_failed, t1)
        else let (added, t2) = do_push qid (fresh_event id2 expires dat extra) t1
             in if added then (Inr id2, t2) else (Inl check_failed, t2))"
  using assms unfolding push_def push_accepts_def push_prepare_def fresh_event_def by (simp add: Let_def)

lemma push_prepare_spec:
  assumes inv: "tq_inv t" and hint: "hint_ok hint rnd" and "qid \<noteq> 0"
    and prep: "push_prepare rnd qid hint t = (i, t1)"
  shows "tq_inv t1 \<and> 0 < i \<and> is_valid_id (i + 1) \<and> tail_id (queue_of t1 qid) = i \<and>
    events (queue_of t1 qid) = (if is_valid_id (tail_id (queue_of t qid) + 1) then events (queue_of t qid) else []) \<and>
    total_event_length (queue_of t1 qid) \<le> total_event_length (queue_of t qid) \<and>
    (callback t1 = None \<longleftrightarrow> callback t = None) \<and>
    (\<forall>o'. o' \<noteq> qid \<longrightarrow> queues t1 o' = queues t o')"
proof -
  define q where "q = queue_of t qid"
  define id1 where "id1 = pick_tail hint rnd (tail_id q)"
  have qi: "queue_inv (callback t \<noteq> None) q" unfolding q_def by (rule queue_inv_queue_of [OF inv])
  have m: "mirrors qid (events q) (callback t)" unfolding q_def by (rule mirrors_queue_of [OF inv])
  show ?thesis
  proof (cases "is_valid_id (id1 + 1)")
    case True
    have t1: "i = id1" "t1 = set_queue qid (q\<lparr>tail_id := id1\<rparr>) t"
      using prep True by (auto simp: push_prepare_def is_ok_next Let_def q_def id1_def)
    have pos: "0 < id1" using pick_tail_inv [OF qi hint] by (simp add: id1_def)
    have qi': "queue_inv (callback t \<noteq> None) (q\<lparr>tail_id := id1\<rparr>)"
      unfolding id1_def by (rule queue_inv_pick_tail [OF qi hint True [unfolded id1_def]])
    have "tq_inv ((set_queue qid (q\<lparr>tail_id := id1\<rparr>) t)\<lparr>callback := callback t\<rparr>)"
      using qi' m assms(3) by (intro tq_inv_set_queue [OF inv]) (auto simp: q_def)
    then have "tq_inv t1" using t1 by (simp add: set_queue_def)
    moreover have "events q = []" if "\<not> is_valid_id (tail_id q + 1)"
      using that True pick_tail_inv(2) [OF qi hint] queue_inv_tail_zero [OF qi]
      by (cases "tail_id q = 0") (auto simp: id1_def)
    ultimately show ?thesis
      using t1 pos True by (auto simp: q_def)
  next
    case False
    obtain es cb len where w: "pop_while (\<lambda>e. True) qid 0 (events q) (callback t) (total_event_length q) = (es, cb, len)"
      by (cases "pop_while (\<lambda>e. True) qid 0 (events q) (callback t) (total_event_length q)")
    note pops = pop_while_pops [OF w]
    have es: "es = []" using qi by (intro pop_while_all [OF _ w]) (auto simp: queue_inv_def events_inv_def event_inv_def)
    have len: "len = 0" using pops_length [OF pops] qi es by (simp add: queue_inv_def)
    have i: "i = pick_tail hint rnd 0" and
      t1: "t1 = (set_queue qid (q\<lparr>tail_id := i, events := [], total_event_length := 0\<rparr>) t)\<lparr>callback := cb\<rparr>"
      using prep False w es len by (auto simp: push_prepare_def is_ok_next Let_def q_def id1_def)
    have i': "0 < i" "is_valid_id (i + 1)" using pick_tail_zero [OF hint] i by simp_all
    have m': "mirrors qid [] cb" and so: "same_others qid (callback t) cb"
      using pops_mirrors [OF pops, of "[]"] m es by simp_all
    have "queue_inv (callback t \<noteq> None) (q\<lparr>tail_id := i, events := [], total_event_length := 0\<rparr>)"
      using i' by (auto simp: queue_inv_def events_inv_def is_valid_id_def)
    then have "tq_inv t1"
      unfolding t1 using m' so assms(3) by (intro tq_inv_set_queue [OF inv]) (auto simp: q_def)
    moreover have "\<not> is_valid_id (tail_id q + 1)"
      using False pick_tail_zero [OF hint] pick_tail_inv(2) [OF qi hint]
      by (cases "tail_id q = 0") (auto simp: id1_def)
    ultimately show ?thesis
      using t1 i' same_others_None [OF so] by (auto simp: q_def)
  qed
qed

lemma push_spec:
  assumes inv: "tq_inv t" and hint: "hint_ok hint rnd" and acc: "push_accepts qid dat expires t"
  shows "\<exists>t' k i. push rnd qid dat expires extra hint t = (Inr i, t') \<and> tq_inv t' \<and>
    events (queue_of t' qid) =
      (if is_valid_id (tail_id (queue_of t qid) + 1) then live (events (queue_of t qid)) else []) @
      [(fresh_event i expires dat extra)\<lparr>ev_log_id := k\<rparr>] \<and>
    tail_id (queue_of t' qid) = i + 1 \<and> (callback t' = None \<longleftrightarrow> callback t = None) \<and>
    (\<forall>o'. o' \<noteq> qid \<longrightarrow> queues t' o' = queues t o')"
proof -
  obtain i t1 where prep: "push_prepare rnd qid hint t = (i, t1)" by (cases "push_prepare rnd qid hint t")
  have "qid \<noteq> 0" using acc by (simp add: push_accepts_def)
  note p = push_prepare_spec [OF inv hint this prep]
  have ok: "push_ok qid (fresh_event i expires dat extra) t1"
    using p acc by (auto simp: push_ok_def push_accepts_def fresh_event_def)
  have "callback t1 = None \<or> ev_log_id (fresh_event i expires dat extra) = 0" by (simp add: fresh_event_def)
  from do_push_spec [OF _ ok this] p obtain t' k where d:
    "do_push qid (fresh_event i expires dat extra) t1 = (True, t')" "tq_inv t'"
    "events (queue_of t' qid) = live (events (queue_of t1 qid)) @ [(fresh_event i expires dat extra)\<lparr>ev_log_id := k\<rparr>]"
    "callback t' = None \<longleftrightarrow> callback t1 = None" "tail_id (queue_of t' qid) = i + 1"
    by (auto simp: fresh_event_def)
  have "push rnd qid dat expires extra hint t = (Inr i, t')"
    using push_eq [OF acc, of rnd extra hint] prep d(1) p by (simp add: is_ok_next)
  moreover have "\<forall>o'. o' \<noteq> qid \<longrightarrow> queues t' o' = queues t o'"
    using p do_push_others [of _ qid "fresh_event i expires dat extra" t1] d(1) by auto
  ultimately show ?thesis using d p by (auto simp: live_def)
qed

end
