(* ===== verification/TQueue_Recovery.thy ===== *)
theory TQueue_Recovery
  imports TQueue_Ops
begin

section \<open>Reading, clearing, collecting and recovering the update queue\<close>

text \<open>
  The functional behaviour of \<open>get\<close>, the invariant of \<open>clear\<close> and \<open>run_gc\<close>, the
  termination of \<open>run_gc\<close>, and the recovery of all queues from the storage.
\<close>

subsection \<open>Reading\<close>

definition fresh :: "int \<Rightarrow> raw_event \<Rightarrow> bool" where
  "fresh now e \<longleftrightarrow> now \<le> ev_expires_at e \<and> ev_data e \<noteq> []"

lemma pop_not_fresh: "pop qid tail e cb len = (r, cb', len') \<Longrightarrow> filter (fresh now) (opt_list r) = []"
  using pop_result by (cases r) (fastforce simp: fresh_def)+

lemma get_loop_out:
  "get_loop now room qid tail es cb len = (out, es', cb', len') \<Longrightarrow>
   out = take room (filter (fresh now) es) \<and> filter (fresh now) es' = filter (fresh now) es"
proof (induction now room qid tail es cb len arbitrary: out es' cb' len' rule: get_loop.induct)
  case (2 now room qid tail e es cb len)
  show ?case
  proof (cases "ev_expires_at e < now \<or> ev_data e = []")
    case True
    obtain r cb1 len1 where p: "pop qid tail e cb len = (r, cb1, len1)" by (cases "pop qid tail e cb len")
    obtain o1 e1 c1 l1 where g: "get_loop now room qid tail es cb1 len1 = (o1, e1, c1, l1)"
      by (cases "get_loop now room qid tail es cb1 len1")
    have "\<not> fresh now e" using True by (auto simp: fresh_def)
    with "2.IH"(1) [OF True p [symmetric] refl refl g] True "2.prems" p g pop_not_fresh [OF p, of now]
    show ?thesis by auto
  next
    case False
    then have fr: "fresh now e" by (auto simp: fresh_def)
    show ?thesis
    proof (cases "room = 0")
      case True
      with False "2.prems" show ?thesis by auto
    next
      case room: False
      obtain o1 e1 c1 l1 where g: "get_loop now (room - 1) qid tail es cb len = (o1, e1, c1, l1)"
        by (cases "get_loop now (room - 1) qid tail es cb len")
      from "2.IH"(2) [OF False room g] False room "2.prems" g fr show ?thesis
        by (cases room) auto
    qed
  qed
qed simp

lemma pop_while_fresh:
  "pop_while P qid tail es cb len = (es', cb', len') \<Longrightarrow>
   filter (fresh now) es' = filter (fresh now) (dropWhile P es)"
proof (induction P qid tail es cb len arbitrary: es' cb' len' rule: pop_while.induct)
  case (2 P qid tail e es cb len)
  obtain r cb1 len1 where p: "pop qid tail e cb len = (r, cb1, len1)" by (cases "pop qid tail e cb len")
  obtain e1 c1 l1 where w: "pop_while P qid tail es cb1 len1 = (e1, c1, l1)"
    by (cases "pop_while P qid tail es cb1 len1")
  show ?case
    using "2.IH" [OF _ p [symmetric] refl refl w] "2.prems" p w pop_not_fresh [OF p, of now]
    by (cases "P e") auto
qed simp

lemma dropWhile_sorted_filter:
  assumes "sorted_wrt (<) (map ev_id es)"
  shows "dropWhile (\<lambda>e. ev_id e < from) es = filter (\<lambda>e. from \<le> ev_id e) es"
    and "takeWhile (\<lambda>e. ev_id e < from) es = filter (\<lambda>e. ev_id e < from) es"
  using assms
proof (induction es)
  case (Cons e es)
  { case 1
    show ?case
    proof (cases "ev_id e < from")
      case False
      with 1 have "filter (\<lambda>e. from \<le> ev_id e) es = es" by (auto simp: filter_id_conv)
      with False show ?thesis by simp
    qed (use Cons 1 in auto)
  next
    case 2
    show ?case
    proof (cases "ev_id e < from")
      case False
      with 2 have "filter (\<lambda>e. ev_id e < from) es = []" by (auto simp: filter_empty_conv)
      with False show ?thesis by simp
    qed (use Cons 2 in auto)
  }
qed simp_all

lemma queue_size_live:
  assumes "queue_inv per q"
  shows "queue_size q = length (live (events q))"
proof -
  have "(if events q \<noteq> [] \<and> ev_data (last (events q)) = [] then butlast (events q) else events q) = live (events q)"
    using last_empty_live [of per "tail_id q" "events q"] assms by (simp add: queue_inv_def)
  then have "length (live (events q)) =
      length (if events q \<noteq> [] \<and> ev_data (last (events q)) = [] then butlast (events q) else events q)"
    by (simp only:)
  then show ?thesis by (simp add: queue_size_def)
qed

lemma do_get_spec:
  assumes "queue_inv per q" and "do_get qid q from fp now limit cb = (out, q', cb')"
  shows "out = take limit (filter (\<lambda>e. fresh now e \<and> from \<le> ev_id e) (events q)) \<and>
    filter (fresh now) (events q') =
      filter (\<lambda>e. fresh now e \<and> (fp \<longrightarrow> from \<le> ev_id e)) (events q)"
proof -
  let ?P = "\<lambda>e. ev_id e < from"
  from do_get_unfold [OF assms(2)] obtain es1 cb1 len1 es2 len2 where
    p1: "pops qid (tail_id q) (events q) cb (total_event_length q) es1 cb1 len1" and
    es1: "es1 = (if fp then fst (pop_while ?P qid (tail_id q) (events q) cb (total_event_length q)) else events q)" and
    g: "get_loop now limit qid (tail_id q) (dropWhile ?P es1) cb1 len1 = (out, es2, cb', len2)" and
    q': "q' = q\<lparr>events := takeWhile ?P es1 @ es2, total_event_length := len2\<rparr>" .
  have sorted: "sorted_wrt (<) (map ev_id (events q))" using assms(1) by (simp add: queue_inv_def events_inv_def)
  note sorted1 = pops_sorted [OF p1 sorted]
  have f1: "filter (fresh now) es1 = filter (\<lambda>e. fresh now e \<and> (fp \<longrightarrow> from \<le> ev_id e)) (events q)"
  proof (cases fp)
    case True
    have "filter (fresh now) es1 = filter (fresh now) (dropWhile ?P (events q))"
      using es1 True pop_while_fresh [of ?P qid "tail_id q" "events q" cb "total_event_length q"]
      by (metis fst_conv prod_cases3)
    then show ?thesis using True by (simp add: dropWhile_sorted_filter [OF sorted] conj_commute)
  next
    case False
    then show ?thesis using es1 by simp
  qed
  have "filter (fresh now) (filter (\<lambda>e. from \<le> ev_id e) es1) = filter (\<lambda>e. from \<le> ev_id e) (filter (fresh now) es1)"
    by (simp add: conj_commute)
  also have "\<dots> = filter (\<lambda>e. fresh now e \<and> from \<le> ev_id e) (events q)"
    unfolding f1 by (auto intro: filter_cong)
  finally have out: "out = take limit (filter (\<lambda>e. fresh now e \<and> from \<le> ev_id e) (events q))"
    using get_loop_out [OF g] by (simp add: dropWhile_sorted_filter [OF sorted1])
  have "filter (fresh now) (events q') = filter (fresh now) (takeWhile ?P es1 @ dropWhile ?P es1)"
    using get_loop_out [OF g] unfolding q' by (simp only: filter_append queue.select_convs queue.update_convs) simp
  then show ?thesis using out f1 by simp
qed

subsection \<open>Clearing\<close>

lemma pop_batch_mirrors:
  assumes "mirrors qid (ds @ es) (Some s)"
  shows "mirrors qid es (Some (storage_pop_batch (map ev_log_id ds) s)) \<and>
    same_others qid (Some s) (Some (storage_pop_batch (map ev_log_id ds) s))"
  using assms
proof (induction ds arbitrary: s)
  case (Cons d ds)
  have "mirrors qid (ds @ es) (Some (storage_pop (ev_log_id d) s))"
    and "same_others qid (Some s) (Some (storage_pop (ev_log_id d) s))"
    using storage_pop_one [of s qid "[]" d "ds @ es"] Cons.prems
    by (auto simp: mirrors_def same_others_def)
  with Cons.IH [of "storage_pop (ev_log_id d) s"] show ?case
    by (auto simp: storage_pop_batch_def intro: same_others_trans)
qed (simp add: storage_pop_batch_def)

lemma events_inv_last:
  assumes "events_inv True tail es" and "es \<noteq> []"
  shows "ev_id (last es) + 1 = tail"
proof -
  obtain xs x where es: "es = xs @ [x]" using assms(2) by (metis append_butlast_last_id)
  from assms obtain e where e: "e \<in> set es" "ev_id e + 1 = tail" by (auto simp: events_inv_def)
  show ?thesis
  proof (cases "e = x")
    case False
    with e es assms(1) have "ev_id e < ev_id x" "ev_id x < tail"
      by (auto simp: events_inv_def event_inv_def sorted_wrt_append)
    with e show ?thesis by linarith
  qed (use e es in simp)
qed

lemma events_inv_suffix:
  assumes "events_inv per tail (ds @ es)"
  shows "events_inv per tail es"
proof -
  have "\<exists>e \<in> set es. ev_id e + 1 = tail" if per "es \<noteq> []"
    using that assms events_inv_last [of tail "ds @ es"] by (intro bexI [of _ "last es"]) auto
  with assms show ?thesis by (auto simp: events_inv_def sorted_wrt_append)
qed

text \<open>Dropping a prefix of a queue together with its records.\<close>

lemma tq_inv_drop_prefix:
  assumes inv: "tq_inv t" and q: "queues t qid = Some q"
    and qi: "queue_inv (callback t \<noteq> None) (q\<lparr>events := ds @ es, total_event_length := len\<rparr>)"
    and m: "mirrors qid (ds @ es) cb" and so: "same_others qid (callback t) cb"
  shows "tq_inv ((set_queue qid (q\<lparr>events := es, total_event_length := data_length es\<rparr>) t)
    \<lparr>callback := map_option (storage_pop_batch (map ev_log_id (filter (\<lambda>e. ev_log_id e \<noteq> 0) ds))) cb\<rparr>)"
    (is "tq_inv (_\<lparr>callback := ?cb\<rparr>)")
proof -
  have "mirrors qid es ?cb \<and> same_others qid cb ?cb"
  proof (cases cb)
    case (Some s)
    with m have "filter (\<lambda>e. ev_log_id e \<noteq> 0) ds = ds" by (auto simp: mirrors_def filter_id_conv)
    with pop_batch_mirrors [of qid ds es s] m Some show ?thesis by simp
  qed (simp add: mirrors_def)
  moreover have "queue_inv (callback t \<noteq> None) (q\<lparr>events := es, total_event_length := data_length es\<rparr>)"
    using qi events_inv_suffix [of "callback t \<noteq> None" "tail_id q" ds es] by (auto simp: queue_inv_def)
  moreover have "qid \<noteq> 0" and "queue_of t qid = q" using inv q by (auto simp: tq_inv_def queue_of_def)
  ultimately show ?thesis
    using so by (intro tq_inv_set_queue [OF inv]) (auto intro: same_others_trans)
qed

lemma clear_prefix_inv:
  assumes "tq_inv t" and "queues t qid = Some q"
    and es: "queue_inv (callback t \<noteq> None) (q\<lparr>events := es, total_event_length := len\<rparr>)"
      "mirrors qid es cb" "same_others qid (callback t) cb"
    and eq: "clear_queue qid keep t = (take pos es, (set_queue qid (q\<lparr>events := drop pos es, total_event_length :=
           if keep > queue_size q div 2 then len - data_length (take pos es) else data_length (drop pos es)\<rparr>) t)
         \<lparr>callback := map_option (storage_pop_batch (map ev_log_id (filter (\<lambda>e. ev_log_id e \<noteq> 0) (take pos es)))) cb\<rparr>)"
  shows "tq_inv (snd (clear_queue qid keep t))"
proof -
  have "len = data_length (take pos es) + data_length (drop pos es)"
    using es(1) data_length_simps(3) [of "take pos es" "drop pos es"] by (simp add: queue_inv_def)
  then have "(if keep > queue_size q div 2 then len - data_length (take pos es) else data_length (drop pos es)) =
      data_length (drop pos es)" by simp
  with eq tq_inv_drop_prefix [OF assms(1,2), where ds = "take pos es" and es = "drop pos es" and len = len and cb = cb] es
  show ?thesis by simp
qed

lemma clear_queue_inv:
  assumes inv: "tq_inv t"
  shows "tq_inv (snd (clear_queue qid keep t))"
proof (cases "queues t qid")
  case None
  then show ?thesis using inv by (simp add: clear_queue_def)
next
  case (Some q)
  have qq: "queue_of t qid = q" using Some by (simp add: queue_of_def)
  have qi: "queue_inv (callback t \<noteq> None) q" using queue_inv_queue_of [OF inv, of qid] qq by simp
  have m: "mirrors qid (events q) (callback t)" using mirrors_queue_of [OF inv, of qid] qq by simp
  let ?n = "length (events q)"
  note prefix = clear_prefix_inv [OF inv Some]
  show ?thesis
  proof (cases "queue_size q \<le> keep")
    case True
    then show ?thesis using inv Some by (simp add: clear_queue_def)
  next
    case False
    then have ne: "events q \<noteq> []" by (auto simp: queue_size_def)
    consider (keep) "keep > 0" | (all) "keep = 0" "callback t = None"
      | (empty) s where "keep = 0" "callback t = Some s" "ev_data (last (events q)) = []"
      | (rewrite) s where "keep = 0" "callback t = Some s" "ev_data (last (events q)) \<noteq> []"
      by (cases "callback t") auto
    then show ?thesis
    proof cases
      case keep
      with False Some show ?thesis
        by (intro prefix [where es = "events q" and len = "total_event_length q" and cb = "callback t" and pos = "?n - keep"])
          (use qi m in \<open>simp_all add: clear_queue_def Let_def\<close>)
    next
      case all
      with False Some show ?thesis
        by (intro prefix [where es = "events q" and len = "total_event_length q" and cb = "callback t" and pos = ?n])
          (use qi m in \<open>simp_all add: clear_queue_def Let_def\<close>)
    next
      case (empty s)
      with m ne have "ev_log_id (last (events q)) \<noteq> 0" by (simp add: mirrors_def)
      with empty False Some show ?thesis
        by (intro prefix [where es = "events q" and len = "total_event_length q" and cb = "callback t" and pos = "?n - 1"])
          (use qi m in \<open>simp_all add: clear_queue_def Let_def\<close>)
    next
      case (rewrite s)
      let ?e = "last (events q)"
      let ?e' = "?e\<lparr>ev_data := []\<rparr>"
      have log: "ev_log_id ?e \<noteq> 0" using rewrite m ne by (simp add: mirrors_def)
      have tail: "ev_id ?e + 1 = tail_id q" using qi rewrite ne by (auto simp: queue_inv_def intro: events_inv_last)
      have "pop qid (tail_id q) ?e (callback t) (total_event_length q) =
          (Some ?e', Some (snd (storage_push qid ?e' s)), total_event_length q - length (ev_data ?e))"
        using rewrite log tail by (simp add: pop_def Let_def)
      from pops_prefix [OF pops.drop [OF this pops.stop], of "butlast (events q)" "[]"] ne
      have pops: "pops qid (tail_id q) (events q) (callback t) (total_event_length q) (butlast (events q) @ [?e'])
          (Some (snd (storage_push qid ?e' s))) (total_event_length q - length (ev_data ?e))" by simp
      with False Some rewrite log show ?thesis
        by (intro prefix [where es = "butlast (events q) @ [?e']" and len = "total_event_length q - length (ev_data ?e)"
              and cb = "Some (snd (storage_push qid ?e' s))" and pos = "?n - 1"])
          (use pops_queue_inv [OF qi pops] pops_mirrors [OF pops, of "[]"] m in
            \<open>simp_all add: clear_queue_def Let_def\<close>)
    qed
  qed
qed

lemma clear_queue_all:
  assumes "tq_inv t"
  shows "live (events (queue_of (snd (clear_queue qid 0 t)) qid)) = [] \<and>
    get_tail qid (snd (clear_queue qid 0 t)) = get_tail qid t"
proof (cases "queues t qid")
  case None
  then show ?thesis by (simp add: clear_queue_def queue_of_def live_def)
next
  case (Some q)
  have qi: "queue_inv (callback t \<noteq> None) q"
    using queue_inv_queue_of [OF assms, of qid] Some by (simp add: queue_of_def)
  show ?thesis
  proof (cases "queue_size q = 0")
    case True
    then have "live (events q) = []" using queue_size_live [OF qi] by simp
    with True Some show ?thesis by (simp add: clear_queue_def queue_of_def)
  next
    case False
    then have "events q \<noteq> []" by (auto simp: queue_size_def)
    then have "drop (length (events q) - 1) (events q) = [last (events q)]"
      by (metis One_nat_def append_butlast_last_id append_eq_conv_conj length_butlast)
    with False Some show ?thesis
      by (auto simp: clear_queue_def Let_def live_def get_tail_def split: option.splits)
  qed
qed

subsection \<open>Garbage collection\<close>

lemma gc_loop_spec:
  assumes "gc_loop tick now qid tail es cb len c g = (es', cb', len', c', g')"
    and "\<forall>e \<in> set es. 0 < ev_expires_at e"
  shows "filter (fresh now) es' = filter (fresh now) es \<and> (g \<noteq> 0 \<longrightarrow> g' = g) \<and>
    ((\<exists>e \<in> set es'. ev_data e \<noteq> []) \<longrightarrow> g' \<noteq> 0) \<and>
    (g = 0 \<or> now \<le> g \<longrightarrow> g' = 0 \<or> now \<le> g' \<or> tick c')"
  using assms
proof (induction tick now qid tail es cb len c g arbitrary: es' cb' len' c' g' rule: gc_loop.induct)
  case (2 tick now qid tail e es cb len c g)
  consider (timeout) "(Suc c div 128) mod 2 = 0" "tick (Suc c)"
    | (popped) "\<not> ((Suc c div 128) mod 2 = 0 \<and> tick (Suc c))" "ev_expires_at e < now \<or> ev_data e = []"
    | (second) "\<not> ((Suc c div 128) mod 2 = 0 \<and> tick (Suc c))" "\<not> (ev_expires_at e < now \<or> ev_data e = [])" "g \<noteq> 0"
    | (first) "\<not> ((Suc c div 128) mod 2 = 0 \<and> tick (Suc c))" "\<not> (ev_expires_at e < now \<or> ev_data e = [])" "g = 0"
    by (cases "(Suc c div 128) mod 2 = 0 \<and> tick (Suc c)"; cases "ev_expires_at e < now \<or> ev_data e = []";
        cases "g = 0") auto
  then show ?case
  proof cases
    case timeout
    with "2.prems" show ?thesis by (auto split: if_splits)
  next
    case popped
    obtain r cb1 len1 where p: "pop qid tail e cb len = (r, cb1, len1)" by (cases "pop qid tail e cb len")
    obtain es1 cb2 len2 c2 g2 where g: "gc_loop tick now qid tail es cb1 len1 (Suc c) g = (es1, cb2, len2, c2, g2)"
      by (cases "gc_loop tick now qid tail es cb1 len1 (Suc c) g")
    have "\<not> fresh now e" "\<forall>x \<in> set (opt_list r). ev_data x = []"
      using popped pop_result [OF p] by (cases r; auto simp: fresh_def)+
    moreover have "es' = opt_list r @ es1 \<and> (cb', len', c', g') = (cb2, len2, c2, g2)"
      using "2.prems"(1) popped p g by auto
    ultimately show ?thesis
      using "2.IH"(1) [of "Suc c"] popped p g pop_not_fresh [OF p, of now] "2.prems"(2) by auto
  next
    case second
    with "2.prems" show ?thesis by auto
  next
    case first
    obtain es1 cb2 len2 c2 g2 where
      g: "gc_loop tick now qid tail es cb len (Suc c) (ev_expires_at e) = (es1, cb2, len2, c2, g2)"
      by (cases "gc_loop tick now qid tail es cb len (Suc c) (ev_expires_at e)")
    have "es' = e # es1 \<and> (cb', len', c', g') = (cb2, len2, c2, g2)"
      using "2.prems"(1) first g by auto
    then show ?thesis
      using "2.IH"(2) [of "Suc c"] first g "2.prems"(2) by (auto simp: fresh_def)
  qed
qed simp

text \<open>One round of the loop of \<open>run_gc\<close> on the queue that is due.\<close>

lemma gc_round:
  assumes inv: "tq_inv t" and head: "queue_gc_at t = (due, qid) # gs"
    and g: "gc_loop tick now qid (tail_id q) (events q) (callback t) (total_event_length q) c 0 = (es, cb, len, c', g')"
    and q: "q = queue_of t qid"
    and sched: "schedule_queue_gc qid (q\<lparr>events := es, total_event_length := len\<rparr>) g' (queue_gc_at t) = (q2, gcs)"
  shows "tq_inv (t\<lparr>queues := (queues t)(qid \<mapsto> q2), queue_gc_at := gcs, callback := cb\<rparr>)"
    and "filter (fresh now) (events q2) = filter (fresh now) (events q)"
    and "length (filter P gcs) = length (filter P gs) + (if g' \<noteq> 0 \<and> P (g', qid) then 1 else 0)"
proof -
  have due: "due \<noteq> 0" "queues t qid = Some q" "gc_at q = due" "qid \<noteq> 0"
  proof -
    have "(due, qid) \<in> set (queue_gc_at t)" using head by simp
    then obtain q0 where "queues t qid = Some q0" "gc_at q0 = due" "due \<noteq> 0"
      using inv unfolding tq_inv_def gc_inv_def by blast
    with inv q show "due \<noteq> 0" "queues t qid = Some q" "gc_at q = due" "qid \<noteq> 0"
      by (auto simp: queue_of_def tq_inv_def)
  qed
  have qi: "queue_inv (callback t \<noteq> None) q" unfolding q by (rule queue_inv_queue_of [OF inv])
  note pops = gc_loop_pops [OF g]
  have exp: "\<forall>e \<in> set (events q). 0 < ev_expires_at e" using qi by (auto simp: queue_inv_def events_inv_def event_inv_def)
  note spec = gc_loop_spec [OF g exp]
  have q2: "q2 = q\<lparr>events := es, total_event_length := len, gc_at := g'\<rparr>"
    and gcs: "gcs = (if g' \<noteq> 0 then insort (g', qid) gs else gs)"
    using sched due head by (auto simp: schedule_queue_gc_def Let_def)
  have "queue_inv (callback t \<noteq> None) q2"
    using pops_queue_inv [OF qi pops] spec unfolding q2 by (auto simp: queue_inv_def)
  moreover have "mirrors qid (events q2) cb" "same_others qid (callback t) cb"
    using pops_mirrors [OF pops, of "[]"] mirrors_queue_of [OF inv, of qid] q by (simp_all add: q2)
  moreover have "gc_inv ((queues t)(qid \<mapsto> q2)) gcs"
    using inv due by (intro gc_inv_schedule [OF _ _ sched]) (auto simp: tq_inv_def q2)
  ultimately show "tq_inv (t\<lparr>queues := (queues t)(qid \<mapsto> q2), queue_gc_at := gcs, callback := cb\<rparr>)"
    by (intro tq_inv_update [OF inv due(4)])
  show "filter (fresh now) (events q2) = filter (fresh now) (events q)" using spec by (simp add: q2)
  have "sorted gs" using inv head by (auto simp: tq_inv_def gc_inv_def)
  then show "length (filter P gcs) = length (filter P gs) + (if g' \<noteq> 0 \<and> P (g', qid) then 1 else 0)"
    by (cases "P (g', qid)") (simp_all add: gcs filter_insort filter_insort_triv)
qed

lemma gc_inv_positive: "tq_inv t \<Longrightarrow> sorted (queue_gc_at t)"
  by (simp add: tq_inv_def gc_inv_def)

lemma run_gc_spec:
  assumes "\<forall>c. tick c \<longrightarrow> tock c" and "tq_inv t"
    and "length (filter (\<lambda>(g, qid). g < now) (queue_gc_at t)) < fuel"
  shows "\<exists>n b t'. run_gc fuel tick tock now c d t = Some ((n, b), t') \<and> tq_inv t' \<and>
    (\<forall>qid. filter (fresh now) (events (queue_of t' qid)) = filter (fresh now) (events (queue_of t qid))) \<and>
    (b \<longrightarrow> (\<forall>(g, qid) \<in> set (queue_gc_at t'). now \<le> g))"
  using assms(2,3)
proof (induction fuel arbitrary: c d t)
  case (Suc fuel)
  show ?case
  proof (cases "queue_gc_at t")
    case Nil
    then show ?thesis using Suc.prems by auto
  next
    case (Cons x gs)
    obtain due qid where x: "x = (due, qid)" by (cases x)
    show ?thesis
    proof (cases "now \<le> due")
      case True
      have "now \<le> g" if "(g, qid') \<in> set (queue_gc_at t)" for g qid'
        using that True gc_inv_positive [OF Suc.prems(1)] Cons x by (auto simp: less_eq_prod_def)
      with True Suc.prems Cons x show ?thesis by auto
    next
      case False
      define q where "q = queue_of t qid"
      obtain es cb len c' g' where
        g: "gc_loop tick now qid (tail_id q) (events q) (callback t) (total_event_length q) c 0 = (es, cb, len, c', g')"
        by (cases "gc_loop tick now qid (tail_id q) (events q) (callback t) (total_event_length q) c 0")
      obtain q2 gcs where s: "schedule_queue_gc qid (q\<lparr>events := es, total_event_length := len\<rparr>) g' (queue_gc_at t) = (q2, gcs)"
        by fastforce
      define t' where "t' = t\<lparr>queues := (queues t)(qid \<mapsto> q2), queue_gc_at := gcs, callback := cb\<rparr>"
      note round = gc_round [OF Suc.prems(1) Cons [unfolded x] g q_def s]
      have inv': "tq_inv t'" and fr: "\<And>qid'. filter (fresh now) (events (queue_of t' qid')) =
          filter (fresh now) (events (queue_of t qid'))"
        using round(1,2) by (simp_all add: t'_def q_def)
      define d' where "d' = d + (queue_size q - queue_size (q\<lparr>events := es, total_event_length := len\<rparr>))"
      have run: "run_gc (Suc fuel) tick tock now c d t =
          (if tock c' then Some ((d', False), t') else run_gc fuel tick tock now c' d' t')"
        using Cons x False g s by (simp add: q_def [symmetric] t'_def d'_def)
      show ?thesis
      proof (cases "tock c'")
        case True
        with run inv' fr show ?thesis by auto
      next
        case no: False
        have exp: "\<forall>e \<in> set (events q). 0 < ev_expires_at e"
          using queue_inv_queue_of [OF Suc.prems(1), of qid]
          by (auto simp: q_def queue_inv_def events_inv_def event_inv_def)
        have "g' = 0 \<or> now \<le> g'" using gc_loop_spec [OF g exp] no assms(1) by auto
        then have "length (filter (\<lambda>(g, qid). g < now) (queue_gc_at t')) < fuel"
          using round(3) [of "\<lambda>(g, qid). g < now"] Suc.prems(2) Cons x False by (auto simp: t'_def)
        from Suc.IH [OF inv' this, of c' d'] fr run no show ?thesis by simp
      qed
    qed
  qed
qed simp

subsection \<open>Recovery\<close>

text \<open>What the storage of a running queue looks like for each bot.\<close>

definition loadable :: "(nat \<times> int \<times> raw_event) list \<Rightarrow> bool" where
  "loadable l \<longleftrightarrow> (\<forall>qid. \<exists>tail. is_valid_id tail \<and> events_inv True tail (sfor qid l) \<and>
     data_length (sfor qid l) \<le> max_total_event_length \<and> length (sfor qid l) \<le> max_queue_events) \<and>
     (\<forall>(k, qid, e) \<in> set l. qid \<noteq> 0)"

lemma loadable_queue:
  assumes "loadable l"
  shows "\<exists>tail. is_valid_id tail \<and> events_inv True tail (sfor qid l) \<and>
     data_length (sfor qid l) \<le> max_total_event_length \<and> length (sfor qid l) \<le> max_queue_events \<and>
     (\<forall>(k, q, e) \<in> set l. q \<noteq> 0)"
  using assms unfolding loadable_def by blast

definition loaded :: "(nat \<times> int \<times> raw_event) list \<Rightarrow> tqueue \<Rightarrow> bool" where
  "loaded l t \<longleftrightarrow> tq_inv t \<and> callback t = None \<and>
     (\<forall>qid. events (queue_of t qid) = sfor qid l \<and>
        tail_id (queue_of t qid) = (if sfor qid l = [] then 0 else ev_id (last (sfor qid l)) + 1))"

lemma replay_step:
  assumes l: "loadable (A @ (k, qid, e) # B)" and t: "loaded A t"
  shows "\<exists>t'. do_push qid (e\<lparr>ev_log_id := k\<rparr>) t = (True, t') \<and> loaded (A @ [(k, qid, e)]) t'"
proof -
  let ?e = "e\<lparr>ev_log_id := k\<rparr>"
  let ?xs = "sfor qid A" and ?ys = "sfor qid B"
  from l obtain tail where tail: "is_valid_id tail" and inv: "events_inv True tail (?xs @ ?e # ?ys)"
    and len: "data_length (?xs @ ?e # ?ys) \<le> max_total_event_length" "length (?xs @ ?e # ?ys) \<le> max_queue_events"
    and "qid \<noteq> 0"
    using loadable_queue [OF l, of qid] by auto
  have q: "events (queue_of t qid) = ?xs" "tail_id (queue_of t qid) = (if ?xs = [] then 0 else ev_id (last ?xs) + 1)"
    and ti: "tq_inv t" and cb: "callback t = None"
    using t by (auto simp: loaded_def)
  have lt: "ev_id x < ev_id e" if "x \<in> set ?xs" for x
    using that inv by (auto simp: events_inv_def sorted_wrt_append)
  have ei: "event_inv True tail ?e" using inv by (auto simp: events_inv_def)
  have nonempty: "live ?xs = ?xs"
    using inv lt ei by (fastforce simp: live_def filter_id_conv events_inv_def event_inv_def)
  have "total_event_length (queue_of t qid) = data_length ?xs"
    using queue_inv_queue_of [OF ti, of qid] q by (simp add: queue_inv_def)
  moreover have "ev_id (last ?xs) < ev_id e" if "?xs \<noteq> []" using that lt by simp
  ultimately have ok: "push_ok qid ?e t"
    using q len ei tail \<open>qid \<noteq> 0\<close> by (auto simp: push_ok_def event_inv_def is_valid_id_def)
  from do_push_spec [OF ti ok] cb q nonempty obtain t' where t':
    "do_push qid ?e t = (True, t')" "tq_inv t'" "events (queue_of t' qid) = ?xs @ [?e]"
    "callback t' = None" "tail_id (queue_of t' qid) = ev_id e + 1" by auto
  have "queue_of t' o' = queue_of t o'" if "o' \<noteq> qid" for o'
    using do_push_others [OF that, of ?e t] t'(1) by (simp add: queue_of_def)
  then have "loaded (A @ [(k, qid, e)]) t'"
    using t' t by (auto simp: loaded_def)
  then show ?thesis using t'(1) by blast
qed

lemma replay_spec:
  "loadable (A @ B) \<Longrightarrow> loaded A t \<Longrightarrow> \<exists>t'. replay B t = (True, t') \<and> loaded (A @ B) t'"
proof (induction B arbitrary: A t)
  case (Cons x B)
  obtain k qid e where x: "x = (k, qid, e)" by (cases x)
  from replay_step [of A k qid e B t] Cons.prems x obtain t1 where
    "do_push qid (e\<lparr>ev_log_id := k\<rparr>) t = (True, t1)" "loaded (A @ [x]) t1" by auto
  with Cons.IH [of "A @ [x]" t1] Cons.prems(1) x show ?case by simp
qed simp

lemma loadable_storage:
  assumes inv: "tq_inv t" and s: "callback t = Some s"
  shows "loadable (stored s)"
proof -
  have m: "sfor qid (stored s) = events (queue_of t qid)" for qid
    using mirrors_queue_of [OF inv, of qid] s by (simp add: mirrors_def)
  have "is_valid_id (tail_id (queue_of t qid)) \<and> events_inv True (tail_id (queue_of t qid)) (sfor qid (stored s)) \<and>
      data_length (sfor qid (stored s)) \<le> max_total_event_length \<and> length (sfor qid (stored s)) \<le> max_queue_events" for qid
    using queue_inv_queue_of [OF inv, of qid] s m by (auto simp: queue_inv_def)
  moreover have "qid \<noteq> 0" if "(k, qid, e) \<in> set (stored s)" for k qid e
  proof
    assume "qid = 0"
    with that sfor_not_Nil have "sfor 0 (stored s) \<noteq> []" by blast
    moreover have "queues t 0 = None" using inv unfolding tq_inv_def by (cases "queues t 0") blast+
    ultimately show False using m [of 0] by (simp add: queue_of_def)
  qed
  ultimately show ?thesis by (auto simp: loadable_def)
qed

lemma loaded_new: "loaded [] new_tqueue"
  by (simp add: loaded_def tq_inv_new) (simp add: new_tqueue_def queue_of_def)

lemma loaded_set_callback:
  assumes "loaded (stored s) t'" and "tq_inv t" and "callback t = Some s"
  shows "tq_inv (set_callback (Some s) t')"
proof -
  have m: "mirrors qid (events (queue_of t qid)) (Some s)" for qid using mirrors_queue_of [OF assms(2)] assms(3) by metis
  have ev: "events (queue_of t' qid) = events (queue_of t qid)" for qid
    using assms(1) m [of qid] by (simp add: loaded_def mirrors_def)
  have qi: "queue_inv True (queue_of t' qid)" for qid
  proof -
    have i: "queue_inv False (queue_of t' qid)"
      using queue_inv_queue_of [of t' qid] assms(1) by (simp add: loaded_def)
    have "events_inv True (tail_id (queue_of t qid)) (events (queue_of t' qid))"
      using queue_inv_queue_of [OF assms(2), of qid] assms(3) ev by (simp add: queue_inv_def)
    moreover have "tail_id (queue_of t' qid) = tail_id (queue_of t qid)" if "events (queue_of t' qid) \<noteq> []"
      using assms(1) that events_inv_last [OF calculation that] by (simp add: loaded_def)
    ultimately have "events_inv True (tail_id (queue_of t' qid)) (events (queue_of t' qid))"
      by (cases "events (queue_of t' qid) = []") (simp_all add: events_inv_def)
    with i show ?thesis by (simp add: queue_inv_def)
  qed
  have "queue_inv True q" and "qid \<noteq> 0" if "queues t' qid = Some q" for q qid
    using qi [of qid] that assms(1) by (auto simp: queue_of_def loaded_def tq_inv_def)
  moreover have "mirrors qid (events (queue_of t' qid)) (Some s)" for qid using m ev by simp
  ultimately show ?thesis using assms(1)
    by (auto simp: tq_inv_def set_callback_def loaded_def)
qed

end
