(* ===== verification/TQueue_Spec.thy ===== *)
theory TQueue_Spec
  imports TQueue_Recovery
begin

section \<open>What the update queue promises\<close>

text \<open>
  The contract of \<open>TQueue\<close> towards the rest of the server: the invariant holds after every
  sequence of operations, adding an event appends it, reading returns the pending events in order,
  a client that confirms what it has received gets every pending event exactly once (locale
  \<open>update_source\<close>), collection terminates and loses nothing that is still valid, and after a
  crash the storage restores every queue.
\<close>

subsection \<open>Sequences of operations\<close>

datatype tq_op =
    PushOp int int string int int int
  | GetOp int int bool int nat
  | ForgetOp int int
  | ClearOp int nat
  | GcOp "nat \<Rightarrow> bool" "nat \<Rightarrow> bool" int

fun exec_op :: "tq_op \<Rightarrow> tqueue \<Rightarrow> tqueue" where
  "exec_op (PushOp rnd qid dat expires extra hint) t = snd (push rnd qid dat expires extra hint t)"
| "exec_op (GetOp qid from fp now limit) t = snd (get_events qid from fp now limit t)"
| "exec_op (ForgetOp qid i) t = forget qid i t"
| "exec_op (ClearOp qid keep) t = snd (clear_queue qid keep t)"
| "exec_op (GcOp tick tock now) t =
     (case run_gc (Suc (length (queue_gc_at t))) tick tock now 0 0 t of None \<Rightarrow> t | Some (r, t') \<Rightarrow> t')"

text \<open>The hints and random numbers are identifiers, and the clock of a collection is monotone.\<close>

fun op_ok :: "tq_op \<Rightarrow> bool" where
  "op_ok (PushOp rnd qid dat expires extra hint) = hint_ok hint rnd"
| "op_ok (GcOp tick tock now) = (\<forall>c. tick c \<longrightarrow> tock c)"
| "op_ok _ = True"

lemma push_rejected:
  assumes "tq_inv t" and "\<not> push_accepts qid dat expires t"
  shows "(\<exists>e. fst (push rnd qid dat expires extra hint t) = Inl e \<and> err_code e = 0) \<and>
    tq_inv (snd (push rnd qid dat expires extra hint t)) \<and>
    (\<forall>o'. queue_of (snd (push rnd qid dat expires extra hint t)) o' = queue_of t o')"
proof -
  have same: "queue_of (set_queue qid (queue_of t qid) t) o' = queue_of t o'" for o' by simp
  have "tq_inv (set_queue qid (queue_of t qid) t)" if "qid \<noteq> 0"
  proof -
    have "tq_inv ((set_queue qid (queue_of t qid) t)\<lparr>callback := callback t\<rparr>)"
      using queue_inv_queue_of [OF assms(1)] mirrors_queue_of [OF assms(1)] that
      by (intro tq_inv_set_queue [OF assms(1)]) auto
    then show ?thesis by (simp add: set_queue_def)
  qed
  with assms same show ?thesis
    by (auto simp: push_def push_accepts_def Let_def not_less)
qed

lemma push_inv:
  assumes "tq_inv t" and "hint_ok hint rnd"
  shows "tq_inv (snd (push rnd qid dat expires extra hint t))"
  using push_spec [OF assms, of qid dat expires extra] push_rejected [OF assms(1), of qid dat expires rnd extra hint]
  by (cases "push_accepts qid dat expires t") auto

lemma exec_op_inv:
  assumes "tq_inv t" and "op_ok a"
  shows "tq_inv (exec_op a t)"
proof (cases a)
  case (GcOp tick tock now)
  have "length (filter (\<lambda>(g, qid). g < now) (queue_gc_at t)) < Suc (length (queue_gc_at t))"
    by (simp add: le_imp_less_Suc)
  from run_gc_spec [OF _ assms(1) this, of tick tock 0 0] assms(2) GcOp show ?thesis by auto
qed (use assms in \<open>auto simp: push_inv get_events_inv forget_inv clear_queue_inv\<close>)

lemma exec_ops_inv:
  assumes "\<forall>a \<in> set ops. op_ok a"
  shows "tq_inv (fold exec_op ops (set_callback (Some new_storage) new_tqueue))"
proof -
  have "tq_inv (set_callback (Some new_storage) new_tqueue)"
    by (simp add: tq_inv_def set_callback_def new_tqueue_def mirrors_def new_storage_def storage_wf_def
        gc_inv_def queue_of_def)
  moreover have "tq_inv t \<Longrightarrow> \<forall>a \<in> set ops. op_ok a \<Longrightarrow> tq_inv (fold exec_op ops t)" for t
    by (induction ops arbitrary: t) (auto simp: exec_op_inv)
  ultimately show ?thesis using assms by blast
qed

text \<open>
  (C6) Invariant of the update queue: after any sequence of pushes, reads, removals, clears and
  collections on an empty queue with an empty storage, every queue is strictly ordered, within its
  limits (100000 events, 2^27 bytes), its length counter is exact, a queue with a pending event is
  scheduled for collection, and the storage holds exactly the events of the queues.
\<close>

theorem tqueue_invariant:
  assumes "\<forall>a \<in> set ops. op_ok a"
  shows "tq_inv (fold exec_op ops (set_callback (Some new_storage) new_tqueue))"
  using assms by (rule exec_ops_inv)

theorem tqueue_invariant_witness:
  "tq_inv (fold exec_op [PushOp 5 7 ''hello'' 100 0 9, ClearOp 7 0] (set_callback (Some new_storage) new_tqueue))"
  by (rule tqueue_invariant) (simp add: hint_ok_def is_valid_id_def max_id_def)

subsection \<open>Adding\<close>

text \<open>
  Adding an update: a push that is within the limits succeeds (no internal check can fail),
  returns the old tail as identifier unless the identifiers are used up, appends the event behind
  the pending ones, moves the tail behind it and leaves every other queue alone.
\<close>

lemma push_appends:
  assumes "tq_inv t" and "hint_ok hint rnd" and "push_accepts qid dat expires t"
    and "is_valid_id (tail_id (queue_of t qid) + 1)"
  shows "\<exists>t' k i. push rnd qid dat expires extra hint t = (Inr i, t') \<and> tq_inv t' \<and>
    live (events (queue_of t' qid)) =
      live (events (queue_of t qid)) @ [(fresh_event i expires dat extra)\<lparr>ev_log_id := k\<rparr>] \<and>
    get_tail qid t' = i + 1 \<and> (\<forall>o'. o' \<noteq> qid \<longrightarrow> queue_of t' o' = queue_of t o')"
proof -
  from push_spec [OF assms(1-3), of extra] assms(4) obtain t' k i where p:
    "push rnd qid dat expires extra hint t = (Inr i, t')" "tq_inv t'"
    "events (queue_of t' qid) = live (events (queue_of t qid)) @ [(fresh_event i expires dat extra)\<lparr>ev_log_id := k\<rparr>]"
    "tail_id (queue_of t' qid) = i + 1" "\<forall>o'. o' \<noteq> qid \<longrightarrow> queues t' o' = queues t o'" by auto
  have "queues t' qid \<noteq> None" using p(3) by (auto simp: queue_of_def split: option.splits)
  then have "get_tail qid t' = i + 1" using p(4) by (auto simp: get_tail_def queue_of_def)
  moreover have "live (events (queue_of t' qid)) =
      live (events (queue_of t qid)) @ [(fresh_event i expires dat extra)\<lparr>ev_log_id := k\<rparr>]"
    using p(3) assms(3) by (simp add: push_accepts_def live_def fresh_event_def)
  ultimately show ?thesis using p by (auto simp: queue_of_def)
qed

lemma push_appends_witness:
  "\<exists>t' k i. push 5 7 ''hello'' 100 0 9 new_tqueue = (Inr i, t') \<and>
     live (events (queue_of t' 7)) = [(fresh_event i 100 ''hello'' 0)\<lparr>ev_log_id := k\<rparr>]"
proof -
  have "push_accepts 7 ''hello'' 100 new_tqueue" "hint_ok 9 5" "is_valid_id (tail_id (queue_of new_tqueue 7) + 1)"
    by (simp_all add: push_accepts_def new_tqueue_def queue_of_def max_event_length_def max_queue_events_def
        max_total_event_length_def hint_ok_def is_valid_id_def max_id_def)
  moreover have "live (events (queue_of new_tqueue 7)) = []" by (simp add: new_tqueue_def queue_of_def live_def)
  ultimately show ?thesis
    using push_appends [OF tq_inv_new, of 9 5 7 "''hello''" 100 0] by (simp only: append_Nil) blast
qed

subsection \<open>Reading and confirming\<close>

text \<open>
  Reading updates: \<open>get\<close> returns, in ascending order, exactly the first \<open>limit\<close>
  events that are pending, not expired and not before the requested identifier; it never drops an
  event that is still valid unless the caller confirmed it, and reports the number left.
\<close>

lemma get_events_result:
  assumes "tq_inv t" and "queues t qid = Some q"
    and "from \<le> tail_id q + 10" and "get_queue_head q - int max_queue_events \<le> from"
  shows "\<exists>n t'. get_events qid from fp now limit t =
      (Inr (n, take limit (filter (\<lambda>e. fresh now e \<and> from \<le> ev_id e) (events q))), t') \<and>
    tq_inv t' \<and> n = length (live (events (queue_of t' qid))) \<and>
    filter (fresh now) (events (queue_of t' qid)) =
      filter (\<lambda>e. fresh now e \<and> (fp \<longrightarrow> from \<le> ev_id e)) (events q) \<and>
    tail_id (queue_of t' qid) = tail_id q"
proof -
  have qi: "queue_inv (callback t \<noteq> None) q"
    using queue_inv_queue_of [OF assms(1), of qid] assms(2) by (simp add: queue_of_def)
  obtain out q' cb where g: "do_get qid q from fp now limit (callback t) = (out, q', cb)"
    by (cases "do_get qid q from fp now limit (callback t)")
  define t' where "t' = (set_queue qid q' t)\<lparr>callback := cb\<rparr>"
  have eq: "get_events qid from fp now limit t = (Inr (queue_size q', out), t')"
    using assms(2-4) g by (simp add: get_events_def t'_def)
  have inv': "tq_inv t'" unfolding t'_def by (rule do_get_tq_inv [OF assms(1,2) g])
  have q': "queue_of t' qid = q'" by (simp add: t'_def)
  have "queue_size q' = length (live (events q'))"
    using queue_size_live [OF queue_inv_queue_of [OF inv', of qid]] q' by simp
  moreover have "tail_id q' = tail_id q" by (rule do_get_unfold [OF g]) simp
  ultimately show ?thesis using eq inv' q' do_get_spec [OF qi g] by auto
qed

text \<open>
  The interface a client of the update queue relies on, for one bot at one time: \<open>pending\<close> are
  the updates in order, \<open>fetch frm n\<close> confirms everything before \<open>frm\<close> and returns up to
  \<open>n\<close> of the rest.
\<close>

fun drain :: "('e \<Rightarrow> int) \<Rightarrow> (int \<Rightarrow> nat \<Rightarrow> 's \<Rightarrow> 'e list \<times> 's) \<Rightarrow> nat \<Rightarrow> nat \<Rightarrow> int \<Rightarrow> 's \<Rightarrow> 'e list" where
  "drain ident fetch 0 n frm s = []"
| "drain ident fetch (Suc rounds) n frm s =
     (let (out, s') = fetch frm n s
      in if out = [] then [] else out @ drain ident fetch rounds n (ident (last out) + 1) s')"

locale update_source =
  fixes inv :: "'s \<Rightarrow> bool"
    and in_range :: "int \<Rightarrow> 's \<Rightarrow> bool"
    and ident :: "'e \<Rightarrow> int"
    and pending :: "'s \<Rightarrow> 'e list"
    and fetch :: "int \<Rightarrow> nat \<Rightarrow> 's \<Rightarrow> 'e list \<times> 's"
  assumes ordered: "inv s \<Longrightarrow> sorted_wrt (<) (map ident (pending s))"
    and fetch_law: "inv s \<Longrightarrow> in_range frm s \<Longrightarrow> fetch frm n s = (out, s') \<Longrightarrow>
      inv s' \<and> out = take n (filter (\<lambda>e. frm \<le> ident e) (pending s)) \<and>
      pending s' = filter (\<lambda>e. frm \<le> ident e) (pending s)"
    and next_in_range: "inv s \<Longrightarrow> in_range frm s \<Longrightarrow> fetch frm n s = (out, s') \<Longrightarrow> out \<noteq> [] \<Longrightarrow>
      in_range (ident (last out) + 1) s'"
begin

lemma take_confirm:
  assumes "sorted_wrt (<) (map ident es)" and "take n es \<noteq> []"
  shows "filter (\<lambda>e. ident (last (take n es)) + 1 \<le> ident e) es = drop n es"
proof -
  let ?k = "ident (last (take n es))"
  have s: "sorted_wrt (<) (map ident (take n es) @ map ident (drop n es))"
    using assms(1) by (metis append_take_drop_id map_append)
  have "last (take n es) \<in> set (take n es)" using assms(2) by (rule last_in_set)
  then have after: "\<forall>e \<in> set (drop n es). ?k < ident e" using s by (auto simp: sorted_wrt_append)
  have "sorted_wrt (<) (map ident (take n es))" using s by (simp only: sorted_wrt_append)
  then have before: "\<forall>e \<in> set (take n es). ident e \<le> ?k" by (auto intro: sorted_map_last_le)
  have "filter (\<lambda>e. ?k + 1 \<le> ident e) (take n es) = []" "filter (\<lambda>e. ?k + 1 \<le> ident e) (drop n es) = drop n es"
    using before after by (auto simp: filter_empty_conv filter_id_conv)
  then show ?thesis by (metis append_Nil append_take_drop_id filter_append)
qed

lemma drain_all:
  assumes "inv s" and "in_range frm s" and "0 < n"
    and "length (filter (\<lambda>e. frm \<le> ident e) (pending s)) \<le> rounds"
  shows "drain ident fetch rounds n frm s = filter (\<lambda>e. frm \<le> ident e) (pending s)"
  using assms(1,2,4)
proof (induction rounds arbitrary: frm s)
  case (Suc rounds)
  let ?es = "filter (\<lambda>e. frm \<le> ident e) (pending s)"
  obtain out s' where f: "fetch frm n s = (out, s')" by (cases "fetch frm n s")
  note law = fetch_law [OF Suc.prems(1,2) f]
  show ?case
  proof (cases "out = []")
    case True
    with law assms(3) f show ?thesis by auto
  next
    case False
    have "sorted_wrt (<) (map ident ?es)" using ordered law by metis
    from take_confirm [OF this] False law
    have rest: "filter (\<lambda>e. ident (last out) + 1 \<le> ident e) (pending s') = drop n ?es" by simp
    have "?es \<noteq> []" using False law by auto
    then have "length (drop n ?es) \<le> rounds" using Suc.prems(3) assms(3) by (cases ?es) auto
    with Suc.IH [OF conjunct1 [OF law] next_in_range [OF Suc.prems(1,2) f False]] rest
    have "drain ident fetch rounds n (ident (last out) + 1) s' = drop n ?es" by simp
    with False f law show ?thesis by simp
  qed
qed simp

end

text \<open>The calls of a client of one bot's queue at time \<open>now\<close>.\<close>

definition confirm_get :: "int \<Rightarrow> int \<Rightarrow> int \<Rightarrow> nat \<Rightarrow> tqueue \<Rightarrow> raw_event list \<times> tqueue" where
  "confirm_get qid now frm n t =
     (case get_events qid frm True now n t of (Inr (k, out), t') \<Rightarrow> (out, t') | (Inl e, t') \<Rightarrow> ([], t'))"

definition readable :: "int \<Rightarrow> int \<Rightarrow> tqueue \<Rightarrow> bool" where
  "readable qid frm t \<longleftrightarrow> (\<exists>q. queues t qid = Some q \<and> frm \<le> tail_id q + 10 \<and>
     get_queue_head q - int max_queue_events \<le> frm)"

definition pending_at :: "int \<Rightarrow> int \<Rightarrow> tqueue \<Rightarrow> raw_event list" where
  "pending_at qid now t = filter (fresh now) (events (queue_of t qid))"

lemma confirm_get_spec:
  assumes "tq_inv t" and "readable qid frm t" and "confirm_get qid now frm n t = (out, t')"
  shows "tq_inv t' \<and> out = take n (filter (\<lambda>e. frm \<le> ev_id e) (pending_at qid now t)) \<and>
    pending_at qid now t' = filter (\<lambda>e. frm \<le> ev_id e) (pending_at qid now t) \<and>
    tail_id (queue_of t' qid) = tail_id (queue_of t qid) \<and> queues t' qid = Some (queue_of t' qid)"
proof -
  from assms(2) obtain q where q: "queues t qid = Some q" "frm \<le> tail_id q + 10"
    "get_queue_head q - int max_queue_events \<le> frm" by (auto simp: readable_def)
  have qi: "queue_inv (callback t \<noteq> None) q"
    using queue_inv_queue_of [OF assms(1), of qid] q by (simp add: queue_of_def)
  obtain o1 q1 cb where g: "do_get qid q frm True now n (callback t) = (o1, q1, cb)"
    by (cases "do_get qid q frm True now n (callback t)")
  have t': "out = o1" "t' = (set_queue qid q1 t)\<lparr>callback := cb\<rparr>"
    using assms(3) q g by (auto simp: confirm_get_def get_events_def)
  have "tail_id q1 = tail_id q" by (rule do_get_unfold [OF g]) simp
  moreover have "filter (\<lambda>e. fresh now e \<and> frm \<le> ev_id e) es = filter (\<lambda>e. frm \<le> ev_id e) (filter (fresh now) es)" for es
    by (simp add: conj_commute)
  ultimately show ?thesis
    using do_get_tq_inv [OF assms(1) q(1) g] do_get_spec [OF qi g] t' q(1)
    by (simp add: pending_at_def queue_of_def)
qed

interpretation tqs: update_source tq_inv "readable qid" ev_id "pending_at qid now" "confirm_get qid now"
  for qid now :: int
proof
  fix s
  assume "tq_inv s"
  then have "sorted_wrt (<) (map ev_id (events (queue_of s qid)))"
    using queue_inv_queue_of [of s qid] by (simp add: queue_inv_def events_inv_def)
  then show "sorted_wrt (<) (map ev_id (pending_at qid now s))"
    by (simp add: pending_at_def sorted_wrt_map sorted_wrt_filter)
next
  fix s frm n out s'
  assume "tq_inv s" "readable qid frm s" "confirm_get qid now frm n s = (out, s')"
  from confirm_get_spec [OF this]
  show "tq_inv s' \<and> out = take n (filter (\<lambda>e. frm \<le> ev_id e) (pending_at qid now s)) \<and>
      pending_at qid now s' = filter (\<lambda>e. frm \<le> ev_id e) (pending_at qid now s)" by blast
next
  fix s frm n out s'
  assume a: "tq_inv s" "readable qid frm s" "confirm_get qid now frm n s = (out, s')" and ne: "out \<noteq> []"
  note spec = confirm_get_spec [OF a]
  define e where "e = last out"
  have "e \<in> set out" using ne by (simp add: e_def)
  then have "e \<in> set (pending_at qid now s')" using spec by (metis in_set_takeD)
  then have e: "e \<in> set (events (queue_of s' qid))" by (auto simp: pending_at_def)
  have inv: "queue_inv (callback s' \<noteq> None) (queue_of s' qid)" using queue_inv_queue_of spec by blast
  then have "ev_id e < tail_id (queue_of s' qid)" using e by (auto simp: queue_inv_def events_inv_def event_inv_def)
  moreover have "get_queue_head (queue_of s' qid) \<le> ev_id e"
    using inv e by (cases "events (queue_of s' qid)")
      (auto simp: get_queue_head_def queue_inv_def events_inv_def)
  ultimately show "readable qid (ev_id (last out) + 1) s'"
    using spec by (auto simp: readable_def e_def)
qed

text \<open>
  (C7) Delivery: a client that repeatedly reads up to \<open>n\<close> updates and confirms what it received
  by asking for the identifier after the last one gets every pending update from its starting point,
  in order, exactly once.
\<close>

theorem confirmed_reads_deliver_all:
  assumes "tq_inv t" and "readable qid frm t" and "0 < n"
    and "length (pending_at qid now t) \<le> rounds"
  shows "drain ev_id (confirm_get qid now) rounds n frm t =
    filter (\<lambda>e. frm \<le> ev_id e) (pending_at qid now t)"
  by (rule tqs.drain_all [OF assms(1-3)]) (use assms(4) length_filter_le le_trans in blast)

theorem confirmed_reads_deliver_all_witness:
  "\<exists>t. map ev_data (drain ev_id (confirm_get 7 50) 2 1 9 t) = [''hello'']"
proof -
  let ?e = "\<lparr>ev_log_id = 0, ev_id = 9, ev_expires_at = 100, ev_data = ''hello'', ev_extra = 0\<rparr>"
  let ?q = "\<lparr>tail_id = 10, events = [?e], total_event_length = length ''hello'', gc_at = 100\<rparr>"
  let ?t = "\<lparr>queues = [7 \<mapsto> ?q], queue_gc_at = [(100, 7)], callback = None\<rparr>"
  have "queue_inv False ?q"
    by (simp add: queue_inv_def events_inv_def event_inv_def is_valid_id_def max_id_def
        max_total_event_length_def max_queue_events_def max_event_length_def)
  then have "tq_inv ?t"
    by (auto simp: tq_inv_def gc_inv_def mirrors_def split: if_splits)
  moreover have "readable 7 9 ?t" by (simp add: readable_def get_queue_head_def max_queue_events_def)
  moreover have "pending_at 7 50 ?t = [?e]" by (simp add: pending_at_def queue_of_def fresh_def)
  ultimately have "drain ev_id (confirm_get 7 50) 2 1 9 ?t = [?e]"
    using confirmed_reads_deliver_all [of ?t 7 9 1 50 2] by simp
  then show ?thesis by (intro exI [of _ ?t]) simp
qed

subsection \<open>Collection and recovery\<close>

text \<open>
  (C29) Garbage collection always returns (with fuel one more than the number of scheduled queues),
  keeps the invariant, loses no event that is still valid, and when it reports completion no queue is
  left that was due. The clock only goes forward: if the budget was over inside a queue, it is over
  after it.
\<close>

theorem run_gc_total:
  assumes "\<forall>c. tick c \<longrightarrow> tock c" and "tq_inv t"
  shows "\<exists>n b t'. run_gc (Suc (length (queue_gc_at t))) tick tock now 0 0 t = Some ((n, b), t') \<and> tq_inv t' \<and>
    (\<forall>qid. pending_at qid now t' = pending_at qid now t) \<and>
    (b \<longrightarrow> (\<forall>(g, qid) \<in> set (queue_gc_at t'). now \<le> g))"
  unfolding pending_at_def
  by (rule run_gc_spec [OF assms]) (simp add: le_imp_less_Suc)

theorem run_gc_total_witness:
  "\<exists>n b t'. run_gc 1 (\<lambda>c. False) (\<lambda>c. False) 5 0 0 new_tqueue = Some ((n, b), t') \<and> tq_inv t'"
  using run_gc_total [OF _ tq_inv_new, of "\<lambda>c. False" "\<lambda>c. False" 5] by (auto simp: new_tqueue_def)

text \<open>
  (C2) Crash recovery: replaying the storage of a running queue into an empty one succeeds on every
  record and, with the storage attached again, restores the events of every bot, the tail identifier of
  every queue that has an event, and the invariant.
\<close>

theorem replay_restores:
  assumes "tq_inv t" and "callback t = Some s"
  shows "\<exists>t'. replay (stored s) new_tqueue = (True, t') \<and> tq_inv (set_callback (Some s) t') \<and>
    (\<forall>qid. events (queue_of t' qid) = events (queue_of t qid) \<and>
       (events (queue_of t qid) \<noteq> [] \<longrightarrow> tail_id (queue_of t' qid) = tail_id (queue_of t qid)))"
proof -
  from replay_spec [of "[]" "stored s" new_tqueue] loadable_storage [OF assms] loaded_new
  obtain t' where t': "replay (stored s) new_tqueue = (True, t')" "loaded (stored s) t'" by auto
  have ev: "events (queue_of t' qid) = events (queue_of t qid)" for qid
    using t'(2) mirrors_queue_of [OF assms(1), of qid] assms(2) by (simp add: loaded_def mirrors_def)
  have "tail_id (queue_of t' qid) = tail_id (queue_of t qid)" if "events (queue_of t qid) \<noteq> []" for qid
    using t'(2) ev [of qid] that queue_inv_queue_of [OF assms(1), of qid] assms(2)
      events_inv_last [of "tail_id (queue_of t qid)" "events (queue_of t qid)"]
    by (auto simp: loaded_def queue_inv_def)
  with t' ev loaded_set_callback [OF t'(2) assms] show ?thesis by blast
qed

theorem replay_restores_witness:
  "\<exists>t'. replay [(1, 7, \<lparr>ev_log_id = 0, ev_id = 9, ev_expires_at = 100, ev_data = ''hello'', ev_extra = 0\<rparr>)] new_tqueue =
     (True, t') \<and> tail_id (queue_of t' 7) = 10"
proof -
  let ?e = "\<lparr>ev_log_id = 0, ev_id = 9, ev_expires_at = 100, ev_data = ''hello'', ev_extra = 0\<rparr>"
  let ?q = "\<lparr>tail_id = 10, events = [?e\<lparr>ev_log_id := 1\<rparr>], total_event_length = length ''hello'', gc_at = 100\<rparr>"
  let ?s = "\<lparr>next_log_event_id = 2, stored = [(1, 7, ?e)]\<rparr>"
  let ?t = "\<lparr>queues = [7 \<mapsto> ?q], queue_gc_at = [(100, 7)], callback = Some ?s\<rparr>"
  have "queue_inv True ?q"
    by (simp add: queue_inv_def events_inv_def event_inv_def is_valid_id_def max_id_def
        max_total_event_length_def max_queue_events_def max_event_length_def)
  then have "tq_inv ?t"
    by (auto simp: tq_inv_def gc_inv_def mirrors_def storage_wf_def queue_of_def split: if_splits)
  from replay_restores [OF this, of ?s] show ?thesis by (auto simp: queue_of_def)
qed

end
