(* ===== verification/Id_Container.thy ===== *)
theory Id_Container
  imports Prelude
begin

section \<open>The object table \<open>td::Container\<close>\<close>

text \<open>
  \<open>tdutils/td/utils/Container.h\<close>: the table in which \<open>ClientManager\<close> keeps its clients. An
  object lives in a slot of a vector; its identifier is the slot number in the upper 32 bits and the
  generation of the slot in the lower 32 bits, of which the lowest 8 are a type tag. Freed slots are
  reused with the next generation, and a slot whose generation overflows is never used again.

  The theory models the table at the width of the code, states what its users rely on as the locale
  \<open>id_store\<close> (identifiers are never issued twice, and a table behaves as the partial map of the
  objects created and not yet erased) and proves that the code provides it.
\<close>

unbundle bit_operations_syntax

subsection \<open>Definitions\<close>

record 'd slot =
  generation :: "32 word"
  data :: 'd

record 'd container =
  slots :: "'d slot list"
  empty_slots :: "nat list"

definition generation_step :: "32 word" where
  "generation_step = 256"

definition type_mask :: "32 word" where
  "type_mask = 255"

definition encode_id :: "nat \<Rightarrow> 32 word \<Rightarrow> 64 word" where
  "encode_id i gen = push_bit 32 (word_of_nat i) OR ucast gen"

text \<open>
  \<open>decode_id\<close>: both the slot number and the number of slots are cast to \<open>int32\<close>; \<^const>\<open>None\<close> is
  the answer \<open>-1\<close>.
\<close>

definition decode_id :: "'d container \<Rightarrow> 64 word \<Rightarrow> nat option" where
  "decode_id c ident =
     (let slot_id = sint (ucast (drop_bit 32 ident) :: 32 word);
          gen = (ucast ident :: 32 word) in
      if slot_id < 0 \<or> slot_id \<ge> sint (word_of_nat (length (slots c)) :: 32 word) then None
      else if gen \<noteq> generation (slots c ! nat slot_id) then None
      else Some (nat slot_id))"

definition container_get :: "'d container \<Rightarrow> 64 word \<Rightarrow> 'd option" where
  "container_get c ident = map_option (\<lambda>i. data (slots c ! i)) (decode_id c ident)"

definition inc_generation :: "nat \<Rightarrow> 'd container \<Rightarrow> 'd container" where
  "inc_generation i c =
     c\<lparr>slots := (slots c)[i := (slots c ! i)\<lparr>generation := generation (slots c ! i) + generation_step\<rparr>]\<rparr>"

text \<open>\<open>release\<close>: the data becomes the default object \<open>dflt\<close>; an overflown generation is zero above the tag.\<close>

definition container_release :: "'d \<Rightarrow> nat \<Rightarrow> 'd container \<Rightarrow> 'd container" where
  "container_release dflt i c =
     (let c1 = inc_generation i c;
          c2 = c1\<lparr>slots := (slots c1)[i := (slots c1 ! i)\<lparr>data := dflt\<rparr>]\<rparr>
      in if generation (slots c2 ! i) AND NOT type_mask \<noteq> 0
         then c2\<lparr>empty_slots := empty_slots c2 @ [i]\<rparr> else c2)"

definition container_erase :: "'d \<Rightarrow> 64 word \<Rightarrow> 'd container \<Rightarrow> 'd container" where
  "container_erase dflt ident c =
     (case decode_id c ident of None \<Rightarrow> c | Some i \<Rightarrow> container_release dflt i c)"

text \<open>\<open>store\<close>: \<^const>\<open>None\<close> is the failed \<open>CHECK\<close> on the number of slots.\<close>

definition container_store :: "'d \<Rightarrow> 8 word \<Rightarrow> 'd container \<Rightarrow> (nat \<times> 'd container) option" where
  "container_store d ty c =
     (if empty_slots c \<noteq> [] then
        let pos = last (empty_slots c);
            g = generation (slots c ! pos)
        in Some (pos, c\<lparr>empty_slots := butlast (empty_slots c),
             slots := (slots c)[pos := \<lparr>generation = g XOR ((g AND type_mask) XOR ucast ty), data = d\<rparr>]\<rparr>)
      else if length (slots c) \<le> 2 ^ 31 - 1 then
        Some (length (slots c),
          c\<lparr>slots := slots c @ [\<lparr>generation = generation_step + ucast ty, data = d\<rparr>]\<rparr>)
      else None)"

definition container_create :: "'d \<Rightarrow> 8 word \<Rightarrow> 'd container \<Rightarrow> (64 word \<times> 'd container) option" where
  "container_create d ty c =
     map_option (\<lambda>(i, c'). (encode_id i (generation (slots c' ! i)), c')) (container_store d ty c)"

definition container_ids :: "'d container \<Rightarrow> 64 word list" where
  "container_ids c =
     map (\<lambda>i. encode_id i (generation (slots c ! i)))
       (filter (\<lambda>i. i \<notin> set (empty_slots c)) [0..<length (slots c)])"

definition container_size :: "'d container \<Rightarrow> nat" where
  "container_size c = length (slots c) - length (empty_slots c)"

definition container_empty :: "'d container \<Rightarrow> bool" where
  "container_empty c \<longleftrightarrow> container_size c = 0"

definition type_from_id :: "64 word \<Rightarrow> 8 word" where
  "type_from_id ident = ucast ident"

definition container_extract :: "'d \<Rightarrow> 64 word \<Rightarrow> 'd container \<Rightarrow> ('d \<times> 'd container) option" where
  "container_extract dflt ident c =
     map_option (\<lambda>i. (data (slots c ! i), container_release dflt i c)) (decode_id c ident)"

definition container_reset_id :: "64 word \<Rightarrow> 'd container \<Rightarrow> (64 word \<times> 'd container) option" where
  "container_reset_id ident c =
     map_option (\<lambda>i. let c' = inc_generation i c in (encode_id i (generation (slots c' ! i)), c')) (decode_id c ident)"

definition new_container :: "'d container" where
  "new_container = \<lparr>slots = [], empty_slots = []\<rparr>"

subsection \<open>Identifiers\<close>

text \<open>The part of the generation above the type tag.\<close>

definition epoch :: "32 word \<Rightarrow> nat" where
  "epoch g = unat g div 256"

definition id_slot :: "64 word \<Rightarrow> nat" where
  "id_slot ident = unat (ucast (drop_bit 32 ident) :: 32 word)"

definition id_epoch :: "64 word \<Rightarrow> nat" where
  "id_epoch ident = epoch (ucast ident)"

lemma ucast_encode_id [simp]: "(ucast (encode_id i g) :: 32 word) = g"
  by (rule bit_word_eqI) (auto simp: encode_id_def bit_simps)

lemma drop_bit_encode_id: "(ucast (drop_bit 32 (encode_id i g)) :: 32 word) = word_of_nat i"
proof (rule bit_word_eqI)
  fix n
  assume "n < LENGTH(32)"
  then show "bit (ucast (drop_bit 32 (encode_id i g)) :: 32 word) n = bit (word_of_nat i :: 32 word) n"
    using bit_imp_le_length [of g "32 + n"] by (auto simp: encode_id_def bit_simps)
qed

lemma id_slot_encode_id: "i < 2 ^ 32 \<Longrightarrow> id_slot (encode_id i g) = i"
  by (simp add: id_slot_def drop_bit_encode_id unat_of_nat)

lemma id_epoch_encode_id [simp]: "id_epoch (encode_id i g) = epoch g"
  by (simp add: id_epoch_def)

lemma unat_less_32: "unat (g :: 32 word) < 2 ^ 32"
  using unsigned_less [of g, where 'a = nat] by simp

lemma unat_less_8: "unat (g :: 8 word) < 256"
  using unsigned_less [of g, where 'a = nat] by simp

lemma type_mask_mask: "type_mask = mask 8"
  by (simp add: type_mask_def mask_eq_exp_minus_1)

lemma epoch_step: "epoch (g + generation_step) = (if epoch g = 2 ^ 24 - 1 then 0 else epoch g + 1)"
proof -
  have "unat g < 2 ^ 32" by (rule unat_less_32)
  moreover have "unat (g + generation_step) = (unat g + 256) mod 2 ^ 32"
    by (simp add: generation_step_def unat_word_ariths)
  ultimately show ?thesis
    by (auto simp: epoch_def mod_if div_le_mono)
qed

lemma epoch_lt: "epoch g < 2 ^ 24"
  using unat_less_32 [of g] by (simp add: epoch_def less_mult_imp_div_less)

lemma epoch_drop_bit: "epoch g = unat (drop_bit 8 g)"
  unfolding epoch_def by (simp only: unat_drop_bit_eq) (simp add: drop_bit_eq_div)

lemma epoch_retag: "epoch (g XOR ((g AND type_mask) XOR ucast (ty :: 8 word))) = epoch g"
proof -
  have "\<not> bit ty (8 + n)" for n using bit_imp_le_length [of ty "8 + n"] by auto
  then have "drop_bit 8 (g XOR ((g AND type_mask) XOR ucast ty)) = drop_bit 8 g"
    by (auto intro!: bit_word_eqI dest: bit_imp_le_length simp: bit_simps type_mask_mask)
  then show ?thesis by (simp add: epoch_drop_bit)
qed

lemma epoch_new: "epoch (generation_step + ucast (ty :: 8 word)) = 1"
proof -
  have "unat (ucast ty :: 32 word) = unat ty"
    using unat_less_8 [of ty] by (simp add: unsigned_ucast_eq take_bit_nat_eq_self)
  then have "unat (generation_step + (ucast ty :: 32 word)) = 256 + unat ty"
    using unat_less_8 [of ty] by (simp add: generation_step_def unat_word_ariths)
  with unat_less_8 [of ty] show ?thesis by (simp add: epoch_def)
qed

lemma overflow_iff: "g AND NOT type_mask \<noteq> 0 \<longleftrightarrow> epoch g \<noteq> 0"
proof -
  have "g AND NOT type_mask = push_bit 8 (drop_bit 8 g)"
    by (rule bit_word_eqI) (auto simp: type_mask_mask bit_simps)
  moreover have "push_bit 8 (drop_bit 8 g) = 0 \<longleftrightarrow> drop_bit 8 g = 0"
  proof
    assume "push_bit 8 (drop_bit 8 g) = 0"
    then have "drop_bit 8 (push_bit 8 (drop_bit 8 g)) = 0" by (simp only: drop_bit_of_0)
    moreover have "drop_bit 8 (push_bit 8 (drop_bit 8 g)) = drop_bit 8 g"
      by (rule bit_word_eqI) (auto simp: bit_simps dest: bit_imp_le_length)
    ultimately show "drop_bit 8 g = 0" by simp
  qed simp
  ultimately show ?thesis by (simp add: epoch_drop_bit unat_eq_0)
qed

lemma encode_id_split: "encode_id (id_slot ident) (ucast ident) = ident"
  by (rule bit_word_eqI) (auto simp: encode_id_def id_slot_def bit_simps)

lemma id_eqI: "id_slot a = id_slot b \<Longrightarrow> (ucast a :: 32 word) = ucast b \<Longrightarrow> a = b"
  by (metis encode_id_split)

lemma sint_32: "sint (w :: 32 word) = (if unat w < 2 ^ 31 then int (unat w) else int (unat w) - 2 ^ 32)"
proof -
  obtain n where n: "unat w = n" "uint w = int n" by (simp add: uint_nat)
  have "n < 2 ^ 32" using unat_less_32 [of w] n by simp
  moreover have "sint w = (int n + 2 ^ 31) mod 2 ^ 32 - 2 ^ 31"
    using int_word_sint [of "uint w", where 'a = 32] unfolding word_of_int_uint unfolding n(2) by simp
  moreover have "(int n + 2 ^ 31) mod 2 ^ 32 = (int n - 2 ^ 31) mod 2 ^ 32"
    using mod_add_self2 [of "int n - 2 ^ 31" "2 ^ 32"] by (simp add: add.commute)
  ultimately show ?thesis unfolding n(1) by (cases "n < 2 ^ 31") auto
qed

lemma decode_id_small:
  assumes "length (slots c) < 2 ^ 31"
  shows "decode_id c ident =
    (if id_slot ident < length (slots c) \<and> generation (slots c ! id_slot ident) = ucast ident
     then Some (id_slot ident) else None)"
proof -
  have "unat (word_of_nat (length (slots c)) :: 32 word) = length (slots c)"
    using assms by (simp add: unat_of_nat)
  then show ?thesis
    using assms unat_less_32 [of "ucast (drop_bit 32 ident)"]
    by (auto simp: decode_id_def Let_def sint_32 id_slot_def [symmetric])
qed

lemma container_get_small:
  assumes "length (slots c) < 2 ^ 31"
  shows "container_get c ident =
    (if id_slot ident < length (slots c) \<and> generation (slots c ! id_slot ident) = ucast ident
     then Some (data (slots c ! id_slot ident)) else None)"
  by (simp add: container_get_def decode_id_small [OF assms])

subsection \<open>The interface\<close>

text \<open>
  What a user of the table relies on. \<open>rel c issued m\<close>: the table \<open>c\<close> has issued the identifiers
  \<open>issued\<close>, and \<open>m\<close> is the partial map of the objects created and not yet erased.
\<close>

locale id_store =
  fixes rel :: "'c \<Rightarrow> 'id list \<Rightarrow> ('id \<rightharpoonup> 'd) \<Rightarrow> bool"
    and room :: "'c \<Rightarrow> bool"
    and get :: "'c \<Rightarrow> 'id \<Rightarrow> 'd option"
    and create :: "'d \<Rightarrow> 'c \<Rightarrow> ('id \<times> 'c) option"
    and erase :: "'id \<Rightarrow> 'c \<Rightarrow> 'c"
  assumes rel_distinct: "rel c issued m \<Longrightarrow> distinct issued"
    and rel_dom: "rel c issued m \<Longrightarrow> dom m \<subseteq> set issued"
    and rel_get: "rel c issued m \<Longrightarrow> ident \<in> set issued \<Longrightarrow> get c ident = m ident"
    and rel_create: "rel c issued m \<Longrightarrow> room c \<Longrightarrow>
      \<exists>ident c'. create d c = Some (ident, c') \<and> ident \<notin> set issued \<and> rel c' (ident # issued) (m(ident \<mapsto> d))"
    and rel_erase: "rel c issued m \<Longrightarrow> ident \<in> set issued \<Longrightarrow> rel (erase ident c) issued (m(ident := None))"
begin

lemma create_get:
  assumes "rel c issued m" and "room c" and "create d c = Some (ident, c')"
  shows "get c' ident = Some d" and "m ident = None"
    and "other \<in> set issued \<Longrightarrow> get c' other = get c other"
proof -
  have fresh: "ident \<notin> set issued" and rel': "rel c' (ident # issued) (m(ident \<mapsto> d))"
    using rel_create [OF assms(1,2), of d] assms(3) by auto
  show "get c' ident = Some d" using rel_get [OF rel'] by simp
  show "m ident = None" using fresh rel_dom [OF assms(1)] by auto
  show "get c' other = get c other" if "other \<in> set issued"
    using that fresh rel_get [OF rel', of other] rel_get [OF assms(1), of other] by auto
qed

lemma erase_get:
  assumes "rel c issued m" and "ident \<in> set issued" and "other \<in> set issued"
  shows "get (erase ident c) other = (if other = ident then None else get c other)"
  using rel_get [OF rel_erase [OF assms(1,2)] assms(3)] rel_get [OF assms(1,3)] by simp

lemma stays_erased:
  assumes "rel c issued m" and "room c" and "create d c = Some (ident, c')"
    and "old \<in> set issued" and "get c old = None"
  shows "get c' old = None"
  using create_get(3) [OF assms(1-3) assms(4)] assms(5) by simp

end

subsection \<open>The table provides the interface\<close>

definition container_rel :: "'d container \<Rightarrow> 64 word list \<Rightarrow> (64 word \<rightharpoonup> 'd) \<Rightarrow> bool" where
  "container_rel c issued m \<longleftrightarrow>
     length (slots c) < 2 ^ 31 \<and> distinct (empty_slots c) \<and> distinct issued \<and>
     (\<forall>i \<in> set (empty_slots c). i < length (slots c) \<and> epoch (generation (slots c ! i)) \<noteq> 0) \<and>
     (\<forall>ident \<in> set issued. id_slot ident < length (slots c) \<and> id_epoch ident \<noteq> 0 \<and>
        (epoch (generation (slots c ! id_slot ident)) \<noteq> 0 \<longrightarrow>
           id_epoch ident \<le> epoch (generation (slots c ! id_slot ident)) \<and>
           (id_slot ident \<in> set (empty_slots c) \<longrightarrow>
              id_epoch ident < epoch (generation (slots c ! id_slot ident))))) \<and>
     (\<forall>i < length (slots c). i \<notin> set (empty_slots c) \<and> epoch (generation (slots c ! i)) \<noteq> 0 \<longrightarrow>
        encode_id i (generation (slots c ! i)) \<in> set issued) \<and>
     dom m \<subseteq> set issued \<and> (\<forall>ident \<in> set issued. container_get c ident = m ident)"

definition container_room :: "'d container \<Rightarrow> bool" where
  "container_room c \<longleftrightarrow> empty_slots c \<noteq> [] \<or> length (slots c) < 2 ^ 31 - 1"

lemma container_rel_new: "container_rel new_container [] Map.empty"
  by (simp add: container_rel_def new_container_def)

lemma id_epoch_ucast: "generation s = ucast ident \<Longrightarrow> id_epoch ident = epoch (generation s)"
  by (simp add: id_epoch_def)

lemma last_not_in_butlast: "distinct xs \<Longrightarrow> xs \<noteq> [] \<Longrightarrow> last xs \<notin> set (butlast xs)"
  by (metis append_butlast_last_id distinct_butlast not_distinct_conv_prefix)

lemma container_rel_reuse:
  assumes rel: "container_rel c issued m" and ne: "empty_slots c \<noteq> []"
    and pos: "pos = last (empty_slots c)" and ep: "epoch g = epoch (generation (slots c ! pos))"
    and c': "c' = c\<lparr>empty_slots := butlast (empty_slots c), slots := (slots c)[pos := \<lparr>generation = g, data = d\<rparr>]\<rparr>"
  shows "encode_id pos g \<notin> set issued \<and> container_rel c' (encode_id pos g # issued) (m(encode_id pos g \<mapsto> d))"
proof -
  have len: "length (slots c) < 2 ^ 31" using rel by (simp add: container_rel_def)
  have posin: "pos \<in> set (empty_slots c)" using ne pos by simp
  then have poslt: "pos < length (slots c)" and ep0: "epoch g \<noteq> 0" using rel ep by (auto simp: container_rel_def)
  have dist: "pos \<notin> set (butlast (empty_slots c))"
    using rel ne pos by (simp add: container_rel_def last_not_in_butlast)
  have sub: "set (empty_slots c) = insert pos (set (butlast (empty_slots c)))"
    using ne pos by (metis append_butlast_last_id rotate1.simps(2) set_rotate1 Un_insert_right list.simps(15) set_append sup_bot_right empty_set)
  have slot: "id_slot (encode_id pos g) = pos" using poslt len by (simp add: id_slot_encode_id)
  have old: "id_epoch ident < epoch g" if "ident \<in> set issued" "id_slot ident = pos" for ident
    using rel posin that ep ep0 by (auto simp: container_rel_def)
  have fresh: "encode_id pos g \<notin> set issued" using old slot by fastforce
  have get': "container_get c' ident = (if id_slot ident = pos then if ucast ident = g then Some d else None
      else container_get c ident)" for ident
    using len poslt by (auto simp: c' container_get_small)
  have get_old: "container_get c' ident = m ident" if "ident \<in> set issued" for ident
  proof (cases "id_slot ident = pos")
    case True
    have "id_epoch ident < epoch g" using old [OF that True] .
    then have ne: "ucast ident \<noteq> g" "ucast ident \<noteq> generation (slots c ! pos)"
      using ep by (auto simp: id_epoch_def)
    have "m ident = container_get c ident" using rel that by (simp add: container_rel_def)
    with True ne show ?thesis using len by (auto simp: get' container_get_small)
  qed (use rel that in \<open>simp add: get' container_rel_def\<close>)
  have "container_rel c' (encode_id pos g # issued) (m(encode_id pos g \<mapsto> d))"
    unfolding container_rel_def
  proof (intro conjI)
    show "\<forall>ident \<in> set (encode_id pos g # issued).
        container_get c' ident = (m(encode_id pos g \<mapsto> d)) ident"
      using get_old fresh by (auto simp: get' slot)
  qed (use rel poslt dist sub slot fresh ep0 old in
      \<open>auto simp: container_rel_def c' nth_list_update distinct_butlast less_imp_le\<close>)
  with fresh show ?thesis by simp
qed

lemma container_rel_grow:
  assumes rel: "container_rel c issued m" and room: "length (slots c) < 2 ^ 31 - 1" and ep: "epoch g = 1"
    and c': "c' = c\<lparr>slots := slots c @ [\<lparr>generation = g, data = d\<rparr>]\<rparr>" and i: "i = length (slots c)"
  shows "encode_id i g \<notin> set issued \<and> container_rel c' (encode_id i g # issued) (m(encode_id i g \<mapsto> d))"
proof -
  have slot: "id_slot (encode_id i g) = i" using room i by (simp add: id_slot_encode_id)
  have lt: "id_slot ident < length (slots c)" if "ident \<in> set issued" for ident
    using rel that by (auto simp: container_rel_def)
  have fresh: "encode_id i g \<notin> set issued" using lt slot i by fastforce
  have get': "container_get c' ident = container_get c ident" if "id_slot ident < length (slots c)" for ident
    using room that by (auto simp: c' container_get_small nth_append)
  have new: "container_get c' (encode_id i g) = Some d"
    using room slot i by (simp add: c' container_get_small)
  have "container_rel c' (encode_id i g # issued) (m(encode_id i g \<mapsto> d))"
    unfolding container_rel_def
  proof (intro conjI)
    show "\<forall>ident \<in> set (encode_id i g # issued). container_get c' ident = (m(encode_id i g \<mapsto> d)) ident"
      using rel fresh new lt get' by (auto simp: container_rel_def)
  qed (use rel room slot fresh ep i lt in \<open>auto simp: container_rel_def c' nth_append less_Suc_eq\<close>)
  with fresh show ?thesis by simp
qed

lemma container_create_rel:
  assumes "container_rel c issued m" and "container_room c"
  shows "\<exists>ident c'. container_create d ty c = Some (ident, c') \<and> ident \<notin> set issued \<and>
    container_rel c' (ident # issued) (m(ident \<mapsto> d))"
proof (cases "empty_slots c = []")
  case True
  with assms have "length (slots c) < 2 ^ 31 - 1" by (simp add: container_room_def)
  from container_rel_grow [OF assms(1) this epoch_new [of ty] refl refl, of d] this True show ?thesis
    by (simp add: container_create_def container_store_def nth_append)
next
  case False
  then have "last (empty_slots c) < length (slots c)"
    using assms(1) by (simp add: container_rel_def)
  with container_rel_reuse [OF assms(1) False refl epoch_retag [of _ ty] refl, of d] False show ?thesis
    by (simp add: container_create_def container_store_def Let_def)
qed

lemma slot_update: "(s :: 'd slot)\<lparr>generation := g, data := d\<rparr> = \<lparr>generation = g, data = d\<rparr>"
  by (cases s) simp

lemma container_erase_rel:
  assumes rel: "container_rel c issued m" and ident: "ident \<in> set issued"
  shows "container_rel (container_erase dflt ident c) issued (m(ident := None))"
proof (cases "decode_id c ident")
  case None
  then have "m ident = None" using assms by (auto simp: container_rel_def container_get_def)
  then show ?thesis using rel None by (simp add: container_erase_def)
next
  case (Some i)
  have len: "length (slots c) < 2 ^ 31" using rel by (simp add: container_rel_def)
  from Some have i: "i = id_slot ident" "i < length (slots c)" and gen: "generation (slots c ! i) = ucast ident"
    by (auto simp: decode_id_small [OF len] split: if_splits)
  define g where "g = generation (slots c ! i) + generation_step"
  define c' where "c' = container_erase dflt ident c"
  have c': "c' = c\<lparr>slots := (slots c)[i := \<lparr>generation = g, data = dflt\<rparr>],
      empty_slots := (if epoch g \<noteq> 0 then empty_slots c @ [i] else empty_slots c)\<rparr>"
    using Some i(2) by (simp add: c'_def container_erase_def container_release_def inc_generation_def Let_def
        overflow_iff g_def slot_update)
  have ep: "id_epoch ident = epoch (generation (slots c ! i))" by (simp add: gen id_epoch_def)
  have inv: "id_epoch other \<noteq> 0 \<and> (epoch (generation (slots c ! id_slot other)) \<noteq> 0 \<longrightarrow>
      id_epoch other \<le> epoch (generation (slots c ! id_slot other)) \<and>
      (id_slot other \<in> set (empty_slots c) \<longrightarrow> id_epoch other < epoch (generation (slots c ! id_slot other))))"
    if "other \<in> set issued" for other
    using rel that unfolding container_rel_def by blast
  have old: "id_epoch other \<noteq> 0 \<and> id_epoch other \<le> epoch (generation (slots c ! i))"
    if "other \<in> set issued" "id_slot other = i" for other
    using inv [OF that(1)] inv [OF ident] that(2) ep i(1) by simp
  have notfree: "i \<notin> set (empty_slots c)" using inv [OF ident] ep i(1) by auto
  have lt: "id_epoch other < epoch g" if "other \<in> set issued" "id_slot other = i" "epoch g \<noteq> 0" for other
    using old [OF that(1,2)] that(3) by (auto simp: g_def epoch_step split: if_splits)
  then have stale: "ucast other \<noteq> g" if "other \<in> set issued" "id_slot other = i" for other
    using that old [OF that] by (force simp: id_epoch_def)
  have uniq: "ucast other \<noteq> generation (slots c ! i)" if "id_slot other = i" "other \<noteq> ident" for other
    using that i gen id_eqI by metis
  have get: "container_get c' other = (m(ident := None)) other" if "other \<in> set issued" for other
  proof (cases "id_slot other = i")
    case True
    have "m other = container_get c other" using rel that by (simp add: container_rel_def)
    with True stale [OF that True] uniq [OF True] show ?thesis
      using len i(2) by (cases "other = ident") (auto simp: container_get_small c')
  next
    case False
    then have "container_get c' other = container_get c other" using len i by (simp add: container_get_small c')
    with False i show ?thesis using rel that by (auto simp: container_rel_def)
  qed
  have "container_rel c' issued (m(ident := None))"
    unfolding container_rel_def
  proof (intro conjI)
    show "\<forall>other \<in> set issued. container_get c' other = (m(ident := None)) other" using get by blast
  qed (use rel i old lt notfree in \<open>auto simp: container_rel_def c' nth_list_update less_imp_le\<close>)
  then show ?thesis by (simp only: c'_def)
qed

interpretation ids: id_store container_rel container_room container_get "\<lambda>d. container_create d ty"
  "container_erase dflt" for ty dflt
proof
  show "container_rel c issued m \<Longrightarrow> ident \<in> set issued \<Longrightarrow>
      container_rel (container_erase dflt ident c) issued (m(ident := None))" for c issued m ident
    by (rule container_erase_rel)
  show "container_rel c issued m \<Longrightarrow> container_room c \<Longrightarrow>
      \<exists>ident c'. container_create d ty c = Some (ident, c') \<and> ident \<notin> set issued \<and>
        container_rel c' (ident # issued) (m(ident \<mapsto> d))" for c issued m d
    by (rule container_create_rel)
qed (auto simp: container_rel_def)

subsection \<open>Histories\<close>

text \<open>
  A history of a table: creations, and erasures of identifiers that were issued before. Beside the
  table run the issued identifiers and the partial map the history specifies.
\<close>

datatype 'd container_op = Create_Op 'd "8 word" | Erase_Op "64 word"

fun container_run ::
  "'d \<Rightarrow> 'd container_op list \<Rightarrow> 'd container \<times> 64 word list \<times> (64 word \<rightharpoonup> 'd) \<Rightarrow>
   ('d container \<times> 64 word list \<times> (64 word \<rightharpoonup> 'd)) option"
where
  "container_run dflt [] st = Some st"
| "container_run dflt (Create_Op d ty # ops) (c, issued, m) =
     (case container_create d ty c of
        None \<Rightarrow> None
      | Some (ident, c') \<Rightarrow> container_run dflt ops (c', ident # issued, m(ident \<mapsto> d)))"
| "container_run dflt (Erase_Op ident # ops) (c, issued, m) =
     (if ident \<in> set issued then container_run dflt ops (container_erase dflt ident c, issued, m(ident := None))
      else None)"

lemma container_create_length:
  "container_create d ty c = Some (ident, c') \<Longrightarrow> length (slots c) \<le> length (slots c') \<and>
    (container_room c \<or> 2 ^ 31 \<le> length (slots c'))"
  by (auto simp: container_create_def container_store_def container_room_def Let_def split: if_splits)

lemma container_erase_length: "length (slots (container_erase dflt ident c)) = length (slots c)"
  by (simp add: container_erase_def container_release_def inc_generation_def Let_def split: option.split)

lemma container_run_length:
  "container_run dflt ops (c, issued, m) = Some (c', issued', m') \<Longrightarrow> length (slots c) \<le> length (slots c')"
proof (induction dflt ops "(c, issued, m)" arbitrary: c issued m rule: container_run.induct)
  case (2 dflt d ty ops c issued m)
  then show ?case by (auto dest: container_create_length split: option.splits intro: order_trans)
next
  case (3 dflt ident ops c issued m)
  then show ?case by (auto simp: container_erase_length split: if_splits)
qed auto

lemma container_run_rel:
  "container_run dflt ops (c, issued, m) = Some (c', issued', m') \<Longrightarrow> length (slots c') < 2 ^ 31 \<Longrightarrow>
    container_rel c issued m \<Longrightarrow> container_rel c' issued' m'"
proof (induction dflt ops "(c, issued, m)" arbitrary: c issued m rule: container_run.induct)
  case (2 dflt d ty ops c issued m)
  obtain ident c1 where c1: "container_create d ty c = Some (ident, c1)"
    and run: "container_run dflt ops (c1, ident # issued, m(ident \<mapsto> d)) = Some (c', issued', m')"
    using "2.prems"(1) by (auto split: option.splits)
  have "container_room c"
    using container_create_length [OF c1] container_run_length [OF run] "2.prems"(2) by auto
  then have "container_rel c1 (ident # issued) (m(ident \<mapsto> d))"
    using container_create_rel [OF "2.prems"(3), of d ty] c1 by auto
  then show ?case by (rule "2.hyps" [OF c1 refl run "2.prems"(2)])
next
  case (3 dflt ident ops c issued m)
  then show ?case by (auto intro: container_erase_rel split: if_splits)
qed auto

lemma zero_not_issued: "container_rel c issued m \<Longrightarrow> 0 \<notin> set issued"
  by (auto simp: container_rel_def id_epoch_def epoch_def)

lemma container_rel_ids:
  assumes rel: "container_rel c issued m"
    and alive: "\<forall>i < length (slots c). epoch (generation (slots c ! i)) \<noteq> 0"
  shows "set (container_ids c) = dom m" and "container_size c = card (dom m)"
proof -
  have len: "length (slots c) < 2 ^ 31" and dist: "distinct (empty_slots c)"
    and sub: "set (empty_slots c) \<subseteq> {..<length (slots c)}"
    using rel by (auto simp: container_rel_def)
  let ?enc = "\<lambda>i. encode_id i (generation (slots c ! i))"
  let ?used = "{..<length (slots c)} - set (empty_slots c)"
  have issued: "?enc i \<in> set issued" if "i \<in> ?used" for i
    using rel alive that by (auto simp: container_rel_def)
  have slot: "id_slot (?enc i) = i" if "i < length (slots c)" for i
    using that len by (simp add: id_slot_encode_id)
  have "ident \<in> ?enc ` ?used" if "ident \<in> dom m" for ident
  proof -
    have "ident \<in> set issued" "container_get c ident = m ident" using rel that by (auto simp: container_rel_def)
    moreover from this that have lt: "id_slot ident < length (slots c)"
      and gen: "generation (slots c ! id_slot ident) = ucast ident"
      by (auto simp: container_get_small [OF len] split: if_splits)
    ultimately have "id_slot ident \<notin> set (empty_slots c)"
      using rel by (auto simp: container_rel_def id_epoch_def)
    then have "id_slot ident \<in> ?used" using lt by simp
    then have "?enc (id_slot ident) \<in> ?enc ` ?used" by (rule imageI)
    then show ?thesis by (simp only: gen encode_id_split)
  qed
  moreover have "?enc i \<in> dom m" if "i \<in> ?used" for i
  proof -
    have "container_get c (?enc i) \<noteq> None" using that slot by (simp add: container_get_small [OF len])
    moreover have "container_get c (?enc i) = m (?enc i)" using rel issued [OF that] by (simp add: container_rel_def)
    ultimately show ?thesis by auto
  qed
  ultimately have dom: "dom m = ?enc ` ?used" by blast
  moreover have "set (container_ids c) = ?enc ` ?used" by (auto simp: container_ids_def)
  ultimately show "set (container_ids c) = dom m" by simp
  have "inj_on ?enc ?used" using slot by (intro inj_on_inverseI [where g = id_slot]) auto
  then have "card (dom m) = card ?used" by (simp add: dom card_image)
  also have "\<dots> = length (slots c) - card (set (empty_slots c))"
    using sub by (simp add: card_Diff_subset)
  finally show "container_size c = card (dom m)" by (simp add: container_size_def distinct_card [OF dist])
qed

text \<open>
  (C30) Whatever is created and erased, an identifier is never issued twice and never zero, and looking
  up any identifier ever issued gives the object created under it, or nothing once it was erased, also
  when its slot has been reused. As long as no slot has exhausted its generations, the table
  enumerates exactly the live objects and counts them.
\<close>

theorem container_refines_map:
  assumes "container_run dflt ops (new_container, [], Map.empty) = Some (c, issued, m)"
    and "length (slots c) < 2 ^ 31"
  shows "distinct issued \<and> 0 \<notin> set issued \<and> (\<forall>ident \<in> set issued. container_get c ident = m ident) \<and>
    ((\<forall>i < length (slots c). epoch (generation (slots c ! i)) \<noteq> 0) \<longrightarrow>
       set (container_ids c) = dom m \<and> container_size c = card (dom m))"
proof -
  have rel: "container_rel c issued m" by (rule container_run_rel [OF assms container_rel_new])
  then show ?thesis
    using ids.rel_distinct [OF rel] ids.rel_get [OF rel] zero_not_issued [OF rel] container_rel_ids [OF rel] by auto
qed

theorem container_refines_map_witness:
  "distinct [0x0000000000000200 :: 64 word, 0x0000000000000100] \<and>
   container_get \<lparr>slots = [\<lparr>generation = 0x200, data = CHR ''b''\<rparr>], empty_slots = []\<rparr> 0x100 = None"
proof -
  have "container_run CHR ''x'' [Create_Op CHR ''a'' 0, Erase_Op 0x100, Create_Op CHR ''b'' 0]
      (new_container, [], Map.empty) =
    Some (\<lparr>slots = [\<lparr>generation = 0x200, data = CHR ''b''\<rparr>], empty_slots = []\<rparr>, [0x200, 0x100],
      Map.empty(0x100 \<mapsto> CHR ''a'', 0x100 := None, 0x200 \<mapsto> CHR ''b''))"
    by (simp add: new_container_def container_create_def container_store_def container_erase_def decode_id_def
        container_release_def inc_generation_def encode_id_def generation_step_def type_mask_def)
  from container_refines_map [OF this] show ?thesis by auto
qed

subsection \<open>Exhausted slots\<close>

text \<open>One object created and erased again.\<close>

definition create_erase :: "'d \<Rightarrow> 'd \<Rightarrow> 'd container \<Rightarrow> 'd container" where
  "create_erase dflt d c =
     (case container_create d 0 c of None \<Rightarrow> c | Some (ident, c') \<Rightarrow> container_erase dflt ident c')"

lemma create_erase_first:
  "create_erase dflt d new_container = \<lparr>slots = [\<lparr>generation = 512, data = dflt\<rparr>], empty_slots = [0]\<rparr>"
  by (simp add: create_erase_def new_container_def container_create_def container_store_def container_erase_def
      decode_id_def container_release_def inc_generation_def encode_id_def generation_step_def type_mask_def)

lemma retag_zero: "epoch g \<noteq> 0 \<Longrightarrow> g AND type_mask = 0 \<Longrightarrow> g XOR ((g AND type_mask) XOR ucast (0 :: 8 word)) = g"
  by simp

lemma create_erase_one_slot:
  assumes "g AND type_mask = 0"
  shows "create_erase dflt d \<lparr>slots = [\<lparr>generation = g, data = x\<rparr>], empty_slots = [0]\<rparr> =
    \<lparr>slots = [\<lparr>generation = g + generation_step, data = dflt\<rparr>],
     empty_slots = (if epoch (g + generation_step) \<noteq> 0 then [0] else [])\<rparr>"
proof -
  have slot0: "id_slot (encode_id 0 g) = 0" by (simp add: id_slot_encode_id)
  have "container_create d 0 \<lparr>slots = [\<lparr>generation = g, data = x\<rparr>], empty_slots = [0]\<rparr> =
      Some (encode_id 0 g, \<lparr>slots = [\<lparr>generation = g, data = d\<rparr>], empty_slots = []\<rparr>)"
    using assms by (simp add: container_create_def container_store_def)
  moreover have "decode_id \<lparr>slots = [\<lparr>generation = g, data = d\<rparr>], empty_slots = []\<rparr> (encode_id 0 g) = Some 0"
    by (simp add: decode_id_small slot0)
  ultimately show ?thesis
    by (simp add: create_erase_def container_erase_def container_release_def inc_generation_def overflow_iff)
qed

lemma and_type_mask_multiple: "word_of_nat (256 * n) AND type_mask = 0"
proof -
  have "word_of_nat (256 * n) = push_bit 8 (word_of_nat n :: 32 word)"
    by (simp add: push_bit_eq_mult)
  then show ?thesis by (auto intro!: bit_word_eqI simp: type_mask_mask bit_simps)
qed

lemma epoch_of_nat: "n < 2 ^ 24 \<Longrightarrow> epoch (word_of_nat (256 * n)) = n"
  by (simp add: epoch_def unat_of_nat del: of_nat_mult)

lemma create_erase_iter:
  "n < 2 ^ 24 - 2 \<Longrightarrow> (create_erase dflt d ^^ Suc n) new_container =
     \<lparr>slots = [\<lparr>generation = word_of_nat (256 * (n + 2)), data = dflt\<rparr>], empty_slots = [0]\<rparr>"
proof (induction n)
  case (Suc n)
  have step: "word_of_nat (256 * (n + 2)) + generation_step = word_of_nat (256 * (Suc n + 2))"
    by (simp add: generation_step_def)
  have "epoch (word_of_nat (256 * (Suc n + 2))) = Suc n + 2" using Suc.prems by (intro epoch_of_nat) simp
  then show ?case
    using Suc create_erase_one_slot [OF and_type_mask_multiple, of dflt d "n + 2" dflt]
    by (simp only: funpow.simps o_apply step) simp
qed (simp add: create_erase_first)

text \<open>
  A slot that has been used and freed as often as its generation counter allows is retired but
  stays counted: a table in which one object at a time was created and erased
  \<open>2 ^ 24 - 1\<close> times holds no object, yet its size is 1 and its enumeration lists the identifier 0.
\<close>

lemma exhausted_slot_stays_counted:
  "(create_erase dflt d ^^ (2 ^ 24 - 1)) new_container =
     \<lparr>slots = [\<lparr>generation = 0, data = dflt\<rparr>], empty_slots = []\<rparr> \<and>
   container_size ((create_erase dflt d ^^ (2 ^ 24 - 1)) new_container) = 1 \<and>
   container_ids ((create_erase dflt d ^^ (2 ^ 24 - 1)) new_container) = [0]"
proof -
  define n :: nat where "n = 2 ^ 24 - 3"
  have n: "n < 2 ^ 24 - 2" "2 ^ 24 - 1 = Suc (Suc n)" by (simp_all add: n_def)
  have wrap: "word_of_nat (256 * (n + 2)) + generation_step = 0"
    by (simp add: n_def generation_step_def word_eq_iff_unsigned)
  have "(create_erase dflt d ^^ (2 ^ 24 - 1)) new_container =
      \<lparr>slots = [\<lparr>generation = 0, data = dflt\<rparr>], empty_slots = []\<rparr>"
    unfolding n(2) funpow.simps(2) [of "Suc n"] o_apply create_erase_iter [OF n(1)]
      create_erase_one_slot [OF and_type_mask_multiple] wrap by (simp add: epoch_def)
  then show ?thesis by (simp only:) (simp add: container_size_def container_ids_def encode_id_def)
qed

end
