(* ===== verification/Flood_Control.thy ===== *)
theory Flood_Control
  imports Prelude
begin

section \<open>Flood control \<open>td::FloodControlFast\<close>\<close>

text \<open>
  \<open>tdutils/td/utils/FloodControlFast.h\<close>: one leaky bucket per limit, and the latest of their wake-up
  times. \<open>ClientManager\<close> creates a client only when the wake-up time has come. Times and volumes are
  exact reals; a failed \<open>CHECK\<close> is \<^const>\<open>None\<close>.
\<close>

subsection \<open>Definitions\<close>

record bucket =
  max_capacity :: real
  speed :: real
  volume :: real
  volume_at :: real
  bucket_wakeup_at :: real

definition new_bucket :: "real \<Rightarrow> real \<Rightarrow> bucket" where
  "new_bucket duration count =
     \<lparr>max_capacity = count - 1, speed = count / duration, volume = count - 1, volume_at = 0, bucket_wakeup_at = 0\<rparr>"

definition update_volume :: "real \<Rightarrow> bucket \<Rightarrow> bucket option" where
  "update_volume now b =
     (if now \<ge> volume_at b
      then Some (b\<lparr>volume := min (volume b + (now - volume_at b) * speed b) (max_capacity b), volume_at := now\<rparr>)
      else None)"

definition bucket_add_event :: "real \<Rightarrow> bucket \<Rightarrow> bucket option" where
  "bucket_add_event now b =
     (if now \<ge> bucket_wakeup_at b then
        case update_volume now b of
          None \<Rightarrow> None
        | Some b1 \<Rightarrow>
            if volume b1 \<ge> 1 then Some (b1\<lparr>volume := volume b1 - 1\<rparr>)
            else let w = volume_at b1 + (1 - volume b1) / speed b1
                 in Some (b1\<lparr>volume := 0, bucket_wakeup_at := w, volume_at := w\<rparr>)
      else None)"

definition bucket_clear_events :: "bucket \<Rightarrow> bucket" where
  "bucket_clear_events b = b\<lparr>volume := max_capacity b, volume_at := 0, bucket_wakeup_at := 0\<rparr>"

record flood_control =
  wakeup_at :: real
  buckets :: "bucket list"

definition new_flood_control :: flood_control where
  "new_flood_control = \<lparr>wakeup_at = 0, buckets = []\<rparr>"

definition add_limit :: "real \<Rightarrow> real \<Rightarrow> flood_control \<Rightarrow> flood_control" where
  "add_limit duration count fc = fc\<lparr>buckets := buckets fc @ [new_bucket duration count]\<rparr>"

text \<open>The loop of \<open>add_event\<close> over the buckets, with the wake-up time it accumulates.\<close>

fun add_event_loop :: "real \<Rightarrow> real \<Rightarrow> bucket list \<Rightarrow> (real \<times> bucket list) option" where
  "add_event_loop now w [] = Some (w, [])"
| "add_event_loop now w (b # bs) =
     (case bucket_add_event now b of
        None \<Rightarrow> None
      | Some b' \<Rightarrow>
          map_option (\<lambda>(w', bs'). (w', b' # bs')) (add_event_loop now (max w (bucket_wakeup_at b')) bs))"

definition flood_add_event :: "real \<Rightarrow> flood_control \<Rightarrow> flood_control option" where
  "flood_add_event now fc =
     map_option (\<lambda>(w, bs). \<lparr>wakeup_at = w, buckets = bs\<rparr>) (add_event_loop now (wakeup_at fc) (buckets fc))"

definition clear_events :: "flood_control \<Rightarrow> flood_control" where
  "clear_events fc = \<lparr>wakeup_at = 0, buckets = map bucket_clear_events (buckets fc)\<rparr>"

subsection \<open>Buckets\<close>

text \<open>What a bucket holds at a time, were nothing to happen until then and its capacity unbounded.\<close>

definition level :: "bucket \<Rightarrow> real \<Rightarrow> real" where
  "level b t = volume b + (t - volume_at b) * speed b"

definition bucket_ok :: "real \<Rightarrow> real \<Rightarrow> real \<Rightarrow> bucket \<Rightarrow> bool" where
  "bucket_ok count duration now b \<longleftrightarrow>
     max_capacity b = count - 1 \<and> speed b = count / duration \<and> 0 \<le> volume b \<and>
     (volume_at b \<le> now \<or> volume_at b = bucket_wakeup_at b)"

lemma wait_refills: "0 < r \<Longrightarrow> (t - (now + (1 - v) / r)) * r = (t - now) * r - (1 - v)" for r :: real
  by (simp add: field_simps)

lemma bucket_add_event_ok:
  assumes ok: "bucket_ok count duration prev b" and le: "prev \<le> now" "bucket_wakeup_at b \<le> now"
    and lim: "1 \<le> count" "0 < duration"
  shows "\<exists>b'. bucket_add_event now b = Some b' \<and> bucket_ok count duration now b' \<and>
    level b' t \<le> level b t - 1 \<and> level b' t \<le> count - 2 + (t - now) * (count / duration) \<and>
    0 \<le> level b now \<and> bucket_wakeup_at b' \<le> now + duration / count"
proof -
  have at_le: "volume_at b \<le> now" using ok le by (auto simp: bucket_ok_def)
  have sp: "speed b = count / duration" using ok by (simp add: bucket_ok_def)
  have pos: "0 < count / duration" using lim by simp
  define v where "v = min (volume b + (now - volume_at b) * speed b) (count - 1)"
  have filled: "0 \<le> (now - volume_at b) * speed b" using at_le pos ok by (intro mult_nonneg_nonneg) (auto simp: bucket_ok_def)
  then have v: "0 \<le> v" "v \<le> level b now" "v \<le> count - 1" "0 \<le> level b now"
    using ok lim by (auto simp: v_def level_def bucket_ok_def)
  have upd: "update_volume now b = Some (b\<lparr>volume := v, volume_at := now\<rparr>)"
    using at_le ok by (simp add: update_volume_def v_def bucket_ok_def)
  have lev: "level b t = level b now + (t - now) * (count / duration)"
    unfolding sp [symmetric] by (simp add: level_def algebra_simps)
  show ?thesis
  proof (cases "1 \<le> v")
    case True
    then have "bucket_add_event now b = Some (b\<lparr>volume := v - 1, volume_at := now\<rparr>)"
      using le by (simp add: bucket_add_event_def upd)
    with True v ok lev le lim show ?thesis
      by (auto simp: bucket_ok_def level_def intro: add_nonneg_nonneg order_trans [OF le(2)])
  next
    case False
    define w where "w = now + (1 - v) / (count / duration)"
    have b': "bucket_add_event now b = Some (b\<lparr>volume := 0, volume_at := w, bucket_wakeup_at := w\<rparr>)"
      using False le ok by (simp add: bucket_add_event_def upd w_def bucket_ok_def Let_def)
    have "(t - w) * (count / duration) = (t - now) * (count / duration) - (1 - v)"
      unfolding w_def by (rule wait_refills [OF pos])
    moreover have "w \<le> now + duration / count"
      using v(1) pos lim by (simp add: w_def divide_right_mono mult_left_le_one_le field_simps)
    ultimately show ?thesis
      using v ok lev by (auto simp: b' bucket_ok_def level_def)
  qed
qed

subsection \<open>All limits\<close>

definition flood_ok :: "(real \<times> real) list \<Rightarrow> real \<Rightarrow> flood_control \<Rightarrow> bool" where
  "flood_ok limits now fc \<longleftrightarrow>
     list_all2 (\<lambda>l b. bucket_ok (snd l) (fst l) now b) limits (buckets fc) \<and>
     (\<forall>b \<in> set (buckets fc). bucket_wakeup_at b \<le> wakeup_at fc)"

definition limits_ok :: "(real \<times> real) list \<Rightarrow> bool" where
  "limits_ok limits \<longleftrightarrow> (\<forall>l \<in> set limits. 1 \<le> snd l \<and> 0 < fst l)"

text \<open>The control with the given limits, as \<open>ClientManager\<close> sets it up.\<close>

definition flood_control_of :: "(real \<times> real) list \<Rightarrow> flood_control" where
  "flood_control_of limits = fold (\<lambda>(duration, count). add_limit duration count) limits new_flood_control"

lemma flood_control_of_buckets:
  "buckets (fold (\<lambda>(duration, count). add_limit duration count) limits fc) =
     buckets fc @ map (\<lambda>(duration, count). new_bucket duration count) limits"
  "wakeup_at (fold (\<lambda>(duration, count). add_limit duration count) limits fc) = wakeup_at fc"
  by (induction limits arbitrary: fc) (auto simp: add_limit_def)

lemma flood_ok_initial: "limits_ok limits \<Longrightarrow> flood_ok limits 0 (flood_control_of limits)"
  by (auto simp: flood_ok_def flood_control_of_def flood_control_of_buckets new_flood_control_def limits_ok_def
      list_all2_conv_all_nth bucket_ok_def new_bucket_def split: prod.splits dest!: nth_mem)

lemma add_event_loop_spec:
  assumes "\<forall>b \<in> set bs. bucket_add_event now b \<noteq> None"
  shows "\<exists>w' bs'. add_event_loop now w bs = Some (w', bs') \<and>
    list_all2 (\<lambda>b b'. bucket_add_event now b = Some b') bs bs' \<and>
    (\<forall>b' \<in> set bs'. bucket_wakeup_at b' \<le> w') \<and> w \<le> w' \<and> (w' = w \<or> w' \<in> bucket_wakeup_at ` set bs')"
  using assms
proof (induction bs arbitrary: w)
  case (Cons b bs)
  obtain b' where b': "bucket_add_event now b = Some b'" using Cons.prems by auto
  obtain w' bs' where "add_event_loop now (max w (bucket_wakeup_at b')) bs = Some (w', bs')"
    and "list_all2 (\<lambda>b b'. bucket_add_event now b = Some b') bs bs'" "\<forall>b' \<in> set bs'. bucket_wakeup_at b' \<le> w'"
    and "max w (bucket_wakeup_at b') \<le> w'" "w' = max w (bucket_wakeup_at b') \<or> w' \<in> bucket_wakeup_at ` set bs'"
    using Cons.IH [of "max w (bucket_wakeup_at b')"] Cons.prems by auto
  then show ?case using b' by (auto simp: max_def split: if_splits)
qed simp

lemma flood_add_event_ok:
  assumes ok: "flood_ok limits prev fc" and lim: "limits_ok limits" and le: "prev \<le> now" "wakeup_at fc \<le> now"
  shows "\<exists>fc'. flood_add_event now fc = Some fc' \<and> flood_ok limits now fc' \<and>
    list_all2 (\<lambda>b b'. bucket_add_event now b = Some b') (buckets fc) (buckets fc') \<and>
    (wakeup_at fc' \<le> now \<or> (\<exists>(duration, count) \<in> set limits. wakeup_at fc' \<le> now + duration / count))"
proof -
  have each: "\<exists>b'. bucket_add_event now (buckets fc ! i) = Some b' \<and>
      bucket_ok (snd (limits ! i)) (fst (limits ! i)) now b' \<and>
      bucket_wakeup_at b' \<le> now + fst (limits ! i) / snd (limits ! i)" if "i < length limits" for i
  proof -
    have "bucket_ok (snd (limits ! i)) (fst (limits ! i)) prev (buckets fc ! i)"
      using ok that by (auto simp: flood_ok_def list_all2_conv_all_nth split: prod.splits)
    moreover have "bucket_wakeup_at (buckets fc ! i) \<le> now"
      using ok that le by (auto simp: flood_ok_def list_all2_conv_all_nth intro: order_trans)
    moreover have "1 \<le> snd (limits ! i)" "0 < fst (limits ! i)"
      using lim that by (auto simp: limits_ok_def)
    ultimately show ?thesis using bucket_add_event_ok le(1) by blast
  qed
  have len: "length (buckets fc) = length limits" using ok by (auto simp: flood_ok_def dest: list_all2_lengthD)
  have "\<forall>b \<in> set (buckets fc). bucket_add_event now b \<noteq> None"
    using each len by (fastforce simp: in_set_conv_nth)
  from add_event_loop_spec [OF this, of "wakeup_at fc"] obtain w' bs' where
    loop: "add_event_loop now (wakeup_at fc) (buckets fc) = Some (w', bs')"
    and all: "list_all2 (\<lambda>b b'. bucket_add_event now b = Some b') (buckets fc) bs'"
    and w': "\<forall>b' \<in> set bs'. bucket_wakeup_at b' \<le> w'" "w' = wakeup_at fc \<or> w' \<in> bucket_wakeup_at ` set bs'"
    by blast
  have nth: "bucket_ok (snd (limits ! i)) (fst (limits ! i)) now (bs' ! i) \<and>
      bucket_wakeup_at (bs' ! i) \<le> now + fst (limits ! i) / snd (limits ! i)" if "i < length limits" for i
    using each [OF that] all that len by (auto simp: list_all2_conv_all_nth)
  have len': "length bs' = length limits" using all len by (auto dest: list_all2_lengthD)
  have "flood_ok limits now \<lparr>wakeup_at = w', buckets = bs'\<rparr>"
    using nth w'(1) len' by (auto simp: flood_ok_def list_all2_conv_all_nth split: prod.splits)
  moreover have "w' \<le> now \<or> (\<exists>(duration, count) \<in> set limits. w' \<le> now + duration / count)"
    using w'(2)
  proof
    assume "w' \<in> bucket_wakeup_at ` set bs'"
    then obtain i where "i < length limits" "w' = bucket_wakeup_at (bs' ! i)"
      using len' by (auto simp: in_set_conv_nth)
    then show ?thesis using nth [of i] nth_mem [of i limits] by (auto split: prod.splits)
  qed (use le in simp)
  ultimately show ?thesis using loop all by (auto simp: flood_add_event_def)
qed

subsection \<open>The rate\<close>

text \<open>
  The way \<open>ClientManager\<close> uses a control for requests at the times \<open>ts\<close>: a request before the wake-up
  time is refused, any other is let through and recorded. The result lists the times let through.
\<close>

fun flood_run :: "real list \<Rightarrow> flood_control \<Rightarrow> (flood_control \<times> real list) option" where
  "flood_run [] fc = Some (fc, [])"
| "flood_run (now # ts) fc =
     (if wakeup_at fc > now then flood_run ts fc
      else case flood_add_event now fc of
             None \<Rightarrow> None
           | Some fc' \<Rightarrow> map_option (\<lambda>(fc'', acc). (fc'', now # acc)) (flood_run ts fc'))"

lemma flood_ok_mono: "flood_ok limits prev fc \<Longrightarrow> prev \<le> now \<Longrightarrow> flood_ok limits now fc"
  by (auto simp: flood_ok_def bucket_ok_def elim!: list_all2_mono)

lemma flood_run_total:
  assumes "flood_ok limits prev fc" and "limits_ok limits" and "sorted (prev # ts)"
  shows "\<exists>fc' acc. flood_run ts fc = Some (fc', acc)"
  using assms(1,3)
proof (induction ts arbitrary: prev fc)
  case (Cons now ts)
  have le: "prev \<le> now" and sorted: "sorted (now # ts)" using Cons.prems(2) by auto
  have skip: "\<exists>fc' acc. flood_run ts fc = Some (fc', acc)"
    using Cons.IH [OF flood_ok_mono [OF Cons.prems(1) le] sorted] .
  have take: "\<exists>fc' acc. flood_run (now # ts) fc = Some (fc', acc)" if wake: "wakeup_at fc \<le> now"
  proof -
    obtain fc1 where "flood_add_event now fc = Some fc1" "flood_ok limits now fc1"
      using flood_add_event_ok [OF Cons.prems(1) assms(2) le wake] by blast
    then show ?thesis using Cons.IH [OF _ sorted] wake by fastforce
  qed
  from skip take show ?case by (cases "wakeup_at fc \<le> now") auto
qed simp

text \<open>Once \<open>k\<close> events were counted from time \<open>a\<close> on, the bucket has at most what it could hold, less \<open>k\<close>.\<close>

definition spent :: "real \<Rightarrow> real \<Rightarrow> real \<Rightarrow> nat \<Rightarrow> bucket \<Rightarrow> bool" where
  "spent count duration a k b \<longleftrightarrow>
     k = 0 \<or> (\<forall>t. level b t \<le> count - 1 + (t - a) * (count / duration) - real k)"

lemma le_diff_1: "x \<le> y \<Longrightarrow> x - 1 \<le> y" for x y :: real
  by simp

lemma le_diff_1_Suc: "x \<le> y - real k \<Longrightarrow> x - 1 \<le> y - real (Suc k)" for x y :: real
  by simp

lemma spent_event:
  assumes ok: "bucket_ok count duration prev b" "prev \<le> now" "bucket_wakeup_at b \<le> now"
    and lim: "1 \<le> count" "0 < duration" and sp: "spent count duration a k b"
    and ev: "bucket_add_event now b = Some b'"
  shows "a \<le> now \<Longrightarrow> spent count duration a (Suc k) b'"
    and "a \<le> now \<Longrightarrow> real (Suc k) \<le> count + (now - a) * (count / duration)"
    and "spent count duration a k b'"
proof -
  have b': "level b' t \<le> level b t - 1" "level b' t \<le> count - 2 + (t - now) * (count / duration)"
    and pos: "0 \<le> level b now" for t
    using bucket_add_event_ok [OF ok lim, of t] ev by auto
  have r: "0 < count / duration" using lim by simp
  have mono: "(t - now) * (count / duration) \<le> (t - a) * (count / duration)" if "a \<le> now" for t
    using r that by (intro mult_right_mono) auto
  show "spent count duration a (Suc k) b'" if "a \<le> now"
  proof (cases "k = 0")
    case True
    have "level b' t \<le> count - 1 + (t - a) * (count / duration) - real (Suc k)" for t
      using b'(2) [of t] mono [OF that, of t] True by linarith
    then show ?thesis by (simp only: spent_def simp_thms)
  next
    case False
    then have "level b t \<le> count - 1 + (t - a) * (count / duration) - real k" for t
      using sp by (simp add: spent_def)
    then have "level b' t \<le> count - 1 + (t - a) * (count / duration) - real (Suc k)" for t
      by (rule order_trans [OF b'(1) [of t] le_diff_1_Suc])
    then show ?thesis by (simp only: spent_def simp_thms)
  qed
  show "real (Suc k) \<le> count + (now - a) * (count / duration)" if "a \<le> now"
  proof (cases "k = 0")
    case True
    have "0 \<le> (now - a) * (count / duration)" using r that by (intro mult_nonneg_nonneg) auto
    with True lim show ?thesis by simp
  next
    case False
    then have "level b now \<le> count - 1 + (now - a) * (count / duration) - real k"
      using sp by (simp add: spent_def)
    with pos show ?thesis by simp
  qed
  show "spent count duration a k b'"
  proof (cases "k = 0")
    case False
    then have "level b t \<le> count - 1 + (t - a) * (count / duration) - real k" for t
      using sp by (simp add: spent_def)
    then have "level b' t \<le> count - 1 + (t - a) * (count / duration) - real k" for t
      by (rule order_trans [OF b'(1) [of t] le_diff_1])
    then show ?thesis by (simp only: spent_def simp_thms)
  qed (simp add: spent_def)
qed

definition in_window :: "real \<Rightarrow> real \<Rightarrow> real list \<Rightarrow> nat" where
  "in_window a e ts = length (filter (\<lambda>t. a \<le> t \<and> t \<le> e) ts)"

lemma flood_run_window:
  assumes lim: "limits_ok limits" and i: "i < length limits" "limits ! i = (duration, count)"
    and ok: "flood_ok limits prev fc" and sorted: "sorted (prev # ts)"
    and sp: "spent count duration a k (buckets fc ! i)"
    and bound: "real k \<le> count + (e - a) * (count / duration)"
    and run: "flood_run ts fc = Some (fc', acc)"
  shows "real (k + in_window a e acc) \<le> count + (e - a) * (count / duration)"
  using ok sorted sp bound run
proof (induction ts arbitrary: prev fc k acc)
  case Nil
  then show ?case by (simp add: in_window_def)
next
  case (Cons now ts)
  have le: "prev \<le> now" and sorted: "sorted (now # ts)" using Cons.prems(2) by auto
  have lims: "1 \<le> count" "0 < duration" using lim nth_mem [OF i(1)] i(2) by (auto simp: limits_ok_def)
  show ?case
  proof (cases "wakeup_at fc > now")
    case True
    then show ?thesis
      using Cons.IH [OF flood_ok_mono [OF Cons.prems(1) le] sorted Cons.prems(3,4)] Cons.prems(5) by simp
  next
    case False
    then have wake: "wakeup_at fc \<le> now" by simp
    obtain fc1 where add: "flood_add_event now fc = Some fc1" and ok1: "flood_ok limits now fc1"
      and all: "list_all2 (\<lambda>b b'. bucket_add_event now b = Some b') (buckets fc) (buckets fc1)"
      using flood_add_event_ok [OF Cons.prems(1) lim le wake] by blast
    obtain acc1 where run1: "flood_run ts fc1 = Some (fc', acc1)" and acc: "acc = now # acc1"
      using Cons.prems(5) False add by auto
    have len: "i < length (buckets fc)" using Cons.prems(1) i(1) by (auto simp: flood_ok_def dest: list_all2_lengthD)
    have b: "bucket_ok count duration prev (buckets fc ! i)"
      using Cons.prems(1) i by (auto simp: flood_ok_def list_all2_conv_all_nth)
    have wb: "bucket_wakeup_at (buckets fc ! i) \<le> now"
      using Cons.prems(1) len wake by (auto simp: flood_ok_def intro: order_trans)
    have ev: "bucket_add_event now (buckets fc ! i) = Some (buckets fc1 ! i)"
      using all len by (simp add: list_all2_conv_all_nth)
    note spent = spent_event [OF b le wb lims Cons.prems(3) ev]
    show ?thesis
    proof (cases "a \<le> now \<and> now \<le> e")
      case True
      then have "(now - a) * (count / duration) \<le> (e - a) * (count / duration)"
        using lims by (intro mult_right_mono) auto
      then have "real (Suc k) \<le> count + (e - a) * (count / duration)" using spent(2) True by linarith
      from Cons.IH [OF ok1 sorted spent(1) this run1] True acc show ?thesis by (simp add: in_window_def)
    next
      case False
      with Cons.IH [OF ok1 sorted spent(3) Cons.prems(4) run1] acc show ?thesis by (auto simp: in_window_def)
    qed
  qed
qed

text \<open>
  (C31) The flood control never fails on requests in time order, and for each of its limits of
  \<open>count\<close> events per \<open>duration\<close> it lets through, in every interval of time, at most \<open>count\<close> events
  and one for each further \<open>duration / count\<close> seconds of the interval.
\<close>

theorem flood_control_rate:
  assumes "limits_ok limits" and "sorted (0 # ts)"
  shows "\<exists>fc' acc. flood_run ts (flood_control_of limits) = Some (fc', acc) \<and>
    (\<forall>(duration, count) \<in> set limits. \<forall>a e. a \<le> e \<longrightarrow>
       real (in_window a e acc) \<le> count + (e - a) * (count / duration))"
proof -
  have ok: "flood_ok limits 0 (flood_control_of limits)" by (rule flood_ok_initial [OF assms(1)])
  obtain fc' acc where run: "flood_run ts (flood_control_of limits) = Some (fc', acc)"
    using flood_run_total [OF ok assms] by blast
  have "real (in_window a e acc) \<le> count + (e - a) * (count / duration)"
    if lim: "(duration, count) \<in> set limits" and le: "a \<le> e" for duration count a e
  proof -
    obtain i where i: "i < length limits" "limits ! i = (duration, count)" using lim by (auto simp: in_set_conv_nth)
    have "1 \<le> count" "0 < duration" using assms(1) lim by (auto simp: limits_ok_def)
    then have "real 0 \<le> count + (e - a) * (count / duration)" using le by (simp add: add_nonneg_nonneg)
    from flood_run_window [OF assms(1) i ok assms(2) _ this run] show ?thesis by (simp add: spent_def)
  qed
  with run show ?thesis by blast
qed

theorem flood_control_rate_witness:
  "\<exists>fc' acc. flood_run [1, 2] (flood_control_of [(60, 20), (3600, 600)]) = Some (fc', acc) \<and>
     real (in_window 1 31 acc) \<le> 20 + 10"
proof -
  have "limits_ok [(60, 20), (3600, 600)]" by (simp add: limits_ok_def)
  then obtain fc' acc where "flood_run [1, 2] (flood_control_of [(60, 20), (3600, 600)]) = Some (fc', acc)"
    and "\<forall>(duration, count) \<in> set [(60, 20), (3600, 600)]. \<forall>a e. a \<le> e \<longrightarrow>
       real (in_window a e acc) \<le> count + (e - a) * (count / duration)"
    using flood_control_rate [of "[(60, 20), (3600, 600)]" "[1, 2]"] by auto
  moreover from this(2) have "real (in_window 1 31 acc) \<le> 20 + (31 - 1) * (20 / 60)"
    by (simp only: list.simps ball_simps prod.case)
  ultimately show ?thesis by auto
qed

end
