(* ===== verification/Utf8.thy ===== *)
theory Utf8
  imports Text_Utils
begin

section \<open>UTF-8\<close>

text \<open>
  \<open>tdutils/td/utils/utf8.h\<close>, \<open>utf8.cpp\<close>: the validity check, reading and appending one character,
  and the length and truncation functions the server uses on message texts. Bytes are natural
  numbers below 256; the bit operations are those of the code. The theory shows that
  \<open>check_utf8\<close> accepts exactly the encodings of sequences of Unicode scalar values, so that everything
  built on it can argue over such sequences.
\<close>

unbundle bit_operations_syntax

subsection \<open>Definitions\<close>

text \<open>
  \<open>check_utf8\<close> reads the string with its terminating zero byte; running past it, which the code cannot
  do, is the empty list.
\<close>

fun check_utf8_bytes :: "nat list \<Rightarrow> bool" where
  "check_utf8_bytes [] = False"
| "check_utf8_bytes (a # s) =
     (if a AND 0x80 = 0 then s = [] \<or> check_utf8_bytes s
      else if a AND 0x40 = 0 then False
      else case s of [] \<Rightarrow> False | b # s1 \<Rightarrow>
        if b AND 0xc0 \<noteq> 0x80 then False
        else if a AND 0x20 = 0 then a AND 0x1e > 0 \<and> check_utf8_bytes s1
        else case s1 of [] \<Rightarrow> False | c # s2 \<Rightarrow>
          if c AND 0xc0 \<noteq> 0x80 then False
          else if a AND 0x10 = 0 then
            (let x = push_bit 6 (a AND 0x0f) OR (b AND 0x20)
             in x \<noteq> 0 \<and> x \<noteq> 0x360 \<and> check_utf8_bytes s2)
          else case s2 of [] \<Rightarrow> False | d # s3 \<Rightarrow>
            if d AND 0xc0 \<noteq> 0x80 then False
            else if a AND 0x08 = 0 then
              (let t = push_bit 6 (a AND 0x07) OR (b AND 0x30)
               in 0 < t \<and> t < 0x110 \<and> check_utf8_bytes s3)
            else False)"

definition check_utf8 :: "string \<Rightarrow> bool" where
  "check_utf8 str = check_utf8_bytes (map byte str @ [0])"

definition is_utf8_character_first_code_unit :: "nat \<Rightarrow> bool" where
  "is_utf8_character_first_code_unit c \<longleftrightarrow> c AND 0xC0 \<noteq> 0x80"

definition utf8_length :: "nat list \<Rightarrow> nat" where
  "utf8_length s = sum_list (map (\<lambda>c. if is_utf8_character_first_code_unit c then 1 else 0) s)"

definition utf8_utf16_length :: "nat list \<Rightarrow> nat" where
  "utf8_utf16_length s =
     sum_list (map (\<lambda>c. (if is_utf8_character_first_code_unit c then 1 else 0) +
                        (if c AND 0xf8 = 0xf0 then 1 else 0)) s)"

definition append_utf8_character :: "nat \<Rightarrow> nat list" where
  "append_utf8_character code =
     (if code \<le> 0x7f then [code]
      else if code \<le> 0x7ff then [0xc0 OR drop_bit 6 code, 0x80 OR (code AND 0x3f)]
      else if code \<le> 0xffff then
        [0xe0 OR drop_bit 12 code, 0x80 OR (drop_bit 6 code AND 0x3f), 0x80 OR (code AND 0x3f)]
      else
        [0xf0 OR drop_bit 18 code, 0x80 OR (drop_bit 12 code AND 0x3f), 0x80 OR (drop_bit 6 code AND 0x3f),
         0x80 OR (code AND 0x3f)])"

text \<open>\<open>next_utf8_unsafe\<close>: \<^const>\<open>None\<close> is a read past the end or the \<open>UNREACHABLE\<close> branch.\<close>

fun next_utf8_unsafe :: "nat list \<Rightarrow> (nat \<times> nat list) option" where
  "next_utf8_unsafe [] = None"
| "next_utf8_unsafe (a # s) =
     (if a AND 0x80 = 0 then Some (a, s)
      else if a AND 0x20 = 0 then
        (case s of b # s1 \<Rightarrow> Some (push_bit 6 (a AND 0x1f) OR (b AND 0x3f), s1) | _ \<Rightarrow> None)
      else if a AND 0x10 = 0 then
        (case s of b # c # s2 \<Rightarrow>
           Some (push_bit 12 (a AND 0x0f) OR push_bit 6 (b AND 0x3f) OR (c AND 0x3f), s2) | _ \<Rightarrow> None)
      else if a AND 0x08 = 0 then
        (case s of b # c # d # s3 \<Rightarrow>
           Some (push_bit 18 (a AND 0x07) OR push_bit 12 (b AND 0x3f) OR push_bit 6 (c AND 0x3f) OR (d AND 0x3f), s3)
         | _ \<Rightarrow> None)
      else None)"

text \<open>The loop of \<open>utf8_truncate\<close>: the prefix kept.\<close>

fun utf8_truncate_loop :: "nat list \<Rightarrow> nat \<Rightarrow> nat list" where
  "utf8_truncate_loop [] len = []"
| "utf8_truncate_loop (c # s) len =
     (if is_utf8_character_first_code_unit c
      then if len = 0 then [] else c # utf8_truncate_loop s (len - 1)
      else c # utf8_truncate_loop s len)"

definition utf8_truncate :: "nat list \<Rightarrow> nat \<Rightarrow> nat list" where
  "utf8_truncate s len = (if length s > len then utf8_truncate_loop s len else s)"

definition utf8_substr :: "nat list \<Rightarrow> nat \<Rightarrow> nat list" where
  "utf8_substr s offset = (if offset = 0 then s else drop (length (utf8_truncate s offset)) s)"

definition utf8_encode :: "string \<Rightarrow> string" where
  "utf8_encode s = (if check_utf8 s then s else ''url_decode('' @ url_encode s @ '')'')"

subsection \<open>Bit tests on bytes\<close>

text \<open>Masking with a field of \<open>k\<close> ones from bit \<open>n\<close> on, and joining disjoint fields, as arithmetic.\<close>

lemma and_field: "a AND push_bit n (mask k) = a div 2 ^ n mod 2 ^ k * 2 ^ n" for a :: nat
proof -
  have "a AND push_bit n (mask k) = push_bit n (take_bit k (drop_bit n a))"
    by (rule bit_eqI) (auto simp: bit_simps)
  then show ?thesis by (simp add: push_bit_eq_mult take_bit_eq_mod drop_bit_eq_div)
qed

lemma push_or_add:
  fixes a b :: nat
  assumes "b < 2 ^ n"
  shows "push_bit n a OR b = a * 2 ^ n + b"
proof -
  have "take_bit n b = b" using assms by (simp add: take_bit_nat_eq_self)
  then have "push_bit n a AND b = push_bit n a AND take_bit n b" by simp
  also have "\<dots> = 0" by (rule bit_eqI) (auto simp: bit_simps)
  finally show ?thesis by (simp add: disjunctive_add_eq_or [symmetric] push_bit_eq_mult)
qed

lemma and_fields:
  fixes a :: nat
  shows "a AND 0x80 = a div 128 mod 2 * 128" "a AND 0x40 = a div 64 mod 2 * 64" "a AND 0x20 = a div 32 mod 2 * 32"
    "a AND 0x10 = a div 16 mod 2 * 16" "a AND 0x08 = a div 8 mod 2 * 8" "a AND 0xc0 = a div 64 mod 4 * 64"
    "a AND 0x1e = a div 2 mod 16 * 2" "a AND 0x30 = a div 16 mod 4 * 16" "a AND 0xf8 = a div 8 mod 32 * 8"
    "a AND 0x1f = a mod 32" "a AND 0x0f = a mod 16" "a AND 0x07 = a mod 8" "a AND 0x3f = a mod 64"
  subgoal using and_field [of a 7 1] by (simp add: mask_eq_exp_minus_1 push_bit_eq_mult)
  subgoal using and_field [of a 6 1] by (simp add: mask_eq_exp_minus_1 push_bit_eq_mult)
  subgoal using and_field [of a 5 1] by (simp add: mask_eq_exp_minus_1 push_bit_eq_mult)
  subgoal using and_field [of a 4 1] by (simp add: mask_eq_exp_minus_1 push_bit_eq_mult)
  subgoal using and_field [of a 3 1] by (simp add: mask_eq_exp_minus_1 push_bit_eq_mult)
  subgoal using and_field [of a 6 2] by (simp add: mask_eq_exp_minus_1 push_bit_eq_mult)
  subgoal using and_field [of a 1 4] by (simp add: mask_eq_exp_minus_1 push_bit_eq_mult)
  subgoal using and_field [of a 4 2] by (simp add: mask_eq_exp_minus_1 push_bit_eq_mult)
  subgoal using and_field [of a 3 5] by (simp add: mask_eq_exp_minus_1 push_bit_eq_mult)
  subgoal using and_field [of a 0 5] by (simp add: mask_eq_exp_minus_1 push_bit_eq_mult)
  subgoal using and_field [of a 0 4] by (simp add: mask_eq_exp_minus_1 push_bit_eq_mult)
  subgoal using and_field [of a 0 3] by (simp add: mask_eq_exp_minus_1 push_bit_eq_mult)
  subgoal using and_field [of a 0 6] by (simp add: mask_eq_exp_minus_1 push_bit_eq_mult)
  done

lemma or_tags:
  fixes x :: nat
  shows "x < 32 \<Longrightarrow> 0xc0 OR x = 192 + x" "x < 16 \<Longrightarrow> 0xe0 OR x = 224 + x" "x < 8 \<Longrightarrow> 0xf0 OR x = 240 + x"
    "x < 64 \<Longrightarrow> 0x80 OR x = 128 + x"
  subgoal using push_or_add [of x 5 6] by (simp add: push_bit_eq_mult)
  subgoal using push_or_add [of x 4 14] by (simp add: push_bit_eq_mult)
  subgoal using push_or_add [of x 3 30] by (simp add: push_bit_eq_mult)
  subgoal using push_or_add [of x 6 2] by (simp add: push_bit_eq_mult)
  done

text \<open>The classes of bytes the tests tell apart.\<close>

lemma less_div_iff: "0 < k \<Longrightarrow> a < c * k \<longleftrightarrow> a div k < c" for a c k :: nat
  by (simp add: div_less_iff_less_mult)

lemma cont_byte:
  fixes b :: nat
  assumes "b < 256"
  shows "b AND 0xc0 = 0x80 \<longleftrightarrow> 128 \<le> b \<and> b < 192"
proof -
  have "b div 64 < 4" using assms by simp
  then show ?thesis using less_div_iff [of 64 b 2] less_div_iff [of 64 b 3] by (auto simp: and_fields)
qed

lemma odd_field:
  fixes a k c :: nat
  assumes "0 < k" and "2 * c * k \<le> a" and "a < (2 * c + 2) * k"
  shows "a div k mod 2 = 0 \<longleftrightarrow> a < (2 * c + 1) * k"
proof -
  have "2 * c \<le> a div k" using assms by (simp add: less_eq_div_iff_mult_less_eq mult.commute)
  moreover have "a div k < 2 * c + 2" using assms by (simp only: less_div_iff [symmetric])
  ultimately have "a div k = 2 * c \<or> a div k = 2 * c + 1" by linarith
  then show ?thesis unfolding less_div_iff [OF assms(1)] by auto
qed

lemma lead_byte:
  fixes a :: nat
  assumes "a < 256"
  shows "a AND 0x80 = 0 \<longleftrightarrow> a < 128"
    and "128 \<le> a \<Longrightarrow> a AND 0x40 = 0 \<longleftrightarrow> a < 192"
    and "192 \<le> a \<Longrightarrow> a AND 0x20 = 0 \<longleftrightarrow> a < 224"
    and "224 \<le> a \<Longrightarrow> a AND 0x10 = 0 \<longleftrightarrow> a < 240"
    and "240 \<le> a \<Longrightarrow> a AND 0x08 = 0 \<longleftrightarrow> a < 248"
  subgoal using assms odd_field [of 128 0 a] by (simp add: and_fields)
  subgoal using assms odd_field [of 64 1 a] by (simp add: and_fields)
  subgoal using assms odd_field [of 32 3 a] by (simp add: and_fields)
  subgoal using assms odd_field [of 16 7 a] by (simp add: and_fields)
  subgoal using assms odd_field [of 8 15 a] by (simp add: and_fields)
  done

lemma lead_two: "192 \<le> a \<Longrightarrow> a < 224 \<Longrightarrow> a AND 0x1e > 0 \<longleftrightarrow> 194 \<le> a" for a :: nat
proof -
  assume "192 \<le> a" "a < 224"
  then have "a = 192 + (a - 192)" "a - 192 < 32" by simp_all
  then obtain x where "a = 192 + x" "x < 32" by blast
  moreover from this(2) have "(192 + x) div 2 = x div 2 + 6 * 16" "x div 2 < 16" by simp_all
  then have "(192 + x) div 2 mod 16 = x div 2" by (simp only: mod_mult_self3 mod_mult_self1 mod_less)
  ultimately show ?thesis by (simp add: and_fields div_greater_zero_iff)
qed

subsection \<open>The encoding of one character\<close>

definition scalar :: "nat \<Rightarrow> bool" where
  "scalar c \<longleftrightarrow> c < 0xD800 \<or> 0xE000 \<le> c \<and> c < 0x110000"

lemma append_utf8_arith:
  assumes "c < 0x110000"
  shows "append_utf8_character c =
    (if c < 128 then [c]
     else if c < 2048 then [192 + c div 64, 128 + c mod 64]
     else if c < 65536 then [224 + c div 64 div 64, 128 + c div 64 mod 64, 128 + c mod 64]
     else [240 + c div 64 div 64 div 64, 128 + c div 64 div 64 mod 64, 128 + c div 64 mod 64, 128 + c mod 64])"
proof -
  have "c < 2048 \<Longrightarrow> c div 64 < 32" "c < 65536 \<Longrightarrow> c div 4096 < 16" "c div 262144 < 8"
    using assms by simp_all
  moreover have "c div 4096 = c div 64 div 64" "c div 262144 = c div 64 div 64 div 64"
    by (simp_all add: div_mult2_eq [symmetric])
  ultimately show ?thesis
    by (simp add: append_utf8_character_def drop_bit_eq_div and_fields or_tags)
qed

text \<open>Writing a character through its digits in base 64.\<close>

lemma utf8_two: "x < 32 \<Longrightarrow> y < 64 \<Longrightarrow> 2 \<le> x \<Longrightarrow> append_utf8_character (x * 64 + y) = [192 + x, 128 + y]"
  by (simp add: append_utf8_arith)

lemma utf8_three:
  assumes "x < 16" "y < 64" "z < 64" "0 < x \<or> 32 \<le> y"
  shows "append_utf8_character ((x * 64 + y) * 64 + z) = [224 + x, 128 + y, 128 + z]"
proof -
  define m where "m = x * 64 + y"
  have m: "m div 64 = x" "m mod 64 = y" "32 \<le> m" "m < 1024" using assms by (auto simp: m_def)
  then show ?thesis using assms(3) unfolding m_def [symmetric] by (simp add: append_utf8_arith)
qed

lemma utf8_four:
  assumes "y < 64" "z < 64" "u < 64" "0 < x \<or> 16 \<le> y" "x < 4 \<or> x = 4 \<and> y < 16"
  shows "append_utf8_character (((x * 64 + y) * 64 + z) * 64 + u) = [240 + x, 128 + y, 128 + z, 128 + u]"
proof -
  define m where "m = x * 64 + y"
  have m: "m div 64 = x" "m mod 64 = y" "16 \<le> m" "m < 272" using assms by (auto simp: m_def)
  define k where "k = m * 64 + z"
  have k: "k div 64 = m" "k mod 64 = z" "1024 \<le> k" "k < 17408" using assms(2) m(3,4) by (auto simp: k_def)
  then show ?thesis using assms(3) m(1,2) unfolding m_def [symmetric] k_def [symmetric] by (simp add: append_utf8_arith)
qed

lemma scalar_three: "x < 16 \<Longrightarrow> y < 64 \<Longrightarrow> z < 64 \<Longrightarrow> scalar ((x * 64 + y) * 64 + z) \<longleftrightarrow> \<not> (x = 13 \<and> 32 \<le> y)"
  by (cases x "13 :: nat" rule: linorder_cases) (auto simp: scalar_def)

lemma scalar_four: "y < 64 \<Longrightarrow> z < 64 \<Longrightarrow> u < 64 \<Longrightarrow> 0 < x \<or> 16 \<le> y \<Longrightarrow>
    scalar (((x * 64 + y) * 64 + z) * 64 + u) \<longleftrightarrow> x < 4 \<or> x = 4 \<and> y < 16"
  by (auto simp: scalar_def)

text \<open>Every scalar value is one of the four forms.\<close>

lemma scalar_cases [consumes 1, case_names one two three four]:
  assumes "scalar c"
  obtains "c < 128"
  | x y where "c = x * 64 + y" "2 \<le> x" "x < 32" "y < 64"
  | x y z where "c = (x * 64 + y) * 64 + z" "x < 16" "y < 64" "z < 64" "0 < x \<or> 32 \<le> y" "\<not> (x = 13 \<and> 32 \<le> y)"
  | x y z u where "c = ((x * 64 + y) * 64 + z) * 64 + u" "y < 64" "z < 64" "u < 64" "0 < x \<or> 16 \<le> y"
      "x < 4 \<or> x = 4 \<and> y < 16"
proof -
  have base: "n = n div 64 * 64 + n mod 64" "n mod 64 < 64" for n :: nat by simp_all
  consider "c < 128" | "128 \<le> c" "c < 2048" | "2048 \<le> c" "c < 65536" | "65536 \<le> c" by linarith
  then show thesis
  proof cases
    case 2
    then show ?thesis using that(2) [of "c div 64" "c mod 64"] by simp
  next
    case 3
    define m where "m = c div 64"
    have c: "c = (m div 64 * 64 + m mod 64) * 64 + c mod 64" by (simp add: m_def)
    have "32 \<le> m" "m < 1024" using 3 by (simp_all add: m_def)
    then have "m div 64 < 16" "0 < m div 64 \<or> 32 \<le> m mod 64" by (auto simp: mod_if div_greater_zero_iff)
    then show ?thesis using that(3) [OF c] scalar_three [of "m div 64" "m mod 64" "c mod 64"] assms c by simp
  next
    case 4
    define k where "k = c div 64"
    define m where "m = k div 64"
    have c: "c = ((m div 64 * 64 + m mod 64) * 64 + k mod 64) * 64 + c mod 64" by (simp add: m_def k_def)
    have "1024 \<le> k" using 4 by (simp add: k_def)
    then have "16 \<le> m" by (simp add: m_def)
    then have "0 < m div 64 \<or> 16 \<le> m mod 64" by (auto simp: mod_if div_greater_zero_iff)
    then show ?thesis
      using that(4) [OF c] scalar_four [of "m mod 64" "k mod 64" "c mod 64" "m div 64"] assms c by simp
  qed (rule that(1))
qed

subsection \<open>The validity check\<close>

lemma check_two:
  "x < 32 \<Longrightarrow> y < 64 \<Longrightarrow> 2 \<le> x \<Longrightarrow> check_utf8_bytes ((192 + x) # (128 + y) # s) = check_utf8_bytes s"
  by (simp add: lead_byte cont_byte lead_two)

lemma shift_or_20: "x < 16 \<Longrightarrow> y < 64 \<Longrightarrow>
    push_bit 6 ((224 + x) AND 0x0f) OR ((128 + y) AND 0x20) = x * 64 + (if 32 \<le> y then 32 else 0)" for x y :: nat
proof -
  assume "x < 16" "y < 64"
  moreover have "(224 + x) mod 16 = x" using mod_mult_self1 [of x 14 16] \<open>x < 16\<close> by (simp add: add.commute)
  moreover have "(128 + y) div 32 mod 2 = (if 32 \<le> y then 1 else 0)"
  proof -
    have "(128 + y) div 32 = 4 + y div 32" "y div 32 < 2" using \<open>y < 64\<close> by simp_all
    moreover have "y div 32 = (if 32 \<le> y then 1 else 0)" using \<open>y < 64\<close> by (auto simp: div_if)
    ultimately show ?thesis by simp
  qed
  ultimately show ?thesis using push_or_add [of "(128 + y) AND 0x20" 6 x] by (simp add: and_fields)
qed

lemma shift_or_30: "x < 8 \<Longrightarrow> y < 64 \<Longrightarrow>
    push_bit 6 ((240 + x) AND 0x07) OR ((128 + y) AND 0x30) = x * 64 + y div 16 * 16" for x y :: nat
proof -
  assume "x < 8" "y < 64"
  moreover have "(240 + x) mod 8 = x" using mod_mult_self1 [of x 30 8] \<open>x < 8\<close> by (simp add: add.commute)
  moreover have "(128 + y) div 16 mod 4 = y div 16"
  proof -
    have "(128 + y) div 16 = 8 + y div 16" "y div 16 < 4" using \<open>y < 64\<close> by simp_all
    then show ?thesis using mod_mult_self1 [of "y div 16" 2 4] by (simp add: add.commute)
  qed
  ultimately show ?thesis using push_or_add [of "(128 + y) AND 0x30" 6 x] by (simp add: and_fields)
qed

lemma check_three:
  assumes "x < 16" "y < 64" "z < 64"
  shows "check_utf8_bytes ((224 + x) # (128 + y) # (128 + z) # s) \<longleftrightarrow>
    (0 < x \<or> 32 \<le> y) \<and> \<not> (x = 13 \<and> 32 \<le> y) \<and> check_utf8_bytes s"
proof -
  have "x * 64 + (if 32 \<le> y then 32 else 0) \<noteq> 0x360 \<longleftrightarrow> \<not> (x = 13 \<and> 32 \<le> y)" by presburger
  then show ?thesis using assms by (auto simp: lead_byte cont_byte shift_or_20 Let_def simp del: push_bit_and)
qed

lemma check_four:
  assumes "x < 8" "y < 64" "z < 64" "u < 64"
  shows "check_utf8_bytes ((240 + x) # (128 + y) # (128 + z) # (128 + u) # s) \<longleftrightarrow>
    (0 < x \<or> 16 \<le> y) \<and> (x < 4 \<or> x = 4 \<and> y < 16) \<and> check_utf8_bytes s"
proof -
  have y: "y div 16 < 4" "16 \<le> y \<longleftrightarrow> 0 < y div 16" using assms by (simp_all add: div_greater_zero_iff)
  have "x * 64 + y div 16 * 16 < 0x110 \<longleftrightarrow> x < 4 \<or> x = 4 \<and> y < 16"
    using y by (cases x "4 :: nat" rule: linorder_cases) auto
  then show ?thesis using assms y by (auto simp: lead_byte cont_byte shift_or_30 Let_def simp del: push_bit_and)
qed

declare check_utf8_bytes.simps(2) [simp del]

lemma check_char:
  assumes "scalar c" and "s \<noteq> []"
  shows "check_utf8_bytes (append_utf8_character c @ s) = check_utf8_bytes s"
  using assms(1)
proof (cases rule: scalar_cases)
  case one
  then show ?thesis using assms(2) by (simp add: append_utf8_character_def lead_byte check_utf8_bytes.simps(2))
next
  case (two x y)
  then show ?thesis using check_two by (simp add: utf8_two)
next
  case (three x y z)
  then show ?thesis unfolding three(1) utf8_three [OF three(2-5)] append.simps by (simp add: check_three)
next
  case (four x y z u)
  then have "x < 8" by auto
  with four show ?thesis unfolding four(1) utf8_four [OF four(2-6)] append.simps by (simp add: check_four)
qed

text \<open>A text that passes starts with the encoding of a scalar value, and what follows passes.\<close>

lemma check_first:
  assumes "check_utf8_bytes bs" and "\<forall>b \<in> set bs. b < 256"
  shows "\<exists>c s. scalar c \<and> bs = append_utf8_character c @ s \<and> (check_utf8_bytes s \<or> s = [] \<and> c < 128)"
proof -
  obtain a s where bs: "bs = a # s" and a: "a < 256" using assms by (cases bs) auto
  have cont: "\<exists>y. b = 128 + y \<and> y < 64" if "b < 256" "b AND 0xc0 = 0x80" for b :: nat
    using that cont_byte [of b] by (intro exI [of _ "b - 128"]) auto
  consider "a < 128" | x where "a = 192 + x" "x < 32" | x where "a = 224 + x" "x < 16" | x where "a = 240 + x" "x < 16"
    | "128 \<le> a" "a < 192"
  proof -
    consider "a < 128" | "128 \<le> a" "a < 192" | "192 \<le> a" "a < 224" | "224 \<le> a" "a < 240" | "240 \<le> a" by linarith
    then show thesis using that a by cases (auto dest: le_Suc_ex)
  qed
  then show ?thesis
  proof cases
    case 1
    then show ?thesis using assms bs by (intro exI [of _ a] exI [of _ s])
      (auto simp: scalar_def append_utf8_character_def lead_byte check_utf8_bytes.simps(2))
  next
    case (2 x)
    then obtain b s1 where s: "s = b # s1" "b AND 0xc0 = 0x80" "194 \<le> a" "check_utf8_bytes s1"
      using assms(1) bs lead_two [of a]
      by (auto simp: check_utf8_bytes.simps(2) lead_byte split: list.splits if_splits)
    then obtain y where "b = 128 + y" "y < 64" using cont [of b] assms(2) bs by auto
    with s 2 bs utf8_two [of x y] show ?thesis
      by (intro exI [of _ "x * 64 + y"] exI [of _ s1]) (auto simp: scalar_def)
  next
    case (3 x)
    then obtain b c s2 where s: "s = b # c # s2" "b AND 0xc0 = 0x80" "c AND 0xc0 = 0x80"
      using assms(1) bs by (auto simp: check_utf8_bytes.simps(2) [of "224 + x"] check_utf8_bytes.simps(2) [of "240 + x"] lead_byte Let_def split: list.splits if_splits)
    then obtain y z where yz: "b = 128 + y" "y < 64" "c = 128 + z" "z < 64"
      using cont [of b] cont [of c] assms(2) bs by auto
    have ok: "0 < x \<or> 32 \<le> y" "\<not> (x = 13 \<and> 32 \<le> y)" "check_utf8_bytes s2"
      using assms(1) check_three [OF 3(2) yz(2,4), of s2] by (simp_all add: bs s(1) 3(1) yz(1,3))
    then have "scalar ((x * 64 + y) * 64 + z)" using scalar_three [OF 3(2) yz(2,4)] by simp
    with ok show ?thesis using utf8_three [OF 3(2) yz(2,4) ok(1)] by (force simp: bs s(1) 3(1) yz(1,3))
  next
    case (4 x)
    then obtain b c d s3 where s: "s = b # c # d # s3" "b AND 0xc0 = 0x80" "c AND 0xc0 = 0x80" "d AND 0xc0 = 0x80"
      and "x < 8"
      using assms(1) bs by (auto simp: check_utf8_bytes.simps(2) [of "224 + x"] check_utf8_bytes.simps(2) [of "240 + x"] lead_byte Let_def split: list.splits if_splits)
    then obtain y z u where yz: "b = 128 + y" "y < 64" "c = 128 + z" "z < 64" "d = 128 + u" "u < 64"
      using cont [of b] cont [of c] cont [of d] assms(2) bs by auto
    have ok: "0 < x \<or> 16 \<le> y" "x < 4 \<or> x = 4 \<and> y < 16" "check_utf8_bytes s3"
      using assms(1) check_four [OF \<open>x < 8\<close> yz(2,4,6), of s3] by (simp_all add: bs s(1) 4(1) yz(1,3,5))
    then have "scalar (((x * 64 + y) * 64 + z) * 64 + u)" using scalar_four [OF yz(2,4,6)] by simp
    with ok show ?thesis using utf8_four [OF yz(2,4,6) ok(1,2)] by (force simp: bs s(1) 4(1) yz(1,3,5))
  next
    case 5
    then show ?thesis using assms bs a by (simp add: lead_byte check_utf8_bytes.simps(2))
  qed
qed

definition utf8_bytes :: "nat list \<Rightarrow> nat list" where
  "utf8_bytes cs = concat (map append_utf8_character cs)"

lemma append_utf8_not_Nil [simp]: "append_utf8_character c \<noteq> []"
  by (simp add: append_utf8_character_def)

lemma check_utf8_bytes_iff:
  assumes "\<forall>b \<in> set bs. b < 256"
  shows "check_utf8_bytes (bs @ [0]) \<longleftrightarrow> (\<exists>cs. list_all scalar cs \<and> bs = utf8_bytes cs)"
proof
  assume "check_utf8_bytes (bs @ [0])"
  with assms show "\<exists>cs. list_all scalar cs \<and> bs = utf8_bytes cs"
  proof (induction "length bs" arbitrary: bs rule: less_induct)
    case less
    obtain c s where c: "scalar c" "bs @ [0] = append_utf8_character c @ s" "check_utf8_bytes s \<or> s = [] \<and> c < 128"
      using check_first [OF less.prems(2)] less.prems(1) by auto
    show ?case
    proof (cases s rule: rev_cases)
      case Nil
      then have "bs = []" using c by (simp add: append_utf8_character_def)
      then show ?thesis by (intro exI [of _ "[]"]) (simp add: utf8_bytes_def)
    next
      case (snoc t z)
      then have bs: "bs = append_utf8_character c @ t" "z = 0" using c(2) by auto
      then have "length t < length bs" by simp
      moreover have "\<forall>b \<in> set t. b < 256" using less.prems(1) bs by simp
      moreover have "check_utf8_bytes (t @ [0])" using c(3) snoc bs by simp
      ultimately obtain cs where "list_all scalar cs" "t = utf8_bytes cs" using less.hyps by blast
      then show ?thesis using c(1) bs by (intro exI [of _ "c # cs"]) (simp add: utf8_bytes_def)
    qed
  qed
next
  assume "\<exists>cs. list_all scalar cs \<and> bs = utf8_bytes cs"
  then obtain cs where "list_all scalar cs" "bs = utf8_bytes cs" by blast
  then show "check_utf8_bytes (bs @ [0])"
    by (induction cs arbitrary: bs) (auto simp: utf8_bytes_def check_char check_utf8_bytes.simps(2))
qed

text \<open>
  (C27) The validity check of texts is exact: it accepts a string if and only if the string is the UTF-8
  encoding of a sequence of Unicode scalar values (no surrogates, no overlong forms, nothing beyond
  \<open>10FFFF\<close>, nothing cut off at the end).
\<close>

theorem check_utf8_iff:
  "check_utf8 s \<longleftrightarrow>
     (\<exists>cs. list_all (\<lambda>c. c < 0xD800 \<or> 0xE000 \<le> c \<and> c < 0x110000) cs \<and>
        map byte s = concat (map append_utf8_character cs))"
proof -
  have "\<forall>b \<in> set (map byte s). b < 256" by simp
  from check_utf8_bytes_iff [OF this] show ?thesis
    by (simp add: check_utf8_def utf8_bytes_def scalar_def [abs_def])
qed

subsection \<open>Reading characters\<close>

lemma low6: "x < 64 \<Longrightarrow> (128 + x) AND 0x3f = x" for x :: nat
  using mod_mult_self1 [of x 2 64] by (simp add: and_fields add.commute)

lemma join_digits:
  fixes x y z u :: nat
  assumes "y < 64" "z < 64" "u < 64"
  shows "push_bit 6 x OR y = x * 64 + y"
    and "push_bit 12 x OR push_bit 6 y OR z = (x * 64 + y) * 64 + z"
    and "push_bit 18 x OR push_bit 12 y OR push_bit 6 z OR u = ((x * 64 + y) * 64 + z) * 64 + u"
proof -
  have join: "push_bit 6 a OR b = a * 64 + b" if "b < 64" for a b :: nat using push_or_add [of b 6 a] that by simp
  show "push_bit 6 x OR y = x * 64 + y" using join assms by simp
  have "push_bit 12 x OR push_bit 6 y OR z = push_bit 6 (push_bit 6 x OR y) OR z"
    by (simp add: or.assoc)
  then show "push_bit 12 x OR push_bit 6 y OR z = (x * 64 + y) * 64 + z" using join assms by simp
  have "push_bit 18 x OR push_bit 12 y OR push_bit 6 z OR u = push_bit 6 (push_bit 6 (push_bit 6 x OR y) OR z) OR u"
    by (simp add: or.assoc)
  then show "push_bit 18 x OR push_bit 12 y OR push_bit 6 z OR u = ((x * 64 + y) * 64 + z) * 64 + u"
    using join assms by simp
qed

lemma lead_digit:
  fixes x :: nat
  shows "x < 32 \<Longrightarrow> (192 + x) AND 0x1f = x" "x < 16 \<Longrightarrow> (224 + x) AND 0x0f = x" "x < 8 \<Longrightarrow> (240 + x) AND 0x07 = x"
  subgoal using mod_mult_self1 [of x 6 32] by (simp add: and_fields add.commute)
  subgoal using mod_mult_self1 [of x 14 16] by (simp add: and_fields add.commute)
  subgoal using mod_mult_self1 [of x 30 8] by (simp add: and_fields add.commute)
  done

lemma next_utf8_append:
  assumes "scalar c"
  shows "next_utf8_unsafe (append_utf8_character c @ s) = Some (c, s)"
  using assms
proof (cases rule: scalar_cases)
  case one
  then show ?thesis by (simp add: append_utf8_character_def lead_byte)
next
  case (two x y)
  then show ?thesis unfolding two(1) utf8_two [OF two(3,4,2)] by (simp add: lead_byte low6 lead_digit join_digits(1))
next
  case (three x y z)
  then show ?thesis unfolding three(1) utf8_three [OF three(2-5)]
    by (simp add: lead_byte low6 lead_digit join_digits(2) del: push_bit_and)
next
  case (four x y z u)
  then have "x < 8" by auto
  with four show ?thesis unfolding four(1) utf8_four [OF four(2-6)]
    by (simp add: lead_byte low6 lead_digit join_digits(3) del: push_bit_and)
qed

subsection \<open>Length and truncation\<close>

lemma first_code_unit: "b < 256 \<Longrightarrow> is_utf8_character_first_code_unit b \<longleftrightarrow> b < 128 \<or> 192 \<le> b"
  by (auto simp: is_utf8_character_first_code_unit_def cont_byte)

text \<open>An encoded character is a first code unit and continuation bytes.\<close>

lemma append_utf8_shape:
  assumes "scalar c"
  obtains b bs where "append_utf8_character c = b # bs" "is_utf8_character_first_code_unit b" "b < 256"
    "list_all (\<lambda>x. \<not> is_utf8_character_first_code_unit x \<and> x < 240) bs" "240 \<le> b \<longleftrightarrow> 0x10000 \<le> c" "b < 248"
  using assms
proof (cases rule: scalar_cases)
  case one
  then show ?thesis using that by (simp add: append_utf8_character_def first_code_unit)
next
  case (two x y)
  then show ?thesis using that [OF utf8_two [OF two(3,4,2), folded two(1)]] by (simp add: first_code_unit)
next
  case (three x y z)
  then show ?thesis using that [OF utf8_three [OF three(2-5), folded three(1)]] by (simp add: first_code_unit)
next
  case (four x y z u)
  then show ?thesis using that [OF utf8_four [OF four(2-6), folded four(1)]] by (auto simp: first_code_unit)
qed

lemma f8_byte: "b < 248 \<Longrightarrow> b AND 0xf8 = 0xf0 \<longleftrightarrow> 240 \<le> b" for b :: nat
proof -
  assume "b < 248"
  then have "b div 8 < 31" by simp
  then show ?thesis using less_div_iff [of 8 b 30] by (auto simp: and_fields)
qed

lemma lengths_append:
  assumes "scalar c"
  shows "utf8_length (append_utf8_character c @ s) = Suc (utf8_length s)"
    and "utf8_utf16_length (append_utf8_character c @ s) = (if 0x10000 \<le> c then 2 else 1) + utf8_utf16_length s"
proof -
  obtain b bs where b: "append_utf8_character c = b # bs" "is_utf8_character_first_code_unit b"
    and bs: "list_all (\<lambda>x. \<not> is_utf8_character_first_code_unit x \<and> x < 240) bs"
    and plane: "240 \<le> b \<longleftrightarrow> 0x10000 \<le> c" "b < 248"
    using append_utf8_shape [OF assms] by blast
  from bs have "utf8_length bs = 0" "utf8_utf16_length bs = 0"
    by (induction bs) (auto simp: utf8_length_def utf8_utf16_length_def f8_byte)
  then show "utf8_length (append_utf8_character c @ s) = Suc (utf8_length s)"
    and "utf8_utf16_length (append_utf8_character c @ s) = (if 0x10000 \<le> c then 2 else 1) + utf8_utf16_length s"
    using b plane by (auto simp: utf8_length_def utf8_utf16_length_def f8_byte)
qed

lemma truncate_loop_cont:
  "list_all (\<lambda>x. \<not> is_utf8_character_first_code_unit x \<and> x < 240) bs \<Longrightarrow>
    utf8_truncate_loop (bs @ s) n = bs @ utf8_truncate_loop s n"
  by (induction bs) auto

lemma truncate_loop_chars:
  "list_all scalar cs \<Longrightarrow> utf8_truncate_loop (utf8_bytes cs) n = utf8_bytes (take n cs)"
proof (induction cs arbitrary: n)
  case (Cons c cs)
  have "scalar c" using Cons.prems by simp
  then obtain b bs where b: "append_utf8_character c = b # bs" "is_utf8_character_first_code_unit b"
    and bs: "list_all (\<lambda>x. \<not> is_utf8_character_first_code_unit x \<and> x < 240) bs"
    using append_utf8_shape by blast
  with Cons show ?case by (cases n) (simp_all add: utf8_bytes_def truncate_loop_cont)
qed (simp add: utf8_bytes_def)

lemma length_utf8_bytes: "length cs \<le> length (utf8_bytes cs)"
proof (induction cs)
  case (Cons c cs)
  have "0 < length (append_utf8_character c)" by simp
  with Cons show ?case by (simp add: utf8_bytes_def del: length_greater_0_conv)
qed simp

text \<open>
  On valid texts the length functions count characters and UTF-16 code units, and truncation keeps
  whole characters: it returns exactly the first characters asked for.
\<close>

lemma utf8_truncate_characters:
  assumes "\<forall>c \<in> set cs. c < 0xD800 \<or> 0xE000 \<le> c \<and> c < 0x110000"
  shows "utf8_length (concat (map append_utf8_character cs)) = length cs \<and>
    utf8_utf16_length (concat (map append_utf8_character cs)) = sum_list (map (\<lambda>c. if 0x10000 \<le> c then 2 else 1) cs) \<and>
    utf8_truncate (concat (map append_utf8_character cs)) n = concat (map append_utf8_character (take n cs))"
proof -
  have scalar: "list_all scalar cs" using assms by (simp add: list_all_iff scalar_def)
  then have "utf8_length (utf8_bytes cs) = length cs"
    by (induction cs) (simp_all add: utf8_bytes_def lengths_append, simp add: utf8_length_def)
  moreover have "utf8_utf16_length (utf8_bytes cs) = sum_list (map (\<lambda>c. if 0x10000 \<le> c then 2 else 1) cs)"
    using scalar by (induction cs) (simp_all add: utf8_bytes_def lengths_append, simp add: utf8_utf16_length_def)
  moreover have "utf8_truncate (utf8_bytes cs) n = utf8_bytes (take n cs)"
    using truncate_loop_chars [OF scalar, of n] length_utf8_bytes [of cs] by (auto simp: utf8_truncate_def)
  ultimately show ?thesis by (simp add: utf8_bytes_def)
qed

lemma utf8_truncate_characters_witness:
  "utf8_truncate (append_utf8_character 0x1F600 @ append_utf8_character 0x41) 1 = [0xF0, 0x9F, 0x98, 0x80]"
  using utf8_truncate_characters [of "[0x1F600, 0x41]" 1]
  by (simp add: append_utf8_character_def drop_bit_eq_div)

end
