(* ===== verification/Json.thy ===== *)
theory Json
  imports Utf8 Stream_Parser "HOL-Library.Monad_Syntax"
begin

section \<open>JSON\<close>

text \<open>
  \<open>tdutils/td/utils/JsonBuilder.h\<close>, \<open>JsonBuilder.cpp\<close>: every argument of a Bot API method and every
  answer passes through this code. The theory models printing (\<open>JsonString\<close>, \<open>JsonValue::store\<close>, the
  array and object scopes, compact and pretty), parsing (\<open>json_string_decode\<close>, \<open>do_json_decode\<close>),
  skipping (\<open>json_string_skip\<close>, \<open>do_json_skip\<close>) and the field accessors of \<open>JsonObject\<close>.

  A failed \<open>CHECK\<close> of the printer is \<^const>\<open>None\<close>. Parse errors are \<open>Inl\<close> values with code 0 and the
  text of the code. The loops over array elements and object fields are \<open>partial_function\<close>s in the
  option type, so not returning would be \<^const>\<open>None\<close>; that it does not happen is proved in
  \<open>Json_Proofs\<close>. The recursion depth is a natural number one above \<open>max_depth\<close>, so that 0 stands for
  a negative \<open>max_depth\<close>. The output buffer of the printer is unbounded.
\<close>

unbundle bit_operations_syntax

subsection \<open>Printing strings\<close>

definition json_hex :: "nat \<Rightarrow> char" where
  "json_hex n = ''0123456789abcdef'' ! n"

definition json_one_char :: "nat \<Rightarrow> string" where
  "json_one_char c =
     [CHR 0x5C, CHR ''u'', json_hex (drop_bit 12 c), json_hex (drop_bit 8 c AND 15), json_hex (drop_bit 4 c AND 15),
      json_hex (c AND 15)]"

definition json_char :: "nat \<Rightarrow> string option" where
  "json_char c =
     (if c < 0x10000 then if 0xD7FF < c \<and> c < 0xE000 then None else Some (json_one_char c)
      else if c \<le> 0x10ffff then
        Some (json_one_char (0xD7C0 + drop_bit 10 c) @ json_one_char (0xDC00 + (c AND 0x3FF)))
      else None)"

definition json_escape :: "nat \<Rightarrow> string option" where
  "json_escape ch =
     (if ch = 0x22 then Some [CHR 0x5C, CHR 0x22]
      else if ch = 0x5C then Some [CHR 0x5C, CHR 0x5C]
      else if ch = 8 then Some [CHR 0x5C, CHR ''b'']
      else if ch = 12 then Some [CHR 0x5C, CHR ''f'']
      else if ch = 10 then Some [CHR 0x5C, CHR ''n'']
      else if ch = 13 then Some [CHR 0x5C, CHR ''r'']
      else if ch = 9 then Some [CHR 0x5C, CHR ''t'']
      else if ch \<le> 31 then Some (json_one_char ch)
      else None)"

text \<open>The loop of \<open>operator<<\<close> for \<open>JsonString\<close>.\<close>

fun json_string_body :: "nat list \<Rightarrow> string option" where
  "json_string_body [] = Some []"
| "json_string_body (a # s) =
     (case json_escape a of
        Some e \<Rightarrow> do { t \<leftarrow> json_string_body s; Some (e @ t) }
      | None \<Rightarrow>
        if a < 128 then do { t \<leftarrow> json_string_body s; Some (char_of a # t) }
        else if a AND 0x40 = 0 then None
        else case s of [] \<Rightarrow> None | b # s1 \<Rightarrow>
          if b AND 0xc0 \<noteq> 0x80 then None
          else if a AND 0x20 = 0 then
            (if a AND 0x1e > 0 then
               do { e \<leftarrow> json_char (push_bit 6 (a AND 0x1f) OR (b AND 0x3f)); t \<leftarrow> json_string_body s1; Some (e @ t) }
             else None)
          else case s1 of [] \<Rightarrow> None | c # s2 \<Rightarrow>
            if c AND 0xc0 \<noteq> 0x80 then None
            else if a AND 0x10 = 0 then
              (if (a AND 0x0f) OR (b AND 0x20) > 0 then
                 do { e \<leftarrow> json_char (push_bit 12 (a AND 0x0f) OR push_bit 6 (b AND 0x3f) OR (c AND 0x3f));
                      t \<leftarrow> json_string_body s2; Some (e @ t) }
               else None)
            else case s2 of [] \<Rightarrow> None | d # s3 \<Rightarrow>
              if d AND 0xc0 \<noteq> 0x80 then None
              else if a AND 0x08 = 0 then
                (if (a AND 0x07) OR (b AND 0x30) > 0 then
                   do { e \<leftarrow> json_char (push_bit 18 (a AND 0x07) OR push_bit 12 (b AND 0x3f) OR
                                        push_bit 6 (c AND 0x3f) OR (d AND 0x3f));
                        t \<leftarrow> json_string_body s3; Some (e @ t) }
                 else None)
              else None)"

definition json_string :: "string \<Rightarrow> string option" where
  "json_string s = map_option (\<lambda>t. CHR 0x22 # t @ [CHR 0x22]) (json_string_body (map byte s))"

definition json_raw_string :: "string \<Rightarrow> string" where
  "json_raw_string s =
     CHR 0x22 # concat (map (\<lambda>c. case json_escape (byte c) of Some e \<Rightarrow> e | None \<Rightarrow> [c]) s) @ [CHR 0x22]"

subsection \<open>Values and printing\<close>

datatype json_value =
    JNull
  | JNumber string
  | JBoolean bool
  | JString string
  | JArray "json_value list"
  | JObject "(string \<times> json_value) list"

text \<open>\<open>JsonBuilder\<close>: a negative offset is the compact mode.\<close>

definition print_offset :: "int \<Rightarrow> string" where
  "print_offset offset = (if offset \<ge> 0 then CHR 0x0A # concat (replicate (nat offset) ''   '') else [])"

definition inc_offset :: "int \<Rightarrow> int" where
  "inc_offset offset = (if offset \<ge> 0 then offset + 1 else offset)"

definition colon :: "int \<Rightarrow> string" where
  "colon offset = (if offset \<ge> 0 then '' : '' else '':'')"

text \<open>
  \<open>JsonValue::store\<close> with the scopes of arrays and objects; the flag is \<open>is_first_\<close>, which holds from
  the second element on.
\<close>

fun json_store :: "int \<Rightarrow> json_value \<Rightarrow> string option"
  and json_store_array :: "int \<Rightarrow> bool \<Rightarrow> json_value list \<Rightarrow> string option"
  and json_store_object :: "int \<Rightarrow> bool \<Rightarrow> (string \<times> json_value) list \<Rightarrow> string option"
where
  "json_store offset JNull = Some ''null''"
| "json_store offset (JBoolean b) = Some (if b then ''true'' else ''false'')"
| "json_store offset (JNumber num) = Some num"
| "json_store offset (JString s) = json_string s"
| "json_store offset (JArray vs) =
     do { t \<leftarrow> json_store_array (inc_offset offset) False vs;
          Some (''['' @ t @ print_offset offset @ '']'') }"
| "json_store offset (JObject fs) =
     do { t \<leftarrow> json_store_object (inc_offset offset) False fs;
          Some (''{'' @ t @ print_offset offset @ ''}'') }"
| "json_store_array offset later [] = Some []"
| "json_store_array offset later (v # vs) =
     do { t \<leftarrow> json_store offset v; ts \<leftarrow> json_store_array offset True vs;
          Some ((if later then '','' else []) @ print_offset offset @ t @ ts) }"
| "json_store_object offset later [] = Some []"
| "json_store_object offset later ((name, v) # fs) =
     do { k \<leftarrow> json_string name; t \<leftarrow> json_store offset v; ts \<leftarrow> json_store_object offset True fs;
          Some ((if later then '','' else []) @ print_offset offset @ k @ colon offset @ t @ ts) }"

definition json_encode :: "json_value \<Rightarrow> bool \<Rightarrow> string option" where
  "json_encode v pretty =
     do { t \<leftarrow> json_store (if pretty then 0 else -1) v; Some (if pretty then t @ [CHR 0x0A] else t) }"

subsection \<open>Parsing strings\<close>

definition no_closing :: td_error where
  "no_closing = Error 0 ''Closing '\"' not found''"

definition no_opening :: td_error where
  "no_opening = Error 0 ''Opening '\"' expected''"

definition short_u :: td_error where
  "short_u = Error 0 (CHR 0x5C # ''u has less than 4 symbols'')"

definition bad_u :: td_error where
  "bad_u = Error 0 (''Invalid '' @ CHR 0x5C # ''u -- not hex digit'')"

text \<open>The digit loop of \<open>\u\<close>: \<^const>\<open>None\<close> at the first character that is no hexadecimal digit.\<close>

fun hex_number :: "nat \<Rightarrow> string \<Rightarrow> nat option" where
  "hex_number num [] = Some num"
| "hex_number num (c # s) = (if hex_to_int c = 16 then None else hex_number (num * 16 + hex_to_int c) s)"

definition is_surrogate :: "nat \<Rightarrow> bool" where
  "is_surrogate num \<longleftrightarrow> 0xD7FF < num \<and> num < 0xE000"

definition starts_u :: "string \<Rightarrow> bool" where
  "starts_u s \<longleftrightarrow> length s \<ge> 6 \<and> s ! 0 = CHR 0x5C \<and> s ! 1 = CHR ''u''"

definition join_surrogates :: "nat \<Rightarrow> nat \<Rightarrow> nat" where
  "join_surrogates num new_num = (push_bit 10 (num AND 0x3FF) OR (new_num AND 0x3FF)) + 0x10000"

text \<open>After \<open>\u\<close>: the code point and the unread text.\<close>

definition decode_u :: "string \<Rightarrow> (nat \<times> string) result" where
  "decode_u s =
     (if length s < 4 then Inl short_u
      else case hex_number 0 (take 4 s) of
             None \<Rightarrow> Inl bad_u
           | Some num \<Rightarrow>
               let s2 = drop 4 s in
               if is_surrogate num \<and> starts_u s2 then
                 (case hex_number 0 (take 4 (drop 2 s2)) of
                    None \<Rightarrow> Inl bad_u
                  | Some new_num \<Rightarrow>
                      if is_surrogate new_num then Inr (join_surrogates num new_num, drop 6 s2) else Inr (num, s2))
               else Inr (num, s2))"

lemma decode_u_length: "decode_u s = Inr (num, s') \<Longrightarrow> length s' < length s"
  by (auto simp: decode_u_def Let_def split: if_splits option.splits)

definition unescape :: "char \<Rightarrow> char" where
  "unescape c =
     (if c = CHR ''b'' then CHR 0x08 else if c = CHR ''f'' then CHR 0x0C else if c = CHR ''n'' then CHR 0x0A
      else if c = CHR ''r'' then CHR 0x0D else if c = CHR ''t'' then CHR 0x09 else c)"

text \<open>The loop of \<open>json_string_decode\<close>: the decoded bytes and the text after the closing quote.\<close>

function json_string_loop :: "string \<Rightarrow> (string \<times> string) result" where
  "json_string_loop [] = Inl no_closing"
| "json_string_loop (c # s) =
     (if c = CHR 0x22 then Inr ([], s)
      else if c = CHR 0x5C then
        (case s of
           [] \<Rightarrow> Inl no_closing
         | e # s1 \<Rightarrow>
             if e = CHR ''u'' then
               (case decode_u s1 of
                  Inl err \<Rightarrow> Inl err
                | Inr (num, s2) \<Rightarrow>
                    map_sum id (\<lambda>(r, t). (map char_of (append_utf8_character num) @ r, t)) (json_string_loop s2))
             else map_sum id (\<lambda>(r, t). (unescape e # r, t)) (json_string_loop s1))
      else map_sum id (\<lambda>(r, t). (c # r, t)) (json_string_loop s))"
  by pat_completeness auto
termination by (relation "measure length") (auto dest: decode_u_length)

definition json_string_decode :: "parser \<Rightarrow> (string \<times> parser) result" where
  "json_string_decode p =
     (case try_skip_char CHR 0x22 p of
        (False, q) \<Rightarrow> Inl no_opening
      | (True, q) \<Rightarrow> map_sum id (\<lambda>(r, t). (r, q\<lparr>rest := t\<rparr>)) (json_string_loop (rest q)))"

text \<open>The loop of \<open>json_string_skip\<close>.\<close>

function json_skip_loop :: "string \<Rightarrow> string result" where
  "json_skip_loop [] = Inl no_closing"
| "json_skip_loop (c # s) =
     (if c = CHR 0x22 then Inr s
      else if c = CHR 0x5C then
        (case s of
           [] \<Rightarrow> Inl no_closing
         | e # s1 \<Rightarrow>
             if e = CHR ''u'' then
               (case decode_u s1 of Inl err \<Rightarrow> Inl err | Inr (num, s2) \<Rightarrow> json_skip_loop s2)
             else json_skip_loop s1)
      else json_skip_loop s)"
  by pat_completeness auto
termination by (relation "measure length") (auto dest: decode_u_length)

definition json_string_skip :: "parser \<Rightarrow> parser result" where
  "json_string_skip p =
     (case try_skip_char CHR 0x22 p of
        (False, q) \<Rightarrow> Inl no_opening
      | (True, q) \<Rightarrow> map_sum id (\<lambda>t. q\<lparr>rest := t\<rparr>) (json_skip_loop (rest q)))"

subsection \<open>Parsing values\<close>

type_synonym json_result = "(json_value \<times> parser) result option"

definition end_error :: td_error where
  "end_error = Error 0 ''Unexpected string end''"

text \<open>The characters of a number and those that start one.\<close>

definition number_char :: "char \<Rightarrow> bool" where
  "number_char c \<longleftrightarrow> c = CHR ''-'' \<or> is_digit c \<or> c = CHR ''e'' \<or> c = CHR ''E'' \<or> c = CHR ''+'' \<or> c = CHR ''.''"

definition number_start :: "char \<Rightarrow> bool" where
  "number_start c \<longleftrightarrow> c = CHR ''-'' \<or> c = CHR ''+'' \<or> c = CHR ''.'' \<or> is_digit c"

partial_function (option) json_array_loop ::
  "(parser \<Rightarrow> json_result) \<Rightarrow> parser \<Rightarrow> json_value list \<Rightarrow> json_result"
where
  "json_array_loop dec p res =
     (if parser_empty p then Some (Inl end_error)
      else case dec p of
             None \<Rightarrow> None
           | Some (Inl e) \<Rightarrow> Some (Inl e)
           | Some (Inr (v, p1)) \<Rightarrow>
               (let p2 = skip_whitespaces p1 in
                case try_skip_char CHR '']'' p2 of
                  (ok, p3) \<Rightarrow> if ok then Some (Inr (JArray (res @ [v]), p3))
                  else
                    (case try_skip_char CHR '','' p2 of
                       (ok, p4) \<Rightarrow> if ok then json_array_loop dec (skip_whitespaces p4) (res @ [v])
                       else
                         if parser_empty p2 then Some (Inl end_error)
                         else Some (Inl (Error 0 ''Unexpected symbol while parsing JSON Array'')))))"

partial_function (option) json_object_loop ::
  "(parser \<Rightarrow> json_result) \<Rightarrow> parser \<Rightarrow> (string \<times> json_value) list \<Rightarrow> json_result"
where
  "json_object_loop dec p res =
     (if parser_empty p then Some (Inl end_error)
      else case json_string_decode p of
             Inl e \<Rightarrow> Some (Inl e)
           | Inr (field, p0) \<Rightarrow>
               (case try_skip_char CHR '':'' (skip_whitespaces p0) of
                  (ok, q) \<Rightarrow> if \<not> ok then Some (Inl (Error 0 ([CHR 0x27, CHR '':'', CHR 0x27] @ '' expected'')))
                  else
                    (case dec q of
                       None \<Rightarrow> None
                     | Some (Inl e) \<Rightarrow> Some (Inl e)
                     | Some (Inr (v, p1)) \<Rightarrow>
                         (let p2 = skip_whitespaces p1 in
                          case try_skip_char CHR ''}'' p2 of
                            (ok, p3) \<Rightarrow> if ok then Some (Inr (JObject (res @ [(field, v)]), p3))
                            else
                              (case try_skip_char CHR '','' p2 of
                                 (ok, p4) \<Rightarrow> if ok then json_object_loop dec (skip_whitespaces p4) (res @ [(field, v)])
                                 else
                                   if parser_empty p2 then Some (Inl end_error)
                                   else Some (Inl (Error 0 ''Unexpected symbol while parsing JSON Object'')))))))"

definition json_keyword :: "string \<Rightarrow> json_value \<Rightarrow> string \<Rightarrow> parser \<Rightarrow> json_result" where
  "json_keyword word v message q =
     Some (case try_skip word q of (True, r) \<Rightarrow> Inr (v, r) | (False, r) \<Rightarrow> Inl (Error 0 message))"

definition symbol_error :: "char \<Rightarrow> td_error" where
  "symbol_error c =
     Error 0 (if 0 < byte c \<and> byte c < 127 then ''Unexpected symbol '' @ [CHR 0x27, c, CHR 0x27]
              else ''Unexpected symbol'')"

fun do_json_decode :: "nat \<Rightarrow> parser \<Rightarrow> json_result" where
  "do_json_decode 0 p = Some (Inl (Error 0 ''Too big object depth''))"
| "do_json_decode (Suc n) p =
     (let q = skip_whitespaces p; c = peek_char q in
      if c = CHR ''f'' then json_keyword ''false'' (JBoolean False) ''Token starts with 'f' -- false expected'' q
      else if c = CHR ''t'' then json_keyword ''true'' (JBoolean True) ''Token starts with 't' -- true expected'' q
      else if c = CHR ''n'' then json_keyword ''null'' JNull ''Token starts with 'n' -- null expected'' q
      else if c = CHR 0x22 then Some (map_sum id (\<lambda>(s, r). (JString s, r)) (json_string_decode q))
      else if c = CHR ''['' then
        (let q1 = skip_whitespaces (skip CHR ''['' q) in
         case try_skip_char CHR '']'' q1 of
           (True, r) \<Rightarrow> Some (Inr (JArray [], r))
         | (False, r) \<Rightarrow> json_array_loop (do_json_decode n) q1 [])
      else if c = CHR ''{'' then
        (let q1 = skip_whitespaces (skip CHR ''{'' q) in
         case try_skip_char CHR ''}'' q1 of
           (True, r) \<Rightarrow> Some (Inr (JObject [], r))
         | (False, r) \<Rightarrow> json_object_loop (do_json_decode n) q1 [])
      else if number_start c then
        (let (num, r) = read_while number_char q in Some (Inr (JNumber num, r)))
      else if c = CHR 0x00 then Some (Inl end_error)
      else Some (Inl (symbol_error c)))"

definition default_max_depth :: nat where
  "default_max_depth = 100"

definition json_decode :: "string \<Rightarrow> json_value result option" where
  "json_decode json =
     (case do_json_decode (default_max_depth + 1) (new_parser json) of
        None \<Rightarrow> None
      | Some (Inl e) \<Rightarrow> Some (Inl e)
      | Some (Inr (v, p)) \<Rightarrow>
          if parser_empty (skip_whitespaces p) then Some (Inr v) else Some (Inl (Error 0 ''Expected string end'')))"

subsection \<open>Skipping values\<close>

partial_function (option) json_skip_array_loop ::
  "(parser \<Rightarrow> parser result option) \<Rightarrow> parser \<Rightarrow> parser result option"
where
  "json_skip_array_loop sk p =
     (if parser_empty p then Some (Inl (Error 0 ''Unexpected end''))
      else case sk p of
             None \<Rightarrow> None
           | Some (Inl e) \<Rightarrow> Some (Inl e)
           | Some (Inr p1) \<Rightarrow>
               (let p2 = skip_whitespaces p1 in
                case try_skip_char CHR '']'' p2 of
                  (ok, p3) \<Rightarrow> if ok then Some (Inr p3)
                  else
                    (case try_skip_char CHR '','' p2 of
                       (ok, p4) \<Rightarrow> if ok then json_skip_array_loop sk (skip_whitespaces p4)
                       else Some (Inl (Error 0 ''Unexpected symbol'')))))"

partial_function (option) json_skip_object_loop ::
  "(parser \<Rightarrow> parser result option) \<Rightarrow> parser \<Rightarrow> parser result option"
where
  "json_skip_object_loop sk p =
     (if parser_empty p then Some (Inl (Error 0 ''Unexpected end''))
      else case json_string_skip p of
             Inl e \<Rightarrow> Some (Inl e)
           | Inr p0 \<Rightarrow>
               (case try_skip_char CHR '':'' (skip_whitespaces p0) of
                  (ok, q) \<Rightarrow> if \<not> ok then Some (Inl (Error 0 ([CHR 0x27, CHR '':'', CHR 0x27] @ '' expected'')))
                  else
                    (case sk q of
                       None \<Rightarrow> None
                     | Some (Inl e) \<Rightarrow> Some (Inl e)
                     | Some (Inr p1) \<Rightarrow>
                         (let p2 = skip_whitespaces p1 in
                          case try_skip_char CHR ''}'' p2 of
                            (ok, p3) \<Rightarrow> if ok then Some (Inr p3)
                            else
                              (case try_skip_char CHR '','' p2 of
                                 (ok, p4) \<Rightarrow> if ok then json_skip_object_loop sk (skip_whitespaces p4)
                                 else Some (Inl (Error 0 ''Unexpected symbol'')))))))"

definition json_skip_keyword :: "string \<Rightarrow> string \<Rightarrow> parser \<Rightarrow> parser result option" where
  "json_skip_keyword word message q =
     Some (case try_skip word q of (True, r) \<Rightarrow> Inr r | (False, r) \<Rightarrow> Inl (Error 0 message))"

fun do_json_skip :: "nat \<Rightarrow> parser \<Rightarrow> parser result option" where
  "do_json_skip 0 p = Some (Inl (Error 0 ''Too big object depth''))"
| "do_json_skip (Suc n) p =
     (let q = skip_whitespaces p; c = peek_char q in
      if c = CHR ''f'' then json_skip_keyword ''false'' ''Starts with 'f' -- false expected'' q
      else if c = CHR ''t'' then json_skip_keyword ''true'' ''Starts with 't' -- true expected'' q
      else if c = CHR ''n'' then json_skip_keyword ''null'' ''Starts with 'n' -- null expected'' q
      else if c = CHR 0x22 then Some (json_string_skip q)
      else if c = CHR ''['' then
        (let q1 = skip_whitespaces (skip CHR ''['' q) in
         case try_skip_char CHR '']'' q1 of
           (True, r) \<Rightarrow> Some (Inr r)
         | (False, r) \<Rightarrow> json_skip_array_loop (do_json_skip n) q1)
      else if c = CHR ''{'' then
        (let q1 = skip_whitespaces (skip CHR ''{'' q) in
         case try_skip_char CHR ''}'' q1 of
           (True, r) \<Rightarrow> Some (Inr r)
         | (False, r) \<Rightarrow> json_skip_object_loop (do_json_skip n) q1)
      else if number_start c then Some (Inr (snd (read_while number_char q)))
      else if c = CHR 0x00 then Some (Inl (Error 0 ''Unexpected end''))
      else Some (Inl (symbol_error c)))"

subsection \<open>Fields of an object\<close>

type_synonym json_object = "(string \<times> json_value) list"

datatype json_type = TNull | TNumber | TBoolean | TString | TArray | TObject

fun json_type_of :: "json_value \<Rightarrow> json_type" where
  "json_type_of JNull = TNull"
| "json_type_of (JNumber s) = TNumber"
| "json_type_of (JBoolean b) = TBoolean"
| "json_type_of (JString s) = TString"
| "json_type_of (JArray vs) = TArray"
| "json_type_of (JObject fs) = TObject"

fun get_type_name :: "json_type \<Rightarrow> string" where
  "get_type_name TNull = ''Null''"
| "get_type_name TNumber = ''Number''"
| "get_type_name TBoolean = ''Boolean''"
| "get_type_name TString = ''String''"
| "get_type_name TArray = ''Array''"
| "get_type_name TObject = ''Object''"

definition get_field :: "string \<Rightarrow> json_object \<Rightarrow> json_value option" where
  "get_field name obj = map_of obj name"

definition has_field :: "string \<Rightarrow> json_object \<Rightarrow> bool" where
  "has_field name obj \<longleftrightarrow> get_field name obj \<noteq> None"

text \<open>Moving a value out of the first field of that name leaves \<open>Null\<close> there.\<close>

fun take_field :: "string \<Rightarrow> json_object \<Rightarrow> json_object" where
  "take_field name [] = []"
| "take_field name ((k, v) # fs) = (if k = name then (k, JNull) # fs else (k, v) # take_field name fs)"

definition extract_field :: "string \<Rightarrow> json_object \<Rightarrow> json_value \<times> json_object" where
  "extract_field name obj =
     (case get_field name obj of None \<Rightarrow> (JNull, obj) | Some v \<Rightarrow> (v, take_field name obj))"

definition type_error :: "string \<Rightarrow> string \<Rightarrow> td_error" where
  "type_error name type_name =
     Error 400 (''Field '' @ [CHR 0x22] @ name @ [CHR 0x22] @ '' must be of type '' @ type_name)"

definition missing_error :: "string \<Rightarrow> td_error" where
  "missing_error name = Error 400 (''Can't find field '' @ [CHR 0x22] @ name @ [CHR 0x22])"

definition number_error :: "string \<Rightarrow> td_error" where
  "number_error name = Error 400 (''Field '' @ [CHR 0x22] @ name @ [CHR 0x22] @ '' must be a Number'')"

definition extract_optional_field ::
  "string \<Rightarrow> json_type \<Rightarrow> json_object \<Rightarrow> (json_value \<times> json_object) result" where
  "extract_optional_field name ty obj =
     (case get_field name obj of
        None \<Rightarrow> Inr (JNull, obj)
      | Some v \<Rightarrow>
          if ty \<noteq> TNull \<and> json_type_of v \<noteq> ty then Inl (type_error name (get_type_name ty))
          else Inr (v, take_field name obj))"

definition extract_required_field ::
  "string \<Rightarrow> json_type \<Rightarrow> json_object \<Rightarrow> (json_value \<times> json_object) result" where
  "extract_required_field name ty obj =
     (case get_field name obj of
        None \<Rightarrow> Inl (missing_error name)
      | Some v \<Rightarrow>
          if ty \<noteq> TNull \<and> json_type_of v \<noteq> ty then Inl (type_error name (get_type_name ty))
          else Inr (v, take_field name obj))"

definition get_bool_field :: "bool result \<Rightarrow> string \<Rightarrow> json_object \<Rightarrow> bool result" where
  "get_bool_field absent name obj =
     (case get_field name obj of
        None \<Rightarrow> absent
      | Some (JBoolean b) \<Rightarrow> Inr b
      | Some v \<Rightarrow> Inl (type_error name ''Boolean''))"

definition get_integer_field :: "nat \<Rightarrow> string \<Rightarrow> string \<Rightarrow> int result" where
  "get_integer_field w name val =
     (case to_integer_safe w val of
        Some n \<Rightarrow> Inr n
      | None \<Rightarrow> Inl (Error 400 (''Field '' @ [CHR 0x22] @ name @ [CHR 0x22] @ '' must be a valid Number'')))"

definition get_number_field :: "nat \<Rightarrow> int result \<Rightarrow> string \<Rightarrow> json_object \<Rightarrow> int result" where
  "get_number_field w absent name obj =
     (case get_field name obj of
        None \<Rightarrow> absent
      | Some (JString s) \<Rightarrow> get_integer_field w name s
      | Some (JNumber s) \<Rightarrow> get_integer_field w name s
      | Some v \<Rightarrow> Inl (number_error name))"

definition get_string_field :: "string result \<Rightarrow> string \<Rightarrow> json_object \<Rightarrow> string result" where
  "get_string_field absent name obj =
     (case get_field name obj of
        None \<Rightarrow> absent
      | Some (JString s) \<Rightarrow> Inr s
      | Some (JNumber s) \<Rightarrow> Inr s
      | Some v \<Rightarrow> Inl (type_error name ''String''))"

definition get_optional_bool_field :: "string \<Rightarrow> bool \<Rightarrow> json_object \<Rightarrow> bool result" where
  "get_optional_bool_field name dflt = get_bool_field (Inr dflt) name"

definition get_required_bool_field :: "string \<Rightarrow> json_object \<Rightarrow> bool result" where
  "get_required_bool_field name = get_bool_field (Inl (missing_error name)) name"

definition get_optional_int_field :: "string \<Rightarrow> int \<Rightarrow> json_object \<Rightarrow> int result" where
  "get_optional_int_field name dflt = get_number_field 32 (Inr dflt) name"

definition get_required_int_field :: "string \<Rightarrow> json_object \<Rightarrow> int result" where
  "get_required_int_field name = get_number_field 32 (Inl (missing_error name)) name"

definition get_optional_long_field :: "string \<Rightarrow> int \<Rightarrow> json_object \<Rightarrow> int result" where
  "get_optional_long_field name dflt = get_number_field 64 (Inr dflt) name"

definition get_required_long_field :: "string \<Rightarrow> json_object \<Rightarrow> int result" where
  "get_required_long_field name = get_number_field 64 (Inl (missing_error name)) name"

definition get_optional_string_field :: "string \<Rightarrow> string \<Rightarrow> json_object \<Rightarrow> string result" where
  "get_optional_string_field name dflt = get_string_field (Inr dflt) name"

definition get_required_string_field :: "string \<Rightarrow> json_object \<Rightarrow> string result" where
  "get_required_string_field name = get_string_field (Inl (missing_error name)) name"

end
