(* ===== verification/Json_Proofs.thy ===== *)
theory Json_Proofs
  imports Json
begin

section \<open>Correctness of JSON printing and parsing\<close>

text \<open>
  Printing never fails on valid texts, and what is printed, compact or pretty, is read back as the same
  value; the parser always returns; and skipping a value accepts the same inputs and stops at the same
  place as parsing it.
\<close>

unbundle bit_operations_syntax

subsection \<open>Characters in strings\<close>

lemma hex_to_int_json_hex: "n < 16 \<Longrightarrow> hex_to_int (json_hex n) = n"
proof -
  assume "n < 16"
  then have "n \<in> set [0..<16]" by simp
  moreover have "list_all (\<lambda>n. hex_to_int (json_hex n) = n) [0..<16]"
    by (simp add: upt_rec json_hex_def hex_to_int_def is_digit_def set_bit5_def byte_def)
  ultimately show ?thesis by (simp add: list_all_iff)
qed

lemma and_15: "a AND 15 = a mod 16" for a :: nat
  by (rule and_fields(11) [simplified])

lemma json_one_char_digits:
  assumes "c < 65536"
  shows "json_one_char c = [CHR 0x5C, CHR ''u'', json_hex (c div 4096), json_hex (c div 256 mod 16),
    json_hex (c div 16 mod 16), json_hex (c mod 16)]"
  by (simp add: json_one_char_def drop_bit_eq_div and_15)

lemma hex_number_one_char:
  assumes "c < 65536"
  shows "hex_number 0 (drop 2 (json_one_char c)) = Some c"
proof -
  define a b d where "a = c div 16 div 16 div 16" and "b = c div 16 div 16 mod 16" and "d = c div 16 mod 16"
  have c: "c = ((a * 16 + b) * 16 + d) * 16 + c mod 16" by (simp add: a_def b_def d_def)
  have "c div 4096 = a" "c div 256 mod 16 = b" by (simp_all add: a_def b_def div_mult2_eq [symmetric])
  moreover have "a < 16" "b < 16" "d < 16" using assms by (simp_all add: a_def b_def d_def div_mult2_eq [symmetric])
  ultimately have "hex_number 0 (drop 2 (json_one_char c)) = Some (((a * 16 + b) * 16 + d) * 16 + c mod 16)"
    by (simp add: json_one_char_digits [OF assms] hex_to_int_json_hex d_def [symmetric])
  with c show ?thesis by simp
qed

lemma json_one_char_shape:
  assumes "c < 65536"
  obtains h where "json_one_char c = CHR 0x5C # CHR ''u'' # h" "length h = 4" "hex_number 0 h = Some c"
  using hex_number_one_char [OF assms] that [of "drop 2 (json_one_char c)"]
  by (simp add: json_one_char_digits [OF assms])

lemma decode_u_plain:
  assumes "length h = 4" "hex_number 0 h = Some c" "\<not> is_surrogate c"
  shows "decode_u (h @ s) = Inr (c, s)"
  using assms by (simp add: decode_u_def)

lemma decode_u_pair:
  assumes "length h = 4" "hex_number 0 h = Some c" "is_surrogate c"
    and "length k = 4" "hex_number 0 k = Some d" "is_surrogate d"
  shows "decode_u (h @ CHR 0x5C # CHR ''u'' # k @ s) = Inr (join_surrogates c d, s)"
  using assms by (simp add: decode_u_def starts_u_def)

lemma and_10_bits: "a AND 0x3FF = a mod 1024" for a :: nat
  using and_field [of a 0 10] by (simp add: mask_eq_exp_minus_1)

lemma surrogate_pair:
  assumes "0x10000 \<le> c" "c \<le> 0x10ffff"
  shows "is_surrogate (0xD7C0 + drop_bit 10 c)" "is_surrogate (0xDC00 + (c AND 0x3FF))"
    "join_surrogates (0xD7C0 + drop_bit 10 c) (0xDC00 + (c AND 0x3FF)) = c"
proof -
  define q r where "q = c div 1024 - 64" and "r = c mod 1024"
  have "64 \<le> c div 1024" "c div 1024 < 1088" using assms by simp_all
  then have q: "c div 1024 = q + 64" "q < 1024" and r: "r < 1024" by (simp_all add: q_def r_def)
  have c: "c = (q + 64) * 1024 + r" using q by (simp add: r_def flip: q(1))
  show "is_surrogate (0xD7C0 + drop_bit 10 c)" using q by (simp add: is_surrogate_def drop_bit_eq_div)
  show "is_surrogate (0xDC00 + (c AND 0x3FF))" using r by (simp add: is_surrogate_def and_10_bits r_def [symmetric])
  have "(0xD7C0 + (q + 64)) mod 1024 = q" using q mod_mult_self1 [of q 54 1024] by (simp add: add.commute)
  moreover have "(0xDC00 + r) mod 1024 = r" using r mod_mult_self1 [of r 55 1024] by (simp add: add.commute)
  ultimately have "join_surrogates (0xD7C0 + drop_bit 10 c) (0xDC00 + (c AND 0x3FF)) = q * 1024 + r + 0x10000"
    using push_or_add [of r 10 q] q r
    by (simp add: join_surrogates_def and_10_bits drop_bit_eq_div r_def [symmetric])
  with c show "join_surrogates (0xD7C0 + drop_bit 10 c) (0xDC00 + (c AND 0x3FF)) = c" by simp
qed

text \<open>The printed form of a character.\<close>

definition esc :: "nat \<Rightarrow> string" where
  "esc c = (case json_escape c of Some e \<Rightarrow> e | None \<Rightarrow> if c < 128 then [char_of c] else the (json_char c))"

lemma json_escape_None: "32 \<le> c \<Longrightarrow> c \<noteq> 0x22 \<Longrightarrow> c \<noteq> 0x5C \<Longrightarrow> json_escape c = None"
  by (simp add: json_escape_def)

lemma json_char_scalar: "scalar c \<Longrightarrow> 128 \<le> c \<Longrightarrow> json_char c = Some (esc c)"
  by (auto simp: json_char_def esc_def json_escape_None scalar_def)

lemma json_body_char:
  assumes "scalar c"
  shows "json_string_body (append_utf8_character c @ s) = map_option ((@) (esc c)) (json_string_body s)"
  using assms
proof (cases rule: scalar_cases)
  case one
  then show ?thesis
    by (simp add: append_utf8_character_def esc_def map_option_case Option.bind_def split: option.split)
next
  case (two x y)
  have "192 + x < 224" "0 < (192 + x) AND 0x1e" using two lead_two [of "192 + x"] by simp_all
  moreover have "json_char (x * 64 + y) = Some (esc c)" using json_char_scalar [OF assms] two by simp
  ultimately show ?thesis using two unfolding two(1) utf8_two [OF two(3,4,2)]
    by (simp add: json_escape_None lead_byte cont_byte low6 lead_digit join_digits(1) map_option_case Option.bind_def
        two(1) [symmetric] split: option.split)
next
  case (three x y z)
  have "((224 + x) AND 0x0f) OR ((128 + y) AND 0x20) > 0"
  proof -
    have "(128 + y) div 32 mod 2 = y div 32"
    proof -
      have "(128 + y) div 32 = y div 32 + 2 * 2" "y div 32 < 2" using three(3) by simp_all
      then show ?thesis by (simp only: mod_mult_self1 mod_less)
    qed
    then have "(128 + y) AND 0x20 = y div 32 * 32" by (simp add: and_fields)
    moreover have "0 < x \<or> 0 < y div 32 * 32" using three(5) by (auto simp: div_greater_zero_iff)
    ultimately show ?thesis using three(2) by (auto simp: lead_digit or_eq_0_iff intro!: gr0I)
  qed
  moreover have "json_char ((x * 64 + y) * 64 + z) = Some (esc c)" using json_char_scalar [OF assms] three by auto
  ultimately show ?thesis using three unfolding three(1) utf8_three [OF three(2-5)]
    by (simp add: json_escape_None lead_byte cont_byte low6 lead_digit join_digits(2) map_option_case Option.bind_def
        three(1) [symmetric] del: push_bit_and split: option.split)
next
  case (four x y z u)
  then have x: "x < 8" by auto
  have "((240 + x) AND 0x07) OR ((128 + y) AND 0x30) > 0"
  proof -
    have "(128 + y) div 16 mod 4 = y div 16"
    proof -
      have "(128 + y) div 16 = y div 16 + 2 * 4" "y div 16 < 4" using four(2) by simp_all
      then show ?thesis by (simp only: mod_mult_self1 mod_less)
    qed
    then have "(128 + y) AND 0x30 = y div 16 * 16" by (simp add: and_fields)
    moreover have "0 < x \<or> 0 < y div 16 * 16" using four(5) by (auto simp: div_greater_zero_iff)
    ultimately show ?thesis using x by (auto simp: lead_digit or_eq_0_iff intro!: gr0I)
  qed
  moreover have "json_char (((x * 64 + y) * 64 + z) * 64 + u) = Some (esc c)" using json_char_scalar [OF assms] four by auto
  ultimately show ?thesis using four x unfolding four(1) utf8_four [OF four(2-6)]
    by (simp add: json_escape_None lead_byte cont_byte low6 lead_digit join_digits(3) map_option_case Option.bind_def
        four(1) [symmetric] del: push_bit_and split: option.split)
qed

lemma json_loop_u:
  "json_string_loop (CHR 0x5C # CHR ''u'' # h @ s) =
    (case decode_u (h @ s) of
       Inl err \<Rightarrow> Inl err
     | Inr (num, s2) \<Rightarrow> map_sum id (\<lambda>(r, t). (map char_of (append_utf8_character num) @ r, t)) (json_string_loop s2))"
  by simp

declare json_string_loop.simps(2) [simp del]

lemma char_of_small_inject: "c < 256 \<Longrightarrow> d < 256 \<Longrightarrow> char_of c = (char_of d :: char) \<longleftrightarrow> c = (d :: nat)"
  by (metis byte_char_of)

lemma char_of_escaped [simp]:
  "char_of (8 :: nat) = CHR 0x08" "char_of (9 :: nat) = CHR 0x09" "char_of (10 :: nat) = CHR 0x0A"
  "char_of (12 :: nat) = CHR 0x0C" "char_of (13 :: nat) = CHR 0x0D" "char_of (34 :: nat) = CHR 0x22"
  "char_of (92 :: nat) = CHR 0x5C"
  by (simp_all add: char_of_def bit_0)

lemma json_loop_char:
  assumes "scalar c"
  shows "json_string_loop (esc c @ s) =
    map_sum id (\<lambda>(r, t). (map char_of (append_utf8_character c) @ r, t)) (json_string_loop s)"
proof -
  consider "c < 32" "c \<notin> {8, 9, 10, 12, 13}" | "c \<in> {8, 9, 10, 12, 13, 0x22, 0x5C}"
    | "32 \<le> c" "c < 128" "c \<notin> {0x22, 0x5C}" | "128 \<le> c" "c < 0x10000" | "0x10000 \<le> c" by force
  then show ?thesis
  proof cases
    case 1
    obtain h where h: "json_one_char c = CHR 0x5C # CHR ''u'' # h" "length h = 4" "hex_number 0 h = Some c"
      using json_one_char_shape [of c] 1 by auto
    have "esc c = json_one_char c" using 1 by (simp add: esc_def json_escape_def)
    moreover have "\<not> is_surrogate c" using 1 by (simp add: is_surrogate_def)
    ultimately show ?thesis using h by (simp add: json_loop_u decode_u_plain)
  next
    case 2
    then show ?thesis
      by (auto simp: esc_def json_escape_def json_string_loop.simps(2) unescape_def append_utf8_character_def)
  next
    case 3
    then have "char_of c \<noteq> (CHR 0x22)" "char_of c \<noteq> (CHR 0x5C)"
      using char_of_small_inject [of c 34] char_of_small_inject [of c 92] by simp_all
    with 3 show ?thesis
      by (simp add: esc_def json_escape_None json_string_loop.simps(2) append_utf8_character_def)
  next
    case 4
    obtain h where h: "json_one_char c = CHR 0x5C # CHR ''u'' # h" "length h = 4" "hex_number 0 h = Some c"
      using json_one_char_shape [of c] 4 by auto
    have "\<not> is_surrogate c" using assms by (auto simp: is_surrogate_def scalar_def)
    moreover from this 4 have "esc c = json_one_char c" by (auto simp: esc_def json_escape_None json_char_def is_surrogate_def)
    ultimately show ?thesis using h by (simp add: json_loop_u decode_u_plain)
  next
    case 5
    then have c: "c \<le> 0x10ffff" using assms by (simp add: scalar_def)
    note pair = surrogate_pair [OF 5 c]
    have small: "0xD7C0 + drop_bit 10 c < 65536" "0xDC00 + (c AND 0x3FF) < 65536"
      using pair by (simp_all add: is_surrogate_def)
    obtain h where h: "json_one_char (0xD7C0 + drop_bit 10 c) = CHR 0x5C # CHR ''u'' # h" "length h = 4"
      "hex_number 0 h = Some (0xD7C0 + drop_bit 10 c)" using json_one_char_shape [OF small(1)] by blast
    obtain k where k: "json_one_char (0xDC00 + (c AND 0x3FF)) = CHR 0x5C # CHR ''u'' # k" "length k = 4"
      "hex_number 0 k = Some (0xDC00 + (c AND 0x3FF))" using json_one_char_shape [OF small(2)] by blast
    have "esc c = CHR 0x5C # CHR ''u'' # h @ CHR 0x5C # CHR ''u'' # k"
      using 5 c h(1) k(1) by (simp add: esc_def json_escape_None json_char_def)
    then have "json_string_loop (esc c @ s) = json_string_loop (CHR 0x5C # CHR ''u'' # h @ CHR 0x5C # CHR ''u'' # k @ s)"
      by simp
    also have "\<dots> = map_sum id (\<lambda>(r, t). (map char_of (append_utf8_character c) @ r, t)) (json_string_loop s)"
      unfolding json_loop_u by (simp only: decode_u_pair [OF h(2,3) pair(1) k(2,3) pair(2)] pair(3) sum.case prod.case)
    finally show ?thesis .
  qed
qed

lemma json_body_chars:
  "list_all scalar cs \<Longrightarrow> json_string_body (utf8_bytes cs) = Some (concat (map esc cs))"
  by (induction cs) (simp_all add: utf8_bytes_def json_body_char)

lemma json_loop_chars:
  "list_all scalar cs \<Longrightarrow>
    json_string_loop (concat (map esc cs) @ CHR 0x22 # r) = Inr (map char_of (utf8_bytes cs), r)"
  by (induction cs) (simp_all add: utf8_bytes_def json_loop_char json_string_loop.simps(2))

lemma json_string_ok:
  assumes "check_utf8 s"
  obtains t where "json_string s = Some (CHR 0x22 # t)" "\<And>r. json_string_loop (t @ r) = Inr (s, r)"
proof -
  have "\<forall>b \<in> set (map byte s). b < 256" by simp
  with assms obtain cs where cs: "list_all scalar cs" "map byte s = utf8_bytes cs"
    using check_utf8_bytes_iff by (auto simp: check_utf8_def)
  have s: "map char_of (utf8_bytes cs) = s" unfolding cs(2) [symmetric] by (simp add: map_idI)
  show thesis
  proof (rule that)
    show "json_string s = Some (CHR 0x22 # concat (map esc cs) @ [CHR 0x22])"
      by (simp add: json_string_def cs json_body_chars)
    show "json_string_loop ((concat (map esc cs) @ [CHR 0x22]) @ r) = Inr (s, r)" for r
      using json_loop_chars [OF cs(1), of r] s by simp
  qed
qed

subsection \<open>Reading back what was printed\<close>

definition is_ws :: "char \<Rightarrow> bool" where
  "is_ws c \<longleftrightarrow> c \<in> set whitespace_chars"

lemma is_ws_simps [simp]:
  "is_ws CHR '' ''" "is_ws CHR 0x0A" "\<not> is_ws CHR '',''" "\<not> is_ws CHR '']''" "\<not> is_ws CHR ''}''"
  "\<not> is_ws CHR '':''" "\<not> is_ws CHR 0x22" "\<not> is_ws CHR ''[''" "\<not> is_ws CHR ''{''"
  by (simp_all add: is_ws_def whitespace_chars_def)

lemma skip_ws:
  assumes "rest p = w @ t" "list_all is_ws w" "t = [] \<or> \<not> is_ws (hd t)"
  shows "skip_whitespaces p = p\<lparr>rest := t\<rparr>"
proof -
  have "dropWhile (\<lambda>c. c \<in> set whitespace_chars) (w @ t) = t"
    using assms(2,3) by (induction w) (auto simp: is_ws_def, cases t, auto)
  then show ?thesis using assms(1) by (simp add: skip_whitespaces_def skip_till_not_def)
qed

lemma skip_ws_upd:
  fixes p :: parser
  assumes "list_all is_ws w" "t = [] \<or> \<not> is_ws (hd t)"
  shows "skip_whitespaces (p\<lparr>rest := w @ t\<rparr>) = p\<lparr>rest := t\<rparr>"
  using skip_ws [of "p\<lparr>rest := w @ t\<rparr>" w t] assms by simp

text \<open>Texts a value may be followed by.\<close>

definition delimited :: "string \<Rightarrow> bool" where
  "delimited r \<longleftrightarrow> r = [] \<or> is_ws (hd r) \<or> hd r \<in> {CHR '','', CHR '']'', CHR ''}''}"

lemma delimited_number: "delimited r \<Longrightarrow> r = [] \<or> \<not> number_char (hd r)"
  by (auto simp: delimited_def number_char_def is_ws_def whitespace_chars_def is_digit_def byte_def)

text \<open>
  The values the printer is used on: numbers have the characters of a number, texts are valid UTF-8,
  and the nesting is below \<open>n\<close>.
\<close>

fun json_ok :: "nat \<Rightarrow> json_value \<Rightarrow> bool" where
  "json_ok 0 v = False"
| "json_ok (Suc n) v =
     (case v of
        JNumber s \<Rightarrow> s \<noteq> [] \<and> number_start (hd s) \<and> list_all number_char s
      | JString s \<Rightarrow> check_utf8 s
      | JArray vs \<Rightarrow> list_all (json_ok n) vs
      | JObject fs \<Rightarrow> list_all (\<lambda>f. check_utf8 (fst f) \<and> json_ok n (snd f)) fs
      | _ \<Rightarrow> True)"

lemma json_ok_mono: "json_ok n v \<Longrightarrow> n \<le> m \<Longrightarrow> json_ok m v"
proof (induction n arbitrary: m v)
  case (Suc n)
  then obtain k where "m = Suc k" "n \<le> k" by (cases m) auto
  with Suc show ?case by (cases v) (auto simp: list_all_iff)
qed simp

lemma json_store_total:
  "json_ok n v \<Longrightarrow> \<exists>t. json_store offset v = Some t"
proof (induction n arbitrary: offset v)
  case (Suc n)
  have arr: "list_all (json_ok n) vs \<Longrightarrow> \<exists>t. json_store_array offset later vs = Some t" for vs offset later
  proof (induction vs arbitrary: later)
    case (Cons v vs)
    then obtain t ts where "json_store offset v = Some t" "json_store_array offset True vs = Some ts"
      using Suc.IH [of v offset] by fastforce
    then show ?case by simp
  qed simp
  have obj: "list_all (\<lambda>f. check_utf8 (fst f) \<and> json_ok n (snd f)) fs \<Longrightarrow>
      \<exists>t. json_store_object offset later fs = Some t" for fs offset later
  proof (induction fs arbitrary: later)
    case (Cons f fs)
    obtain k v where f: "f = (k, v)" by (cases f)
    obtain t where "json_string k = Some t" using json_string_ok [of k] Cons.prems f by auto
    moreover obtain u where "json_store offset v = Some u" using Suc.IH [of v offset] Cons.prems f by auto
    moreover obtain us where "json_store_object offset True fs = Some us" using Cons.IH [of True] Cons.prems by auto
    ultimately show ?case by (simp add: f)
  qed simp
  show ?case
  proof (cases v)
    case (JString s)
    then show ?thesis using Suc.prems json_string_ok [of s] by auto
  next
    case (JArray vs)
    then show ?thesis using Suc.prems arr [of vs "inc_offset offset" False] by auto
  next
    case (JObject fs)
    then show ?thesis using Suc.prems obj [of fs "inc_offset offset" False] by auto
  qed auto
qed simp

lemma number_start_not:
  "number_start c \<Longrightarrow> \<not> is_ws c \<and> c \<notin> {CHR ''f'', CHR ''t'', CHR ''n'', CHR 0x22, CHR ''['', CHR ''{'', CHR '']'', CHR ''}''}"
  by (auto simp: number_start_def is_ws_def whitespace_chars_def is_digit_def byte_def)

lemma json_string_hd: "json_string s = Some t \<Longrightarrow> t \<noteq> [] \<and> hd t = CHR 0x22"
  by (auto simp: json_string_def)

text \<open>A printed value starts with a character that is neither white space nor a closing bracket.\<close>

lemma json_store_hd:
  assumes "json_ok n v" "json_store offset v = Some t"
  shows "t \<noteq> [] \<and> \<not> is_ws (hd t) \<and> hd t \<notin> {CHR '']'', CHR ''}''}"
proof (cases n)
  case (Suc m)
  show ?thesis
  proof (cases v)
    case (JNumber s)
    then show ?thesis using assms Suc number_start_not [of "hd s"] by auto
  next
    case (JString s)
    then show ?thesis using assms json_string_hd [of s t] by auto
  next
    case (JArray vs)
    then show ?thesis using assms by (auto split: bind_splits)
  next
    case (JObject fs)
    then show ?thesis using assms by (auto split: bind_splits)
  qed (use assms in \<open>auto simp: is_ws_def whitespace_chars_def split: if_splits\<close>)
qed (use assms in simp)

lemma ws_print_offset [simp]: "list_all is_ws (print_offset offset)"
  by (auto simp: print_offset_def list_all_iff in_set_replicate)

lemma delimited_close: "list_all is_ws e \<Longrightarrow> c \<in> {CHR '','', CHR '']'', CHR ''}''} \<Longrightarrow> delimited (e @ c # r)"
  by (cases e) (auto simp: delimited_def)

text \<open>What a decoder must do to read back the values a loop hands to it.\<close>

definition reads :: "int \<Rightarrow> (parser \<Rightarrow> json_result) \<Rightarrow> json_value \<Rightarrow> bool" where
  "reads offset dec v \<longleftrightarrow>
     (\<forall>p w t r. json_store offset v = Some t \<longrightarrow> rest p = w @ t @ r \<longrightarrow> list_all is_ws w \<longrightarrow> delimited r \<longrightarrow>
        failure p = None \<longrightarrow> dec p = Some (Inr (v, p\<lparr>rest := r\<rparr>)))"

lemma readsD:
  "reads offset dec v \<Longrightarrow> json_store offset v = Some t \<Longrightarrow> rest p = w @ t @ r \<Longrightarrow> list_all is_ws w \<Longrightarrow> delimited r \<Longrightarrow>
    failure p = None \<Longrightarrow> dec p = Some (Inr (v, p\<lparr>rest := r\<rparr>))"
  by (simp add: reads_def)

lemma array_loop_reads:
  assumes "\<forall>u \<in> set (v # vs). reads offset dec u \<and> json_ok n u"
    and "json_store offset v = Some t" and "json_store_array offset True vs = Some ts"
    and "rest p = t @ ts @ e @ CHR '']'' # r" and "list_all is_ws e" and "failure p = None"
  shows "json_array_loop dec p acc = Some (Inr (JArray (acc @ v # vs), p\<lparr>rest := r\<rparr>))"
  using assms
proof (induction vs arbitrary: v t ts p acc)
  case Nil
  have "t \<noteq> []" using json_store_hd [of n v offset t] Nil.prems by simp
  moreover have "dec p = Some (Inr (v, p\<lparr>rest := e @ CHR '']'' # r\<rparr>))"
    using Nil.prems delimited_close [of e "CHR '']''" r] by (intro readsD [of offset, where w = "[]"]) auto
  moreover have "skip_whitespaces (p\<lparr>rest := e @ CHR '']'' # r\<rparr>) = p\<lparr>rest := CHR '']'' # r\<rparr>"
    using Nil.prems by (subst skip_ws [where w = e and t = "CHR '']'' # r"]) auto
  ultimately show ?case using Nil.prems
    by (subst json_array_loop.simps) (simp add: parser_empty_def try_skip_char_def)
next
  case (Cons v2 vs)
  obtain t2 ts2 where t2: "json_store offset v2 = Some t2" "json_store_array offset True vs = Some ts2"
    and ts: "ts = '','' @ print_offset offset @ t2 @ ts2"
    using Cons.prems(3) by (auto split: bind_splits)
  let ?tail = "t2 @ ts2 @ e @ CHR '']'' # r"
  have hd: "t \<noteq> []" "t2 \<noteq> []" "\<not> is_ws (hd t2)"
    using json_store_hd [of n v offset t] json_store_hd [of n v2 offset t2] Cons.prems t2 by auto
  have "dec p = Some (Inr (v, p\<lparr>rest := CHR '','' # print_offset offset @ ?tail\<rparr>))"
    using Cons.prems ts by (intro readsD [of offset, where w = "[]"]) (auto simp: delimited_def)
  moreover have "skip_whitespaces (p\<lparr>rest := CHR '','' # print_offset offset @ ?tail\<rparr>) =
      p\<lparr>rest := CHR '','' # print_offset offset @ ?tail\<rparr>"
    by (subst skip_ws [where w = "[]"]) auto
  moreover have "skip_whitespaces (p\<lparr>rest := print_offset offset @ ?tail\<rparr>) = p\<lparr>rest := ?tail\<rparr>"
    using hd by (subst skip_ws [where w = "print_offset offset" and t = ?tail]) auto
  moreover have "json_array_loop dec (p\<lparr>rest := ?tail\<rparr>) (acc @ [v]) =
      Some (Inr (JArray ((acc @ [v]) @ v2 # vs), p\<lparr>rest := ?tail\<rparr>\<lparr>rest := r\<rparr>))"
    using Cons.prems t2 by (intro Cons.IH) auto
  ultimately show ?case using Cons.prems(4) hd(1)
    by (subst json_array_loop.simps) (simp add: parser_empty_def try_skip_char_def)
qed

lemma json_string_decode_reads:
  assumes "check_utf8 name" and "json_string name = Some k" and "rest p = k @ r"
  shows "json_string_decode p = Inr (name, p\<lparr>rest := r\<rparr>)"
proof -
  obtain t where "json_string name = Some (CHR 0x22 # t)" "json_string_loop (t @ r) = Inr (name, r)"
    using json_string_ok [OF assms(1)] by metis
  then show ?thesis using assms(2,3) by (simp add: json_string_decode_def try_skip_char_def)
qed

lemma object_field_reads:
  assumes "reads offset dec v" and "json_ok n v" and "check_utf8 name" and "failure p = None"
    and "json_string name = Some k" and "json_store offset v = Some t"
    and "rest p = k @ colon offset @ t @ r" and "delimited r"
  shows "json_object_loop dec p acc =
    (let p2 = skip_whitespaces (p\<lparr>rest := r\<rparr>) in
     case try_skip_char CHR ''}'' p2 of
       (ok, p3) \<Rightarrow>
         if ok then Some (Inr (JObject (acc @ [(name, v)]), p3))
         else (case try_skip_char CHR '','' p2 of
                 (ok, p4) \<Rightarrow>
                   if ok then json_object_loop dec (skip_whitespaces p4) (acc @ [(name, v)])
                   else if parser_empty p2 then Some (Inl end_error)
                   else Some (Inl (Error 0 ''Unexpected symbol while parsing JSON Object''))))"
proof -
  define w where "w = (if offset \<ge> 0 then '' '' else [])"
  have w: "colon offset = w @ CHR '':'' # w" "list_all is_ws w" by (simp_all add: colon_def w_def)
  have "k \<noteq> []" using json_string_hd [OF assms(5)] by simp
  moreover have "json_string_decode p = Inr (name, p\<lparr>rest := colon offset @ t @ r\<rparr>)"
    by (rule json_string_decode_reads [OF assms(3,5,7)])
  moreover have "skip_whitespaces (p\<lparr>rest := colon offset @ t @ r\<rparr>) = p\<lparr>rest := CHR '':'' # w @ t @ r\<rparr>"
    using w by (subst skip_ws [where w = w and t = "CHR '':'' # w @ t @ r"]) auto
  moreover have "dec (p\<lparr>rest := w @ t @ r\<rparr>) = Some (Inr (v, p\<lparr>rest := w @ t @ r\<rparr>\<lparr>rest := r\<rparr>))"
    using assms w by (intro readsD [of offset]) auto
  ultimately show ?thesis using assms(7)
    by (subst json_object_loop.simps) (simp add: parser_empty_def try_skip_char_def)
qed

lemma object_loop_reads:
  assumes "\<forall>f \<in> set ((name, v) # fs). reads offset dec (snd f) \<and> json_ok n (snd f) \<and> check_utf8 (fst f)"
    and "json_string name = Some k" and "json_store offset v = Some t" and "json_store_object offset True fs = Some ts"
    and "rest p = k @ colon offset @ t @ ts @ e @ CHR ''}'' # r" and "list_all is_ws e" and "failure p = None"
  shows "json_object_loop dec p acc = Some (Inr (JObject (acc @ (name, v) # fs), p\<lparr>rest := r\<rparr>))"
  using assms
proof (induction fs arbitrary: name v k t ts p acc)
  case Nil
  have "skip_whitespaces (p\<lparr>rest := e @ CHR ''}'' # r\<rparr>) = p\<lparr>rest := CHR ''}'' # r\<rparr>"
    using Nil.prems by (subst skip_ws [where w = e and t = "CHR ''}'' # r"]) auto
  then show ?case
    using Nil.prems delimited_close [of e "CHR ''}''" r]
    by (subst object_field_reads [where offset = offset and n = n and v = v and name = name and k = k and t = t
          and r = "e @ CHR ''}'' # r"]) (auto simp: try_skip_char_def)
next
  case (Cons f fs)
  obtain name2 v2 where f: "f = (name2, v2)" by (cases f)
  obtain k2 t2 ts2 where t2: "json_string name2 = Some k2" "json_store offset v2 = Some t2"
      "json_store_object offset True fs = Some ts2"
    and ts: "ts = '','' @ print_offset offset @ k2 @ colon offset @ t2 @ ts2"
    using Cons.prems(4) f by (auto split: bind_splits)
  let ?tail = "k2 @ colon offset @ t2 @ ts2 @ e @ CHR ''}'' # r"
  have hd: "k2 \<noteq> []" "\<not> is_ws (hd k2)" using json_string_hd [OF t2(1)] by auto
  have "skip_whitespaces (p\<lparr>rest := CHR '','' # print_offset offset @ ?tail\<rparr>) =
      p\<lparr>rest := CHR '','' # print_offset offset @ ?tail\<rparr>"
    by (subst skip_ws [where w = "[]"]) auto
  moreover have "skip_whitespaces (p\<lparr>rest := print_offset offset @ ?tail\<rparr>) = p\<lparr>rest := ?tail\<rparr>"
    using hd by (subst skip_ws [where w = "print_offset offset" and t = ?tail]) auto
  moreover have "json_object_loop dec (p\<lparr>rest := ?tail\<rparr>) (acc @ [(name, v)]) =
      Some (Inr (JObject ((acc @ [(name, v)]) @ (name2, v2) # fs), p\<lparr>rest := ?tail\<rparr>\<lparr>rest := r\<rparr>))"
    using Cons.prems t2 f by (intro Cons.IH) auto
  moreover have "delimited (CHR '','' # print_offset offset @ ?tail)" by (simp add: delimited_def)
  ultimately show ?case
    using Cons.prems ts f
    by (subst object_field_reads [where offset = offset and n = n and v = v and name = name and k = k and t = t
          and r = "CHR '','' # print_offset offset @ ?tail"]) (auto simp: try_skip_char_def)
qed

lemma takeWhile_number:
  assumes "list_all number_char s" "delimited r"
  shows "takeWhile number_char (s @ r) = s" "dropWhile number_char (s @ r) = r"
proof -
  have r: "takeWhile number_char r = []" "dropWhile number_char r = r"
    using delimited_number [OF assms(2)] by (cases r; auto)+
  from assms(1) show "takeWhile number_char (s @ r) = s" "dropWhile number_char (s @ r) = r"
    by (induction s) (auto simp: r)
qed

lemma decode_reads: "json_ok n v \<Longrightarrow> reads offset (do_json_decode n) v"
proof (induction n arbitrary: v offset)
  case (Suc n)
  show ?case unfolding reads_def
  proof (intro allI impI)
    fix p :: parser and w t r
    assume store: "json_store offset v = Some t" and p: "rest p = w @ t @ r" and w: "list_all is_ws w"
      and r: "delimited r" and fail: "failure p = None"
    have hd: "t \<noteq> []" "\<not> is_ws (hd t)" using json_store_hd [OF Suc.prems store] by auto
    have q: "skip_whitespaces p = p\<lparr>rest := t @ r\<rparr>"
      using p w hd by (intro skip_ws) auto
    show "do_json_decode (Suc n) p = Some (Inr (v, p\<lparr>rest := r\<rparr>))"
    proof (cases v)
      case JNull
      then have "t = ''null''" using store by simp
      then show ?thesis using JNull by (simp add: q Let_def peek_char_def json_keyword_def try_skip_def)
    next
      case (JBoolean b)
      then have "t = (if b then ''true'' else ''false'')" using store by simp
      then show ?thesis using JBoolean by (simp add: q Let_def peek_char_def json_keyword_def try_skip_def)
    next
      case (JNumber s)
      then have s: "t = s" "s \<noteq> []" "number_start (hd s)" "list_all number_char s" using store Suc.prems by auto
      then show ?thesis using number_start_not [of "hd s"] takeWhile_number [OF s(4) r] JNumber
        by (simp add: q Let_def peek_char_def read_while_def)
    next
      case (JString s)
      then have "check_utf8 s" "json_string s = Some t" using store Suc.prems by auto
      then have "json_string_decode (p\<lparr>rest := t @ r\<rparr>) = Inr (s, p\<lparr>rest := t @ r\<rparr>\<lparr>rest := r\<rparr>)"
        by (intro json_string_decode_reads) auto
      moreover have "hd t = CHR 0x22" using json_string_hd [of s t] \<open>json_string s = Some t\<close> by simp
      ultimately show ?thesis using JString hd by (simp add: q Let_def peek_char_def)
    next
      case (JArray vs)
      obtain ts where ts: "json_store_array (inc_offset offset) False vs = Some ts"
        and t: "t = ''['' @ ts @ print_offset offset @ '']''"
        using store JArray by (auto split: bind_splits)
      show ?thesis
      proof (cases vs)
        case Nil
        then have "skip_whitespaces (p\<lparr>rest := ts @ print_offset offset @ '']'' @ r\<rparr>) = p\<lparr>rest := CHR '']'' # r\<rparr>"
          using ts skip_ws_upd [of "print_offset offset" "CHR '']'' # r" p] by simp
        then show ?thesis using JArray Nil t fail by (simp add: q Let_def peek_char_def skip_def try_skip_char_def)
      next
        case (Cons u us)
        obtain tu tus where u: "json_store (inc_offset offset) u = Some tu"
            "json_store_array (inc_offset offset) True us = Some tus"
          and tss: "ts = print_offset (inc_offset offset) @ tu @ tus"
          using ts Cons by (auto split: bind_splits)
        let ?rest = "tu @ tus @ print_offset offset @ CHR '']'' # r"
        have ok: "\<forall>x \<in> set (u # us). reads (inc_offset offset) (do_json_decode n) x \<and> json_ok n x"
          using Suc.prems JArray Cons Suc.IH by (auto simp: list_all_iff)
        then have uhd: "tu \<noteq> []" "\<not> is_ws (hd tu)" "hd tu \<noteq> CHR '']''" using json_store_hd [OF _ u(1)] by auto
        have "skip_whitespaces (p\<lparr>rest := ts @ print_offset offset @ '']'' @ r\<rparr>) = p\<lparr>rest := ?rest\<rparr>"
          using tss uhd skip_ws_upd [of "print_offset (inc_offset offset)" ?rest p] by simp
        moreover have "json_array_loop (do_json_decode n) (p\<lparr>rest := ?rest\<rparr>) [] =
            Some (Inr (JArray ([] @ u # us), p\<lparr>rest := ?rest\<rparr>\<lparr>rest := r\<rparr>))"
          using fail by (intro array_loop_reads [OF ok u, where e = "print_offset offset"]) auto
        ultimately show ?thesis using JArray Cons t fail uhd by (simp add: q Let_def peek_char_def skip_def try_skip_char_def)
      qed
    next
      case (JObject fs)
      obtain ts where ts: "json_store_object (inc_offset offset) False fs = Some ts"
        and t: "t = ''{'' @ ts @ print_offset offset @ ''}''"
        using store JObject by (auto split: bind_splits)
      show ?thesis
      proof (cases fs)
        case Nil
        then have "skip_whitespaces (p\<lparr>rest := ts @ print_offset offset @ ''}'' @ r\<rparr>) = p\<lparr>rest := CHR ''}'' # r\<rparr>"
          using ts skip_ws_upd [of "print_offset offset" "CHR ''}'' # r" p] by simp
        then show ?thesis using JObject Nil t fail by (simp add: q Let_def peek_char_def skip_def try_skip_char_def)
      next
        case (Cons f us)
        obtain name u where f: "f = (name, u)" by (cases f)
        obtain k tu tus where u: "json_string name = Some k" "json_store (inc_offset offset) u = Some tu"
            "json_store_object (inc_offset offset) True us = Some tus"
          and tss: "ts = print_offset (inc_offset offset) @ k @ colon (inc_offset offset) @ tu @ tus"
          using ts Cons f by (auto split: bind_splits)
        let ?rest = "k @ colon (inc_offset offset) @ tu @ tus @ print_offset offset @ CHR ''}'' # r"
        have ok: "\<forall>x \<in> set ((name, u) # us). reads (inc_offset offset) (do_json_decode n) (snd x) \<and>
            json_ok n (snd x) \<and> check_utf8 (fst x)"
          using Suc.prems JObject Cons f Suc.IH by (auto simp: list_all_iff)
        have khd: "k \<noteq> []" "hd k = CHR 0x22" using json_string_hd [OF u(1)] by auto
        have "skip_whitespaces (p\<lparr>rest := ts @ print_offset offset @ ''}'' @ r\<rparr>) = p\<lparr>rest := ?rest\<rparr>"
          using tss khd skip_ws_upd [of "print_offset (inc_offset offset)" ?rest p] by simp
        moreover have "json_object_loop (do_json_decode n) (p\<lparr>rest := ?rest\<rparr>) [] =
            Some (Inr (JObject ([] @ (name, u) # us), p\<lparr>rest := ?rest\<rparr>\<lparr>rest := r\<rparr>))"
          using fail by (intro object_loop_reads [OF ok u, where e = "print_offset offset"]) auto
        ultimately show ?thesis using JObject Cons f t fail khd
          by (simp add: q Let_def peek_char_def skip_def try_skip_char_def)
      qed
    qed
  qed
qed simp

lemma json_decode_encode:
  assumes "json_ok (Suc default_max_depth) v"
  shows "\<exists>t. json_encode v pretty = Some t \<and> json_decode t = Some (Inr v)"
proof -
  define offset :: int where "offset = (if pretty then 0 else -1)"
  obtain t where t: "json_store offset v = Some t" using json_store_total [OF assms] by blast
  define r where "r = (if pretty then [CHR 0x0A] else [])"
  have r: "delimited r" by (simp add: r_def delimited_def)
  have "do_json_decode (Suc default_max_depth) (new_parser (t @ r)) =
      Some (Inr (v, (new_parser (t @ r))\<lparr>rest := r\<rparr>))"
    by (rule readsD [OF decode_reads [OF assms] t _ _ r, where w = "[]"]) (simp_all add: new_parser_def)
  moreover have "skip_whitespaces ((new_parser (t @ r))\<lparr>rest := r\<rparr>) = (new_parser (t @ r))\<lparr>rest := []\<rparr>"
    by (subst skip_ws [where w = r and t = "[]"]) (simp_all add: r_def)
  moreover have "json_encode v pretty = Some (t @ r)" using t by (simp add: json_encode_def offset_def r_def)
  ultimately show ?thesis by (simp add: json_decode_def parser_empty_def)
qed

text \<open>
  (C24) JSON round trip: a value whose texts are valid UTF-8, whose numbers have the characters of a
  number and which is nested at most 100 deep is always printed, compact or pretty, and parsing the
  output gives the value back.
\<close>

theorem json_round_trip:
  assumes "json_ok (Suc default_max_depth) v"
  shows "\<exists>t. json_encode v pretty = Some t \<and> json_decode t = Some (Inr v)"
  by (rule json_decode_encode [OF assms])

theorem json_round_trip_witness:
  "\<exists>t. json_encode (JObject [(''ok'', JBoolean True), (''result'', JArray [JNumber ''-7'', JString ''a'', JNull])]) True =
      Some t \<and>
    json_decode t = Some (Inr (JObject [(''ok'', JBoolean True), (''result'', JArray [JNumber ''-7'', JString ''a'', JNull])]))"
proof -
  have "json_ok (Suc (Suc (Suc 0))) (JObject [(''ok'', JBoolean True), (''result'', JArray [JNumber ''-7'', JString ''a'', JNull])])"
    by (simp add: check_utf8_def check_utf8_bytes.simps(2) byte_def number_start_def number_char_def is_digit_def)
  from json_ok_mono [OF this, of "Suc default_max_depth"] show ?thesis
    by (intro json_round_trip) (simp add: default_max_depth_def)
qed

subsection \<open>The parser always returns\<close>

definition returns_shorter :: "parser \<Rightarrow> json_result \<Rightarrow> bool" where
  "returns_shorter p res \<longleftrightarrow>
     (\<exists>e. res = Some (Inl e)) \<or> (\<exists>v q. res = Some (Inr (v, q)) \<and> length (rest q) < length (rest p))"

lemma skip_whitespaces_le: "length (rest (skip_whitespaces p)) \<le> length (rest p)"
  by (simp add: skip_whitespaces_def skip_till_not_def length_dropWhile_le)

lemma try_skip_char_less: "try_skip_char c p = (True, q) \<Longrightarrow> length (rest q) < length (rest p)"
  by (auto simp: try_skip_char_def split: if_splits)

lemma json_string_loop_less: "json_string_loop s = Inr (r, t) \<Longrightarrow> length t < length s"
proof (induction s arbitrary: r t rule: json_string_loop.induct)
  case (2 c s)
  show ?case
  proof (cases s)
    case (Cons e s1)
    show ?thesis
    proof (cases "decode_u s1")
      case (Inl err)
      with 2 Cons show ?thesis
        by (auto simp: json_string_loop.simps(2) map_sum_def split: if_splits sum.splits) fastforce+
    next
      case (Inr x)
      then obtain num s2 where u: "decode_u s1 = Inr (num, s2)" by (cases x) auto
      with 2 Cons decode_u_length [OF u] show ?thesis
        by (auto simp: json_string_loop.simps(2) map_sum_def split: if_splits sum.splits) fastforce+
    qed
  qed (use 2 in \<open>auto simp: json_string_loop.simps(2) split: if_splits\<close>)
qed simp

lemma json_string_decode_less: "json_string_decode p = Inr (s, q) \<Longrightarrow> length (rest q) < length (rest p)"
  by (auto simp: json_string_decode_def try_skip_char_def map_sum_def dest!: json_string_loop_less
      split: if_splits sum.splits prod.splits)

lemma returns_shorter_cases [consumes 1, case_names error parsed]:
  assumes "returns_shorter p res"
  obtains e where "res = Some (Inl e)" | v q where "res = Some (Inr (v, q))" "length (rest q) < length (rest p)"
  using assms by (auto simp: returns_shorter_def)

lemma returns_shorter_mono:
  "returns_shorter q res \<Longrightarrow> length (rest q) \<le> length (rest p) \<Longrightarrow> returns_shorter p res"
  by (fastforce simp: returns_shorter_def)

text \<open>After a value: the loops continue only with less unread text.\<close>

lemma after_value_less:
  assumes "length (rest p1) < length (rest p)" and "try_skip_char c (skip_whitespaces p1) = (True, q)"
  shows "length (rest q) < length (rest p)" and "length (rest (skip_whitespaces q)) < length (rest p)"
  using assms try_skip_char_less [OF assms(2)] skip_whitespaces_le [of p1] skip_whitespaces_le [of q] by simp_all

lemma array_loop_returns:
  assumes dec: "\<And>q. returns_shorter q (dec q)"
  shows "returns_shorter p (json_array_loop dec p acc)"
proof (induction "length (rest p)" arbitrary: p acc rule: less_induct)
  case less
  show ?case
  proof (cases "parser_empty p")
    case True
    then show ?thesis by (subst json_array_loop.simps) (simp add: returns_shorter_def)
  next
    case False
    from dec [of p] show ?thesis
    proof (cases rule: returns_shorter_cases)
      case (error e)
      then show ?thesis by (subst json_array_loop.simps) (simp add: False returns_shorter_def)
    next
      case (parsed v p1)
      obtain ok1 q1 where q1: "try_skip_char CHR '']'' (skip_whitespaces p1) = (ok1, q1)" by fastforce
      obtain ok2 q2 where q2: "try_skip_char CHR '','' (skip_whitespaces p1) = (ok2, q2)" by fastforce
      have "returns_shorter p (json_array_loop dec (skip_whitespaces q2) (acc @ [v]))" if ok2
      proof -
        have lt: "length (rest (skip_whitespaces q2)) < length (rest p)"
          using after_value_less(2) [OF parsed(2), of "CHR '',''" q2] q2 that by simp
        show ?thesis by (rule returns_shorter_mono [OF less [OF lt] less_imp_le [OF lt]])
      qed
      moreover have "json_array_loop dec p acc =
          (if ok1 then Some (Inr (JArray (acc @ [v]), q1))
           else if ok2 then json_array_loop dec (skip_whitespaces q2) (acc @ [v])
           else if parser_empty (skip_whitespaces p1) then Some (Inl end_error)
           else Some (Inl (Error 0 ''Unexpected symbol while parsing JSON Array'')))"
        by (subst json_array_loop.simps) (simp add: False parsed(1) q1 q2 Let_def)
      moreover have "length (rest q1) < length (rest p)" if ok1
        using after_value_less(1) [OF parsed(2), of "CHR '']''" q1] q1 that by simp
      ultimately show ?thesis by (simp add: returns_shorter_def)
    qed
  qed
qed

lemma object_loop_returns:
  assumes dec: "\<And>q. returns_shorter q (dec q)"
  shows "returns_shorter p (json_object_loop dec p acc)"
proof (induction "length (rest p)" arbitrary: p acc rule: less_induct)
  case less
  show ?case
  proof (cases "parser_empty p")
    case True
    then show ?thesis by (subst json_object_loop.simps) (simp add: returns_shorter_def)
  next
    case False
    show ?thesis
    proof (cases "json_string_decode p")
      case (Inl e)
      then show ?thesis by (subst json_object_loop.simps) (simp add: False returns_shorter_def)
    next
      case (Inr x)
      then obtain field p0 where p0: "json_string_decode p = Inr (field, p0)" by (cases x) auto
      obtain ok0 q0 where q0: "try_skip_char CHR '':'' (skip_whitespaces p0) = (ok0, q0)" by fastforce
      show ?thesis
      proof (cases ok0)
        case True
        have q0_less: "length (rest q0) < length (rest p)"
          using after_value_less(1) [OF json_string_decode_less [OF p0]] q0 True by simp
        from dec [of q0] show ?thesis
        proof (cases rule: returns_shorter_cases)
          case (error e)
          then show ?thesis by (subst json_object_loop.simps) (simp add: False p0 q0 True returns_shorter_def)
        next
          case (parsed v p1)
          have p1: "length (rest p1) < length (rest p)" using parsed(2) q0_less by simp
          obtain ok1 q1 where q1: "try_skip_char CHR ''}'' (skip_whitespaces p1) = (ok1, q1)" by fastforce
          obtain ok2 q2 where q2: "try_skip_char CHR '','' (skip_whitespaces p1) = (ok2, q2)" by fastforce
          have "returns_shorter p (json_object_loop dec (skip_whitespaces q2) (acc @ [(field, v)]))" if ok2
          proof -
            have lt: "length (rest (skip_whitespaces q2)) < length (rest p)"
              using after_value_less(2) [OF p1, of "CHR '',''" q2] q2 that by simp
            show ?thesis by (rule returns_shorter_mono [OF less [OF lt] less_imp_le [OF lt]])
          qed
          moreover have "json_object_loop dec p acc =
              (if ok1 then Some (Inr (JObject (acc @ [(field, v)]), q1))
               else if ok2 then json_object_loop dec (skip_whitespaces q2) (acc @ [(field, v)])
               else if parser_empty (skip_whitespaces p1) then Some (Inl end_error)
               else Some (Inl (Error 0 ''Unexpected symbol while parsing JSON Object'')))"
            by (subst json_object_loop.simps) (simp add: False p0 q0 True parsed(1) q1 q2 Let_def)
          moreover have "length (rest q1) < length (rest p)" if ok1
            using after_value_less(1) [OF p1, of "CHR ''}''" q1] q1 that by simp
          ultimately show ?thesis by (simp add: returns_shorter_def)
        qed
      qed (subst json_object_loop.simps, simp add: False p0 q0 returns_shorter_def)
    qed
  qed
qed

lemma peek_skip_less:
  "peek_char q = c \<Longrightarrow> c \<noteq> CHR 0x00 \<Longrightarrow> length (rest (skip_whitespaces (skip c q))) \<le> length (rest q)"
  using skip_whitespaces_le [of "skip c q"]
  by (auto simp: skip_def split: option.splits if_splits)

lemma try_skip_less: "try_skip w q = (True, r) \<Longrightarrow> w \<noteq> [] \<Longrightarrow> length (rest r) < length (rest q)"
  by (cases w) (auto simp: try_skip_def split: if_splits)

lemma read_while_less:
  assumes "peek_char q = c" "c \<noteq> CHR 0x00" "f c"
  shows "length (rest (snd (read_while f q))) < length (rest q)"
proof (cases "rest q")
  case (Cons d s)
  then have "f d" using assms by (simp add: peek_char_def)
  then show ?thesis using Cons length_dropWhile_le [of f s] by (simp add: read_while_def)
qed (use assms in \<open>simp add: peek_char_def\<close>)

end
