(* ===== verification/Json_Skip.thy ===== *)
theory Json_Skip
  imports Json_Proofs
begin

section \<open>JSON parsing terminates and agrees with skipping\<close>

text \<open>
  \<open>do_json_decode\<close> returns on every input, and \<open>do_json_skip\<close> is the same automaton without the result:
  both accept the same inputs and stop at the same place.
\<close>

lemma decode_returns: "returns_shorter p (do_json_decode n p)"
proof (induction n arbitrary: p)
  case 0
  then show ?case by (simp add: returns_shorter_def)
next
  case (Suc n)
  define q where "q = skip_whitespaces p"
  have qle: "length (rest q) \<le> length (rest p)" by (simp add: q_def skip_whitespaces_le)
  have kw: "returns_shorter q (json_keyword w v m q)" if "w \<noteq> []" for w v m
    using that try_skip_less [of w q]
    by (auto simp: json_keyword_def returns_shorter_def split: prod.splits bool.splits)
  have str: "returns_shorter q (Some (map_sum id (\<lambda>(s, r). (JString s, r)) (json_string_decode q)))"
    by (cases "json_string_decode q") (auto simp: returns_shorter_def dest: json_string_decode_less)
  have less: "length (rest (skip_whitespaces (skip c q))) \<le> length (rest q)" if "peek_char q = c" "c \<noteq> CHR 0x00" for c
    using peek_skip_less that by blast
  have arr: "returns_shorter q (case try_skip_char CHR '']'' r of
      (True, s) \<Rightarrow> Some (Inr (JArray [], s)) | (False, s) \<Rightarrow> json_array_loop (do_json_decode n) r [])"
    if "length (rest r) \<le> length (rest q)" for r
    using returns_shorter_mono [OF array_loop_returns [OF Suc.IH] that] try_skip_char_less [of "CHR '']''" r] that
    by (auto simp: returns_shorter_def split: prod.splits bool.splits)
  have obj: "returns_shorter q (case try_skip_char CHR ''}'' r of
      (True, s) \<Rightarrow> Some (Inr (JObject [], s)) | (False, s) \<Rightarrow> json_object_loop (do_json_decode n) r [])"
    if "length (rest r) \<le> length (rest q)" for r
    using returns_shorter_mono [OF object_loop_returns [OF Suc.IH] that] try_skip_char_less [of "CHR ''}''" r] that
    by (auto simp: returns_shorter_def split: prod.splits bool.splits)
  have num: "returns_shorter q (let (num, r) = read_while number_char q in Some (Inr (JNumber num, r)))"
    if "number_start (peek_char q)"
  proof -
    have "peek_char q \<noteq> CHR 0x00" "number_char (peek_char q)"
      using that by (auto simp: number_start_def number_char_def is_digit_def byte_def)
    then show ?thesis using read_while_less [OF refl, of q number_char]
      by (auto simp: returns_shorter_def split: prod.splits)
  qed
  have "returns_shorter q (do_json_decode (Suc n) p)"
    unfolding do_json_decode.simps(2) q_def [symmetric] Let_def [of q] Let_def [of "peek_char q"]
    using kw str arr obj num less by (auto simp: Let_def returns_shorter_def [of q "Some (Inl e)" for e])
  then show ?case using qle by (rule returns_shorter_mono)
qed

text \<open>
  (C25) Parsing terminates: on every text the JSON parser returns a value or an error, whatever its
  nesting, and a value leaves strictly less unread.
\<close>

theorem json_decode_returns:
  "(\<exists>e. do_json_decode n p = Some (Inl e)) \<or>
   (\<exists>v q. do_json_decode n p = Some (Inr (v, q)) \<and> length (rest q) < length (rest p))"
  using decode_returns [of p n] by (simp add: returns_shorter_def)

subsection \<open>Skipping\<close>

text \<open>What is left of an outcome when values and the texts of errors are ignored.\<close>

definition stops :: "('a \<Rightarrow> parser) \<Rightarrow> 'a result option \<Rightarrow> (unit + parser) option" where
  "stops f res = map_option (map_sum (\<lambda>e. ()) f) res"

lemma stops_simps [simp]:
  "stops f None = None" "stops f (Some (Inl e)) = Some (Inl ())" "stops f (Some (Inr x)) = Some (Inr (f x))"
  by (simp_all add: stops_def)

lemma string_loop_skip: "map_sum (\<lambda>e. ()) snd (json_string_loop s) = map_sum (\<lambda>e. ()) id (json_skip_loop s)"
proof (induction s rule: json_string_loop.induct)
  case (2 c s)
  have keep: "map_sum (\<lambda>e. ()) snd (map_sum id (\<lambda>(r, t). (f r, t)) x) = map_sum (\<lambda>e. ()) snd x"
    for f :: "string \<Rightarrow> string" and x :: "(string \<times> string) result"
    by (cases x) auto
  show ?case
  proof (cases s)
    case (Cons e s1)
    show ?thesis
    proof (cases "decode_u s1")
      case (Inr x)
      then obtain num s2 where "decode_u s1 = Inr (num, s2)" by (cases x) auto
      with 2 Cons show ?thesis by (simp add: json_string_loop.simps(2) keep)
    qed (use 2 Cons in \<open>simp add: json_string_loop.simps(2) keep\<close>)
  qed (use 2 in \<open>simp add: json_string_loop.simps(2) keep\<close>)
qed simp

lemma string_skip: "map_sum (\<lambda>e. ()) snd (json_string_decode p) = map_sum (\<lambda>e. ()) id (json_string_skip p)"
proof (cases "try_skip_char CHR 0x22 p")
  case (Pair ok q)
  have loop: "map_sum (\<lambda>e. ()) snd (json_string_loop (rest q)) = map_sum (\<lambda>e. ()) id (json_skip_loop (rest q))"
    by (rule string_loop_skip)
  show ?thesis
    using loop by (cases "json_string_loop (rest q)"; cases "json_skip_loop (rest q)"; cases ok)
      (auto simp: json_string_decode_def json_string_skip_def Pair)
qed

lemma array_loop_skip:
  assumes dec: "\<And>q. returns_shorter q (dec q)" and sk: "\<And>q. stops snd (dec q) = stops (\<lambda>r. r) (sk q)"
  shows "stops snd (json_array_loop dec p acc) = stops (\<lambda>r. r) (json_skip_array_loop sk p)"
proof (induction "length (rest p)" arbitrary: p acc rule: less_induct)
  case less
  show ?case
  proof (cases "parser_empty p")
    case True
    then show ?thesis by (subst json_array_loop.simps, subst json_skip_array_loop.simps) simp
  next
    case False
    from dec [of p] show ?thesis
    proof (cases rule: returns_shorter_cases)
      case (error e)
      then obtain e' where "sk p = Some (Inl e')" using sk [of p]
        by (cases "sk p") (auto simp: stops_def map_sum_def split: sum.splits)
      with error show ?thesis by (subst json_array_loop.simps, subst json_skip_array_loop.simps) (simp add: False)
    next
      case (parsed v p1)
      then have skp: "sk p = Some (Inr p1)" using sk [of p]
        by (cases "sk p") (auto simp: stops_def map_sum_def split: sum.splits)
      obtain ok1 q1 where q1: "try_skip_char CHR '']'' (skip_whitespaces p1) = (ok1, q1)" by fastforce
      obtain ok2 q2 where q2: "try_skip_char CHR '','' (skip_whitespaces p1) = (ok2, q2)" by fastforce
      have IH: "stops snd (json_array_loop dec (skip_whitespaces q2) (acc @ [v])) =
          stops (\<lambda>r. r) (json_skip_array_loop sk (skip_whitespaces q2))" if ok2
        using after_value_less(2) [OF parsed(2), of "CHR '',''" q2] q2 that by (intro less) simp
      show ?thesis
        by (subst json_array_loop.simps, subst json_skip_array_loop.simps)
          (simp add: False parsed(1) skp q1 q2 IH Let_def)
    qed
  qed
qed

lemma object_loop_skip:
  assumes dec: "\<And>q. returns_shorter q (dec q)" and sk: "\<And>q. stops snd (dec q) = stops (\<lambda>r. r) (sk q)"
  shows "stops snd (json_object_loop dec p acc) = stops (\<lambda>r. r) (json_skip_object_loop sk p)"
proof (induction "length (rest p)" arbitrary: p acc rule: less_induct)
  case less
  show ?case
  proof (cases "parser_empty p")
    case True
    then show ?thesis by (subst json_object_loop.simps, subst json_skip_object_loop.simps) simp
  next
    case False
    show ?thesis
    proof (cases "json_string_decode p")
      case (Inl e)
      then obtain e' where "json_string_skip p = Inl e'" using string_skip [of p] by (cases "json_string_skip p") auto
      with Inl show ?thesis by (subst json_object_loop.simps, subst json_skip_object_loop.simps) (simp add: False)
    next
      case (Inr x)
      then obtain field p0 where p0: "json_string_decode p = Inr (field, p0)" by (cases x) auto
      then have skp: "json_string_skip p = Inr p0" using string_skip [of p] by (cases "json_string_skip p") auto
      obtain ok0 q0 where q0: "try_skip_char CHR '':'' (skip_whitespaces p0) = (ok0, q0)" by fastforce
      show ?thesis
      proof (cases ok0)
        case True
        have q0_less: "length (rest q0) < length (rest p)"
          using after_value_less(1) [OF json_string_decode_less [OF p0]] q0 True by simp
        from dec [of q0] show ?thesis
        proof (cases rule: returns_shorter_cases)
          case (error e)
          then obtain e' where "sk q0 = Some (Inl e')" using sk [of q0]
            by (cases "sk q0") (auto simp: stops_def map_sum_def split: sum.splits)
          with error show ?thesis
            by (subst json_object_loop.simps, subst json_skip_object_loop.simps) (simp add: False p0 skp q0 True)
        next
          case (parsed v p1)
          then have skq: "sk q0 = Some (Inr p1)" using sk [of q0]
            by (cases "sk q0") (auto simp: stops_def map_sum_def split: sum.splits)
          have p1: "length (rest p1) < length (rest p)" using parsed(2) q0_less by simp
          obtain ok1 q1 where q1: "try_skip_char CHR ''}'' (skip_whitespaces p1) = (ok1, q1)" by fastforce
          obtain ok2 q2 where q2: "try_skip_char CHR '','' (skip_whitespaces p1) = (ok2, q2)" by fastforce
          have IH: "stops snd (json_object_loop dec (skip_whitespaces q2) (acc @ [(field, v)])) =
              stops (\<lambda>r. r) (json_skip_object_loop sk (skip_whitespaces q2))" if ok2
            using after_value_less(2) [OF p1, of "CHR '',''" q2] q2 that by (intro less) simp
          show ?thesis
            by (subst json_object_loop.simps, subst json_skip_object_loop.simps)
              (simp add: False p0 skp q0 True parsed(1) skq q1 q2 IH Let_def)
        qed
      qed (subst json_object_loop.simps, subst json_skip_object_loop.simps, simp add: False p0 skp q0)
    qed
  qed
qed

lemma stops_keyword:
  "stops snd (json_keyword w v m q) = Some (if fst (try_skip w q) then Inr (snd (try_skip w q)) else Inl ())"
  "stops (\<lambda>r. r) (json_skip_keyword w m' q) = Some (if fst (try_skip w q) then Inr (snd (try_skip w q)) else Inl ())"
  by (auto simp: json_keyword_def json_skip_keyword_def split: prod.splits bool.splits)

lemma stops_string:
  "stops snd (Some (map_sum id (\<lambda>(s, r). (JString s, r)) (json_string_decode q))) = stops (\<lambda>r. r) (Some (json_string_skip q))"
  using string_skip [of q] by (cases "json_string_decode q"; cases "json_string_skip q") auto

lemma stops_try:
  "(\<And>r. stops snd (f r) = stops (\<lambda>r. r) (g r)) \<Longrightarrow>
    stops snd (case x of (True, r) \<Rightarrow> Some (Inr (v, r)) | (False, r) \<Rightarrow> f r) =
    stops (\<lambda>r. r) (case x of (True, r) \<Rightarrow> Some (Inr r) | (False, r) \<Rightarrow> g r)"
  by (auto split: prod.splits bool.splits)

lemma stops_if: "stops f (if c then x else y) = (if c then stops f x else stops f y)"
  by simp

lemma stops_number:
  "stops snd (case read_while f q of (num, r) \<Rightarrow> Some (Inr (JNumber num, r))) = Some (Inr (snd (read_while f q)))"
  "stops (\<lambda>r. r) (Some (Inr (snd (read_while f q)))) = Some (Inr (snd (read_while f q)))"
  by (simp_all add: read_while_def)

text \<open>
  (C26) Skipping a JSON value is parsing it without keeping the result: for every nesting limit both
  succeed on the same texts and leave the parser at the same place.
\<close>

theorem json_skip_agrees:
  "map_option (map_sum (\<lambda>e. ()) snd) (do_json_decode n p) = map_option (map_sum (\<lambda>e. ()) (\<lambda>r. r)) (do_json_skip n p)"
proof -
  have "stops snd (do_json_decode n p) = stops (\<lambda>r. r) (do_json_skip n p)"
  proof (induction n arbitrary: p)
    case (Suc n)
    define q where "q = skip_whitespaces p"
    note loops = array_loop_skip [OF decode_returns Suc.IH] object_loop_skip [OF decode_returns Suc.IH]
    show ?case
      unfolding do_json_decode.simps(2) do_json_skip.simps(2) q_def [symmetric] Let_def
      by (simp only: stops_if stops_keyword stops_string stops_try loops stops_number stops_simps id_apply)
  qed simp
  then show ?thesis by (simp add: stops_def)
qed

end
