(* ===== verification/Http_Frontend.thy ===== *)
theory Http_Frontend
  imports Stream_Safety Json_Proofs
begin

section \<open>Queries and the HTTP front end\<close>

text \<open>
  \<open>Query.h\<close>, \<open>Query.cpp\<close> (a Bot API request and its one answer) and \<open>HttpConnection.cpp\<close> (what is done
  with an incoming HTTP request). A failed \<open>CHECK\<close> is \<^const>\<open>None\<close>. The time stamps and the
  statistics of a query, which only feed the log and the counters of \<open>Stats\<close>, are left out; so is the
  log itself.
\<close>

subsection \<open>Queries\<close>

datatype query_state = State_Query | State_OK | State_Error

record http_file =
  field_name :: string
  file_name_ :: string
  content_type :: string
  file_size :: int
  temp_file_name :: string

record query =
  q_state :: query_state
  q_peer :: ip_address
  q_container :: "string list"
  q_token :: string
  q_is_test_dc :: bool
  q_method :: string
  q_args :: "(string \<times> string) list"
  q_headers :: "(string \<times> string) list"
  q_files :: "http_file list"
  q_is_internal :: bool
  q_answer :: string
  q_http_status_code :: int
  q_retry_after :: int

text \<open>The lookup of \<open>arg\<close>, \<open>get_header\<close>: the first pair with that key, or the empty slice.\<close>

definition find_value :: "(string \<times> string) list \<Rightarrow> string \<Rightarrow> string" where
  "find_value xs key = (case map_of xs key of None \<Rightarrow> [] | Some v \<Rightarrow> v)"

definition has_arg :: "query \<Rightarrow> string \<Rightarrow> bool" where
  "has_arg q key \<longleftrightarrow> map_of (q_args q) key \<noteq> None"

definition arg :: "query \<Rightarrow> string \<Rightarrow> string" where
  "arg q key = find_value (q_args q) key"

definition get_header :: "query \<Rightarrow> string \<Rightarrow> string" where
  "get_header q key = find_value (q_headers q) key"

definition query_file :: "query \<Rightarrow> string \<Rightarrow> http_file option" where
  "query_file q key = List.find (\<lambda>f. field_name f = key) (q_files q)"

text \<open>
  The method of a query without one is its argument \<open>method\<close>. It is made lower case in place, and so is that
  argument, whose buffer it shares.
\<close>

fun lower_value :: "string \<Rightarrow> (string \<times> string) list \<Rightarrow> (string \<times> string) list" where
  "lower_value key [] = []"
| "lower_value key ((k, v) # xs) = (if k = key then (k, to_lower v) # xs else (k, v) # lower_value key xs)"

definition new_query ::
  "string list \<Rightarrow> string \<Rightarrow> bool \<Rightarrow> string \<Rightarrow> (string \<times> string) list \<Rightarrow> (string \<times> string) list \<Rightarrow> http_file list \<Rightarrow>
   ip_address \<Rightarrow> bool \<Rightarrow> query"
where
  "new_query container token is_test_dc method args headers files peer is_internal =
     \<lparr>q_state = State_Query, q_peer = peer, q_container = container, q_token = token, q_is_test_dc = is_test_dc,
      q_method = to_lower (if method = [] then find_value args ''method'' else method),
      q_args = (if method = [] then lower_value ''method'' args else args), q_headers = headers, q_files = files, q_is_internal = is_internal, q_answer = [], q_http_status_code = 0,
      q_retry_after = 0\<rparr>"

text \<open>
  \<open>get_peer_ip_address\<close>: the address of an external connection, otherwise the header set by the local
  proxy; \<open>ip_str\<close> is \<open>IPAddress::get_ip_str\<close>.
\<close>

definition get_peer_ip_address :: "(ip_address \<Rightarrow> string) \<Rightarrow> query \<Rightarrow> string" where
  "get_peer_ip_address ip_str q =
     (if ip_is_valid (q_peer q) \<and> is_reserved (q_peer q) = Some False then ip_str (q_peer q) else get_header q ''x-real-ip'')"

definition query_size :: "query \<Rightarrow> int" where
  "query_size q = fold (\<lambda>s acc. acc + int (length s)) (q_container q) 0"

definition files_size :: "query \<Rightarrow> int" where
  "files_size q = fold (\<lambda>f acc. acc + file_size f) (q_files q) 0"

definition files_max_size :: "query \<Rightarrow> int" where
  "files_max_size q = fold (\<lambda>f acc. max acc (file_size f)) (q_files q) 0"

text \<open>The counters of \<open>SharedData\<close> a query moves while it exists.\<close>

record query_counters =
  query_count :: nat
  query_list_size :: nat

definition query_created :: "query \<Rightarrow> query_counters \<Rightarrow> query_counters" where
  "query_created q c =
     (let c1 = c\<lparr>query_count := query_count c + 1\<rparr>
      in if q_method q \<noteq> ''getupdates'' then c1\<lparr>query_list_size := query_list_size c1 + 1\<rparr> else c1)"

definition query_destroyed :: "bool \<Rightarrow> query_counters \<Rightarrow> query_counters" where
  "query_destroyed in_list c =
     (let c1 = c\<lparr>query_count := query_count c - 1\<rparr>
      in if in_list then c1\<lparr>query_list_size := query_list_size c1 - 1\<rparr> else c1)"

subsection \<open>Answers\<close>

definition query_ok_value :: "json_value \<Rightarrow> string \<Rightarrow> json_value" where
  "query_ok_value result description =
     JObject ([(''ok'', JBoolean True), (''result'', result)] @
       (if description \<noteq> [] then [(''description'', JString description)] else []))"

definition query_error_value :: "int \<Rightarrow> string \<Rightarrow> (string \<times> json_value) list \<Rightarrow> json_value" where
  "query_error_value error_code description parameters =
     JObject ([(''ok'', JBoolean False), (''error_code'', JNumber (show_int error_code)),
         (''description'', JString description)] @
       (if parameters \<noteq> [] then [(''parameters'', JObject parameters)] else []))"

definition set_ok :: "string \<Rightarrow> query \<Rightarrow> query option" where
  "set_ok result q =
     (if q_state q = State_Query
      then Some (q\<lparr>q_answer := result, q_state := State_OK, q_http_status_code := 200\<rparr>) else None)"

definition set_error :: "int \<Rightarrow> string \<Rightarrow> query \<Rightarrow> query option" where
  "set_error http_status_code result q =
     (if q_state q = State_Query
      then Some (q\<lparr>q_answer := result, q_state := State_Error, q_http_status_code := http_status_code\<rparr>) else None)"

definition set_retry_after_error :: "int \<Rightarrow> query \<Rightarrow> query option" where
  "set_retry_after_error retry_after q =
     do { body \<leftarrow> json_encode (query_error_value 429 (''Too Many Requests: retry after '' @ show_int retry_after)
                    [(''retry_after'', JNumber (show_int retry_after))]) False;
          set_error 429 body (q\<lparr>q_retry_after := retry_after\<rparr>) }"

definition is_ready :: "query \<Rightarrow> bool" where
  "is_ready q \<longleftrightarrow> q_state q \<noteq> State_Query"

definition answer_query :: "json_value \<Rightarrow> string \<Rightarrow> query \<Rightarrow> query option" where
  "answer_query result description q =
     do { body \<leftarrow> json_encode (query_ok_value result description) False; set_ok body q }"

definition fail_query :: "int \<Rightarrow> string \<Rightarrow> (string \<times> json_value) list \<Rightarrow> query \<Rightarrow> query option" where
  "fail_query http_status_code description parameters q =
     do { body \<leftarrow> json_encode (query_error_value http_status_code description parameters) False;
          set_error http_status_code body q }"

text \<open>\<open>PromiseDeleter\<close>: what the promise of a query receives when the query is given up.\<close>

definition promise_delete :: "query \<Rightarrow> query option" where
  "promise_delete q = (if \<not> is_ready q then set_retry_after_error 5 q else Some q)"

subsection \<open>HTTP connections\<close>

datatype http_type = Type_Empty | Type_Get | Type_Post | Type_Response

record http_query =
  hq_container :: "string list"
  hq_type :: http_type
  hq_url_path :: string
  hq_args :: "(string \<times> string) list"
  hq_headers :: "(string \<times> string) list"
  hq_files :: "http_file list"
  hq_peer_address :: ip_address

definition hq_get_header :: "http_query \<Rightarrow> string \<Rightarrow> string" where
  "hq_get_header h key = find_value (hq_headers h) key"

definition response_headers :: "int \<Rightarrow> nat \<Rightarrow> int \<Rightarrow> string \<Rightarrow> string_builder" where
  "response_headers code len retry_after allow =
     (let h1 = set_content_type ''application/json'' (set_keep_alive (init_status_line code));
          h2 = (if retry_after > 0 then add_header ''Retry-After'' (show_int retry_after) h1 else h1);
          h3 = (if allow \<noteq> [] then add_header ''Allow'' allow h2 else h2)
      in set_content_size len h3)"

definition send_response :: "int \<Rightarrow> string \<Rightarrow> int \<Rightarrow> string \<Rightarrow> effect list" where
  "send_response http_status_code content retry_after allow =
     (case header_finish [] (response_headers http_status_code (length content) retry_after allow) of
        Inl e \<Rightarrow> [WriteError e]
      | Inr header \<Rightarrow> [WriteNoflush header, WriteNoflush content, WriteOk])"

definition send_http_error :: "int \<Rightarrow> string \<Rightarrow> string \<Rightarrow> effect list option" where
  "send_http_error http_status_code description allow =
     do { content \<leftarrow> json_encode (query_error_value http_status_code description []) False;
          Some (send_response http_status_code content 0 allow) }"

definition on_query_finished :: "query \<Rightarrow> effect list" where
  "on_query_finished q = send_response (q_http_status_code q) (q_answer q) (q_retry_after q) []"

datatype http_outcome =
    Responded "effect list"
  | Start_Stream file_stream_route ip_address
  | Forward query

text \<open>The streaming branch of \<open>handle\<close>.\<close>

definition handle_stream ::
  "pton4 \<Rightarrow> pton6 \<Rightarrow> bool \<Rightarrow> bool \<Rightarrow> string \<Rightarrow> http_query \<Rightarrow> http_outcome option"
where
  "handle_stream p4 p6 emergency enabled allow_ip h =
     (if emergency then
        map_option Responded
          (send_http_error 507 ''Telegram workdir disk space exhausted; service is shutting down'' [])
      else if \<not> enabled then map_option Responded (send_http_error 404 ''Not Found'' [])
      else if hq_type h \<noteq> Type_Get then
        map_option Responded (send_http_error 405 ''Method Not Allowed: file streaming requires GET'' ''GET'')
      else case parse_file_stream_route (hq_url_path h) of
             Inl e \<Rightarrow>
               map_option Responded
                 (send_http_error (if 400 \<le> err_code e \<and> err_code e \<le> 599 then err_code e else 400) (err_message e) [])
           | Inr parsed_route \<Rightarrow>
               (case is_file_stream_ip_allowed p4 p6 (hq_peer_address h) allow_ip of
                  None \<Rightarrow> None
                | Some allowed \<Rightarrow>
                    if \<not> allowed then
                      map_option Responded
                        (send_http_error 403 ''Forbidden: streaming endpoint source address is not allowed'' [])
                    else case parse_file_stream_size_hint (hq_get_header h ''x-telegram-file-size'') of
                           Inl e \<Rightarrow> map_option Responded (send_http_error 400 (err_message e) [])
                         | Inr expected_size \<Rightarrow>
                             Some (Start_Stream (parsed_route\<lparr>route_expected_size := expected_size,
                               route_no_cache := parse_file_stream_no_cache (hq_get_header h ''x-telegram-no-cache'')\<rparr>)
                               (hq_peer_address h))))"

text \<open>\<open>busy\<close>: the object already has a connection.\<close>

definition handle ::
  "bool \<Rightarrow> pton4 \<Rightarrow> pton6 \<Rightarrow> bool \<Rightarrow> bool \<Rightarrow> string \<Rightarrow> http_query \<Rightarrow> http_outcome option"
where
  "handle busy p4 p6 emergency enabled allow_ip h =
     (let p = new_parser (hq_url_path h) in
      if busy then None
      else if peek_char p \<noteq> CHR ''/'' then
        map_option Responded (send_http_error 404 ''Not Found: absolute URI is specified in the Request-Line'' [])
      else if begins_with (hq_url_path h) ''/stream/file/bot'' then handle_stream p4 p6 emergency enabled allow_ip h
      else
        let (is_bot, p1) = try_skip ''/bot'' p in
        if \<not> is_bot then map_option Responded (send_http_error 404 ''Not Found'' [])
        else
          let (token, p2) = read_till CHR ''/'' p1;
              (is_test_dc, p3) = try_skip ''/test'' p2;
              p5 = skip CHR ''/'' p3 in
          if failure p5 \<noteq> None then map_option Responded (send_http_error 404 ''Not Found'' [])
          else Some (Forward (new_query (hq_container h) token is_test_dc (rest p5) (hq_args h) (hq_headers h)
                 (hq_files h) (hq_peer_address h) False)))"

subsection \<open>Responses are complete\<close>

lemma fold_headers_fit:
  assumes "\<not> sb_error b" and "length (sb_text b) + sum_list (map (\<lambda>(k, v). length k + length v + 4) hs) < sb_capacity"
  shows "fold (\<lambda>(k, v). add_header k v) hs b =
    \<lparr>sb_text = sb_text b @ concat (map (\<lambda>(k, v). header_line k v) hs), sb_error = False\<rparr>"
  using assms
proof (induction hs arbitrary: b)
  case (Cons h hs)
  obtain k v where h: "h = (k, v)" by (cases h)
  have "add_header k v b = \<lparr>sb_text = sb_text b @ header_line k v, sb_error = False\<rparr>"
    using Cons.prems h by (intro add_header_fits) auto
  with Cons.IH [of "add_header k v b"] Cons.prems h show ?case by (simp add: header_line_def crlf_def)
qed (cases b, simp)

lemma length_lookup:
  assumes "list_all (\<lambda>(k, r). length r \<le> n) xs" and "length d \<le> n"
  shows "length (case map_of xs code of Some r \<Rightarrow> r | None \<Rightarrow> d) \<le> n"
  using assms by (auto simp: list_all_iff dest!: map_of_SomeD split: option.split)

lemma length_get_status_line: "length (get_status_line code) \<le> 40"
proof (cases "code = 200")
  case False
  show ?thesis unfolding get_status_line_def if_not_P [OF False] by (rule length_lookup) simp_all
qed (simp add: get_status_line_def)

lemma length_show_int: "\<bar>x\<bar> < 10 ^ k \<Longrightarrow> 0 < k \<Longrightarrow> length (show_int x) \<le> Suc k"
  using length_show_nat [of "nat \<bar>x\<bar>" k] by (auto simp: show_int_def zless_nat_eq_int_zless nat_less_iff)

text \<open>The text of a response header.\<close>

definition status_text :: "int \<Rightarrow> string" where
  "status_text code = ''HTTP/1.1 '' @ show_int code @ '' '' @ get_status_line code @ crlf"

lemma init_status_line_fits:
  assumes "\<bar>code\<bar> < 2 ^ 31"
  shows "init_status_line code = \<lparr>sb_text = status_text code, sb_error = False\<rparr>"
proof -
  have p: "print_int 32 code = show_int code" using assms by (intro print_int_show_int) auto
  have len: "length (show_int code) \<le> 11" using length_show_int [of code 10] assms by simp
  note st = length_get_status_line [of code]
  note defs = sb_capacity_def max_header_def reserved_size_def crlf_def
  have "sb_append ''HTTP/1.1 '' sb_new = \<lparr>sb_text = ''HTTP/1.1 '', sb_error = False\<rparr>"
    by (subst sb_append_fits) (simp_all add: sb_new_def defs)
  then show ?thesis
    using len st unfolding init_status_line_def init_error_def status_text_def
    by (simp add: sb_push_int_def sb_push_char_def p sb_append_fits defs)
qed

definition response_fields :: "nat \<Rightarrow> int \<Rightarrow> string \<Rightarrow> (string \<times> string) list" where
  "response_fields len retry_after allow =
     [(''Connection'', ''keep-alive''), (''Content-Type'', ''application/json'')] @
     (if retry_after > 0 then [(''Retry-After'', show_int retry_after)] else []) @
     (if allow \<noteq> [] then [(''Allow'', allow)] else []) @ [(''Content-Length'', show_nat len)]"

lemma response_headers_fold:
  "response_headers code len retry_after allow =
     fold (\<lambda>(k, v). add_header k v) (response_fields len retry_after allow) (init_status_line code)"
  by (simp add: response_headers_def response_fields_def set_content_type_def set_keep_alive_def set_content_size_def)

lemma send_response_complete:
  assumes "\<bar>code\<bar> < 2 ^ 31" and "\<bar>retry_after\<bar> < 2 ^ 31" and "length content < 2 ^ 63" and "length allow < 100"
  shows "send_response code content retry_after allow =
    [WriteNoflush (status_text code @
       concat (map (\<lambda>(k, v). header_line k v) (response_fields (length content) retry_after allow)) @ crlf),
     WriteNoflush content, WriteOk]"
proof -
  define hs where "hs = response_fields (length content) retry_after allow"
  have "length (show_nat (length content)) \<le> 20" using assms(3) by (intro length_show_nat) auto
  moreover have "length (show_int retry_after) \<le> 11" using length_show_int [of retry_after 10] assms(2) by simp
  ultimately have hs: "sum_list (map (\<lambda>(k, v). length k + length v + 4) hs) < 400"
    using assms(4) by (simp add: hs_def response_fields_def)
  have "length (show_int code) \<le> 11" using length_show_int [of code 10] assms(1) by simp
  then have st: "length (status_text code) \<le> 63"
    using length_get_status_line [of code] by (simp add: status_text_def crlf_def)
  have lines: "length (concat (map (\<lambda>(k, v). header_line k v) hs)) =
      sum_list (map (\<lambda>(k, v). length k + length v + 4) hs)"
    by (induction hs) (auto simp: header_line_def crlf_def)
  have b: "response_headers code (length content) retry_after allow =
      \<lparr>sb_text = status_text code @ concat (map (\<lambda>(k, v). header_line k v) hs), sb_error = False\<rparr>"
    unfolding response_headers_fold init_status_line_fits [OF assms(1)] hs_def [symmetric]
    using hs st by (subst fold_headers_fit) (simp_all add: sb_capacity_def max_header_def reserved_size_def)
  have "header_finish [] (response_headers code (length content) retry_after allow) =
      Inr (status_text code @ concat (map (\<lambda>(k, v). header_line k v) hs) @ crlf)"
    unfolding b using hs st lines
    by (simp add: header_finish_def sb_append_fits sb_capacity_def max_header_def reserved_size_def crlf_def)
  then show ?thesis by (simp add: send_response_def hs_def)
qed

subsection \<open>Every query is answered\<close>

lemma ascii_check_utf8: "list_all (\<lambda>c. byte c < 128) s \<Longrightarrow> check_utf8 s"
  unfolding check_utf8_def by (induction s) (auto simp: check_utf8_bytes.simps(2) lead_byte)

lemma show_nat_ascii: "list_all (\<lambda>c. byte c < 128) (show_nat n)"
  using show_nat_digits [of n] by (auto simp: list_all_iff is_digit_def)

lemma show_int_ascii: "list_all (\<lambda>c. byte c < 128) (show_int n)"
  using show_nat_ascii by (simp add: show_int_def byte_def)

lemma show_int_number:
  "show_int n \<noteq> []" "number_start (hd (show_int n))" "list_all number_char (show_int n)"
proof -
  have d: "list_all is_digit (show_nat k)" "show_nat k \<noteq> []" for k by (simp_all add: show_nat_digits)
  then have "is_digit (hd (show_nat k))" for k by (metis hd_in_set list_all_iff)
  with d show "show_int n \<noteq> []" "number_start (hd (show_int n))" "list_all number_char (show_int n)"
    by (auto simp: show_int_def number_start_def number_char_def list_all_iff)
qed

lemma json_string_plain:
  assumes "list_all (\<lambda>c. 32 \<le> byte c \<and> byte c < 128 \<and> c \<noteq> CHR 0x22 \<and> c \<noteq> CHR 0x5C) s"
  shows "json_string s = Some (CHR 0x22 # s @ [CHR 0x22])"
proof -
  have "byte c \<noteq> 0x22" if "c \<noteq> CHR 0x22" for c using that char_of_byte [of c] char_of_escaped(6) by metis
  moreover have "byte c \<noteq> 0x5C" if "c \<noteq> CHR 0x5C" for c using that char_of_byte [of c] char_of_escaped(7) by metis
  ultimately have "json_string_body (map byte s) = Some s"
    using assms by (induction s) (auto simp: json_escape_None)
  then show ?thesis by (simp add: json_string_def)
qed

text \<open>The ways a query ends: an answer, an error, a request to retry later, or being dropped.\<close>

datatype answer = Answer json_value string | Fail int string "(string \<times> json_value) list" | Retry int | Give_Up

fun conclude :: "answer \<Rightarrow> query \<Rightarrow> query option" where
  "conclude (Answer result description) q = answer_query result description q"
| "conclude (Fail code description parameters) q = fail_query code description parameters q"
| "conclude (Retry n) q = set_retry_after_error n q"
| "conclude Give_Up q = Some q"

fun answer_value :: "answer \<Rightarrow> json_value" where
  "answer_value (Answer result description) = query_ok_value result description"
| "answer_value (Fail code description parameters) = query_error_value code description parameters"
| "answer_value (Retry n) =
     query_error_value 429 (''Too Many Requests: retry after '' @ show_int n) [(''retry_after'', JNumber (show_int n))]"
| "answer_value Give_Up =
     query_error_value 429 (''Too Many Requests: retry after '' @ show_int 5) [(''retry_after'', JNumber (show_int 5))]"

fun answer_code :: "answer \<Rightarrow> int" where
  "answer_code (Answer result description) = 200"
| "answer_code (Fail code description parameters) = code"
| "answer_code _ = 429"

fun answer_retry :: "answer \<Rightarrow> int" where
  "answer_retry (Retry n) = n"
| "answer_retry Give_Up = 5"
| "answer_retry _ = 0"

text \<open>
  (C23) Every query gets exactly one complete HTTP response: an unanswered query that is answered,
  failed, asked to retry or simply dropped yields one header with the status of that answer, one body
  whose length the header states and which parses as the JSON object of the answer, and one end of
  response; a dropped query becomes the error 429 with a delay of 5 seconds.
\<close>

theorem query_answered_once:
  assumes "q_state q = State_Query" and "q_retry_after q = 0"
    and "json_ok (Suc default_max_depth) (answer_value a)"
    and "\<bar>answer_code a\<bar> < 2 ^ 31" and "\<bar>answer_retry a\<bar> < 2 ^ 31"
    and "json_encode (answer_value a) False = Some body" and "length body < 2 ^ 63"
  shows "json_decode body = Some (Inr (answer_value a)) \<and>
    map_option on_query_finished (Option.bind (conclude a q) promise_delete) =
      Some [WriteNoflush (status_text (answer_code a) @
              concat (map (\<lambda>(k, v). header_line k v) (response_fields (length body) (answer_retry a) [])) @ crlf),
            WriteNoflush body, WriteOk]"
proof -
  have "json_decode body = Some (Inr (answer_value a))"
    using json_decode_encode [OF assms(3), of False] assms(6) by simp
  moreover have "\<exists>q'. Option.bind (conclude a q) promise_delete = Some q' \<and> q_http_status_code q' = answer_code a \<and>
      q_retry_after q' = answer_retry a \<and> q_answer q' = body"
    using assms(1,2,6)
    by (cases a) (auto simp: answer_query_def fail_query_def set_retry_after_error_def set_ok_def set_error_def
        promise_delete_def is_ready_def)
  ultimately show ?thesis
    using send_response_complete [OF assms(4,5,7), of "[]"] by (auto simp: on_query_finished_def)
qed

theorem query_answered_once_witness:
  "map_option length (map_option on_query_finished (Option.bind
      (conclude (Fail 404 ''Not Found'' []) (new_query [] ''1:a'' False ''getMe'' [] [] [] InvalidAddress False))
      promise_delete)) = Some 3"
proof -
  let ?a = "Fail 404 ''Not Found'' []"
  have ok: "json_ok (Suc (Suc 0)) (answer_value ?a)"
    using show_int_number [of 404] by (simp add: query_error_value_def ascii_check_utf8 byte_def)
  then have ok: "json_ok (Suc default_max_depth) (answer_value ?a)"
    by (rule json_ok_mono) (simp add: default_max_depth_def)
  have "\<exists>b. json_encode (answer_value ?a) False = Some b \<and> length b < 2 ^ 63"
    by (simp add: query_error_value_def json_encode_def json_string_plain byte_def inc_offset_def print_offset_def
        colon_def show_int_def show_nat.simps)
  then obtain b where enc: "json_encode (answer_value ?a) False = Some b" "length b < 2 ^ 63" by blast
  from query_answered_once [OF _ _ ok _ _ enc, of "new_query [] ''1:a'' False ''getMe'' [] [] [] InvalidAddress False"]
  show ?thesis by (auto simp: new_query_def)
qed

subsection \<open>Dispatch of requests\<close>

definition plain :: "string \<Rightarrow> bool" where
  "plain s \<longleftrightarrow> list_all (\<lambda>c. 32 \<le> byte c \<and> byte c < 128 \<and> c \<noteq> CHR 0x22 \<and> c \<noteq> CHR 0x5C) s"

lemma send_http_error_complete:
  assumes "plain d" and "length d < 1000" and "\<bar>code\<bar> < 2 ^ 31" and "length allow < 100"
  shows "\<exists>header body. send_http_error code d allow = Some [WriteNoflush header, WriteNoflush body, WriteOk]"
proof -
  have "length (show_int code) \<le> 11" using length_show_int [of code 10] assms(3) by simp
  then have "\<exists>b. json_encode (query_error_value code d []) False = Some b \<and> length b < 2 ^ 63"
    using assms(1,2) unfolding plain_def
    by (simp add: query_error_value_def json_encode_def json_string_plain byte_def inc_offset_def print_offset_def
        colon_def)
  then obtain b where "json_encode (query_error_value code d []) False = Some b" "length b < 2 ^ 63" by blast
  then show ?thesis
    using send_response_complete [OF assms(3), of 0 b allow] assms(4) by (simp add: send_http_error_def)
qed

lemma route_error_plain:
  assumes "parse_file_stream_route path = Inl e"
  shows "plain (err_message e) \<and> length (err_message e) < 1000"
proof -
  have enc: "e' = invalid_encoding" if "validate_url_encoding s = Some e'" for s e'
    using that by (induction s rule: validate_url_encoding.induct) (auto split: if_splits)
  show ?thesis
    using assms
    by (auto simp: parse_file_stream_route_def Let_def plain_def byte_def invalid_encoding_def dest!: enc
        split: if_splits option.splits prod.splits bool.splits)
qed

lemma size_hint_error_plain:
  "parse_file_stream_size_hint v = Inl e \<Longrightarrow> plain (err_message e) \<and> length (err_message e) < 1000"
  by (auto simp: parse_file_stream_size_hint_def size_hint_error_def plain_def byte_def split: if_splits option.splits)

text \<open>A response is a header, a body and the end of the response.\<close>

definition responds :: "http_outcome option \<Rightarrow> bool" where
  "responds out \<longleftrightarrow> (\<exists>header body. out = Some (Responded [WriteNoflush header, WriteNoflush body, WriteOk]))"

lemma responds_error:
  "plain d \<Longrightarrow> length d < 1000 \<Longrightarrow> \<bar>code\<bar> < 2 ^ 31 \<Longrightarrow> length allow < 100 \<Longrightarrow>
    responds (map_option Responded (send_http_error code d allow))"
  using send_http_error_complete [of d code allow] by (auto simp: responds_def)

text \<open>The stream a request asks for, if its path, its source and its size hint are accepted.\<close>

definition requested_stream :: "http_query \<Rightarrow> file_stream_route \<Rightarrow> bool" where
  "requested_stream h r \<longleftrightarrow>
     (\<exists>parsed expected_size. parse_file_stream_route (hq_url_path h) = Inr parsed \<and>
        parse_file_stream_size_hint (hq_get_header h ''x-telegram-file-size'') = Inr expected_size \<and>
        r = parsed\<lparr>route_expected_size := expected_size,
          route_no_cache := parse_file_stream_no_cache (hq_get_header h ''x-telegram-no-cache'')\<rparr>)"

definition open_for_streams :: "bool \<Rightarrow> bool \<Rightarrow> http_query \<Rightarrow> bool" where
  "open_for_streams emergency enabled h \<longleftrightarrow> \<not> emergency \<and> enabled \<and> hq_type h = Type_Get"

lemma handle_stream_outcome:
  fixes p4 p6 emergency enabled allow_ip h
  defines "out \<equiv> handle_stream p4 p6 emergency enabled allow_ip h"
    and "allowed \<equiv> is_file_stream_ip_allowed p4 p6 (hq_peer_address h) allow_ip"
  shows "responds out \<or>
    (\<exists>r. out = Some (Start_Stream r (hq_peer_address h)) \<and> open_for_streams emergency enabled h \<and> allowed = Some True \<and>
       requested_stream h r) \<or>
    out = None \<and> open_for_streams emergency enabled h \<and> allowed = None \<and> (\<exists>parsed. parse_file_stream_route (hq_url_path h) = Inr parsed)"
proof (cases "open_for_streams emergency enabled h")
  case False
  then have "responds out"
    unfolding out_def handle_stream_def open_for_streams_def by (auto intro!: responds_error simp: plain_def byte_def)
  then show ?thesis by blast
next
  case op: True
  then have flags: "\<not> emergency" "enabled" "hq_type h = Type_Get" by (simp_all add: open_for_streams_def)
  show ?thesis
  proof (cases "parse_file_stream_route (hq_url_path h)")
    case (Inl e)
    then have "responds out"
      using flags route_error_plain [OF Inl] unfolding out_def handle_stream_def by (auto intro!: responds_error)
    then show ?thesis by blast
  next
    case route: (Inr parsed)
    show ?thesis
    proof (cases allowed)
      case None
      then have "out = None" using flags route unfolding out_def handle_stream_def allowed_def by simp
      then show ?thesis using None op route by simp
    next
      case (Some b)
      show ?thesis
      proof (cases b)
        case False
        then have "responds out"
          using Some flags route unfolding out_def handle_stream_def allowed_def
          by (auto intro!: responds_error simp: plain_def byte_def)
        then show ?thesis by blast
      next
        case True
        show ?thesis
        proof (cases "parse_file_stream_size_hint (hq_get_header h ''x-telegram-file-size'')")
          case (Inl e)
          then have "responds out"
            using Some True flags route size_hint_error_plain [OF Inl] unfolding out_def handle_stream_def allowed_def
            by (auto intro!: responds_error)
          then show ?thesis by blast
        next
          case (Inr n)
          then have "\<exists>r. out = Some (Start_Stream r (hq_peer_address h)) \<and> requested_stream h r"
            using Some True flags route unfolding out_def handle_stream_def allowed_def requested_stream_def by simp
          then show ?thesis using Some True op by blast
        qed
      qed
    qed
  qed
qed

lemma handle_stream_converse:
  assumes "open_for_streams emergency enabled h"
  shows "is_file_stream_ip_allowed p4 p6 (hq_peer_address h) allow_ip = Some True \<Longrightarrow> requested_stream h r \<Longrightarrow>
      handle_stream p4 p6 emergency enabled allow_ip h = Some (Start_Stream r (hq_peer_address h))"
    and "is_file_stream_ip_allowed p4 p6 (hq_peer_address h) allow_ip = None \<Longrightarrow>
      parse_file_stream_route (hq_url_path h) = Inr parsed \<Longrightarrow> handle_stream p4 p6 emergency enabled allow_ip h = None"
  using assms by (auto simp: handle_stream_def open_for_streams_def requested_stream_def)

lemma route_prefix:
  assumes "parse_file_stream_route path = Inr parsed"
  shows "begins_with path ''/stream/file/bot''"
  using assms by (cases path rule: parse_file_stream_route_cases) (auto simp: stream_path_def begins_with_def)

text \<open>The path of a Bot API method call.\<close>

definition bot_path :: "string \<Rightarrow> bool \<Rightarrow> string \<Rightarrow> string" where
  "bot_path token is_test_dc method = ''/bot'' @ token @ (if is_test_dc then ''/test'' else []) @ ''/'' @ method"

lemma bot_path_not_stream: "\<not> begins_with (bot_path t test m) ''/stream/file/bot''"
  by (simp add: bot_path_def begins_with_def)

lemma handle_bot_path:
  assumes "CHR ''/'' \<notin> set t" and "test \<or> \<not> begins_with m ''test''"
  shows "handle False p4 p6 emergency enabled allow_ip (h\<lparr>hq_url_path := bot_path t test m\<rparr>) =
    Some (Forward (new_query (hq_container h) t test m (hq_args h) (hq_headers h) (hq_files h) (hq_peer_address h) False))"
proof -
  define tail where "tail = (if test then ''/test'' else []) @ ''/'' @ m"
  define p where "p = new_parser (bot_path t test m)"
  have p: "rest p = ''/bot'' @ t @ tail" "failure p = None" by (simp_all add: p_def new_parser_def bot_path_def tail_def)
  obtain tl' where tl: "tail = CHR ''/'' # tl'" by (cases test) (auto simp: tail_def)
  have skip1: "try_skip ''/bot'' p = (True, p\<lparr>rest := t @ tail\<rparr>)"
    by (rule try_skip_prefix) (simp add: p)
  have till: "read_till CHR ''/'' (p\<lparr>rest := t @ tail\<rparr>) = (t, p\<lparr>rest := tail\<rparr>)"
    using assms(1) tl by (subst read_till_found [where xs = t and ys = tl']) (simp_all add: p)
  have skip2: "try_skip ''/test'' (p\<lparr>rest := tail\<rparr>) = (test, p\<lparr>rest := ''/'' @ m\<rparr>)"
    using assms(2) by (cases test) (auto simp: try_skip_def begins_with_def tail_def)
  have skip3: "skip CHR ''/'' (p\<lparr>rest := ''/'' @ m\<rparr>) = p\<lparr>rest := m\<rparr>"
    using p(2) by (simp add: skip_def)
  have peek: "peek_char p = CHR ''/''" by (simp add: peek_char_def p)
  show ?thesis
    unfolding handle_def using p(2)
    by (simp add: bot_path_not_stream p_def [symmetric] skip1 till skip2 skip3 [simplified] peek)
qed

lemma handle_forward_path:
  assumes "handle False p4 p6 emergency enabled allow_ip h = Some (Forward q)"
  shows "\<exists>t test m. CHR ''/'' \<notin> set t \<and> (test \<or> \<not> begins_with m ''test'') \<and> hq_url_path h = bot_path t test m"
proof -
  let ?p = "new_parser (hq_url_path h)"
  have not_stream: "\<not> begins_with (hq_url_path h) ''/stream/file/bot''"
  proof
    assume "begins_with (hq_url_path h) ''/stream/file/bot''"
    then have "handle_stream p4 p6 emergency enabled allow_ip h = Some (Forward q)"
      using assms by (simp add: handle_def Let_def split: if_splits)
    then show False using handle_stream_outcome [of p4 p6 emergency enabled allow_ip h] by (auto simp: responds_def)
  qed
  obtain p1 where p1: "try_skip ''/bot'' ?p = (True, p1)"
    using assms not_stream by (auto simp: handle_def Let_def split: if_splits prod.splits)
  then have path: "hq_url_path h = ''/bot'' @ rest p1" and f1: "failure p1 = None"
    by (auto simp: try_skip_iff new_parser_def)
  obtain t p2 where p2: "read_till CHR ''/'' p1 = (t, p2)" by fastforce
  obtain test p3 where p3: "try_skip ''/test'' p2 = (test, p3)" by fastforce
  have ok: "failure (skip CHR ''/'' p3) = None"
    using assms not_stream p1 p2 p3 by (auto simp: handle_def Let_def split: if_splits)
  have "CHR ''/'' \<in> set (rest p1)"
  proof (rule ccontr)
    assume "CHR ''/'' \<notin> set (rest p1)"
    then have "failure p2 \<noteq> None" using read_till_missing [OF f1] p2 by fastforce
    then have "failure (skip CHR ''/'' p3) \<noteq> None" using p3 by (auto simp: try_skip_iff skip_def split: option.splits)
    with ok show False by simp
  qed
  then obtain xs ys where xs: "rest p1 = xs @ CHR ''/'' # ys" "CHR ''/'' \<notin> set xs" by (meson split_list_first)
  then have t: "t = xs" "rest p2 = CHR ''/'' # ys" "failure p2 = None"
    using read_till_found [OF f1 xs] p2 f1 by auto
  then have p3': "rest p2 = (if test then ''/test'' else []) @ rest p3" "test \<or> \<not> begins_with (rest p2) ''/test''"
      "failure p3 = None"
    using p3 by (auto simp: try_skip_iff)
  then obtain m where m: "rest p3 = CHR ''/'' # m" using ok by (cases "rest p3") (auto simp: skip_def split: if_splits)
  have "test \<or> \<not> begins_with m ''test''" using p3' m by (auto simp: begins_with_def)
  then show ?thesis using xs t path p3'(1) m by (intro exI [of _ xs] exI [of _ test] exI [of _ m]) (simp add: bot_path_def)
qed

lemma handle_stream_path:
  assumes "begins_with (hq_url_path h) ''/stream/file/bot''"
  shows "handle False p4 p6 emergency enabled allow_ip h = handle_stream p4 p6 emergency enabled allow_ip h"
proof -
  have "peek_char (new_parser (hq_url_path h)) = CHR ''/''"
    using assms by (auto simp: begins_with_iff peek_char_def new_parser_def)
  then show ?thesis using assms by (simp add: handle_def Let_def)
qed

lemma handle_other_path:
  assumes "\<not> begins_with (hq_url_path h) ''/stream/file/bot''"
  shows "responds (handle False p4 p6 emergency enabled allow_ip h) \<or> (\<exists>q. handle False p4 p6 emergency enabled allow_ip h = Some (Forward q))"
proof -
  have "responds (map_option Responded (send_http_error 404 ''Not Found'' []))"
    "responds (map_option Responded (send_http_error 404 ''Not Found: absolute URI is specified in the Request-Line'' []))"
    by (auto intro!: responds_error simp: plain_def byte_def)
  then show ?thesis using assms by (auto simp: handle_def Let_def split: prod.splits)
qed

lemma handle_cases:
  "handle True p4 p6 emergency enabled allow_ip h = None"
  "responds (handle False p4 p6 emergency enabled allow_ip h) \<or> (\<exists>q. handle False p4 p6 emergency enabled allow_ip h = Some (Forward q)) \<or>
   handle False p4 p6 emergency enabled allow_ip h = handle_stream p4 p6 emergency enabled allow_ip h"
proof -
  show "handle True p4 p6 emergency enabled allow_ip h = None" by (simp add: handle_def)
qed (use handle_stream_path [of h p4 p6 emergency enabled allow_ip] handle_other_path [of h p4 p6 emergency enabled allow_ip] in blast)

lemma handle_forward_iff:
  "handle False p4 p6 emergency enabled allow_ip h = Some (Forward q) \<longleftrightarrow>
    (\<exists>t test m. CHR ''/'' \<notin> set t \<and> (test \<or> \<not> begins_with m ''test'') \<and> hq_url_path h = bot_path t test m \<and>
       q = new_query (hq_container h) t test m (hq_args h) (hq_headers h) (hq_files h) (hq_peer_address h) False)"
proof -
  have bot: "handle False p4 p6 emergency enabled allow_ip h = Some (Forward (new_query (hq_container h) t test m (hq_args h)
      (hq_headers h) (hq_files h) (hq_peer_address h) False))"
    if "CHR ''/'' \<notin> set t" "test \<or> \<not> begins_with m ''test''" "hq_url_path h = bot_path t test m" for t test m
  proof -
    have "h\<lparr>hq_url_path := bot_path t test m\<rparr> = h" using that(3) by simp
    with handle_bot_path [OF that(1,2), of p4 p6 emergency enabled allow_ip h] show ?thesis by simp
  qed
  show ?thesis
  proof
    assume fwd: "handle False p4 p6 emergency enabled allow_ip h = Some (Forward q)"
    from handle_forward_path [OF fwd] obtain t test m where path: "CHR ''/'' \<notin> set t"
        "test \<or> \<not> begins_with m ''test''" "hq_url_path h = bot_path t test m" by blast
    from bot [OF path] fwd path show "\<exists>t test m. CHR ''/'' \<notin> set t \<and> (test \<or> \<not> begins_with m ''test'') \<and>
        hq_url_path h = bot_path t test m \<and>
        q = new_query (hq_container h) t test m (hq_args h) (hq_headers h) (hq_files h) (hq_peer_address h) False"
      by (intro exI [of _ t] exI [of _ test] exI [of _ m]) simp
  next
    assume "\<exists>t test m. CHR ''/'' \<notin> set t \<and> (test \<or> \<not> begins_with m ''test'') \<and>
        hq_url_path h = bot_path t test m \<and>
        q = new_query (hq_container h) t test m (hq_args h) (hq_headers h) (hq_files h) (hq_peer_address h) False"
    then show "handle False p4 p6 emergency enabled allow_ip h = Some (Forward q)" using bot by (elim exE conjE) simp
  qed
qed

lemma handle_stream_iff:
  "handle False p4 p6 emergency enabled allow_ip h = Some (Start_Stream r a) \<longleftrightarrow>
     open_for_streams emergency enabled h \<and> is_file_stream_ip_allowed p4 p6 (hq_peer_address h) allow_ip = Some True \<and>
     requested_stream h r \<and> a = hq_peer_address h" (is "?start \<longleftrightarrow> ?cond")
  "handle False p4 p6 emergency enabled allow_ip h = None \<longleftrightarrow>
     open_for_streams emergency enabled h \<and> is_file_stream_ip_allowed p4 p6 (hq_peer_address h) allow_ip = None \<and>
     (\<exists>parsed. parse_file_stream_route (hq_url_path h) = Inr parsed)" (is "?none \<longleftrightarrow> ?abort")
proof -
  note out = handle_stream_outcome [of p4 p6 emergency enabled allow_ip h] and all = handle_cases(2) [of p4 p6 emergency enabled allow_ip h]
  have stream: "handle False p4 p6 emergency enabled allow_ip h = handle_stream p4 p6 emergency enabled allow_ip h"
    if "parse_file_stream_route (hq_url_path h) = Inr parsed" for parsed
    using handle_stream_path [OF route_prefix [OF that]] .
  show "?start \<longleftrightarrow> ?cond"
  proof
    assume ?start
    then show ?cond using out all by (auto simp: responds_def)
  next
    assume c: ?cond
    then obtain parsed where "parse_file_stream_route (hq_url_path h) = Inr parsed" by (auto simp: requested_stream_def)
    then show ?start using c stream handle_stream_converse(1) by simp
  qed
  show "?none \<longleftrightarrow> ?abort"
  proof
    assume ?none
    then show ?abort using out all by (auto simp: responds_def)
  next
    assume c: ?abort
    then obtain parsed where "parse_file_stream_route (hq_url_path h) = Inr parsed" by blast
    then show ?none using c stream handle_stream_converse(2) by metis
  qed
qed

text \<open>
  (C22) Dispatch of HTTP requests. A request becomes a Bot API query exactly when its path is
  \<open>/bot<token>/<method>\<close> or \<open>/bot<token>/test/<method>\<close>, and the query then carries that token, data center and
  lower-case method. It starts a file stream exactly when there is no disk emergency, streaming is enabled, it is a GET
  request, its path is a valid route, its source address is allowed and its size hint is valid, and the stream then
  has that route, that size and that cache mode. A check fails only if the connection object is in use already or, for
  a request with a valid route, in the parser of the allowlist. Every other request is answered at once with one
  complete response.
\<close>

theorem http_dispatch:
  "(handle busy p4 p6 emergency enabled allow_ip h = Some (Forward q) \<longleftrightarrow>
    \<not> busy \<and> (\<exists>t test m. CHR ''/'' \<notin> set t \<and> (test \<or> \<not> begins_with m ''test'') \<and> hq_url_path h = bot_path t test m \<and>
       q = new_query (hq_container h) t test m (hq_args h) (hq_headers h) (hq_files h) (hq_peer_address h) False)) \<and>
   (handle busy p4 p6 emergency enabled allow_ip h = Some (Start_Stream r a) \<longleftrightarrow>
    \<not> busy \<and> \<not> emergency \<and> enabled \<and> hq_type h = Type_Get \<and>
    is_file_stream_ip_allowed p4 p6 (hq_peer_address h) allow_ip = Some True \<and> a = hq_peer_address h \<and>
    (\<exists>parsed expected_size. parse_file_stream_route (hq_url_path h) = Inr parsed \<and>
       parse_file_stream_size_hint (hq_get_header h ''x-telegram-file-size'') = Inr expected_size \<and>
       r = parsed\<lparr>route_expected_size := expected_size,
         route_no_cache := parse_file_stream_no_cache (hq_get_header h ''x-telegram-no-cache'')\<rparr>)) \<and>
   (handle busy p4 p6 emergency enabled allow_ip h = None \<longleftrightarrow>
    busy \<or> (\<not> emergency \<and> enabled \<and> hq_type h = Type_Get \<and>
      is_file_stream_ip_allowed p4 p6 (hq_peer_address h) allow_ip = None \<and>
      (\<exists>parsed. parse_file_stream_route (hq_url_path h) = Inr parsed))) \<and>
   (case handle busy p4 p6 emergency enabled allow_ip h of
      Some (Responded es) \<Rightarrow> \<exists>header body. es = [WriteNoflush header, WriteNoflush body, WriteOk] | _ \<Rightarrow> True)"
proof (cases busy)
  case True
  then show ?thesis using handle_cases(1) by auto
next
  case False
  have "case handle False p4 p6 emergency enabled allow_ip h of
      Some (Responded es) \<Rightarrow> \<exists>header body. es = [WriteNoflush header, WriteNoflush body, WriteOk] | _ \<Rightarrow> True"
    using handle_cases(2) [of p4 p6 emergency enabled allow_ip h] handle_stream_outcome [of p4 p6 emergency enabled allow_ip h]
    by (auto simp: responds_def)
  with handle_forward_iff [of p4 p6 emergency enabled allow_ip h q]
    handle_stream_iff(1) [of p4 p6 emergency enabled allow_ip h r a, unfolded open_for_streams_def requested_stream_def]
    handle_stream_iff(2) [of p4 p6 emergency enabled allow_ip h, unfolded open_for_streams_def]
  show ?thesis unfolding False [THEN Eq_FalseI] by (intro conjI) blast+
qed

theorem http_dispatch_witness:
  "handle False (\<lambda>s. None) (\<lambda>s. None) True False []
     \<lparr>hq_container = [], hq_type = Type_Get, hq_url_path = ''/bot5:a/test/getMe'', hq_args = [], hq_headers = [],
      hq_files = [], hq_peer_address = InvalidAddress\<rparr> =
   Some (Forward (new_query [] ''5:a'' True ''getMe'' [] [] [] InvalidAddress False))"
proof -
  let ?h = "\<lparr>hq_container = [], hq_type = Type_Get, hq_url_path = ''/bot5:a/test/getMe'', hq_args = [], hq_headers = [],
    hq_files = [], hq_peer_address = InvalidAddress\<rparr>"
  have "hq_url_path ?h = bot_path ''5:a'' True ''getMe''" by (simp add: bot_path_def)
  moreover have "CHR ''/'' \<notin> set ''5:a''" by simp
  ultimately show ?thesis
    by (intro iffD2 [OF conjunct1 [OF http_dispatch]] conjI exI [of _ "''5:a''"] exI [of _ True] exI [of _ "''getMe''"]) simp_all
qed

end
