(* ===== verification/Client_Manager.thy ===== *)
theory Client_Manager
  imports Http_Frontend Id_Container Flood_Control TQueue_Spec "HOL-Library.AList"
begin

section \<open>The client manager\<close>

text \<open>
  \<open>ClientManager.cpp\<close>: the actor that owns one client per bot token. It routes queries and file
  streams to the client of their token, creates clients under flood control, admits file streams
  under a global and a per-bot quota, restores saved webhooks, collects expired updates and shuts
  the server down. Each handler is a function of the state that returns the new state and the messages it
  sends; a failed \<open>CHECK\<close> (or a null dereference) is \<^const>\<open>None\<close>.

  Log lines, the report of \<open>get_stats\<close> and the statistics objects are left out. The arguments
  \<open>t\<close>, \<open>t'\<close> of a handler are its consecutive readings of the clock.
\<close>

subsection \<open>State\<close>

record client_info =
  ci_token :: string
  ci_tqueue_id :: int

definition no_client :: client_info where
  "no_client = \<lparr>ci_token = [], ci_tqueue_id = 0\<rparr>"

text \<open>
  What the manager reads of \<open>ClientParameters\<close>, and the token range it serves. \<open>p_norm_ip\<close> is
  \<open>IPAddress::init_host_port\<close>, \<open>clear_ipv6_interface\<close> and \<open>get_ip_str\<close>, \<^const>\<open>None\<close> for an address
  that is not valid; \<open>p_ip_str\<close> is \<open>get_ip_str\<close>.
\<close>

record cm_params =
  p_local_mode :: bool
  p_streaming_enabled :: bool
  p_max_connections :: int
  p_range_rem :: int
  p_range_mod :: int
  p_norm_ip :: "string \<Rightarrow> string option"
  p_ip_str :: "ip_address \<Rightarrow> string"

record client_manager =
  clients :: "client_info container"
  token_to_id :: "string \<rightharpoonup> 64 word"
  flood_controls :: "string \<rightharpoonup> flood_control"
  global_flood_control :: flood_control
  is_global_flood_control_enabled :: bool
  active_client_count :: "(int \<times> nat) list"
  close_flag :: bool
  close_db_started :: bool
  close_finished :: bool
  active_file_stream_ids :: "int set"
  active_file_streams_by_token :: "string \<rightharpoonup> int"
  active_file_stream_token :: "int \<rightharpoonup> string"
  close_promises :: "nat list"
  next_tqueue_gc_time :: real
  tqueue_deleted_events :: nat
  last_tqueue_deleted_events :: nat
  file_stream_first_byte_timeouts :: nat
  file_stream_idle_timeouts :: nat
  shared_tqueue :: tqueue
  webhook_db :: "(string \<times> string) list"
  unix_time_difference :: real

datatype cm_message =
    Answer query
  | Create_Client "64 word" string bool int
  | Client_Send "64 word" query
  | Client_Close "64 word"
  | Client_Release "64 word"
  | Stream_Error int td_error
  | Set_Client int "64 word"
  | Start_File_Stream "64 word" int string int
  | Send_Later query
  | Reset_Watchdog
  | Kick_Watchdog
  | Start_Watchdog
  | Set_Timeout_In real
  | Cancel_Timeout_Msg
  | Close_Tqueue
  | Close_Webhook_Db
  | Resolve_Promise nat
  | Stop_Manager

type_synonym cm_result = "(client_manager \<times> cm_message list) option"

subsection \<open>Tokens\<close>

definition token_range :: "cm_params \<Rightarrow> int \<Rightarrow> bool" where
  "token_range p x \<longleftrightarrow> (x mod 2 ^ 64) mod p_range_mod p = p_range_rem p"

definition get_tqueue_id :: "int \<Rightarrow> bool \<Rightarrow> int" where
  "get_tqueue_id user_id is_test_dc = user_id + (if is_test_dc then 2 ^ 54 else 0)"

definition malformed_token :: "string \<Rightarrow> bool" where
  "malformed_token token \<longleftrightarrow>
     token \<noteq> [] \<and> hd token = CHR ''0'' \<or> length token > 80 \<or> CHR ''/'' \<in> set token \<or> CHR '':'' \<notin> set token"

definition token_user_id :: "string \<Rightarrow> int option" where
  "token_user_id token = to_integer_safe 64 (takeWhile (\<lambda>c. c \<noteq> CHR '':'') token)"

definition token_key :: "string \<Rightarrow> bool \<Rightarrow> string" where
  "token_key token is_test_dc = token @ (if is_test_dc then ''/test'' else [])"

subsection \<open>Flood control of client creation\<close>

definition ip_flood_control :: flood_control where
  "ip_flood_control = add_limit (60 * 60) 600 (add_limit 60 20 new_flood_control)"

text \<open>
  The checks before a client is created: first the control of the address, then the global one. The
  result is the wake-up time of a control that refuses, with the time it was asked at.
\<close>

definition check_ip_flood :: "cm_params \<Rightarrow> string \<Rightarrow> real \<Rightarrow> client_manager \<Rightarrow> (real option \<times> client_manager) option" where
  "check_ip_flood p ip t s =
     (if ip = [] then Some (None, s)
      else
        let key = (case p_norm_ip p ip of None \<Rightarrow> ip | Some ip' \<Rightarrow> ip');
            fc = (case flood_controls s key of None \<Rightarrow> ip_flood_control | Some fc \<Rightarrow> fc) in
        if wakeup_at fc > t then Some (Some (wakeup_at fc), s\<lparr>flood_controls := (flood_controls s)(key \<mapsto> fc)\<rparr>)
        else case flood_add_event t fc of
               None \<Rightarrow> None
             | Some fc' \<Rightarrow> Some (None, s\<lparr>flood_controls := (flood_controls s)(key \<mapsto> fc')\<rparr>))"

definition check_global_flood :: "real \<Rightarrow> client_manager \<Rightarrow> (real option \<times> client_manager) option" where
  "check_global_flood t s =
     (if \<not> is_global_flood_control_enabled s then Some (None, s)
      else if wakeup_at (global_flood_control s) > t then Some (Some (wakeup_at (global_flood_control s)), s)
      else case flood_add_event t (global_flood_control s) of
             None \<Rightarrow> None
           | Some fc' \<Rightarrow> Some (None, s\<lparr>global_flood_control := fc'\<rparr>))"

definition check_flood ::
  "cm_params \<Rightarrow> string \<Rightarrow> real \<Rightarrow> real \<Rightarrow> client_manager \<Rightarrow> ((real \<times> real) option \<times> client_manager) option"
where
  "check_flood p ip t t' s =
     (case check_ip_flood p ip t s of
        None \<Rightarrow> None
      | Some (Some w, s1) \<Rightarrow> Some (Some (w, t), s1)
      | Some (None, s1) \<Rightarrow> map_option (\<lambda>(r, s2). (map_option (\<lambda>w. (w, t')) r, s2)) (check_global_flood t' s1))"

definition create_client ::
  "string \<Rightarrow> bool \<Rightarrow> int \<Rightarrow> client_manager \<Rightarrow> (64 word \<times> client_manager \<times> cm_message list) option"
where
  "create_client token is_test_dc user_id s =
     (let tqueue_id = get_tqueue_id user_id is_test_dc in
      case container_create \<lparr>ci_token = token_key token is_test_dc, ci_tqueue_id = tqueue_id\<rparr> 0 (clients s) of
        None \<Rightarrow> None
      | Some (ident, c) \<Rightarrow>
          if container_get c ident = None then None
          else Some (ident, s\<lparr>clients := c\<rparr>, [Create_Client ident token is_test_dc tqueue_id]))"

definition add_token :: "string \<Rightarrow> 64 word \<Rightarrow> client_manager \<Rightarrow> client_manager" where
  "add_token key ident s =
     (case token_to_id s key of None \<Rightarrow> s\<lparr>token_to_id := (token_to_id s)(key \<mapsto> ident)\<rparr> | Some _ \<Rightarrow> s)"

subsection \<open>Saved webhooks\<close>

text \<open>
  \<open>get_webhook_restore_query\<close>: the \<open>setWebhook\<close> query that a saved webhook stands for. It has no promise;
  that is what \<open>q_is_internal\<close> marks.
\<close>

definition restore_arg :: "string \<Rightarrow> string \<Rightarrow> parser \<Rightarrow> (string \<times> string) list \<times> parser" where
  "restore_arg tag name p =
     (let (found, p1) = try_skip tag p in
      if found then let (v, p2) = read_till CHR ''/'' p1 in ([(name, v)], skip CHR ''/'' p2) else ([], p1))"

definition restore_args :: "string \<Rightarrow> (string \<times> string) list" where
  "restore_args webhook_info =
     (let (cert, p1) = try_skip ''cert/'' (new_parser webhook_info);
          (maxc, p2) = restore_arg ''#maxc'' ''max_connections'' p1;
          (ip, p3) = restore_arg ''#ip'' ''ip_address'' p2;
          (fix_ip, p4) = try_skip ''#fix_ip'' p3;
          p5 = (if fix_ip then skip CHR ''/'' p4 else p4);
          (secret, p6) = restore_arg ''#secret'' ''secret_token'' p5;
          (allow, p7) = restore_arg ''#allow'' ''allowed_updates'' p6;
          (url, p8) = read_all p7
      in (if cert then [(''certificate'', ''previous'')] else []) @ maxc @ ip @
         (if fix_ip then [(''fix_ip_address'', ''1'')] else []) @ secret @ allow @ [(''url'', url)])"

definition get_webhook_restore_query :: "string \<Rightarrow> string \<Rightarrow> query" where
  "get_webhook_restore_query token webhook_info =
     (let is_test_dc = ends_with token '':T'';
          args = restore_args webhook_info
      in new_query ([token] @ concat (map (\<lambda>(k, v). [k, v]) args) @ [''setwebhook''])
           (if is_test_dc then take (length token - 2) token else token) is_test_dc ''setwebhook'' args [] []
           InvalidAddress True)"

subsection \<open>Queries\<close>

text \<open>A query that is given up goes to its deleter; a restore query has no promise to tell.\<close>

definition drop_query :: "query option \<Rightarrow> cm_message list option" where
  "drop_query q =
     (case q of
        None \<Rightarrow> None
      | Some q \<Rightarrow> if q_is_internal q then Some [] else map_option (\<lambda>q. [Answer q]) (promise_delete q))"

definition restore_messages :: "64 word \<Rightarrow> query \<Rightarrow> client_manager \<Rightarrow> cm_message list" where
  "restore_messages ident q s =
     (if q_method q \<noteq> ''deletewebhook'' \<and> q_method q \<noteq> ''setwebhook'' then
        let key = q_token q @ (if q_is_test_dc q then '':T'' else []);
            webhook_info = find_value (webhook_db s) key
        in if webhook_info \<noteq> [] then [Client_Send ident (get_webhook_restore_query key webhook_info)] else []
      else [])"

definition send :: "cm_params \<Rightarrow> real \<Rightarrow> real \<Rightarrow> query \<Rightarrow> client_manager \<Rightarrow> cm_result" where
  "send p t t' q s =
     (let unauthorized = fail_query 401 ''Unauthorized: invalid token specified'' [] q;
          fail = (\<lambda>r s. map_option (Pair s) (drop_query r));
          key = token_key (q_token q) (q_is_test_dc q) in
      if close_flag s then fail (Some q) s
      else if malformed_token (q_token q) then fail unauthorized s
      else case token_user_id (q_token q) of
        None \<Rightarrow> fail (fail_query 421 ''Misdirected Request: unallowed token specified'' [] q) s
      | Some user_id \<Rightarrow>
          if \<not> token_range p user_id then
            fail (fail_query 421 ''Misdirected Request: unallowed token specified'' [] q) s
          else if user_id \<le> 0 \<or> user_id \<ge> 2 ^ 54 then fail unauthorized s
          else case token_to_id s key of
            Some ident \<Rightarrow>
              (case container_get (clients s) ident of None \<Rightarrow> None | Some _ \<Rightarrow> Some (s, [Client_Send ident q]))
          | None \<Rightarrow>
              if q_method q = ''close'' then fail (fail_query 400 ''Bad Request: the bot has already been closed'' [] q) s
              else case check_flood p (get_peer_ip_address (p_ip_str p) q) t t' s of
                None \<Rightarrow> None
              | Some (Some (wakeup, now), s1) \<Rightarrow> fail (set_retry_after_error (\<lfloor>wakeup - now\<rfloor> + 1) q) s1
              | Some (None, s1) \<Rightarrow>
                  (case create_client (q_token q) (q_is_test_dc q) user_id s1 of
                     None \<Rightarrow> None
                   | Some (ident, s2, created) \<Rightarrow>
                       Some (add_token key ident s2, created @ restore_messages ident q s2 @ [Client_Send ident q])))"

subsection \<open>File streams\<close>

definition per_bot_limit :: "cm_params \<Rightarrow> int" where
  "per_bot_limit p = max 1 (p_max_connections p div 4)"

definition stream_count :: "client_manager \<Rightarrow> string \<Rightarrow> int" where
  "stream_count s key = (case active_file_streams_by_token s key of None \<Rightarrow> 0 | Some n \<Rightarrow> n)"

text \<open>
  The end of \<open>send_file_stream\<close>: the stream takes its slot and is handed to the client. The numbers of streams are keys of
  the tables, which allow no key 0; they start at 1.
\<close>

definition admit_stream :: "64 word \<Rightarrow> int \<Rightarrow> string \<Rightarrow> string \<Rightarrow> int \<Rightarrow> client_manager \<Rightarrow> cm_result" where
  "admit_stream ident sid key fid expected_size s =
     (case container_get (clients s) ident of
        None \<Rightarrow> None
      | Some _ \<Rightarrow>
          Some (s\<lparr>active_file_stream_ids := insert sid (active_file_stream_ids s),
                  active_file_stream_token := (active_file_stream_token s)(sid \<mapsto> key),
                  active_file_streams_by_token := (active_file_streams_by_token s)(key \<mapsto> stream_count s key + 1)\<rparr>,
                [Set_Client sid ident, Start_File_Stream ident sid fid expected_size]))"

definition send_file_stream ::
  "cm_params \<Rightarrow> bool \<Rightarrow> real \<Rightarrow> real \<Rightarrow> int \<Rightarrow> string \<Rightarrow> bool \<Rightarrow> string \<Rightarrow> int \<Rightarrow> string \<Rightarrow> client_manager \<Rightarrow> cm_result"
where
  "send_file_stream p emergency t t' sid token is_test_dc fid expected_size peer_ip s =
     (let fail = (\<lambda>code message s. Some (s, [Stream_Error sid (Error code message)]));
          key = token_key token is_test_dc in
      if emergency then fail 507 ''Telegram workdir disk space exhausted; service is shutting down'' s
      else if close_flag s then fail 503 ''Bot API server is closing'' s
      else if \<not> p_streaming_enabled p then fail 404 ''File streaming endpoint is disabled'' s
      else if int (card (active_file_stream_ids s)) \<ge> p_max_connections p mod 2 ^ 64 then
        fail 429 ''Too many active file streams'' s
      else if token = [] \<or> malformed_token token then fail 401 ''Invalid token specified'' s
      else case token_user_id token of
        None \<Rightarrow> fail 401 ''Invalid token specified'' s
      | Some user_id \<Rightarrow>
          if user_id \<le> 0 \<or> user_id \<ge> 2 ^ 54 then fail 401 ''Invalid token specified'' s
          else if \<not> token_range p user_id then fail 421 ''Unallowed token specified'' s
          else if fid = [] \<or> length fid > 4096 then fail 400 ''Invalid file_id specified'' s
          else if stream_count s key \<ge> per_bot_limit p then fail 429 ''Too many active file streams for this token'' s
          else case token_to_id s key of
            Some ident \<Rightarrow> admit_stream ident sid key fid expected_size s
          | None \<Rightarrow>
              case check_flood p peer_ip t t' s of
                None \<Rightarrow> None
              | Some (Some _, s1) \<Rightarrow> fail 429 ''Too many authentication attempts'' s1
              | Some (None, s1) \<Rightarrow>
                  (case create_client token is_test_dc user_id s1 of
                     None \<Rightarrow> None
                   | Some (ident, s2, created) \<Rightarrow>
                       map_option (\<lambda>(s3, ms). (s3, created @ ms))
                         (admit_stream ident sid key fid expected_size (add_token key ident s2))))"

definition release_file_stream :: "int \<Rightarrow> client_manager \<Rightarrow> client_manager" where
  "release_file_stream sid s =
     (let s1 = s\<lparr>active_file_stream_ids := active_file_stream_ids s - {sid}\<rparr> in
      case active_file_stream_token s1 sid of
        None \<Rightarrow> s1
      | Some key \<Rightarrow>
          let counts = active_file_streams_by_token s1;
              counts' = (case counts key of
                           None \<Rightarrow> counts
                         | Some n \<Rightarrow> if n - 1 \<le> 0 then counts(key := None) else counts(key \<mapsto> n - 1))
          in s1\<lparr>active_file_streams_by_token := counts',
                active_file_stream_token := (active_file_stream_token s1)(sid := None)\<rparr>)"

definition on_file_stream_timeout :: "bool \<Rightarrow> client_manager \<Rightarrow> client_manager" where
  "on_file_stream_timeout first_byte s =
     (if first_byte then s\<lparr>file_stream_first_byte_timeouts := file_stream_first_byte_timeouts s + 1\<rparr>
      else s\<lparr>file_stream_idle_timeouts := file_stream_idle_timeouts s + 1\<rparr>)"

subsection \<open>Clients coming and going\<close>

text \<open>\<open>raw_event\<close>: a client reports that it logged in (a non-null pointer) or is leaving.\<close>

definition client_raw_event :: "64 word \<Rightarrow> bool \<Rightarrow> client_manager \<Rightarrow> cm_result" where
  "client_raw_event ident logged_in s =
     (case container_get (clients s) ident of
        None \<Rightarrow> None
      | Some info \<Rightarrow>
          if ci_tqueue_id info = 0 then None
          else
            let n = (case map_of (active_client_count s) (ci_tqueue_id info) of None \<Rightarrow> 0 | Some n \<Rightarrow> n) in
            if logged_in then
              Some (s\<lparr>active_client_count := AList.update (ci_tqueue_id info) (n + 1) (active_client_count s)\<rparr>, [])
            else if n = 0 then None
            else if n = 1 then
              Some (s\<lparr>active_client_count := AList.delete (ci_tqueue_id info) (active_client_count s)\<rparr>, [])
            else
              Some (s\<lparr>active_client_count := AList.update (ci_tqueue_id info) (n - 1) (active_client_count s)\<rparr>, []))"

definition close_db :: "client_manager \<Rightarrow> client_manager \<times> cm_message list" where
  "close_db s =
     (if close_db_started s \<or> close_finished s then (s, [])
      else (s\<lparr>close_db_started := True\<rparr>, [Set_Timeout_In 10, Close_Tqueue, Close_Webhook_Db]))"

definition hangup_shared :: "64 word \<Rightarrow> client_manager \<Rightarrow> cm_result" where
  "hangup_shared ident s =
     (case container_get (clients s) ident of
        None \<Rightarrow> None
      | Some info \<Rightarrow>
          let s1 = s\<lparr>token_to_id := (token_to_id s)(ci_token info := None),
                     clients := container_erase no_client ident (clients s)\<rparr> in
          if close_flag s1 \<and> container_empty (clients s1) then
            if active_client_count s1 = [] then
              let (s2, ms) = close_db s1 in Some (s2, Client_Release ident # ms)
            else None
          else Some (s1, [Client_Release ident]))"

definition finish_close :: "client_manager \<Rightarrow> client_manager \<times> cm_message list" where
  "finish_close s =
     (if close_finished s then (s, [])
      else (s\<lparr>close_finished := True, close_promises := []\<rparr>,
            [Cancel_Timeout_Msg] @ map Resolve_Promise (close_promises s) @ [Stop_Manager]))"

definition close :: "nat \<Rightarrow> client_manager \<Rightarrow> cm_result" where
  "close promise s =
     (let s1 = s\<lparr>close_promises := close_promises s @ [promise]\<rparr> in
      if close_flag s1 then Some (s1, [])
      else
        let s2 = s1\<lparr>close_flag := True\<rparr>;
            idents = container_ids (clients s2);
            ms = [Reset_Watchdog, Set_Timeout_In 30] @ map Client_Close idents in
        if list_all (\<lambda>ident. container_get (clients s2) ident \<noteq> None) idents then
          if idents = [] then let (s3, ms') = close_db s2 in Some (s3, ms @ ms') else Some (s2, ms)
        else None)"

subsection \<open>Timer and start\<close>

definition get_unix_time :: "real \<Rightarrow> real \<Rightarrow> int" where
  "get_unix_time difference now =
     (let result = difference + now in
      if result \<le> 0 then 0 else if result \<ge> real_of_int int32_max then int32_max else \<lfloor>result\<rfloor>)"

definition watchdog_timeout :: real where
  "watchdog_timeout = 1 / 4"

text \<open>The part of \<open>timeout_expired\<close> that collects expired updates.\<close>

definition tqueue_gc :: "(nat \<Rightarrow> bool) \<Rightarrow> (nat \<Rightarrow> bool) \<Rightarrow> real \<Rightarrow> real \<Rightarrow> client_manager \<Rightarrow> client_manager option" where
  "tqueue_gc tick tock t t' s =
     (if t > next_tqueue_gc_time s then
        case run_gc (Suc (length (queue_gc_at (shared_tqueue s)))) tick tock
               (get_unix_time (unix_time_difference s) t) 0 0 (shared_tqueue s) of
          None \<Rightarrow> None
        | Some ((deleted_events, is_finished), q) \<Rightarrow>
            let deleted = tqueue_deleted_events s + deleted_events in
            Some (s\<lparr>shared_tqueue := q, next_tqueue_gc_time := t' + (if is_finished then 60 else 1),
                    tqueue_deleted_events := deleted,
                    last_tqueue_deleted_events :=
                      (if deleted > last_tqueue_deleted_events s + 10000 then deleted
                       else last_tqueue_deleted_events s)\<rparr>)
      else Some s)"

definition cm_timeout_expired ::
  "cm_params \<Rightarrow> (nat \<Rightarrow> bool) \<Rightarrow> (nat \<Rightarrow> bool) \<Rightarrow> real \<Rightarrow> real \<Rightarrow> client_manager \<Rightarrow> cm_result"
where
  "cm_timeout_expired p tick tock t t' s =
     (if close_flag s then Some (finish_close s)
      else
        case tqueue_gc tick tock t t' s of
          None \<Rightarrow> None
        | Some s1 \<Rightarrow>
            Some (if \<not> is_global_flood_control_enabled s1 \<and> \<not> p_local_mode p
                  then s1\<lparr>is_global_flood_control_enabled := True,
                          global_flood_control := add_limit (60 * 60) 10000 (add_limit 60 1000 (global_flood_control s1))\<rparr>
                  else s1,
                  [Kick_Watchdog, Set_Timeout_In (watchdog_timeout / 10)]))"

text \<open>
  \<open>start_up\<close>, given the queues recovered from \<open>tqueue.binlog\<close> and the contents of
  \<open>webhooks_db.binlog\<close> in the order in which they are enumerated.
\<close>

definition served_webhook :: "cm_params \<Rightarrow> string \<Rightarrow> bool" where
  "served_webhook p key \<longleftrightarrow> token_range p (int (to_unsigned 64 key))"

definition cm_start_up :: "cm_params \<Rightarrow> real \<Rightarrow> tqueue \<Rightarrow> (string \<times> string) list \<Rightarrow> real \<Rightarrow> client_manager \<times> cm_message list" where
  "cm_start_up p t recovered saved difference =
     (let kept = filter (\<lambda>(key, v). served_webhook p key) saved in
      (\<lparr>clients = new_container, token_to_id = Map.empty, flood_controls = Map.empty,
        global_flood_control = new_flood_control, is_global_flood_control_enabled = False,
        active_client_count = [], close_flag = False, close_db_started = False, close_finished = False,
        active_file_stream_ids = {}, active_file_streams_by_token = Map.empty,
        active_file_stream_token = Map.empty, close_promises = [], next_tqueue_gc_time = t + 600,
        tqueue_deleted_events = 0, last_tqueue_deleted_events = 0, file_stream_first_byte_timeouts = 0,
        file_stream_idle_timeouts = 0, shared_tqueue = recovered, webhook_db = kept, unix_time_difference = difference\<rparr>,
       map (\<lambda>(key, v). Send_Later (get_webhook_restore_query key v)) kept @ [Start_Watchdog, Set_Timeout_In 600]))"

end
