(* ===== verification/Client_Webhook.thy ===== *)
theory Client_Webhook
  imports Client_Manager
begin

section \<open>Webhook settings of a client\<close>

text \<open>
  The part of \<open>Client.cpp\<close> that sets, saves and deletes the webhook of a bot: \<open>setWebhook\<close> and
  \<open>deleteWebhook\<close>, the certificate copied in the background, the answers of the webhook actor, the
  allowed update types, and the value saved in the database of webhooks, from which
  \<open>ClientManager\<close> restores the webhook after a restart.

  A handler returns the new state and the messages it sends; a failed \<open>CHECK\<close> is \<^const>\<open>None\<close>. The
  parser of URLs (\<open>td::parse_url\<close>) is the argument \<open>wp_url_ok\<close>.
\<close>

subsection \<open>Update types\<close>

datatype update_type =
    Message | Edited_Message | Channel_Post | Edited_Channel_Post | Inline_Query | Chosen_Inline_Result
  | Callback_Query | Custom_Event | Custom_Query | Shipping_Query | Pre_Checkout_Query | Poll | Poll_Answer
  | My_Chat_Member | Chat_Member | Chat_Join_Request | Chat_Boost_Updated | Chat_Boost_Removed | Message_Reaction
  | Message_Reaction_Count | Business_Connection | Business_Message | Edited_Business_Message
  | Business_Messages_Deleted | Purchased_Paid_Media | Managed_Bot | Guest_Message | Subscription

definition update_types :: "update_type list" where
  "update_types =
     [Message, Edited_Message, Channel_Post, Edited_Channel_Post, Inline_Query, Chosen_Inline_Result, Callback_Query,
      Custom_Event, Custom_Query, Shipping_Query, Pre_Checkout_Query, Poll, Poll_Answer, My_Chat_Member, Chat_Member,
      Chat_Join_Request, Chat_Boost_Updated, Chat_Boost_Removed, Message_Reaction, Message_Reaction_Count,
      Business_Connection, Business_Message, Edited_Business_Message, Business_Messages_Deleted, Purchased_Paid_Media,
      Managed_Bot, Guest_Message, Subscription]"

fun get_update_type_name :: "update_type \<Rightarrow> string" where
  "get_update_type_name Message = ''message''"
| "get_update_type_name Edited_Message = ''edited_message''"
| "get_update_type_name Channel_Post = ''channel_post''"
| "get_update_type_name Edited_Channel_Post = ''edited_channel_post''"
| "get_update_type_name Inline_Query = ''inline_query''"
| "get_update_type_name Chosen_Inline_Result = ''chosen_inline_result''"
| "get_update_type_name Callback_Query = ''callback_query''"
| "get_update_type_name Custom_Event = ''custom_event''"
| "get_update_type_name Custom_Query = ''custom_query''"
| "get_update_type_name Shipping_Query = ''shipping_query''"
| "get_update_type_name Pre_Checkout_Query = ''pre_checkout_query''"
| "get_update_type_name Poll = ''poll''"
| "get_update_type_name Poll_Answer = ''poll_answer''"
| "get_update_type_name My_Chat_Member = ''my_chat_member''"
| "get_update_type_name Chat_Member = ''chat_member''"
| "get_update_type_name Chat_Join_Request = ''chat_join_request''"
| "get_update_type_name Chat_Boost_Updated = ''chat_boost''"
| "get_update_type_name Chat_Boost_Removed = ''removed_chat_boost''"
| "get_update_type_name Message_Reaction = ''message_reaction''"
| "get_update_type_name Message_Reaction_Count = ''message_reaction_count''"
| "get_update_type_name Business_Connection = ''business_connection''"
| "get_update_type_name Business_Message = ''business_message''"
| "get_update_type_name Edited_Business_Message = ''edited_business_message''"
| "get_update_type_name Business_Messages_Deleted = ''deleted_business_messages''"
| "get_update_type_name Purchased_Paid_Media = ''purchased_paid_media''"
| "get_update_type_name Managed_Bot = ''managed_bot''"
| "get_update_type_name Guest_Message = ''guest_message''"
| "get_update_type_name Subscription = ''subscription''"

text \<open>The bits of \<open>ChatMember\<close>, \<open>MessageReaction\<close> and \<open>MessageReactionCount\<close> are 14, 18 and 19.\<close>

definition default_allowed_update_types :: "64 word" where
  "default_allowed_update_types = push_bit 28 1 - 1 - push_bit 14 1 - push_bit 18 1 - push_bit 19 1"

definition type_bits :: "string \<Rightarrow> 64 word" where
  "type_bits name =
     fold (\<lambda>(i, t) acc. if get_update_type_name t = name then acc OR push_bit i 1 else acc) (enumerate 0 update_types) 0"

text \<open>The loop over the array of names; \<^const>\<open>None\<close> is the return of zero at an element that is not a string.\<close>

fun allowed_loop :: "json_value list \<Rightarrow> 64 word \<Rightarrow> 64 word option" where
  "allowed_loop [] acc = Some acc"
| "allowed_loop (JString s # vs) acc = allowed_loop vs (acc OR type_bits (to_lower s))"
| "allowed_loop (_ # vs) acc = None"

definition get_allowed_update_types :: "string \<Rightarrow> bool \<Rightarrow> 64 word option" where
  "get_allowed_update_types allowed_updates is_internal =
     (if allowed_updates = [] then Some 0
      else case json_decode allowed_updates of
             None \<Rightarrow> None
           | Some (Inl e) \<Rightarrow> Some 0
           | Some (Inr (JArray vs)) \<Rightarrow>
               Some (case allowed_loop vs 0 of
                       None \<Rightarrow> 0
                     | Some result \<Rightarrow> if result = 0 then default_allowed_update_types else result)
           | Some (Inr (JNumber num)) \<Rightarrow>
               Some (if is_internal
                     then case to_unsigned_safe 64 num of None \<Rightarrow> 0 | Some n \<Rightarrow> word_of_nat n
                     else 0)
           | Some (Inr v) \<Rightarrow> Some 0)"

subsection \<open>State\<close>

datatype webhook_query_type = Cancel | Verify

record webhook_params =
  wp_default_max_connections :: int
  wp_local_mode :: bool
  wp_url_ok :: "string \<Rightarrow> bool"

record webhook =
  webhook_url :: string
  has_webhook_certificate :: bool
  webhook_max_connections :: int
  webhook_ip_address :: string
  webhook_fix_ip_address :: bool
  webhook_secret_token :: string
  allowed_update_types :: "64 word"
  webhook_id :: bool
  webhook_generation :: nat
  webhook_query_type :: webhook_query_type
  webhook_set_query :: "query option"
  active_webhook_set_query :: "query option"
  next_allowed_set_webhook_time :: real
  next_bot_updates_warning_time :: real
  next_get_updates_conflict_time :: real
  last_webhook_error :: "td_error option"
  saved_webhook :: "string option"
  logging_out :: bool
  closing :: bool
  is_api_id_invalid :: bool
  next_authorization_time :: real
  clear_tqueue_flag :: bool

definition new_webhook :: "string option \<Rightarrow> webhook" where
  "new_webhook saved =
     \<lparr>webhook_url = [], has_webhook_certificate = False, webhook_max_connections = 0, webhook_ip_address = [],
      webhook_fix_ip_address = False, webhook_secret_token = [], allowed_update_types = default_allowed_update_types,
      webhook_id = False, webhook_generation = 1, webhook_query_type = Cancel, webhook_set_query = None,
      active_webhook_set_query = None, next_allowed_set_webhook_time = 0, next_bot_updates_warning_time = 0,
      next_get_updates_conflict_time = 0, last_webhook_error = None, saved_webhook = saved, logging_out = False,
      closing = False, is_api_id_invalid = False, next_authorization_time = 0, clear_tqueue_flag = False\<rparr>"

datatype client_message =
    Reply query
  | Reply_Later string query
  | Abort_Long_Poll
  | Clear_Tqueue
  | Set_Allowed_Option "64 word"
  | Copy_Certificate string int
  | Unlink_Certificate td_error
  | Close_Webhook_Actor
  | Start_Webhook_Actor nat string bool int bool string bool string

type_synonym webhook_result = "(webhook \<times> client_message list) option"

subsection \<open>Answers\<close>

definition reply :: "query option \<Rightarrow> client_message list option" where
  "reply q =
     (case q of
        None \<Rightarrow> None
      | Some q \<Rightarrow> if q_is_internal q then Some [] else map_option (\<lambda>q. [Reply q]) (promise_delete q))"

definition fail_query_conflict :: "real \<Rightarrow> string \<Rightarrow> query \<Rightarrow> webhook \<Rightarrow> webhook_result" where
  "fail_query_conflict now message q c =
     (if now \<ge> next_get_updates_conflict_time c
      then map_option (\<lambda>ms. (c\<lparr>next_get_updates_conflict_time := now + 3\<rparr>, ms)) (reply (fail_query 409 message [] q))
      else Some (c, [Reply_Later message q]))"

text \<open>Code, retry delay and message of \<open>get_closing_error\<close>.\<close>

definition get_closing_error :: "real \<Rightarrow> webhook \<Rightarrow> (int \<times> int \<times> string) option" where
  "get_closing_error now c =
     (if logging_out c then
        if is_api_id_invalid c then Some (401, 0, ''Unauthorized: invalid api-id/api-hash'')
        else if next_authorization_time c > 0 then
          let retry = max \<lfloor>next_authorization_time c - now\<rfloor> 0 + 1
          in Some (429, retry, ''Too Many Requests: retry after '' @ show_int retry)
        else if clear_tqueue_flag c then Some (400, 0, ''Logged out'')
        else Some (401, 0, ''Unauthorized'')
      else if closing c then Some (500, 0, ''Internal Server Error: restart'') else None)"

text \<open>
  \<open>fail_query_closing\<close> takes the query by reference: with a delay the answer is only stored in the query, which
  the caller keeps, and its promise gets it when the query is destroyed. The first component is what the caller is left with.
\<close>

definition fail_query_closing :: "real \<Rightarrow> query \<Rightarrow> webhook \<Rightarrow> (query option \<times> client_message list) option" where
  "fail_query_closing now q c =
     (case get_closing_error now c of
        None \<Rightarrow> None
      | Some (code, retry_after, message) \<Rightarrow>
          if retry_after > 0 then map_option (\<lambda>q'. (Some q', [])) (set_retry_after_error retry_after q)
          else map_option (Pair None) (reply (fail_query code message [] q)))"

text \<open>The same for a query that is a parameter of the caller, destroyed when the caller returns.\<close>

definition fail_parameter_closing :: "real \<Rightarrow> query \<Rightarrow> webhook \<Rightarrow> client_message list option" where
  "fail_parameter_closing now q c =
     (case fail_query_closing now q c of
        None \<Rightarrow> None
      | Some (None, ms) \<Rightarrow> Some ms
      | Some (Some q', ms) \<Rightarrow> map_option (\<lambda>ms'. ms @ ms') (reply (Some q')))"

subsection \<open>Arguments\<close>

definition to_bool :: "string \<Rightarrow> bool" where
  "to_bool value0 \<longleftrightarrow> (let v = trim (to_lower value0) in v = ''true'' \<or> v = ''yes'' \<or> v = ''1'')"

definition get_integer_arg :: "query \<Rightarrow> string \<Rightarrow> int \<Rightarrow> int \<Rightarrow> int \<Rightarrow> int" where
  "get_integer_arg q field default_value min_value max_value =
     clamp (if arg q field = [] then default_value else to_integer 32 (arg q field)) min_value max_value"

definition get_webhook_certificate :: "query \<Rightarrow> http_file option" where
  "get_webhook_certificate q =
     (case query_file q ''certificate'' of
        Some f \<Rightarrow> Some f
      | None \<Rightarrow>
          if begins_with (arg q ''certificate'') ''attach://''
          then query_file q (drop (length ''attach://'') (arg q ''certificate'')) else None)"

definition get_webhook_max_connections :: "webhook_params \<Rightarrow> query \<Rightarrow> int" where
  "get_webhook_max_connections p q =
     get_integer_arg q ''max_connections'' (wp_default_max_connections p) 1 (if wp_local_mode p then 100000 else 100)"

definition get_webhook_fix_ip_address :: "query \<Rightarrow> bool" where
  "get_webhook_fix_ip_address q \<longleftrightarrow>
     (if q_is_internal q then has_arg q ''fix_ip_address'' else arg q ''ip_address'' \<noteq> [])"

definition is_base64url_characters :: "string \<Rightarrow> bool" where
  "is_base64url_characters s \<longleftrightarrow>
     list_all (\<lambda>c. c \<in> set ''ABCDEFGHIJKLMNOPQRSTUVWXYZabcdefghijklmnopqrstuvwxyz0123456789-_'') s"

definition update_allowed_update_types :: "query \<Rightarrow> webhook \<Rightarrow> (bool \<times> webhook \<times> client_message list) option" where
  "update_allowed_update_types q c =
     (case get_allowed_update_types (arg q ''allowed_updates'') (q_is_internal q) of
        None \<Rightarrow> None
      | Some t \<Rightarrow>
          if t \<noteq> 0 \<and> t \<noteq> allowed_update_types c
          then Some (True, c\<lparr>allowed_update_types := t\<rparr>, [Set_Allowed_Option t])
          else Some (False, c, []))"

subsection \<open>Saving\<close>

definition webhook_value :: "webhook \<Rightarrow> string" where
  "webhook_value c =
     (if has_webhook_certificate c then ''cert/'' else []) @
     ''#maxc'' @ show_int (webhook_max_connections c) @ ''/'' @
     (if webhook_ip_address c \<noteq> [] then ''#ip'' @ webhook_ip_address c @ ''/'' else []) @
     (if webhook_fix_ip_address c then ''#fix_ip/'' else []) @
     (if webhook_secret_token c \<noteq> [] then ''#secret'' @ webhook_secret_token c @ ''/'' else []) @
     (if allowed_update_types c \<noteq> default_allowed_update_types
      then ''#allow'' @ show_nat (unat (allowed_update_types c)) @ ''/'' else []) @
     webhook_url c"

definition save_webhook :: "webhook \<Rightarrow> webhook" where
  "save_webhook c = c\<lparr>saved_webhook := Some (webhook_value c)\<rparr>"

subsection \<open>Setting\<close>

definition finish_set_webhook :: "webhook_params \<Rightarrow> real \<Rightarrow> query \<Rightarrow> webhook \<Rightarrow> webhook_result" where
  "finish_set_webhook p now q c =
     (if active_webhook_set_query c \<noteq> None \<or> webhook_set_query c \<noteq> None \<or> webhook_url c \<noteq> [] then None
      else if logging_out c \<or> closing c then map_option (Pair c) (fail_parameter_closing now q c)
      else if arg q ''url'' = [] then None
      else
        let c1 = c\<lparr>webhook_url := arg q ''url'', webhook_max_connections := get_webhook_max_connections p q,
                   webhook_secret_token := arg q ''secret_token'', webhook_ip_address := arg q ''ip_address'',
                   webhook_fix_ip_address := get_webhook_fix_ip_address q, last_webhook_error := None\<rparr> in
        case update_allowed_update_types q c1 of
          None \<Rightarrow> None
        | Some (_, c2, ms) \<Rightarrow>
            if \<not> wp_url_ok p (arg q ''url'') then None
            else
              Some (c2\<lparr>webhook_id := True, webhook_query_type := Verify, webhook_set_query := Some q\<rparr>,
                ms @ [Start_Webhook_Actor (webhook_generation c2) (arg q ''url'') (has_webhook_certificate c2)
                  (webhook_max_connections c2) (q_is_internal q) (webhook_ip_address c2) (webhook_fix_ip_address c2)
                  (webhook_secret_token c2)]))"

definition max_certificate_file_size :: int where
  "max_certificate_file_size = 3 * 2 ^ 20"

text \<open>The branch of \<open>do_set_webhook\<close> for a non-empty URL.\<close>

definition do_set_url :: "webhook_params \<Rightarrow> real \<Rightarrow> query \<Rightarrow> webhook \<Rightarrow> webhook_result" where
  "do_set_url p now q c =
     (let fail = (\<lambda>message. map_option (Pair c) (reply (fail_query 400 message [] q))) in
      if \<not> wp_url_ok p (arg q ''url'') then fail ''Bad Request: invalid webhook URL specified''
      else if length (arg q ''secret_token'') > 256 then fail ''Bad Request: secret token is too long''
      else if \<not> is_base64url_characters (arg q ''secret_token'') then
        fail ''Bad Request: secret token contains unallowed characters''
      else if active_webhook_set_query c \<noteq> None then map_option (Pair c) (reply (set_retry_after_error 1 q))
      else if has_webhook_certificate c then None
      else if q_is_internal q then
        finish_set_webhook p now q (c\<lparr>has_webhook_certificate := (arg q ''certificate'' = ''previous'')\<rparr>)
      else
        case get_webhook_certificate q of
          None \<Rightarrow> finish_set_webhook p now q c
        | Some f \<Rightarrow>
            if file_size f > max_certificate_file_size then
              fail (''Bad Request: certificate size is too big ('' @ show_int (file_size f) @ '' bytes)'')
            else if webhook_set_query c \<noteq> None then None
            else Some (c\<lparr>active_webhook_set_query := Some q\<rparr>, [Copy_Certificate (temp_file_name f) (file_size f)]))"

definition do_set_webhook :: "webhook_params \<Rightarrow> real \<Rightarrow> query \<Rightarrow> bool \<Rightarrow> webhook \<Rightarrow> webhook_result" where
  "do_set_webhook p now q was_deleted c =
     (if webhook_url c \<noteq> [] then None
      else if logging_out c \<or> closing c then map_option (Pair c) (fail_parameter_closing now q c)
      else
        let new_url = (if q_method q = ''setwebhook'' then arg q ''url'' else []);
            drops = to_bool (arg q ''drop_pending_updates'') in
        if drops \<and> webhook_id c then None
        else
          map_option (\<lambda>(c', ms). (c', (if drops then [Clear_Tqueue] else []) @ ms))
            (if new_url \<noteq> [] then do_set_url p now q c
             else map_option (Pair c)
               (reply (answer_query (JBoolean True)
                 (if was_deleted then ''Webhook was deleted'' else ''Webhook is already deleted'') q))))"

definition on_webhook_certificate_copied :: "webhook_params \<Rightarrow> real \<Rightarrow> td_error option \<Rightarrow> webhook \<Rightarrow> webhook_result" where
  "on_webhook_certificate_copied p now failed c =
     (case active_webhook_set_query c of
        None \<Rightarrow> None
      | Some q \<Rightarrow>
          let c1 = c\<lparr>active_webhook_set_query := None\<rparr> in
          if failed \<noteq> None then
            map_option (Pair c1) (reply (fail_query 500 ''Internal Server Error: failed to save certificate'' [] q))
          else finish_set_webhook p now q (c1\<lparr>has_webhook_certificate := True\<rparr>))"

text \<open>The new settings a \<open>setWebhook\<close> or \<open>deleteWebhook\<close> query asks for are those of the current webhook.\<close>

definition webhook_not_modified :: "webhook_params \<Rightarrow> query \<Rightarrow> string \<Rightarrow> webhook \<Rightarrow> bool" where
  "webhook_not_modified p q new_url c \<longleftrightarrow>
     (let has_certificate = (new_url \<noteq> [] \<and>
            (get_webhook_certificate q \<noteq> None \<or> q_is_internal q \<and> arg q ''certificate'' = ''previous''));
          fix_ip_address = (new_url \<noteq> [] \<and> get_webhook_fix_ip_address q)
      in webhook_url c = new_url \<and> \<not> has_webhook_certificate c \<and> \<not> has_certificate \<and>
         (if new_url = [] then 0 else get_webhook_max_connections p q) = webhook_max_connections c \<and>
         fix_ip_address = webhook_fix_ip_address c \<and>
         (if new_url = [] then [] else arg q ''secret_token'') = webhook_secret_token c \<and>
         (\<not> fix_ip_address \<or> arg q ''ip_address'' = webhook_ip_address c) \<and>
         \<not> to_bool (arg q ''drop_pending_updates''))"

text \<open>The end of \<open>process_set_webhook_query\<close>: the old webhook is closed first.\<close>

definition replace_webhook :: "webhook_params \<Rightarrow> real \<Rightarrow> query \<Rightarrow> string \<Rightarrow> webhook \<Rightarrow> webhook_result" where
  "replace_webhook p now q new_url c =
     (let aborts = (if new_url \<noteq> [] then [Abort_Long_Poll] else []);
          c1 = c\<lparr>webhook_generation := webhook_generation c + 1\<rparr> in
      if webhook_url c1 \<noteq> [] then
        if active_webhook_set_query c1 \<noteq> None then None
        else Some (c1\<lparr>webhook_id := False, webhook_query_type := Cancel, webhook_set_query := Some q\<rparr>,
               aborts @ (if webhook_id c1 then [Close_Webhook_Actor] else []))
      else map_option (\<lambda>(c', ms). (c', aborts @ ms)) (do_set_webhook p now q False c1))"

definition process_set_webhook_query :: "webhook_params \<Rightarrow> real \<Rightarrow> query \<Rightarrow> webhook \<Rightarrow> webhook_result" where
  "process_set_webhook_query p now q c =
     (let new_url = (if q_method q = ''setwebhook'' then arg q ''url'' else []);
          limited = (new_url \<noteq> [] \<and> \<not> q_is_internal q) in
      if limited \<and> now < next_allowed_set_webhook_time c then map_option (Pair c) (reply (set_retry_after_error 1 q))
      else
        let c1 = (if limited then c\<lparr>next_allowed_set_webhook_time := now + 1\<rparr> else c);
            c2 = c1\<lparr>next_bot_updates_warning_time := max (next_bot_updates_warning_time c1) (now + 30)\<rparr> in
        case webhook_set_query c2 of
          Some old \<Rightarrow>
            (case fail_query_conflict now ''Conflict: terminated by other setWebhook'' old (c2\<lparr>webhook_set_query := None\<rparr>) of
               None \<Rightarrow> None
             | Some (c3, ms) \<Rightarrow> map_option (\<lambda>(c', ms'). (c', ms @ ms')) (replace_webhook p now q new_url c3))
        | None \<Rightarrow>
            if active_webhook_set_query c2 \<noteq> None then map_option (Pair c2) (reply (set_retry_after_error 1 q))
            else if webhook_not_modified p q new_url c2 then
              case update_allowed_update_types q c2 of
                None \<Rightarrow> None
              | Some (changed, c3, ms) \<Rightarrow>
                  map_option (\<lambda>ms'. (if changed then save_webhook c3 else c3, ms @ ms'))
                    (reply (answer_query (JBoolean True)
                      (if new_url = [] then ''Webhook is already deleted'' else ''Webhook is already set'') q))
            else replace_webhook p now q new_url c2)"

subsection \<open>The webhook actor\<close>

definition webhook_verified :: "nat \<Rightarrow> string \<Rightarrow> webhook \<Rightarrow> webhook_result" where
  "webhook_verified link_token cached_ip_address c =
     (if link_token \<noteq> webhook_generation c then Some (c, [])
      else
        let c1 = c\<lparr>webhook_ip_address := cached_ip_address, webhook_set_query := None\<rparr> in
        case webhook_set_query c of
          Some q \<Rightarrow>
            map_option (Pair (save_webhook c1)) (reply (answer_query (JBoolean True) ''Webhook was set'' q))
        | None \<Rightarrow> Some (if cached_ip_address \<noteq> webhook_ip_address c then save_webhook c1 else c1, []))"

definition on_webhook_closed :: "webhook_params \<Rightarrow> real \<Rightarrow> string \<Rightarrow> webhook \<Rightarrow> webhook_result" where
  "on_webhook_closed p now message c =
     (let c1 = c\<lparr>webhook_id := False, webhook_url := [], has_webhook_certificate := False, webhook_max_connections := 0,
                 webhook_ip_address := [], webhook_fix_ip_address := False, webhook_secret_token := [],
                 last_webhook_error := None, saved_webhook := None\<rparr> in
      case webhook_set_query c of
        None \<Rightarrow> Some (c1, [])
      | Some q \<Rightarrow>
          let c2 = c1\<lparr>webhook_set_query := None\<rparr> in
          if webhook_query_type c = Verify
          then map_option (Pair c2) (reply (fail_query 400 (''Bad Request: bad webhook: '' @ message) [] q))
          else do_set_webhook p now q True c2)"

text \<open>\<open>webhook_closed\<close>: the certificate is deleted in the background first, which then calls \<open>on_webhook_closed\<close>.\<close>

definition webhook_closed :: "webhook_params \<Rightarrow> real \<Rightarrow> td_error \<Rightarrow> webhook \<Rightarrow> webhook_result" where
  "webhook_closed p now status c =
     (if has_webhook_certificate c then Some (c, [Unlink_Certificate status])
      else on_webhook_closed p now (err_message status) c)"

text \<open>The part of \<open>on_closed\<close> about webhooks.\<close>

definition webhook_on_closed :: "real \<Rightarrow> webhook \<Rightarrow> webhook_result" where
  "webhook_on_closed now c =
     (if \<not> logging_out c \<and> \<not> closing c then None
      else
        case (case webhook_set_query c of None \<Rightarrow> Some (None, []) | Some q \<Rightarrow> fail_query_closing now q c) of
          None \<Rightarrow> None
        | Some (left, ms) \<Rightarrow>
            map_option (\<lambda>(active_left, ms'). (c\<lparr>webhook_set_query := left, active_webhook_set_query := active_left,
                webhook_id := (if webhook_url c \<noteq> [] then False else webhook_id c),
                saved_webhook := (if logging_out c then None else saved_webhook c)\<rparr>, ms @ ms'))
              (case active_webhook_set_query c of None \<Rightarrow> Some (None, []) | Some q \<Rightarrow> fail_query_closing now q c))"

end
