(* ===== verification/Client_Manager_Proofs.thy ===== *)
theory Client_Manager_Proofs
  imports Client_Manager
begin

section \<open>Correctness of the client manager\<close>

text \<open>
  The manager as a transition system: the messages it handles, what their senders guarantee, and the
  invariants of the states it reaches. The proofs use the object table through the locale
  \<open>id_store\<close> (its interpretation \<open>ids\<close>), the flood control through \<open>flood_ok\<close> and the queues
  through \<open>tq_inv\<close>.
\<close>

subsection \<open>Messages and their protocol\<close>

datatype cm_event =
    Query_Event query
  | Stream_Event bool int string bool string int string
  | Release_Event int
  | Stream_Timeout_Event bool
  | Login_Event "64 word"
  | Leave_Event "64 word"
  | Hangup_Event "64 word"
  | Timer_Event "nat \<Rightarrow> bool" "nat \<Rightarrow> bool"
  | Db_Closed_Event
  | Close_Event nat

fun cm_handle :: "cm_params \<Rightarrow> real \<Rightarrow> real \<Rightarrow> cm_event \<Rightarrow> client_manager \<Rightarrow> cm_result" where
  "cm_handle p t t' (Query_Event q) s = send p t t' q s"
| "cm_handle p t t' (Stream_Event emergency sid token test fid expected ip) s =
     send_file_stream p emergency t t' sid token test fid expected ip s"
| "cm_handle p t t' (Release_Event sid) s = Some (release_file_stream sid s, [])"
| "cm_handle p t t' (Stream_Timeout_Event first_byte) s = Some (on_file_stream_timeout first_byte s, [])"
| "cm_handle p t t' (Login_Event ident) s = client_raw_event ident True s"
| "cm_handle p t t' (Leave_Event ident) s = client_raw_event ident False s"
| "cm_handle p t t' (Hangup_Event ident) s = hangup_shared ident s"
| "cm_handle p t t' (Timer_Event tick tock) s = cm_timeout_expired p tick tock t t' s"
| "cm_handle p t t' Db_Closed_Event s = Some (finish_close s)"
| "cm_handle p t t' (Close_Event n) s = close n s"

text \<open>
  What the history fixes: the last reading of the clock, the clients that exist, those that
  reported their login and did not leave yet, the streams seen, the promises handed to \<open>close\<close>, and
  every message sent.
\<close>

record history =
  h_time :: real
  h_present :: "64 word set"
  h_logged :: "64 word set"
  h_streams :: "int set"
  h_requested :: "nat list"
  h_sent :: "cm_message list"

fun created :: "cm_message \<Rightarrow> 64 word list" where
  "created (Create_Client ident _ _ _) = [ident]"
| "created _ = []"

fun released :: "cm_message \<Rightarrow> 64 word list" where
  "released (Client_Release ident) = [ident]"
| "released _ = []"

fun resolved :: "cm_message \<Rightarrow> nat list" where
  "resolved (Resolve_Promise n) = [n]"
| "resolved _ = []"

definition record_event :: "real \<Rightarrow> cm_event \<Rightarrow> cm_message list \<Rightarrow> history \<Rightarrow> history" where
  "record_event t' e ms h =
     h\<lparr>h_time := t',
       h_present := h_present h \<union> set (concat (map created ms)) - set (concat (map released ms)),
       h_logged := (case e of Login_Event i \<Rightarrow> insert i (h_logged h) | Leave_Event i \<Rightarrow> h_logged h - {i} | _ \<Rightarrow> h_logged h),
       h_streams := (case e of Stream_Event _ sid _ _ _ _ _ \<Rightarrow> insert sid (h_streams h) | _ \<Rightarrow> h_streams h),
       h_requested := (case e of Close_Event n \<Rightarrow> h_requested h @ [n] | _ \<Rightarrow> h_requested h),
       h_sent := h_sent h @ ms\<rparr>"

text \<open>
  What the senders guarantee: a query is unanswered, a connection announces itself once under a fresh
  number, a client exists until it hangs up, reports its login and its leaving in turn, and does not
  hang up while logged in.
\<close>

fun legal :: "cm_event \<Rightarrow> history \<Rightarrow> bool" where
  "legal (Query_Event q) h \<longleftrightarrow> q_state q = State_Query"
| "legal (Stream_Event _ sid _ _ _ _ _) h \<longleftrightarrow> sid \<notin> h_streams h"
| "legal (Login_Event i) h \<longleftrightarrow> i \<in> h_present h \<and> i \<notin> h_logged h"
| "legal (Leave_Event i) h \<longleftrightarrow> i \<in> h_logged h"
| "legal (Hangup_Event i) h \<longleftrightarrow> i \<in> h_present h \<and> i \<notin> h_logged h"
| "legal (Timer_Event tick tock) h \<longleftrightarrow> (\<forall>c. tick c \<longrightarrow> tock c)"
| "legal Db_Closed_Event h \<longleftrightarrow> Close_Tqueue \<in> set (h_sent h)"
| "legal _ h \<longleftrightarrow> True"

definition initial_history :: "real \<Rightarrow> cm_message list \<Rightarrow> history" where
  "initial_history t ms = \<lparr>h_time = t, h_present = {}, h_logged = {}, h_streams = {}, h_requested = [], h_sent = ms\<rparr>"

text \<open>
  Reachable states. The table of clients never grows to \<open>2 ^ 31\<close> slots; an actor that called \<open>stop\<close>
  handles nothing more. The clients work on the shared queues and webhooks between two messages.
\<close>

inductive cm_reach :: "cm_params \<Rightarrow> client_manager \<Rightarrow> history \<Rightarrow> bool" for p where
  start: "0 \<le> t \<Longrightarrow> tq_inv recovered \<Longrightarrow> cm_start_up p t recovered saved difference = (s, ms) \<Longrightarrow>
    cm_reach p s (initial_history t ms)"
| handle: "cm_reach p s h \<Longrightarrow> \<not> close_finished s \<Longrightarrow> legal e h \<Longrightarrow> h_time h \<le> t \<Longrightarrow> t \<le> t' \<Longrightarrow>
    container_room (clients s) \<Longrightarrow> cm_handle p t t' e s = Some (s', ms) \<Longrightarrow> cm_reach p s' (record_event t' e ms h)"
| clients_work: "cm_reach p s h \<Longrightarrow> tq_inv q \<Longrightarrow>
    cm_reach p (s\<lparr>shared_tqueue := q, webhook_db := db, unix_time_difference := d\<rparr>) h"

subsection \<open>Flood controls\<close>

definition ip_limits :: "(real \<times> real) list" where
  "ip_limits = [(60, 20), (3600, 600)]"

definition global_limits :: "(real \<times> real) list" where
  "global_limits = [(60, 1000), (3600, 10000)]"

definition flood_inv :: "real \<Rightarrow> client_manager \<Rightarrow> bool" where
  "flood_inv t s \<longleftrightarrow> 0 \<le> t \<and> (\<forall>key fc. flood_controls s key = Some fc \<longrightarrow> flood_ok ip_limits t fc) \<and>
     (if is_global_flood_control_enabled s then flood_ok global_limits t (global_flood_control s)
      else global_flood_control s = new_flood_control)"

lemma limits_ok_used [simp]: "limits_ok ip_limits" "limits_ok global_limits"
  by (simp_all add: limits_ok_def ip_limits_def global_limits_def)

lemma ip_flood_control_ok: "0 \<le> t \<Longrightarrow> flood_ok ip_limits t ip_flood_control"
  using flood_ok_mono [OF flood_ok_initial [of ip_limits], of t]
  by (simp add: flood_control_of_def ip_limits_def ip_flood_control_def limits_ok_def)

lemma flood_inv_mono: "flood_inv t s \<Longrightarrow> t \<le> t' \<Longrightarrow> flood_inv t' s"
  by (auto simp: flood_inv_def intro: flood_ok_mono split: if_splits)

lemma check_ip_flood_ok:
  assumes "flood_inv t0 s" and "t0 \<le> t"
  shows "\<exists>r fcs. check_ip_flood p ip t s = Some (r, s\<lparr>flood_controls := fcs\<rparr>) \<and> flood_inv t (s\<lparr>flood_controls := fcs\<rparr>)"
proof (cases "ip = []")
  case True
  then show ?thesis
    using flood_inv_mono [OF assms] by (auto simp: check_ip_flood_def intro!: exI [of _ "flood_controls s"])
next
  case False
  define key where "key = (case p_norm_ip p ip of None \<Rightarrow> ip | Some ip' \<Rightarrow> ip')"
  define fc where "fc = (case flood_controls s key of None \<Rightarrow> ip_flood_control | Some fc \<Rightarrow> fc)"
  have inv: "flood_inv t s" by (rule flood_inv_mono [OF assms])
  then have ok: "flood_ok ip_limits t fc" "0 \<le> t"
    using ip_flood_control_ok [of t] by (auto simp: fc_def flood_inv_def split: option.splits)
  show ?thesis
  proof (cases "wakeup_at fc > t")
    case True
    then show ?thesis
      using False inv ok
      by (intro exI [of _ "Some (wakeup_at fc)"] exI [of _ "(flood_controls s)(key \<mapsto> fc)"])
        (auto simp: check_ip_flood_def Let_def key_def [symmetric] fc_def [symmetric] flood_inv_def)
  next
    case wake: False
    then obtain fc' where "flood_add_event t fc = Some fc'" "flood_ok ip_limits t fc'"
      using flood_add_event_ok [OF ok(1) limits_ok_used(1) order_refl] by auto
    then show ?thesis
      using False wake inv ok
      by (intro exI [of _ None] exI [of _ "(flood_controls s)(key \<mapsto> fc')"])
        (auto simp: check_ip_flood_def Let_def key_def [symmetric] fc_def [symmetric] flood_inv_def)
  qed
qed

lemma check_global_flood_ok:
  assumes "flood_inv t0 s" and "t0 \<le> t"
  shows "\<exists>r g. check_global_flood t s = Some (r, s\<lparr>global_flood_control := g\<rparr>) \<and>
    flood_inv t (s\<lparr>global_flood_control := g\<rparr>)"
proof -
  have inv: "flood_inv t s" by (rule flood_inv_mono [OF assms])
  consider (off) "\<not> is_global_flood_control_enabled s" | (wait) "is_global_flood_control_enabled s"
      "wakeup_at (global_flood_control s) > t"
    | (go) fc' where "is_global_flood_control_enabled s" "wakeup_at (global_flood_control s) \<le> t"
        "flood_add_event t (global_flood_control s) = Some fc'" "flood_ok global_limits t fc'"
    using inv flood_add_event_ok [OF _ limits_ok_used(2) order_refl, of t "global_flood_control s"]
    by (fastforce simp: flood_inv_def split: if_splits)
  then show ?thesis
  proof cases
    case go
    then show ?thesis using inv by (auto simp: check_global_flood_def flood_inv_def)
  qed (use inv in \<open>auto simp: check_global_flood_def intro!: exI [of _ "global_flood_control s"]\<close>)
qed

lemma check_flood_ok:
  assumes "flood_inv t0 s" and "t0 \<le> t" and "t \<le> t'"
  shows "\<exists>r fcs g. check_flood p ip t t' s = Some (r, s\<lparr>flood_controls := fcs, global_flood_control := g\<rparr>) \<and>
    flood_inv t' (s\<lparr>flood_controls := fcs, global_flood_control := g\<rparr>)"
proof -
  from check_ip_flood_ok [OF assms(1,2)] obtain r fcs where
    ip: "check_ip_flood p ip t s = Some (r, s\<lparr>flood_controls := fcs\<rparr>)" "flood_inv t (s\<lparr>flood_controls := fcs\<rparr>)" by blast
  show ?thesis
  proof (cases r)
    case None
    from check_global_flood_ok [OF ip(2) assms(3)] obtain r' g where
      "check_global_flood t' (s\<lparr>flood_controls := fcs\<rparr>) =
        Some (r', s\<lparr>flood_controls := fcs, global_flood_control := g\<rparr>)"
      "flood_inv t' (s\<lparr>flood_controls := fcs, global_flood_control := g\<rparr>)" by blast
    with ip None show ?thesis
      by (intro exI [of _ "map_option (\<lambda>w. (w, t')) r'"] exI [of _ fcs] exI [of _ g]) (simp add: check_flood_def)
  next
    case (Some w)
    then show ?thesis
      using ip flood_inv_mono [OF ip(2) assms(3)]
      by (intro exI [of _ "Some (w, t)"] exI [of _ fcs] exI [of _ "global_flood_control s"])
        (simp add: check_flood_def)
  qed
qed

subsection \<open>Clients\<close>

definition login_count :: "(64 word \<rightharpoonup> client_info) \<Rightarrow> 64 word set \<Rightarrow> int \<Rightarrow> nat" where
  "login_count m logged x = card {ident \<in> logged. \<exists>info. m ident = Some info \<and> ci_tqueue_id info = x}"

definition count_of :: "(int \<times> nat) list \<Rightarrow> int \<Rightarrow> nat" where
  "count_of counts x = (case map_of counts x of None \<Rightarrow> 0 | Some n \<Rightarrow> n)"

text \<open>
  The clients: the table holds one client per known token and no other, and the login counters
  count the clients that are logged in, by queue.
\<close>

definition client_rel :: "client_manager \<Rightarrow> 64 word list \<Rightarrow> (64 word \<rightharpoonup> client_info) \<Rightarrow> 64 word set \<Rightarrow> bool" where
  "client_rel s issued m logged \<longleftrightarrow>
     container_rel (clients s) issued m \<and> logged \<subseteq> dom m \<and>
     (\<forall>key ident. token_to_id s key = Some ident \<longleftrightarrow> (\<exists>info. m ident = Some info \<and> ci_token info = key)) \<and>
     (\<forall>ident info. m ident = Some info \<longrightarrow> ci_tqueue_id info \<noteq> 0) \<and>
     (\<forall>x. count_of (active_client_count s) x = login_count m logged x) \<and>
     (\<forall>x. map_of (active_client_count s) x \<noteq> Some 0)"

definition client_inv :: "client_manager \<Rightarrow> 64 word set \<Rightarrow> 64 word set \<Rightarrow> bool" where
  "client_inv s present logged \<longleftrightarrow> (\<exists>issued m. client_rel s issued m logged \<and> dom m = present)"

lemma client_invI: "client_rel s issued m logged \<Longrightarrow> dom m = present \<Longrightarrow> client_inv s present logged"
  by (auto simp: client_inv_def)

lemma client_inv_cong:
  "clients s' = clients s \<Longrightarrow> token_to_id s' = token_to_id s \<Longrightarrow> active_client_count s' = active_client_count s \<Longrightarrow>
    client_inv s' present logged = client_inv s present logged"
  by (simp add: client_inv_def client_rel_def)

lemma client_rel_get:
  assumes "client_rel s issued m logged" and "m ident = Some info"
  shows "container_get (clients s) ident = Some info"
proof -
  have rel: "container_rel (clients s) issued m" using assms(1) by (simp add: client_rel_def)
  then have "ident \<in> set issued" using ids.rel_dom [OF rel] assms(2) by auto
  then show ?thesis using ids.rel_get [OF rel] assms(2) by simp
qed

lemma client_rel_token:
  assumes "client_rel s issued m logged" and "token_to_id s key = Some ident"
  shows "\<exists>info. m ident = Some info \<and> container_get (clients s) ident = Some info \<and> ci_token info = key"
proof -
  obtain info where "m ident = Some info" "ci_token info = key" using assms by (auto simp: client_rel_def)
  with client_rel_get [OF assms(1)] show ?thesis by blast
qed

lemma client_rel_known: "client_rel s issued m logged \<Longrightarrow> m ident = Some info \<Longrightarrow> token_to_id s (ci_token info) = Some ident"
  by (auto simp: client_rel_def)

lemma client_rel_finite: "client_rel s issued m logged \<Longrightarrow> finite logged"
  using ids.rel_dom [of "clients s" issued m] by (auto simp: client_rel_def intro: finite_subset)

lemma login_count_other: "ident \<notin> logged \<Longrightarrow> login_count (m(ident := v)) logged = login_count m logged"
  unfolding login_count_def by (intro ext arg_cong [where f = card]) auto

lemma login_count_insert:
  assumes "finite logged" and "ident \<notin> logged" and "m ident = Some info"
  shows "login_count m (insert ident logged) x = login_count m logged x + (if ci_tqueue_id info = x then 1 else 0)"
proof (cases "ci_tqueue_id info = x")
  case True
  then have "{i \<in> insert ident logged. \<exists>info. m i = Some info \<and> ci_tqueue_id info = x} =
      insert ident {i \<in> logged. \<exists>info. m i = Some info \<and> ci_tqueue_id info = x}" using assms by auto
  then show ?thesis using assms True by (simp add: login_count_def)
next
  case False
  then have "{i \<in> insert ident logged. \<exists>info. m i = Some info \<and> ci_tqueue_id info = x} =
      {i \<in> logged. \<exists>info. m i = Some info \<and> ci_tqueue_id info = x}" using assms by auto
  then show ?thesis using False by (simp add: login_count_def)
qed

lemma create_client_ok:
  assumes rel: "client_rel s issued m logged" and room: "container_room (clients s)"
    and new: "token_to_id s (token_key token test) = None" and pos: "0 < user_id"
  shows "\<exists>ident c info. create_client token test user_id s =
      Some (ident, s\<lparr>clients := c\<rparr>, [Create_Client ident token test (get_tqueue_id user_id test)]) \<and>
    add_token (token_key token test) ident (s\<lparr>clients := c\<rparr>) =
      s\<lparr>clients := c, token_to_id := (token_to_id s)(token_key token test \<mapsto> ident)\<rparr> \<and>
    ident \<notin> dom m \<and> ci_token info = token_key token test \<and> container_get c ident = Some info \<and>
    client_rel (s\<lparr>clients := c, token_to_id := (token_to_id s)(token_key token test \<mapsto> ident)\<rparr>) (ident # issued)
      (m(ident \<mapsto> info)) logged"
proof -
  let ?info = "\<lparr>ci_token = token_key token test, ci_tqueue_id = get_tqueue_id user_id test\<rparr>"
  have c: "container_rel (clients s) issued m" using rel by (simp add: client_rel_def)
  from ids.rel_create [OF c room, of ?info 0] obtain ident c' where
    create: "container_create ?info 0 (clients s) = Some (ident, c')" and fresh: "ident \<notin> set issued"
    and rel': "container_rel c' (ident # issued) (m(ident \<mapsto> ?info))" by blast
  have get: "container_get c' ident = Some ?info" using ids.create_get(1) [OF c room create] .
  have dom: "ident \<notin> dom m" using fresh ids.rel_dom [OF c] by auto
  then have "ident \<notin> logged" using rel by (auto simp: client_rel_def)
  then have "login_count (m(ident \<mapsto> ?info)) logged = login_count m logged" by (rule login_count_other)
  moreover have "token_to_id s key \<noteq> Some ident" for key using rel dom by (auto simp: client_rel_def)
  moreover have "ci_token info \<noteq> token_key token test" if "m i = Some info" for i info
    using client_rel_known [OF rel that] new by auto
  ultimately have "client_rel (s\<lparr>clients := c', token_to_id := (token_to_id s)(token_key token test \<mapsto> ident)\<rparr>)
      (ident # issued) (m(ident \<mapsto> ?info)) logged"
    using rel rel' dom pos by (auto simp: client_rel_def get_tqueue_id_def)
  then show ?thesis
    using create get dom new
    by (intro exI [of _ ident] exI [of _ c'] exI [of _ ?info]) (simp add: create_client_def add_token_def)
qed

lemma login_ok:
  assumes "client_inv s present logged" and "ident \<in> present" and "ident \<notin> logged"
  shows "\<exists>counts. client_raw_event ident True s = Some (s\<lparr>active_client_count := counts\<rparr>, []) \<and>
    client_inv (s\<lparr>active_client_count := counts\<rparr>) present (insert ident logged)"
proof -
  from assms(1) obtain issued m where rel: "client_rel s issued m logged" and dom: "dom m = present"
    by (auto simp: client_inv_def)
  obtain info where m: "m ident = Some info" using dom assms(2) by blast
  let ?x = "ci_tqueue_id info"
  let ?counts = "AList.update ?x (count_of (active_client_count s) ?x + 1) (active_client_count s)"
  have "client_rel (s\<lparr>active_client_count := ?counts\<rparr>) issued m (insert ident logged)"
    using rel m login_count_insert [of logged ident m info] client_rel_finite [OF rel] assms(3)
    by (auto simp: client_rel_def count_of_def update_conv)
  moreover have "client_raw_event ident True s = Some (s\<lparr>active_client_count := ?counts\<rparr>, [])"
    using client_rel_get [OF rel m] rel m by (auto simp: client_raw_event_def client_rel_def count_of_def Let_def)
  ultimately show ?thesis using client_invI [OF _ dom] by blast
qed

lemma leave_ok:
  assumes "client_inv s present logged" and "ident \<in> logged"
  shows "\<exists>counts. client_raw_event ident False s = Some (s\<lparr>active_client_count := counts\<rparr>, []) \<and>
    client_inv (s\<lparr>active_client_count := counts\<rparr>) present (logged - {ident})"
proof -
  from assms(1) obtain issued m where rel: "client_rel s issued m logged" and dom: "dom m = present"
    by (auto simp: client_inv_def)
  obtain info where m: "m ident = Some info" using rel assms(2) by (auto simp: client_rel_def)
  let ?x = "ci_tqueue_id info" and ?n = "count_of (active_client_count s) (ci_tqueue_id info)"
  let ?counts = "if ?n = 1 then AList.delete ?x (active_client_count s)
    else AList.update ?x (?n - 1) (active_client_count s)"
  have cnt: "login_count m logged x = login_count m (logged - {ident}) x + (if ?x = x then 1 else 0)" for x
    using login_count_insert [of "logged - {ident}" ident m info x] client_rel_finite [OF rel] m assms(2)
    by (simp add: insert_absorb)
  then have pos: "?n \<noteq> 0" using rel by (auto simp: client_rel_def)
  have "count_of ?counts x = login_count m (logged - {ident}) x" for x
    using rel cnt [of x] pos by (auto simp: client_rel_def count_of_def update_conv delete_conv)
  moreover have "map_of ?counts x \<noteq> Some 0" for x
    using rel pos by (auto simp: client_rel_def update_conv delete_conv)
  ultimately have "client_rel (s\<lparr>active_client_count := ?counts\<rparr>) issued m (logged - {ident})"
    using rel by (auto simp: client_rel_def)
  moreover have "client_raw_event ident False s = Some (s\<lparr>active_client_count := ?counts\<rparr>, [])"
    using client_rel_get [OF rel m] rel m pos by (auto simp: client_raw_event_def client_rel_def count_of_def Let_def)
  ultimately show ?thesis using client_invI [OF _ dom] by blast
qed


lemma container_empty_dom:
  assumes rel: "container_rel c issued m" and empty: "container_empty c"
  shows "dom m = {}"
proof (rule ccontr)
  assume "dom m \<noteq> {}"
  then obtain ident where "ident \<in> dom m" by blast
  have len: "length (slots c) < 2 ^ 31" using rel by (simp add: container_rel_def)
  have "ident \<in> set issued" "container_get c ident = m ident"
    using rel \<open>ident \<in> dom m\<close> by (auto simp: container_rel_def)
  with \<open>ident \<in> dom m\<close> have lt: "id_slot ident < length (slots c)"
    and "generation (slots c ! id_slot ident) = ucast ident"
    by (auto simp: container_get_small [OF len] split: if_splits)
  with \<open>ident \<in> set issued\<close> have "id_slot ident \<notin> set (empty_slots c)"
    using rel by (auto simp: container_rel_def id_epoch_def)
  then have "set (empty_slots c) \<subset> {..<length (slots c)}" using rel lt by (auto simp: container_rel_def)
  then have "card (set (empty_slots c)) < length (slots c)" using psubset_card_mono [of "{..<length (slots c)}"] by auto
  moreover have "length (empty_slots c) = card (set (empty_slots c))"
    using rel by (simp add: container_rel_def distinct_card)
  ultimately show False using empty by (simp add: container_empty_def container_size_def)
qed

lemma hangup_ok:
  assumes "client_inv s present logged" and "ident \<in> present" and "ident \<notin> logged"
  shows "\<exists>c tokens s' ms. hangup_shared ident s = Some (s', Client_Release ident # ms) \<and>
    client_inv (s\<lparr>token_to_id := tokens, clients := c\<rparr>) (present - {ident}) logged \<and>
    (s' = s\<lparr>token_to_id := tokens, clients := c\<rparr> \<and> ms = [] \<or>
     close_flag s \<and> (s', ms) = close_db (s\<lparr>token_to_id := tokens, clients := c\<rparr>))"
proof -
  from assms(1) obtain issued m where rel: "client_rel s issued m logged" and dom: "dom m = present"
    by (auto simp: client_inv_def)
  have crel: "container_rel (clients s) issued m" using rel by (simp add: client_rel_def)
  obtain info where m: "m ident = Some info" using dom assms(2) by blast
  define c where "c = container_erase no_client ident (clients s)"
  define tokens where "tokens = (token_to_id s)(ci_token info := None)"
  let ?s = "s\<lparr>token_to_id := tokens, clients := c\<rparr>"
  have get: "container_get (clients s) ident = Some info" using client_rel_get [OF rel m] .
  have crel': "container_rel c issued (m(ident := None))"
    using ids.rel_erase [OF crel] ids.rel_dom [OF crel] m by (auto simp: c_def)
  have same: "i = ident" if "m i = Some info'" "ci_token info' = ci_token info" for i info'
    using client_rel_known [OF rel that(1)] client_rel_known [OF rel m] that(2) by simp
  have tok: "tokens key = Some i \<longleftrightarrow> (\<exists>info. (m(ident := None)) i = Some info \<and> ci_token info = key)" for key i
  proof (cases "key = ci_token info")
    case True
    then show ?thesis using same by (auto simp: tokens_def)
  next
    case False
    have "token_to_id s key = Some i \<longleftrightarrow> (\<exists>info. m i = Some info \<and> ci_token info = key)"
      using rel by (simp add: client_rel_def)
    then show ?thesis using False m by (auto simp: tokens_def)
  qed
  have rel': "client_rel ?s issued (m(ident := None)) logged"
    using rel crel' tok assms(3) by (auto simp: client_rel_def login_count_other)
  have inv: "client_inv ?s (present - {ident}) logged" by (rule client_invI [OF rel']) (use dom in auto)
  have "active_client_count s = []" if "container_empty c"
  proof -
    have "logged \<subseteq> dom (m(ident := None))" using rel' unfolding client_rel_def by blast
    then have "logged = {}" unfolding container_empty_dom [OF crel' that] by simp
    then have "count_of (active_client_count s) x = 0" for x using rel' by (simp add: client_rel_def login_count_def)
    moreover have "map_of (active_client_count s) x \<noteq> Some 0" for x using rel by (simp add: client_rel_def)
    ultimately have "map_of (active_client_count s) x = None" for x
      unfolding count_of_def by (metis not_None_eq option.simps(5))
    then have "map_of (active_client_count s) = Map.empty" by (rule ext)
    then show ?thesis by simp
  qed
  then have "hangup_shared ident s =
      (if close_flag s \<and> container_empty c
       then Some (fst (close_db ?s), Client_Release ident # snd (close_db ?s)) else Some (?s, [Client_Release ident]))"
    by (simp add: hangup_shared_def get c_def [symmetric] tokens_def [symmetric] Let_def case_prod_beta)
  with inv show ?thesis
    by (intro exI [of _ c] exI [of _ tokens]) (auto simp: prod_eq_iff)
qed


subsection \<open>File streams\<close>

definition streams_of :: "client_manager \<Rightarrow> string \<Rightarrow> int set" where
  "streams_of s key = {sid \<in> active_file_stream_ids s. active_file_stream_token s sid = Some key}"

definition quota_inv :: "cm_params \<Rightarrow> client_manager \<Rightarrow> int set \<Rightarrow> bool" where
  "quota_inv p s seen \<longleftrightarrow>
     finite (active_file_stream_ids s) \<and> active_file_stream_ids s \<subseteq> seen \<and>
     dom (active_file_stream_token s) = active_file_stream_ids s \<and>
     (\<forall>key. stream_count s key = int (card (streams_of s key))) \<and>
     (\<forall>key n. active_file_streams_by_token s key = Some n \<longrightarrow> 0 < n) \<and>
     (\<forall>key. stream_count s key \<le> per_bot_limit p) \<and>
     (0 \<le> p_max_connections p \<and> p_max_connections p < 2 ^ 31 \<longrightarrow>
        int (card (active_file_stream_ids s)) \<le> p_max_connections p)"

lemma quota_inv_cong:
  "active_file_stream_ids s' = active_file_stream_ids s \<Longrightarrow> active_file_stream_token s' = active_file_stream_token s \<Longrightarrow>
    active_file_streams_by_token s' = active_file_streams_by_token s \<Longrightarrow> quota_inv p s' seen = quota_inv p s seen"
  by (simp add: quota_inv_def stream_count_def streams_of_def)

lemma quota_inv_mono: "quota_inv p s seen \<Longrightarrow> seen \<subseteq> seen' \<Longrightarrow> quota_inv p s seen'"
  by (auto simp: quota_inv_def)

lemma admit_quota_inv:
  assumes inv: "quota_inv p s seen" and fresh: "sid \<notin> seen"
    and room: "int (card (active_file_stream_ids s)) < p_max_connections p mod 2 ^ 64"
    and quota: "stream_count s key < per_bot_limit p"
    and adm: "admit_stream ident sid key fid expected s = Some (s', ms)"
  shows "quota_inv p s' (insert sid seen)"
proof -
  have new: "sid \<notin> active_file_stream_ids s" "active_file_stream_token s sid = None"
    using inv fresh by (auto simp: quota_inv_def)
  have s': "active_file_stream_ids s' = insert sid (active_file_stream_ids s)"
    "active_file_stream_token s' = (active_file_stream_token s)(sid \<mapsto> key)"
    "active_file_streams_by_token s' = (active_file_streams_by_token s)(key \<mapsto> stream_count s key + 1)"
    using adm by (auto simp: admit_stream_def split: option.splits)
  have of_key: "streams_of s' k = (if k = key then insert sid (streams_of s k) else streams_of s k)" for k
    using new s' by (auto simp: streams_of_def)
  have fin: "finite (streams_of s k)" for k using inv by (auto simp: quota_inv_def streams_of_def)
  have "stream_count s' k = (if k = key then stream_count s k + 1 else stream_count s k)" for k
    by (simp add: stream_count_def s')
  moreover have "0 \<le> stream_count s k" for k using inv by (simp add: quota_inv_def)
  moreover have "sid \<notin> streams_of s k" for k using new by (auto simp: streams_of_def)
  ultimately show ?thesis
    using inv quota room new s' of_key fin by (auto simp: quota_inv_def add_pos_nonneg add_nonneg_pos)
qed

lemma release_file_stream_inv:
  assumes inv: "quota_inv p s seen"
  shows "quota_inv p (release_file_stream sid s) seen"
proof (cases "active_file_stream_token s sid")
  case None
  then have "sid \<notin> active_file_stream_ids s" using inv by (auto simp: quota_inv_def)
  then show ?thesis
    using None quota_inv_cong [of "release_file_stream sid s" s p seen] inv by (simp add: release_file_stream_def Let_def)
next
  case (Some key)
  then have sid: "sid \<in> active_file_stream_ids s" using inv by (auto simp: quota_inv_def)
  have fin: "finite (streams_of s k)" for k using inv by (auto simp: quota_inv_def streams_of_def)
  have mem: "sid \<in> streams_of s key" using Some sid by (simp add: streams_of_def)
  then have card: "int (card (streams_of s key)) = int (card (streams_of s key - {sid})) + 1"
    using fin [of key] by (metis Suc_eq_plus1 card_Suc_Diff1 of_nat_1 of_nat_add)
  have count: "stream_count s k = int (card (streams_of s k))" for k using inv by (simp add: quota_inv_def)
  then have n: "active_file_streams_by_token s key = Some (stream_count s key)" "0 < stream_count s key"
    using count [of key] card
    by (cases "active_file_streams_by_token s key"; simp add: stream_count_def)+
  let ?s = "release_file_stream sid s"
  have s': "active_file_stream_ids ?s = active_file_stream_ids s - {sid}"
    "active_file_stream_token ?s = (active_file_stream_token s)(sid := None)"
    "active_file_streams_by_token ?s =
      (if stream_count s key - 1 \<le> 0 then (active_file_streams_by_token s)(key := None)
       else (active_file_streams_by_token s)(key \<mapsto> stream_count s key - 1))"
    using Some n by (auto simp: release_file_stream_def Let_def)
  have of_key: "streams_of ?s k = (if k = key then streams_of s k - {sid} else streams_of s k)" for k
    using Some by (auto simp: streams_of_def s')
  have count': "stream_count ?s k = (if k = key then stream_count s k - 1 else stream_count s k)" for k
    using n by (auto simp: stream_count_def s')
  have "stream_count ?s k = int (card (streams_of ?s k))" for k
    using count [of k] card by (simp only: count' of_key) simp
  moreover have "stream_count ?s k \<le> per_bot_limit p" for k
  proof -
    have "stream_count s k \<le> per_bot_limit p" using inv unfolding quota_inv_def by blast
    then show ?thesis by (auto simp: count')
  qed
  moreover have "0 < m" if "active_file_streams_by_token ?s k = Some m" for k m
    using that inv by (auto simp: s' quota_inv_def split: if_splits)
  moreover have "card (active_file_stream_ids s - {sid}) \<le> card (active_file_stream_ids s)"
    using inv by (intro card_mono) (auto simp: quota_inv_def)
  ultimately show ?thesis
    using inv sid unfolding quota_inv_def by (auto simp: s')
qed


subsection \<open>Shutdown\<close>

definition sent_promises :: "cm_message list \<Rightarrow> nat list" where
  "sent_promises ms = concat (map resolved ms)"

lemma sent_promises_simps [simp]:
  "sent_promises [] = []" "sent_promises (m # ms) = resolved m @ sent_promises ms"
  "sent_promises (ms @ ms') = sent_promises ms @ sent_promises ms'"
  by (simp_all add: sent_promises_def)

lemma sent_promises_map [simp]: "sent_promises (map Resolve_Promise ns) = ns"
  by (induction ns) auto

lemma sent_promises_closes [simp]: "sent_promises (map Client_Close ns) = []"
  by (induction ns) auto

definition shutdown_inv :: "client_manager \<Rightarrow> history \<Rightarrow> bool" where
  "shutdown_inv s h \<longleftrightarrow>
     (close_db_started s \<or> close_finished s \<or> close_promises s \<noteq> [] \<longrightarrow> close_flag s) \<and>
     (Close_Tqueue \<in> set (h_sent h) \<longrightarrow> close_db_started s) \<and>
     sent_promises (h_sent h) = (if close_finished s then h_requested h else []) \<and>
     (\<not> close_finished s \<longrightarrow> close_promises s = h_requested h)"

text \<open>A handler that neither starts nor finishes the shutdown.\<close>

definition no_shutdown :: "client_manager \<Rightarrow> client_manager \<Rightarrow> cm_message list \<Rightarrow> bool" where
  "no_shutdown s s' ms \<longleftrightarrow> close_flag s' = close_flag s \<and> close_db_started s' = close_db_started s \<and>
     close_finished s' = close_finished s \<and> close_promises s' = close_promises s \<and>
     sent_promises ms = [] \<and> Close_Tqueue \<notin> set ms"

lemma no_shutdown_inv:
  assumes "shutdown_inv s h" and "no_shutdown s s' ms" and "\<And>n. e \<noteq> Close_Event n"
  shows "shutdown_inv s' (record_event t e ms h)"
proof -
  have "h_requested (record_event t e ms h) = h_requested h"
    using assms(3) by (auto simp: record_event_def split: cm_event.splits)
  then show ?thesis using assms(1,2) by (auto simp: shutdown_inv_def no_shutdown_def record_event_def)
qed

lemma finish_close_inv:
  assumes "shutdown_inv s h" and "\<not> close_finished s" and "close_flag s" and "\<And>n. e \<noteq> Close_Event n"
  shows "shutdown_inv (fst (finish_close s)) (record_event t e (snd (finish_close s)) h)"
proof -
  have "h_requested (record_event t e ms h) = h_requested h" for ms
    using assms(4) by (auto simp: record_event_def split: cm_event.splits)
  then show ?thesis using assms(1-3) by (auto simp: shutdown_inv_def finish_close_def record_event_def)
qed

subsection \<open>Every handler keeps the invariant\<close>

definition cm_inv :: "cm_params \<Rightarrow> client_manager \<Rightarrow> history \<Rightarrow> bool" where
  "cm_inv p s h \<longleftrightarrow> flood_inv (h_time h) s \<and> client_inv s (h_present h) (h_logged h) \<and>
     quota_inv p s (h_streams h) \<and> tq_inv (shared_tqueue s) \<and> shutdown_inv s h"

lemma cm_inv_start:
  assumes "0 \<le> t" and "tq_inv recovered" and "cm_start_up p t recovered saved difference = (s, ms)"
  shows "cm_inv p s (initial_history t ms)"
proof -
  have ms: "sent_promises ms = []" "Close_Tqueue \<notin> set ms"
    using assms(3) by (auto simp: cm_start_up_def Let_def sent_promises_def)
  have "client_rel s [] Map.empty {}"
    using assms(3) container_rel_new by (auto simp: cm_start_up_def Let_def client_rel_def count_of_def login_count_def)
  then have "client_inv s {} {}" by (rule client_invI) simp
  moreover have "quota_inv p s {}"
    using assms(3) by (auto simp: cm_start_up_def Let_def quota_inv_def stream_count_def streams_of_def per_bot_limit_def)
  ultimately show ?thesis
    using assms ms
    by (auto simp: cm_start_up_def Let_def cm_inv_def initial_history_def flood_inv_def shutdown_inv_def)
qed

end
