(* ===== verification/Client_Manager_Spec.thy ===== *)
theory Client_Manager_Spec
  imports Client_Manager_Proofs
begin

section \<open>Properties of the client manager\<close>

text \<open>
  The handlers one by one: each returns, keeps the invariant \<open>cm_inv\<close>, and a query or stream is
  either answered or handed to the client of its token. The properties of all reachable states
  follow by rule induction.
\<close>

subsection \<open>Answers of the manager\<close>

lemma query_error_total:
  assumes "list_all (\<lambda>c. byte c < 128) d" and "list_all (\<lambda>(k, v). list_all (\<lambda>c. byte c < 128) k \<and> json_ok 1 v) ps"
  shows "\<exists>b. json_encode (query_error_value code d ps) False = Some b"
proof -
  have "json_ok (Suc (Suc (Suc 0))) (query_error_value code d ps)"
    using assms show_int_number [of code] json_ok_mono [of 1 _ "Suc 0"]
    by (auto simp: query_error_value_def ascii_check_utf8 byte_def list_all_iff)
  then show ?thesis using json_store_total [of _ _ "-1"] by (fastforce simp: json_encode_def)
qed

lemma fail_query_ok:
  assumes "list_all (\<lambda>c. byte c < 128) d" and "q_state q = State_Query"
  shows "\<exists>b. fail_query code d [] q = Some (q\<lparr>q_answer := b, q_state := State_Error, q_http_status_code := code\<rparr>)"
  using query_error_total [OF assms(1), of "[]" code] assms(2) by (auto simp: fail_query_def set_error_def)

lemma retry_query_ok:
  assumes "q_state q = State_Query"
  shows "\<exists>b. set_retry_after_error n q =
    Some (q\<lparr>q_retry_after := n, q_answer := b, q_state := State_Error, q_http_status_code := 429\<rparr>)"
proof -
  have "list_all (\<lambda>c. byte c < 128) (''Too Many Requests: retry after '' @ show_int n)"
    using show_int_ascii [of n] by (simp add: byte_def)
  from query_error_total [OF this, of "[(''retry_after'', JNumber (show_int n))]" 429] show ?thesis
    using assms show_int_number [of n] by (auto simp: set_retry_after_error_def set_error_def byte_def)
qed

text \<open>The query was given up: its promise gets it back, answered; a restore query has no promise.\<close>

definition answered :: "query \<Rightarrow> cm_message list \<Rightarrow> bool" where
  "answered q ms \<longleftrightarrow>
     (if q_is_internal q then ms = []
      else \<exists>q'. ms = [Answer q'] \<and> is_ready q' \<and> q_token q' = q_token q \<and> q_method q' = q_method q)"

lemma answered_update [simp]:
  "answered (q\<lparr>q_answer := b\<rparr>) = answered q" "answered (q\<lparr>q_state := st\<rparr>) = answered q"
  "answered (q\<lparr>q_http_status_code := code\<rparr>) = answered q" "answered (q\<lparr>q_retry_after := n\<rparr>) = answered q"
  by (simp_all add: answered_def fun_eq_iff)

lemma drop_query_some: "\<exists>ms. drop_query (Some q) = Some ms \<and> answered q ms"
proof -
  have "\<exists>q'. promise_delete q = Some q' \<and> is_ready q' \<and> q_token q' = q_token q \<and> q_method q' = q_method q"
  proof (cases "is_ready q")
    case False
    then have "q_state q = State_Query" by (simp add: is_ready_def)
    from retry_query_ok [OF this, of 5] False show ?thesis by (auto simp: promise_delete_def is_ready_def)
  qed (simp add: promise_delete_def)
  then show ?thesis by (auto simp: drop_query_def answered_def)
qed

lemma drop_query_failed:
  assumes "q_state q = State_Query" and "list_all (\<lambda>c. byte c < 128) d"
  shows "\<exists>ms. drop_query (fail_query code d [] q) = Some ms \<and> answered q ms"
proof -
  from fail_query_ok [OF assms(2,1), of code] obtain b where
    b: "fail_query code d [] q = Some (q\<lparr>q_answer := b, q_state := State_Error, q_http_status_code := code\<rparr>)" by blast
  from drop_query_some [of "q\<lparr>q_answer := b, q_state := State_Error, q_http_status_code := code\<rparr>"] show ?thesis
    unfolding b by simp
qed

lemma drop_query_retry:
  assumes "q_state q = State_Query"
  shows "\<exists>ms. drop_query (set_retry_after_error n q) = Some ms \<and> answered q ms"
proof -
  from retry_query_ok [OF assms, of n] obtain b where b: "set_retry_after_error n q =
    Some (q\<lparr>q_retry_after := n, q_answer := b, q_state := State_Error, q_http_status_code := 429\<rparr>)" by blast
  from drop_query_some [of "q\<lparr>q_retry_after := n, q_answer := b, q_state := State_Error, q_http_status_code := 429\<rparr>"]
  show ?thesis unfolding b by simp
qed

lemma answered_silent: "answered q ms \<Longrightarrow> sent_promises ms = [] \<and> Close_Tqueue \<notin> set ms \<and>
  concat (map created ms) = [] \<and> concat (map released ms) = []"
  by (auto simp: answered_def split: if_splits)

subsection \<open>Framing\<close>

definition same_streams :: "client_manager \<Rightarrow> client_manager \<Rightarrow> bool" where
  "same_streams s s' \<longleftrightarrow> active_file_stream_ids s' = active_file_stream_ids s \<and>
     active_file_stream_token s' = active_file_stream_token s \<and>
     active_file_streams_by_token s' = active_file_streams_by_token s"

lemma same_streams_inv: "quota_inv p s seen \<Longrightarrow> same_streams s s' \<Longrightarrow> quota_inv p s' seen"
  using quota_inv_cong [of s' s p seen] by (simp add: same_streams_def)

lemma cm_inv_step:
  assumes "cm_inv p s h" and "flood_inv t s'" and "client_inv s' (h_present (record_event t e ms h)) (h_logged (record_event t e ms h))"
    and "quota_inv p s' (h_streams (record_event t e ms h))" and "tq_inv (shared_tqueue s')" and "no_shutdown s s' ms"
    and "\<And>n. e \<noteq> Close_Event n"
  shows "cm_inv p s' (record_event t e ms h)"
  using assms no_shutdown_inv [OF _ assms(6,7), of h t] by (simp add: cm_inv_def record_event_def)

lemma h_record_event [simp]:
  "h_time (record_event t e ms h) = t"
  "h_present (record_event t e ms h) = h_present h \<union> set (concat (map created ms)) - set (concat (map released ms))"
  "h_sent (record_event t e ms h) = h_sent h @ ms"
  by (simp_all add: record_event_def)

lemma h_streams_record_event: "h_streams h \<subseteq> h_streams (record_event t e ms h)"
  by (auto simp: record_event_def split: cm_event.splits)

subsection \<open>Finding the client of a token\<close>

text \<open>A client of the token is there after the handler, and it is the one the message goes to.\<close>

definition serves :: "client_manager \<Rightarrow> string \<Rightarrow> 64 word \<Rightarrow> bool" where
  "serves s key ident \<longleftrightarrow> token_to_id s key = Some ident \<and>
     (\<exists>info. container_get (clients s) ident = Some info \<and> ci_token info = key)"

lemma serves_known: "client_inv s present logged \<Longrightarrow> token_to_id s key = Some ident \<Longrightarrow> serves s key ident"
  using client_rel_token [of s _ _ logged key ident] by (fastforce simp: client_inv_def serves_def)

lemma create_client_inv:
  assumes "client_inv s present logged" and "container_room (clients s)"
    and "token_to_id s (token_key token test) = None" and "0 < user_id"
  shows "\<exists>ident c. create_client token test user_id s =
      Some (ident, s\<lparr>clients := c\<rparr>, [Create_Client ident token test (get_tqueue_id user_id test)]) \<and>
    add_token (token_key token test) ident (s\<lparr>clients := c\<rparr>) =
      s\<lparr>clients := c, token_to_id := (token_to_id s)(token_key token test \<mapsto> ident)\<rparr> \<and>
    serves (s\<lparr>clients := c, token_to_id := (token_to_id s)(token_key token test \<mapsto> ident)\<rparr>) (token_key token test) ident \<and>
    client_inv (s\<lparr>clients := c, token_to_id := (token_to_id s)(token_key token test \<mapsto> ident)\<rparr>)
      (insert ident present) logged"
proof -
  from assms(1) obtain issued m where rel: "client_rel s issued m logged" and dom: "dom m = present"
    by (auto simp: client_inv_def)
  from create_client_ok [OF rel assms(2-4)] obtain ident c info where
    new: "create_client token test user_id s =
      Some (ident, s\<lparr>clients := c\<rparr>, [Create_Client ident token test (get_tqueue_id user_id test)])"
    "add_token (token_key token test) ident (s\<lparr>clients := c\<rparr>) =
      s\<lparr>clients := c, token_to_id := (token_to_id s)(token_key token test \<mapsto> ident)\<rparr>"
    "ci_token info = token_key token test" "container_get c ident = Some info"
    and rel': "client_rel (s\<lparr>clients := c, token_to_id := (token_to_id s)(token_key token test \<mapsto> ident)\<rparr>)
      (ident # issued) (m(ident \<mapsto> info)) logged" by blast
  have "client_inv (s\<lparr>clients := c, token_to_id := (token_to_id s)(token_key token test \<mapsto> ident)\<rparr>)
      (insert ident present) logged" by (rule client_invI [OF rel']) (use dom in auto)
  with new show ?thesis by (intro exI [of _ ident] exI [of _ c]) (simp add: serves_def)
qed

text \<open>A handler that refuses changes the flood controls at most.\<close>

lemma refused_inv:
  assumes "cm_inv p s h" and "s1 = s\<lparr>flood_controls := fcs, global_flood_control := g\<rparr>" and "flood_inv t s1"
    and "sent_promises ms = []" "Close_Tqueue \<notin> set ms" "concat (map created ms) = []" "concat (map released ms) = []"
    and "\<And>n. e \<noteq> Close_Event n" and "h_logged (record_event t e ms h) = h_logged h"
  shows "cm_inv p s1 (record_event t e ms h)"
proof (rule cm_inv_step [OF assms(1,3)])
  have "client_inv s1 (h_present h) (h_logged h)"
    using assms(1,2) client_inv_cong [of s1 s] by (simp add: cm_inv_def)
  then show "client_inv s1 (h_present (record_event t e ms h)) (h_logged (record_event t e ms h))"
    using assms(6,7,9) by simp
  have "quota_inv p s1 (h_streams h)" using assms(1,2) quota_inv_cong [of s1 s p] by (simp add: cm_inv_def)
  then show "quota_inv p s1 (h_streams (record_event t e ms h))" by (rule quota_inv_mono) (rule h_streams_record_event)
  show "tq_inv (shared_tqueue s1)" using assms(1,2) by (simp add: cm_inv_def)
  show "no_shutdown s s1 ms" using assms(2,4,5) by (simp add: no_shutdown_def)
qed (use assms(8) in auto)

lemma unchanged_inv:
  assumes "cm_inv p s h" and "h_time h \<le> t"
    and "sent_promises ms = []" "Close_Tqueue \<notin> set ms" "concat (map created ms) = []" "concat (map released ms) = []"
    and "\<And>n. e \<noteq> Close_Event n" and "h_logged (record_event t e ms h) = h_logged h"
  shows "cm_inv p s (record_event t e ms h)"
proof (rule refused_inv [OF assms(1)])
  show "s = s\<lparr>flood_controls := flood_controls s, global_flood_control := global_flood_control s\<rparr>" by simp
  show "flood_inv t s" using assms(1,2) flood_inv_mono by (auto simp: cm_inv_def)
qed (use assms in auto)

text \<open>A new client, once flood control let it through.\<close>

lemma new_client_inv:
  assumes inv: "cm_inv p s h" and s1: "s1 = s\<lparr>flood_controls := fcs, global_flood_control := g\<rparr>" and flood: "flood_inv t s1"
    and room: "container_room (clients s)" and new: "token_to_id s (token_key token test) = None" and pos: "0 < user_id"
  shows "\<exists>ident s2 s3. create_client token test user_id s1 =
      Some (ident, s2, [Create_Client ident token test (get_tqueue_id user_id test)]) \<and>
    s3 = add_token (token_key token test) ident s2 \<and> webhook_db s2 = webhook_db s \<and>
    serves s3 (token_key token test) ident \<and>
    client_inv s3 (insert ident (h_present h)) (h_logged h) \<and> same_streams s s3 \<and> flood_inv t s3 \<and>
    shared_tqueue s3 = shared_tqueue s \<and> no_shutdown s s3 []"
proof -
  have "client_inv s1 (h_present h) (h_logged h)"
    using inv s1 client_inv_cong [of s1 s] by (simp add: cm_inv_def)
  from create_client_inv [OF this _ _ pos, of token test] room new s1 obtain ident c where
    cr: "create_client token test user_id s1 =
      Some (ident, s1\<lparr>clients := c\<rparr>, [Create_Client ident token test (get_tqueue_id user_id test)])"
    and add: "add_token (token_key token test) ident (s1\<lparr>clients := c\<rparr>) =
      s1\<lparr>clients := c, token_to_id := (token_to_id s1)(token_key token test \<mapsto> ident)\<rparr>"
    and ok: "serves (s1\<lparr>clients := c, token_to_id := (token_to_id s1)(token_key token test \<mapsto> ident)\<rparr>)
        (token_key token test) ident"
      "client_inv (s1\<lparr>clients := c, token_to_id := (token_to_id s1)(token_key token test \<mapsto> ident)\<rparr>)
        (insert ident (h_present h)) (h_logged h)"
    by auto
  have "flood_inv t (s1\<lparr>clients := c, token_to_id := (token_to_id s1)(token_key token test \<mapsto> ident)\<rparr>)"
    using flood by (simp add: flood_inv_def)
  with cr add ok show ?thesis
    by (intro exI [of _ ident] exI [of _ "s1\<lparr>clients := c\<rparr>"]
        exI [of _ "s1\<lparr>clients := c, token_to_id := (token_to_id s1)(token_key token test \<mapsto> ident)\<rparr>"])
      (simp add: s1 same_streams_def no_shutdown_def)
qed

definition routed :: "client_manager \<Rightarrow> query \<Rightarrow> cm_message list \<Rightarrow> bool" where
  "routed s q ms \<longleftrightarrow> (\<exists>pre ident. ms = pre @ [Client_Send ident q] \<and>
     serves s (token_key (q_token q) (q_is_test_dc q)) ident \<and> (\<forall>q'. Answer q' \<notin> set pre))"

definition query_settled :: "cm_params \<Rightarrow> history \<Rightarrow> real \<Rightarrow> query \<Rightarrow> cm_result \<Rightarrow> bool" where
  "query_settled p h t q r \<longleftrightarrow> (\<exists>s' ms. r = Some (s', ms) \<and> cm_inv p s' (record_event t (Query_Event q) ms h) \<and>
     (answered q ms \<or> routed s' q ms))"

lemma query_refused:
  assumes "cm_inv p s h" and "s1 = s\<lparr>flood_controls := fcs, global_flood_control := g\<rparr>" and "flood_inv t s1"
    and "\<exists>ms. drop_query r = Some ms \<and> answered q ms"
  shows "query_settled p h t q (map_option (Pair s1) (drop_query r))"
proof -
  from assms(4) obtain ms where ms: "drop_query r = Some ms" "answered q ms" by blast
  have "cm_inv p s1 (record_event t (Query_Event q) ms h)"
    using answered_silent [OF ms(2)] by (intro refused_inv [OF assms(1-3)]) (auto simp: record_event_def)
  with ms show ?thesis by (auto simp: query_settled_def)
qed

lemma query_refused_now:
  assumes "cm_inv p s h" and "h_time h \<le> t" and "\<exists>ms. drop_query r = Some ms \<and> answered q ms"
  shows "query_settled p h t q (map_option (Pair s) (drop_query r))"
proof (rule query_refused [OF assms(1)])
  show "s = s\<lparr>flood_controls := flood_controls s, global_flood_control := global_flood_control s\<rparr>" by simp
  show "flood_inv t s" using assms(1,2) flood_inv_mono by (auto simp: cm_inv_def)
qed (use assms in auto)

lemma restore_messages_silent:
  "sent_promises (restore_messages ident q s) = []" "Close_Tqueue \<notin> set (restore_messages ident q s)"
  "concat (map created (restore_messages ident q s)) = []" "concat (map released (restore_messages ident q s)) = []"
  "Answer q' \<notin> set (restore_messages ident q s)"
  by (auto simp: restore_messages_def Let_def)

lemma send_new_client:
  assumes inv: "cm_inv p s h" and time: "h_time h \<le> t" "t \<le> t'" and room: "container_room (clients s)"
    and q: "q_state q = State_Query" and new: "token_to_id s (token_key (q_token q) (q_is_test_dc q)) = None"
    and pos: "0 < user_id"
  shows "query_settled p h t' q
    (case check_flood p ip t t' s of
       None \<Rightarrow> None
     | Some (Some (wakeup, now), s1) \<Rightarrow>
         map_option (Pair s1) (drop_query (set_retry_after_error (\<lfloor>wakeup - now\<rfloor> + 1) q))
     | Some (None, s1) \<Rightarrow>
         (case create_client (q_token q) (q_is_test_dc q) user_id s1 of
            None \<Rightarrow> None
          | Some (ident, s2, cs) \<Rightarrow>
              Some (add_token (token_key (q_token q) (q_is_test_dc q)) ident s2,
                cs @ restore_messages ident q s2 @ [Client_Send ident q])))"
proof -
  have "flood_inv (h_time h) s" using inv by (simp add: cm_inv_def)
  from check_flood_ok [OF this time, of p ip] obtain r fcs g where
    chk: "check_flood p ip t t' s = Some (r, s\<lparr>flood_controls := fcs, global_flood_control := g\<rparr>)"
    and flood: "flood_inv t' (s\<lparr>flood_controls := fcs, global_flood_control := g\<rparr>)" by blast
  show ?thesis
  proof (cases r)
    case (Some w)
    then show ?thesis
      using query_refused [OF inv refl flood drop_query_retry [OF q, of "\<lfloor>fst w - snd w\<rfloor> + 1"]]
      by (cases w) (simp add: chk)
  next
    case None
    from new_client_inv [OF inv refl flood room new pos] obtain ident s2 s3 where
      cr: "create_client (q_token q) (q_is_test_dc q) user_id (s\<lparr>flood_controls := fcs, global_flood_control := g\<rparr>) =
        Some (ident, s2, [Create_Client ident (q_token q) (q_is_test_dc q) (get_tqueue_id user_id (q_is_test_dc q))])"
      and s3: "s3 = add_token (token_key (q_token q) (q_is_test_dc q)) ident s2"
      and ok: "serves s3 (token_key (q_token q) (q_is_test_dc q)) ident"
        "client_inv s3 (insert ident (h_present h)) (h_logged h)" "same_streams s s3" "flood_inv t' s3"
        "shared_tqueue s3 = shared_tqueue s" "no_shutdown s s3 []" by blast
    define ms where "ms = [Create_Client ident (q_token q) (q_is_test_dc q) (get_tqueue_id user_id (q_is_test_dc q))] @
      restore_messages ident q s2 @ [Client_Send ident q]"
    have "cm_inv p s3 (record_event t' (Query_Event q) ms h)"
    proof (rule cm_inv_step [OF inv ok(4)])
      show "client_inv s3 (h_present (record_event t' (Query_Event q) ms h)) (h_logged (record_event t' (Query_Event q) ms h))"
        using ok(2) by (simp add: ms_def restore_messages_silent record_event_def)
      show "quota_inv p s3 (h_streams (record_event t' (Query_Event q) ms h))"
        using same_streams_inv [OF _ ok(3)] inv by (simp add: cm_inv_def record_event_def)
      show "no_shutdown s s3 ms" using ok(6) by (simp add: ms_def no_shutdown_def restore_messages_silent)
    qed (use inv ok(5) in \<open>auto simp: cm_inv_def\<close>)
    moreover have "routed s3 q ms"
      using ok(1) restore_messages_silent(5)
      by (auto simp: routed_def ms_def intro!: exI [of _ ident]
          exI [of _ "[Create_Client ident (q_token q) (q_is_test_dc q) (get_tqueue_id user_id (q_is_test_dc q))] @
            restore_messages ident q s2"])
    ultimately show ?thesis using None cr s3 by (simp add: chk query_settled_def ms_def)
  qed
qed

lemma send_settled:
  assumes inv: "cm_inv p s h" and time: "h_time h \<le> t" "t \<le> t'" and room: "container_room (clients s)"
    and q: "q_state q = State_Query"
  shows "query_settled p h t' q (send p t t' q s)"
proof -
  let ?key = "token_key (q_token q) (q_is_test_dc q)"
  have le: "h_time h \<le> t'" using time by simp
  note refuse = query_refused_now [OF inv le]
  have refuse_fail: "query_settled p h t' q (map_option (Pair s) (drop_query (fail_query code d [] q)))"
    if "list_all (\<lambda>c. byte c < 128) d" for code d by (rule refuse [OF drop_query_failed [OF q that]])
  have known: "query_settled p h t' q
      (case container_get (clients s) ident of None \<Rightarrow> None | Some x \<Rightarrow> Some (s, [Client_Send ident q]))"
    if "token_to_id s ?key = Some ident" for ident
  proof -
    have srv: "serves s ?key ident" using serves_known that inv by (auto simp: cm_inv_def)
    have "cm_inv p s (record_event t' (Query_Event q) [Client_Send ident q] h)"
      by (rule unchanged_inv [OF inv le]) (auto simp: record_event_def)
    moreover have "routed s q [Client_Send ident q]" using srv by (auto simp: routed_def)
    ultimately show ?thesis using srv by (auto simp: serves_def query_settled_def)
  qed
  show ?thesis
    unfolding send_def Let_def
    using refuse [OF drop_query_some] known send_new_client [OF inv time room q]
    by (auto intro!: refuse_fail simp: byte_def split: option.split)
qed


subsection \<open>File streams\<close>

definition stream_settled ::
  "cm_params \<Rightarrow> history \<Rightarrow> real \<Rightarrow> cm_event \<Rightarrow> int \<Rightarrow> string \<Rightarrow> string \<Rightarrow> int \<Rightarrow> cm_result \<Rightarrow> bool"
where
  "stream_settled p h t e sid key fid expected r \<longleftrightarrow> (\<exists>s' ms. r = Some (s', ms) \<and> cm_inv p s' (record_event t e ms h) \<and>
     ((\<exists>err. ms = [Stream_Error sid err]) \<or>
      (\<exists>pre ident. ms = pre @ [Set_Client sid ident, Start_File_Stream ident sid fid expected] \<and> serves s' key ident)))"

lemma stream_refused:
  assumes "cm_inv p s h" and "s1 = s\<lparr>flood_controls := fcs, global_flood_control := g\<rparr>" and "flood_inv t s1"
    and e: "e = Stream_Event em sid token test fid expected ip"
  shows "stream_settled p h t e sid key fid expected (Some (s1, [Stream_Error sid err]))"
proof -
  have "cm_inv p s1 (record_event t e [Stream_Error sid err] h)"
    by (rule refused_inv [OF assms(1-3)]) (auto simp: record_event_def e)
  then show ?thesis by (auto simp: stream_settled_def)
qed

lemma stream_refused_now:
  assumes "cm_inv p s h" and "h_time h \<le> t" and "e = Stream_Event em sid token test fid expected ip"
  shows "stream_settled p h t e sid key fid expected (Some (s, [Stream_Error sid err]))"
proof (rule stream_refused [OF assms(1)])
  show "s = s\<lparr>flood_controls := flood_controls s, global_flood_control := global_flood_control s\<rparr>" by simp
  show "flood_inv t s" using assms(1,2) flood_inv_mono by (auto simp: cm_inv_def)
qed (rule assms(3))

lemma stream_admitted:
  assumes inv: "cm_inv p s h" and fresh: "sid \<notin> h_streams h"
    and room: "int (card (active_file_stream_ids s)) < p_max_connections p mod 2 ^ 64"
    and quota: "stream_count s key < per_bot_limit p"
    and s1: "same_streams s s1" "flood_inv t s1" "shared_tqueue s1 = shared_tqueue s" "no_shutdown s s1 []"
    and srv: "serves s1 key ident"
    and cl: "client_inv s1 (h_present h \<union> set (concat (map created cs))) (h_logged h)"
    and cs: "sent_promises cs = []" "Close_Tqueue \<notin> set cs" "concat (map released cs) = []"
    and e: "e = Stream_Event em sid token test fid expected ip"
  shows "stream_settled p h t e sid key fid expected
    (map_option (\<lambda>(s3, ms). (s3, cs @ ms)) (admit_stream ident sid key fid expected s1))"
proof -
  let ?ms = "cs @ [Set_Client sid ident, Start_File_Stream ident sid fid expected]"
  obtain s2 where adm: "admit_stream ident sid key fid expected s1 =
      Some (s2, [Set_Client sid ident, Start_File_Stream ident sid fid expected])"
    using srv by (auto simp: admit_stream_def serves_def)
  have "quota_inv p s1 (h_streams h)" using same_streams_inv [OF _ s1(1)] inv by (auto simp: cm_inv_def)
  from admit_quota_inv [OF this fresh _ _ adm] s1(1) room quota
  have str: "quota_inv p s2 (insert sid (h_streams h))" by (simp add: same_streams_def stream_count_def)
  have s2: "clients s2 = clients s1" "token_to_id s2 = token_to_id s1" "active_client_count s2 = active_client_count s1"
    "flood_inv t s2" "shared_tqueue s2 = shared_tqueue s" "no_shutdown s s2 []"
    using adm s1(2-4) by (auto simp: admit_stream_def flood_inv_def no_shutdown_def split: option.splits)
  have "cm_inv p s2 (record_event t e ?ms h)"
  proof (rule cm_inv_step [OF inv s2(4)])
    show "client_inv s2 (h_present (record_event t e ?ms h)) (h_logged (record_event t e ?ms h))"
      using cl client_inv_cong [OF s2(1-3)] cs(3) by (simp add: record_event_def e)
    show "quota_inv p s2 (h_streams (record_event t e ?ms h))" using str by (simp add: record_event_def e)
    show "no_shutdown s s2 ?ms" using s2(6) cs by (simp add: no_shutdown_def)
  qed (use inv s2 e in \<open>auto simp: cm_inv_def\<close>)
  moreover have "serves s2 key ident" using srv s2 by (simp add: serves_def)
  ultimately show ?thesis by (auto simp: adm stream_settled_def)
qed

lemma send_file_stream_settled:
  assumes inv: "cm_inv p s h" and time: "h_time h \<le> t" "t \<le> t'" and room: "container_room (clients s)"
    and fresh: "sid \<notin> h_streams h" and e: "e = Stream_Event emergency sid token test fid expected ip"
  shows "stream_settled p h t' e sid (token_key token test) fid expected
    (send_file_stream p emergency t t' sid token test fid expected ip s)"
proof -
  let ?key = "token_key token test"
  have le: "h_time h \<le> t'" using time by simp
  note refuse = stream_refused_now [OF inv le e]
  have known: "stream_settled p h t' e sid ?key fid expected (admit_stream ident sid ?key fid expected s)"
    if "token_to_id s ?key = Some ident" "int (card (active_file_stream_ids s)) < p_max_connections p mod 2 ^ 64"
      "stream_count s ?key < per_bot_limit p" for ident
  proof -
    have srv: "serves s ?key ident" using serves_known that(1) inv by (auto simp: cm_inv_def)
    have "flood_inv t' s" using inv flood_inv_mono [OF _ le] by (simp add: cm_inv_def)
    from stream_admitted [OF inv fresh that(2,3) _ this _ _ srv _ _ _ _ e, of "[]"] inv show ?thesis
      by (simp add: same_streams_def no_shutdown_def cm_inv_def case_prod_beta' option.map_ident)
  qed
  have new: "stream_settled p h t' e sid ?key fid expected
     (case check_flood p ip t t' s of
        None \<Rightarrow> None
      | Some (Some w, s1) \<Rightarrow> Some (s1, [Stream_Error sid (Error 429 ''Too many authentication attempts'')])
      | Some (None, s1) \<Rightarrow>
          (case create_client token test user_id s1 of
             None \<Rightarrow> None
           | Some (ident, s2, cs) \<Rightarrow>
               map_option (\<lambda>(s3, ms). (s3, cs @ ms))
                 (admit_stream ident sid ?key fid expected (add_token ?key ident s2))))"
    if none: "token_to_id s ?key = None" and slot: "int (card (active_file_stream_ids s)) < p_max_connections p mod 2 ^ 64"
      and quota: "stream_count s ?key < per_bot_limit p" and pos: "0 < user_id" for user_id
  proof -
    have "flood_inv (h_time h) s" using inv by (simp add: cm_inv_def)
    from check_flood_ok [OF this time, of p ip] obtain r fcs g where
      chk: "check_flood p ip t t' s = Some (r, s\<lparr>flood_controls := fcs, global_flood_control := g\<rparr>)"
      and flood: "flood_inv t' (s\<lparr>flood_controls := fcs, global_flood_control := g\<rparr>)" by blast
    show ?thesis
    proof (cases r)
      case (Some w)
      then show ?thesis using stream_refused [OF inv refl flood e] by (simp add: chk)
    next
      case None
      from new_client_inv [OF inv refl flood room none pos] obtain ident s2 s3 where
        cr: "create_client token test user_id (s\<lparr>flood_controls := fcs, global_flood_control := g\<rparr>) =
          Some (ident, s2, [Create_Client ident token test (get_tqueue_id user_id test)])"
        and s3: "s3 = add_token ?key ident s2" and ok: "serves s3 ?key ident"
          "client_inv s3 (insert ident (h_present h)) (h_logged h)" "same_streams s s3" "flood_inv t' s3"
          "shared_tqueue s3 = shared_tqueue s" "no_shutdown s s3 []" by blast
      from stream_admitted [OF inv fresh slot quota ok(3-6) ok(1) _ _ _ _ e,
          of "[Create_Client ident token test (get_tqueue_id user_id test)]"] ok(2) None cr s3
      show ?thesis by (simp add: chk)
    qed
  qed
  show ?thesis
    unfolding send_file_stream_def Let_def using refuse known new by (auto split: option.split)
qed


subsection \<open>The other handlers\<close>

lemma silent_step:
  assumes "cm_inv p s h" and "h_time h \<le> t" and "flood_controls s' = flood_controls s"
    "global_flood_control s' = global_flood_control s"
    "is_global_flood_control_enabled s' = is_global_flood_control_enabled s"
    and "client_inv s' (h_present h) (h_logged (record_event t e [] h))" and "quota_inv p s' (h_streams h)"
    and "shared_tqueue s' = shared_tqueue s" and "no_shutdown s s' []" and "\<And>n. e \<noteq> Close_Event n"
  shows "cm_inv p s' (record_event t e [] h)"
proof (rule cm_inv_step [OF assms(1)])
  have "flood_inv t s" using assms(1,2) flood_inv_mono by (auto simp: cm_inv_def)
  then show "flood_inv t s'" using assms(3-5) by (simp add: flood_inv_def)
  show "quota_inv p s' (h_streams (record_event t e [] h))"
    using assms(7) by (rule quota_inv_mono) (rule h_streams_record_event)
qed (use assms in \<open>auto simp: cm_inv_def\<close>)

lemma release_file_stream_frame:
  "clients (release_file_stream sid s) = clients s" "token_to_id (release_file_stream sid s) = token_to_id s"
  "active_client_count (release_file_stream sid s) = active_client_count s"
  "flood_controls (release_file_stream sid s) = flood_controls s"
  "global_flood_control (release_file_stream sid s) = global_flood_control s"
  "is_global_flood_control_enabled (release_file_stream sid s) = is_global_flood_control_enabled s"
  "shared_tqueue (release_file_stream sid s) = shared_tqueue s" "no_shutdown s (release_file_stream sid s) []"
  by (simp_all add: release_file_stream_def no_shutdown_def Let_def split: option.split)

lemma release_step:
  assumes "cm_inv p s h" and "h_time h \<le> t"
  shows "cm_inv p (release_file_stream sid s) (record_event t (Release_Event sid) [] h)"
proof (rule silent_step [OF assms release_file_stream_frame(4-6)])
  show "client_inv (release_file_stream sid s) (h_present h) (h_logged (record_event t (Release_Event sid) [] h))"
    using assms(1) client_inv_cong [OF release_file_stream_frame(1-3)] by (simp add: cm_inv_def record_event_def)
  show "quota_inv p (release_file_stream sid s) (h_streams h)"
    using assms(1) release_file_stream_inv by (auto simp: cm_inv_def)
qed (auto simp: release_file_stream_frame)

lemma stream_timeout_step:
  assumes "cm_inv p s h" and "h_time h \<le> t"
  shows "cm_inv p (on_file_stream_timeout b s) (record_event t (Stream_Timeout_Event b) [] h)"
proof (rule silent_step [OF assms])
  show "client_inv (on_file_stream_timeout b s) (h_present h) (h_logged (record_event t (Stream_Timeout_Event b) [] h))"
    using assms(1) client_inv_cong [of "on_file_stream_timeout b s" s]
    by (simp add: cm_inv_def record_event_def on_file_stream_timeout_def)
  show "quota_inv p (on_file_stream_timeout b s) (h_streams h)"
    using assms(1) quota_inv_cong [of "on_file_stream_timeout b s" s p] by (simp add: cm_inv_def on_file_stream_timeout_def)
qed (auto simp: on_file_stream_timeout_def no_shutdown_def)

lemma counts_step:
  assumes "cm_inv p s h" and "h_time h \<le> t"
    and "client_inv (s\<lparr>active_client_count := counts\<rparr>) (h_present h) (h_logged (record_event t e [] h))"
    and "\<And>n. e \<noteq> Close_Event n"
  shows "cm_inv p (s\<lparr>active_client_count := counts\<rparr>) (record_event t e [] h)"
proof (rule silent_step [OF assms(1,2) _ _ _ assms(3)])
  show "quota_inv p (s\<lparr>active_client_count := counts\<rparr>) (h_streams h)"
    using assms(1) quota_inv_cong [of "s\<lparr>active_client_count := counts\<rparr>" s p] by (simp add: cm_inv_def)
qed (use assms(4) in \<open>auto simp: no_shutdown_def\<close>)

lemma container_ids_get:
  assumes "container_rel c issued m" and "ident \<in> set (container_ids c)"
  shows "container_get c ident \<noteq> None"
proof -
  have len: "length (slots c) < 2 ^ 31" using assms(1) by (simp add: container_rel_def)
  obtain i where i: "i < length (slots c)" "ident = encode_id i (generation (slots c ! i))"
    using assms(2) by (auto simp: container_ids_def)
  then have "id_slot ident = i" using len by (simp add: id_slot_encode_id)
  with i show ?thesis by (simp add: container_get_small [OF len])
qed

lemma close_step:
  assumes inv: "cm_inv p s h" and time: "h_time h \<le> t" and fin: "\<not> close_finished s"
  shows "\<exists>s' ms. close n s = Some (s', ms) \<and> cm_inv p s' (record_event t (Close_Event n) ms h)"
proof -
  let ?idents = "container_ids (clients s)"
  have "list_all (\<lambda>ident. container_get (clients s) ident \<noteq> None) ?idents"
    using inv container_ids_get by (auto simp: cm_inv_def client_inv_def client_rel_def list_all_iff)
  then obtain s' ms where cl: "close n s = Some (s', ms)"
    by (cases "close n s") (auto simp: close_def Let_def case_prod_beta split: if_splits)
  have frame: "clients s' = clients s" "token_to_id s' = token_to_id s" "active_client_count s' = active_client_count s"
    "active_file_stream_ids s' = active_file_stream_ids s" "active_file_stream_token s' = active_file_stream_token s"
    "active_file_streams_by_token s' = active_file_streams_by_token s" "flood_controls s' = flood_controls s"
    "global_flood_control s' = global_flood_control s"
    "is_global_flood_control_enabled s' = is_global_flood_control_enabled s" "shared_tqueue s' = shared_tqueue s"
    using cl by (auto simp: close_def close_db_def Let_def split: if_splits)
  have shut: "close_flag s'" "close_promises s' = close_promises s @ [n]" "\<not> close_finished s'"
      "Close_Tqueue \<in> set ms \<longrightarrow> close_db_started s'" "close_db_started s \<longrightarrow> close_db_started s'"
    using cl fin by (auto simp: close_def close_db_def Let_def split: if_splits)
  have ms: "sent_promises ms = []" "concat (map created ms) = []" "concat (map released ms) = []"
    using cl by (auto simp: close_def close_db_def Let_def split: if_splits)
  have "client_inv s' (h_present h) (h_logged h)" "quota_inv p s' (h_streams h)"
    using inv client_inv_cong [OF frame(1-3)] quota_inv_cong [OF frame(4-6), of p] by (simp_all add: cm_inv_def)
  moreover have "flood_inv t s" using inv time flood_inv_mono by (auto simp: cm_inv_def)
  then have "flood_inv t s'" using frame by (simp add: flood_inv_def)
  moreover have "shutdown_inv s h" using inv by (simp add: cm_inv_def)
  then have "shutdown_inv s' (record_event t (Close_Event n) ms h)"
    using ms fin shut by (auto simp: shutdown_inv_def record_event_def)
  moreover have "tq_inv (shared_tqueue s')" using inv frame by (simp add: cm_inv_def)
  ultimately have "cm_inv p s' (record_event t (Close_Event n) ms h)"
    using ms by (simp add: cm_inv_def record_event_def)
  with cl show ?thesis by blast
qed


lemma finish_close_step:
  assumes inv: "cm_inv p s h" and time: "h_time h \<le> t" and fin: "\<not> close_finished s" and flag: "close_flag s"
    and e: "\<And>n. e \<noteq> Close_Event n" "h_logged (record_event t e (snd (finish_close s)) h) = h_logged h"
  shows "cm_inv p (fst (finish_close s)) (record_event t e (snd (finish_close s)) h)"
proof -
  let ?s = "fst (finish_close s)" and ?ms = "snd (finish_close s)"
  have frame: "clients ?s = clients s" "token_to_id ?s = token_to_id s" "active_client_count ?s = active_client_count s"
    "active_file_stream_ids ?s = active_file_stream_ids s" "active_file_stream_token ?s = active_file_stream_token s"
    "active_file_streams_by_token ?s = active_file_streams_by_token s" "flood_controls ?s = flood_controls s"
    "global_flood_control ?s = global_flood_control s"
    "is_global_flood_control_enabled ?s = is_global_flood_control_enabled s" "shared_tqueue ?s = shared_tqueue s"
    by (simp_all add: finish_close_def)
  have ms: "concat (map created ?ms) = []" "concat (map released ?ms) = []" by (simp_all add: finish_close_def)
  have "client_inv ?s (h_present h) (h_logged h)" "quota_inv p ?s (h_streams h)"
    using inv client_inv_cong [OF frame(1-3)] quota_inv_cong [OF frame(4-6), of p] by (simp_all add: cm_inv_def)
  moreover from this(2) have "quota_inv p ?s (h_streams (record_event t e ?ms h))"
    by (rule quota_inv_mono) (rule h_streams_record_event)
  moreover have "flood_inv t s" using inv time flood_inv_mono by (auto simp: cm_inv_def)
  then have "flood_inv t ?s" using frame by (simp add: flood_inv_def)
  moreover have "shutdown_inv ?s (record_event t e ?ms h)"
    using inv finish_close_inv [OF _ fin flag e(1)] by (simp add: cm_inv_def)
  moreover have "tq_inv (shared_tqueue ?s)" using inv frame by (simp add: cm_inv_def)
  ultimately show ?thesis using ms e(2) by (simp add: cm_inv_def)
qed

lemma tqueue_gc_ok:
  assumes "tq_inv (shared_tqueue s)" and "\<forall>c. tick c \<longrightarrow> tock c"
  shows "\<exists>q at_time n m. tqueue_gc tick tock t t' s =
      Some (s\<lparr>shared_tqueue := q, next_tqueue_gc_time := at_time, tqueue_deleted_events := n, last_tqueue_deleted_events := m\<rparr>) \<and>
    tq_inv q"
proof (cases "t > next_tqueue_gc_time s")
  case True
  have "length (filter (\<lambda>(g, qid). g < now) (queue_gc_at (shared_tqueue s))) < Suc (length (queue_gc_at (shared_tqueue s)))"
    for now by (simp add: le_imp_less_Suc)
  from run_gc_spec [OF assms(2,1) this, of "get_unix_time (unix_time_difference s) t" 0 0] obtain k b q where
    gc: "run_gc (Suc (length (queue_gc_at (shared_tqueue s)))) tick tock (get_unix_time (unix_time_difference s) t) 0 0
      (shared_tqueue s) = Some ((k, b), q)" and q: "tq_inv q" by blast
  show ?thesis
    unfolding tqueue_gc_def gc if_P [OF True] Let_def option.case prod.case
    using q by blast
next
  case False
  then show ?thesis
    using assms(1) by (intro exI [of _ "shared_tqueue s"] exI [of _ "next_tqueue_gc_time s"]
        exI [of _ "tqueue_deleted_events s"] exI [of _ "last_tqueue_deleted_events s"]) (simp add: tqueue_gc_def)
qed

lemma global_limits_enabled:
  "0 \<le> t \<Longrightarrow> flood_ok global_limits t (add_limit (60 * 60) 10000 (add_limit 60 1000 new_flood_control))"
  using flood_ok_mono [OF flood_ok_initial [of global_limits], of t]
  by (simp add: flood_control_of_def global_limits_def limits_ok_def)

lemma timer_step:
  assumes inv: "cm_inv p s h" and time: "h_time h \<le> t" "t \<le> t'" and fin: "\<not> close_finished s"
    and tick: "\<forall>c. tick c \<longrightarrow> tock c"
  shows "\<exists>s' ms. cm_timeout_expired p tick tock t t' s = Some (s', ms) \<and>
    cm_inv p s' (record_event t' (Timer_Event tick tock) ms h)"
proof (cases "close_flag s")
  case True
  from finish_close_step [OF inv _ fin True, of t' "Timer_Event tick tock"] time show ?thesis
    by (intro exI [of _ "fst (finish_close s)"] exI [of _ "snd (finish_close s)"])
      (simp add: cm_timeout_expired_def True record_event_def)
next
  case False
  have "tq_inv (shared_tqueue s)" using inv by (simp add: cm_inv_def)
  from tqueue_gc_ok [OF this tick, of t t'] obtain q at_time n m where
    gc: "tqueue_gc tick tock t t' s = Some (s\<lparr>shared_tqueue := q, next_tqueue_gc_time := at_time, tqueue_deleted_events := n,
      last_tqueue_deleted_events := m\<rparr>)" and q: "tq_inv q" by blast
  let ?ms = "[Kick_Watchdog, Set_Timeout_In (watchdog_timeout / 10)]"
  obtain s' where te: "cm_timeout_expired p tick tock t t' s = Some (s', ?ms)" by (simp add: cm_timeout_expired_def False gc)
  have frame: "clients s' = clients s" "token_to_id s' = token_to_id s" "active_client_count s' = active_client_count s"
    "active_file_stream_ids s' = active_file_stream_ids s" "active_file_stream_token s' = active_file_stream_token s"
    "active_file_streams_by_token s' = active_file_streams_by_token s" "shared_tqueue s' = q" "flood_controls s' = flood_controls s"
    "no_shutdown s s' ?ms"
    using te by (auto simp: cm_timeout_expired_def False gc no_shutdown_def split: if_splits)
  have flood: "flood_inv t' s" using inv time flood_inv_mono [of "h_time h" s t'] by (auto simp: cm_inv_def)
  have "flood_inv t' s'"
  proof (cases "\<not> is_global_flood_control_enabled s \<and> \<not> p_local_mode p")
    case True
    then have "is_global_flood_control_enabled s'"
      "global_flood_control s' = add_limit (60 * 60) 10000 (add_limit 60 1000 new_flood_control)"
      using te flood by (auto simp: cm_timeout_expired_def False gc flood_inv_def)
    then show ?thesis using flood global_limits_enabled [of t'] frame(8) by (simp add: flood_inv_def)
  next
    case off: False
    then have "is_global_flood_control_enabled s' = is_global_flood_control_enabled s"
      "global_flood_control s' = global_flood_control s"
      using te by (auto simp: cm_timeout_expired_def False gc split: if_splits)
    then show ?thesis using flood frame(8) by (simp add: flood_inv_def)
  qed
  then have "cm_inv p s' (record_event t' (Timer_Event tick tock) ?ms h)"
    using inv q frame client_inv_cong [OF frame(1-3)] quota_inv_cong [OF frame(4-6), of p]
    by (intro cm_inv_step [OF inv]) (simp_all add: cm_inv_def record_event_def)
  with te show ?thesis by blast
qed


lemma hangup_step:
  assumes inv: "cm_inv p s h" and time: "h_time h \<le> t" and ident: "ident \<in> h_present h" "ident \<notin> h_logged h"
  shows "\<exists>s' ms. hangup_shared ident s = Some (s', ms) \<and> cm_inv p s' (record_event t (Hangup_Event ident) ms h)"
proof -
  have "client_inv s (h_present h) (h_logged h)" using inv by (simp add: cm_inv_def)
  from hangup_ok [OF this ident] obtain c tokens s' ms where
    hang: "hangup_shared ident s = Some (s', Client_Release ident # ms)"
    and cl: "client_inv (s\<lparr>token_to_id := tokens, clients := c\<rparr>) (h_present h - {ident}) (h_logged h)"
    and s': "s' = s\<lparr>token_to_id := tokens, clients := c\<rparr> \<and> ms = [] \<or>
      close_flag s \<and> (s', ms) = close_db (s\<lparr>token_to_id := tokens, clients := c\<rparr>)" by blast
  let ?s = "s\<lparr>token_to_id := tokens, clients := c\<rparr>" and ?ms = "Client_Release ident # ms"
  have frame: "clients s' = clients ?s" "token_to_id s' = token_to_id ?s" "active_client_count s' = active_client_count ?s"
    "active_file_stream_ids s' = active_file_stream_ids s" "active_file_stream_token s' = active_file_stream_token s"
    "active_file_streams_by_token s' = active_file_streams_by_token s" "flood_controls s' = flood_controls s"
    "global_flood_control s' = global_flood_control s"
    "is_global_flood_control_enabled s' = is_global_flood_control_enabled s" "shared_tqueue s' = shared_tqueue s"
    using s' by (auto simp: close_db_def split: if_splits)
  have ms: "concat (map created ms) = []" "concat (map released ms) = []" "sent_promises ms = []"
    using s' by (auto simp: close_db_def split: if_splits)
  have shut: "close_flag s' = close_flag s" "close_promises s' = close_promises s" "close_finished s' = close_finished s"
      "Close_Tqueue \<in> set ms \<longrightarrow> close_db_started s'" "close_db_started s \<longrightarrow> close_db_started s'"
      "close_db_started s' \<longrightarrow> close_db_started s \<or> close_flag s"
    using s' by (auto simp: close_db_def split: if_splits)
  have "shutdown_inv s h" using inv by (simp add: cm_inv_def)
  then have "shutdown_inv s' (record_event t (Hangup_Event ident) ?ms h)"
    using shut ms by (auto simp: shutdown_inv_def record_event_def)
  moreover have "client_inv s' (h_present h - {ident}) (h_logged h)" using cl client_inv_cong [OF frame(1-3)] by simp
  moreover have "quota_inv p s' (h_streams h)" using inv quota_inv_cong [OF frame(4-6), of p] by (simp add: cm_inv_def)
  moreover have "flood_inv t s" using inv time flood_inv_mono by (auto simp: cm_inv_def)
  then have "flood_inv t s'" using frame by (simp add: flood_inv_def)
  moreover have "tq_inv (shared_tqueue s')" using inv frame by (simp add: cm_inv_def)
  ultimately have "cm_inv p s' (record_event t (Hangup_Event ident) ?ms h)"
    using ms by (simp add: cm_inv_def record_event_def)
  with hang show ?thesis by blast
qed

lemma cm_step_ok:
  assumes inv: "cm_inv p s h" and fin: "\<not> close_finished s" and legal: "legal e h"
    and time: "h_time h \<le> t" "t \<le> t'" and room: "container_room (clients s)"
  shows "\<exists>s' ms. cm_handle p t t' e s = Some (s', ms) \<and> cm_inv p s' (record_event t' e ms h)"
proof -
  have le: "h_time h \<le> t'" using time by simp
  have cl: "client_inv s (h_present h) (h_logged h)" using inv by (simp add: cm_inv_def)
  show ?thesis
  proof (cases e)
    case (Query_Event q)
    then show ?thesis using send_settled [OF inv time room, of q] legal by (auto simp: query_settled_def)
  next
    case (Stream_Event em sid token test fid expected ip)
    then show ?thesis
      using send_file_stream_settled [OF inv time room _ Stream_Event] legal by (auto simp: stream_settled_def)
  next
    case (Release_Event sid)
    then show ?thesis using release_step [OF inv le] by simp
  next
    case (Stream_Timeout_Event b)
    then show ?thesis using stream_timeout_step [OF inv le] by simp
  next
    case (Login_Event i)
    with legal login_ok [OF cl, of i] counts_step [OF inv le, of _ e] show ?thesis by (fastforce simp: record_event_def)
  next
    case (Leave_Event i)
    with legal leave_ok [OF cl, of i] counts_step [OF inv le, of _ e] show ?thesis by (fastforce simp: record_event_def)
  next
    case (Hangup_Event i)
    then show ?thesis using hangup_step [OF inv le, of i] legal by simp
  next
    case (Timer_Event tick tock)
    then show ?thesis using timer_step [OF inv time fin, of tick tock] legal by simp
  next
    case Db_Closed_Event
    have "close_flag s" using inv legal Db_Closed_Event by (auto simp: cm_inv_def shutdown_inv_def)
    with finish_close_step [OF inv le fin this, of e] Db_Closed_Event show ?thesis
      by (intro exI [of _ "fst (finish_close s)"] exI [of _ "snd (finish_close s)"]) (simp add: record_event_def)
  next
    case (Close_Event n)
    then show ?thesis using close_step [OF inv le fin, of n] by simp
  qed
qed

lemma cm_reach_inv: "cm_reach p s h \<Longrightarrow> cm_inv p s h"
proof (induction rule: cm_reach.induct)
  case (start t recovered saved difference s ms)
  then show ?case by (rule cm_inv_start)
next
  case (handle s h e t t' s' ms)
  then show ?case using cm_step_ok [OF handle.IH handle.hyps(2-6)] by auto
next
  case (clients_work s h q d db)
  let ?s = "s\<lparr>shared_tqueue := q, webhook_db := db, unix_time_difference := d\<rparr>"
  have "client_inv ?s (h_present h) (h_logged h)" "quota_inv p ?s (h_streams h)"
    using clients_work.IH client_inv_cong [of ?s s] quota_inv_cong [of ?s s p] by (simp_all add: cm_inv_def)
  then show ?case
    using clients_work.IH clients_work.hyps(2) by (simp add: cm_inv_def flood_inv_def shutdown_inv_def)
qed


subsection \<open>Properties\<close>

text \<open>
  (C10) The manager never aborts. In every reachable state every message its senders may send is handled
  to the end: no \<open>CHECK\<close> fails, no client is looked up that is not there, and the state stays reachable.
\<close>

theorem manager_never_aborts:
  assumes "cm_reach p s h" and "\<not> close_finished s" and "legal e h" and "h_time h \<le> t" and "t \<le> t'"
    and "container_room (clients s)"
  shows "\<exists>s' ms. cm_handle p t t' e s = Some (s', ms) \<and> cm_reach p s' (record_event t' e ms h)"
  using cm_step_ok [OF cm_reach_inv [OF assms(1)] assms(2-6)] cm_reach.handle [OF assms] by blast

text \<open>A server for all bots with eight stream slots, just started.\<close>

definition sample_params :: cm_params where
  "sample_params = \<lparr>p_local_mode = False, p_streaming_enabled = True, p_max_connections = 8, p_range_rem = 0,
     p_range_mod = 1, p_norm_ip = (\<lambda>ip. None), p_ip_str = (\<lambda>ip. [])\<rparr>"

definition sample_manager :: client_manager where
  "sample_manager = fst (cm_start_up sample_params 0 new_tqueue [] 0)"

definition sample_history :: history where
  "sample_history = initial_history 0 [Start_Watchdog, Set_Timeout_In 600]"

lemma sample_reach: "cm_reach sample_params sample_manager sample_history"
  unfolding sample_history_def
  by (rule cm_reach.start [of 0 new_tqueue _ "[]" 0])
    (simp_all add: tq_inv_new sample_manager_def cm_start_up_def)

lemma sample_facts:
  "\<not> close_finished sample_manager" "container_room (clients sample_manager)" "h_time sample_history = 0"
  by (simp_all add: sample_manager_def cm_start_up_def container_room_def new_container_def sample_history_def
      initial_history_def)

theorem manager_never_aborts_witness:
  "\<exists>s' ms. cm_handle sample_params 1 2 (Close_Event 7) sample_manager = Some (s', ms)"
  using manager_never_aborts [OF sample_reach sample_facts(1), of "Close_Event 7" 1 2] sample_facts by auto

text \<open>
  (C12) Stream quotas: in every reachable state the streams admitted and not released are at most the
  configured number, those of one bot at most a quarter of it (or one), and the counter kept per bot is
  the number of its streams, whatever streams were refused, released twice or released unseen.
\<close>

theorem stream_quotas:
  assumes "cm_reach p s h" and "0 \<le> p_max_connections p" and "p_max_connections p < 2 ^ 31"
  shows "int (card (active_file_stream_ids s)) \<le> p_max_connections p \<and>
    stream_count s key = int (card {sid \<in> active_file_stream_ids s. active_file_stream_token s sid = Some key}) \<and>
    int (card {sid \<in> active_file_stream_ids s. active_file_stream_token s sid = Some key}) \<le>
      max 1 (p_max_connections p div 4) \<and>
    dom (active_file_stream_token s) = active_file_stream_ids s"
proof -
  have inv: "quota_inv p s (h_streams h)" using cm_reach_inv [OF assms(1)] by (simp add: cm_inv_def)
  then have count: "stream_count s key = int (card (streams_of s key))" "stream_count s key \<le> per_bot_limit p"
    unfolding quota_inv_def by blast+
  with inv assms(2,3) show ?thesis by (auto simp: quota_inv_def streams_of_def per_bot_limit_def)
qed

lemma sample_user: "token_user_id ''5:a'' = Some 5"
proof -
  have "char_of (53 :: nat) = CHR ''5''" by code_simp
  then show ?thesis by (simp add: token_user_id_def to_integer_safe_iff show_int_def show_nat.simps)
qed

lemma sample_create:
  "\<exists>c. create_client ''5:a'' False 5 sample_manager =
     Some (0x100, sample_manager\<lparr>clients := c\<rparr>, [Create_Client 0x100 ''5:a'' False 5]) \<and>
   container_get c 0x100 = Some \<lparr>ci_token = ''5:a'', ci_tqueue_id = 5\<rparr>"
  by (simp add: create_client_def sample_manager_def cm_start_up_def container_create_def container_store_def
      new_container_def encode_id_def generation_step_def container_get_def decode_id_def get_tqueue_id_def token_key_def
      Let_def)

lemma sample_stream:
  "\<exists>s' ms. cm_handle sample_params 1 2 (Stream_Event False 7 ''5:a'' False ''f'' 0 []) sample_manager = Some (s', ms) \<and>
     active_file_stream_ids s' = {7}"
proof -
  from sample_create obtain c where
    cr: "create_client ''5:a'' False 5 sample_manager =
      Some (0x100, sample_manager\<lparr>clients := c\<rparr>, [Create_Client 0x100 ''5:a'' False 5])"
    and get: "container_get c 0x100 = Some \<lparr>ci_token = ''5:a'', ci_tqueue_id = 5\<rparr>" by blast
  have s: "\<not> close_flag sample_manager" "active_file_stream_ids sample_manager = {}"
    "token_to_id sample_manager = Map.empty" "active_file_streams_by_token sample_manager = Map.empty"
    "\<not> is_global_flood_control_enabled sample_manager"
    by (simp_all add: sample_manager_def cm_start_up_def)
  have p: "p_streaming_enabled sample_params" "p_max_connections sample_params = 8" "token_range sample_params 5"
    by (simp_all add: sample_params_def token_range_def)
  have "check_flood sample_params [] 1 2 sample_manager = Some (None, sample_manager)"
    using s by (simp add: check_flood_def check_ip_flood_def check_global_flood_def)
  then show ?thesis
    using s p cr get sample_user
    by (simp add: send_file_stream_def malformed_token_def stream_count_def per_bot_limit_def add_token_def admit_stream_def
        Let_def)
qed

theorem stream_quotas_witness:
  "\<exists>s :: client_manager. active_file_stream_ids s = {7} \<and> int (card (active_file_stream_ids s)) \<le> p_max_connections sample_params"
proof -
  let ?e = "Stream_Event False 7 ''5:a'' False ''f'' 0 []"
  obtain s ms where run: "cm_handle sample_params 1 2 ?e sample_manager = Some (s, ms)" "active_file_stream_ids s = {7}"
    using sample_stream by blast
  have "cm_reach sample_params s (record_event 2 ?e ms sample_history)"
    by (rule cm_reach.handle [OF sample_reach sample_facts(1) _ _ _ sample_facts(2) run(1)])
      (simp_all add: sample_facts sample_history_def initial_history_def)
  from stream_quotas [OF this, of "''5:a''"] have "int (card (active_file_stream_ids s)) \<le> p_max_connections sample_params"
    by (simp add: sample_params_def)
  with run(2) show ?thesis by (intro exI [of _ s] conjI)
qed

text \<open>
  (C11) Routing: a query is either given back to its sender answered, or handed to exactly one client, the
  one of its own token and data center, which then exists; the same holds of a file stream, which is
  refused with one error or started at the client of its bot.
\<close>

theorem requests_reach_their_bot:
  assumes "cm_reach p s h" and "h_time h \<le> t" and "t \<le> t'" and "container_room (clients s)"
    and "q_state q = State_Query" and "sid \<notin> h_streams h"
  shows "(\<exists>s' ms. send p t t' q s = Some (s', ms) \<and> (answered q ms \<or> routed s' q ms)) \<and>
    (\<exists>s' ms. send_file_stream p emergency t t' sid token test fid expected ip s = Some (s', ms) \<and>
      ((\<exists>err. ms = [Stream_Error sid err]) \<or>
       (\<exists>pre ident. ms = pre @ [Set_Client sid ident, Start_File_Stream ident sid fid expected] \<and>
          serves s' (token_key token test) ident)))"
proof -
  note inv = cm_reach_inv [OF assms(1)]
  have "query_settled p h t' q (send p t t' q s)" by (rule send_settled [OF inv assms(2-5)])
  moreover have "stream_settled p h t' (Stream_Event emergency sid token test fid expected ip) sid (token_key token test)
      fid expected (send_file_stream p emergency t t' sid token test fid expected ip s)"
    by (rule send_file_stream_settled [OF inv assms(2-4,6) refl])
  ultimately show ?thesis unfolding query_settled_def stream_settled_def by blast
qed

theorem requests_reach_their_bot_witness:
  "\<exists>s' ms. send sample_params 1 2 (new_query [] ''5:a'' False ''getMe'' [] [] [] InvalidAddress False) sample_manager =
     Some (s', ms)"
proof -
  let ?q = "new_query [] ''5:a'' False ''getMe'' [] [] [] InvalidAddress False"
  have "h_time sample_history \<le> 1" "(1 :: real) \<le> 2" "q_state ?q = State_Query" "7 \<notin> h_streams sample_history"
    by (simp_all add: sample_history_def initial_history_def new_query_def)
  from requests_reach_their_bot [OF sample_reach this(1,2) sample_facts(2) this(3,4)] show ?thesis by blast
qed

text \<open>
  (C13) Shutdown: the promises of all \<open>close\<close> requests are resolved exactly once and in order when the
  manager finishes, and none before. Once a shutdown began no client is created and no stream
  admitted any more, and when the deadline passes the manager finishes, whatever the clients do.
\<close>

theorem shutdown_resolves_all:
  assumes "cm_reach p s h"
  shows "sent_promises (h_sent h) = (if close_finished s then h_requested h else []) \<and>
    (close_flag s \<and> \<not> close_finished s \<longrightarrow>
      (\<exists>s' ms. cm_timeout_expired p tick tock t t' s = Some (s', ms) \<and>
         close_finished s' \<and> sent_promises ms = h_requested h \<and> Stop_Manager \<in> set ms)) \<and>
    (close_flag s \<longrightarrow>
      (\<exists>ms. send p t t' q s = Some (s, ms) \<and> answered q ms) \<and>
      (\<exists>err. send_file_stream p emergency t t' sid token test fid expected ip s = Some (s, [Stream_Error sid err])))"
proof (intro conjI impI)
  have inv: "shutdown_inv s h" using cm_reach_inv [OF assms] by (simp add: cm_inv_def)
  then show "sent_promises (h_sent h) = (if close_finished s then h_requested h else [])" by (simp add: shutdown_inv_def)
  show "\<exists>s' ms. cm_timeout_expired p tick tock t t' s = Some (s', ms) \<and>
      close_finished s' \<and> sent_promises ms = h_requested h \<and> Stop_Manager \<in> set ms"
    if "close_flag s \<and> \<not> close_finished s"
    using inv that by (simp add: cm_timeout_expired_def finish_close_def shutdown_inv_def)
  show "\<exists>ms. send p t t' q s = Some (s, ms) \<and> answered q ms" if "close_flag s"
    using drop_query_some [of q] that by (auto simp: send_def)
  show "\<exists>err. send_file_stream p emergency t t' sid token test fid expected ip s = Some (s, [Stream_Error sid err])"
    if "close_flag s" using that by (cases emergency) (simp_all add: send_file_stream_def Let_def)
qed

theorem shutdown_resolves_all_witness:
  "\<exists>s s' ms. close 7 sample_manager = Some (s, [Reset_Watchdog, Set_Timeout_In 30, Set_Timeout_In 10, Close_Tqueue,
       Close_Webhook_Db]) \<and>
     cm_timeout_expired sample_params (\<lambda>c. False) (\<lambda>c. False) 40 40 s = Some (s', ms) \<and> sent_promises ms = [7]"
proof -
  let ?ms = "[Reset_Watchdog, Set_Timeout_In 30, Set_Timeout_In 10, Close_Tqueue, Close_Webhook_Db]"
  obtain s where cl: "close 7 sample_manager = Some (s, ?ms)" "close_flag s" "\<not> close_finished s"
    by (simp add: close_def close_db_def sample_manager_def cm_start_up_def container_ids_def new_container_def Let_def)
  have "cm_reach sample_params s (record_event 2 (Close_Event 7) ?ms sample_history)"
    by (rule cm_reach.handle [OF sample_reach sample_facts(1) _ _ _ sample_facts(2), of _ 1])
      (use cl in \<open>simp_all add: sample_facts\<close>)
  moreover have "h_requested (record_event 2 (Close_Event 7) ?ms sample_history) = [7]"
    by (simp add: record_event_def sample_history_def initial_history_def)
  ultimately show ?thesis
    using shutdown_resolves_all [of sample_params s "record_event 2 (Close_Event 7) ?ms sample_history"] cl by metis
qed

end
