(* ===== verification/Client_Webhook_Proofs.thy ===== *)
theory Client_Webhook_Proofs
  imports Client_Webhook Client_Manager_Spec Json_Skip
begin

section \<open>Webhooks survive a restart, and every \<open>setWebhook\<close> is answered\<close>

text \<open>
  The value saved for a webhook is read back by \<open>get_webhook_restore_query\<close> and the query it yields
  sets the same webhook again. The second part treats the webhook of a client as a transition
  system: what its callers guarantee, the invariant of the states, and that no \<open>CHECK\<close> fails.
\<close>

subsection \<open>Reading a saved webhook\<close>

lemma restore_arg_found:
  assumes "CHR ''/'' \<notin> set v"
  shows "restore_arg tag name \<lparr>rest = tag @ v @ CHR ''/'' # s, failure = None\<rparr> =
    ([(name, v)], \<lparr>rest = s, failure = None\<rparr>)"
  using assms by (simp add: restore_arg_def try_skip_prefix read_till_found [where xs = v and ys = s] skip_found)

lemma restore_arg_missing:
  "\<not> begins_with s tag \<Longrightarrow> restore_arg tag name \<lparr>rest = s, failure = None\<rparr> = ([], \<lparr>rest = s, failure = None\<rparr>)"
  by (auto simp: restore_arg_def try_skip_def begins_with_def)

lemma try_skip_missing: "\<not> begins_with s tag \<Longrightarrow> try_skip tag \<lparr>rest = s, failure = None\<rparr> = (False, \<lparr>rest = s, failure = None\<rparr>)"
  by (auto simp: try_skip_def begins_with_def)

lemma try_skip_present: "try_skip tag \<lparr>rest = tag @ s, failure = None\<rparr> = (True, \<lparr>rest = s, failure = None\<rparr>)"
  by (simp add: try_skip_def)

lemma begins_with_Cons [simp]:
  "begins_with (x # xs) (y # ys) \<longleftrightarrow> x = y \<and> begins_with xs ys" "\<not> begins_with [] (y # ys)" "begins_with s []"
  by (auto simp: begins_with_def)

lemma begins_with_hd: "hd s \<noteq> c \<Longrightarrow> \<not> begins_with s (c # t)"
  by (cases s) (auto simp: begins_with_def)

text \<open>An optional field of the saved value, and what it is read back to.\<close>

definition field_text :: "string \<Rightarrow> string option \<Rightarrow> string" where
  "field_text tag v = (case v of None \<Rightarrow> [] | Some v \<Rightarrow> tag @ v @ ''/'')"

definition field_arg :: "string \<Rightarrow> string option \<Rightarrow> (string \<times> string) list" where
  "field_arg name v = (case v of None \<Rightarrow> [] | Some v \<Rightarrow> [(name, v)])"

lemma map_of_field_arg: "map_of (field_arg name v) key = (if key = name then v else None)"
  by (simp add: field_arg_def split: option.split)

lemma restore_field:
  assumes "\<And>x. v = Some x \<Longrightarrow> CHR ''/'' \<notin> set x" and "v = None \<Longrightarrow> \<not> begins_with s tag"
  shows "restore_arg tag name \<lparr>rest = field_text tag v @ s, failure = None\<rparr> =
    (field_arg name v, \<lparr>rest = s, failure = None\<rparr>)"
  using assms restore_arg_found [of "the v" tag name s] restore_arg_missing [of s tag name]
  by (cases v) (auto simp: field_text_def field_arg_def)

definition saved_fields :: "webhook \<Rightarrow> string option \<times> string option \<times> string option" where
  "saved_fields c =
     (if webhook_ip_address c = [] then None else Some (webhook_ip_address c),
      if webhook_secret_token c = [] then None else Some (webhook_secret_token c),
      if allowed_update_types c = default_allowed_update_types then None
      else Some (show_nat (unat (allowed_update_types c))))"

definition storable :: "webhook \<Rightarrow> bool" where
  "storable c \<longleftrightarrow> webhook_url c \<noteq> [] \<and> hd (webhook_url c) \<noteq> CHR ''#'' \<and> CHR ''/'' \<notin> set (webhook_ip_address c) \<and>
     is_base64url_characters (webhook_secret_token c) \<and> length (webhook_secret_token c) \<le> 256 \<and> allowed_update_types c \<noteq> 0"

lemma base64url_no_slash: "is_base64url_characters s \<Longrightarrow> CHR ''/'' \<notin> set s"
proof
  assume "is_base64url_characters s" "CHR ''/'' \<in> set s"
  then have "CHR ''/'' \<in> set ''ABCDEFGHIJKLMNOPQRSTUVWXYZabcdefghijklmnopqrstuvwxyz0123456789-_''"
    unfolding is_base64url_characters_def list_all_iff by blast
  then show False by simp
qed

lemma show_nat_no_slash: "CHR ''/'' \<notin> set (show_nat n)"
  using show_nat_digits [of n] by (auto simp: list_all_iff is_digit_def byte_def)

lemma show_int_no_slash: "CHR ''/'' \<notin> set (show_int n)"
  using show_nat_no_slash by (simp add: show_int_def)

lemma webhook_value_fields:
  assumes "saved_fields c = (ip, secret, allow)"
  shows "webhook_value c = (if has_webhook_certificate c then ''cert/'' else []) @
    field_text ''#maxc'' (Some (show_int (webhook_max_connections c))) @ field_text ''#ip'' ip @
    (if webhook_fix_ip_address c then ''#fix_ip/'' else []) @ field_text ''#secret'' secret @ field_text ''#allow'' allow @
    webhook_url c"
  using assms by (auto simp: webhook_value_def saved_fields_def field_text_def)

lemma restore_args_saved:
  assumes "storable c" and f: "saved_fields c = (ip, secret, allow)"
  shows "restore_args (webhook_value c) =
    (if has_webhook_certificate c then [(''certificate'', ''previous'')] else []) @
    [(''max_connections'', show_int (webhook_max_connections c))] @ field_arg ''ip_address'' ip @
    (if webhook_fix_ip_address c then [(''fix_ip_address'', ''1'')] else []) @ field_arg ''secret_token'' secret @
    field_arg ''allowed_updates'' allow @ [(''url'', webhook_url c)]"
proof -
  let ?u = "webhook_url c"
  let ?allow = "field_text ''#allow'' allow @ ?u"
  let ?secret = "field_text ''#secret'' secret @ ?allow"
  let ?fix = "(if webhook_fix_ip_address c then ''#fix_ip/'' else []) @ ?secret"
  let ?ip = "field_text ''#ip'' ip @ ?fix"
  have hd: "hd ?u \<noteq> CHR ''#''" "?u \<noteq> []" using assms(1) by (simp_all add: storable_def)
  have slash: "ip = Some x \<Longrightarrow> CHR ''/'' \<notin> set x" "secret = Some x \<Longrightarrow> CHR ''/'' \<notin> set x"
      "allow = Some x \<Longrightarrow> CHR ''/'' \<notin> set x" for x
    using assms base64url_no_slash show_nat_no_slash by (auto simp: saved_fields_def storable_def split: if_splits)
  have tags: "\<not> begins_with ?u (CHR ''#'' # t)" for t using hd by (intro begins_with_hd) auto
  have allow: "\<not> begins_with ?allow ''#secret''" using tags by (auto simp: field_text_def split: option.splits)
  have secret: "\<not> begins_with ?secret ''#fix_ip''" using tags allow
    by (auto simp: field_text_def split: option.splits)
  have fix_ip: "\<not> begins_with ?fix ''#ip''" using tags
    by (auto simp: field_text_def split: option.splits)
  have cert: "try_skip ''cert/'' (new_parser (webhook_value c)) =
      (has_webhook_certificate c, \<lparr>rest = field_text ''#maxc'' (Some (show_int (webhook_max_connections c))) @ ?ip, failure = None\<rparr>)"
    unfolding webhook_value_fields [OF f] new_parser_def
    by (auto simp: try_skip_def field_text_def)
  have maxc: "restore_arg ''#maxc'' ''max_connections''
      \<lparr>rest = field_text ''#maxc'' (Some (show_int (webhook_max_connections c))) @ ?ip, failure = None\<rparr> =
      (field_arg ''max_connections'' (Some (show_int (webhook_max_connections c))), \<lparr>rest = ?ip, failure = None\<rparr>)"
    using show_int_no_slash by (intro restore_field) auto
  have ip: "restore_arg ''#ip'' ''ip_address'' \<lparr>rest = ?ip, failure = None\<rparr> =
      (field_arg ''ip_address'' ip, \<lparr>rest = ?fix, failure = None\<rparr>)"
    using slash(1) fix_ip by (intro restore_field) auto
  have fix': "try_skip ''#fix_ip'' \<lparr>rest = ?fix, failure = None\<rparr> =
      (webhook_fix_ip_address c, \<lparr>rest = (if webhook_fix_ip_address c then CHR ''/'' # ?secret else ?secret), failure = None\<rparr>)"
    using try_skip_missing [OF secret] try_skip_present [of "''#fix_ip''" "CHR ''/'' # ?secret"]
    by (cases "webhook_fix_ip_address c") auto
  have secret': "restore_arg ''#secret'' ''secret_token'' \<lparr>rest = ?secret, failure = None\<rparr> =
      (field_arg ''secret_token'' secret, \<lparr>rest = ?allow, failure = None\<rparr>)"
    using slash(2) allow by (intro restore_field) auto
  have allow': "restore_arg ''#allow'' ''allowed_updates'' \<lparr>rest = ?allow, failure = None\<rparr> =
      (field_arg ''allowed_updates'' allow, \<lparr>rest = ?u, failure = None\<rparr>)"
    using slash(3) tags by (intro restore_field) auto
  have skip': "(if webhook_fix_ip_address c
        then skip CHR ''/'' \<lparr>rest = (if webhook_fix_ip_address c then CHR ''/'' # ?secret else ?secret), failure = None\<rparr>
        else \<lparr>rest = (if webhook_fix_ip_address c then CHR ''/'' # ?secret else ?secret), failure = None\<rparr>) =
      \<lparr>rest = ?secret, failure = None\<rparr>"
    by (simp add: skip_def)
  show ?thesis
    unfolding restore_args_def cert Let_def prod.case maxc ip fix' skip' secret' allow' read_all_def
    by (simp add: field_arg_def)
qed

lemma json_decode_number: "json_decode (show_nat n) = Some (Inr (JNumber (show_nat n)))"
proof -
  have "show_int (int n) = show_nat n" by (simp add: show_int_def)
  then have "json_ok (Suc default_max_depth) (JNumber (show_nat n))" using show_int_number [of "int n"] by simp
  from json_decode_encode [OF this, of False] show ?thesis by (simp add: json_encode_def)
qed

lemma get_allowed_number:
  "get_allowed_update_types (show_nat (unat w)) True = Some w"
proof -
  have "to_unsigned_safe 64 (show_nat (unat w)) = Some (unat w)"
    using unsigned_less [of w] by (simp add: to_unsigned_safe_iff)
  then show ?thesis by (simp add: get_allowed_update_types_def json_decode_number)
qed

text \<open>The query that restores the webhook of a client.\<close>

definition restore_query :: "string \<Rightarrow> bool \<Rightarrow> webhook \<Rightarrow> query" where
  "restore_query token test c = get_webhook_restore_query (token @ (if test then '':T'' else [])) (webhook_value c)"

lemma restore_query_args:
  assumes "storable c" and "test \<or> \<not> ends_with token '':T''"
  defines "q \<equiv> restore_query token test c"
  shows "q_token q = token" "q_is_test_dc q = test" "q_method q = ''setwebhook''" "q_is_internal q"
    "arg q ''url'' = webhook_url c" "arg q ''secret_token'' = webhook_secret_token c"
    "arg q ''ip_address'' = webhook_ip_address c" "has_arg q ''fix_ip_address'' = webhook_fix_ip_address c"
    "arg q ''max_connections'' = show_int (webhook_max_connections c)" "arg q ''drop_pending_updates'' = []"
    "(arg q ''certificate'' = ''previous'') = has_webhook_certificate c"
    "arg q ''allowed_updates'' = (if allowed_update_types c = default_allowed_update_types then []
       else show_nat (unat (allowed_update_types c)))"
    "q_state q = State_Query" "q_retry_after q = 0"
proof -
  obtain ip secret allow where f: "saved_fields c = (ip, secret, allow)" by (cases "saved_fields c") auto
  have ends: "ends_with (token @ (if test then '':T'' else [])) '':T'' = test"
    using assms(2) by (auto simp: ends_with_def)
  have "q = new_query (([token @ (if test then '':T'' else [])] @
      concat (map (\<lambda>(k, v). [k, v]) (restore_args (webhook_value c))) @ [''setwebhook'']))
      token test ''setwebhook'' (restore_args (webhook_value c)) [] [] InvalidAddress True"
    unfolding q_def restore_query_def get_webhook_restore_query_def Let_def ends by simp
  then have q: "q_token q = token" "q_is_test_dc q = test" "q_method q = to_lower ''setwebhook''" "q_is_internal q"
    "q_args q = restore_args (webhook_value c)" "q_state q = State_Query" "q_retry_after q = 0"
    by (simp_all add: new_query_def)
  note args = q(5) [unfolded restore_args_saved [OF assms(1) f]]
  show "q_method q = ''setwebhook''" unfolding q(3) by code_simp
  show "arg q ''url'' = webhook_url c" "arg q ''secret_token'' = webhook_secret_token c"
    "arg q ''ip_address'' = webhook_ip_address c" "has_arg q ''fix_ip_address'' = webhook_fix_ip_address c"
    "arg q ''max_connections'' = show_int (webhook_max_connections c)" "arg q ''drop_pending_updates'' = []"
    "(arg q ''certificate'' = ''previous'') = has_webhook_certificate c"
    "arg q ''allowed_updates'' = (if allowed_update_types c = default_allowed_update_types then []
       else show_nat (unat (allowed_update_types c)))"
    using f by (simp_all add: arg_def has_arg_def find_value_def args map_add_def map_of_field_arg saved_fields_def
        split: option.split) (auto split: if_splits)
  show "q_token q = token" "q_is_test_dc q = test" "q_is_internal q" "q_state q = State_Query" "q_retry_after q = 0"
    by (fact q)+
qed

lemma to_bool_Nil: "\<not> to_bool []"
  by code_simp

lemma update_allowed_restored:
  assumes "storable c" and "test \<or> \<not> ends_with token '':T''" and "allowed_update_types c0 = default_allowed_update_types"
  shows "\<exists>b ms. update_allowed_update_types (restore_query token test c) c0 =
    Some (b, c0\<lparr>allowed_update_types := allowed_update_types c\<rparr>, ms)"
proof (cases "allowed_update_types c = default_allowed_update_types")
  case True
  then show ?thesis
    using assms by (auto simp: update_allowed_update_types_def restore_query_args get_allowed_update_types_def)
next
  case False
  have "allowed_update_types c \<noteq> 0" using assms(1) by (simp add: storable_def)
  then show ?thesis
    using False assms by (auto simp: update_allowed_update_types_def restore_query_args get_allowed_number)
qed

text \<open>
  (C16) Webhooks survive a restart: the query that the manager builds from the saved value of a webhook,
  given to a new client of the same bot, starts a webhook with the same URL, certificate, number of
  connections, address, secret token and allowed update types, and addresses the same bot and data center.
\<close>

theorem webhook_survives_restart:
  assumes "storable c" and "test \<or> \<not> ends_with token '':T''" and "wp_url_ok p (webhook_url c)"
    and "1 \<le> webhook_max_connections c" and "webhook_max_connections c \<le> (if wp_local_mode p then 100000 else 100)"
  defines "q \<equiv> get_webhook_restore_query (token @ (if test then '':T'' else [])) (webhook_value c)"
  shows "q_token q = token \<and> q_is_test_dc q = test \<and>
    (\<exists>c' ms. process_set_webhook_query p now q (new_webhook saved) =
        Some (c', ms @ [Start_Webhook_Actor (webhook_generation c') (webhook_url c) (has_webhook_certificate c)
          (webhook_max_connections c) True (webhook_ip_address c) (webhook_fix_ip_address c) (webhook_secret_token c)]) \<and>
      webhook_url c' = webhook_url c \<and> has_webhook_certificate c' = has_webhook_certificate c \<and>
      webhook_max_connections c' = webhook_max_connections c \<and> webhook_ip_address c' = webhook_ip_address c \<and>
      webhook_fix_ip_address c' = webhook_fix_ip_address c \<and> webhook_secret_token c' = webhook_secret_token c \<and>
      allowed_update_types c' = allowed_update_types c)"
proof -
  have q: "q = restore_query token test c" by (simp add: q_def restore_query_def)
  note args = restore_query_args [OF assms(1,2), folded q]
  have max: "get_webhook_max_connections p q = webhook_max_connections c"
    using assms(4,5) to_integer_show_int [of 32 "webhook_max_connections c"]
    by (auto simp: get_webhook_max_connections_def get_integer_arg_def args clamp_def show_int_def split: if_splits)
  have fix_ip: "get_webhook_fix_ip_address q = webhook_fix_ip_address c"
    by (simp add: get_webhook_fix_ip_address_def args)
  have url: "webhook_url c \<noteq> []" "is_base64url_characters (webhook_secret_token c)"
    "length (webhook_secret_token c) \<le> 256" using assms(1) by (simp_all add: storable_def)
  define c0 where "c0 = (new_webhook saved)\<lparr>next_bot_updates_warning_time := max (next_bot_updates_warning_time (new_webhook saved)) (now + 30),
    webhook_generation := webhook_generation (new_webhook saved) + 1\<rparr>"
  define c1 where "c1 = c0\<lparr>has_webhook_certificate := has_webhook_certificate c, webhook_url := webhook_url c,
    webhook_max_connections := webhook_max_connections c, webhook_secret_token := webhook_secret_token c,
    webhook_ip_address := webhook_ip_address c, webhook_fix_ip_address := webhook_fix_ip_address c,
    last_webhook_error := None\<rparr>"
  have "allowed_update_types c1 = default_allowed_update_types" by (simp add: c1_def c0_def new_webhook_def)
  from update_allowed_restored [OF assms(1,2) this] obtain b ms where
    upd: "update_allowed_update_types q c1 = Some (b, c1\<lparr>allowed_update_types := allowed_update_types c\<rparr>, ms)"
    unfolding q by blast
  let ?c = "c1\<lparr>allowed_update_types := allowed_update_types c, webhook_id := True, webhook_query_type := Verify,
    webhook_set_query := Some q\<rparr>"
  have c0: "webhook_url c0 = []" "\<not> has_webhook_certificate c0" "webhook_set_query c0 = None"
      "active_webhook_set_query c0 = None" "\<not> logging_out c0" "\<not> closing c0"
    by (simp_all add: c0_def new_webhook_def)
  have "finish_set_webhook p now q (c0\<lparr>has_webhook_certificate := has_webhook_certificate c\<rparr>) =
      Some (?c, ms @ [Start_Webhook_Actor (webhook_generation ?c) (webhook_url c) (has_webhook_certificate c)
        (webhook_max_connections c) True (webhook_ip_address c) (webhook_fix_ip_address c) (webhook_secret_token c)])"
    using c0 upd url assms(3) unfolding finish_set_webhook_def Let_def args max fix_ip
    by (simp add: args c1_def [symmetric]) (simp add: c1_def)
  then have "do_set_webhook p now q False c0 =
      Some (?c, ms @ [Start_Webhook_Actor (webhook_generation ?c) (webhook_url c) (has_webhook_certificate c)
        (webhook_max_connections c) True (webhook_ip_address c) (webhook_fix_ip_address c) (webhook_secret_token c)])"
    using c0 url assms(3) by (simp add: do_set_webhook_def do_set_url_def args to_bool_Nil)
  then have "process_set_webhook_query p now q (new_webhook saved) =
      Some (?c, [Abort_Long_Poll] @ ms @ [Start_Webhook_Actor (webhook_generation ?c) (webhook_url c)
        (has_webhook_certificate c) (webhook_max_connections c) True (webhook_ip_address c) (webhook_fix_ip_address c)
        (webhook_secret_token c)])"
    using url unfolding process_set_webhook_query_def replace_webhook_def webhook_not_modified_def Let_def args
    by (simp add: args c0_def new_webhook_def)
  then show ?thesis using args(1,2)
    by (intro conjI exI [of _ ?c] exI [of _ "[Abort_Long_Poll] @ ms"]) (simp_all add: c1_def)
qed

theorem webhook_survives_restart_witness:
  "let c = (new_webhook None)\<lparr>webhook_url := ''https://e.org/h'', webhook_max_connections := 40, webhook_ip_address := ''1.2.3.4'',
       webhook_fix_ip_address := True, webhook_secret_token := ''s-3'', allowed_update_types := 5\<rparr>
   in \<exists>c' ms. process_set_webhook_query \<lparr>wp_default_max_connections = 40, wp_local_mode = False, wp_url_ok = (\<lambda>u. True)\<rparr> 0
        (get_webhook_restore_query ''5:a'' (webhook_value c)) (new_webhook None) = Some (c', ms) \<and>
      webhook_url c' = ''https://e.org/h'' \<and> allowed_update_types c' = 5"
proof -
  let ?c = "(new_webhook None)\<lparr>webhook_url := ''https://e.org/h'', webhook_max_connections := 40, webhook_ip_address := ''1.2.3.4'',
       webhook_fix_ip_address := True, webhook_secret_token := ''s-3'', allowed_update_types := 5\<rparr>"
  have st: "storable ?c" by (simp add: storable_def is_base64url_characters_def)
  have tok: "False \<or> \<not> ends_with ''5:a'' '':T''" by (simp add: ends_with_def)
  from webhook_survives_restart [OF st tok, of "\<lparr>wp_default_max_connections = 40, wp_local_mode = False, wp_url_ok = (\<lambda>u. True)\<rparr>"
      0 None]
  show ?thesis by (auto simp: Let_def)
qed

subsection \<open>Answers\<close>

definition pend :: "query option \<Rightarrow> nat" where
  "pend q = (case q of None \<Rightarrow> 0 | Some q \<Rightarrow> if q_is_internal q then 0 else 1)"

definition npending :: "webhook \<Rightarrow> nat" where
  "npending c = pend (webhook_set_query c) + pend (active_webhook_set_query c)"

fun reply_count :: "client_message \<Rightarrow> nat" where
  "reply_count (Reply q) = 1"
| "reply_count (Reply_Later message q) = (if q_is_internal q then 0 else 1)"
| "reply_count m = 0"

definition nreplies :: "client_message list \<Rightarrow> nat" where
  "nreplies ms = sum_list (map reply_count ms)"

lemma nreplies_simps [simp]:
  "nreplies [] = 0" "nreplies (m # ms) = reply_count m + nreplies ms" "nreplies (ms @ ms') = nreplies ms + nreplies ms'"
  by (simp_all add: nreplies_def)

lemma pend_simps [simp]: "pend None = 0" "pend (Some q) = (if q_is_internal q then 0 else 1)"
  by (simp_all add: pend_def)

definition copies :: "client_message list \<Rightarrow> bool" where
  "copies ms \<longleftrightarrow> (\<exists>f n. Copy_Certificate f n \<in> set ms)"

lemma copies_simps [simp]:
  "\<not> copies []" "copies (ms @ ms') \<longleftrightarrow> copies ms \<or> copies ms'"
  "copies (m # ms) \<longleftrightarrow> (\<exists>f n. m = Copy_Certificate f n) \<or> copies ms"
  by (auto simp: copies_def)

text \<open>An answer: one reply to a caller that waits for it, and nothing else.\<close>

definition one_reply :: "query \<Rightarrow> client_message list option \<Rightarrow> bool" where
  "one_reply q r \<longleftrightarrow> (\<exists>ms. r = Some ms \<and> nreplies ms = pend (Some q) \<and> \<not> copies ms)"

lemma reply_some:
  assumes "q_is_internal q' = q_is_internal q"
  shows "one_reply q (reply (Some q'))"
proof -
  obtain ms where "drop_query (Some q') = Some ms" using drop_query_some by blast
  then show ?thesis using assms by (auto simp: drop_query_def reply_def one_reply_def split: if_splits)
qed

lemma reply_failed:
  assumes "list_all (\<lambda>c. byte c < 128) d" and "q_state q = State_Query"
  shows "one_reply q (reply (fail_query code d [] q))"
proof -
  from fail_query_ok [OF assms, of code] obtain b where
    "fail_query code d [] q = Some (q\<lparr>q_answer := b, q_state := State_Error, q_http_status_code := code\<rparr>)" by blast
  then show ?thesis using reply_some by simp
qed

lemma reply_failed_utf8:
  assumes "check_utf8 d" and "q_state q = State_Query"
  shows "one_reply q (reply (fail_query code d [] q))"
proof -
  have "json_ok (Suc (Suc 0)) (query_error_value code d [])"
    using assms(1) show_int_number [of code] by (simp add: query_error_value_def ascii_check_utf8 byte_def)
  then obtain b where "json_encode (query_error_value code d []) False = Some b"
    using json_store_total [of _ _ "-1"] by (fastforce simp: json_encode_def)
  then have "fail_query code d [] q = Some (q\<lparr>q_answer := b, q_state := State_Error, q_http_status_code := code\<rparr>)"
    using assms(2) by (simp add: fail_query_def set_error_def)
  then show ?thesis using reply_some by simp
qed

lemma reply_retry:
  assumes "q_state q = State_Query"
  shows "one_reply q (reply (set_retry_after_error n q))"
proof -
  from retry_query_ok [OF assms, of n] obtain b where "set_retry_after_error n q =
    Some (q\<lparr>q_retry_after := n, q_answer := b, q_state := State_Error, q_http_status_code := 429\<rparr>)" by blast
  then show ?thesis using reply_some by simp
qed

lemma reply_true:
  assumes "list_all (\<lambda>c. byte c < 128) d" and "q_state q = State_Query"
  shows "one_reply q (reply (answer_query (JBoolean True) d q))"
proof -
  have "json_ok (Suc (Suc 0)) (query_ok_value (JBoolean True) d)"
    using assms(1) by (auto simp: query_ok_value_def ascii_check_utf8 byte_def)
  then obtain b where "json_encode (query_ok_value (JBoolean True) d) False = Some b"
    using json_store_total [of _ _ "-1"] by (fastforce simp: json_encode_def)
  then have "answer_query (JBoolean True) d q = Some (q\<lparr>q_answer := b, q_state := State_OK, q_http_status_code := 200\<rparr>)"
    using assms(2) by (simp add: answer_query_def set_ok_def)
  then show ?thesis using reply_some by simp
qed

text \<open>The answer of a closing client is a delay.\<close>

definition delayed :: "webhook \<Rightarrow> bool" where
  "delayed c \<longleftrightarrow> logging_out c \<and> \<not> is_api_id_invalid c \<and> next_authorization_time c > 0"

lemma closing_error_cases:
  assumes "logging_out c \<or> closing c"
  shows "if delayed c then \<exists>retry m. 0 < retry \<and> get_closing_error now c = Some (429, retry, m)
    else \<exists>code m. list_all (\<lambda>c. byte c < 128) m \<and> get_closing_error now c = Some (code, 0, m)"
  using assms by (auto simp: delayed_def get_closing_error_def Let_def byte_def)

text \<open>What a caller of \<open>fail_query_closing\<close> is left with.\<close>

definition closing_left :: "webhook \<Rightarrow> query \<Rightarrow> query option \<times> client_message list \<Rightarrow> bool" where
  "closing_left c q r \<longleftrightarrow> pend (fst r) + nreplies (snd r) = pend (Some q) \<and> \<not> copies (snd r) \<and>
     (if delayed c then snd r = [] \<and> (\<exists>q'. fst r = Some q' \<and> is_ready q' \<and> q_http_status_code q' = 429 \<and>
        q_is_internal q' = q_is_internal q) else fst r = None)"

lemma closing_kept:
  assumes "logging_out c \<or> closing c" and "q_state q = State_Query"
  shows "\<exists>r. fail_query_closing now q c = Some r \<and> closing_left c q r"
proof (cases "delayed c")
  case True
  then obtain retry m where delay: "0 < retry" "get_closing_error now c = Some (429, retry, m)"
    using closing_error_cases [OF assms(1), of now] by auto
  from retry_query_ok [OF assms(2), of retry] obtain b where "set_retry_after_error retry q =
    Some (q\<lparr>q_retry_after := retry, q_answer := b, q_state := State_Error, q_http_status_code := 429\<rparr>)" by blast
  then show ?thesis using delay True by (simp add: fail_query_closing_def closing_left_def is_ready_def)
next
  case False
  then obtain code m where plain: "list_all (\<lambda>c. byte c < 128) m" "get_closing_error now c = Some (code, 0, m)"
    using closing_error_cases [OF assms(1), of now] by auto
  then show ?thesis using reply_failed [OF plain(1) assms(2), of code] False
    by (auto simp: fail_query_closing_def closing_left_def one_reply_def)
qed

lemma closing_reply:
  assumes "logging_out c \<or> closing c" and "q_state q = State_Query"
  shows "one_reply q (fail_parameter_closing now q c)"
proof -
  from closing_kept [OF assms, of now] obtain left ms where
    r: "fail_query_closing now q c = Some (left, ms)" "closing_left c q (left, ms)" by auto
  show ?thesis
  proof (cases left)
    case None
    then show ?thesis using r by (simp add: fail_parameter_closing_def closing_left_def one_reply_def)
  next
    case (Some q')
    then have "delayed c" using r(2) by (auto simp: closing_left_def split: if_splits)
    then have "ms = []" "one_reply q (reply (Some q'))" using r(2) Some by (auto simp: closing_left_def intro: reply_some)
    then show ?thesis using r(1) Some by (auto simp: fail_parameter_closing_def one_reply_def)
  qed
qed

subsection \<open>The invariant\<close>

definition wh_inv :: "webhook_params \<Rightarrow> webhook \<Rightarrow> bool" where
  "wh_inv p c \<longleftrightarrow>
     (webhook_set_query c \<noteq> None \<longrightarrow> webhook_url c \<noteq> []) \<and> (active_webhook_set_query c \<noteq> None \<longrightarrow> webhook_url c = []) \<and>
     (has_webhook_certificate c \<longrightarrow> webhook_url c \<noteq> [] \<or> logging_out c \<or> closing c) \<and>
     (webhook_url c = [] \<longrightarrow> \<not> webhook_id c) \<and>
     (\<forall>q. webhook_set_query c = Some q \<longrightarrow> q_state q = State_Query) \<and>
     (\<forall>q. active_webhook_set_query c = Some q \<longrightarrow>
        q_state q = State_Query \<and> arg q ''url'' \<noteq> [] \<and> wp_url_ok p (arg q ''url''))"

text \<open>
  A handler returns, keeps the invariant, accounts for \<open>n\<close> queries (those it found waiting and the new
  one) between the replies it sends and the queries still waiting, and a copy of a certificate is under
  way afterwards if and only if it was before (\<open>k\<close>) or is started now.
\<close>

definition accounts :: "webhook_params \<Rightarrow> nat \<Rightarrow> bool \<Rightarrow> webhook_result \<Rightarrow> bool" where
  "accounts p n k r \<longleftrightarrow> (\<exists>c ms. r = Some (c, ms) \<and> wh_inv p c \<and> npending c + nreplies ms = n \<and>
     ((active_webhook_set_query c \<noteq> None) = (k \<or> copies ms)))"

lemma accounts_reply:
  assumes "wh_inv p c" and "one_reply q r" and "npending c + pend (Some q) = n" and "(active_webhook_set_query c \<noteq> None) = k"
  shows "accounts p n k (map_option (Pair c) r)"
  using assms by (auto simp: accounts_def one_reply_def)

lemma accounts_prefix:
  assumes "accounts p n k r" and "nreplies pre = m" and "\<not> copies pre"
  shows "accounts p (m + n) k (map_option (\<lambda>(c, ms). (c, pre @ ms)) r)"
  using assms by (auto simp: accounts_def)

lemma json_decode_total: "json_decode s \<noteq> None"
proof -
  consider e where "do_json_decode (default_max_depth + 1) (new_parser s) = Some (Inl e)"
    | v q where "do_json_decode (default_max_depth + 1) (new_parser s) = Some (Inr (v, q))"
    using decode_returns [of "new_parser s" "default_max_depth + 1"] unfolding returns_shorter_def by blast
  then show ?thesis by cases (simp_all only: json_decode_def option.case sum.case prod.case, simp_all)
qed

lemma update_allowed_total: "\<exists>b t ms. update_allowed_update_types q c = Some (b, c\<lparr>allowed_update_types := t\<rparr>, ms) \<and>
    nreplies ms = 0 \<and> \<not> copies ms"
proof -
  have "get_allowed_update_types (arg q ''allowed_updates'') (q_is_internal q) \<noteq> None"
    using json_decode_total [of "arg q ''allowed_updates''"]
    by (auto simp: get_allowed_update_types_def split: option.splits sum.splits json_value.splits)
  then obtain t where "get_allowed_update_types (arg q ''allowed_updates'') (q_is_internal q) = Some t" by blast
  then show ?thesis
    by (cases "t \<noteq> 0 \<and> t \<noteq> allowed_update_types c")
      (auto simp: update_allowed_update_types_def intro: exI [of _ "allowed_update_types c"])
qed

subsection \<open>The handlers\<close>

lemma finish_accounts:
  assumes "webhook_url c = []" "webhook_set_query c = None" "active_webhook_set_query c = None" "\<not> webhook_id c"
    and "q_state q = State_Query" "arg q ''url'' \<noteq> []" "wp_url_ok p (arg q ''url'')"
  shows "accounts p (pend (Some q)) False (finish_set_webhook p now q c)"
proof (cases "logging_out c \<or> closing c")
  case True
  then show ?thesis
    using assms accounts_reply [where n = "pend (Some q)" and k = False, OF _ closing_reply [OF True assms(5), of now], of p c]
    by (simp add: finish_set_webhook_def wh_inv_def npending_def)
next
  case False
  define c1 where "c1 = c\<lparr>webhook_url := arg q ''url'', webhook_max_connections := get_webhook_max_connections p q,
    webhook_secret_token := arg q ''secret_token'', webhook_ip_address := arg q ''ip_address'',
    webhook_fix_ip_address := get_webhook_fix_ip_address q, last_webhook_error := None\<rparr>"
  from update_allowed_total [of q c1] obtain b t ms where
    upd: "update_allowed_update_types q c1 = Some (b, c1\<lparr>allowed_update_types := t\<rparr>, ms)" "nreplies ms = 0" "\<not> copies ms"
    by blast
  then show ?thesis
    using False assms
    by (simp add: finish_set_webhook_def c1_def [symmetric] accounts_def) (simp add: c1_def wh_inv_def npending_def)
qed

lemma do_set_url_accounts:
  assumes inv: "wh_inv p c" and c: "webhook_url c = []" "active_webhook_set_query c = None" "\<not> logging_out c" "\<not> closing c"
    and q: "q_state q = State_Query" "arg q ''url'' \<noteq> []"
  shows "accounts p (pend (Some q)) False (do_set_url p now q c)"
proof -
  have set: "webhook_set_query c = None" "\<not> webhook_id c" "\<not> has_webhook_certificate c"
    using inv c by (auto simp: wh_inv_def)
  have fail: "accounts p (pend (Some q)) False (map_option (Pair c) (reply (fail_query 400 d [] q)))"
    if "list_all (\<lambda>c. byte c < 128) d" for d
    using accounts_reply [where n = "pend (Some q)" and k = False, OF inv reply_failed [OF that q(1)]] set c by (simp add: npending_def)
  have finish: "accounts p (pend (Some q)) False (finish_set_webhook p now q (c\<lparr>has_webhook_certificate := b\<rparr>))"
    if "wp_url_ok p (arg q ''url'')" for b
    using finish_accounts [of "c\<lparr>has_webhook_certificate := b\<rparr>" q p now] c set q that by simp
  have same: "c\<lparr>has_webhook_certificate := False\<rparr> = c" using set(3) by (cases c) simp
  have copy: "accounts p (pend (Some q)) False
      (Some (c\<lparr>active_webhook_set_query := Some q\<rparr>, [Copy_Certificate (temp_file_name f) (file_size f)]))"
    if "wp_url_ok p (arg q ''url'')" for f
    using inv c set q that by (auto simp: accounts_def wh_inv_def npending_def)
  have size_text: "list_all (\<lambda>c. byte c < 128) (''Bad Request: certificate size is too big ('' @ show_int n @ '' bytes)'')" for n
    using show_int_ascii [of n] by (simp add: byte_def)
  show ?thesis
    using fail [of "''Bad Request: invalid webhook URL specified''"] fail [of "''Bad Request: secret token is too long''"]
      fail [of "''Bad Request: secret token contains unallowed characters''"] fail [OF size_text] finish copy c set
      finish [of False, unfolded same]
    by (auto simp: do_set_url_def Let_def byte_def split: option.split)
qed

lemma do_set_webhook_accounts:
  assumes inv: "wh_inv p c" and c: "webhook_url c = []" "active_webhook_set_query c = None" and q: "q_state q = State_Query"
  shows "accounts p (pend (Some q)) False (do_set_webhook p now q d c)"
proof (cases "logging_out c \<or> closing c")
  case True
  have "npending c = 0" using inv c by (auto simp: npending_def wh_inv_def)
  then show ?thesis
    using True c accounts_reply [where n = "pend (Some q)" and k = False, OF inv closing_reply [OF True q]] by (simp add: do_set_webhook_def)
next
  case False
  have none: "npending c = 0" "\<not> webhook_id c" using inv c by (auto simp: npending_def wh_inv_def)
  let ?url = "if q_method q = ''setwebhook'' then arg q ''url'' else []"
  let ?inner = "if ?url \<noteq> [] then do_set_url p now q c
    else map_option (Pair c) (reply (answer_query (JBoolean True)
      (if d then ''Webhook was deleted'' else ''Webhook is already deleted'') q))"
  have "accounts p (pend (Some q)) False ?inner"
    using do_set_url_accounts [OF inv c _ _ q, of now] False
      accounts_reply [where n = "pend (Some q)" and k = False, OF inv
        reply_true [OF _ q, of "if d then ''Webhook was deleted'' else ''Webhook is already deleted''"]] none c(2)
    by (auto simp: byte_def)
  from accounts_prefix [OF this, of "if to_bool (arg q ''drop_pending_updates'') then [Clear_Tqueue] else []" 0]
  show ?thesis using False c none by (simp add: do_set_webhook_def Let_def)
qed

lemma replace_webhook_accounts:
  assumes inv: "wh_inv p c" and c: "webhook_set_query c = None" "active_webhook_set_query c = None"
    and q: "q_state q = State_Query"
  shows "accounts p (pend (Some q)) False (replace_webhook p now q new_url c)"
proof (cases "webhook_url c = []")
  case True
  have "wh_inv p (c\<lparr>webhook_generation := webhook_generation c + 1\<rparr>)" using inv by (simp add: wh_inv_def)
  from do_set_webhook_accounts [OF this _ _ q, of now False] True c
  have "accounts p (pend (Some q)) False (do_set_webhook p now q False (c\<lparr>webhook_generation := webhook_generation c + 1\<rparr>))"
    by simp
  from accounts_prefix [OF this, of "if new_url \<noteq> [] then [Abort_Long_Poll] else []" 0] True c show ?thesis
    by (simp add: replace_webhook_def Let_def)
next
  case False
  then show ?thesis
    using inv c q by (auto simp: replace_webhook_def Let_def accounts_def wh_inv_def npending_def)
qed

lemma conflict_reply:
  assumes "q_state q = State_Query" and "list_all (\<lambda>c. byte c < 128) d"
  shows "\<exists>t ms. fail_query_conflict now d q c = Some (c\<lparr>next_get_updates_conflict_time := t\<rparr>, ms) \<and>
    nreplies ms = pend (Some q) \<and> \<not> copies ms"
  using reply_failed [OF assms(2,1), of 409]
  by (cases "now \<ge> next_get_updates_conflict_time c")
    (auto simp: fail_query_conflict_def one_reply_def intro: exI [of _ "next_get_updates_conflict_time c"])

lemma process_accounts:
  assumes inv: "wh_inv p c" and q: "q_state q = State_Query"
  shows "accounts p (npending c + pend (Some q)) (active_webhook_set_query c \<noteq> None) (process_set_webhook_query p now q c)"
proof -
  let ?url = "if q_method q = ''setwebhook'' then arg q ''url'' else []"
  let ?limited = "?url \<noteq> [] \<and> \<not> q_is_internal q"
  define c2 where "c2 = (if ?limited then c\<lparr>next_allowed_set_webhook_time := now + 1\<rparr> else c)
    \<lparr>next_bot_updates_warning_time :=
      max (next_bot_updates_warning_time (if ?limited then c\<lparr>next_allowed_set_webhook_time := now + 1\<rparr> else c)) (now + 30)\<rparr>"
  have c2: "wh_inv p c2" "webhook_set_query c2 = webhook_set_query c" "active_webhook_set_query c2 = active_webhook_set_query c"
      "npending c2 = npending c"
    using inv by (auto simp: c2_def wh_inv_def npending_def)
  have retry: "accounts p (npending c + pend (Some q)) (active_webhook_set_query c \<noteq> None)
      (map_option (Pair c') (reply (set_retry_after_error 1 q)))" if "c' = c \<or> c' = c2" for c'
    using that accounts_reply [OF _ reply_retry [OF q]] inv c2 by auto
  show ?thesis
  proof (cases "?limited \<and> now < next_allowed_set_webhook_time c")
    case True
    then show ?thesis using retry [of c] by (simp add: process_set_webhook_query_def Let_def)
  next
    case False
    have unfold: "process_set_webhook_query p now q c =
      (case webhook_set_query c2 of
         Some old \<Rightarrow>
           (case fail_query_conflict now ''Conflict: terminated by other setWebhook'' old (c2\<lparr>webhook_set_query := None\<rparr>) of
              None \<Rightarrow> None
            | Some (c3, ms) \<Rightarrow> map_option (\<lambda>(c', ms'). (c', ms @ ms')) (replace_webhook p now q ?url c3))
       | None \<Rightarrow>
           if active_webhook_set_query c2 \<noteq> None then map_option (Pair c2) (reply (set_retry_after_error 1 q))
           else if webhook_not_modified p q ?url c2 then
             case update_allowed_update_types q c2 of
               None \<Rightarrow> None
             | Some (changed, c3, ms) \<Rightarrow>
                 map_option (\<lambda>ms'. (if changed then save_webhook c3 else c3, ms @ ms'))
                   (reply (answer_query (JBoolean True)
                     (if ?url = [] then ''Webhook is already deleted'' else ''Webhook is already set'') q))
           else replace_webhook p now q ?url c2)"
      using False unfolding process_set_webhook_query_def Let_def c2_def by (simp only: if_False)
    show ?thesis
    proof (cases "webhook_set_query c")
      case (Some old)
      have old: "q_state old = State_Query" "active_webhook_set_query c = None"
        using inv Some by (auto simp: wh_inv_def)
      from conflict_reply [OF old(1), of "''Conflict: terminated by other setWebhook''" now "c2\<lparr>webhook_set_query := None\<rparr>"]
      obtain t ms where conf: "fail_query_conflict now ''Conflict: terminated by other setWebhook'' old (c2\<lparr>webhook_set_query := None\<rparr>) =
          Some (c2\<lparr>webhook_set_query := None, next_get_updates_conflict_time := t\<rparr>, ms)"
        and ms: "nreplies ms = pend (Some old)" "\<not> copies ms" by (auto simp: byte_def)
      have "wh_inv p (c2\<lparr>webhook_set_query := None, next_get_updates_conflict_time := t\<rparr>)" using c2(1) by (simp add: wh_inv_def)
      from replace_webhook_accounts [OF this _ _ q, of now ?url] c2 old
      have "accounts p (pend (Some q)) False
          (replace_webhook p now q ?url (c2\<lparr>webhook_set_query := None, next_get_updates_conflict_time := t\<rparr>))" by simp
      from accounts_prefix [OF this ms] show ?thesis
        unfolding unfold c2(2) Some option.case conf prod.case using old Some by (simp add: npending_def)
    next
      case None
      from update_allowed_total [of q c2] obtain b w ms where
        upd: "update_allowed_update_types q c2 = Some (b, c2\<lparr>allowed_update_types := w\<rparr>, ms)" "nreplies ms = 0" "\<not> copies ms"
        by blast
      have "wh_inv p (if b then save_webhook (c2\<lparr>allowed_update_types := w\<rparr>) else c2\<lparr>allowed_update_types := w\<rparr>)"
        "npending (if b then save_webhook (c2\<lparr>allowed_update_types := w\<rparr>) else c2\<lparr>allowed_update_types := w\<rparr>) = npending c"
        using c2 by (auto simp: wh_inv_def npending_def save_webhook_def)
      moreover have "one_reply q (reply (answer_query (JBoolean True)
          (if ?url = [] then ''Webhook is already deleted'' else ''Webhook is already set'') q))"
        by (rule reply_true [OF _ q]) (simp add: byte_def)
      ultimately have same: "accounts p (npending c + pend (Some q)) False (case update_allowed_update_types q c2 of
          None \<Rightarrow> None
        | Some (changed, c3, ms) \<Rightarrow>
            map_option (\<lambda>ms'. (if changed then save_webhook c3 else c3, ms @ ms'))
              (reply (answer_query (JBoolean True)
                (if ?url = [] then ''Webhook is already deleted'' else ''Webhook is already set'') q)))"
        if "active_webhook_set_query c = None"
        using upd that c2(3) by (auto simp: accounts_def one_reply_def save_webhook_def)
      have "accounts p (npending c + pend (Some q)) False (replace_webhook p now q ?url c2)"
        if "active_webhook_set_query c = None"
        using replace_webhook_accounts [OF c2(1) _ _ q, of now ?url] c2 None that by (simp add: npending_def)
      with same retry [of c2] show ?thesis unfolding unfold c2(2,3) None option.case by (auto simp: split: if_split)
    qed
  qed
qed

lemma copied_accounts:
  assumes inv: "wh_inv p c" and act: "active_webhook_set_query c = Some q"
  shows "accounts p (npending c) False (on_webhook_certificate_copied p now failed c)"
proof -
  have c: "webhook_url c = []" "webhook_set_query c = None" "\<not> webhook_id c" "q_state q = State_Query"
      "arg q ''url'' \<noteq> []" "wp_url_ok p (arg q ''url'')"
    using inv act by (auto simp: wh_inv_def)
  have "wh_inv p (c\<lparr>active_webhook_set_query := None\<rparr>)" using inv by (simp add: wh_inv_def)
  then have "accounts p (npending c) False (map_option (Pair (c\<lparr>active_webhook_set_query := None\<rparr>))
      (reply (fail_query 500 ''Internal Server Error: failed to save certificate'' [] q)))"
    using c act by (intro accounts_reply [OF _ reply_failed]) (auto simp: npending_def byte_def)
  moreover have "accounts p (npending c) False
      (finish_set_webhook p now q (c\<lparr>active_webhook_set_query := None, has_webhook_certificate := True\<rparr>))"
    using finish_accounts [of "c\<lparr>active_webhook_set_query := None, has_webhook_certificate := True\<rparr>" q p now] c act
    by (simp add: npending_def)
  ultimately show ?thesis by (simp add: on_webhook_certificate_copied_def act Let_def)
qed

lemma verified_accounts:
  assumes inv: "wh_inv p c"
  shows "accounts p (npending c) (active_webhook_set_query c \<noteq> None) (webhook_verified link ip c)"
proof (cases "webhook_set_query c")
  case None
  then show ?thesis
    using inv by (simp add: webhook_verified_def accounts_def wh_inv_def npending_def save_webhook_def Let_def)
next
  case (Some q)
  have "q_state q = State_Query" "active_webhook_set_query c = None" using inv Some by (auto simp: wh_inv_def)
  moreover have "wh_inv p (save_webhook (c\<lparr>webhook_ip_address := ip, webhook_set_query := None\<rparr>))"
    using inv by (simp add: wh_inv_def save_webhook_def)
  ultimately have "accounts p (npending c) False
      (map_option (Pair (save_webhook (c\<lparr>webhook_ip_address := ip, webhook_set_query := None\<rparr>)))
        (reply (answer_query (JBoolean True) ''Webhook was set'' q)))"
    using Some by (intro accounts_reply [OF _ reply_true]) (auto simp: npending_def byte_def save_webhook_def)
  then show ?thesis
    using Some inv \<open>active_webhook_set_query c = None\<close> by (auto simp: webhook_verified_def accounts_def Let_def)
qed

lemma closed_accounts:
  assumes inv: "wh_inv p c" and utf8: "check_utf8 (''Bad Request: bad webhook: '' @ message)"
  shows "accounts p (npending c) (active_webhook_set_query c \<noteq> None) (on_webhook_closed p now message c)"
proof -
  define c1 where "c1 = c\<lparr>webhook_id := False, webhook_url := [], has_webhook_certificate := False, webhook_max_connections := 0,
    webhook_ip_address := [], webhook_fix_ip_address := False, webhook_secret_token := [], last_webhook_error := None,
    saved_webhook := None\<rparr>"
  show ?thesis
  proof (cases "webhook_set_query c")
    case None
    then show ?thesis using inv
      by (auto simp: on_webhook_closed_def c1_def [symmetric] accounts_def) (auto simp: c1_def wh_inv_def npending_def)
  next
    case (Some q)
    have q: "q_state q = State_Query" "active_webhook_set_query c = None" using inv Some by (auto simp: wh_inv_def)
    have inv': "wh_inv p (c1\<lparr>webhook_set_query := None\<rparr>)" using inv by (simp add: c1_def wh_inv_def)
    have "accounts p (npending c) False (map_option (Pair (c1\<lparr>webhook_set_query := None\<rparr>))
        (reply (fail_query 400 (''Bad Request: bad webhook: '' @ message) [] q)))"
      using Some q by (intro accounts_reply [OF inv' reply_failed_utf8 [OF utf8]]) (auto simp: c1_def npending_def)
    moreover have "accounts p (npending c) False (do_set_webhook p now q True (c1\<lparr>webhook_set_query := None\<rparr>))"
      using do_set_webhook_accounts [OF inv' _ _ q(1), of now True] Some q(2) by (simp add: c1_def npending_def)
    ultimately show ?thesis using Some q(2) by (simp add: on_webhook_closed_def c1_def [symmetric] Let_def)
  qed
qed

text \<open>A stored answer: a delay, sent when the query is destroyed.\<close>

definition answer_stored :: "query option \<Rightarrow> bool" where
  "answer_stored q \<longleftrightarrow> (case q of None \<Rightarrow> True | Some q' \<Rightarrow> is_ready q' \<and> q_http_status_code q' = 429)"

lemma on_closed_accounts:
  assumes inv: "wh_inv p c" and cl: "logging_out c \<or> closing c"
  shows "\<exists>c' ms. webhook_on_closed now c = Some (c', ms) \<and> npending c' + nreplies ms = npending c \<and>
    (if delayed c then nreplies ms = 0 \<and> answer_stored (webhook_set_query c') \<and> answer_stored (active_webhook_set_query c')
     else wh_inv p c' \<and> npending c' = 0 \<and> active_webhook_set_query c' = None)"
proof -
  have each: "\<exists>left ms. (case q of None \<Rightarrow> Some (None, []) | Some q \<Rightarrow> fail_query_closing now q c) = Some (left, ms) \<and>
      pend left + nreplies ms = pend q \<and> (if delayed c then nreplies ms = 0 \<and> answer_stored left else left = None)"
    if "\<And>x. q = Some x \<Longrightarrow> q_state x = State_Query" for q
  proof (cases q)
    case (Some x)
    from closing_kept [OF cl that [OF Some], of now] obtain left ms where
      r: "fail_query_closing now x c = Some (left, ms)" "closing_left c x (left, ms)" by auto
    show ?thesis using Some r by (intro exI [of _ left] exI [of _ ms]) (auto simp: closing_left_def answer_stored_def split: if_splits)
  qed (simp add: answer_stored_def)
  obtain l1 ms1 where one: "(case webhook_set_query c of None \<Rightarrow> Some (None, []) | Some q \<Rightarrow> fail_query_closing now q c) = Some (l1, ms1)"
      "pend l1 + nreplies ms1 = pend (webhook_set_query c)" "if delayed c then nreplies ms1 = 0 \<and> answer_stored l1 else l1 = None"
    using each [of "webhook_set_query c"] inv by (auto simp: wh_inv_def)
  obtain l2 ms2 where two: "(case active_webhook_set_query c of None \<Rightarrow> Some (None, []) | Some q \<Rightarrow> fail_query_closing now q c) = Some (l2, ms2)"
      "pend l2 + nreplies ms2 = pend (active_webhook_set_query c)" "if delayed c then nreplies ms2 = 0 \<and> answer_stored l2 else l2 = None"
    using each [of "active_webhook_set_query c"] inv by (auto simp: wh_inv_def)
  let ?c = "c\<lparr>webhook_set_query := l1, active_webhook_set_query := l2,
    webhook_id := (if webhook_url c \<noteq> [] then False else webhook_id c),
    saved_webhook := (if logging_out c then None else saved_webhook c)\<rparr>"
  have "webhook_on_closed now c = Some (?c, ms1 @ ms2)"
    unfolding webhook_on_closed_def one(1) two(1) using cl by auto
  moreover have "npending ?c + nreplies (ms1 @ ms2) = npending c" using one(2) two(2) by (simp add: npending_def)
  moreover have "wh_inv p ?c" if "l1 = None" "l2 = None" using inv cl that by (auto simp: wh_inv_def)
  ultimately show ?thesis using one(3) two(3) by (auto simp: npending_def split: if_splits)
qed

lemma ready_query_fails:
  assumes "is_ready q"
  shows "set_retry_after_error n q = None" "fail_query code d ps q = None"
  using assms by (auto simp: is_ready_def set_retry_after_error_def fail_query_def set_error_def bind_eq_None_conv)

text \<open>A certificate copied for a query that has its answer.\<close>

lemma ready_copy_aborts:
  assumes "delayed c" and "answer_stored (active_webhook_set_query c)"
  shows "on_webhook_certificate_copied p now failed c = None"
proof (cases "active_webhook_set_query c")
  case (Some q)
  then have "is_ready q" using assms(2) by (simp add: answer_stored_def)
  moreover obtain retry m where "get_closing_error now c = Some (429, retry, m)" "0 < retry" "logging_out c"
    using assms(1) by (auto simp: delayed_def get_closing_error_def Let_def)
  ultimately show ?thesis using Some
    by (auto simp: on_webhook_certificate_copied_def finish_set_webhook_def fail_parameter_closing_def fail_query_closing_def
        get_closing_error_def ready_query_fails reply_def Let_def)
qed (simp add: on_webhook_certificate_copied_def)

subsection \<open>Reachable states\<close>

text \<open>
  The states of the webhook of a client. The flag tells that a query waits for a certificate that is being copied
  in the background. Queries arrive while the client is neither logging out nor closing; once it does, it
  never stops doing so. The client may finish closing (\<open>on_closed\<close>) at any time, also while a certificate is copied.
  The states are followed beyond that unless closing answers with a delay, which leaves answered queries behind.
\<close>

inductive wh_reach :: "webhook_params \<Rightarrow> webhook \<Rightarrow> bool \<Rightarrow> bool" for p where
  start: "wh_reach p (new_webhook saved) False"
| set_webhook: "wh_reach p c k \<Longrightarrow> \<not> logging_out c \<Longrightarrow> \<not> closing c \<Longrightarrow> q_state q = State_Query \<Longrightarrow>
    process_set_webhook_query p now q c = Some (c', ms) \<Longrightarrow> wh_reach p c' (k \<or> copies ms)"
| copied: "wh_reach p c True \<Longrightarrow> on_webhook_certificate_copied p now failed c = Some (c', ms) \<Longrightarrow>
    wh_reach p c' (copies ms)"
| verified: "wh_reach p c k \<Longrightarrow> webhook_verified link ip c = Some (c', ms) \<Longrightarrow> wh_reach p c' (k \<or> copies ms)"
| closed: "wh_reach p c k \<Longrightarrow> check_utf8 (''Bad Request: bad webhook: '' @ message) \<Longrightarrow>
    on_webhook_closed p now message c = Some (c', ms) \<Longrightarrow> wh_reach p c' (k \<or> copies ms)"
| leaving: "wh_reach p c k \<Longrightarrow> (logging_out c \<longrightarrow> l) \<Longrightarrow> (closing c \<longrightarrow> d) \<Longrightarrow>
    wh_reach p (c\<lparr>logging_out := l, closing := d, is_api_id_invalid := i, next_authorization_time := n,
      clear_tqueue_flag := f\<rparr>) k"
| finished: "wh_reach p c k \<Longrightarrow> \<not> delayed c \<Longrightarrow> webhook_on_closed now c = Some (c', ms) \<Longrightarrow> wh_reach p c' False"

lemma wh_reach_inv: "wh_reach p c k \<Longrightarrow> wh_inv p c \<and> (active_webhook_set_query c \<noteq> None) = k"
proof (induction rule: wh_reach.induct)
  case (start saved)
  then show ?case by (simp add: wh_inv_def new_webhook_def)
next
  case (set_webhook c k q now c' ms)
  then show ?case using process_accounts [of p c q now] by (auto simp: accounts_def)
next
  case (copied c now failed c' ms)
  then obtain q where "active_webhook_set_query c = Some q" by auto
  then show ?case using copied copied_accounts [of p c q now failed] by (auto simp: accounts_def)
next
  case (verified c k link ip c' ms)
  then show ?case using verified_accounts [of p c link ip] by (auto simp: accounts_def)
next
  case (closed c k message now c' ms)
  then show ?case using closed_accounts [of p c message now] by (auto simp: accounts_def)
next
  case (leaving c k l d i n f)
  then show ?case by (auto simp: wh_inv_def)
next
  case (finished c k now c' ms)
  then have "logging_out c \<or> closing c" by (auto simp: webhook_on_closed_def split: if_splits)
  then show ?case using finished on_closed_accounts [of p c now] by auto
qed


text \<open>
  (C15) Every \<open>setWebhook\<close> and \<open>deleteWebhook\<close> is answered exactly once. In every reachable state a new query,
  the verification of the webhook, its end and the end of a certificate copy whose query still waits are
  handled without a failed check, and the queries that waited before together with the new one are as many as the replies
  sent and the queries that wait afterwards. When the client finishes closing, with or without a copy under way, no
  check fails; all that waited are answered, except that an answer with a delay is only stored in the queries, which the
  client keeps until it is destroyed.
\<close>

theorem webhook_requests_settled:
  assumes "wh_reach p c k" and "q_state q = State_Query" and "check_utf8 (''Bad Request: bad webhook: '' @ message)"
  shows "(\<exists>c' ms. process_set_webhook_query p now q c = Some (c', ms) \<and>
      npending c' + nreplies ms = npending c + (if q_is_internal q then 0 else 1)) \<and>
    (\<exists>c' ms. webhook_verified link ip c = Some (c', ms) \<and> npending c' + nreplies ms = npending c) \<and>
    (\<exists>c' ms. on_webhook_closed p now message c = Some (c', ms) \<and> npending c' + nreplies ms = npending c) \<and>
    (k \<longrightarrow> (\<exists>c' ms. on_webhook_certificate_copied p now failed c = Some (c', ms) \<and>
       npending c' + nreplies ms = npending c)) \<and>
    (logging_out c \<or> closing c \<longrightarrow>
       (\<exists>c' ms. webhook_on_closed now c = Some (c', ms) \<and> npending c' + nreplies ms = npending c \<and>
          (if delayed c then nreplies ms = 0 \<and> answer_stored (webhook_set_query c') \<and> answer_stored (active_webhook_set_query c')
           else npending c' = 0)))"
proof -
  have inv: "wh_inv p c" and k: "k \<Longrightarrow> \<exists>q. active_webhook_set_query c = Some q"
    using wh_reach_inv [OF assms(1)] by auto
  have settles: "accounts p n b r \<Longrightarrow> \<exists>c' ms. r = Some (c', ms) \<and> npending c' + nreplies ms = n" for n b r
    by (auto simp: accounts_def)
  have "k \<longrightarrow> (\<exists>c' ms. on_webhook_certificate_copied p now failed c = Some (c', ms) \<and> npending c' + nreplies ms = npending c)"
    using k settles [OF copied_accounts [OF inv]] by blast
  with settles [OF process_accounts [OF inv assms(2)]] settles [OF verified_accounts [OF inv]]
    settles [OF closed_accounts [OF inv assms(3)]]
  show ?thesis
  proof (intro conjI impI)
    show "\<exists>c' ms. webhook_on_closed now c = Some (c', ms) \<and> npending c' + nreplies ms = npending c \<and>
        (if delayed c then nreplies ms = 0 \<and> answer_stored (webhook_set_query c') \<and> answer_stored (active_webhook_set_query c')
         else npending c' = 0)"
      if "logging_out c \<or> closing c" using on_closed_accounts [OF inv that, of now] by (auto split: if_splits)
  qed auto
qed

theorem webhook_requests_settled_witness:
  "\<exists>c' ms. process_set_webhook_query \<lparr>wp_default_max_connections = 40, wp_local_mode = False, wp_url_ok = (\<lambda>u. u \<noteq> [])\<rparr> 0
     (new_query [] ''5:a'' False ''setWebhook'' [(''url'', ''e.org'')] [] [] InvalidAddress False) (new_webhook None) =
       Some (c', ms) \<and> npending c' + nreplies ms = 1"
proof -
  let ?q = "new_query [] ''5:a'' False ''setWebhook'' [(''url'', ''e.org'')] [] [] InvalidAddress False"
  have "q_state ?q = State_Query" "\<not> q_is_internal ?q" "npending (new_webhook None) = 0"
    "check_utf8 (''Bad Request: bad webhook: '' @ ''gone'')"
    by (simp_all add: new_query_def npending_def new_webhook_def ascii_check_utf8 byte_def)
  with webhook_requests_settled [OF wh_reach.start [of
      "\<lparr>wp_default_max_connections = 40, wp_local_mode = False, wp_url_ok = (\<lambda>u. u \<noteq> [])\<rparr>" None] this(1) this(4), of 0]
  show ?thesis by auto
qed

text \<open>
  (C39) A certificate copy that outlives its client aborts the server: when the client finishes closing
  while the certificate of a \<open>setWebhook\<close> is still being copied, the query is answered and forgotten, and
  the check at the end of the copy, which expects it, fails.
\<close>

theorem late_certificate_copy_aborts:
  assumes "wh_reach p c True" and "logging_out c \<or> closing c"
  shows "\<exists>c' ms. webhook_on_closed now c = Some (c', ms) \<and> on_webhook_certificate_copied p now' failed c' = None"
proof -
  have "wh_inv p c" using wh_reach_inv [OF assms(1)] by simp
  from on_closed_accounts [OF this assms(2), of now] obtain c' ms where
    c': "webhook_on_closed now c = Some (c', ms)"
      "if delayed c then answer_stored (active_webhook_set_query c') else active_webhook_set_query c' = None"
    by (auto split: if_splits)
  moreover have "delayed c' = delayed c" using c'(1) by (auto simp: webhook_on_closed_def delayed_def split: if_splits option.splits prod.splits)
  ultimately show ?thesis using ready_copy_aborts [of c'] by (auto simp: on_webhook_certificate_copied_def split: if_splits)
qed

theorem late_certificate_copy_aborts_witness:
  "\<exists>c ms c' ms'. process_set_webhook_query \<lparr>wp_default_max_connections = 40, wp_local_mode = False, wp_url_ok = (\<lambda>u. u \<noteq> [])\<rparr> 0
       (new_query [] ''5:a'' False ''setwebhook'' [(''url'', ''e.org'')] []
         [\<lparr>field_name = ''certificate'', file_name_ = ''c'', content_type = [], file_size = 10, temp_file_name = ''t''\<rparr>]
         InvalidAddress False) (new_webhook None) = Some (c, ms) \<and>
     webhook_on_closed 1 (c\<lparr>closing := True\<rparr>) = Some (c', ms') \<and>
     on_webhook_certificate_copied \<lparr>wp_default_max_connections = 40, wp_local_mode = False, wp_url_ok = (\<lambda>u. u \<noteq> [])\<rparr> 2 None c' = None"
proof -
  let ?p = "\<lparr>wp_default_max_connections = 40, wp_local_mode = False, wp_url_ok = (\<lambda>u. u \<noteq> [])\<rparr>"
  let ?q = "new_query [] ''5:a'' False ''setwebhook'' [(''url'', ''e.org'')] []
    [\<lparr>field_name = ''certificate'', file_name_ = ''c'', content_type = [], file_size = 10, temp_file_name = ''t''\<rparr>]
    InvalidAddress False"
  have m: "to_lower ''setwebhook'' = ''setwebhook''" by code_simp
  have q: "q_state ?q = State_Query" "\<not> logging_out (new_webhook None)" "\<not> closing (new_webhook None)"
    by (simp_all add: new_query_def new_webhook_def)
  obtain c ms where run: "process_set_webhook_query ?p 0 ?q (new_webhook None) = Some (c, ms)" "copies ms"
    by (simp add: process_set_webhook_query_def replace_webhook_def do_set_webhook_def do_set_url_def new_query_def m
        new_webhook_def webhook_not_modified_def arg_def find_value_def to_bool_Nil get_webhook_certificate_def
        query_file_def max_certificate_file_size_def is_base64url_characters_def Let_def)
  have "wh_reach ?p c True" using wh_reach.set_webhook [OF wh_reach.start q(2,3,1) run(1)] run(2) by simp
  then have "wh_reach ?p (c\<lparr>logging_out := logging_out c, closing := True, is_api_id_invalid := is_api_id_invalid c,
      next_authorization_time := next_authorization_time c, clear_tqueue_flag := clear_tqueue_flag c\<rparr>) True"
    by (rule wh_reach.leaving) auto
  then have "wh_reach ?p (c\<lparr>closing := True\<rparr>) True" by simp
  from late_certificate_copy_aborts [OF this, of 1 2 None] run(1) show ?thesis by auto
qed

end
