(* ===== verification/Client_Errors.thy ===== *)
theory Client_Errors
  imports Http_Frontend
begin

section \<open>Errors of TDLib as answers\<close>

text \<open>
  The translation of an error reported by TDLib into the answer of a Bot API query, as in
  \<open>fail_query_with_error\<close> of \<open>Client.cpp\<close>: flood errors become a delay, internal codes and texts become
  those of the Bot API, and the text gets the prefix of its code. The result is the \<^typ>\<open>answer\<close> the
  query is concluded with.
\<close>

definition retry_after_prefix :: string where
  "retry_after_prefix = ''Too Many Requests: retry after ''"

definition get_retry_after_time :: "string \<Rightarrow> int" where
  "get_retry_after_time error_message =
     (if begins_with error_message retry_after_prefix
      then case to_integer_safe 32 (drop (length retry_after_prefix) error_message) of
             Some n \<Rightarrow> if n > 0 then n else 0
           | None \<Rightarrow> 0
      else 0)"

definition is_special_error_code :: "int \<Rightarrow> bool" where
  "is_special_error_code error_code \<longleftrightarrow> error_code = 401 \<or> error_code = 429 \<or> error_code \<ge> 500"

text \<open>A text of TDLib's server: capital letters, digits and underscores only.\<close>

definition is_server_error :: "string \<Rightarrow> bool" where
  "is_server_error error_message \<longleftrightarrow>
     list_all (\<lambda>c. c = CHR ''_'' \<or> byte CHR ''A'' \<le> byte c \<and> byte c \<le> byte CHR ''Z'' \<or> is_digit c) error_message"

definition base_error_code :: "int \<Rightarrow> string \<Rightarrow> int" where
  "base_error_code error_code error_message =
     (if error_code < 400 \<or> error_code = 404 then 400
      else if error_code = 403 \<and> is_server_error error_message then 400 else error_code)"

text \<open>The texts the Bot API replaces, for errors with code 400.\<close>

definition clarify_error :: "string \<Rightarrow> string \<Rightarrow> int \<times> string" where
  "clarify_error query_method m =
     (if m = ''MESSAGE_NOT_MODIFIED'' then
        (400, ''message is not modified: specified new message content and reply markup are exactly the same as a current content and reply markup of the message'')
      else if m = ''WC_CONVERT_URL_INVALID'' \<or> m = ''EXTERNAL_URL_INVALID'' then (400, ''Wrong HTTP URL specified'')
      else if m = ''WEBPAGE_CURL_FAILED'' then (400, ''Failed to get HTTP URL content'')
      else if m = ''WEBPAGE_MEDIA_EMPTY'' then (400, ''Wrong type of the web page content'')
      else if m = ''MEDIA_GROUPED_INVALID'' then
        (400, ''Can'' @ [CHR 0x27] @ ''t use the media of the specified type in the album'')
      else if m = ''REPLY_MARKUP_TOO_LONG'' then (400, ''reply markup is too long'')
      else if m = ''INPUT_USER_DEACTIVATED'' then (403, ''Forbidden: user is deactivated'')
      else if m = ''USER_IS_BLOCKED'' then (403, ''bot was blocked by the user'')
      else if m = ''USER_ADMIN_INVALID'' then (400, ''user is an administrator of the chat'')
      else if m = ''File generation failed'' then (400, ''can'' @ [CHR 0x27] @ ''t upload file by URL'')
      else if m = ''CHAT_ABOUT_NOT_MODIFIED'' then (400, ''chat description is not modified'')
      else if m = ''PACK_SHORT_NAME_INVALID'' then (400, ''invalid sticker set name is specified'')
      else if m = ''PACK_SHORT_NAME_OCCUPIED'' then (400, ''sticker set name is already occupied'')
      else if m = ''STICKER_EMOJI_INVALID'' then (400, ''invalid sticker emojis'')
      else if m = ''QUERY_ID_INVALID'' then
        (400, ''query is too old and response timeout expired or query ID is invalid'')
      else if m = ''MESSAGE_DELETE_FORBIDDEN'' then (400, ''message can'' @ [CHR 0x27] @ ''t be deleted'')
      else if m = ''RANK_CHANGE_FORBIDDEN'' \<or> m = ''RANK_EMOJI_NOT_ALLOWED'' \<or> m = ''RANK_INVALID'' then
        (400, (if query_method = ''setchatmembertag'' then ''TAG'' else ''CUSTOM_TITLE'') @ drop 4 m)
      else (400, m))"

definition error_prefix :: "int \<Rightarrow> string option" where
  "error_prefix error_code =
     (if error_code = 400 then Some ''Bad Request''
      else if error_code = 401 then Some ''Unauthorized''
      else if error_code = 403 then Some ''Forbidden''
      else if error_code = 500 then Some ''Internal Server Error'' else None)"

definition prefixed_error :: "string \<Rightarrow> string \<Rightarrow> string" where
  "prefixed_error prefix m =
     (if begins_with m prefix then m
      else if m = [] then prefix
      else prefix @ '': '' @
        (if length m \<ge> 2 \<and> (m ! 1 = CHR ''_'' \<or> byte CHR ''A'' \<le> byte (m ! 1) \<and> byte (m ! 1) \<le> byte CHR ''Z'')
         then m else to_lower_char (hd m) # tl m))"

definition fail_query_with_error :: "string \<Rightarrow> int \<Rightarrow> string \<Rightarrow> string \<Rightarrow> answer" where
  "fail_query_with_error query_method error_code error_message default_message =
     (if error_code = 429 then
        let retry_after_time = get_retry_after_time error_message
        in if retry_after_time > 0 then Retry retry_after_time else Fail 500 error_message []
      else
        let code = base_error_code error_code error_message;
            (code, m) =
              (if code = 400
               then clarify_error query_method (if default_message \<noteq> [] then default_message else error_message)
               else (code, error_message))
        in case error_prefix code of
             None \<Rightarrow> Fail 400 (''Bad Request: '' @ m) []
           | Some prefix \<Rightarrow> Fail code (prefixed_error prefix m) [])"

subsection \<open>Every error has a documented form\<close>

lemma begins_with_drop: "begins_with str p \<and> drop (length p) str = t \<longleftrightarrow> str = p @ t"
  unfolding begins_with_def by (metis append_eq_conv_conj append_take_drop_id length_append le_add1)

lemma retry_time_iff:
  assumes "0 < n"
  shows "get_retry_after_time m = n \<longleftrightarrow> n < 2 ^ 31 \<and> m = retry_after_prefix @ show_int n"
proof -
  have "get_retry_after_time m = n \<longleftrightarrow>
      begins_with m retry_after_prefix \<and> to_integer_safe 32 (drop (length retry_after_prefix) m) = Some n"
    using assms by (auto simp: get_retry_after_time_def split: option.split)
  also have "\<dots> \<longleftrightarrow> begins_with m retry_after_prefix \<and> drop (length retry_after_prefix) m = show_int n \<and> n < 2 ^ 31"
    using assms by (auto simp: to_integer_safe_iff)
  also have "\<dots> \<longleftrightarrow> n < 2 ^ 31 \<and> m = retry_after_prefix @ show_int n"
    using begins_with_drop [of m retry_after_prefix "show_int n"] by blast
  finally show ?thesis .
qed

lemma retry_time_nonneg: "0 \<le> get_retry_after_time m"
  by (simp add: get_retry_after_time_def split: option.split)

lemma begins_with_prefixed: "begins_with (prefixed_error p m) p"
  by (simp add: prefixed_error_def begins_with_def)

lemma clarify_error_code:
  "fst (clarify_error q m) = (if m \<in> {''INPUT_USER_DEACTIVATED'', ''USER_IS_BLOCKED''} then 403 else 400)"
  by (simp add: clarify_error_def)

text \<open>The codes a query can fail with, and their texts.\<close>

definition error_prefixes :: "(int \<times> string) list" where
  "error_prefixes = [(400, ''Bad Request''), (401, ''Unauthorized''), (403, ''Forbidden''), (500, ''Internal Server Error'')]"

text \<open>The code of the answer to an error other than 429.\<close>

definition answered_code :: "int \<Rightarrow> string \<Rightarrow> string \<Rightarrow> int" where
  "answered_code code m d =
     (if code = 401 \<or> code = 500 \<or> code = 403 \<and> \<not> is_server_error m then code
      else if (code \<le> 400 \<or> code = 404 \<or> code = 403) \<and>
              (if d = [] then m else d) \<in> {''INPUT_USER_DEACTIVATED'', ''USER_IS_BLOCKED''} then 403
      else 400)"

lemma answered_code_eq:
  assumes "code \<noteq> 429"
  shows "\<exists>text. fail_query_with_error q code m d = Fail (answered_code code m d) text [] \<and>
    (\<exists>p. map_of error_prefixes (answered_code code m d) = Some p \<and> begins_with text p)"
proof -
  define eff where "eff = (if d = [] then m else d)"
  define b where "b = base_error_code code m"
  consider (bad) "b = 400" | (known) "b = 401 \<or> b = 403 \<or> b = 500" | (other) "b \<notin> {400, 401, 403, 500}" by blast
  then show ?thesis
  proof cases
    case bad
    obtain c t where ct: "clarify_error q eff = (c, t)" by fastforce
    then have c: "c = (if eff \<in> {''INPUT_USER_DEACTIVATED'', ''USER_IS_BLOCKED''} then 403 else 400)"
      using clarify_error_code [of q eff] by simp
    have "answered_code code m d = c"
      using bad c by (auto simp: b_def base_error_code_def answered_code_def eff_def split: if_splits)
    moreover have "fail_query_with_error q code m d = Fail c (prefixed_error (the (error_prefix c)) t) []"
      using bad assms ct c by (auto simp: fail_query_with_error_def b_def [symmetric] eff_def error_prefix_def)
    ultimately show ?thesis
      using c by (auto simp: error_prefix_def error_prefixes_def begins_with_prefixed)
  next
    case known
    then have "answered_code code m d = b"
      by (auto simp: b_def base_error_code_def answered_code_def split: if_splits)
    with known assms show ?thesis
      by (auto simp: fail_query_with_error_def b_def [symmetric] error_prefix_def error_prefixes_def begins_with_prefixed)
  next
    case other
    then have "answered_code code m d = 400"
      by (auto simp: b_def base_error_code_def answered_code_def split: if_splits)
    with other assms show ?thesis
      by (auto simp: fail_query_with_error_def b_def [symmetric] error_prefix_def error_prefixes_def begins_with_def)
  qed
qed

text \<open>
  (C37) Whatever error TDLib reports, the query is answered in one of the documented forms: a flood error
  whose text states a positive delay becomes that delay, one that states none becomes error 500 with
  the same text, and every other error becomes 400, 401, 403 or 500 with a description that begins
  with the name of that code.
\<close>

theorem tdlib_errors_documented:
  "case fail_query_with_error q code m d of
     Retry n \<Rightarrow> code = 429 \<and> 0 < n \<and> n < 2 ^ 31 \<and> m = retry_after_prefix @ show_int n
   | Fail c text ps \<Rightarrow>
       ps = [] \<and>
       (if code = 429 then c = 500 \<and> text = m \<and> (\<nexists>n. 0 < n \<and> n < 2 ^ 31 \<and> m = retry_after_prefix @ show_int n)
        else c = answered_code code m d \<and> (\<exists>p. map_of error_prefixes c = Some p \<and> begins_with text p))
   | _ \<Rightarrow> False"
proof (cases "code = 429")
  case True
  show ?thesis
  proof (cases "0 < get_retry_after_time m")
    case True
    from retry_time_iff [OF True, of m]
    have "get_retry_after_time m < 2 ^ 31 \<and> m = retry_after_prefix @ show_int (get_retry_after_time m)" by blast
    moreover have "fail_query_with_error q code m d = Retry (get_retry_after_time m)"
      using True \<open>code = 429\<close> by (simp add: fail_query_with_error_def)
    ultimately show ?thesis using True \<open>code = 429\<close> by (simp only: answer.case)
  next
    case False
    have "\<nexists>n. 0 < n \<and> n < 2 ^ 31 \<and> m = retry_after_prefix @ show_int n"
    proof
      assume "\<exists>n. 0 < n \<and> n < 2 ^ 31 \<and> m = retry_after_prefix @ show_int n"
      then obtain n where "0 < n" "n < 2 ^ 31 \<and> m = retry_after_prefix @ show_int n" by blast
      then have "get_retry_after_time m = n" by (simp only: retry_time_iff)
      with \<open>0 < n\<close> False show False by simp
    qed
    with False \<open>code = 429\<close> show ?thesis by (simp add: fail_query_with_error_def)
  qed
next
  case False
  with answered_code_eq [OF this, of q m d] show ?thesis by auto
qed

end
