(* ===== verification/Client_Files.thy ===== *)
theory Client_Files
  imports Client_Errors Client_Webhook Stream_Connection Workdir "HOL-Library.AList"
begin

section \<open>File downloads and file streams of a client\<close>

text \<open>
  The part of \<open>Client.cpp\<close> between the Bot API, the streaming endpoint and the files of TDLib: the
  streams that wait for authorization, the listeners of each file (streams and \<open>getFile\<close> queries), the
  requests sent to TDLib with the callback that receives the result, the decision to delete the local
  copy of a file, and what is answered when the client closes.

  A handler returns the new state and the messages it sends in order; a failed \<open>CHECK\<close> is \<^const>\<open>None\<close>.
  Hash tables are association lists in order of insertion. \<open>free\<close> is the free space reported for the
  working directory. While the client is closing, \<open>send_request\<close> calls the callback at once with an
  error, as the code does.
\<close>

subsection \<open>Data\<close>

text \<open>\<open>td_api::file\<close> with its local and remote parts.\<close>

record td_file =
  td_id :: int
  td_size :: int
  td_expected_size :: int
  td_remote_id :: string
  td_unique_id :: string
  td_path :: string
  td_download_offset :: int
  td_prefix_size :: int
  td_downloaded_size :: int
  td_completed :: bool
  td_active :: bool

datatype td_result = Td_Error int string | Td_File td_file | Td_Ok

type_synonym stream_actor = nat

text \<open>\<open>FileStreamRef\<close> and \<open>PendingFileStream\<close>.\<close>

record stream_ref =
  ref_id :: int
  ref_actor :: stream_actor

record pending_stream =
  pend_ref :: stream_ref
  pend_file_id :: string
  pend_expected_size :: int

datatype stream_message =
    On_File_Ready int int string int int bool bool
  | On_File_Progress int string int int bool bool
  | On_File_Error td_error

datatype remote_purpose = Get_File bool | Release_Local_File

datatype td_function = GetRemoteFile string | DownloadFile int | CancelDownloadFile int | DeleteFile int

text \<open>The callbacks waiting for results of TDLib.\<close>

datatype td_callback =
    On_Stream_Remote_File stream_ref int
  | On_Stream_Download int
  | On_Remote_File remote_purpose query
  | On_Download_File int
  | On_Cancel_Download
  | On_Delete_File int
  | On_Delete_File_Query query

datatype file_message =
    To_Stream stream_actor stream_message
  | Request td_function td_callback
  | Conclude answer query
  | Answer_File td_file bool query

record file_params =
  fp_local_mode :: bool
  fp_dir :: string
  fp_min_free_bytes :: int
  fp_unknown_min_free_bytes :: int

record client_files =
  base :: webhook
  was_authorized :: bool
  td_client :: bool
  file_download_listeners :: "(int \<times> query list) list"
  download_started_file_ids :: "int list"
  file_stream_listeners :: "(int \<times> stream_ref list) list"
  active_file_streams :: "(int \<times> stream_actor) list"
  pending_file_streams :: "pending_stream list"
  file_delete_attempts :: nat
  file_delete_successes :: nat
  file_delete_failures :: nat
  file_delete_skipped_busy :: nat
  workdir_space_rejections :: nat

definition new_client_files :: "webhook \<Rightarrow> client_files" where
  "new_client_files w =
     \<lparr>base = w, was_authorized = False, td_client = True, file_download_listeners = [], download_started_file_ids = [],
      file_stream_listeners = [], active_file_streams = [], pending_file_streams = [], file_delete_attempts = 0,
      file_delete_successes = 0, file_delete_failures = 0, file_delete_skipped_busy = 0, workdir_space_rejections = 0\<rparr>"

type_synonym files_result = "(client_files \<times> file_message list) option"

definition is_closing :: "client_files \<Rightarrow> bool" where
  "is_closing c \<longleftrightarrow> closing (base c) \<or> logging_out (base c)"

definition and_then :: "files_result \<Rightarrow> (client_files \<Rightarrow> files_result) \<Rightarrow> files_result" where
  "and_then r k =
     (case r of None \<Rightarrow> None | Some (c, ms) \<Rightarrow> map_option (\<lambda>(c', ms'). (c', ms @ ms')) (k c))"

text \<open>\<open>table[key].push_back(x)\<close>\<close>

definition push_back_at :: "int \<Rightarrow> 'a \<Rightarrow> (int \<times> 'a list) list \<Rightarrow> (int \<times> 'a list) list" where
  "push_back_at key x table = AList.map_default key [x] (\<lambda>xs. xs @ [x]) table"

subsection \<open>The answer with a file\<close>

definition max_download_file_size :: int where
  "max_download_file_size = 20 * 2 ^ 20"

datatype json_field = Json_Value json_value | Json_Raw_String string

definition path_relative :: "string \<Rightarrow> string \<Rightarrow> bool \<Rightarrow> string" where
  "path_relative path dir force =
     (if begins_with path dir then drop (length dir) path else if force then [] else path)"

definition json_store_file :: "file_params \<Rightarrow> td_file \<Rightarrow> bool \<Rightarrow> (string \<times> json_field) list" where
  "json_store_file p f with_path =
     (if td_id f = 0 then []
      else [(''file_id'', Json_Value (JString (td_remote_id f))), (''file_unique_id'', Json_Value (JString (td_unique_id f)))] @
        (if td_size f \<noteq> 0 then [(''file_size'', Json_Value (JNumber (show_int (td_size f))))] else []) @
        (if with_path \<and> td_completed f then
           if fp_local_mode p
           then [(''file_path'', if check_utf8 (td_path f) then Json_Value (JString (td_path f)) else Json_Raw_String (td_path f))]
           else
             let relative_path = path_relative (td_path f) (fp_dir p) True
             in if relative_path \<noteq> [] \<and> td_downloaded_size f \<le> max_download_file_size
                then [(''file_path'', Json_Value (JString relative_path))] else []
         else []))"

subsection \<open>Downloads for queries\<close>

definition is_file_being_downloaded :: "int \<Rightarrow> client_files \<Rightarrow> bool" where
  "is_file_being_downloaded file_id0 c \<longleftrightarrow> map_of (file_download_listeners c) file_id0 \<noteq> None"

definition on_file_download :: "int \<Rightarrow> td_file result \<Rightarrow> client_files \<Rightarrow> client_files \<times> file_message list" where
  "on_file_download file_id0 r c =
     (case map_of (file_download_listeners c) file_id0 of
        None \<Rightarrow> (c, [])
      | Some queries \<Rightarrow>
          (c\<lparr>file_download_listeners := AList.delete file_id0 (file_download_listeners c),
             download_started_file_ids := removeAll file_id0 (download_started_file_ids c)\<rparr>,
           map (\<lambda>q. case r of
                  Inl e \<Rightarrow> Conclude (fail_query_with_error (q_method q) (err_code e) (err_message e) []) q
                | Inr f \<Rightarrow> Answer_File f True q) queries))"

definition on_local_file_delete_attempt :: "client_files \<Rightarrow> client_files" where
  "on_local_file_delete_attempt c = c\<lparr>file_delete_attempts := file_delete_attempts c + 1\<rparr>"

definition on_local_file_delete_finished :: "bool \<Rightarrow> client_files \<Rightarrow> client_files" where
  "on_local_file_delete_finished success c =
     (if success then c\<lparr>file_delete_successes := file_delete_successes c + 1\<rparr>
      else c\<lparr>file_delete_failures := file_delete_failures c + 1\<rparr>)"

text \<open>Messages to all streams that listen to a file.\<close>

definition to_listeners :: "int \<Rightarrow> stream_message \<Rightarrow> client_files \<Rightarrow> file_message list" where
  "to_listeners file_id0 m c =
     (case map_of (file_stream_listeners c) file_id0 of
        None \<Rightarrow> []
      | Some streams \<Rightarrow> map (\<lambda>r. To_Stream (ref_actor r) m) streams)"

subsection \<open>Requests\<close>

text \<open>The callbacks on an error.\<close>

fun on_error :: "td_callback \<Rightarrow> int \<Rightarrow> string \<Rightarrow> client_files \<Rightarrow> client_files \<times> file_message list" where
  "on_error (On_Stream_Remote_File r expected) code message c =
     (if map_of (active_file_streams c) (ref_id r) = None then (c, [])
      else (c, [To_Stream (ref_actor r) (On_File_Error (Error code message))]))"
| "on_error (On_Stream_Download file_id0) code message c =
     (c, to_listeners file_id0 (On_File_Error (Error code message)) c)"
| "on_error (On_Remote_File purpose q) code message c =
     (c, [Conclude (fail_query_with_error (q_method q) code message ''invalid file_id'') q])"
| "on_error (On_Download_File file_id0) code message c = on_file_download file_id0 (Inl (Error code message)) c"
| "on_error On_Cancel_Download code message c = (c, [])"
| "on_error (On_Delete_File file_id0) code message c = (on_local_file_delete_finished False c, [])"
| "on_error (On_Delete_File_Query q) code message c =
     (on_local_file_delete_finished False c, [Conclude (fail_query_with_error (q_method q) code message []) q])"

definition do_send_request :: "td_function \<Rightarrow> td_callback \<Rightarrow> client_files \<Rightarrow> files_result" where
  "do_send_request f cb c = (if td_client c then Some (c, [Request f cb]) else None)"

definition send_request :: "real \<Rightarrow> td_function \<Rightarrow> td_callback \<Rightarrow> client_files \<Rightarrow> files_result" where
  "send_request now f cb c =
     (if is_closing c
      then map_option (\<lambda>(code, retry_after, message). on_error cb code message c) (get_closing_error now (base c))
      else do_send_request f cb c)"

subsection \<open>Streams\<close>

definition start_file_stream :: "real \<Rightarrow> stream_ref \<Rightarrow> string \<Rightarrow> int \<Rightarrow> client_files \<Rightarrow> files_result" where
  "start_file_stream now r fid expected_size c =
     (let c1 = c\<lparr>active_file_streams := AList.update (ref_id r) (ref_actor r) (active_file_streams c)\<rparr> in
      if \<not> was_authorized c1
      then Some (c1\<lparr>pending_file_streams := pending_file_streams c1 @
             [\<lparr>pend_ref = r, pend_file_id = fid, pend_expected_size = expected_size\<rparr>]\<rparr>, [])
      else if is_closing c1
      then map_option (\<lambda>(code, retry_after, message). (c1, [To_Stream (ref_actor r) (On_File_Error (Error code message))]))
             (get_closing_error now (base c1))
      else if fid = [] \<or> length fid > 4096
      then Some (c1, [To_Stream (ref_actor r) (On_File_Error (Error 400 ''Invalid file_id specified''))])
      else send_request now (GetRemoteFile fid) (On_Stream_Remote_File r expected_size) c1)"

definition remove_file_stream :: "real \<Rightarrow> int \<Rightarrow> int \<Rightarrow> bool \<Rightarrow> bool \<Rightarrow> client_files \<Rightarrow> files_result" where
  "remove_file_stream now sid fid remove_req completed0 c =
     (let c1 = c\<lparr>active_file_streams := AList.delete sid (active_file_streams c),
                 pending_file_streams := filter (\<lambda>p. ref_id (pend_ref p) \<noteq> sid) (pending_file_streams c)\<rparr> in
      if fid = 0 then Some (c1, [])
      else
        case map_of (file_stream_listeners c1) fid of
          None \<Rightarrow> Some (c1, [])
        | Some streams \<Rightarrow>
            let rest = filter (\<lambda>r. ref_id r \<noteq> sid) streams in
            if rest \<noteq> [] then Some (c1\<lparr>file_stream_listeners := AList.update fid rest (file_stream_listeners c1)\<rparr>, [])
            else
              let busy = map_of (file_download_listeners c1) fid \<noteq> None;
                  c2 = c1\<lparr>file_stream_listeners := AList.delete fid (file_stream_listeners c1)\<rparr>
              in case decide_file_stream_local_copy_action
                        \<lparr>remove_requested = remove_req, completed_ok = completed0, other_stream_listeners = False,
                         download_listener_active = busy\<rparr> of
                   DeleteLocalCopy \<Rightarrow>
                     send_request now (DeleteFile fid) (On_Delete_File fid) (on_local_file_delete_attempt c2)
                 | CancelDownload \<Rightarrow> send_request now (CancelDownloadFile fid) On_Cancel_Download c2
                 | SkipBusy \<Rightarrow> Some (c2\<lparr>file_delete_skipped_busy := file_delete_skipped_busy c2 + 1\<rparr>, [])
                 | ActionNone \<Rightarrow> Some (c2, []))"

definition client_request_redownload :: "real \<Rightarrow> int \<Rightarrow> client_files \<Rightarrow> files_result" where
  "client_request_redownload now fid c =
     (if is_closing c then Some (c, [])
      else if fid \<le> 0 \<or> map_of (file_stream_listeners c) fid = None then Some (c, [])
      else send_request now (DownloadFile fid) (On_Stream_Download fid) c)"

text \<open>Streams that waited for the authorization of the bot (in \<open>on_update_authorization_state\<close>).\<close>

fun start_pending_streams :: "real \<Rightarrow> pending_stream list \<Rightarrow> client_files \<Rightarrow> files_result" where
  "start_pending_streams now [] c = Some (c, [])"
| "start_pending_streams now (p # ps) c =
     and_then (start_file_stream now (pend_ref p) (pend_file_id p) (pend_expected_size p) c) (start_pending_streams now ps)"

definition on_authorized :: "real \<Rightarrow> client_files \<Rightarrow> files_result" where
  "on_authorized now c =
     (if was_authorized c then Some (c, [])
      else start_pending_streams now (pending_file_streams c) (c\<lparr>was_authorized := True, pending_file_streams := []\<rparr>))"

subsection \<open>Queries about files\<close>

definition check_workdir_space_for_download ::
  "file_params \<Rightarrow> int \<Rightarrow> int \<Rightarrow> int \<Rightarrow> client_files \<Rightarrow> bool \<times> client_files"
where
  "check_workdir_space_for_download p free sz existing_local_size c =
     (let check = check_workdir_space free (fp_min_free_bytes p) sz existing_local_size (fp_unknown_min_free_bytes p)
      in if allowed check then (True, c) else (False, c\<lparr>workdir_space_rejections := workdir_space_rejections c + 1\<rparr>))"

definition no_space_message :: string where
  "no_space_message = ''Telegram workdir has insufficient free space to start a new download''"

definition do_get_file :: "file_params \<Rightarrow> real \<Rightarrow> int \<Rightarrow> td_file \<Rightarrow> query \<Rightarrow> client_files \<Rightarrow> files_result" where
  "do_get_file p now free f q c =
     (if \<not> fp_local_mode p \<and> max (td_expected_size f) (td_downloaded_size f) > max_download_file_size
      then Some (c, [Conclude (Fail 400 ''Bad Request: file is too big'' []) q])
      else
        let known_size = (if td_size f > 0 then td_size f else if td_expected_size f > 0 then td_expected_size f else - 1);
            (admitted, c1) = check_workdir_space_for_download p free known_size (max 0 (td_downloaded_size f)) c
        in if \<not> admitted then Some (c1, [Conclude (Fail 507 no_space_message []) q])
           else send_request now (DownloadFile (td_id f)) (On_Download_File (td_id f))
                  (c1\<lparr>file_download_listeners := push_back_at (td_id f) q (file_download_listeners c1)\<rparr>))"

definition release_local_file :: "real \<Rightarrow> td_file \<Rightarrow> query \<Rightarrow> client_files \<Rightarrow> files_result" where
  "release_local_file now f q c =
     (if td_id f \<le> 0 \<or> is_file_being_downloaded (td_id f) c \<or> map_of (file_stream_listeners c) (td_id f) \<noteq> None
      then Some (c, [Conclude (Fail 409 ''Conflict: file is currently in use'' []) q])
      else send_request now (DeleteFile (td_id f)) (On_Delete_File_Query q) (on_local_file_delete_attempt c))"

definition check_remote_file_id :: "real \<Rightarrow> string \<Rightarrow> remote_purpose \<Rightarrow> query \<Rightarrow> client_files \<Rightarrow> files_result" where
  "check_remote_file_id now fid purpose q c =
     (if fid = [] then Some (c, [Conclude (Fail 400 ''Bad Request: file_id not specified'' []) q])
      else send_request now (GetRemoteFile fid) (On_Remote_File purpose q) c)"

definition process_get_file_query :: "real \<Rightarrow> query \<Rightarrow> client_files \<Rightarrow> files_result" where
  "process_get_file_query now q c =
     check_remote_file_id now (arg q ''file_id'') (Get_File (to_bool (arg q ''metadata_only''))) q c"

definition process_release_local_file_query :: "real \<Rightarrow> query \<Rightarrow> client_files \<Rightarrow> files_result" where
  "process_release_local_file_query now q c = check_remote_file_id now (arg q ''file_id'') Release_Local_File q c"

subsection \<open>Results and updates of TDLib\<close>

definition progress_of :: "td_file \<Rightarrow> stream_message" where
  "progress_of f =
     On_File_Progress (td_size f) (td_path f) (td_download_offset f) (td_prefix_size f) (td_completed f) (td_active f)"

text \<open>The part of \<open>on_update_file\<close> about the queries that wait for the download.\<close>

definition update_download :: "file_params \<Rightarrow> real \<Rightarrow> td_file \<Rightarrow> client_files \<Rightarrow> files_result" where
  "update_download p now f c =
     (let fid = td_id f;
          finish = (\<lambda>r c. Some (on_file_download fid r c)) in
      if \<not> is_file_being_downloaded fid c then Some (c, [])
      else if \<not> fp_local_mode p \<and> td_downloaded_size f > max_download_file_size then
        and_then (if td_active f then send_request now (CancelDownloadFile fid) On_Cancel_Download c else Some (c, []))
          (finish (Inl (Error 400 ''Bad Request: file is too big'')))
      else if td_completed f then finish (Inr f) c
      else if \<not> td_active f \<and> fid \<in> set (download_started_file_ids c) then
        if is_closing c
        then map_option (\<lambda>(code, retry_after, message). on_file_download fid (Inl (Error code message)) c)
               (get_closing_error now (base c))
        else finish (Inl (Error 400 ''Bad Request: wrong file_id or the file is temporarily unavailable'')) c
      else Some (c, []))"

definition on_update_file :: "file_params \<Rightarrow> real \<Rightarrow> td_file \<Rightarrow> client_files \<Rightarrow> files_result" where
  "on_update_file p now f c =
     and_then (Some (c, to_listeners (td_id f) (progress_of f) c)) (update_download p now f)"

definition on_stream_remote_file ::
  "file_params \<Rightarrow> real \<Rightarrow> int \<Rightarrow> stream_ref \<Rightarrow> int \<Rightarrow> td_file \<Rightarrow> client_files \<Rightarrow> files_result"
where
  "on_stream_remote_file p now free r expected f c =
     (let fail = (\<lambda>e c. Some (c, [To_Stream (ref_actor r) (On_File_Error e)])) in
      if map_of (active_file_streams c) (ref_id r) = None then Some (c, [])
      else
        case resolve_file_stream_size (td_size f) expected of
          Inl e \<Rightarrow> fail e c
        | Inr resolved_size \<Rightarrow>
            let need_start_download =
                  (case map_of (file_stream_listeners c) (td_id f) of None \<Rightarrow> True | Some streams \<Rightarrow> streams = []);
                (admitted, c1) =
                  (if need_start_download then check_workdir_space_for_download p free resolved_size (td_downloaded_size f) c
                   else (True, c))
            in if \<not> admitted then fail (Error 507 no_space_message) c1
               else
                 and_then
                   (Some (c1\<lparr>file_stream_listeners := push_back_at (td_id f) r (file_stream_listeners c1)\<rparr>,
                      [To_Stream (ref_actor r) (On_File_Ready (td_id f) resolved_size (td_path f) (td_download_offset f)
                         (td_prefix_size f) (td_completed f) (td_active f))]))
                   (\<lambda>c. if need_start_download
                        then send_request now (DownloadFile (td_id f)) (On_Stream_Download (td_id f)) c
                        else Some (c, [])))"

fun on_result :: "file_params \<Rightarrow> real \<Rightarrow> int \<Rightarrow> td_callback \<Rightarrow> td_result \<Rightarrow> client_files \<Rightarrow> files_result" where
  "on_result p now free cb (Td_Error code message) c = Some (on_error cb code message c)"
| "on_result p now free (On_Stream_Remote_File r expected) (Td_File f) c = on_stream_remote_file p now free r expected f c"
| "on_result p now free (On_Stream_Remote_File r expected) Td_Ok c =
     (if map_of (active_file_streams c) (ref_id r) = None then Some (c, []) else None)"
| "on_result p now free (On_Stream_Download fid) (Td_File f) c = on_update_file p now f c"
| "on_result p now free (On_Remote_File (Get_File metadata_only) q) (Td_File f) c =
     (if metadata_only then Some (c, [Answer_File f False q]) else do_get_file p now free f q c)"
| "on_result p now free (On_Remote_File Release_Local_File q) (Td_File f) c = release_local_file now f q c"
| "on_result p now free (On_Download_File fid) (Td_File f) c =
     on_update_file p now f
       (if is_file_being_downloaded fid c
        then c\<lparr>download_started_file_ids := List.insert fid (download_started_file_ids c)\<rparr> else c)"
| "on_result p now free On_Cancel_Download Td_Ok c = Some (c, [])"
| "on_result p now free (On_Delete_File fid) Td_Ok c = Some (on_local_file_delete_finished True c, [])"
| "on_result p now free (On_Delete_File_Query q) Td_Ok c =
     Some (on_local_file_delete_finished True c, [Conclude (answer.Answer (JBoolean True) []) q])"
| "on_result p now free _ _ c = None"

subsection \<open>Closing\<close>

definition closing_answer :: "real \<Rightarrow> client_files \<Rightarrow> answer option" where
  "closing_answer now c =
     map_option (\<lambda>(code, retry_after, message). if retry_after > 0 then Retry retry_after else Fail code message [])
       (get_closing_error now (base c))"

definition files_on_closed :: "real \<Rightarrow> client_files \<Rightarrow> files_result" where
  "files_on_closed now c =
     (if \<not> is_closing c \<or> \<not> td_client c then None
      else
        map_option (\<lambda>a.
          (c\<lparr>td_client := False, file_download_listeners := [], active_file_streams := [], pending_file_streams := [],
             file_stream_listeners := [], download_started_file_ids := []\<rparr>,
           concat (map (\<lambda>(fid, queries). map (Conclude a) queries) (file_download_listeners c)) @
           map (\<lambda>(sid, actor). To_Stream actor (On_File_Error (Error 503 ''Bot API client is closing''))) (active_file_streams c)))
        (closing_answer now c))"

definition get_active_file_stream_listener_count :: "client_files \<Rightarrow> nat" where
  "get_active_file_stream_listener_count c = sum_list (map (\<lambda>(fid, streams). length streams) (file_stream_listeners c))"

end
