(* ===== verification/Client_Send.thy ===== *)
theory Client_Send
  imports Client_Files
begin

section \<open>Sending messages\<close>

text \<open>
  The part of \<open>Client.cpp\<close> that follows a message from the Bot API query to its answer: the limit on the
  messages of one chat that are under way, the requests to TDLib and their callbacks, the table of messages TDLib
  accepted but has not sent yet, queries that wait for several messages, the release of the local copy of an uploaded
  file, stories, and what is answered when the client closes.

  The contents of a request and the JSON text of a message are arguments, the latter for each form of the field
  \<open>local_cache_released\<close>. The flags of the client, the connection to TDLib and the counters of deleted files are those
  of \<open>Client_Files\<close>; the cache of messages is not part of this state. \<open>Send_Message\<close> stands for \<open>sendMessage\<close> and
  \<open>sendEphemeralMessage\<close>, which have the same callback. A failed \<open>CHECK\<close> is \<^const>\<open>None\<close>; hash tables are association lists.
\<close>

subsection \<open>Data\<close>

text \<open>\<open>td_api::message\<close>: what the code reads of it, with the TDLib number of its file, if any.\<close>

record sent_message =
  sm_chat_id :: int
  sm_id :: int
  sm_file_id :: int
  sm_json :: "bool option \<Rightarrow> string"

record sent_story =
  ss_chat_id :: int
  ss_id :: int
  ss_json :: string

record pending_send =
  ps_query :: query
  ps_remove_local_file :: bool
  ps_is_multisend :: bool
  ps_total_message_count :: int
  ps_awaited_message_count :: int
  ps_messages :: "string list"
  ps_error :: "td_error option"

datatype send_function =
    Send_Message int
  | Send_Message_Album int nat
  | Forward_Messages int nat
  | Send_Business_Message
  | Send_Business_Album
  | Post_Story
  | Delete_Messages int int
  | Delete_Uploaded_File int

datatype send_callback =
    On_Send_Message int query
  | On_Send_Album int nat query
  | On_Forward_Messages int nat query
  | On_Return_Business_Message query
  | On_Send_Business_Album query
  | On_Post_Story query
  | On_Delete_Failed_To_Send_Message int int
  | On_Delete_File_And_Answer int string string query

datatype send_result =
    Sent_Error td_error
  | Sent_Message sent_message
  | Sent_Messages "sent_message option list"
  | Sent_Business_Message string
  | Sent_Business_Messages "string list"
  | Sent_Story sent_story
  | Sent_Ok

text \<open>What is sent: requests, answers, an answer after three seconds, and a query passed on to the next check.\<close>

datatype send_output =
    Send_Request send_function send_callback
  | Conclude_Send answer query
  | Answer_Text string query
  | Retry_Later int int query
  | Pass_On query

record client_send =
  send_files :: client_files
  yet_unsent_messages :: "((int \<times> int) \<times> int) list"
  yet_unsent_message_count :: "(int \<times> int) list"
  yet_unsent_stories :: "((int \<times> int) \<times> query) list"
  pending_send_message_queries :: "(int \<times> pending_send) list"
  current_send_message_query_id :: int
  flood_limited_query_count :: nat

type_synonym send_outcome = "(client_send \<times> send_output list) option"

definition new_client_send :: "client_files \<Rightarrow> client_send" where
  "new_client_send f =
     \<lparr>send_files = f, yet_unsent_messages = [], yet_unsent_message_count = [], yet_unsent_stories = [],
      pending_send_message_queries = [], current_send_message_query_id = 1, flood_limited_query_count = 0\<rparr>"

definition max_concurrently_sent_chat_messages :: int where
  "max_concurrently_sent_chat_messages = 310"

subsection \<open>Texts\<close>

fun join_texts :: "string list \<Rightarrow> string" where
  "join_texts [] = []"
| "join_texts [x] = x"
| "join_texts (x # xs) = x @ '','' @ join_texts xs"

definition json_messages :: "string list \<Rightarrow> string" where
  "json_messages texts = ''['' @ join_texts texts @ '']''"

definition as_tdlib_message_id :: "int \<Rightarrow> int" where
  "as_tdlib_message_id i = i * 2 ^ 20"

definition as_client_message_id_unchecked :: "int \<Rightarrow> int" where
  "as_client_message_id_unchecked i =
     (let result = (i div 2 ^ 20 + 2 ^ 31) mod 2 ^ 32 - 2 ^ 31
      in if as_tdlib_message_id result \<noteq> i then 0 else result)"

definition json_message_id :: "int \<Rightarrow> string" where
  "json_message_id i = ''{'' @ [CHR 0x22] @ ''message_id'' @ [CHR 0x22] @ '':'' @ show_int (as_client_message_id_unchecked i) @ ''}''"

subsection \<open>The number of messages under way\<close>

definition unsent_count :: "int \<Rightarrow> client_send \<Rightarrow> int" where
  "unsent_count chat c = (case map_of (yet_unsent_message_count c) chat of None \<Rightarrow> 0 | Some n \<Rightarrow> n)"

definition decrease_yet_unsent_message_count :: "int \<Rightarrow> int \<Rightarrow> client_send \<Rightarrow> client_send option" where
  "decrease_yet_unsent_message_count chat n c =
     (case map_of (yet_unsent_message_count c) chat of
        None \<Rightarrow> None
      | Some k \<Rightarrow>
          if k < n then None
          else Some (c\<lparr>yet_unsent_message_count :=
                 (if k - n = 0 then AList.delete chat (yet_unsent_message_count c)
                  else AList.update chat (k - n) (yet_unsent_message_count c))\<rparr>))"

definition fail_query_flood_limit_exceeded :: "query \<Rightarrow> client_send \<Rightarrow> client_send \<times> send_output list" where
  "fail_query_flood_limit_exceeded q c =
     (c\<lparr>flood_limited_query_count := flood_limited_query_count c + 1\<rparr>, [Retry_Later 3 60 q])"

text \<open>The test before a request: by \<open>find\<close>, which adds nothing to the table.\<close>

definition is_flooded :: "int \<Rightarrow> client_send \<Rightarrow> bool" where
  "is_flooded chat c \<longleftrightarrow> (case map_of (yet_unsent_message_count c) chat of
     None \<Rightarrow> False | Some n \<Rightarrow> n \<ge> max_concurrently_sent_chat_messages)"

text \<open>The fast path of \<open>process_send_message_query\<close>; otherwise the query goes on to \<open>do_send_message\<close>.\<close>

definition process_send_message_query :: "query \<Rightarrow> client_send \<Rightarrow> client_send \<times> send_output list" where
  "process_send_message_query q c =
     (case to_integer_safe 64 (find_value (q_args q) ''chat_id'') of
        Some chat \<Rightarrow> if is_flooded chat c then fail_query_flood_limit_exceeded q c else (c, [Pass_On q])
      | None \<Rightarrow> (c, [Pass_On q]))"

text \<open>The first test of \<open>forwardMessages\<close> and \<open>copyMessages\<close>, before the messages are looked up.\<close>

definition before_forward :: "int \<Rightarrow> query \<Rightarrow> client_send \<Rightarrow> client_send \<times> send_output list" where
  "before_forward chat q c = (if is_flooded chat c then fail_query_flood_limit_exceeded q c else (c, [Pass_On q]))"

subsection \<open>Callbacks\<close>

definition fail_send :: "td_error \<Rightarrow> query \<Rightarrow> send_output" where
  "fail_send e q = Conclude_Send (fail_query_with_error (q_method q) (err_code e) (err_message e) []) q"

definition get_send_message_query_id :: "query \<Rightarrow> bool \<Rightarrow> client_send \<Rightarrow> (int \<times> client_send) option" where
  "get_send_message_query_id q is_multisend c =
     (let query_id = current_send_message_query_id c in
      if map_of (pending_send_message_queries c) query_id \<noteq> None then None
      else Some (query_id,
        c\<lparr>current_send_message_query_id := query_id + 1,
          pending_send_message_queries := AList.update query_id
            \<lparr>ps_query = q, ps_remove_local_file = parse_file_stream_no_cache (get_header q ''x-telegram-no-cache''),
             ps_is_multisend = is_multisend, ps_total_message_count = 0, ps_awaited_message_count = 0, ps_messages = [],
             ps_error = None\<rparr> (pending_send_message_queries c)\<rparr>))"

definition on_sent_message :: "sent_message \<Rightarrow> int \<Rightarrow> client_send \<Rightarrow> client_send option" where
  "on_sent_message m query_id c =
     (let full_id = (sm_chat_id m, sm_id m) in
      if map_of (yet_unsent_messages c) full_id \<noteq> None then None
      else case map_of (pending_send_message_queries c) query_id of
             None \<Rightarrow> None
           | Some p \<Rightarrow>
               Some (c\<lparr>yet_unsent_messages := AList.update full_id query_id (yet_unsent_messages c),
                 pending_send_message_queries := AList.update query_id
                   (p\<lparr>ps_awaited_message_count := ps_awaited_message_count p + 1,
                      ps_total_message_count := ps_total_message_count p + 1\<rparr>) (pending_send_message_queries c)\<rparr>))"

fun on_sent_messages :: "sent_message list \<Rightarrow> int \<Rightarrow> client_send \<Rightarrow> client_send option" where
  "on_sent_messages [] query_id c = Some c"
| "on_sent_messages (m # ms) query_id c = Option.bind (on_sent_message m query_id c) (on_sent_messages ms query_id)"

definition on_sent_story :: "sent_story \<Rightarrow> query \<Rightarrow> client_send \<Rightarrow> client_send option" where
  "on_sent_story s q c =
     (let full_id = (ss_chat_id s, ss_id s) in
      if map_of (yet_unsent_stories c) full_id \<noteq> None then None
      else Some (c\<lparr>yet_unsent_stories := AList.update full_id q (yet_unsent_stories c)\<rparr>))"

text \<open>The callbacks on an error.\<close>

fun on_send_error :: "send_callback \<Rightarrow> td_error \<Rightarrow> client_send \<Rightarrow> send_outcome" where
  "on_send_error (On_Send_Message chat q) e c =
     map_option (\<lambda>c'. (c', [fail_send e q])) (decrease_yet_unsent_message_count chat 1 c)"
| "on_send_error (On_Send_Album chat n q) e c =
     map_option (\<lambda>c'. (c', [fail_send e q])) (if n > 0 then decrease_yet_unsent_message_count chat (int n) c else Some c)"
| "on_send_error (On_Forward_Messages chat n q) e c =
     map_option (\<lambda>c'. (c', [fail_send e q])) (if n > 0 then decrease_yet_unsent_message_count chat (int n) c else Some c)"
| "on_send_error (On_Return_Business_Message q) e c = Some (c, [fail_send e q])"
| "on_send_error (On_Send_Business_Album q) e c = Some (c, [fail_send e q])"
| "on_send_error (On_Post_Story q) e c = Some (c, [fail_send e q])"
| "on_send_error (On_Delete_Failed_To_Send_Message chat i) e c = Some (c, [])"
| "on_send_error (On_Delete_File_And_Answer fid released pending q) e c =
     Some (c\<lparr>send_files := on_local_file_delete_finished False (send_files c)\<rparr>, [Answer_Text pending q])"

text \<open>\<open>TdOnForwardMessagesCallback\<close> after the removal of the messages that were not forwarded.\<close>

definition on_forwarded :: "int \<Rightarrow> nat \<Rightarrow> query \<Rightarrow> sent_message list \<Rightarrow> client_send \<Rightarrow> send_outcome" where
  "on_forwarded chat n q ms c =
     do { c1 \<leftarrow> (if length ms \<noteq> n then decrease_yet_unsent_message_count chat (int n - int (length ms)) c else Some c);
          if ms = [] then Some (c1, [fail_send (Error 400 ''Messages can't be forwarded'') q])
          else do { (query_id, c2) \<leftarrow> get_send_message_query_id q True c1;
                    c3 \<leftarrow> on_sent_messages ms query_id c2;
                    Some (c3, []) } }"

fun on_send_result :: "send_callback \<Rightarrow> send_result \<Rightarrow> client_send \<Rightarrow> send_outcome" where
  "on_send_result cb (Sent_Error e) c = on_send_error cb e c"
| "on_send_result (On_Send_Message chat q) (Sent_Message m) c =
     do { (query_id, c1) \<leftarrow> get_send_message_query_id q False c;
          c2 \<leftarrow> on_sent_message m query_id c1;
          Some (c2, []) }"
| "on_send_result (On_Send_Album chat n q) (Sent_Messages ms) c =
     (if length ms \<noteq> n then None
      else do { (query_id, c1) \<leftarrow> get_send_message_query_id q True c;
                c2 \<leftarrow> (if list_ex (\<lambda>m. m = None) ms then None else on_sent_messages (map the ms) query_id c1);
                Some (c2, []) })"
| "on_send_result (On_Forward_Messages chat n q) (Sent_Messages ms) c =
     (if length ms \<noteq> n then None else on_forwarded chat n q (map the (filter (\<lambda>m. m \<noteq> None) ms)) c)"
| "on_send_result (On_Return_Business_Message q) (Sent_Business_Message text) c = Some (c, [Answer_Text text q])"
| "on_send_result (On_Send_Business_Album q) (Sent_Business_Messages texts) c = Some (c, [Answer_Text (json_messages texts) q])"
| "on_send_result (On_Post_Story q) (Sent_Story s) c = map_option (\<lambda>c'. (c', [])) (on_sent_story s q c)"
| "on_send_result (On_Delete_Failed_To_Send_Message chat i) Sent_Ok c = Some (c, [])"
| "on_send_result (On_Delete_File_And_Answer fid released pending q) Sent_Ok c =
     Some (c\<lparr>send_files := on_local_file_delete_finished True (send_files c)\<rparr>, [Answer_Text released q])"
| "on_send_result _ _ c = None"

subsection \<open>Requests\<close>

text \<open>\<open>send_request\<close>: while the client closes, the callback is called at once with an error.\<close>

definition request :: "real \<Rightarrow> send_function \<Rightarrow> send_callback \<Rightarrow> client_send \<Rightarrow> send_outcome" where
  "request now f cb c =
     (if is_closing (send_files c)
      then Option.bind (get_closing_error now (base (send_files c)))
             (\<lambda>(code, retry_after, message). on_send_result cb (Sent_Error (Error code message)) c)
      else if td_client (send_files c) then Some (c, [Send_Request f cb]) else None)"

text \<open>The last step before a request: the limit is tested again and the messages are counted.\<close>

definition reserve :: "real \<Rightarrow> int \<Rightarrow> nat \<Rightarrow> send_function \<Rightarrow> send_callback \<Rightarrow> query \<Rightarrow> client_send \<Rightarrow> send_outcome" where
  "reserve now chat n f cb q c =
     (if unsent_count chat c \<ge> max_concurrently_sent_chat_messages then Some (fail_query_flood_limit_exceeded q c)
      else request now f cb
             (c\<lparr>yet_unsent_message_count := AList.update chat (unsent_count chat c + int n) (yet_unsent_message_count c)\<rparr>))"

definition do_send_message :: "real \<Rightarrow> int \<Rightarrow> query \<Rightarrow> client_send \<Rightarrow> send_outcome" where
  "do_send_message now chat q c = reserve now chat 1 (Send_Message chat) (On_Send_Message chat q) q c"

definition send_media_group :: "real \<Rightarrow> int \<Rightarrow> nat \<Rightarrow> query \<Rightarrow> client_send \<Rightarrow> send_outcome" where
  "send_media_group now chat n q c = reserve now chat n (Send_Message_Album chat n) (On_Send_Album chat n q) q c"

definition forward_messages :: "real \<Rightarrow> int \<Rightarrow> nat \<Rightarrow> query \<Rightarrow> client_send \<Rightarrow> send_outcome" where
  "forward_messages now chat n q c = reserve now chat n (Forward_Messages chat n) (On_Forward_Messages chat n q) q c"

definition send_business_message :: "real \<Rightarrow> query \<Rightarrow> client_send \<Rightarrow> send_outcome" where
  "send_business_message now q c = request now Send_Business_Message (On_Return_Business_Message q) c"

definition send_business_album :: "real \<Rightarrow> query \<Rightarrow> client_send \<Rightarrow> send_outcome" where
  "send_business_album now q c = request now Send_Business_Album (On_Send_Business_Album q) c"

definition post_story :: "real \<Rightarrow> query \<Rightarrow> client_send \<Rightarrow> send_outcome" where
  "post_story now q c = request now Post_Story (On_Post_Story q) c"

subsection \<open>Updates about messages\<close>

definition extract_yet_unsent_message_query_id :: "int \<Rightarrow> int \<Rightarrow> client_send \<Rightarrow> (int \<times> client_send) option" where
  "extract_yet_unsent_message_query_id chat i c =
     (case map_of (yet_unsent_messages c) (chat, i) of
        None \<Rightarrow> None
      | Some query_id \<Rightarrow>
          map_option (Pair query_id)
            (decrease_yet_unsent_message_count chat 1
              (c\<lparr>yet_unsent_messages := AList.delete (chat, i) (yet_unsent_messages c)\<rparr>)))"

definition erase_pending :: "int \<Rightarrow> client_send \<Rightarrow> client_send" where
  "erase_pending query_id c = c\<lparr>pending_send_message_queries := AList.delete query_id (pending_send_message_queries c)\<rparr>"

definition set_pending :: "int \<Rightarrow> pending_send \<Rightarrow> client_send \<Rightarrow> client_send" where
  "set_pending query_id p c = c\<lparr>pending_send_message_queries := AList.update query_id p (pending_send_message_queries c)\<rparr>"

text \<open>The answer to a query for several messages once the last of them is settled.\<close>

definition settle_multisend :: "int \<Rightarrow> pending_send \<Rightarrow> client_send \<Rightarrow> client_send \<times> send_output list" where
  "settle_multisend query_id p c =
     (if ps_awaited_message_count p = 0
      then (erase_pending query_id c,
            [case ps_error p of
               None \<Rightarrow> Answer_Text (json_messages (ps_messages p)) (ps_query p)
             | Some e \<Rightarrow> fail_send e (ps_query p)])
      else (set_pending query_id p c, []))"

definition on_message_send_succeeded :: "real \<Rightarrow> sent_message \<Rightarrow> int \<Rightarrow> client_send \<Rightarrow> send_outcome" where
  "on_message_send_succeeded now m old_id c =
     (if \<not> sm_id m > 0 then None
      else do {
        (query_id, c1) \<leftarrow> extract_yet_unsent_message_query_id (sm_chat_id m) old_id c;
        p \<leftarrow> map_of (pending_send_message_queries c1) query_id;
        if ps_remove_local_file p \<and> \<not> is_closing (send_files c1) \<and> \<not> ps_is_multisend p \<and> sm_file_id m > 0
        then request now (Delete_Uploaded_File (sm_file_id m))
               (On_Delete_File_And_Answer (sm_file_id m) (sm_json m (Some True)) (sm_json m (Some False)) (ps_query p))
               (let c2 = erase_pending query_id c1 in c2\<lparr>send_files := on_local_file_delete_attempt (send_files c2)\<rparr>)
        else if ps_is_multisend p
        then Some (settle_multisend query_id
               (p\<lparr>ps_messages := ps_messages p @
                    [if q_method (ps_query p) = ''forwardmessages'' \<or> q_method (ps_query p) = ''copymessages''
                     then json_message_id (sm_id m) else sm_json m None],
                  ps_awaited_message_count := ps_awaited_message_count p - 1\<rparr>) c1)
        else if ps_awaited_message_count p \<noteq> 1 then None
        else Some (erase_pending query_id c1,
               [Answer_Text
                  (if q_method (ps_query p) = ''copymessage'' then json_message_id (sm_id m)
                   else sm_json m (if ps_remove_local_file p then Some False else None)) (ps_query p)]) })"

text \<open>The error of a query for several messages: the first one, unless it says only that the group failed.\<close>

definition multisend_error :: "td_error \<Rightarrow> pending_send \<Rightarrow> td_error option" where
  "multisend_error e p =
     (if ps_error p = None \<or> map_option err_message (ps_error p) = Some ''Group send failed''
      then if is_special_error_code (err_code e) \<or> err_code e = 406 \<or> err_message e = ''Group send failed'' then Some e
           else Some (Error (err_code e)
             (''Failed to send message #'' @ show_int (ps_total_message_count p - ps_awaited_message_count p + 1) @
              '' with the error message '' @ [CHR 0x22] @ err_message e @ [CHR 0x22]))
      else ps_error p)"

definition on_message_send_failed :: "real \<Rightarrow> int \<Rightarrow> int \<Rightarrow> int \<Rightarrow> td_error \<Rightarrow> client_send \<Rightarrow> send_outcome" where
  "on_message_send_failed now chat old_id new_id e c =
     do { (query_id, c1) \<leftarrow> extract_yet_unsent_message_query_id chat old_id c;
          p \<leftarrow> map_of (pending_send_message_queries c1) query_id;
          (c2, ms) \<leftarrow>
            (if ps_is_multisend p
             then Some (settle_multisend query_id
                    (p\<lparr>ps_error := multisend_error e p, ps_awaited_message_count := ps_awaited_message_count p - 1\<rparr>) c1)
             else if ps_awaited_message_count p \<noteq> 1 then None
             else Some (erase_pending query_id c1, [fail_send e (ps_query p)]));
          if new_id \<noteq> 0 \<and> \<not> is_closing (send_files c2)
          then map_option (\<lambda>(c3, ms'). (c3, ms @ ms'))
                 (request now (Delete_Messages chat new_id) (On_Delete_Failed_To_Send_Message chat new_id) c2)
          else Some (c2, ms) }"

text \<open>
  \<open>delete_message\<close> for a message that is not in the cache: the error depends on the chat, a supergroup that the
  bot left or was banned from (\<open>Some True\<close> for a supergroup, \<open>Some False\<close> for a channel) or any other.
\<close>

definition deleted_message_error :: "bool option \<Rightarrow> td_error" where
  "deleted_message_error left_supergroup =
     (case left_supergroup of
        None \<Rightarrow> Error 500 ''Internal Server Error: sent message was immediately deleted and can't be returned''
      | Some True \<Rightarrow> Error 403 ''Forbidden: bot is not a member of the supergroup chat''
      | Some False \<Rightarrow> Error 403 ''Forbidden: bot is not a member of the channel chat'')"

definition delete_uncached_message :: "real \<Rightarrow> int \<Rightarrow> int \<Rightarrow> bool option \<Rightarrow> client_send \<Rightarrow> send_outcome" where
  "delete_uncached_message now chat i left_supergroup c =
     (if map_of (yet_unsent_messages c) (chat, i) = None then Some (c, [])
      else on_message_send_failed now chat i 0 (deleted_message_error left_supergroup) c)"

definition on_story_send_succeeded :: "sent_story \<Rightarrow> int \<Rightarrow> client_send \<Rightarrow> send_outcome" where
  "on_story_send_succeeded s old_id c =
     (case map_of (yet_unsent_stories c) (ss_chat_id s, old_id) of
        None \<Rightarrow> None
      | Some q \<Rightarrow> Some (c\<lparr>yet_unsent_stories := AList.delete (ss_chat_id s, old_id) (yet_unsent_stories c)\<rparr>,
          [Answer_Text (ss_json s) q]))"

definition on_story_send_failed :: "int \<Rightarrow> int \<Rightarrow> td_error \<Rightarrow> client_send \<Rightarrow> send_outcome" where
  "on_story_send_failed chat i e c =
     (case map_of (yet_unsent_stories c) (chat, i) of
        None \<Rightarrow> None
      | Some q \<Rightarrow> Some (c\<lparr>yet_unsent_stories := AList.delete (chat, i) (yet_unsent_stories c)\<rparr>, [fail_send e q]))"

subsection \<open>Closing\<close>

text \<open>The messages in \<open>on_closed\<close>; the stories are left alone there.\<close>

definition send_on_closed :: "real \<Rightarrow> client_send \<Rightarrow> send_outcome" where
  "send_on_closed now c =
     (if \<not> is_closing (send_files c) \<or> \<not> td_client (send_files c) then None
      else map_option (\<lambda>a.
        (c\<lparr>send_files := (send_files c)\<lparr>td_client := False\<rparr>, pending_send_message_queries := [], yet_unsent_message_count := [],
           yet_unsent_messages := []\<rparr>,
         map (\<lambda>(query_id, p). Conclude_Send a (ps_query p)) (pending_send_message_queries c)))
        (closing_answer now (send_files c)))"

end
