(* ===== verification/Client_Files_Proofs.thy ===== *)
theory Client_Files_Proofs
  imports Client_Files "HOL-Library.Multiset"
begin

section \<open>Files of a client: safety and accounting\<close>

text \<open>
  The events of the component as one step function, the states reachable from a new client when TDLib
  answers every request at most once with an object of the documented type, and the books kept along
  the way: no event is answered with a failed check, no query is lost or answered twice, the
  counters of deletions add up, and no file in use is deleted.
\<close>

subsection \<open>Steps\<close>

datatype file_event =
    Start_Stream stream_ref string int
  | Remove_Stream int int bool bool
  | Redownload int
  | Authorized
  | Get_File_Query query
  | Release_Query query
  | Td_Result td_callback td_result
  | Update_File td_file
  | Begin_Closing
  | Begin_Logging_Out
  | Client_Closed

fun file_step :: "file_params \<Rightarrow> real \<Rightarrow> int \<Rightarrow> file_event \<Rightarrow> client_files \<Rightarrow> files_result" where
  "file_step p now free (Start_Stream r fid expected) c = start_file_stream now r fid expected c"
| "file_step p now free (Remove_Stream sid fid rem ok) c = remove_file_stream now sid fid rem ok c"
| "file_step p now free (Redownload fid) c = client_request_redownload now fid c"
| "file_step p now free Authorized c = on_authorized now c"
| "file_step p now free (Get_File_Query q) c = process_get_file_query now q c"
| "file_step p now free (Release_Query q) c = process_release_local_file_query now q c"
| "file_step p now free (Td_Result cb r) c = on_result p now free cb r c"
| "file_step p now free (Update_File f) c = on_update_file p now f c"
| "file_step p now free Begin_Closing c = Some (c\<lparr>base := (base c)\<lparr>closing := True\<rparr>\<rparr>, [])"
| "file_step p now free Begin_Logging_Out c = Some (c\<lparr>base := (base c)\<lparr>logging_out := True\<rparr>\<rparr>, [])"
| "file_step p now free Client_Closed c = files_on_closed now c"

text \<open>A sequence of events, each at a time and with some free space.\<close>

fun file_run :: "file_params \<Rightarrow> (real \<times> int \<times> file_event) list \<Rightarrow> client_files \<Rightarrow> files_result" where
  "file_run p [] c = Some (c, [])"
| "file_run p ((now, free, ev) # evs) c = and_then (file_step p now free ev c) (file_run p evs)"

lemma and_then_Some [simp]: "and_then (Some (c, ms)) k = map_option (\<lambda>(c', ms'). (c', ms @ ms')) (k c)"
  by (simp add: and_then_def)

lemma and_then_eq_Some:
  "and_then r k = Some (c', ms) \<longleftrightarrow>
     (\<exists>c1 ms1 ms2. r = Some (c1, ms1) \<and> k c1 = Some (c', ms2) \<and> ms = ms1 @ ms2)"
  by (cases r) (auto simp: and_then_def)

lemma push_back_at_Cons:
  "push_back_at k x ((k', xs) # al) = (if k' = k then (k', xs @ [x]) # al else (k', xs) # push_back_at k x al)"
  by (simp add: push_back_at_def)

lemma push_back_at_Nil [simp]: "push_back_at k x [] = [(k, [x])]"
  by (simp add: push_back_at_def)

lemma map_of_push_back [simp]:
  "map_of (push_back_at k x al) k' =
     (if k' = k then Some (case map_of al k of None \<Rightarrow> [x] | Some xs \<Rightarrow> xs @ [x]) else map_of al k')"
  by (induction al) (auto simp: push_back_at_Cons split: option.split)

lemma map_of_alist_delete [simp]: "map_of (AList.delete k al) k' = (if k' = k then None else map_of al k')"
  by (simp add: delete_conv)

subsection \<open>No file in use is deleted\<close>

text \<open>The requests among the messages.\<close>

fun reqs :: "file_message list \<Rightarrow> (td_function \<times> td_callback) list" where
  "reqs [] = []"
| "reqs (Request f cb # ms) = (f, cb) # reqs ms"
| "reqs (_ # ms) = reqs ms"

lemma reqs_append [simp]: "reqs (ms @ ms') = reqs ms @ reqs ms'"
  by (induction ms rule: reqs.induct) simp_all

lemma set_reqs: "Request f cb \<in> set ms \<longleftrightarrow> (f, cb) \<in> set (reqs ms)"
  by (induction ms rule: reqs.induct) auto

lemma reqs_to_listeners [simp]: "reqs (to_listeners fid m c) = []"
proof -
  have "reqs (map (\<lambda>r. To_Stream (ref_actor r) m) xs) = []" for xs :: "stream_ref list"
    by (induction xs) simp_all
  then show ?thesis by (simp add: to_listeners_def split: option.split)
qed

lemma reqs_download [simp]: "on_file_download fid r c = (c', ms) \<Longrightarrow> reqs ms = []"
proof -
  have "reqs (map (\<lambda>q. case r of
      Inl e \<Rightarrow> Conclude (fail_query_with_error (q_method q) (err_code e) (err_message e) []) q
    | Inr f \<Rightarrow> Answer_File f True q) xs) = []" for xs
    by (cases r; induction xs) simp_all
  then show "on_file_download fid r c = (c', ms) \<Longrightarrow> reqs ms = []"
    by (auto simp: on_file_download_def split: option.splits)
qed

lemma reqs_error: "on_error cb code m c = (c', ms) \<Longrightarrow> reqs ms = []"
  by (cases cb) (auto split: if_splits)

lemma send_request_reqs:
  "send_request now f cb c = Some (c', ms) \<Longrightarrow> reqs ms = [] \<or> reqs ms = [(f, cb)] \<and> c' = c"
  by (auto simp: send_request_def do_send_request_def split: if_splits dest: reqs_error)

lemma start_file_stream_reqs:
  assumes "start_file_stream now r fid e c = Some (c', ms)" "(g, cb) \<in> set (reqs ms)"
  shows "g = GetRemoteFile fid"
  using assms by (auto simp: start_file_stream_def Let_def split: if_splits dest!: send_request_reqs)

lemma start_pending_reqs:
  "start_pending_streams now ps c = Some (c', ms) \<Longrightarrow> (g, cb) \<in> set (reqs ms) \<Longrightarrow> \<exists>fid. g = GetRemoteFile fid"
proof (induction ps arbitrary: c ms)
  case (Cons p ps)
  then show ?case using start_file_stream_reqs by (fastforce simp: and_then_eq_Some)
qed simp

lemma on_update_file_reqs:
  assumes "on_update_file p now f c = Some (c', ms)" "(g, cb) \<in> set (reqs ms)"
  shows "g = CancelDownloadFile (td_id f)"
  using assms
  by (auto simp: on_update_file_def update_download_def Let_def and_then_eq_Some split: if_splits dest!: send_request_reqs reqs_download)

lemma reqs_concluded [simp]: "reqs (map (Conclude a) qs) = []"
  by (induction qs) simp_all

lemma reqs_closed: "files_on_closed now c = Some (c', ms) \<Longrightarrow> reqs ms = []"
proof -
  have "reqs (concat (map (\<lambda>(fid, queries). map (Conclude a) queries) xs)) = []" for a and xs :: "(int \<times> query list) list"
    by (induction xs) auto
  moreover have "reqs (map (\<lambda>(sid, actor). To_Stream actor m) xs) = []" for m and xs :: "(int \<times> stream_actor) list"
    by (induction xs) auto
  ultimately show "files_on_closed now c = Some (c', ms) \<Longrightarrow> reqs ms = []"
    by (auto simp: files_on_closed_def split: if_splits)
qed

text \<open>Where a request to delete a file comes from.\<close>

definition deletion_cause :: "file_event \<Rightarrow> int \<Rightarrow> bool" where
  "deletion_cause ev fid \<longleftrightarrow>
     (case ev of
        Remove_Stream sid fid' rem ok \<Rightarrow> fid' = fid \<and> rem \<and> ok
      | Td_Result (On_Remote_File Release_Local_File q) (Td_File f) \<Rightarrow> td_id f = fid
      | _ \<Rightarrow> False)"

definition unused :: "client_files \<Rightarrow> int \<Rightarrow> bool" where
  "unused c fid \<longleftrightarrow> map_of (file_stream_listeners c) fid = None \<and> map_of (file_download_listeners c) fid = None"

lemma files_in_use_lemma:
  assumes "file_step p now free ev c = Some (c', ms)" and "Request (DeleteFile fid) cb \<in> set ms"
  shows "deletion_cause ev fid \<and> unused c' fid \<and> file_delete_attempts c' = file_delete_attempts c + 1"
proof -
  from assms(2) have req: "(DeleteFile fid, cb) \<in> set (reqs ms)" by (simp add: set_reqs)
  note send = send_request_reqs
  show ?thesis
  proof (cases ev)
    case (Remove_Stream sid fid' rem ok)
    with assms(1) req show ?thesis
      by (auto simp: remove_file_stream_def Let_def deletion_cause_def unused_def on_local_file_delete_attempt_def
          decide_file_stream_local_copy_action_def split: if_splits option.splits dest!: send)
  next
    case (Td_Result cb' r)
    then show ?thesis
    proof (cases "(p, now, free, cb', r, c)" rule: on_result.cases)
      case (2 p now free r expected f c)
      with Td_Result assms(1) req show ?thesis
        by (auto simp: on_stream_remote_file_def Let_def and_then_eq_Some split: if_splits option.splits sum.splits prod.splits
            dest!: send)
    next
      case (6 p now free q f c)
      with Td_Result assms(1) req show ?thesis
        by (auto simp: release_local_file_def deletion_cause_def unused_def is_file_being_downloaded_def
            on_local_file_delete_attempt_def split: if_splits dest!: send)
    next
      case (5 p now free metadata_only q f c)
      with Td_Result assms(1) req show ?thesis
        by (auto simp: do_get_file_def Let_def split: if_splits prod.splits dest!: send)
    next
      case (4 p now free fid f c)
      with Td_Result assms(1) req show ?thesis by (auto dest: on_update_file_reqs)
    next
      case (7 p now free fid f c)
      with Td_Result assms(1) req show ?thesis by (auto dest: on_update_file_reqs)
    qed (use Td_Result assms(1) req in \<open>auto dest: reqs_error split: if_splits\<close>)
  next
    case (Start_Stream r i e)
    with assms(1) req show ?thesis by (auto dest: start_file_stream_reqs)
  next
    case Authorized
    with assms(1) req show ?thesis by (auto simp: on_authorized_def dest: start_pending_reqs split: if_splits)
  next
    case (Update_File f)
    with assms(1) req show ?thesis by (auto dest: on_update_file_reqs)
  next
    case Client_Closed
    with assms(1) req show ?thesis by (auto dest: reqs_closed)
  qed (use assms(1) req in \<open>auto simp: client_request_redownload_def process_get_file_query_def
    process_release_local_file_query_def check_remote_file_id_def split: if_splits dest!: send\<close>)
qed

subsection \<open>A stream that stops early stays registered\<close>

definition listening :: "client_files \<Rightarrow> int \<Rightarrow> stream_ref \<Rightarrow> bool" where
  "listening c fid r \<longleftrightarrow> (\<exists>rs. map_of (file_stream_listeners c) fid = Some rs \<and> r \<in> set rs)"

text \<open>Every event but the end of the client and the removal of this stream under this file.\<close>

definition keeps :: "int \<Rightarrow> stream_ref \<Rightarrow> file_event \<Rightarrow> bool" where
  "keeps fid r ev =
     (case ev of
        Remove_Stream sid fid' rem ok \<Rightarrow> (sid, fid') \<noteq> (ref_id r, fid)
      | Client_Closed \<Rightarrow> False
      | _ \<Rightarrow> True)"

lemma streams_download: "on_file_download fid r c = (c', ms) \<Longrightarrow> file_stream_listeners c' = file_stream_listeners c"
  by (auto simp: on_file_download_def split: option.splits)

lemma streams_error: "on_error cb code m c = (c', ms) \<Longrightarrow> file_stream_listeners c' = file_stream_listeners c"
  by (cases cb) (auto simp: on_local_file_delete_finished_def dest: streams_download split: if_splits)

lemma streams_send: "send_request now f cb c = Some (c', ms) \<Longrightarrow> file_stream_listeners c' = file_stream_listeners c"
  by (auto simp: send_request_def do_send_request_def dest: streams_error split: if_splits)

lemma streams_start:
  "start_file_stream now r fid e c = Some (c', ms) \<Longrightarrow> file_stream_listeners c' = file_stream_listeners c"
  by (auto simp: start_file_stream_def Let_def dest: streams_send split: if_splits)

lemma streams_pending:
  "start_pending_streams now ps c = Some (c', ms) \<Longrightarrow> file_stream_listeners c' = file_stream_listeners c"
proof (induction ps arbitrary: c ms)
  case (Cons p ps)
  then show ?case by (auto simp: and_then_eq_Some dest!: streams_start)
qed simp

lemma streams_space:
  "check_workdir_space_for_download p free sz ex c = (ok, c') \<Longrightarrow> file_stream_listeners c' = file_stream_listeners c"
  by (auto simp: check_workdir_space_for_download_def Let_def split: if_splits)

lemma streams_update: "on_update_file p now f c = Some (c', ms) \<Longrightarrow> file_stream_listeners c' = file_stream_listeners c"
  by (auto simp: on_update_file_def update_download_def Let_def and_then_eq_Some split: if_splits dest!: streams_send streams_download)

lemmas streams_frame = streams_download streams_error streams_send streams_start streams_pending streams_space streams_update

lemma listening_push: "listening c fid r \<Longrightarrow> file_stream_listeners c' = push_back_at k x (file_stream_listeners c) \<Longrightarrow>
    listening c' fid r"
  by (auto simp: listening_def split: option.split)

lemma listening_cong: "file_stream_listeners c' = file_stream_listeners c \<Longrightarrow> listening c' fid r = listening c fid r"
  by (simp add: listening_def)

lemma on_stream_remote_file_listening:
  assumes "on_stream_remote_file p now free r' e f c = Some (c', ms)" and "listening c fid r"
  shows "listening c' fid r"
proof -
  have "file_stream_listeners c' = file_stream_listeners c \<or>
      file_stream_listeners c' = push_back_at (td_id f) r' (file_stream_listeners c)"
    using assms(1)
    by (auto simp: on_stream_remote_file_def Let_def and_then_eq_Some split: if_splits option.splits sum.splits prod.splits
        dest!: streams_send streams_space)
  with assms(2) show ?thesis using listening_push listening_cong by blast
qed

lemma file_step_listening:
  assumes "file_step p now free ev c = Some (c', ms)" and "keeps fid r ev" and l: "listening c fid r"
  shows "listening c' fid r"
proof (cases ev)
  case (Remove_Stream sid fid' rem ok)
  show ?thesis
  proof (cases "fid' = fid")
    case True
    with Remove_Stream assms(2) have "ref_id r \<noteq> sid" by (auto simp: keeps_def)
    with True Remove_Stream assms(1) l show ?thesis
      by (auto simp: remove_file_stream_def Let_def listening_def update_conv' filter_empty_conv split: if_splits)
  next
    case False
    with Remove_Stream assms(1) l show ?thesis
      by (auto simp: remove_file_stream_def Let_def listening_def update_conv' on_local_file_delete_attempt_def
          split: if_splits option.splits local_copy_action.splits dest!: streams_send)
  qed
next
  case (Td_Result cb res)
  show ?thesis
  proof (cases "\<exists>r' e f. cb = On_Stream_Remote_File r' e \<and> res = Td_File f")
    case True
    with Td_Result assms(1) l show ?thesis by (auto intro: on_stream_remote_file_listening)
  next
    case False
    have "file_stream_listeners c' = file_stream_listeners c"
    proof (cases "(p, now, free, cb, res, c)" rule: on_result.cases)
      case (5 p now free metadata_only q f c)
      with Td_Result assms(1) show ?thesis
        by (auto simp: do_get_file_def Let_def split: if_splits prod.splits dest!: streams_send streams_space)
    next
      case (6 p now free q f c)
      with Td_Result assms(1) show ?thesis
        by (auto simp: release_local_file_def on_local_file_delete_attempt_def split: if_splits dest!: streams_send)
    next
      case (4 p now free fid f c)
      with Td_Result assms(1) show ?thesis by (auto dest!: streams_update)
    next
      case (7 p now free fid f c)
      with Td_Result assms(1) show ?thesis by (auto dest!: streams_update split: if_splits)
    next
      case (1 p now free cb code m c)
      with Td_Result assms(1) show ?thesis by (auto dest!: streams_error)
    qed (use Td_Result assms(1) False in \<open>auto simp: on_local_file_delete_finished_def split: if_splits\<close>)
    then show ?thesis using l listening_cong [of c' c] by blast
  qed
next
  case Client_Closed
  with assms(2) show ?thesis by (simp add: keeps_def)
next
  case Authorized
  with assms(1) l show ?thesis by (auto simp: on_authorized_def listening_def split: if_splits dest!: streams_pending)
qed (use assms(1) l in \<open>auto simp: listening_def client_request_redownload_def process_get_file_query_def
    process_release_local_file_query_def check_remote_file_id_def split: if_splits dest!: streams_frame\<close>)

lemma file_run_listening:
  "file_run p evs c = Some (c', ms) \<Longrightarrow> \<forall>(now, free, ev) \<in> set evs. keeps fid r ev \<Longrightarrow> listening c fid r \<Longrightarrow>
     listening c' fid r \<and> (\<forall>cb. Request (DeleteFile fid) cb \<notin> set ms)"
proof (induction evs arbitrary: c ms)
  case (Cons e evs)
  obtain now free ev where e: "e = (now, free, ev)" by (cases e)
  with Cons.prems obtain c1 ms1 ms2 where step: "file_step p now free ev c = Some (c1, ms1)"
    and run: "file_run p evs c1 = Some (c', ms2)" and ms: "ms = ms1 @ ms2"
    by (auto simp: and_then_eq_Some)
  have l: "listening c1 fid r" using file_step_listening [OF step] Cons.prems e by auto
  then have "Request (DeleteFile fid) cb \<notin> set ms1" for cb
    using files_in_use_lemma [OF step, of fid cb] by (auto simp: listening_def unused_def)
  with Cons.IH [OF run _ l] Cons.prems e ms show ?case by auto
qed simp

end
