(* ===== verification/Client_Files_Spec.thy ===== *)
theory Client_Files_Spec
  imports Client_Files_Proofs
begin

section \<open>Files of a client: the books\<close>

text \<open>
  Along every run of the component each query about a file is answered exactly once, waits for a
  download, or is held by a request to TDLib, and every attempt to delete a local copy is counted as a
  success, as a failure, or still runs.
\<close>

subsection \<open>Books\<close>

fun concluded :: "file_message list \<Rightarrow> query multiset" where
  "concluded [] = {#}"
| "concluded (Conclude a q # ms) = add_mset q (concluded ms)"
| "concluded (Answer_File f b q # ms) = add_mset q (concluded ms)"
| "concluded (_ # ms) = concluded ms"

definition waiting :: "client_files \<Rightarrow> query multiset" where
  "waiting c = mset (concat (map snd (file_download_listeners c)))"

fun cb_query :: "td_callback \<Rightarrow> query multiset" where
  "cb_query (On_Remote_File purpose q) = {#q#}"
| "cb_query (On_Delete_File_Query q) = {#q#}"
| "cb_query _ = {#}"

fun is_delete :: "td_callback \<Rightarrow> bool" where
  "is_delete (On_Delete_File fid) = True"
| "is_delete (On_Delete_File_Query q) = True"
| "is_delete _ = False"

definition held :: "td_callback multiset \<Rightarrow> query multiset" where
  "held M = (\<Sum>cb \<in># M. cb_query cb)"

definition deletes :: "td_callback multiset \<Rightarrow> nat" where
  "deletes M = size (filter_mset is_delete M)"

definition new_callbacks :: "file_message list \<Rightarrow> td_callback multiset" where
  "new_callbacks ms = mset (map snd (reqs ms))"

definition deletes_done :: "client_files \<Rightarrow> nat" where
  "deletes_done c = file_delete_successes c + file_delete_failures c"

definition distinct_files :: "client_files \<Rightarrow> bool" where
  "distinct_files c \<longleftrightarrow> distinct (map fst (file_download_listeners c))"

text \<open>What a handler does to the books, when it is given the queries \<open>Q\<close> and ends \<open>d\<close> deletions.\<close>

definition settles :: "client_files \<Rightarrow> query multiset \<Rightarrow> nat \<Rightarrow> client_files \<Rightarrow> file_message list \<Rightarrow> bool" where
  "settles c Q d c' ms \<longleftrightarrow>
     distinct_files c' \<and>
     waiting c' + concluded ms + held (new_callbacks ms) = waiting c + Q \<and>
     file_delete_attempts c' + deletes_done c + d =
       file_delete_attempts c + deletes_done c' + deletes (new_callbacks ms) \<and>
     base c' = base c \<and> td_client c' = td_client c \<and>
     (is_closing c \<and> file_download_listeners c = [] \<longrightarrow> file_download_listeners c' = [])"

definition same_books :: "client_files \<Rightarrow> client_files \<Rightarrow> bool" where
  "same_books c c1 \<longleftrightarrow>
     file_download_listeners c1 = file_download_listeners c \<and> file_delete_attempts c1 = file_delete_attempts c \<and>
     file_delete_successes c1 = file_delete_successes c \<and> file_delete_failures c1 = file_delete_failures c \<and>
     base c1 = base c \<and> td_client c1 = td_client c"

lemma concluded_append [simp]: "concluded (ms @ ms') = concluded ms + concluded ms'"
  by (induction ms rule: concluded.induct) simp_all

lemma new_callbacks_simps [simp]:
  "new_callbacks [] = {#}" "new_callbacks (ms @ ms') = new_callbacks ms + new_callbacks ms'"
  "new_callbacks (Request f cb # ms) = add_mset cb (new_callbacks ms)"
  "new_callbacks (Conclude a q # ms) = new_callbacks ms" "new_callbacks (Answer_File t b q # ms) = new_callbacks ms"
  "new_callbacks (To_Stream actor m # ms) = new_callbacks ms"
  by (simp_all add: new_callbacks_def)

lemma held_simps [simp]: "held {#} = {#}" "held (add_mset cb M) = cb_query cb + held M" "held (M + N) = held M + held N"
  by (simp_all add: held_def)

lemma deletes_simps [simp]:
  "deletes {#} = 0" "deletes (add_mset cb M) = (if is_delete cb then 1 else 0) + deletes M"
  "deletes (M + N) = deletes M + deletes N"
  by (simp_all add: deletes_def)

lemma settles_quiet:
  "distinct_files c \<Longrightarrow> same_books c c' \<Longrightarrow> concluded ms = Q \<Longrightarrow> reqs ms = [] \<Longrightarrow> settles c Q 0 c' ms"
  by (simp add: settles_def same_books_def waiting_def deletes_done_def distinct_files_def new_callbacks_def)

lemma settles_refl: "distinct_files c \<Longrightarrow> concluded ms = Q \<Longrightarrow> reqs ms = [] \<Longrightarrow> settles c Q 0 c ms"
  by (simp add: settles_quiet same_books_def)

lemma settles_trans:
  assumes "settles c Q d c1 ms1" and "settles c1 Q' 0 c2 ms2"
  shows "settles c (Q + Q') d c2 (ms1 @ ms2)"
proof -
  have "waiting c2 + (concluded ms1 + concluded ms2) + (held (new_callbacks ms1) + held (new_callbacks ms2)) =
      (waiting c2 + concluded ms2 + held (new_callbacks ms2)) + (concluded ms1 + held (new_callbacks ms1))"
    by (simp add: add_ac)
  also have "\<dots> = (waiting c1 + concluded ms1 + held (new_callbacks ms1)) + Q'" using assms(2) by (simp add: settles_def)
  also have "\<dots> = waiting c + (Q + Q')" using assms(1) by (simp add: settles_def)
  finally show ?thesis using assms by (auto simp: settles_def is_closing_def)
qed

lemma settles_same: "settles c1 Q d c' ms \<Longrightarrow> same_books c c1 \<Longrightarrow> settles c Q d c' ms"
  by (auto simp: settles_def same_books_def waiting_def deletes_done_def is_closing_def)

lemma settles_attempt: "settles (on_local_file_delete_attempt c) Q 1 c' ms \<Longrightarrow> settles c Q 0 c' ms"
  by (auto simp: settles_def on_local_file_delete_attempt_def waiting_def deletes_done_def is_closing_def)

subsection \<open>Handlers\<close>

lemma concluded_to_listeners [simp]: "concluded (to_listeners fid m c) = {#}"
proof -
  have "concluded (map (\<lambda>r. To_Stream (ref_actor r) m) xs) = {#}" for xs :: "stream_ref list"
    by (induction xs) simp_all
  then show ?thesis by (simp add: to_listeners_def split: option.split)
qed

lemma mset_alist_delete:
  "distinct (map fst al) \<Longrightarrow> map_of al k = Some xs \<Longrightarrow>
     mset (concat (map snd (AList.delete k al))) + mset xs = mset (concat (map snd al))"
proof (induction al)
  case (Cons x al)
  then show ?case by (cases x) (auto simp: delete_id dest: map_of_SomeD)
qed simp

lemma distinct_push_back: "distinct (map fst al) \<Longrightarrow> distinct (map fst (push_back_at k x al))"
proof (induction al)
  case (Cons y al)
  have "fst ` set (push_back_at k x zs) = insert k (fst ` set zs)" for zs
  proof (induction zs)
    case (Cons z zs)
    then show ?case by (cases z) (simp add: push_back_at_Cons insert_commute)
  qed simp
  with Cons show ?case by (cases y) (auto simp: push_back_at_Cons)
qed simp

lemma mset_push_back: "mset (concat (map snd (push_back_at k x al))) = add_mset x (mset (concat (map snd al)))"
proof (induction al)
  case (Cons y al)
  then show ?case by (cases y) (simp add: push_back_at_Cons)
qed simp

lemma on_file_download_settles:
  assumes "on_file_download fid r c = (c', ms)" and "distinct_files c"
  shows "settles c {#} 0 c' ms"
proof -
  have ends: "concluded (map (\<lambda>q. case r of
      Inl e \<Rightarrow> Conclude (fail_query_with_error (q_method q) (err_code e) (err_message e) []) q
    | Inr f \<Rightarrow> Answer_File f True q) xs) = mset xs" for xs
    by (cases r; induction xs) simp_all
  have "new_callbacks ms = {#}" using reqs_download [OF assms(1)] by (simp add: new_callbacks_def)
  with assms ends mset_alist_delete [of "file_download_listeners c" fid]
  show ?thesis
    by (auto simp: on_file_download_def settles_def distinct_files_def waiting_def deletes_done_def distinct_delete
        delete_id split: option.splits)
qed

lemma on_error_settles:
  assumes "on_error cb code m c = (c', ms)" and "distinct_files c"
  shows "settles c (cb_query cb) (if is_delete cb then 1 else 0) c' ms"
proof (cases cb)
  case (On_Download_File fid)
  with assms on_file_download_settles show ?thesis by simp
qed (use assms in \<open>auto simp: settles_def distinct_files_def waiting_def deletes_done_def new_callbacks_def
  on_local_file_delete_finished_def split: if_splits\<close>)

lemma send_request_settles:
  assumes "send_request now f cb c = Some (c', ms)" and "distinct_files c"
  shows "settles c (cb_query cb) (if is_delete cb then 1 else 0) c' ms"
  using assms on_error_settles [of cb _ _ c c' ms]
  by (auto simp: send_request_def do_send_request_def settles_def split: if_splits)

lemma start_file_stream_settles:
  assumes "start_file_stream now r fid e c = Some (c', ms)" and "distinct_files c"
  shows "settles c {#} 0 c' ms"
proof -
  let ?c = "c\<lparr>active_file_streams := AList.update (ref_id r) (ref_actor r) (active_file_streams c)\<rparr>"
  have "same_books c ?c" "distinct_files ?c" using assms(2) by (simp_all add: same_books_def distinct_files_def)
  moreover have "same_books c c' \<and> concluded ms = {#} \<and> reqs ms = [] \<or>
      send_request now (GetRemoteFile fid) (On_Stream_Remote_File r e) ?c = Some (c', ms)"
    using assms(1) by (auto simp: start_file_stream_def Let_def same_books_def split: if_splits)
  ultimately show ?thesis
    using settles_quiet [OF assms(2)] send_request_settles [of now "GetRemoteFile fid" "On_Stream_Remote_File r e" ?c c' ms]
      settles_same [of ?c] by auto
qed

lemma start_pending_settles:
  "start_pending_streams now ps c = Some (c', ms) \<Longrightarrow> distinct_files c \<Longrightarrow> settles c {#} 0 c' ms"
proof (induction ps arbitrary: c ms)
  case Nil
  then show ?case by (simp add: settles_quiet same_books_def)
next
  case (Cons p ps)
  then obtain c1 ms1 ms2 where "start_file_stream now (pend_ref p) (pend_file_id p) (pend_expected_size p) c = Some (c1, ms1)"
    "start_pending_streams now ps c1 = Some (c', ms2)" "ms = ms1 @ ms2"
    by (auto simp: and_then_eq_Some)
  moreover from this Cons.prems have s: "settles c {#} 0 c1 ms1" by (blast intro: start_file_stream_settles)
  moreover have "distinct_files c1" using s by (simp add: settles_def)
  ultimately show ?case using settles_trans [OF s Cons.IH] by simp
qed

lemma update_download_settles:
  assumes "update_download p now f c = Some (c', ms)" and "distinct_files c"
  shows "settles c {#} 0 c' ms"
proof -
  let ?cancel = "send_request now (CancelDownloadFile (td_id f)) On_Cancel_Download c"
  let ?big = "Inl (Error 400 ''Bad Request: file is too big'')"
  consider (cancel) c1 ms1 ms2 where "?cancel = Some (c1, ms1)" "on_file_download (td_id f) ?big c1 = (c', ms2)" "ms = ms1 @ ms2"
    | (finish) r where "on_file_download (td_id f) r c = (c', ms)" | (wait) "c' = c" "ms = []"
    using assms(1) by (auto simp: update_download_def Let_def and_then_eq_Some split: if_splits)
  then show ?thesis
  proof cases
    case cancel
    from send_request_settles [OF cancel(1) assms(2)] have s: "settles c {#} 0 c1 ms1" by simp
    then have "distinct_files c1" by (simp add: settles_def)
    from settles_trans [OF s on_file_download_settles [OF cancel(2) this]] cancel(3) show ?thesis by simp
  next
    case finish
    with assms(2) show ?thesis by (blast intro: on_file_download_settles)
  next
    case wait
    with assms(2) show ?thesis by (simp add: settles_quiet same_books_def)
  qed
qed

lemma on_update_file_settles:
  assumes "on_update_file p now f c = Some (c', ms)" and "distinct_files c"
  shows "settles c {#} 0 c' ms"
proof -
  have l: "settles c {#} 0 c (to_listeners (td_id f) (progress_of f) c)"
    using assms(2) by (intro settles_quiet) (simp_all add: same_books_def)
  from assms(1) obtain ms1 where "update_download p now f c = Some (c', ms1)"
    and "ms = to_listeners (td_id f) (progress_of f) c @ ms1"
    by (auto simp: on_update_file_def)
  with settles_trans [OF l update_download_settles] assms(2) show ?thesis by simp
qed

lemma remove_file_stream_settles:
  assumes "remove_file_stream now sid fid rem ok c = Some (c', ms)" and "distinct_files c"
  shows "settles c {#} 0 c' ms"
proof -
  define c2 where "c2 = c\<lparr>active_file_streams := AList.delete sid (active_file_streams c),
      pending_file_streams := filter (\<lambda>p. ref_id (pend_ref p) \<noteq> sid) (pending_file_streams c),
      file_stream_listeners := AList.delete fid (file_stream_listeners c)\<rparr>"
  have same: "same_books c c2" by (simp add: same_books_def c2_def)
  have "same_books c c' \<and> ms = [] \<or>
      send_request now (DeleteFile fid) (On_Delete_File fid) (on_local_file_delete_attempt c2) = Some (c', ms) \<or>
      send_request now (CancelDownloadFile fid) On_Cancel_Download c2 = Some (c', ms)"
    using assms(1)
    by (auto simp: remove_file_stream_def Let_def same_books_def c2_def split: if_splits option.splits local_copy_action.splits)
  then consider (quiet) "same_books c c'" "ms = []"
    | (delete) "send_request now (DeleteFile fid) (On_Delete_File fid) (on_local_file_delete_attempt c2) = Some (c', ms)"
    | (cancel) "send_request now (CancelDownloadFile fid) On_Cancel_Download c2 = Some (c', ms)"
    by blast
  then show ?thesis
  proof cases
    case quiet
    with assms(2) show ?thesis by (simp add: settles_quiet)
  next
    case delete
    have "distinct_files (on_local_file_delete_attempt c2)"
      using assms(2) same by (simp add: same_books_def distinct_files_def on_local_file_delete_attempt_def)
    from send_request_settles [OF delete this] have "settles (on_local_file_delete_attempt c2) {#} 1 c' ms" by simp
    with same show ?thesis by (blast intro: settles_attempt settles_same)
  next
    case cancel
    have "distinct_files c2" using assms(2) same by (simp add: same_books_def distinct_files_def)
    from send_request_settles [OF cancel this] have "settles c2 {#} 0 c' ms" by simp
    with same show ?thesis by (blast intro: settles_same)
  qed
qed

lemma check_remote_file_id_settles:
  assumes "check_remote_file_id now fid purpose q c = Some (c', ms)" and "distinct_files c"
  shows "settles c {#q#} 0 c' ms"
  using assms send_request_settles [of now "GetRemoteFile fid" "On_Remote_File purpose q" c c' ms]
  by (auto simp: check_remote_file_id_def same_books_def split: if_splits intro: settles_quiet)

lemma client_request_redownload_settles:
  assumes "client_request_redownload now fid c = Some (c', ms)" and "distinct_files c"
  shows "settles c {#} 0 c' ms"
  using assms send_request_settles [of now "DownloadFile fid" "On_Stream_Download fid" c c' ms]
  by (auto simp: client_request_redownload_def same_books_def split: if_splits intro: settles_quiet)

lemma space_same_books: "check_workdir_space_for_download p free sz ex c = (ok, c1) \<Longrightarrow> same_books c c1"
  by (auto simp: check_workdir_space_for_download_def Let_def same_books_def split: if_splits)

lemma release_local_file_settles:
  assumes "release_local_file now f q c = Some (c', ms)" and "distinct_files c"
  shows "settles c {#q#} 0 c' ms"
proof -
  have "distinct_files (on_local_file_delete_attempt c)"
    using assms(2) by (simp add: distinct_files_def on_local_file_delete_attempt_def)
  from settles_attempt send_request_settles [OF _ this, of now "DeleteFile (td_id f)" "On_Delete_File_Query q" c' ms]
  have "settles c {#q#} 0 c' ms"
    if "send_request now (DeleteFile (td_id f)) (On_Delete_File_Query q) (on_local_file_delete_attempt c) = Some (c', ms)"
    using that by simp
  with assms show ?thesis
    by (auto simp: release_local_file_def same_books_def split: if_splits intro: settles_quiet)
qed

lemma settles_push:
  assumes "settles c1 {#} 0 c' ms" and "file_download_listeners c1 = push_back_at fid q (file_download_listeners c)"
    and "same_books c (c1\<lparr>file_download_listeners := file_download_listeners c\<rparr>)"
    and "is_closing c \<Longrightarrow> file_download_listeners c = [] \<Longrightarrow> file_download_listeners c' = []"
  shows "settles c {#q#} 0 c' ms"
proof -
  have "waiting c1 = waiting c + {#q#}" using assms(2) by (simp add: waiting_def mset_push_back)
  with assms show ?thesis by (simp add: settles_def same_books_def deletes_done_def)
qed

lemma do_get_file_settles:
  assumes "do_get_file p now free f q c = Some (c', ms)" and "distinct_files c"
  shows "settles c {#q#} 0 c' ms"
proof -
  consider (fail) a where "same_books c c'" "ms = [Conclude a q]"
    | (send) c1 where "same_books c c1" "send_request now (DownloadFile (td_id f)) (On_Download_File (td_id f))
          (c1\<lparr>file_download_listeners := push_back_at (td_id f) q (file_download_listeners c1)\<rparr>) = Some (c', ms)"
    using assms(1)
    by (auto simp: do_get_file_def Let_def same_books_def split: if_splits prod.splits
        dest!: space_same_books [unfolded same_books_def])
  then show ?thesis
  proof cases
    case fail
    with assms(2) show ?thesis by (simp add: settles_quiet)
  next
    case send
    let ?c = "c1\<lparr>file_download_listeners := push_back_at (td_id f) q (file_download_listeners c1)\<rparr>"
    have "distinct_files ?c" using assms(2) send(1) by (simp add: distinct_files_def same_books_def distinct_push_back)
    from send_request_settles [OF send(2) this] have s: "settles ?c {#} 0 c' ms" by simp
    show ?thesis
    proof (rule settles_push [OF s])
      show "file_download_listeners c' = []" if "is_closing c" "file_download_listeners c = []"
        using that send
        by (auto simp: send_request_def is_closing_def same_books_def on_file_download_def AList.delete_eq split: if_splits)
    qed (use send(1) in \<open>simp_all add: same_books_def\<close>)
  qed
qed

lemma on_stream_remote_file_settles:
  assumes "on_stream_remote_file p now free r e f c = Some (c', ms)" and "distinct_files c"
  shows "settles c {#} 0 c' ms"
proof -
  let ?reg = "\<lambda>c. c\<lparr>file_stream_listeners := push_back_at (td_id f) r (file_stream_listeners c)\<rparr>"
  have refl: "same_books c c" and reg: "same_books c c1 \<Longrightarrow> same_books c (?reg c1)" for c1
    by (simp_all add: same_books_def)
  consider (quiet) "same_books c c'" "concluded ms = {#}" "reqs ms = []"
    | (send) c1 m ms1 where "same_books c c1" "ms = To_Stream (ref_actor r) m # ms1"
        "send_request now (DownloadFile (td_id f)) (On_Stream_Download (td_id f)) c1 = Some (c', ms1)"
    using assms(1) refl
    by (auto simp: on_stream_remote_file_def Let_def and_then_eq_Some
        split: if_splits option.splits sum.splits prod.splits dest!: space_same_books dest: reg)
  then show ?thesis
  proof cases
    case quiet
    with assms(2) show ?thesis by (simp add: settles_quiet)
  next
    case send
    have q: "settles c {#} 0 c1 [To_Stream (ref_actor r) m]" using send(1) assms(2) by (intro settles_quiet) simp_all
    then have "distinct_files c1" by (simp add: settles_def)
    from send_request_settles [OF send(3) this] have "settles c1 {#} 0 c' ms1" by simp
    from settles_trans [OF q this] send(2) show ?thesis by simp
  qed
qed

lemmas handler_settles =
  start_file_stream_settles remove_file_stream_settles client_request_redownload_settles check_remote_file_id_settles
  on_update_file_settles

text \<open>The queries an event brings in, and the callback it uses up.\<close>

fun brought :: "file_event \<Rightarrow> query multiset" where
  "brought (Get_File_Query q) = {#q#}"
| "brought (Release_Query q) = {#q#}"
| "brought _ = {#}"

fun consumed :: "file_event \<Rightarrow> td_callback multiset" where
  "consumed (Td_Result cb r) = {#cb#}"
| "consumed _ = {#}"

lemma on_result_settles:
  assumes "on_result p now free cb r c = Some (c', ms)" and "distinct_files c"
  shows "settles c (cb_query cb) (if is_delete cb then 1 else 0) c' ms"
proof -
  have same: "same_books c (c\<lparr>download_started_file_ids := xs\<rparr>)" for xs by (simp add: same_books_def)
  have dist: "distinct_files (c\<lparr>download_started_file_ids := xs\<rparr>)" for xs using assms(2) by (simp add: distinct_files_def)
  from assms(1) show ?thesis
  proof (cases "(p, now, free, cb, r, c)" rule: on_result.cases)
    case (1 p now free cb code m c)
    with assms on_error_settles [of cb code m c c' ms] show ?thesis by auto
  next
    case (2 p now free r expected f c)
    with assms show ?thesis by (auto intro: on_stream_remote_file_settles)
  next
    case (3 p now free r expected c)
    with assms show ?thesis by (auto split: if_splits intro: settles_refl)
  next
    case (4 p now free fid f c)
    with assms show ?thesis by (auto intro: on_update_file_settles)
  next
    case (5 p now free metadata_only q f c)
    with assms show ?thesis
      by (auto split: if_splits intro: settles_refl do_get_file_settles)
  next
    case (6 p now free q f c)
    with assms show ?thesis by (auto intro: release_local_file_settles)
  next
    case (7 p now free fid f c)
    with assms have "\<exists>xs. on_update_file p now f (c\<lparr>download_started_file_ids := xs\<rparr>) = Some (c', ms)"
      by (cases "is_file_being_downloaded fid c") (auto intro: exI [of _ "download_started_file_ids c"])
    then obtain xs where "on_update_file p now f (c\<lparr>download_started_file_ids := xs\<rparr>) = Some (c', ms)" by blast
    with 7 settles_same [OF on_update_file_settles same] dist show ?thesis by simp
  qed (use assms in \<open>auto simp: settles_def distinct_files_def waiting_def deletes_done_def on_local_file_delete_finished_def
    is_closing_def\<close>)
qed

text \<open>The books after an event, on a state that has them in order.\<close>

definition balanced :: "client_files \<Rightarrow> td_callback multiset \<Rightarrow> query multiset \<Rightarrow> query multiset \<Rightarrow> bool" where
  "balanced c out taken answered \<longleftrightarrow>
     distinct_files c \<and> (td_client c \<or> is_closing c) \<and>
     taken = answered + waiting c + held out \<and>
     file_delete_attempts c = deletes_done c + deletes out \<and>
     (td_client c \<or> file_download_listeners c = [])"

lemma balanced_settles:
  assumes b: "balanced c out taken answered" and s: "settles c (Q + held used) (deletes used) c' ms" and "used \<subseteq># out"
  shows "balanced c' (out - used + new_callbacks ms) (taken + Q) (answered + concluded ms)"
proof -
  from \<open>used \<subseteq># out\<close> obtain rest where out: "out = used + rest" by (auto simp: subset_mset.le_iff_add)
  have w: "waiting c' + concluded ms + held (new_callbacks ms) = waiting c + (Q + held used)"
    using s by (simp add: settles_def)
  have "taken + Q = answered + (waiting c + (Q + held used)) + held rest" using b out by (simp add: balanced_def add_ac)
  also have "\<dots> = answered + (waiting c' + concluded ms + held (new_callbacks ms)) + held rest" by (simp only: w)
  also have "\<dots> = answered + concluded ms + waiting c' + held (rest + new_callbacks ms)" by (simp add: add_ac)
  finally have "taken + Q = \<dots>" .
  moreover have "file_delete_attempts c' = deletes_done c' + deletes (rest + new_callbacks ms)"
    using b s out by (simp add: balanced_def settles_def)
  ultimately show ?thesis using b s out by (auto simp: balanced_def settles_def is_closing_def)
qed

subsection \<open>Reachable states\<close>

text \<open>
  What TDLib and the client promise: a request is answered at most once, by an error or by an object
  of its type, and the client is closed once, after it began to close.
\<close>

fun result_type_ok :: "td_callback \<Rightarrow> td_result \<Rightarrow> bool" where
  "result_type_ok cb (Td_Error code m) = True"
| "result_type_ok cb (Td_File f) =
     (case cb of
        On_Stream_Remote_File r e \<Rightarrow> True
      | On_Stream_Download fid \<Rightarrow> True
      | On_Remote_File purpose q \<Rightarrow> True
      | On_Download_File fid \<Rightarrow> True
      | _ \<Rightarrow> False)"
| "result_type_ok cb Td_Ok =
     (case cb of On_Cancel_Download \<Rightarrow> True | On_Delete_File fid \<Rightarrow> True | On_Delete_File_Query q \<Rightarrow> True | _ \<Rightarrow> False)"

fun legal_event :: "file_event \<Rightarrow> client_files \<Rightarrow> td_callback multiset \<Rightarrow> bool" where
  "legal_event (Td_Result cb r) c out \<longleftrightarrow> cb \<in># out \<and> result_type_ok cb r"
| "legal_event Client_Closed c out \<longleftrightarrow> is_closing c \<and> td_client c"
| "legal_event _ c out \<longleftrightarrow> True"

inductive files_reach ::
  "file_params \<Rightarrow> client_files \<Rightarrow> td_callback multiset \<Rightarrow> query multiset \<Rightarrow> query multiset \<Rightarrow> bool" for p
where
  files_new: "\<not> closing w \<Longrightarrow> \<not> logging_out w \<Longrightarrow> files_reach p (new_client_files w) {#} {#} {#}"
| files_step:
    "files_reach p c out taken answered \<Longrightarrow> legal_event ev c out \<Longrightarrow> file_step p now free ev c = Some (c', ms) \<Longrightarrow>
     files_reach p c' (out - consumed ev + new_callbacks ms) (taken + brought ev) (answered + concluded ms)"

lemma get_closing_error_Some: "is_closing c \<Longrightarrow> \<exists>code retry m. get_closing_error now (base c) = Some (code, retry, m)"
  by (auto simp: get_closing_error_def is_closing_def Let_def)

lemma closed_balanced:
  assumes "files_on_closed now c = Some (c', ms)" and b: "balanced c out taken answered"
  shows "balanced c' (out + new_callbacks ms) taken (answered + concluded ms)"
proof -
  have ans: "concluded (concat (map (\<lambda>(fid, queries). map (Conclude a) queries) xs)) = mset (concat (map snd xs))"
    for a and xs :: "(int \<times> query list) list"
  proof (induction xs)
    case (Cons x xs)
    have "concluded (map (Conclude a) qs) = mset qs" for qs by (induction qs) simp_all
    with Cons show ?case by (cases x) simp
  qed simp
  have tostreams: "concluded (map (\<lambda>(sid, actor). To_Stream actor m) xs) = {#}" for m and xs :: "(int \<times> stream_actor) list"
    by (induction xs) auto
  have "concluded ms = waiting c" using assms(1) ans tostreams by (auto simp: files_on_closed_def waiting_def split: if_splits)
  moreover have "new_callbacks ms = {#}" using reqs_closed [OF assms(1)] by (simp add: new_callbacks_def)
  ultimately show ?thesis
    using assms by (auto simp: files_on_closed_def balanced_def waiting_def distinct_files_def deletes_done_def
        is_closing_def split: if_splits)
qed

lemma file_step_balanced:
  assumes b: "balanced c out taken answered" and l: "legal_event ev c out"
    and step: "file_step p now free ev c = Some (c', ms)"
  shows "balanced c' (out - consumed ev + new_callbacks ms) (taken + brought ev) (answered + concluded ms)"
proof -
  have d: "distinct_files c" using b by (simp add: balanced_def)
  show ?thesis
  proof (cases "ev = Client_Closed \<or> ev = Begin_Closing \<or> ev = Begin_Logging_Out")
    case True
    with step b closed_balanced [of now c c' ms] show ?thesis
      by (auto simp: balanced_def distinct_files_def waiting_def deletes_done_def is_closing_def)
  next
    case False
    have "settles c (brought ev + held (consumed ev)) (deletes (consumed ev)) c' ms"
    proof (cases ev)
      case (Td_Result cb r)
      with step on_result_settles [OF _ d, of p now free cb r c' ms] show ?thesis by auto
    next
      case Authorized
      let ?c = "c\<lparr>was_authorized := True, pending_file_streams := []\<rparr>"
      have "same_books c ?c" and "distinct_files ?c" using d by (simp_all add: same_books_def distinct_files_def)
      with Authorized step d show ?thesis
        by (auto simp: on_authorized_def split: if_splits intro: settles_refl settles_same [of ?c] dest: start_pending_settles)
    qed (use step d False in \<open>auto simp: process_get_file_query_def process_release_local_file_query_def
      dest: handler_settles\<close>)
    moreover have "consumed ev \<subseteq># out" using l by (cases ev) simp_all
    ultimately show ?thesis using balanced_settles [OF b] by blast
  qed
qed

lemma files_reach_balanced: "files_reach p c out taken answered \<Longrightarrow> balanced c out taken answered"
proof (induction rule: files_reach.induct)
  case (files_new w)
  then show ?case by (simp add: balanced_def new_client_files_def distinct_files_def waiting_def deletes_done_def)
next
  case (files_step c out taken answered ev now free c' ms)
  then show ?case by (blast intro: file_step_balanced)
qed

subsection \<open>No event fails\<close>

definition can_send :: "client_files \<Rightarrow> bool" where
  "can_send c \<longleftrightarrow> td_client c \<or> is_closing c"

lemma can_send_updates [simp]:
  "can_send (c\<lparr>active_file_streams := a\<rparr>) = can_send c" "can_send (c\<lparr>pending_file_streams := ps\<rparr>) = can_send c"
  "can_send (c\<lparr>file_stream_listeners := l\<rparr>) = can_send c" "can_send (c\<lparr>file_download_listeners := dl\<rparr>) = can_send c"
  "can_send (c\<lparr>was_authorized := b\<rparr>) = can_send c" "can_send (on_local_file_delete_attempt c) = can_send c"
  "can_send (c\<lparr>download_started_file_ids := i\<rparr>) = can_send c" "can_send (c\<lparr>workdir_space_rejections := n\<rparr>) = can_send c"
  by (simp_all add: can_send_def is_closing_def on_local_file_delete_attempt_def)

lemma is_closing_stream [simp]: "is_closing (c\<lparr>active_file_streams := a\<rparr>) = is_closing c"
  by (simp add: is_closing_def)

lemma closing_error_none [simp]: "is_closing c \<Longrightarrow> get_closing_error now (base c) \<noteq> None"
  using get_closing_error_Some [of c now] by auto

lemma send_none [simp]: "can_send c \<Longrightarrow> send_request now f cb c \<noteq> None"
  by (auto simp: send_request_def do_send_request_def can_send_def simp del: not_None_eq)

lemma and_then_none [simp]: "and_then r k = None \<longleftrightarrow> r = None \<or> (\<exists>c ms. r = Some (c, ms) \<and> k c = None)"
  by (auto simp: and_then_def split: option.split)

lemma can_send_settles: "can_send c \<Longrightarrow> settles c Q d c' ms \<Longrightarrow> can_send c'"
  by (auto simp: can_send_def settles_def is_closing_def)

lemma start_file_stream_none [simp]: "can_send c \<Longrightarrow> start_file_stream now r fid e c \<noteq> None"
  by (simp add: start_file_stream_def Let_def del: not_None_eq)

lemma start_pending_none [simp]: "can_send c \<Longrightarrow> distinct_files c \<Longrightarrow> start_pending_streams now ps c \<noteq> None"
proof (induction ps arbitrary: c)
  case (Cons p ps)
  have "start_pending_streams now ps c1 \<noteq> None"
    if "start_file_stream now (pend_ref p) (pend_file_id p) (pend_expected_size p) c = Some (c1, ms1)" for c1 ms1
  proof -
    have s: "settles c {#} 0 c1 ms1" by (rule start_file_stream_settles [OF that Cons.prems(2)])
    then have "distinct_files c1" by (simp add: settles_def)
    with Cons.IH can_send_settles [OF Cons.prems(1) s] show ?thesis by blast
  qed
  with Cons.prems show ?case by (auto simp del: not_None_eq)
qed simp

lemma remove_file_stream_none [simp]: "can_send c \<Longrightarrow> remove_file_stream now sid fid rem ok c \<noteq> None"
  by (simp add: remove_file_stream_def Let_def del: not_None_eq split: option.split local_copy_action.split)

lemma update_download_none [simp]: "can_send c \<Longrightarrow> update_download p now f c \<noteq> None"
  by (simp add: update_download_def Let_def del: not_None_eq)

lemma on_update_file_none [simp]: "can_send c \<Longrightarrow> on_update_file p now f c \<noteq> None"
  by (simp add: on_update_file_def del: not_None_eq)

lemma space_can_send [simp]: "can_send (snd (check_workdir_space_for_download p free sz ex c)) = can_send c"
  by (simp add: check_workdir_space_for_download_def Let_def)

lemma do_get_file_none [simp]: "can_send c \<Longrightarrow> do_get_file p now free f q c \<noteq> None"
  by (simp add: do_get_file_def Let_def split_beta del: not_None_eq)

lemma on_stream_remote_file_none [simp]: "can_send c \<Longrightarrow> on_stream_remote_file p now free r e f c \<noteq> None"
  by (simp add: on_stream_remote_file_def Let_def split_beta del: not_None_eq split: sum.split)

lemma on_result_none: "can_send c \<Longrightarrow> result_type_ok cb r \<Longrightarrow> on_result p now free cb r c \<noteq> None"
  by (cases "(p, now, free, cb, r, c)" rule: on_result.cases) (auto simp: release_local_file_def simp del: not_None_eq)

lemma file_step_some:
  assumes b: "balanced c out taken answered" and l: "legal_event ev c out"
  shows "\<exists>c' ms. file_step p now free ev c = Some (c', ms)"
proof -
  have c: "can_send c" and d: "distinct_files c" using b by (simp_all add: balanced_def can_send_def)
  have "file_step p now free ev c \<noteq> None"
  proof (cases ev)
    case (Td_Result cb r)
    with c l show ?thesis by (simp add: on_result_none del: not_None_eq)
  next
    case Authorized
    have "distinct_files (c\<lparr>was_authorized := True, pending_file_streams := []\<rparr>)" using d by (simp add: distinct_files_def)
    with Authorized c show ?thesis by (simp add: on_authorized_def del: not_None_eq)
  next
    case Client_Closed
    with l show ?thesis by (simp add: files_on_closed_def closing_answer_def del: not_None_eq)
  qed (use c in \<open>simp_all add: client_request_redownload_def process_get_file_query_def process_release_local_file_query_def
    check_remote_file_id_def del: not_None_eq\<close>)
  then show ?thesis by auto
qed

subsection \<open>Properties\<close>

text \<open>
  (C17) In every reachable state every event the client can receive is handled without a failed check; every
  query about a file that was handed in has been answered exactly once, waits for its download, or is
  held by a request to TDLib; every attempt to delete a local copy is counted as a success, as a
  failure, or still runs; and when the client is closed and TDLib has answered everything, every
  query is answered.
\<close>

theorem file_requests_settled:
  assumes "files_reach p c out taken answered"
  shows "(legal_event ev c out \<longrightarrow> (\<exists>c' ms. file_step p now free ev c = Some (c', ms))) \<and>
    taken = answered + waiting c + held out \<and>
    file_delete_attempts c = file_delete_successes c + file_delete_failures c + deletes out \<and>
    (\<not> td_client c \<and> out = {#} \<longrightarrow> taken = answered)"
proof -
  have b: "balanced c out taken answered" by (rule files_reach_balanced [OF assms])
  then have "td_client c \<or> waiting c = {#}" by (auto simp: balanced_def waiting_def)
  with b file_step_some [OF b, of ev p now free] show ?thesis by (auto simp: balanced_def deletes_done_def)
qed

text \<open>A client, a query and a file for the examples.\<close>

definition sample_file_params :: file_params where
  "sample_file_params = \<lparr>fp_local_mode = True, fp_dir = ''/w/'', fp_min_free_bytes = 0, fp_unknown_min_free_bytes = 0\<rparr>"

definition sample_file_query :: query where
  "sample_file_query = new_query [] ''1:a'' False ''getfile'' [(''file_id'', ''x'')] [] [] InvalidAddress False"

definition sample_td_file :: td_file where
  "sample_td_file = \<lparr>td_id = 7, td_size = 100, td_expected_size = 100, td_remote_id = ''x'', td_unique_id = ''u'',
     td_path = [], td_download_offset = 0, td_prefix_size = 0, td_downloaded_size = 0, td_completed = False, td_active = False\<rparr>"

definition sample_stream_ref :: stream_ref where
  "sample_stream_ref = \<lparr>ref_id = 1, ref_actor = 5\<rparr>"

definition sample_client :: client_files where
  "sample_client = new_client_files (new_webhook None)"

lemmas sample_client_simps =
  sample_client_def sample_file_query_def sample_td_file_def sample_stream_ref_def sample_file_params_def new_client_files_def
  new_webhook_def new_query_def is_closing_def send_request_def do_send_request_def

lemma sample_get_file:
  "file_step sample_file_params 0 0 (Get_File_Query sample_file_query) sample_client =
     Some (sample_client, [Request (GetRemoteFile ''x'') (On_Remote_File (Get_File False) sample_file_query)])"
proof -
  have "to_bool [] = False" by (simp add: to_bool_def to_lower_def trim_def)
  then show ?thesis
    by (simp add: process_get_file_query_def check_remote_file_id_def arg_def find_value_def sample_client_simps)
qed

theorem file_requests_settled_witness:
  "(\<exists>c' ms. file_step sample_file_params 0 0
      (Td_Result (On_Remote_File (Get_File False) sample_file_query) (Td_File sample_td_file)) sample_client = Some (c', ms)) \<and>
   {#sample_file_query#} = {#} + waiting sample_client + held {#On_Remote_File (Get_File False) sample_file_query#}"
proof -
  have new: "files_reach sample_file_params sample_client {#} {#} {#}"
    unfolding sample_client_def by (rule files_new) (simp_all add: new_webhook_def)
  from files_step [OF new _ sample_get_file]
  have "files_reach sample_file_params sample_client {#On_Remote_File (Get_File False) sample_file_query#}
      {#sample_file_query#} {#}"
    by (simp add: new_callbacks_def)
  from file_requests_settled [OF this, of "Td_Result (On_Remote_File (Get_File False) sample_file_query) (Td_File sample_td_file)" 0 0]
  show ?thesis by simp
qed

text \<open>
  The handlers of this theory delete a local copy only for a stream without cache that was sent completely or for a request
  to release the file, only when no stream and no \<open>getFile\<close> query uses the file any more, and every
  such request is counted as an attempt.
\<close>

lemma files_in_use_kept:
  assumes "file_step p now free ev c = Some (c', ms)" and "Request (DeleteFile fid) cb \<in> set ms"
  shows "deletion_cause ev fid \<and> unused c' fid \<and> file_delete_attempts c' = file_delete_attempts c + 1"
  using assms by (rule files_in_use_lemma)

lemma files_in_use_kept_witness:
  "unused (sample_client\<lparr>file_delete_attempts := 1\<rparr>) 7"
proof -
  have "file_step sample_file_params 0 0 (Remove_Stream 1 7 True True)
      (sample_client\<lparr>file_stream_listeners := [(7, [sample_stream_ref])]\<rparr>) =
    Some (sample_client\<lparr>file_delete_attempts := 1\<rparr>, [Request (DeleteFile 7) (On_Delete_File 7)])"
    by (simp add: remove_file_stream_def decide_file_stream_local_copy_action_def on_local_file_delete_attempt_def
        sample_client_simps)
  from files_in_use_kept [OF this] show ?thesis by simp
qed

text \<open>
  A stream that stops after the client registered it for a file but before it learned the identifier of
  the file is removed under identifier 0, which leaves it among the listeners: until the client closes
  no handler of this theory deletes the local copy and every request to release it is refused. The copy can still
  go when a message with the same file is sent without cache, or by the cleanup of the working directory.
\<close>

lemma early_stop_leaves_listener:
  assumes "listening c fid r" and "fid \<noteq> 0"
    and "file_run p ((t, fr, Remove_Stream (ref_id r) 0 rem ok) # evs) c = Some (c', ms)"
    and "\<forall>(now, free, ev) \<in> set evs. keeps fid r ev"
  shows "listening c' fid r \<and> (\<forall>cb. Request (DeleteFile fid) cb \<notin> set ms) \<and>
    (td_id f = fid \<longrightarrow>
       release_local_file now f q c' = Some (c', [Conclude (Fail 409 ''Conflict: file is currently in use'' []) q]))"
proof -
  have "keeps fid r (Remove_Stream (ref_id r) 0 rem ok)" using assms(2) by (simp add: keeps_def)
  then have "listening c' fid r \<and> (\<forall>cb. Request (DeleteFile fid) cb \<notin> set ms)"
    using assms(4) by (intro file_run_listening [OF assms(3) _ assms(1)]) auto
  then show ?thesis by (auto simp: listening_def release_local_file_def)
qed

text \<open>The client after a stream was started and TDLib found its file; the stream then stops at once.\<close>

definition sample_streaming :: client_files where
  "sample_streaming = sample_client\<lparr>was_authorized := True, active_file_streams := [(1, 5)],
     file_stream_listeners := [(7, [sample_stream_ref])]\<rparr>"

lemma sample_streaming_reached:
  "\<exists>ms. file_run sample_file_params
      [(0, 1000, Authorized), (0, 1000, Start_Stream sample_stream_ref ''x'' 100),
       (0, 1000, Td_Result (On_Stream_Remote_File sample_stream_ref 100) (Td_File sample_td_file))] sample_client =
    Some (sample_streaming, ms)"
  by (simp add: on_authorized_def start_file_stream_def on_stream_remote_file_def resolve_file_stream_size_def
      check_workdir_space_for_download_def check_workdir_space_def int64_max_def sample_streaming_def sample_client_simps)

lemma early_stop_leaves_listener_witness:
  "\<exists>c'. file_run sample_file_params [(0, 0, Remove_Stream 1 0 True False)] sample_streaming = Some (c', []) \<and>
     active_file_streams c' = [] \<and> listening c' 7 sample_stream_ref \<and>
     release_local_file 0 sample_td_file sample_file_query c' =
       Some (c', [Conclude (Fail 409 ''Conflict: file is currently in use'' []) sample_file_query])"
proof -
  let ?c = "sample_streaming\<lparr>active_file_streams := []\<rparr>"
  have run: "file_run sample_file_params [(0, 0, Remove_Stream (ref_id sample_stream_ref) 0 True False)] sample_streaming = Some (?c, [])"
    by (simp add: remove_file_stream_def sample_streaming_def sample_client_simps)
  have "listening sample_streaming 7 sample_stream_ref" by (simp add: listening_def sample_streaming_def)
  from early_stop_leaves_listener [OF this _ run, of sample_td_file 0 sample_file_query] run show ?thesis
    by (auto simp: sample_stream_ref_def sample_td_file_def)
qed

end
