(* ===== verification/Client_Send_Proofs.thy ===== *)
theory Client_Send_Proofs
  imports Client_Send Client_Files_Spec
begin

section \<open>Every message is counted and every query answered\<close>

text \<open>
  The sending of messages as a transition system: the events are the queries that passed their checks, the
  results and updates of TDLib, and closing. Along every run no check fails, the number kept per chat is the number
  of messages under way, and every query is answered exactly once or waits for a named event.
\<close>

subsection \<open>Association lists as multisets\<close>

lemma alist_update_new: "map_of al k = None \<Longrightarrow> AList.update k v al = al @ [(k, v)]"
  by (induction al) (auto split: if_splits)

lemma mset_alist_split:
  "distinct (map fst al) \<Longrightarrow> map_of al k = Some v \<Longrightarrow> mset al = add_mset (k, v) (mset (AList.delete k al))"
  by (induction al) (auto simp: AList.delete_id split: if_splits)

lemma mset_alist_replace:
  "distinct (map fst al) \<Longrightarrow> map_of al k = Some v \<Longrightarrow> mset (AList.update k w al) = add_mset (k, w) (mset (AList.delete k al))"
  by (induction al) (auto simp: AList.delete_id split: if_splits)

subsection \<open>The books\<close>

fun send_cb_query :: "send_callback \<Rightarrow> query multiset" where
  "send_cb_query (On_Send_Message chat q) = {#q#}"
| "send_cb_query (On_Send_Album chat n q) = {#q#}"
| "send_cb_query (On_Forward_Messages chat n q) = {#q#}"
| "send_cb_query (On_Return_Business_Message q) = {#q#}"
| "send_cb_query (On_Send_Business_Album q) = {#q#}"
| "send_cb_query (On_Post_Story q) = {#q#}"
| "send_cb_query (On_Delete_Failed_To_Send_Message chat i) = {#}"
| "send_cb_query (On_Delete_File_And_Answer fid a b q) = {#q#}"

text \<open>The messages of a chat a request stands for.\<close>

fun send_reserved :: "int \<Rightarrow> send_callback \<Rightarrow> nat" where
  "send_reserved chat (On_Send_Message chat' q) = (if chat' = chat then 1 else 0)"
| "send_reserved chat (On_Send_Album chat' n q) = (if chat' = chat then n else 0)"
| "send_reserved chat (On_Forward_Messages chat' n q) = (if chat' = chat then n else 0)"
| "send_reserved chat _ = 0"

definition send_held :: "send_callback multiset \<Rightarrow> query multiset" where
  "send_held out = sum_mset (image_mset send_cb_query out)"

definition send_waiting :: "client_send \<Rightarrow> send_callback multiset \<Rightarrow> query multiset" where
  "send_waiting c out = image_mset (\<lambda>x. ps_query (snd x)) (mset (pending_send_message_queries c)) +
     image_mset snd (mset (yet_unsent_stories c)) + send_held out"

definition unsent_in :: "int \<Rightarrow> client_send \<Rightarrow> nat" where
  "unsent_in chat c = size (filter_mset (\<lambda>x. fst (fst x) = chat) (mset (yet_unsent_messages c)))"

definition unsent_of :: "int \<Rightarrow> client_send \<Rightarrow> nat" where
  "unsent_of query_id c = size (filter_mset (\<lambda>x. snd x = query_id) (mset (yet_unsent_messages c)))"

definition under_way :: "int \<Rightarrow> client_send \<Rightarrow> send_callback multiset \<Rightarrow> nat" where
  "under_way chat c out =
     (if td_client (send_files c) then unsent_in chat c + sum_mset (image_mset (send_reserved chat) out) else 0)"

definition pending_ok :: "client_send \<Rightarrow> int \<Rightarrow> pending_send \<Rightarrow> bool" where
  "pending_ok c query_id p \<longleftrightarrow>
     query_id < current_send_message_query_id c \<and> ps_awaited_message_count p = int (unsent_of query_id c) \<and>
     0 < ps_awaited_message_count p \<and> (\<not> ps_is_multisend p \<longrightarrow> ps_awaited_message_count p = 1) \<and>
     (ps_error p = None \<longrightarrow> int (length (ps_messages p)) + ps_awaited_message_count p = ps_total_message_count p)"

definition tables_ok :: "client_send \<Rightarrow> bool" where
  "tables_ok c \<longleftrightarrow>
     distinct (map fst (yet_unsent_messages c)) \<and> distinct (map fst (yet_unsent_stories c)) \<and>
     distinct (map fst (pending_send_message_queries c)) \<and>
     (\<forall>query_id p. map_of (pending_send_message_queries c) query_id = Some p \<longrightarrow> pending_ok c query_id p) \<and>
     (\<forall>x \<in> set (yet_unsent_messages c). map_of (pending_send_message_queries c) (snd x) \<noteq> None) \<and>
     (\<not> td_client (send_files c) \<longrightarrow>
        is_closing (send_files c) \<and> yet_unsent_messages c = [] \<and> pending_send_message_queries c = [])"

definition counts_ok :: "client_send \<Rightarrow> send_callback multiset \<Rightarrow> bool" where
  "counts_ok c out \<longleftrightarrow> (\<forall>chat. unsent_count chat c = int (under_way chat c out))"

definition send_inv :: "client_send \<Rightarrow> send_callback multiset \<Rightarrow> bool" where
  "send_inv c out \<longleftrightarrow> tables_ok c \<and> counts_ok c out"

lemma tables_okD:
  assumes "tables_ok c"
  shows "distinct (map fst (yet_unsent_messages c))" "distinct (map fst (yet_unsent_stories c))"
    "distinct (map fst (pending_send_message_queries c))"
    "map_of (pending_send_message_queries c) qid = Some p \<Longrightarrow> pending_ok c qid p"
    "x \<in> set (yet_unsent_messages c) \<Longrightarrow> map_of (pending_send_message_queries c) (snd x) \<noteq> None"
  using assms unfolding tables_ok_def by blast+

lemma pending_ok_cong:
  "unsent_of j c' = unsent_of j c \<Longrightarrow> current_send_message_query_id c' = current_send_message_query_id c \<Longrightarrow>
   pending_ok c' j p \<longleftrightarrow> pending_ok c j p"
  by (simp add: pending_ok_def)

fun settled_queries :: "send_output list \<Rightarrow> query multiset" where
  "settled_queries [] = {#}"
| "settled_queries (Conclude_Send a q # ms) = add_mset q (settled_queries ms)"
| "settled_queries (Answer_Text t q # ms) = add_mset q (settled_queries ms)"
| "settled_queries (Retry_Later a b q # ms) = add_mset q (settled_queries ms)"
| "settled_queries (Pass_On q # ms) = add_mset q (settled_queries ms)"
| "settled_queries (Send_Request f cb # ms) = settled_queries ms"

fun send_callbacks :: "send_output list \<Rightarrow> send_callback multiset" where
  "send_callbacks [] = {#}"
| "send_callbacks (Send_Request f cb # ms) = add_mset cb (send_callbacks ms)"
| "send_callbacks (m # ms) = send_callbacks ms"

text \<open>A handler goes well: it returns, keeps the books, and the queries in \<open>qs\<close> are settled or wait.\<close>

definition good :: "send_callback multiset \<Rightarrow> query multiset \<Rightarrow> send_outcome \<Rightarrow> bool" where
  "good out qs r \<longleftrightarrow> (\<exists>c' ms. r = Some (c', ms) \<and> send_inv c' (out + send_callbacks ms) \<and>
     send_waiting c' (out + send_callbacks ms) + settled_queries ms = qs)"

lemma goodI:
  "r = Some (c', ms) \<Longrightarrow> send_inv c' (out + send_callbacks ms) \<Longrightarrow>
   send_waiting c' (out + send_callbacks ms) + settled_queries ms = qs \<Longrightarrow> good out qs r"
  by (auto simp: good_def)

lemma send_held_simps [simp]:
  "send_held {#} = {#}" "send_held (add_mset cb M) = send_cb_query cb + send_held M" "send_held (M + N) = send_held M + send_held N"
  by (simp_all add: send_held_def)

lemma send_append [simp]:
  "settled_queries (ms @ ms') = settled_queries ms + settled_queries ms'" "send_callbacks (ms @ ms') = send_callbacks ms + send_callbacks ms'"
  by (induction ms rule: settled_queries.induct; simp)+

lemma fail_send_outputs [simp]: "settled_queries [fail_send e q] = {#q#}" "send_callbacks [fail_send e q] = {#}"
  by (simp_all add: fail_send_def)

subsection \<open>Counting\<close>

definition same_but_counts :: "client_send \<Rightarrow> client_send \<Rightarrow> bool" where
  "same_but_counts c c' \<longleftrightarrow> (\<exists>k. c' = c\<lparr>yet_unsent_message_count := k\<rparr>)"

lemma same_but_counts_fields:
  assumes "same_but_counts c c'"
  shows "tables_ok c' = tables_ok c" "under_way chat c' out = under_way chat c out" "send_waiting c' out = send_waiting c out"
    "send_files c' = send_files c" "pending_send_message_queries c' = pending_send_message_queries c"
    "yet_unsent_messages c' = yet_unsent_messages c" "current_send_message_query_id c' = current_send_message_query_id c"
    "yet_unsent_stories c' = yet_unsent_stories c"
proof -
  obtain k where c': "c' = c\<lparr>yet_unsent_message_count := k\<rparr>" using assms by (auto simp: same_but_counts_def)
  show "tables_ok c' = tables_ok c" "under_way chat c' out = under_way chat c out" "send_waiting c' out = send_waiting c out"
    "send_files c' = send_files c" "pending_send_message_queries c' = pending_send_message_queries c"
    "yet_unsent_messages c' = yet_unsent_messages c" "current_send_message_query_id c' = current_send_message_query_id c"
    "yet_unsent_stories c' = yet_unsent_stories c"
    unfolding c' by (simp_all add: tables_ok_def pending_ok_def unsent_of_def under_way_def unsent_in_def send_waiting_def)
qed

lemma decrease_ok:
  assumes "0 < n" and "n \<le> unsent_count chat c"
  shows "\<exists>c'. decrease_yet_unsent_message_count chat n c = Some c' \<and> same_but_counts c c' \<and>
    (\<forall>ch. unsent_count ch c' = unsent_count ch c - (if ch = chat then n else 0))"
proof -
  obtain k where k: "map_of (yet_unsent_message_count c) chat = Some k" "n \<le> k"
    using assms by (auto simp: unsent_count_def split: option.splits)
  then show ?thesis
    by (auto simp: decrease_yet_unsent_message_count_def same_but_counts_def unsent_count_def AList.update_conv' AList.delete_conv')
qed

lemma counts_reserved:
  "counts_ok c (add_mset cb out) \<longleftrightarrow>
     (\<forall>chat. unsent_count chat c = int (under_way chat c out) + (if td_client (send_files c) then int (send_reserved chat cb) else 0))"
  by (auto simp: counts_ok_def under_way_def)

text \<open>Taking back a reservation.\<close>

lemma take_back:
  assumes inv: "send_inv c (add_mset cb out)" and td: "td_client (send_files c)"
    and cb: "\<And>ch. send_reserved ch cb = (if ch = chat then n else 0)"
  shows "\<exists>c'. (if n > 0 then decrease_yet_unsent_message_count chat (int n) c else Some c) = Some c' \<and> send_inv c' out \<and>
    send_waiting c' out = send_waiting c out \<and> same_but_counts c c'"
proof (cases "n > 0")
  case True
  have count: "unsent_count ch c = int (under_way ch c out) + (if ch = chat then int n else 0)" for ch
    using inv td cb by (simp add: send_inv_def counts_reserved)
  from decrease_ok [of "int n" chat c] obtain c' where c': "decrease_yet_unsent_message_count chat (int n) c = Some c'"
    "same_but_counts c c'" "\<forall>ch. unsent_count ch c' = unsent_count ch c - (if ch = chat then int n else 0)"
    using True count by auto
  have "unsent_count ch c' = int (under_way ch c' out)" for ch
    using c'(3) count [of ch] same_but_counts_fields(2) [OF c'(2)] by simp
  then have "send_inv c' out" using inv same_but_counts_fields(1) [OF c'(2)] by (simp add: send_inv_def counts_ok_def)
  then show ?thesis using True c' same_but_counts_fields(3) [OF c'(2)] by auto
next
  case False
  then have "send_inv c out" using inv cb by (simp add: send_inv_def counts_ok_def under_way_def)
  then show ?thesis using False by (auto simp: same_but_counts_def intro: exI [of _ "yet_unsent_message_count c"])
qed

lemma inv_unreserved:
  assumes "\<And>ch. send_reserved ch cb = 0"
  shows "send_inv c (add_mset cb out) \<longleftrightarrow> send_inv c out"
  using assms by (simp add: send_inv_def counts_ok_def under_way_def)

definition files_view :: "client_files \<Rightarrow> bool \<times> bool" where
  "files_view f = (td_client f, is_closing f)"

lemma inv_files:
  assumes "files_view f = files_view (send_files c)"
  shows "send_inv (c\<lparr>send_files := f\<rparr>) out \<longleftrightarrow> send_inv c out" "send_waiting (c\<lparr>send_files := f\<rparr>) out = send_waiting c out"
  using assms
  by (simp_all add: send_inv_def tables_ok_def counts_ok_def pending_ok_def unsent_of_def under_way_def unsent_in_def unsent_count_def
      files_view_def send_waiting_def)

lemma files_view_deletes [simp]:
  "files_view (on_local_file_delete_finished b f) = files_view f" "files_view (on_local_file_delete_attempt f) = files_view f"
  by (simp_all add: files_view_def on_local_file_delete_finished_def on_local_file_delete_attempt_def is_closing_def)

lemma on_send_error_good:
  assumes inv: "send_inv c (add_mset cb out)" and td: "td_client (send_files c) \<or> (\<forall>ch. send_reserved ch cb = 0)"
  shows "good out (send_waiting c (add_mset cb out)) (on_send_error cb e c)"
proof -
  have undo: "good out (add_mset q (send_waiting c out))
      (map_option (\<lambda>c'. (c', [fail_send e q])) (if n > 0 then decrease_yet_unsent_message_count chat (int n) c else Some c))"
    if "td_client (send_files c)" and cb: "\<And>ch. send_reserved ch cb = (if ch = chat then n else 0)" for chat n q
  proof -
    from take_back [OF inv that(1) cb] obtain c' where
      "(if n > 0 then decrease_yet_unsent_message_count chat (int n) c else Some c) = Some c'" "send_inv c' out"
      "send_waiting c' out = send_waiting c out" by blast
    then show ?thesis by (intro goodI [of _ c' "[fail_send e q]"]) simp_all
  qed
  have plain: "good out (add_mset q (send_waiting c out)) (Some (c, [fail_send e q]))" if "\<forall>ch. send_reserved ch cb = 0" for q
    using inv inv_unreserved that by (intro goodI [of _ c "[fail_send e q]"]) auto
  show ?thesis
  proof (cases cb)
    case (On_Send_Message chat q)
    then have "td_client (send_files c)" using td by (auto dest: spec [of _ chat])
    then show ?thesis using undo [of chat 1 q] On_Send_Message by (simp add: send_waiting_def)
  next
    case (On_Send_Album chat n q)
    then have "td_client (send_files c) \<or> n = 0" using td by (auto split: if_splits)
    then show ?thesis using undo [of chat n q] plain [of q] On_Send_Album by (cases "n = 0") (auto simp: send_waiting_def)
  next
    case (On_Forward_Messages chat n q)
    then have "td_client (send_files c) \<or> n = 0" using td by (auto split: if_splits)
    then show ?thesis using undo [of chat n q] plain [of q] On_Forward_Messages by (cases "n = 0") (auto simp: send_waiting_def)
  next
    case (On_Delete_Failed_To_Send_Message chat i)
    then show ?thesis using inv inv_unreserved [of cb] by (intro goodI [of _ c "[]"]) (simp_all add: send_waiting_def)
  next
    case (On_Delete_File_And_Answer fid a b q)
    then show ?thesis using inv inv_unreserved [of cb]
      by (intro goodI [of _ "c\<lparr>send_files := on_local_file_delete_finished False (send_files c)\<rparr>" "[Answer_Text b q]"])
        (simp_all add: inv_files, simp add: send_waiting_def)
  qed (use plain in \<open>auto simp: send_waiting_def\<close>)
qed

subsection \<open>Requests\<close>

definition can_request :: "client_send \<Rightarrow> bool" where
  "can_request c \<longleftrightarrow> td_client (send_files c) \<or> is_closing (send_files c)"

lemma inv_can_request: "send_inv c out \<Longrightarrow> can_request c"
  by (auto simp: send_inv_def tables_ok_def can_request_def)

lemma request_good:
  assumes inv: "send_inv c (add_mset cb out)" and td: "td_client (send_files c) \<or> (\<forall>ch. send_reserved ch cb = 0)"
  shows "good out (send_waiting c (add_mset cb out)) (request now f cb c)"
proof (cases "is_closing (send_files c)")
  case True
  then obtain code retry m where "get_closing_error now (base (send_files c)) = Some (code, retry, m)"
    using get_closing_error_Some by blast
  then show ?thesis using True on_send_error_good [OF inv td, of "Error code m"] by (simp add: request_def)
next
  case False
  then have "td_client (send_files c)" using inv_can_request [OF inv] by (simp add: can_request_def)
  then show ?thesis using False inv by (intro goodI [of _ c "[Send_Request f cb]"]) (simp_all add: request_def)
qed

text \<open>The three requests that reserve messages.\<close>

definition reserves :: "int \<Rightarrow> nat \<Rightarrow> query \<Rightarrow> send_callback \<Rightarrow> bool" where
  "reserves chat n q cb \<longleftrightarrow> cb = On_Send_Message chat q \<and> n = 1 \<or> cb = On_Send_Album chat n q \<or> cb = On_Forward_Messages chat n q"

lemma reserves_facts:
  assumes "reserves chat n q cb"
  shows "send_cb_query cb = {#q#}" "send_reserved ch cb = (if ch = chat then n else 0)"
    "on_send_error cb e c = map_option (\<lambda>c'. (c', [fail_send e q]))
       (if n > 0 then decrease_yet_unsent_message_count chat (int n) c else Some c)"
  using assms by (auto simp: reserves_def)

lemma unsent_count_update:
  "unsent_count ch (c\<lparr>yet_unsent_message_count := AList.update chat k (yet_unsent_message_count c)\<rparr>) = (if ch = chat then k else unsent_count ch c)"
  by (simp add: unsent_count_def AList.update_conv')

lemma waiting_add: "send_waiting c (add_mset cb out) = send_waiting c out + send_cb_query cb"
  by (simp add: send_waiting_def)

lemma flood_good:
  assumes "send_inv c out"
  shows "good out (add_mset q (send_waiting c out)) (Some (fail_query_flood_limit_exceeded q c))"
proof -
  let ?c = "c\<lparr>flood_limited_query_count := flood_limited_query_count c + 1\<rparr>"
  have "send_inv ?c out = send_inv c out" "send_waiting ?c out = send_waiting c out"
    by (simp_all add: send_inv_def tables_ok_def counts_ok_def pending_ok_def unsent_of_def under_way_def unsent_in_def
        unsent_count_def send_waiting_def)
  then show ?thesis using assms
    by (intro goodI [of _ ?c "[Retry_Later 3 60 q]"]) (simp_all add: fail_query_flood_limit_exceeded_def)
qed

lemma reserve_good:
  assumes inv: "send_inv c out" and cb: "reserves chat n q cb"
  shows "good out (add_mset q (send_waiting c out)) (reserve now chat n f cb q c)"
proof (cases "unsent_count chat c \<ge> max_concurrently_sent_chat_messages")
  case True
  then show ?thesis using flood_good [OF inv] by (simp add: reserve_def)
next
  case False
  define c1 where "c1 = c\<lparr>yet_unsent_message_count := AList.update chat (unsent_count chat c + int n) (yet_unsent_message_count c)\<rparr>"
  have same: "same_but_counts c c1" by (auto simp: same_but_counts_def c1_def)
  have count: "unsent_count ch c1 = unsent_count ch c + int (send_reserved ch cb)" for ch
    unfolding c1_def unsent_count_update using reserves_facts(2) [OF cb] by simp
  have reserve: "reserve now chat n f cb q c = request now f cb c1" using False by (simp add: reserve_def c1_def)
  show ?thesis
  proof (cases "td_client (send_files c)")
    case True
    then have "send_inv c1 (add_mset cb out)"
      using inv count same_but_counts_fields(1,2,4) [OF same] unfolding send_inv_def counts_reserved by (simp add: counts_ok_def)
    from request_good [OF this] show ?thesis
      using True same_but_counts_fields(3,4) [OF same] reserves_facts(1) [OF cb] by (simp add: reserve waiting_add)
  next
    case no: False
    then have closing: "is_closing (send_files c)" using inv_can_request [OF inv] by (simp add: can_request_def)
    obtain code retry m where err: "get_closing_error now (base (send_files c)) = Some (code, retry, m)"
      using get_closing_error_Some closing by blast
    have zero: "unsent_count ch c = 0" for ch using inv no by (simp add: send_inv_def counts_ok_def under_way_def)
    have "\<exists>c2. (if n > 0 then decrease_yet_unsent_message_count chat (int n) c1 else Some c1) = Some c2 \<and> same_but_counts c1 c2 \<and>
        (\<forall>ch. unsent_count ch c2 = unsent_count ch c)"
    proof (cases "n > 0")
      case True
      have "int n \<le> unsent_count chat c1" using count reserves_facts(2) [OF cb] zero by simp
      with decrease_ok [of "int n" chat c1] True obtain c2 where
        "decrease_yet_unsent_message_count chat (int n) c1 = Some c2" "same_but_counts c1 c2"
        "\<forall>ch. unsent_count ch c2 = unsent_count ch c1 - (if ch = chat then int n else 0)" by auto
      then show ?thesis using True count reserves_facts(2) [OF cb] by auto
    next
      case False
      then show ?thesis using count reserves_facts(2) [OF cb] by (auto simp: same_but_counts_def intro: exI [of _ "yet_unsent_message_count c1"])
    qed
    then obtain c2 where c2: "(if n > 0 then decrease_yet_unsent_message_count chat (int n) c1 else Some c1) = Some c2"
      "same_but_counts c1 c2" "\<forall>ch. unsent_count ch c2 = unsent_count ch c" by blast
    have "send_inv c2 out" "send_waiting c2 out = send_waiting c out"
      using inv c2(3) same_but_counts_fields(1-3) [OF same] same_but_counts_fields(1-3) [OF c2(2)]
      by (simp_all add: send_inv_def counts_ok_def)
    moreover have "request now f cb c1 = Some (c2, [fail_send (Error code m) q])"
      using closing err same_but_counts_fields(4) [OF same] c2(1) reserves_facts(3) [OF cb, of "Error code m" c1]
      by (simp add: request_def)
    ultimately show ?thesis unfolding reserve by (intro goodI [of _ c2 "[fail_send (Error code m) q]"]) simp_all
  qed
qed

subsection \<open>Messages accepted by TDLib\<close>

definition message_key :: "sent_message \<Rightarrow> int \<times> int" where
  "message_key m = (sm_chat_id m, sm_id m)"

text \<open>New messages of a chat: TDLib gives each its own number.\<close>

definition new_messages :: "int \<Rightarrow> sent_message list \<Rightarrow> client_send \<Rightarrow> bool" where
  "new_messages chat ms c \<longleftrightarrow>
     (\<forall>m \<in> set ms. sm_chat_id m = chat \<and> map_of (yet_unsent_messages c) (message_key m) = None) \<and> distinct (map message_key ms)"

lemma on_sent_messages_eq:
  assumes "map_of (pending_send_message_queries c) qid = Some p" and "new_messages chat ms c"
  shows "on_sent_messages ms qid c = Some (c\<lparr>yet_unsent_messages := yet_unsent_messages c @ map (\<lambda>m. (message_key m, qid)) ms,
    pending_send_message_queries := AList.update qid
      (p\<lparr>ps_awaited_message_count := ps_awaited_message_count p + int (length ms),
         ps_total_message_count := ps_total_message_count p + int (length ms)\<rparr>) (pending_send_message_queries c)\<rparr>)"
  using assms
proof (induction ms arbitrary: c p)
  case Nil
  then show ?case by (simp add: AList.update_triv)
next
  case (Cons m ms)
  let ?p = "p\<lparr>ps_awaited_message_count := ps_awaited_message_count p + 1, ps_total_message_count := ps_total_message_count p + 1\<rparr>"
  let ?c = "c\<lparr>yet_unsent_messages := yet_unsent_messages c @ [(message_key m, qid)],
    pending_send_message_queries := AList.update qid ?p (pending_send_message_queries c)\<rparr>"
  have "map_of (yet_unsent_messages c) (message_key m) = None" using Cons.prems(2) by (simp add: new_messages_def)
  then have "on_sent_message m qid c = Some ?c"
    using Cons.prems(1) alist_update_new [of "yet_unsent_messages c" "message_key m" qid]
    by (simp add: on_sent_message_def message_key_def Let_def)
  moreover have "message_key x \<noteq> message_key m" if "x \<in> set ms" for x 
    using Cons.prems(2) imageI [OF that, of message_key] by (auto simp: new_messages_def)
  then have "new_messages chat ms ?c" using Cons.prems(2) by (auto simp: new_messages_def map_add_def)
  ultimately show ?case using Cons.IH [of ?c ?p] by (simp add: AList.update_conv' add.assoc)
qed

definition new_pending :: "query \<Rightarrow> bool \<Rightarrow> nat \<Rightarrow> pending_send" where
  "new_pending q multi n =
     \<lparr>ps_query = q, ps_remove_local_file = parse_file_stream_no_cache (get_header q ''x-telegram-no-cache''),
      ps_is_multisend = multi, ps_total_message_count = int n, ps_awaited_message_count = int n, ps_messages = [], ps_error = None\<rparr>"

definition registered :: "query \<Rightarrow> bool \<Rightarrow> sent_message list \<Rightarrow> client_send \<Rightarrow> client_send" where
  "registered q multi ms c =
     (let qid = current_send_message_query_id c in
      c\<lparr>current_send_message_query_id := qid + 1,
        pending_send_message_queries := pending_send_message_queries c @ [(qid, new_pending q multi (length ms))],
        yet_unsent_messages := yet_unsent_messages c @ map (\<lambda>m. (message_key m, qid)) ms\<rparr>)"

lemma pending_current: "tables_ok c \<Longrightarrow> map_of (pending_send_message_queries c) (current_send_message_query_id c) = None"
  by (metis less_irrefl not_None_eq pending_ok_def tables_ok_def)

lemma register_eq:
  assumes tab: "tables_ok c" and new: "new_messages chat ms c"
  shows "Option.bind (get_send_message_query_id q multi c) (\<lambda>(qid, c1). Option.bind (on_sent_messages ms qid c1) (\<lambda>c2. Some (c2, [])))
    = Some (registered q multi ms c, [])"
proof -
  let ?qid = "current_send_message_query_id c"
  let ?c = "c\<lparr>current_send_message_query_id := ?qid + 1,
    pending_send_message_queries := AList.update ?qid (new_pending q multi 0) (pending_send_message_queries c)\<rparr>"
  note none = pending_current [OF tab]
  have get: "get_send_message_query_id q multi c = Some (?qid, ?c)"
    using none by (simp add: get_send_message_query_id_def new_pending_def Let_def)
  have "new_messages chat ms ?c" using new by (simp add: new_messages_def)
  moreover have "map_of (pending_send_message_queries ?c) ?qid = Some (new_pending q multi 0)" by (simp add: AList.update_conv')
  ultimately have sent: "on_sent_messages ms ?qid ?c = Some (?c\<lparr>yet_unsent_messages := yet_unsent_messages c @ map (\<lambda>m. (message_key m, ?qid)) ms,
      pending_send_message_queries := AList.update ?qid (new_pending q multi (length ms)) (pending_send_message_queries ?c)\<rparr>)"
    using on_sent_messages_eq [of ?c ?qid "new_pending q multi 0" chat ms] by (simp add: new_pending_def)
  have "pending_send_message_queries c @ [(?qid, new_pending q multi (length ms))] =
      AList.update ?qid (new_pending q multi (length ms)) (pending_send_message_queries ?c)"
    using alist_update_new [OF none, of "new_pending q multi (length ms)"] by simp
  then have "on_sent_messages ms ?qid ?c = Some (registered q multi ms c)" unfolding sent registered_def Let_def by simp
  then show ?thesis using get by simp
qed

lemma image_disjoint: "\<forall>x \<in> A. f x \<notin> B \<Longrightarrow> B \<inter> f ` A = {}"
  by blast

lemma registered_tables:
  assumes tab: "tables_ok c" and td: "td_client (send_files c)" and new: "new_messages chat ms c" and ms: "ms \<noteq> []" "\<not> multi \<Longrightarrow> length ms = 1"
  shows "tables_ok (registered q multi ms c)"
proof -
  let ?qid = "current_send_message_query_id c" and ?c = "registered q multi ms c"
  have old: "map_of (pending_send_message_queries c) ?qid = None" by (rule pending_current [OF tab])
  have fields: "yet_unsent_messages ?c = yet_unsent_messages c @ map (\<lambda>m. (message_key m, ?qid)) ms"
    "pending_send_message_queries ?c = pending_send_message_queries c @ [(?qid, new_pending q multi (length ms))]"
    "current_send_message_query_id ?c = ?qid + 1" "send_files ?c = send_files c" "yet_unsent_stories ?c = yet_unsent_stories c"
    by (simp_all add: registered_def Let_def)
  have notin: "snd x \<noteq> ?qid" if "x \<in> set (yet_unsent_messages c)" for x
    using tab that old by (auto simp: tables_ok_def)
  have of_old: "unsent_of qid ?c = unsent_of qid c" if "qid \<noteq> ?qid" for qid
    using that by (simp add: unsent_of_def fields(1) filter_mset_image_mset)
  have of_new: "unsent_of ?qid ?c = length ms"
  proof -
    have "filter (\<lambda>x. snd x = ?qid) (yet_unsent_messages c) = []" using notin by (auto simp: filter_empty_conv)
    then have "filter_mset (\<lambda>x. snd x = ?qid) (mset (yet_unsent_messages c)) = {#}" by (metis mset.simps(1) mset_filter)
    then show ?thesis by (simp add: unsent_of_def fields(1) filter_mset_image_mset)
  qed
  have "\<forall>m \<in> set ms. message_key m \<notin> fst ` set (yet_unsent_messages c)" using new by (simp add: new_messages_def map_of_eq_None_iff)
  then have "fst ` set (yet_unsent_messages c) \<inter> message_key ` set ms = {}" by (rule image_disjoint)
  moreover have "distinct (map fst (yet_unsent_messages c))" "distinct (map message_key ms)"
    using tab new by (simp_all add: tables_ok_def new_messages_def)
  ultimately have "distinct (map fst (yet_unsent_messages ?c))" by (simp add: fields(1) comp_def)
  moreover have "distinct (map fst (pending_send_message_queries ?c))"
    using tab old by (auto simp: tables_ok_def fields(2) map_of_eq_None_iff)
  moreover have "pending_ok ?c qid p" if p: "map_of (pending_send_message_queries ?c) qid = Some p" for qid p
  proof (cases "qid = ?qid")
    case True
    then have "p = new_pending q multi (length ms)" using p old by (simp add: fields(2) map_add_def)
    then show ?thesis using True of_new ms by (auto simp: pending_ok_def new_pending_def fields(3))
  next
    case False
    then have "map_of (pending_send_message_queries c) qid = Some p" using p by (simp add: fields(2) map_add_def split: option.splits)
    then have "pending_ok c qid p" using tab by (simp add: tables_ok_def)
    then show ?thesis unfolding pending_ok_def fields(3) of_old [OF False] by auto
  qed
  moreover have "map_of (pending_send_message_queries ?c) (snd x) \<noteq> None" if "x \<in> set (yet_unsent_messages ?c)" for x
    using that tab by (auto simp: tables_ok_def fields(1,2) map_add_def split: option.splits)
  ultimately show ?thesis using tab td by (simp add: tables_ok_def fields(4,5))
qed

lemma registered_books:
  assumes "td_client (send_files c)" and "new_messages chat ms c"
  shows "unsent_count ch (registered q multi ms c) = unsent_count ch c"
    "under_way ch (registered q multi ms c) out = under_way ch c out + (if ch = chat then length ms else 0)"
    "send_waiting (registered q multi ms c) out = add_mset q (send_waiting c out)"
proof -
  have "filter (\<lambda>x. fst (fst x) = ch) (map (\<lambda>m. (message_key m, qid)) ms) =
      (if ch = chat then map (\<lambda>m. (message_key m, qid)) ms else [])" for qid :: int
    using assms(2) by (auto simp: filter_id_conv filter_empty_conv new_messages_def message_key_def)
  then have "size (filter_mset (\<lambda>x. fst (fst x) = ch) (mset (map (\<lambda>m. (message_key m, qid)) ms))) = (if ch = chat then length ms else 0)"
    for qid :: int by (metis length_map list.size(3) mset_filter size_mset)
  then show "under_way ch (registered q multi ms c) out = under_way ch c out + (if ch = chat then length ms else 0)"
  proof -
    assume size: "\<And>qid :: int. size (filter_mset (\<lambda>x. fst (fst x) = ch) (mset (map (\<lambda>m. (message_key m, qid)) ms))) =
      (if ch = chat then length ms else 0)"
    have "unsent_in ch (registered q multi ms c) = unsent_in ch c + (if ch = chat then length ms else 0)"
      unfolding size [of "current_send_message_query_id c", symmetric] by (simp add: unsent_in_def registered_def Let_def del: mset_map)
    moreover have "send_files (registered q multi ms c) = send_files c" by (simp add: registered_def Let_def)
    ultimately show ?thesis using assms(1) by (simp add: under_way_def)
  qed
qed (simp_all add: registered_def Let_def unsent_count_def send_waiting_def new_pending_def)

lemma register_good:
  assumes inv: "send_inv c (add_mset cb out)" and td: "td_client (send_files c)"
    and cb: "reserves chat n q cb" and new: "new_messages chat ms c" and ms: "ms \<noteq> []" "length ms = n" "\<not> multi \<Longrightarrow> n = 1"
  shows "good out (send_waiting c (add_mset cb out))
    (Option.bind (get_send_message_query_id q multi c) (\<lambda>(qid, c1). Option.bind (on_sent_messages ms qid c1) (\<lambda>c2. Some (c2, []))))"
proof -
  let ?c = "registered q multi ms c"
  have tab: "tables_ok c" using inv by (simp add: send_inv_def)
  have "unsent_count ch ?c = int (under_way ch ?c out)" for ch
    using inv td registered_books(1,2) [OF td new] reserves_facts(2) [OF cb] ms(2) by (auto simp: send_inv_def counts_reserved)
  then have "send_inv ?c out" using registered_tables [OF tab td new ms(1)] ms(2,3) by (simp add: send_inv_def counts_ok_def)
  then show ?thesis
    using register_eq [OF tab new] registered_books(3) [OF td new] reserves_facts(1) [OF cb]
    by (intro goodI [of _ ?c "[]"]) (simp_all add: waiting_add)
qed

lemma on_forwarded_good:
  assumes inv: "send_inv c (add_mset (On_Forward_Messages chat n q) out)" and td: "td_client (send_files c)"
    and new: "new_messages chat ms c" and le: "length ms \<le> n"
  shows "good out (send_waiting c (add_mset (On_Forward_Messages chat n q) out)) (on_forwarded chat n q ms c)"
proof -
  let ?cb = "On_Forward_Messages chat n q"
  let ?rest = "On_Forward_Messages chat (length ms) q"
  have count: "unsent_count ch c = int (under_way ch c out) + (if ch = chat then int n else 0)" for ch
    using inv td by (simp add: send_inv_def counts_reserved)
  have "\<exists>c1. (if length ms \<noteq> n then decrease_yet_unsent_message_count chat (int n - int (length ms)) c else Some c) = Some c1 \<and>
      same_but_counts c c1 \<and> (\<forall>ch. unsent_count ch c1 = int (under_way ch c out) + (if ch = chat then int (length ms) else 0))"
  proof (cases "length ms = n")
    case True
    then show ?thesis using count by (auto simp: same_but_counts_def intro: exI [of _ "yet_unsent_message_count c"])
  next
    case False
    then obtain c1 where "decrease_yet_unsent_message_count chat (int n - int (length ms)) c = Some c1" "same_but_counts c c1"
      "\<forall>ch. unsent_count ch c1 = unsent_count ch c - (if ch = chat then int n - int (length ms) else 0)"
      using decrease_ok [of "int n - int (length ms)" chat c] le count [of chat] by auto
    then show ?thesis using False count by auto
  qed
  then obtain c1 where c1: "(if length ms \<noteq> n then decrease_yet_unsent_message_count chat (int n - int (length ms)) c else Some c) = Some c1"
    "same_but_counts c c1" "\<forall>ch. unsent_count ch c1 = int (under_way ch c out) + (if ch = chat then int (length ms) else 0)" by blast
  note same = same_but_counts_fields [OF c1(2)]
  have inv1: "send_inv c1 (add_mset ?rest out)"
    using inv c1(3) same(1,2,4) td by (simp add: send_inv_def counts_reserved)
  have wait: "send_waiting c (add_mset ?cb out) = send_waiting c1 (add_mset ?rest out)" using same(3) by (simp add: waiting_add)
  show ?thesis
  proof (cases "ms = []")
    case True
    then have "send_inv c1 out" using inv1 same(4) td by (simp add: send_inv_def counts_ok_def under_way_def)
    then show ?thesis using True unfolding wait on_forwarded_def c1(1)
      by (intro goodI [of _ c1 "[fail_send (Error 400 ''Messages can't be forwarded'') q]"]) (simp_all add: waiting_add)
  next
    case False
    have "new_messages chat ms c1" using new same(6) by (simp add: new_messages_def)
    from register_good [OF inv1 _ _ this False, of "length ms" q True] show ?thesis
      using False td same(4) unfolding wait on_forwarded_def c1(1) by (simp add: reserves_def split_def)
  qed
qed

definition result_fits :: "send_callback \<Rightarrow> send_result \<Rightarrow> client_send \<Rightarrow> bool" where
  "result_fits cb r c \<longleftrightarrow>
     (case (cb, r) of
        (_, Sent_Error e) \<Rightarrow> True
      | (On_Send_Message chat q, Sent_Message m) \<Rightarrow> new_messages chat [m] c
      | (On_Send_Album chat n q, Sent_Messages ms) \<Rightarrow>
          n > 0 \<and> length ms = n \<and> None \<notin> set ms \<and> new_messages chat (map the ms) c
      | (On_Forward_Messages chat n q, Sent_Messages ms) \<Rightarrow>
          length ms = n \<and> new_messages chat (map the (filter (\<lambda>m. m \<noteq> None) ms)) c
      | (On_Return_Business_Message q, Sent_Business_Message t) \<Rightarrow> True
      | (On_Send_Business_Album q, Sent_Business_Messages ts) \<Rightarrow> True
      | (On_Post_Story q, Sent_Story s) \<Rightarrow> map_of (yet_unsent_stories c) (ss_chat_id s, ss_id s) = None
      | (On_Delete_Failed_To_Send_Message chat i, Sent_Ok) \<Rightarrow> True
      | (On_Delete_File_And_Answer fid a b q, Sent_Ok) \<Rightarrow> True
      | _ \<Rightarrow> False)"

lemma story_good:
  assumes inv: "send_inv c (add_mset (On_Post_Story q) out)" and new: "map_of (yet_unsent_stories c) (ss_chat_id s, ss_id s) = None"
  shows "good out (send_waiting c (add_mset (On_Post_Story q) out)) (map_option (\<lambda>c'. (c', [])) (on_sent_story s q c))"
proof -
  let ?c = "c\<lparr>yet_unsent_stories := yet_unsent_stories c @ [((ss_chat_id s, ss_id s), q)]\<rparr>"
  have "send_inv c out" using inv inv_unreserved [of "On_Post_Story q"] by simp
  moreover have "pending_ok ?c = pending_ok c" by (intro ext) (simp add: pending_ok_def unsent_of_def)
  ultimately have "send_inv ?c out"
    using new by (simp add: send_inv_def tables_ok_def counts_ok_def under_way_def unsent_in_def unsent_count_def map_of_eq_None_iff)
  moreover have "on_sent_story s q c = Some ?c" using new alist_update_new [OF new] by (simp add: on_sent_story_def Let_def)
  ultimately show ?thesis by (intro goodI [of _ ?c "[]"]) (simp_all add: send_waiting_def)
qed

lemma on_send_result_good:
  assumes inv: "send_inv c (add_mset cb out)" and td: "td_client (send_files c)" and fits: "result_fits cb r c"
  shows "good out (send_waiting c (add_mset cb out)) (on_send_result cb r c)"
proof (cases "\<exists>e. r = Sent_Error e")
  case True
  then show ?thesis using on_send_error_good [OF inv] td by auto
next
  case ok: False
  have plain: "send_inv c out" if "\<And>ch. send_reserved ch cb = 0" using inv inv_unreserved [of cb] that by simp
  show ?thesis
  proof (cases cb)
    case (On_Send_Message chat q)
    then obtain m where m: "r = Sent_Message m" "new_messages chat [m] c"
      using fits ok by (cases r) (auto simp: result_fits_def)
    have "reserves chat 1 q cb" using On_Send_Message by (simp add: reserves_def)
    from register_good [OF inv td this m(2), of False] show ?thesis using On_Send_Message m by (simp add: split_def)
  next
    case (On_Send_Album chat n q)
    then obtain ms where ms: "r = Sent_Messages ms" "n > 0" "length ms = n" "None \<notin> set ms" "new_messages chat (map the ms) c"
      using fits ok by (cases r) (auto simp: result_fits_def)
    have "reserves chat n q cb" using On_Send_Album by (simp add: reserves_def)
    from register_good [OF inv td this ms(5), of True] show ?thesis
      using On_Send_Album ms by (auto simp: split_def list_ex_iff)
  next
    case (On_Forward_Messages chat n q)
    then obtain ms where ms: "r = Sent_Messages ms" "length ms = n" "new_messages chat (map the (filter (\<lambda>m. m \<noteq> None) ms)) c"
      using fits ok by (cases r) (auto simp: result_fits_def)
    from on_forwarded_good [OF inv [unfolded On_Forward_Messages] td ms(3)] show ?thesis
      using On_Forward_Messages ms length_filter_le [of "\<lambda>m. m \<noteq> None" ms] by simp
  next
    case (On_Return_Business_Message q)
    then obtain t where "r = Sent_Business_Message t" using fits ok by (cases r) (auto simp: result_fits_def)
    then show ?thesis using On_Return_Business_Message plain by (intro goodI [of _ c "[Answer_Text t q]"]) (simp_all add: waiting_add)
  next
    case (On_Send_Business_Album q)
    then obtain ts where "r = Sent_Business_Messages ts" using fits ok by (cases r) (auto simp: result_fits_def)
    then show ?thesis using On_Send_Business_Album plain
      by (intro goodI [of _ c "[Answer_Text (json_messages ts) q]"]) (simp_all add: waiting_add)
  next
    case (On_Post_Story q)
    then obtain s where "r = Sent_Story s" "map_of (yet_unsent_stories c) (ss_chat_id s, ss_id s) = None"
      using fits ok by (cases r) (auto simp: result_fits_def)
    then show ?thesis using story_good [OF inv [unfolded On_Post_Story]] On_Post_Story by simp
  next
    case (On_Delete_Failed_To_Send_Message chat i)
    then have "r = Sent_Ok" using fits ok by (cases r) (auto simp: result_fits_def)
    then show ?thesis using On_Delete_Failed_To_Send_Message plain by (intro goodI [of _ c "[]"]) (simp_all add: waiting_add)
  next
    case (On_Delete_File_And_Answer fid a b q)
    then have "r = Sent_Ok" using fits ok by (cases r) (auto simp: result_fits_def)
    then show ?thesis using On_Delete_File_And_Answer plain
      by (intro goodI [of _ "c\<lparr>send_files := on_local_file_delete_finished True (send_files c)\<rparr>" "[Answer_Text a q]"])
        (simp_all add: waiting_add inv_files)
  qed
qed

end
