(* ===== verification/Client_Send_Spec.thy ===== *)
theory Client_Send_Spec
  imports Client_Send_Proofs
begin

section \<open>Runs of the sending of messages\<close>

text \<open>
  The updates of TDLib about accepted messages, closing, and the transition system over all events with the
  theorems about its runs.
\<close>

subsection \<open>A message leaves the table\<close>

text \<open>The state after \<open>extract_yet_unsent_message_query_id\<close>.\<close>

definition extracted :: "int \<Rightarrow> int \<Rightarrow> client_send \<Rightarrow> client_send \<Rightarrow> bool" where
  "extracted chat i c c1 \<longleftrightarrow>
     (\<exists>k. c1 = c\<lparr>yet_unsent_messages := AList.delete (chat, i) (yet_unsent_messages c), yet_unsent_message_count := k\<rparr>) \<and>
     (\<forall>ch. unsent_count ch c1 = unsent_count ch c - (if ch = chat then 1 else 0))"

lemma unsent_split:
  assumes "tables_ok c" and "map_of (yet_unsent_messages c) (chat, i) = Some qid"
  shows "mset (yet_unsent_messages c) = add_mset ((chat, i), qid) (mset (AList.delete (chat, i) (yet_unsent_messages c)))"
proof -
  have "distinct (map fst (yet_unsent_messages c))" using assms(1) by (simp add: tables_ok_def)
  then show ?thesis using assms(2) by (rule mset_alist_split)
qed

lemma extract_ok:
  assumes inv: "send_inv c out" and td: "td_client (send_files c)" and m: "map_of (yet_unsent_messages c) (chat, i) = Some qid"
  shows "\<exists>c1 p. extract_yet_unsent_message_query_id chat i c = Some (qid, c1) \<and> extracted chat i c c1 \<and>
    map_of (pending_send_message_queries c) qid = Some p \<and> pending_ok c qid p"
proof -
  let ?c = "c\<lparr>yet_unsent_messages := AList.delete (chat, i) (yet_unsent_messages c)\<rparr>"
  have tab: "tables_ok c" using inv by (simp add: send_inv_def)
  have "1 \<le> unsent_in chat c" using unsent_split [OF tab m] by (simp add: unsent_in_def)
  moreover have "unsent_in chat c \<le> under_way chat c out" using td by (simp add: under_way_def)
  moreover have "unsent_count chat ?c = int (under_way chat c out)" using inv by (simp add: send_inv_def counts_ok_def unsent_count_def)
  ultimately have "1 \<le> unsent_count chat ?c" by linarith
  from decrease_ok [OF _ this] obtain c1 where c1: "decrease_yet_unsent_message_count chat 1 ?c = Some c1" "same_but_counts ?c c1"
    "\<forall>ch. unsent_count ch c1 = unsent_count ch ?c - (if ch = chat then 1 else 0)" by auto
  have "extracted chat i c c1" using c1(2,3) by (auto simp: extracted_def same_but_counts_def unsent_count_def)
  moreover obtain p where "map_of (pending_send_message_queries c) qid = Some p"
    using tables_okD(5) [OF tab map_of_SomeD [OF m]] by auto
  moreover from this have "pending_ok c qid p" by (rule tables_okD(4) [OF tab])
  ultimately show ?thesis using m c1(1) by (auto simp: extract_yet_unsent_message_query_id_def)
qed

lemma extracted_facts:
  assumes "extracted chat i c c1" and "tables_ok c" and "map_of (yet_unsent_messages c) (chat, i) = Some qid"
  shows "send_files c1 = send_files c" "pending_send_message_queries c1 = pending_send_message_queries c"
    "yet_unsent_stories c1 = yet_unsent_stories c" "current_send_message_query_id c1 = current_send_message_query_id c"
    "yet_unsent_messages c1 = AList.delete (chat, i) (yet_unsent_messages c)"
    "unsent_in ch c = unsent_in ch c1 + (if ch = chat then 1 else 0)" "unsent_of j c = unsent_of j c1 + (if j = qid then 1 else 0)"
proof -
  obtain k where c1: "c1 = c\<lparr>yet_unsent_messages := AList.delete (chat, i) (yet_unsent_messages c), yet_unsent_message_count := k\<rparr>"
    using assms(1) by (auto simp: extracted_def)
  show "send_files c1 = send_files c" "pending_send_message_queries c1 = pending_send_message_queries c"
    "yet_unsent_stories c1 = yet_unsent_stories c" "current_send_message_query_id c1 = current_send_message_query_id c"
    "yet_unsent_messages c1 = AList.delete (chat, i) (yet_unsent_messages c)" by (simp_all add: c1)
  show "unsent_in ch c = unsent_in ch c1 + (if ch = chat then 1 else 0)" "unsent_of j c = unsent_of j c1 + (if j = qid then 1 else 0)"
    using unsent_split [OF assms(2,3)] by (simp_all add: c1 unsent_in_def unsent_of_def)
qed

text \<open>The query is settled with the message, or goes on waiting for the others.\<close>

lemma settled_inv:
  assumes inv: "send_inv c out" and td: "td_client (send_files c)" and m: "map_of (yet_unsent_messages c) (chat, i) = Some qid"
    and ex: "extracted chat i c c1" and p: "map_of (pending_send_message_queries c) qid = Some p" "pending_ok c qid p"
    and c2: "c2 = c1\<lparr>pending_send_message_queries := pend\<rparr>"
    and pend: "distinct (map fst pend)" "\<And>j. j \<noteq> qid \<Longrightarrow> map_of pend j = map_of (pending_send_message_queries c) j"
    and last: "case map_of pend qid of None \<Rightarrow> unsent_of qid c = 1 | Some p' \<Rightarrow> pending_ok c2 qid p'"
  shows "send_inv c2 out"
proof -
  have tab: "tables_ok c" using inv by (simp add: send_inv_def)
  note facts = extracted_facts [OF ex tab m]
  have fields: "send_files c2 = send_files c" "yet_unsent_stories c2 = yet_unsent_stories c" "pending_send_message_queries c2 = pend"
    "current_send_message_query_id c2 = current_send_message_query_id c"
    "yet_unsent_messages c2 = AList.delete (chat, i) (yet_unsent_messages c)" "unsent_count ch c2 = unsent_count ch c1"
    "unsent_in ch c2 = unsent_in ch c1" "unsent_of j c2 = unsent_of j c1" for ch j
    using c2 facts(1-5) by (simp_all add: unsent_count_def unsent_in_def unsent_of_def)
  have "counts_ok c2 out"
    using inv ex td facts(6) by (auto simp: send_inv_def counts_ok_def under_way_def fields extracted_def)
  moreover have "distinct (map fst (yet_unsent_messages c2))"
    using tab by (simp add: fields tables_ok_def AList.distinct_delete)
  moreover have "pending_ok c2 j p'" if "map_of pend j = Some p'" for j p'
  proof (cases "j = qid")
    case False
    then have "pending_ok c j p'" using that pend(2) tables_okD(4) [OF tab] by simp
    moreover have "unsent_of j c2 = unsent_of j c" using False facts(7) [of j] fields(8) by simp
    ultimately show ?thesis using pending_ok_cong fields(4) by blast
  qed (use last that in simp)
  moreover have "map_of pend (snd x) \<noteq> None" if x: "x \<in> set (yet_unsent_messages c2)" for x
  proof (cases "snd x = qid")
    case True
    then have "x \<in># filter_mset (\<lambda>x. snd x = qid) (mset (yet_unsent_messages c2))" using x by simp
    then have "unsent_of qid c2 \<noteq> 0" unfolding unsent_of_def by (metis empty_not_add_mset multi_member_split size_eq_0_iff_empty)
    then have "unsent_of qid c \<noteq> 1" using facts(7) [of qid] fields(8) by simp
    then show ?thesis using last True by (auto split: option.splits)
  next
    case False
    have "x \<in> set (yet_unsent_messages c)" using x by (auto simp: fields AList.delete_eq)
    then show ?thesis using False pend(2) tables_okD(5) [OF tab] by simp
  qed
  ultimately show ?thesis using tab td pend(1) by (simp add: send_inv_def tables_ok_def fields)
qed

lemma waiting_pending:
  assumes "distinct (map fst (pending_send_message_queries c))" and "map_of (pending_send_message_queries c) qid = Some p"
    and "yet_unsent_stories c1 = yet_unsent_stories c" "pending_send_message_queries c1 = pending_send_message_queries c"
  shows "send_waiting c out = add_mset (ps_query p) (send_waiting (erase_pending qid c1) out)"
    "ps_query p' = ps_query p \<Longrightarrow> send_waiting (set_pending qid p' c1) out = send_waiting c out"
  using mset_alist_split [OF assms(1,2)] mset_alist_replace [OF assms(1,2)] assms(3,4)
  by (simp_all add: send_waiting_def erase_pending_def set_pending_def)

lemma erase_ok:
  assumes inv: "send_inv c out" and td: "td_client (send_files c)" and m: "map_of (yet_unsent_messages c) (chat, i) = Some qid"
    and ex: "extracted chat i c c1" and p: "map_of (pending_send_message_queries c) qid = Some p" "pending_ok c qid p"
    and one: "ps_awaited_message_count p = 1"
  shows "send_inv (erase_pending qid c1) out" "send_waiting c out = add_mset (ps_query p) (send_waiting (erase_pending qid c1) out)"
    "files_view (send_files (erase_pending qid c1)) = files_view (send_files c)"
proof -
  have tab: "tables_ok c" using inv by (simp add: send_inv_def)
  note facts = extracted_facts [OF ex tab m]
  have d: "distinct (map fst (pending_send_message_queries c))" using tab by (simp add: tables_ok_def)
  show "send_inv (erase_pending qid c1) out"
  proof (rule settled_inv [OF inv td m ex p])
    show "erase_pending qid c1 = c1\<lparr>pending_send_message_queries := AList.delete qid (pending_send_message_queries c)\<rparr>"
      by (simp add: erase_pending_def facts(2))
    show "case map_of (AList.delete qid (pending_send_message_queries c)) qid of None \<Rightarrow> unsent_of qid c = 1
        | Some p' \<Rightarrow> pending_ok (erase_pending qid c1) qid p'" using p(2) one by (simp add: AList.delete_conv' pending_ok_def)
  qed (simp_all add: d AList.distinct_delete)
  show "send_waiting c out = add_mset (ps_query p) (send_waiting (erase_pending qid c1) out)"
    by (rule waiting_pending(1) [OF d p(1) facts(3,2)])
  show "files_view (send_files (erase_pending qid c1)) = files_view (send_files c)" by (simp add: erase_pending_def facts(1))
qed

lemma settle_multisend_good:
  assumes inv: "send_inv c out" and td: "td_client (send_files c)" and m: "map_of (yet_unsent_messages c) (chat, i) = Some qid"
    and ex: "extracted chat i c c1" and p: "map_of (pending_send_message_queries c) qid = Some p" "pending_ok c qid p"
    and p': "ps_query p' = ps_query p" "ps_is_multisend p'" "ps_awaited_message_count p' = ps_awaited_message_count p - 1"
      "ps_error p' = None \<longrightarrow> int (length (ps_messages p')) + ps_awaited_message_count p' = ps_total_message_count p'"
  shows "good out (send_waiting c out) (Some (settle_multisend qid p' c1))"
    "files_view (send_files (fst (settle_multisend qid p' c1))) = files_view (send_files c)"
proof -
  have tab: "tables_ok c" using inv by (simp add: send_inv_def)
  note facts = extracted_facts [OF ex tab m]
  have d: "distinct (map fst (pending_send_message_queries c))" using tab by (simp add: tables_ok_def)
  show "good out (send_waiting c out) (Some (settle_multisend qid p' c1))"
  proof (cases "ps_awaited_message_count p' = 0")
    case True
    then have "ps_awaited_message_count p = 1" using p'(3) by simp
    note erased = erase_ok [OF inv td m ex p this]
    then show ?thesis using True p'(1)
      by (intro goodI [of _ "erase_pending qid c1" "snd (settle_multisend qid p' c1)"])
        (auto simp: settle_multisend_def fail_send_def split: option.split)
  next
    case False
    have "unsent_of qid (set_pending qid p' c1) = unsent_of qid c1"
      "current_send_message_query_id (set_pending qid p' c1) = current_send_message_query_id c"
      by (simp_all add: unsent_of_def set_pending_def facts(4))
    moreover have "ps_awaited_message_count p' = int (unsent_of qid c1)" "0 < ps_awaited_message_count p'"
      using p(2) p'(3) False facts(7) [of qid] by (auto simp: pending_ok_def)
    ultimately have "pending_ok (set_pending qid p' c1) qid p'" using p(2) p'(2,4) by (simp add: pending_ok_def)
    then have "send_inv (set_pending qid p' c1) out"
      using facts(2) d
      by (intro settled_inv [OF inv td m ex p, of _ "AList.update qid p' (pending_send_message_queries c)"])
        (simp_all add: set_pending_def AList.distinct_update AList.update_conv')
    moreover have "send_waiting (set_pending qid p' c1) out = send_waiting c out"
      by (rule waiting_pending(2) [OF d p(1) facts(3,2) p'(1)])
    ultimately show ?thesis using False by (intro goodI [of _ "set_pending qid p' c1" "[]"]) (simp_all add: settle_multisend_def)
  qed
  show "files_view (send_files (fst (settle_multisend qid p' c1))) = files_view (send_files c)"
    by (simp add: settle_multisend_def erase_pending_def set_pending_def facts(1))
qed

subsection \<open>Updates\<close>

lemma on_message_send_succeeded_good:
  assumes inv: "send_inv c out" and td: "td_client (send_files c)" and m: "map_of (yet_unsent_messages c) (sm_chat_id m, old) = Some qid"
    and pos: "0 < sm_id m"
  shows "good out (send_waiting c out) (on_message_send_succeeded now m old c)"
proof -
  obtain c1 p where ex: "extract_yet_unsent_message_query_id (sm_chat_id m) old c = Some (qid, c1)" "extracted (sm_chat_id m) old c c1"
    and p: "map_of (pending_send_message_queries c) qid = Some p" "pending_ok c qid p" using extract_ok [OF inv td m] by blast
  have tab: "tables_ok c" using inv by (simp add: send_inv_def)
  note facts = extracted_facts [OF ex(2) tab m]
  have p1: "map_of (pending_send_message_queries c1) qid = Some p" using p(1) facts(2) by simp
  show ?thesis
  proof (cases "ps_is_multisend p")
    case True
    let ?p = "p\<lparr>ps_messages := ps_messages p @
        [if q_method (ps_query p) = ''forwardmessages'' \<or> q_method (ps_query p) = ''copymessages''
         then json_message_id (sm_id m) else sm_json m None],
      ps_awaited_message_count := ps_awaited_message_count p - 1\<rparr>"
    have "good out (send_waiting c out) (Some (settle_multisend qid ?p c1))"
      using p(2) True by (intro settle_multisend_good(1) [OF inv td m ex(2) p]) (auto simp: pending_ok_def)
    moreover have "on_message_send_succeeded now m old c = Some (settle_multisend qid ?p c1)"
      using pos ex(1) p1 True by (simp add: on_message_send_succeeded_def)
    ultimately show ?thesis by (simp only:)
  next
    case False
    then have one: "ps_awaited_message_count p = 1" using p(2) by (simp add: pending_ok_def)
    note erased = erase_ok [OF inv td m ex(2) p one]
    show ?thesis
    proof (cases "ps_remove_local_file p \<and> \<not> is_closing (send_files c1) \<and> sm_file_id m > 0")
      case True
      let ?cb = "On_Delete_File_And_Answer (sm_file_id m) (sm_json m (Some True)) (sm_json m (Some False)) (ps_query p)"
      let ?c2 = "erase_pending qid c1"
      let ?c3 = "?c2\<lparr>send_files := on_local_file_delete_attempt (send_files ?c2)\<rparr>"
      have "send_inv ?c3 (add_mset ?cb out)" using erased(1) by (simp add: inv_files inv_unreserved)
      from request_good [OF this, of now "Delete_Uploaded_File (sm_file_id m)"]
      have "good out (send_waiting ?c3 (add_mset ?cb out)) (request now (Delete_Uploaded_File (sm_file_id m)) ?cb ?c3)" by simp
      moreover have "send_waiting ?c3 (add_mset ?cb out) = send_waiting c out"
        using erased(2) inv_files(2) [of "on_local_file_delete_attempt (send_files ?c2)" ?c2 out] by (simp add: waiting_add)
      moreover have "on_message_send_succeeded now m old c = request now (Delete_Uploaded_File (sm_file_id m)) ?cb ?c3"
        using pos ex(1) p1 False True by (simp add: on_message_send_succeeded_def Let_def)
      ultimately show ?thesis by (simp only:)
    next
      case plain: False
      let ?t = "if q_method (ps_query p) = ''copymessage'' then json_message_id (sm_id m)
        else sm_json m (if ps_remove_local_file p then Some False else None)"
      have cond: "(ps_remove_local_file p \<and> \<not> is_closing (send_files c1) \<and> 0 < sm_file_id m) = False"
        using plain by blast
      have "on_message_send_succeeded now m old c = Some (erase_pending qid c1, [Answer_Text ?t (ps_query p)])"
        using pos ex(1) p1 False one unfolding on_message_send_succeeded_def by (simp add: cond)
      then show ?thesis using erased(1,2) by (intro goodI [of _ "erase_pending qid c1" "[Answer_Text ?t (ps_query p)]"]) simp_all
    qed
  qed
qed

lemma good_then:
  assumes "good out qs (Some (c2, ms))" and "send_callbacks ms = {#}" and "good out (send_waiting c2 out) r"
  shows "good out qs (map_option (\<lambda>(c3, ms'). (c3, ms @ ms')) r)"
  using assms by (auto simp: good_def add.assoc add.commute)

lemma settle_multisend_callbacks: "send_callbacks (snd (settle_multisend qid p c)) = {#}"
  by (simp add: settle_multisend_def fail_send_def split: option.split)

lemma on_message_send_failed_good:
  assumes inv: "send_inv c out" and td: "td_client (send_files c)" and m: "map_of (yet_unsent_messages c) (chat, old) = Some qid"
  shows "good out (send_waiting c out) (on_message_send_failed now chat old new e c)"
proof -
  obtain c1 p where ex: "extract_yet_unsent_message_query_id chat old c = Some (qid, c1)" "extracted chat old c c1"
    and p: "map_of (pending_send_message_queries c) qid = Some p" "pending_ok c qid p" using extract_ok [OF inv td m] by blast
  have tab: "tables_ok c" using inv by (simp add: send_inv_def)
  note facts = extracted_facts [OF ex(2) tab m]
  have p1: "map_of (pending_send_message_queries c1) qid = Some p" using p(1) facts(2) by simp
  let ?p = "p\<lparr>ps_error := multisend_error e p, ps_awaited_message_count := ps_awaited_message_count p - 1\<rparr>"
  define r where "r = (if ps_is_multisend p then settle_multisend qid ?p c1 else (erase_pending qid c1, [fail_send e (ps_query p)]))"
  have err: "multisend_error e p \<noteq> None" by (auto simp: multisend_error_def)
  have r: "good out (send_waiting c out) (Some r)" "send_callbacks (snd r) = {#}"
  proof -
    show "good out (send_waiting c out) (Some r)"
    proof (cases "ps_is_multisend p")
      case True
      then show ?thesis using settle_multisend_good(1) [OF inv td m ex(2) p, of ?p] err by (simp add: r_def)
    next
      case False
      then have "ps_awaited_message_count p = 1" using p(2) by (simp add: pending_ok_def)
      note erased = erase_ok [OF inv td m ex(2) p this]
      then show ?thesis using False by (intro goodI [of _ "erase_pending qid c1" "[fail_send e (ps_query p)]"]) (simp_all add: r_def)
    qed
    show "send_callbacks (snd r) = {#}" by (simp add: r_def settle_multisend_callbacks)
  qed
  have eq: "on_message_send_failed now chat old new e c =
      (if new \<noteq> 0 \<and> \<not> is_closing (send_files (fst r))
       then map_option (\<lambda>(c3, ms'). (c3, snd r @ ms'))
         (request now (Delete_Messages chat new) (On_Delete_Failed_To_Send_Message chat new) (fst r))
       else Some r)"
  proof (cases "ps_is_multisend p")
    case True
    then show ?thesis using ex(1) p1 by (simp add: on_message_send_failed_def r_def split_def)
  next
    case False
    then have "ps_awaited_message_count p = 1" using p(2) by (simp add: pending_ok_def)
    then show ?thesis using False ex(1) p1 by (simp add: on_message_send_failed_def r_def split_def)
  qed
  show ?thesis
  proof (cases "new \<noteq> 0 \<and> \<not> is_closing (send_files (fst r))")
    case True
    let ?cb = "On_Delete_Failed_To_Send_Message chat new"
    have "send_inv (fst r) out" using r by (cases r) (auto simp: good_def)
    then have "send_inv (fst r) (add_mset ?cb out)" by (simp add: inv_unreserved)
    from request_good [OF this, of now "Delete_Messages chat new"]
    have "good out (send_waiting (fst r) out) (request now (Delete_Messages chat new) ?cb (fst r))" by (simp add: waiting_add)
    from good_then [OF _ r(2) this] show ?thesis using r(1) True unfolding eq by simp
  qed (use r(1) eq in auto)
qed

lemma stories_inv:
  assumes "send_inv c out" and "distinct (map fst ss)"
  shows "send_inv (c\<lparr>yet_unsent_stories := ss\<rparr>) out"
proof -
  have "pending_ok (c\<lparr>yet_unsent_stories := ss\<rparr>) = pending_ok c" by (intro ext) (simp add: pending_ok_def unsent_of_def)
  then show ?thesis using assms by (auto simp: send_inv_def tables_ok_def counts_ok_def under_way_def unsent_in_def unsent_count_def)
qed

lemma story_sent_good:
  assumes inv: "send_inv c out" and q: "map_of (yet_unsent_stories c) k = Some q"
    and ms: "settled_queries ms = {#q#}" "send_callbacks ms = {#}"
  shows "good out (send_waiting c out) (Some (c\<lparr>yet_unsent_stories := AList.delete k (yet_unsent_stories c)\<rparr>, ms))"
proof -
  have d: "distinct (map fst (yet_unsent_stories c))" using inv tables_okD(2) by (auto simp: send_inv_def)
  have "send_waiting c out = add_mset q (send_waiting (c\<lparr>yet_unsent_stories := AList.delete k (yet_unsent_stories c)\<rparr>) out)"
    using mset_alist_split [OF d q] by (simp add: send_waiting_def)
  then show ?thesis using stories_inv [OF inv] d ms by (intro goodI [OF refl]) (simp_all add: AList.distinct_delete)
qed

lemma send_closed_outputs:
  "settled_queries (map (\<lambda>(qid, p). Conclude_Send a (ps_query p)) xs) = image_mset (\<lambda>x. ps_query (snd x)) (mset xs)"
  "send_callbacks (map (\<lambda>(qid, p). Conclude_Send a (ps_query p)) xs) = {#}"
  by (induction xs) auto

lemma send_on_closed_good:
  assumes inv: "send_inv c out" and td: "td_client (send_files c)" and cl: "is_closing (send_files c)"
  shows "good out (send_waiting c out) (send_on_closed now c)"
proof -
  obtain a where a: "closing_answer now (send_files c) = Some a"
    using get_closing_error_Some [OF cl, of now] by (auto simp: closing_answer_def)
  let ?c = "c\<lparr>send_files := (send_files c)\<lparr>td_client := False\<rparr>, pending_send_message_queries := [], yet_unsent_message_count := [],
    yet_unsent_messages := []\<rparr>"
  let ?ms = "map (\<lambda>(query_id, p). Conclude_Send a (ps_query p)) (pending_send_message_queries c)"
  have "is_closing ((send_files c)\<lparr>td_client := False\<rparr>)" using cl by (simp add: is_closing_def)
  then have "send_inv ?c out"
    using inv by (simp add: send_inv_def tables_ok_def counts_ok_def under_way_def unsent_count_def)
  then show ?thesis using a td cl
    by (intro goodI [of _ ?c ?ms]) (simp_all add: send_on_closed_def send_closed_outputs send_waiting_def)
qed

subsection \<open>Events\<close>

text \<open>
  What reaches this part of a client. \<open>Ev_Files\<close> is any change by the rest of the client to the record it shares with
  this part, and \<open>Ev_Closed\<close> the authorization state that says TDLib has closed.
\<close>

datatype send_event =
    Ev_Send_Query query
  | Ev_Before_Forward int query
  | Ev_Send int query
  | Ev_Media_Group int nat query
  | Ev_Forward int nat query
  | Ev_Business query
  | Ev_Business_Album query
  | Ev_Story query
  | Ev_Result send_callback send_result
  | Ev_Succeeded sent_message int
  | Ev_Failed int int int td_error
  | Ev_Deleted int int "bool option"
  | Ev_Story_Succeeded sent_story int
  | Ev_Story_Failed int int td_error
  | Ev_Files client_files
  | Ev_Closed

fun send_step :: "real \<Rightarrow> send_event \<Rightarrow> client_send \<Rightarrow> send_outcome" where
  "send_step now (Ev_Send_Query q) c = Some (process_send_message_query q c)"
| "send_step now (Ev_Before_Forward chat q) c = Some (before_forward chat q c)"
| "send_step now (Ev_Send chat q) c = do_send_message now chat q c"
| "send_step now (Ev_Media_Group chat n q) c = send_media_group now chat n q c"
| "send_step now (Ev_Forward chat n q) c = forward_messages now chat n q c"
| "send_step now (Ev_Business q) c = send_business_message now q c"
| "send_step now (Ev_Business_Album q) c = send_business_album now q c"
| "send_step now (Ev_Story q) c = post_story now q c"
| "send_step now (Ev_Result cb r) c = on_send_result cb r c"
| "send_step now (Ev_Succeeded m old) c = on_message_send_succeeded now m old c"
| "send_step now (Ev_Failed chat old new e) c = on_message_send_failed now chat old new e c"
| "send_step now (Ev_Deleted chat i left) c = delete_uncached_message now chat i left c"
| "send_step now (Ev_Story_Succeeded s old) c = on_story_send_succeeded s old c"
| "send_step now (Ev_Story_Failed chat i e) c = on_story_send_failed chat i e c"
| "send_step now (Ev_Files f) c = Some (c\<lparr>send_files := f\<rparr>, [])"
| "send_step now Ev_Closed c = send_on_closed now c"

fun event_taken :: "send_event \<Rightarrow> query multiset" where
  "event_taken (Ev_Send_Query q) = {#q#}"
| "event_taken (Ev_Before_Forward chat q) = {#q#}"
| "event_taken (Ev_Send chat q) = {#q#}"
| "event_taken (Ev_Media_Group chat n q) = {#q#}"
| "event_taken (Ev_Forward chat n q) = {#q#}"
| "event_taken (Ev_Business q) = {#q#}"
| "event_taken (Ev_Business_Album q) = {#q#}"
| "event_taken (Ev_Story q) = {#q#}"
| "event_taken _ = {#}"

text \<open>
  What TDLib guarantees: a result answers a request that is outstanding and has its type, accepted messages are new,
  updates are about messages and stories it accepted, and the server number of a sent message is positive. Of the rest
  of the client: it does not close the connection behind this part's back and does not undo closing.
\<close>

fun send_legal :: "send_event \<Rightarrow> client_send \<Rightarrow> send_callback multiset \<Rightarrow> bool" where
  "send_legal (Ev_Result cb r) c out \<longleftrightarrow> cb \<in># out \<and> td_client (send_files c) \<and> result_fits cb r c"
| "send_legal (Ev_Succeeded m old) c out \<longleftrightarrow> 0 < sm_id m \<and> map_of (yet_unsent_messages c) (sm_chat_id m, old) \<noteq> None"
| "send_legal (Ev_Failed chat old new e) c out \<longleftrightarrow> map_of (yet_unsent_messages c) (chat, old) \<noteq> None"
| "send_legal (Ev_Story_Succeeded s old) c out \<longleftrightarrow> map_of (yet_unsent_stories c) (ss_chat_id s, old) \<noteq> None"
| "send_legal (Ev_Story_Failed chat i e) c out \<longleftrightarrow> map_of (yet_unsent_stories c) (chat, i) \<noteq> None"
| "send_legal (Ev_Files f) c out \<longleftrightarrow> td_client f = td_client (send_files c) \<and> (is_closing (send_files c) \<longrightarrow> is_closing f)"
| "send_legal Ev_Closed c out \<longleftrightarrow> td_client (send_files c) \<and> is_closing (send_files c)"
| "send_legal _ c out \<longleftrightarrow> True"

fun event_used :: "send_event \<Rightarrow> send_callback multiset" where
  "event_used (Ev_Result cb r) = {#cb#}"
| "event_used _ = {#}"

text \<open>The runs, with the outstanding requests, the queries taken and the queries answered or handed on.\<close>

inductive send_reach :: "client_send \<Rightarrow> send_callback multiset \<Rightarrow> query multiset \<Rightarrow> query multiset \<Rightarrow> bool" where
  send_start: "td_client f \<Longrightarrow> send_reach (new_client_send f) {#} {#} {#}"
| send_event: "send_reach c out taken settled \<Longrightarrow> send_legal ev c out \<Longrightarrow> send_step now ev c = Some (c', ms) \<Longrightarrow>
    send_reach c' (out - event_used ev + send_callbacks ms) (taken + event_taken ev) (settled + settled_queries ms)"

inductive_cases send_reachE: "send_reach c out taken settled"

subsection \<open>Every event goes well\<close>

lemma pass_on_good: "send_inv c out \<Longrightarrow> good out (add_mset q (send_waiting c out)) (Some (c, [Pass_On q]))"
  by (intro goodI [OF refl]) simp_all

lemma plain_request_good:
  assumes inv: "send_inv c out" and cb: "\<And>ch. send_reserved ch cb = 0" "send_cb_query cb = {#q#}"
  shows "good out (add_mset q (send_waiting c out)) (request now f cb c)"
  using request_good [of c cb out now f] inv_unreserved [of cb c out] inv cb by (simp add: waiting_add)

lemma inv_td: "send_inv c out \<Longrightarrow> map_of (yet_unsent_messages c) k = Some qid \<Longrightarrow> td_client (send_files c)"
  by (auto simp: send_inv_def tables_ok_def)

lemma files_good:
  assumes inv: "send_inv c out" and f: "td_client f = td_client (send_files c)" "is_closing (send_files c) \<longrightarrow> is_closing f"
  shows "good out (send_waiting c out) (Some (c\<lparr>send_files := f\<rparr>, []))"
proof -
  have "pending_ok (c\<lparr>send_files := f\<rparr>) = pending_ok c" by (intro ext) (simp add: pending_ok_def unsent_of_def)
  then have "send_inv (c\<lparr>send_files := f\<rparr>) out"
    using inv f by (auto simp: send_inv_def tables_ok_def counts_ok_def under_way_def unsent_in_def unsent_count_def)
  then show ?thesis by (intro goodI [OF refl]) (simp_all add: send_waiting_def)
qed

lemma send_step_good:
  assumes inv: "send_inv c out" and legal: "send_legal ev c out"
  shows "good (out - event_used ev) (send_waiting c out + event_taken ev) (send_step now ev c)"
proof (cases ev)
  case (Ev_Send_Query q)
  then show ?thesis using flood_good [OF inv] pass_on_good [OF inv]
    by (simp add: process_send_message_query_def split: option.split)
next
  case (Ev_Before_Forward chat q)
  then show ?thesis using flood_good [OF inv] pass_on_good [OF inv] by (simp add: before_forward_def)
next
  case (Ev_Send chat q)
  then show ?thesis using reserve_good [OF inv, of chat 1 q] by (simp add: do_send_message_def reserves_def)
next
  case (Ev_Media_Group chat n q)
  then show ?thesis using reserve_good [OF inv, of chat n q] by (simp add: send_media_group_def reserves_def)
next
  case (Ev_Forward chat n q)
  then show ?thesis using reserve_good [OF inv, of chat n q] by (simp add: forward_messages_def reserves_def)
next
  case (Ev_Business q)
  then show ?thesis using plain_request_good [OF inv] by (simp add: send_business_message_def)
next
  case (Ev_Business_Album q)
  then show ?thesis using plain_request_good [OF inv] by (simp add: send_business_album_def)
next
  case (Ev_Story q)
  then show ?thesis using plain_request_good [OF inv] by (simp add: post_story_def)
next
  case (Ev_Result cb r)
  then obtain out' where out: "out = add_mset cb out'" using legal by (auto dest: multi_member_split)
  then show ?thesis using on_send_result_good [of c cb out' r] inv legal Ev_Result by simp
next
  case (Ev_Succeeded m old)
  then obtain qid where "map_of (yet_unsent_messages c) (sm_chat_id m, old) = Some qid" "0 < sm_id m" using legal by auto
  then show ?thesis using on_message_send_succeeded_good [OF inv inv_td [OF inv]] Ev_Succeeded by simp
next
  case (Ev_Failed chat old new e)
  then obtain qid where "map_of (yet_unsent_messages c) (chat, old) = Some qid" using legal by auto
  then show ?thesis using on_message_send_failed_good [OF inv inv_td [OF inv]] Ev_Failed by simp
next
  case (Ev_Deleted chat i left)
  have "good out (send_waiting c out) (delete_uncached_message now chat i left c)"
  proof (cases "map_of (yet_unsent_messages c) (chat, i)")
    case None
    then show ?thesis using inv by (intro goodI [of _ c "[]"]) (simp_all add: delete_uncached_message_def)
  next
    case (Some qid)
    then show ?thesis using on_message_send_failed_good [OF inv inv_td [OF inv]] by (simp add: delete_uncached_message_def)
  qed
  then show ?thesis using Ev_Deleted by simp
next
  case (Ev_Story_Succeeded s old)
  then show ?thesis using story_sent_good [OF inv] legal by (auto simp: on_story_send_succeeded_def)
next
  case (Ev_Story_Failed chat i e)
  then show ?thesis using story_sent_good [OF inv] legal by (auto simp: on_story_send_failed_def)
next
  case (Ev_Files f)
  then show ?thesis using files_good [OF inv] legal by simp
next
  case Ev_Closed
  then show ?thesis using send_on_closed_good [OF inv] legal by simp
qed

lemma send_reach_books:
  "send_reach c out taken settled \<Longrightarrow> send_inv c out \<and> taken = settled + send_waiting c out"
proof (induction rule: send_reach.induct)
  case (send_start f)
  then show ?case
    by (simp add: send_inv_def tables_ok_def counts_ok_def new_client_send_def under_way_def unsent_in_def unsent_count_def send_waiting_def)
next
  case (send_event c out taken settled ev now c' ms)
  then have "good (out - event_used ev) (send_waiting c out + event_taken ev) (Some (c', ms))"
    using send_step_good [of c out ev now] by simp
  then show ?case using send_event.IH by (auto simp: good_def ac_simps)
qed

lemmas send_reach_inv = send_reach_books [THEN conjunct1]

subsection \<open>Runs\<close>

lemma reserve_floods:
  assumes "reserves chat n q cb"
  shows "reserve now chat n f cb q c = Some (fail_query_flood_limit_exceeded q c) \<longleftrightarrow>
    unsent_count chat c \<ge> max_concurrently_sent_chat_messages"
  using reserves_facts(3) [OF assms]
  by (auto simp: reserve_def request_def fail_query_flood_limit_exceeded_def fail_send_def bind_eq_Some_conv split: option.splits if_splits)

lemma closed_waiting:
  assumes "send_on_closed now c = Some (c', ms)"
  shows "send_waiting c' out = image_mset snd (mset (yet_unsent_stories c)) + send_held out"
    "settled_queries ms = image_mset (\<lambda>x. ps_query (snd x)) (mset (pending_send_message_queries c))"
    "yet_unsent_stories c' = yet_unsent_stories c" "unsent_count chat c' = 0"
  using assms by (auto simp: send_on_closed_def send_closed_outputs send_waiting_def unsent_count_def split: if_splits)

text \<open>The answer to a query for several messages has all of them.\<close>

lemma group_answer_complete:
  assumes reach: "send_reach c out taken settled" and legal: "send_legal (Ev_Succeeded m old) c out"
    and k: "map_of (yet_unsent_messages c) (sm_chat_id m, old) = Some qid" and p: "map_of (pending_send_message_queries c) qid = Some p"
    and multi: "ps_is_multisend p" "ps_error p = None" "ps_awaited_message_count p = 1"
  shows "\<exists>c' texts. send_step now (Ev_Succeeded m old) c = Some (c', [Answer_Text (json_messages texts) (ps_query p)]) \<and>
    int (length texts) = ps_total_message_count p"
proof -
  note inv = send_reach_inv [OF reach]
  have tab: "tables_ok c" using inv by (simp add: send_inv_def)
  from extract_ok [OF inv inv_td [OF inv k] k] obtain c1 where
    c1: "extract_yet_unsent_message_query_id (sm_chat_id m) old c = Some (qid, c1)" "extracted (sm_chat_id m) old c c1" by blast
  have "map_of (pending_send_message_queries c1) qid = Some p" using p extracted_facts(2) [OF c1(2) tab k] by simp
  moreover have "int (length (ps_messages p)) + 1 = ps_total_message_count p"
    using tables_okD(4) [OF tab p] multi by (simp add: pending_ok_def)
  ultimately show ?thesis
    using legal c1(1) multi by (auto simp: on_message_send_succeeded_def settle_multisend_def intro!: exI)
qed

subsection \<open>Deleting local copies\<close>





definition asked_functions :: "send_output list \<Rightarrow> send_function set" where
  "asked_functions ms = {f. \<exists>cb. Send_Request f cb \<in> set ms}"

lemma asked_functions_simps [simp]:
  "asked_functions [] = {}" "asked_functions (ms @ ms') = asked_functions ms \<union> asked_functions ms'"
  "asked_functions (Send_Request f cb # ms) = insert f (asked_functions ms)" "asked_functions (Answer_Text t q # ms) = asked_functions ms"
  "asked_functions (Retry_Later a b q # ms) = asked_functions ms" "asked_functions (Pass_On q # ms) = asked_functions ms"
  "asked_functions (fail_send e q # ms) = asked_functions ms"
  by (auto simp: asked_functions_def fail_send_def)












subsection \<open>Properties\<close>

text \<open>
  (C19) Along every run of the sending of messages each event TDLib or a query may bring is handled without a failed
  check, and every query taken is answered or handed on exactly once or waits for a message, a story or an
  outstanding request.
\<close>

theorem send_requests_settled:
  assumes "send_reach c out taken settled"
  shows "(send_legal ev c out \<longrightarrow> (\<exists>c' ms. send_step now ev c = Some (c', ms))) \<and> taken = settled + send_waiting c out"
  using send_reach_books [OF assms] send_step_good [of c out ev now] by (auto simp: good_def)

definition sample_send_query :: query where
  "sample_send_query = new_query [] ''1:a'' False ''sendmessage'' [] [] [] InvalidAddress False"

definition sample_sent_message :: sent_message where
  "sample_sent_message = \<lparr>sm_chat_id = 5, sm_id = 1048576, sm_file_id = 0, sm_json = (\<lambda>b. ''{}'')\<rparr>"

definition sample_requested :: client_send where
  "sample_requested = (new_client_send sample_client)\<lparr>yet_unsent_message_count := [(5, 1)]\<rparr>"

definition sample_sent :: client_send where
  "sample_sent = registered sample_send_query False [sample_sent_message] sample_requested"

lemma sample_not_closing: "is_closing sample_client = False" "td_client sample_client"
  by (simp_all add: is_closing_def sample_client_def new_client_files_def new_webhook_def)

lemma sample_requested_reached: "send_reach sample_requested {#On_Send_Message 5 sample_send_query#} {#sample_send_query#} {#}"
proof -
  have start: "send_reach (new_client_send sample_client) {#} {#} {#}" by (rule send_start) (rule sample_not_closing)
  have "send_step 0 (Ev_Send 5 sample_send_query) (new_client_send sample_client) =
      Some (sample_requested, [Send_Request (Send_Message 5) (On_Send_Message 5 sample_send_query)])"
    by (simp add: do_send_message_def reserve_def request_def unsent_count_def new_client_send_def sample_requested_def
        max_concurrently_sent_chat_messages_def sample_not_closing)
  from send_event [OF start _ this] show ?thesis by simp
qed

lemma sample_sent_reached: "send_reach sample_sent {#} {#sample_send_query#} {#}"
proof -
  let ?ev = "Ev_Result (On_Send_Message 5 sample_send_query) (Sent_Message sample_sent_message)"
  have new: "new_messages 5 [sample_sent_message] sample_requested"
    by (simp add: new_messages_def sample_requested_def new_client_send_def sample_sent_message_def)
  then have "send_legal ?ev sample_requested {#On_Send_Message 5 sample_send_query#}"
    by (simp add: result_fits_def sample_requested_def new_client_send_def sample_not_closing)
  moreover have "tables_ok sample_requested"
    using send_reach_inv [OF sample_requested_reached] by (simp add: send_inv_def)
  from register_eq [OF this new, of sample_send_query False]
  have "send_step 0 ?ev sample_requested = Some (sample_sent, [])" by (simp add: sample_sent_def split_def)
  ultimately show ?thesis using send_event [OF sample_requested_reached, of ?ev] by simp
qed

theorem send_requests_settled_witness:
  "(\<exists>c' ms. send_step 0 (Ev_Succeeded sample_sent_message 1048576) sample_sent = Some (c', ms)) \<and>
   {#sample_send_query#} = {#} + send_waiting sample_sent {#}"
proof -
  have "send_legal (Ev_Succeeded sample_sent_message 1048576) sample_sent {#}"
    by (simp add: sample_sent_def registered_def sample_requested_def new_client_send_def message_key_def sample_sent_message_def Let_def)
  then show ?thesis
    using send_requests_settled [OF sample_sent_reached, of "Ev_Succeeded sample_sent_message 1048576" 0] by simp
qed





text \<open>
  (C20) The number the client keeps for a chat is exactly the number of messages of the chat that are under way, as a
  request or as accepted and not yet sent, and sending, a media group and forwarding are refused exactly when there
  are 310 of them.
\<close>

theorem send_limit_exact:
  assumes "send_reach c out taken settled"
  shows "unsent_count chat c = int (under_way chat c out) \<and>
    (do_send_message now chat q c = Some (fail_query_flood_limit_exceeded q c) \<longleftrightarrow> 310 \<le> under_way chat c out) \<and>
    (send_media_group now chat n q c = Some (fail_query_flood_limit_exceeded q c) \<longleftrightarrow> 310 \<le> under_way chat c out) \<and>
    (forward_messages now chat n q c = Some (fail_query_flood_limit_exceeded q c) \<longleftrightarrow> 310 \<le> under_way chat c out)"
proof -
  have count: "unsent_count chat c = int (under_way chat c out)"
    using send_reach_inv [OF assms] by (simp add: send_inv_def counts_ok_def)
  have "reserve now chat k f cb q c = Some (fail_query_flood_limit_exceeded q c) \<longleftrightarrow> 310 \<le> under_way chat c out"
    if "reserves chat k q cb" for k f cb
    using reserve_floods [OF that] count by (simp add: max_concurrently_sent_chat_messages_def)
  then show ?thesis using count
    by (simp add: do_send_message_def send_media_group_def forward_messages_def reserves_def)
qed

theorem send_limit_exact_witness:
  "unsent_count 5 sample_sent = int (under_way 5 sample_sent {#}) \<and> under_way 5 sample_sent {#} = 1"
proof -
  have "unsent_count 5 sample_sent = 1"
    by (simp add: sample_sent_def registered_def sample_requested_def new_client_send_def unsent_count_def Let_def)
  then show ?thesis using send_limit_exact [OF sample_sent_reached, of 5] by simp
qed

text \<open>
  The tables stay well formed: no key appears twice, every accepted message belongs to a pending query, every
  pending query waits for exactly the messages of the table that name it, at least for one, a query for a single message
  for exactly one, and one without an error has collected all its other messages.
\<close>

lemma send_tables_well_formed:
  assumes "send_reach c out taken settled"
  shows "tables_ok c"
  using send_reach_inv [OF assms] by (simp add: send_inv_def)

lemma send_tables_well_formed_witness: "tables_ok sample_sent \<and> map_of (yet_unsent_messages sample_sent) (5, 1048576) = Some 1"
  using send_tables_well_formed [OF sample_sent_reached]
  by (simp add: sample_sent_def registered_def sample_requested_def new_client_send_def message_key_def sample_sent_message_def Let_def)

text \<open>
  When TDLib has closed, every query that waits for a message is answered and the counts are cleared, but the
  queries of stories that are still being posted stay unanswered in their table.
\<close>

lemma closed_leaves_stories:
  assumes "send_reach c out taken settled" and "td_client (send_files c)" and "is_closing (send_files c)"
  shows "\<exists>c' ms. send_on_closed now c = Some (c', ms) \<and>
    settled_queries ms = image_mset (\<lambda>x. ps_query (snd x)) (mset (pending_send_message_queries c)) \<and>
    send_waiting c' out = image_mset snd (mset (yet_unsent_stories c)) + send_held out \<and> unsent_count chat c' = 0"
proof -
  obtain c' ms where "send_on_closed now c = Some (c', ms)"
    using send_on_closed_good [OF send_reach_inv [OF assms(1)] assms(2,3), of now] by (auto simp: good_def)
  then show ?thesis using closed_waiting by blast
qed

definition sample_posting :: client_send where
  "sample_posting = (new_client_send (sample_client\<lparr>base := (base sample_client)\<lparr>closing := True\<rparr>\<rparr>))
     \<lparr>yet_unsent_stories := [((5, 1), sample_send_query)]\<rparr>"

lemma sample_posting_reached: "send_reach sample_posting {#} {#sample_send_query#} {#}"
proof -
  let ?c = "new_client_send sample_client" and ?s = "\<lparr>ss_chat_id = 5, ss_id = 1, ss_json = ''{}''\<rparr>"
  let ?cb = "On_Post_Story sample_send_query" and ?f = "sample_client\<lparr>base := (base sample_client)\<lparr>closing := True\<rparr>\<rparr>"
  have start: "send_reach ?c {#} {#} {#}" by (rule send_start) (rule sample_not_closing)
  have "send_step 0 (Ev_Story sample_send_query) ?c = Some (?c, [Send_Request Post_Story ?cb])"
    by (simp add: post_story_def request_def new_client_send_def sample_not_closing)
  from send_event [OF start _ this] have posted: "send_reach ?c {#?cb#} {#sample_send_query#} {#}" by simp
  have "send_step 0 (Ev_Result ?cb (Sent_Story ?s)) ?c = Some (?c\<lparr>yet_unsent_stories := [((5, 1), sample_send_query)]\<rparr>, [])"
    by (simp add: on_sent_story_def new_client_send_def Let_def)
  from send_event [OF posted _ this]
  have "send_reach (?c\<lparr>yet_unsent_stories := [((5, 1), sample_send_query)]\<rparr>) {#} {#sample_send_query#} {#}"
    by (simp add: result_fits_def new_client_send_def sample_not_closing)
  from send_event [OF this, of "Ev_Files ?f" 0] show ?thesis
    by (simp add: sample_posting_def new_client_send_def sample_not_closing)
qed

lemma closed_leaves_stories_witness:
  "\<exists>c' ms. send_on_closed 0 sample_posting = Some (c', ms) \<and> settled_queries ms = {#} \<and> send_waiting c' {#} = {#sample_send_query#}"
proof -
  have "td_client (send_files sample_posting)" "is_closing (send_files sample_posting)"
    by (simp_all add: sample_posting_def new_client_send_def is_closing_def sample_not_closing)
  from closed_leaves_stories [OF sample_posting_reached this, of 0 5] show ?thesis
    by (auto simp: sample_posting_def new_client_send_def)
qed

end
