(* ===== verification/Client_Updates.thy ===== *)
theory Client_Updates
  imports TQueue_Spec Client_Webhook
begin

section \<open>getUpdates\<close>

text \<open>
  The part of \<open>Client.cpp\<close> that stores updates for a bot and hands them out by \<open>getUpdates\<close>: adding an
  update to the queue, reading and confirming updates, waiting for them (long polling), and the
  conflict of two readers. The queue is the model of \<open>TQueue\<close>; the clock and the random number of a
  new queue are arguments (\<open>now\<close> is the monotonic clock, \<open>ut\<close> the Unix time). A handler returns the
  new state and its messages; a failed \<open>CHECK\<close> is \<^const>\<open>None\<close>.
\<close>

subsection \<open>State\<close>

definition long_poll_max_timeout :: int where "long_poll_max_timeout = 50"
definition long_poll_max_delay :: real where "long_poll_max_delay = 0.002"
definition long_poll_wait_after :: real where "long_poll_wait_after = 0.001"
definition min_pending_updates_warning :: nat where "min_pending_updates_warning = 200"
definition bot_updates_warning_delay :: real where "bot_updates_warning_delay = 30"

record updates_client =
  settings :: webhook
  bot_queues :: tqueue
  tqueue_id :: int
  long_poll_limit :: int
  long_poll_offset :: int
  long_poll_was_wakeup :: bool
  long_poll_hard_timeout :: real
  long_poll_slot :: "real option"
  long_poll_query :: "query option"
  previous_get_updates_offset :: int
  previous_get_updates_start_time :: real
  previous_get_updates_finish_time :: real
  last_pending_update_count :: nat
  was_bot_updates_warning :: bool

datatype update_message =
    Webhook_Message client_message
  | Answer_Updates string query
  | Set_Bot_Updates_Status int string
  | Notify_Webhook_Actor

type_synonym updates_result = "(updates_client \<times> update_message list) option"

definition new_updates_client :: "webhook \<Rightarrow> tqueue \<Rightarrow> int \<Rightarrow> updates_client" where
  "new_updates_client w t qid =
     \<lparr>settings = w, bot_queues = t, tqueue_id = qid, long_poll_limit = 0, long_poll_offset = 0,
      long_poll_was_wakeup = False, long_poll_hard_timeout = 0, long_poll_slot = None, long_poll_query = None,
      previous_get_updates_offset = - 1, previous_get_updates_start_time = 0, previous_get_updates_finish_time = 0,
      last_pending_update_count = min_pending_updates_warning, was_bot_updates_warning = False\<rparr>"

definition get_pending_update_count :: "updates_client \<Rightarrow> nat" where
  "get_pending_update_count u = get_size (tqueue_id u) (bot_queues u)"

text \<open>\<open>setBotUpdatesStatus\<close> is sent through \<open>send_request\<close>, which sends nothing while the client closes.\<close>

definition set_bot_updates_status :: "int \<Rightarrow> string \<Rightarrow> updates_client \<Rightarrow> update_message list" where
  "set_bot_updates_status count message u =
     (if closing (settings u) \<or> logging_out (settings u) then [] else [Set_Bot_Updates_Status count message])"

subsection \<open>The list of updates\<close>

text \<open>
  \<open>JsonUpdate\<close>: the stored text of an update begins with its key. Its check that the text is not empty holds of
  every update a queue hands out, since events without data are skipped there.
\<close>

definition json_update :: "int \<Rightarrow> string \<Rightarrow> string" where
  "json_update i update =
     [CHR 0x7B, CHR 0x22] @ ''update_id'' @ [CHR 0x22, CHR '':''] @ show_int i @ [CHR '','', CHR 0x0A] @ update @ [CHR 0x7D]"

text \<open>The loop of \<open>JsonUpdates\<close>: it stops when the texts would exceed \<open>left_len\<close> bytes.\<close>

fun updates_prefix :: "int \<Rightarrow> raw_event list \<Rightarrow> raw_event list" where
  "updates_prefix left_len [] = []"
| "updates_prefix left_len (e # es) =
     (let left = left_len - (50 + int (length (ev_data e)))
      in if left \<le> 0 then [] else e # updates_prefix left es)"

fun join_updates :: "raw_event list \<Rightarrow> string" where
  "join_updates [] = []"
| "join_updates [e] = json_update (ev_id e) (ev_data e)"
| "join_updates (e # es) = json_update (ev_id e) (ev_data e) @ '','' @ join_updates es"

definition json_updates :: "raw_event list \<Rightarrow> string" where
  "json_updates es = ''['' @ join_updates (updates_prefix (2 ^ 22) es) @ '']''"

subsection \<open>Reading\<close>

definition webhook_messages :: "client_message list \<Rightarrow> update_message list" where
  "webhook_messages ms = map Webhook_Message ms"

definition conflict :: "real \<Rightarrow> string \<Rightarrow> query \<Rightarrow> updates_client \<Rightarrow> updates_result" where
  "conflict now message q u =
     map_option (\<lambda>(w, ms). (u\<lparr>settings := w\<rparr>, webhook_messages ms)) (fail_query_conflict now message q (settings u))"

definition abort_long_poll :: "real \<Rightarrow> bool \<Rightarrow> updates_client \<Rightarrow> updates_result" where
  "abort_long_poll now from_set_webhook u =
     (case long_poll_query u of
        None \<Rightarrow> Some (u, [])
      | Some q \<Rightarrow>
          conflict now
            (if from_set_webhook then ''Conflict: terminated by setWebhook request''
             else ''Conflict: terminated by other getUpdates request; make sure that only one bot instance is running'')
            q (u\<lparr>long_poll_query := None\<rparr>))"

text \<open>
  The first half of \<open>do_get_updates\<close>: the offset used from then on, the number of updates left in the
  queue, the updates returned and the queues.
\<close>

definition fetch_from_head :: "int \<Rightarrow> int \<Rightarrow> nat \<Rightarrow> tqueue \<Rightarrow> (nat \<times> raw_event list \<times> tqueue) option" where
  "fetch_from_head qid ut limit t =
     (case get_events qid (get_head qid t) True ut limit t of
        (Inr (total_count, updates), t') \<Rightarrow> Some (total_count, updates, t')
      | (Inl e, t') \<Rightarrow> None)"

definition fetch_updates ::
  "int \<Rightarrow> int \<Rightarrow> int \<Rightarrow> nat \<Rightarrow> tqueue \<Rightarrow> (int \<times> nat \<times> raw_event list \<times> tqueue) option"
where
  "fetch_updates qid ut offset limit t =
     (let t1 = (if offset < 0 then snd (clear_queue qid (nat (- offset)) t) else t);
          offset1 = (if offset \<le> 0 then get_head qid t1 else offset)
      in if offset1 \<le> 0 then Some (offset1, 0, [], t1)
         else
           map_option (Pair offset1)
             (case event_id_from_int32 offset1 of
                Inl e \<Rightarrow> fetch_from_head qid ut limit t1
              | Inr frm \<Rightarrow>
                  (case get_events qid frm True ut limit t1 of
                     (Inr (total_count, updates), t2) \<Rightarrow> Some (total_count, updates, t2)
                   | (Inl e, t2) \<Rightarrow> fetch_from_head qid ut limit t2)))"

text \<open>
  The doubling of \<open>last_pending_update_count_\<close>; the counter is at least 200, so the guard against 0 is
  never used.
\<close>

function double_past :: "nat \<Rightarrow> nat \<Rightarrow> nat" where
  "double_past total_count count =
     (if count = 0 \<or> total_count < count then count else double_past total_count (2 * count))"
  by pat_completeness auto
termination by (relation "measure (\<lambda>(total_count, count). Suc total_count - count)") auto

declare double_past.simps [simp del]

definition next_pending_update_count :: "nat \<Rightarrow> nat \<Rightarrow> nat" where
  "next_pending_update_count total_count last_count =
     (if total_count \<le> min_pending_updates_warning div 2
      then if last_count > min_pending_updates_warning then min_pending_updates_warning else last_count
      else if total_count \<ge> last_count then double_past total_count last_count else last_count)"

definition do_get_updates ::
  "real \<Rightarrow> int \<Rightarrow> int \<Rightarrow> int \<Rightarrow> int \<Rightarrow> query \<Rightarrow> updates_client \<Rightarrow> updates_result"
where
  "do_get_updates now ut offset limit timeout q u =
     (case fetch_updates (tqueue_id u) ut offset (nat limit) (bot_queues u) of
        None \<Rightarrow> None
      | Some (offset1, total_count, updates, t) \<Rightarrow>
          if total_count < length updates then None
          else
            let remaining = total_count - length updates;
                u1 = u\<lparr>bot_queues := t,
                       last_pending_update_count := next_pending_update_count remaining (last_pending_update_count u)\<rparr>
            in if timeout \<noteq> 0 \<and> updates = []
               then map_option (\<lambda>(u2, ms).
                      (u2\<lparr>long_poll_offset := offset1, long_poll_limit := limit, long_poll_query := Some q,
                          long_poll_was_wakeup := False, long_poll_hard_timeout := now + of_int timeout,
                          long_poll_slot := Some (now + of_int timeout)\<rparr>, ms))
                    (abort_long_poll now False u1)
               else
                 let u2 = u1\<lparr>previous_get_updates_finish_time := now,
                             settings := (settings u1)\<lparr>next_bot_updates_warning_time := now + bot_updates_warning_delay\<rparr>\<rparr>;
                     quiet = (remaining = length updates \<and> was_bot_updates_warning u2)
                 in Some (if quiet then u2\<lparr>was_bot_updates_warning := False\<rparr> else u2,
                          (if quiet then set_bot_updates_status 0 [] u2 else []) @ [Answer_Updates (json_updates updates) q]))"

definition long_poll_wakeup :: "real \<Rightarrow> int \<Rightarrow> bool \<Rightarrow> updates_client \<Rightarrow> updates_result" where
  "long_poll_wakeup now ut force_flag u =
     (case long_poll_query u of
        None \<Rightarrow>
          if get_pending_update_count u \<ge> min_pending_updates_warning \<and> now > next_bot_updates_warning_time (settings u)
          then Some (u\<lparr>settings := (settings u)\<lparr>next_bot_updates_warning_time := now + bot_updates_warning_delay\<rparr>,
                       was_bot_updates_warning := True\<rparr>,
                     set_bot_updates_status (int (get_pending_update_count u))
                       ''The getUpdates method is not called for too long'' u)
          else Some (u, [])
      | Some q \<Rightarrow>
          if force_flag
          then do_get_updates now ut (long_poll_offset u) (long_poll_limit u) 0 q (u\<lparr>long_poll_query := None\<rparr>)
          else
            let u1 = (if \<not> long_poll_was_wakeup u
                      then u\<lparr>long_poll_hard_timeout := min (now + long_poll_max_delay) (long_poll_hard_timeout u),
                             long_poll_was_wakeup := True\<rparr>
                      else u)
            in Some (u1\<lparr>long_poll_slot := Some (min (now + long_poll_wait_after) (long_poll_hard_timeout u1))\<rparr>, []))"

definition process_get_updates_query :: "real \<Rightarrow> int \<Rightarrow> query \<Rightarrow> updates_client \<Rightarrow> updates_result" where
  "process_get_updates_query now ut q u =
     (if webhook_url (settings u) \<noteq> [] \<or> webhook_set_query (settings u) \<noteq> None \<or> active_webhook_set_query (settings u) \<noteq> None
      then conflict now (''Conflict: can'' @ [CHR 0x27] @
             ''t use getUpdates method while webhook is active; use deleteWebhook to delete the webhook first'') q u
      else
        let offset = get_integer_arg q ''offset'' 0 (- (2 ^ 31)) int32_max;
            limit0 = get_integer_arg q ''limit'' 100 1 100;
            timeout0 = get_integer_arg q ''timeout'' 0 0 long_poll_max_timeout in
        case update_allowed_update_types q (settings u) of
          None \<Rightarrow> None
        | Some (changed, w, ms) \<Rightarrow>
            let timeout = (if offset = previous_get_updates_offset u \<and> timeout0 < 3 \<and>
                              now < previous_get_updates_start_time u + 3 then 3 else timeout0);
                limit = (if offset = previous_get_updates_offset u \<and> now < previous_get_updates_start_time u + 0.5
                         then 1 else limit0);
                u1 = u\<lparr>settings := w, previous_get_updates_offset := offset, previous_get_updates_start_time := now\<rparr>
            in map_option (\<lambda>(u2, ms'). (u2, webhook_messages ms @ ms')) (do_get_updates now ut offset limit timeout q u1))"

subsection \<open>Adding updates\<close>

text \<open>\<open>raw_event\<close>: the timer of the long poll.\<close>

definition updates_raw_event :: "real \<Rightarrow> int \<Rightarrow> updates_client \<Rightarrow> updates_result" where
  "updates_raw_event now ut u = long_poll_wakeup now ut True u"

text \<open>The number of a type of updates in \<open>UpdateType\<close>.\<close>

definition index_of_type :: "update_type \<Rightarrow> nat" where
  "index_of_type ty = length (takeWhile (\<lambda>t. t \<noteq> ty) update_types)"

definition update_allowed :: "update_type \<Rightarrow> updates_client \<Rightarrow> bool" where
  "update_allowed ty u \<longleftrightarrow> bit (allowed_update_types (settings u)) (index_of_type ty)"

text \<open>\<open>value_text\<close> is the JSON text of the update.\<close>

definition update_data :: "update_type \<Rightarrow> string \<Rightarrow> string" where
  "update_data ty value_text = [CHR 0x22] @ get_update_type_name ty @ [CHR 0x22, CHR '':''] @ value_text"

definition add_update_impl ::
  "real \<Rightarrow> int \<Rightarrow> int \<Rightarrow> update_type \<Rightarrow> string \<Rightarrow> int \<Rightarrow> int \<Rightarrow> updates_client \<Rightarrow> updates_result"
where
  "add_update_impl now ut rnd ty value_text timeout webhook_queue_id u =
     (if \<not> update_allowed ty u then Some (u, [])
      else
        case push rnd (tqueue_id u) (update_data ty value_text) (ut + timeout) webhook_queue_id 0 (bot_queues u) of
          (Inl e, t) \<Rightarrow> if e = check_failed then None else Some (u\<lparr>bot_queues := t\<rparr>, [])
        | (Inr i, t) \<Rightarrow>
            if webhook_url (settings u) = [] then long_poll_wakeup now ut False (u\<lparr>bot_queues := t\<rparr>)
            else Some (u\<lparr>bot_queues := t\<rparr>, [Notify_Webhook_Actor]))"

text \<open>The part of \<open>on_closed\<close> about the waiting reader.\<close>

definition updates_on_closed :: "real \<Rightarrow> int \<Rightarrow> updates_client \<Rightarrow> updates_result" where
  "updates_on_closed now ut u =
     (if long_poll_query u = None then Some (u, [])
      else case long_poll_wakeup now ut True u of
             None \<Rightarrow> None
           | Some (u', ms) \<Rightarrow> if long_poll_query u' = None then Some (u', ms) else None)"

end
