(* ===== verification/Client_Updates_Proofs.thy ===== *)
theory Client_Updates_Proofs
  imports Client_Updates Client_Webhook_Proofs
begin

section \<open>getUpdates: delivery and settlement\<close>

text \<open>
  What \<open>getUpdates\<close> returns in terms of the pending updates of the bot's queue, and the books of its
  queries: each one is answered exactly once, at most one waits, and nothing fails.
\<close>

subsection \<open>Reading from the queue\<close>

lemma pending_none: "queues t qid = None \<Longrightarrow> pending_at qid now t = []"
  by (simp add: pending_at_def queue_of_def)

lemma get_events_pending:
  assumes "tq_inv t" and "get_events qid frm True now limit t = (Inr (n, out), t')"
  shows "tq_inv t' \<and> length out \<le> n \<and> out = take limit (pending_at qid now t') \<and>
    pending_at qid now t' = filter (\<lambda>e. frm \<le> ev_id e) (pending_at qid now t)"
proof (cases "queues t qid")
  case None
  with assms show ?thesis by (simp add: get_events_def pending_none)
next
  case (Some q)
  with assms(2) have r: "frm \<le> tail_id q + 10" "get_queue_head q - int max_queue_events \<le> frm"
    by (auto simp: get_events_def split: if_splits prod.splits)
  from get_events_result [OF assms(1) Some r, of True now limit] assms(2)
  have t': "out = take limit (filter (\<lambda>e. fresh now e \<and> frm \<le> ev_id e) (events q))" "tq_inv t'"
    "n = length (live (events (queue_of t' qid)))"
    "filter (fresh now) (events (queue_of t' qid)) = filter (\<lambda>e. fresh now e \<and> frm \<le> ev_id e) (events q)"
    by auto
  have "pending_at qid now t' = filter (\<lambda>e. fresh now e \<and> frm \<le> ev_id e) (events q)"
    using t'(4) by (simp add: pending_at_def)
  moreover have "\<dots> = filter (\<lambda>e. frm \<le> ev_id e) (pending_at qid now t)"
    using Some by (simp add: pending_at_def queue_of_def conj_commute)
  moreover have "length (filter (fresh now) es) \<le> length (live es)" for es
    by (induction es) (simp_all add: live_def fresh_def)
  then have "length (pending_at qid now t') \<le> n" using t'(3) by (simp add: pending_at_def)
  ultimately show ?thesis using t' by simp
qed

lemma head_le_pending:
  assumes "tq_inv t" and "e \<in> set (pending_at qid now t)"
  shows "get_head qid t \<le> ev_id e \<and> 0 < get_head qid t"
proof -
  have e: "e \<in> set (events (queue_of t qid))" using assms(2) by (simp add: pending_at_def)
  then obtain q where q: "queues t qid = Some q" by (auto simp: queue_of_def split: option.splits)
  have "queue_inv (callback t \<noteq> None) q" using queue_inv_queue_of [OF assms(1), of qid] q by (simp add: queue_of_def)
  then show ?thesis
    using e q by (cases "events q") (auto simp: get_head_def get_queue_head_def queue_of_def queue_inv_def events_inv_def event_inv_def)
qed

lemma head_filter: "tq_inv t \<Longrightarrow> filter (\<lambda>e. get_head qid t \<le> ev_id e) (pending_at qid now t) = pending_at qid now t"
  using head_le_pending by (simp add: filter_id_conv)

lemma pending_no_head: "tq_inv t \<Longrightarrow> get_head qid t \<le> 0 \<Longrightarrow> pending_at qid now t = []"
  using head_le_pending [of t _ qid now] by (cases "pending_at qid now t") auto

text \<open>Offsets the queue accepts; any other offset is treated as the oldest update.\<close>

definition acceptable :: "int \<Rightarrow> int \<Rightarrow> tqueue \<Rightarrow> bool" where
  "acceptable qid offset t \<longleftrightarrow>
     0 < offset \<and> offset < max_id \<and> (queues t qid \<noteq> None \<longrightarrow>
       offset \<le> get_tail qid t + 10 \<and> get_head qid t - int max_queue_events \<le> offset)"

definition unconfirmed :: "int \<Rightarrow> int \<Rightarrow> int \<Rightarrow> tqueue \<Rightarrow> raw_event list" where
  "unconfirmed qid now offset t =
     (if acceptable qid offset t then filter (\<lambda>e. offset \<le> ev_id e) (pending_at qid now t) else pending_at qid now t)"

lemma get_events_ok:
  assumes "0 < frm" "frm < max_id"
  shows "(\<exists>n out t'. get_events qid frm fp now limit t = (Inr (n, out), t')) \<longleftrightarrow> acceptable qid frm t"
    and "\<not> acceptable qid frm t \<Longrightarrow> \<exists>e. get_events qid frm fp now limit t = (Inl e, t)"
  using assms
  by (auto simp: get_events_def acceptable_def get_tail_def get_head_def split: option.splits prod.splits)

lemma fetch_from_head_spec:
  assumes "tq_inv t"
  shows "\<exists>n out t'. fetch_from_head qid now limit t = Some (n, out, t') \<and> tq_inv t' \<and> length out \<le> n \<and>
    out = take limit (pending_at qid now t') \<and> pending_at qid now t' = pending_at qid now t"
proof -
  have "\<exists>n out t'. get_events qid (get_head qid t) True now limit t = (Inr (n, out), t')"
  proof (cases "queues t qid")
    case None
    then show ?thesis by (simp add: get_events_def)
  next
    case (Some q)
    have "queue_inv (callback t \<noteq> None) q"
      using queue_inv_queue_of [OF assms, of qid] Some by (simp add: queue_of_def)
    then have "get_queue_head q \<le> tail_id q"
      by (cases "events q") (auto simp: get_queue_head_def queue_inv_def events_inv_def event_inv_def)
    then show ?thesis using Some by (simp add: get_events_def get_head_def split: prod.split)
  qed
  then obtain n out t' where g: "get_events qid (get_head qid t) True now limit t = (Inr (n, out), t')" by blast
  from get_events_pending [OF assms this] g show ?thesis
    by (auto simp: fetch_from_head_def head_filter [OF assms] simp del: length_take)
qed

lemma fetch_updates_spec:
  assumes "tq_inv t" and "0 \<le> offset"
  shows "\<exists>o1 n out t'. fetch_updates qid now offset limit t = Some (o1, n, out, t') \<and> tq_inv t' \<and> length out \<le> n \<and>
    out = take limit (pending_at qid now t') \<and> pending_at qid now t' = unconfirmed qid now offset t"
proof (cases "offset = 0 \<and> get_head qid t \<le> 0")
  case True
  with assms(1) pending_no_head [of t qid now] show ?thesis by (simp add: fetch_updates_def unconfirmed_def)
next
  case False
  define o1 where "o1 = (if offset = 0 then get_head qid t else offset)"
  have o1: "0 < o1" using False assms(2) by (auto simp: o1_def)
  have un: "unconfirmed qid now o1 t = unconfirmed qid now offset t"
    using head_filter [OF assms(1)] by (auto simp: unconfirmed_def o1_def acceptable_def)
  show ?thesis
  proof (cases "acceptable qid o1 t")
    case True
    then have "o1 < max_id" by (simp add: acceptable_def)
    with True o1 obtain n out t' where g: "get_events qid o1 True now limit t = (Inr (n, out), t')"
      using get_events_ok(1) by metis
    have "fetch_updates qid now offset limit t = Some (o1, n, out, t')"
      using g o1 \<open>o1 < max_id\<close> assms(2)
      by (auto simp: fetch_updates_def event_id_from_int32_def is_valid_id_def o1_def Let_def)
    with get_events_pending [OF assms(1) g] True un show ?thesis by (auto simp: unconfirmed_def simp del: length_take)
  next
    case rejected: False
    have "fetch_updates qid now offset limit t = map_option (Pair o1) (fetch_from_head qid now limit t)"
    proof (cases "o1 < max_id")
      case True
      with rejected o1 obtain e where "get_events qid o1 True now limit t = (Inl e, t)"
        using get_events_ok(2) by blast
      with True o1 assms(2) show ?thesis
        by (auto simp: fetch_updates_def event_id_from_int32_def is_valid_id_def o1_def Let_def)
    next
      case False
      with o1 assms(2) show ?thesis
        by (auto simp: fetch_updates_def event_id_from_int32_def is_valid_id_def o1_def Let_def)
    qed
    with fetch_from_head_spec [OF assms(1), of qid now limit] rejected un show ?thesis
      by (auto simp: unconfirmed_def simp del: length_take)
  qed
qed

lemma fetch_updates_total:
  assumes "tq_inv t"
  shows "\<exists>o1 n out t'. fetch_updates qid now offset limit t = Some (o1, n, out, t') \<and> tq_inv t' \<and> length out \<le> n \<and>
    out = take limit (pending_at qid now t')"
proof (cases "offset < 0")
  case True
  let ?t = "snd (clear_queue qid (nat (- offset)) t)"
  have "fetch_updates qid now offset limit t = fetch_updates qid now 0 limit ?t"
    using True by (simp add: fetch_updates_def)
  with fetch_updates_spec [OF clear_queue_inv [OF assms], of 0 qid now limit qid "nat (- offset)"] show ?thesis by auto
next
  case False
  with fetch_updates_spec [OF assms, of offset qid now limit] show ?thesis by auto
qed

subsection \<open>The answer\<close>

lemma updates_prefix_take: "\<exists>k. updates_prefix left es = take k es \<and> k \<le> length es"
proof (induction es arbitrary: left)
  case (Cons e es)
  let ?left = "left - (50 + int (length (ev_data e)))"
  from Cons [of ?left] obtain k where "updates_prefix ?left es = take k es" "k \<le> length es" by blast
  then show ?case
    by (cases "?left \<le> 0") (auto simp: Let_def intro: exI [of _ 0] exI [of _ "Suc k"])
qed simp

lemma updates_prefix_nonempty:
  "es \<noteq> [] \<Longrightarrow> length (ev_data (hd es)) \<le> max_event_length \<Longrightarrow> updates_prefix (2 ^ 22) es \<noteq> []"
  by (cases es) (simp_all add: Let_def max_event_length_def)

lemma pending_length:
  assumes "tq_inv t" and "e \<in> set (pending_at qid now t)"
  shows "length (ev_data e) \<le> max_event_length"
proof -
  have "e \<in> set (events (queue_of t qid))" using assms(2) by (simp add: pending_at_def)
  then show ?thesis
    using queue_inv_queue_of [OF assms(1), of qid] by (auto simp: queue_inv_def events_inv_def event_inv_def)
qed

lemma json_updates_take:
  assumes "tq_inv t" and "0 < n"
  shows "\<exists>k \<le> n. (pending_at qid now t \<noteq> [] \<longrightarrow> 0 < k) \<and>
    json_updates (take n (pending_at qid now t)) = ''['' @ join_updates (take k (pending_at qid now t)) @ '']''"
proof -
  let ?es = "take n (pending_at qid now t)"
  obtain k where k: "updates_prefix (2 ^ 22) ?es = take k ?es" "k \<le> length ?es" using updates_prefix_take by blast
  have "0 < k" if "pending_at qid now t \<noteq> []"
  proof -
    have ne: "?es \<noteq> []" using that assms(2) by simp
    have "hd ?es \<in> set (pending_at qid now t)" by (rule in_set_takeD [OF hd_in_set [OF ne]])
    with ne have "updates_prefix (2 ^ 22) ?es \<noteq> []" using updates_prefix_nonempty pending_length [OF assms(1)] by blast
    then show ?thesis unfolding k(1) by simp
  qed
  moreover have "take k ?es = take k (pending_at qid now t)" using k(2) by simp
  ultimately show ?thesis using k by (intro exI [of _ k]) (auto simp: json_updates_def)
qed

subsection \<open>The books\<close>

fun message_answers :: "update_message \<Rightarrow> nat" where
  "message_answers (Webhook_Message m) = reply_count m"
| "message_answers (Answer_Updates t q) = pend (Some q)"
| "message_answers _ = 0"

definition nanswers :: "update_message list \<Rightarrow> nat" where
  "nanswers ms = sum_list (map message_answers ms)"

lemma nanswers_simps [simp]:
  "nanswers [] = 0" "nanswers (m # ms) = message_answers m + nanswers ms" "nanswers (ms @ ms') = nanswers ms + nanswers ms'"
  by (simp_all add: nanswers_def)

lemma nanswers_webhook [simp]: "nanswers (webhook_messages ms) = nreplies ms"
  by (induction ms) (simp_all add: webhook_messages_def)

lemma nanswers_status [simp]: "nanswers (set_bot_updates_status n m u) = 0"
  by (simp add: set_bot_updates_status_def)

definition updates_inv :: "updates_client \<Rightarrow> bool" where
  "updates_inv u \<longleftrightarrow>
     tq_inv (bot_queues u) \<and> min_pending_updates_warning \<le> last_pending_update_count u \<and>
     (\<forall>q. long_poll_query u = Some q \<longrightarrow> q_state q = State_Query)"

text \<open>A handler that finds \<open>n\<close> queries to account for.\<close>

definition settled :: "nat \<Rightarrow> updates_result \<Rightarrow> bool" where
  "settled n r \<longleftrightarrow> (\<exists>u ms. r = Some (u, ms) \<and> updates_inv u \<and> nanswers ms + pend (long_poll_query u) = n)"

lemma double_past_ge: "0 < n \<Longrightarrow> n \<le> double_past size0 n \<and> size0 < double_past size0 n"
proof (induction size0 n rule: double_past.induct)
  case (1 size0 n)
  then show ?case by (cases "size0 < n") (auto simp: double_past.simps [of size0 n])
qed

lemma next_pending_ge:
  "min_pending_updates_warning \<le> n \<Longrightarrow> min_pending_updates_warning \<le> next_pending_update_count size0 n"
  using double_past_ge [of n size0] by (auto simp: next_pending_update_count_def min_pending_updates_warning_def)

lemma conflict_settled:
  assumes "updates_inv u" and "q_state q = State_Query" and "list_all (\<lambda>c. byte c < 128) d"
    and "n = pend (Some q) + pend (long_poll_query u)"
  shows "\<exists>w ms. conflict now d q u = Some (u\<lparr>settings := w\<rparr>, ms) \<and> nanswers ms = pend (Some q)" "settled n (conflict now d q u)"
proof -
  from conflict_reply [OF assms(2,3), of now "settings u"] obtain t ms where
    "fail_query_conflict now d q (settings u) = Some ((settings u)\<lparr>next_get_updates_conflict_time := t\<rparr>, ms)"
    "nreplies ms = pend (Some q)" by blast
  then show "\<exists>w ms. conflict now d q u = Some (u\<lparr>settings := w\<rparr>, ms) \<and> nanswers ms = pend (Some q)"
    by (auto simp: conflict_def intro: exI [of _ "(settings u)\<lparr>next_get_updates_conflict_time := t\<rparr>"])
  then show "settled n (conflict now d q u)" using assms(1,4) by (auto simp: settled_def updates_inv_def)
qed

lemma abort_long_poll_settled:
  assumes "updates_inv u"
  shows "\<exists>u' ms. abort_long_poll now b u = Some (u', ms) \<and> updates_inv u' \<and> long_poll_query u' = None \<and>
    bot_queues u' = bot_queues u \<and> nanswers ms = pend (long_poll_query u)"
proof (cases "long_poll_query u")
  case None
  with assms show ?thesis by (simp add: abort_long_poll_def)
next
  case (Some q)
  then have q: "q_state q = State_Query" using assms by (simp add: updates_inv_def)
  have inv: "updates_inv (u\<lparr>long_poll_query := None\<rparr>)" using assms by (simp add: updates_inv_def)
  define d where "d = (if b then ''Conflict: terminated by setWebhook request''
     else ''Conflict: terminated by other getUpdates request; make sure that only one bot instance is running'')"
  have "list_all (\<lambda>c. byte c < 128) d" by (simp add: d_def byte_def)
  from conflict_settled(1) [OF inv q this refl, of now] Some inv show ?thesis
    by (auto simp: abort_long_poll_def updates_inv_def simp flip: d_def)
qed

lemma do_get_updates_settled:
  assumes u: "updates_inv u" and q: "q_state q = State_Query"
  shows "settled (pend (Some q) + pend (long_poll_query u)) (do_get_updates now ut offset limit timeout q u)"
    and "timeout = 0 \<Longrightarrow> do_get_updates now ut offset limit timeout q u = Some (u', ms) \<Longrightarrow>
      long_poll_query u' = long_poll_query u"
proof -
  have "tq_inv (bot_queues u)" using u by (simp add: updates_inv_def)
  from fetch_updates_total [OF this, of "tqueue_id u" ut offset "nat limit"] obtain o1 n out t where
    f: "fetch_updates (tqueue_id u) ut offset (nat limit) (bot_queues u) = Some (o1, n, out, t)" "tq_inv t" "length out \<le> n"
    by blast
  define u1 where "u1 = u\<lparr>bot_queues := t,
    last_pending_update_count := next_pending_update_count (n - length out) (last_pending_update_count u)\<rparr>"
  have u1: "updates_inv u1" "long_poll_query u1 = long_poll_query u"
    using u f(2) by (simp_all add: updates_inv_def u1_def next_pending_ge)
  from abort_long_poll_settled [OF u1(1), of now False] obtain u2 ms2 where
    a: "abort_long_poll now False u1 = Some (u2, ms2)" "updates_inv u2" "long_poll_query u2 = None"
      "nanswers ms2 = pend (long_poll_query u1)" by blast
  show "settled (pend (Some q) + pend (long_poll_query u)) (do_get_updates now ut offset limit timeout q u)"
  proof (cases "timeout \<noteq> 0 \<and> out = []")
    case True
    then have "do_get_updates now ut offset limit timeout q u = map_option (\<lambda>(u2, ms).
        (u2\<lparr>long_poll_offset := o1, long_poll_limit := limit, long_poll_query := Some q, long_poll_was_wakeup := False,
           long_poll_hard_timeout := now + of_int timeout, long_poll_slot := Some (now + of_int timeout)\<rparr>, ms))
        (abort_long_poll now False u1)"
      using f by (simp add: do_get_updates_def u1_def Let_def)
    with a u1 q show ?thesis by (auto simp: settled_def updates_inv_def)
  next
    case False
    with f u1 show ?thesis
      by (auto simp: do_get_updates_def settled_def updates_inv_def Let_def simp flip: u1_def)
  qed
  show "long_poll_query u' = long_poll_query u"
    if "timeout = 0" "do_get_updates now ut offset limit timeout q u = Some (u', ms)"
    using that f by (auto simp: do_get_updates_def Let_def split: if_splits)
qed

lemma wakeup_settled:
  assumes "updates_inv u"
  shows "settled (pend (long_poll_query u)) (long_poll_wakeup now ut force u)"
    and "long_poll_wakeup now ut True u = Some (u', ms) \<Longrightarrow> long_poll_query u' = None"
proof -
  let ?u = "u\<lparr>long_poll_query := None\<rparr>"
  have none: "updates_inv ?u" using assms by (simp add: updates_inv_def)
  have q: "long_poll_query u = Some q \<Longrightarrow> q_state q = State_Query" for q using assms by (simp add: updates_inv_def)
  show "settled (pend (long_poll_query u)) (long_poll_wakeup now ut force u)"
  proof (cases "long_poll_query u")
    case None
    with assms show ?thesis by (auto simp: long_poll_wakeup_def settled_def updates_inv_def)
  next
    case (Some q')
    with do_get_updates_settled(1) [OF none q [OF Some], of now ut "long_poll_offset u" "long_poll_limit u" 0] assms
    show ?thesis by (auto simp: long_poll_wakeup_def settled_def updates_inv_def Let_def)
  qed
  show "long_poll_query u' = None" if "long_poll_wakeup now ut True u = Some (u', ms)"
    using that do_get_updates_settled(2) [OF none q, of _ 0 now ut "long_poll_offset u" "long_poll_limit u" u' ms]
    by (auto simp: long_poll_wakeup_def split: option.splits if_splits)
qed

lemma process_get_updates_settled:
  assumes u: "updates_inv u" and q: "q_state q = State_Query"
  shows "settled (pend (Some q) + pend (long_poll_query u)) (process_get_updates_query now ut q u)"
proof -
  have ascii: "list_all (\<lambda>c. byte c < 128) (''Conflict: can'' @ [CHR 0x27] @
      ''t use getUpdates method while webhook is active; use deleteWebhook to delete the webhook first'')"
    by (simp add: byte_def)
  from update_allowed_total [of q "settings u"] obtain b t ms where
    a: "update_allowed_update_types q (settings u) = Some (b, (settings u)\<lparr>allowed_update_types := t\<rparr>, ms)" "nreplies ms = 0"
    by blast
  let ?offset = "get_integer_arg q ''offset'' 0 (- (2 ^ 31)) int32_max"
  let ?u = "u\<lparr>settings := (settings u)\<lparr>allowed_update_types := t\<rparr>, previous_get_updates_offset := ?offset,
    previous_get_updates_start_time := now\<rparr>"
  have inv: "updates_inv ?u" using u by (simp add: updates_inv_def)
  have go: "settled (pend (Some q) + pend (long_poll_query u)) (do_get_updates now ut ?offset limit timeout q ?u)" for limit timeout
    using do_get_updates_settled(1) [OF inv q] by simp
  have prefix: "settled n r \<Longrightarrow> settled n (map_option (\<lambda>(u2, ms'). (u2, webhook_messages ms @ ms')) r)" for n r
    using a(2) by (auto simp: settled_def)
  show ?thesis
    unfolding process_get_updates_query_def Let_def a(1)
    using conflict_settled(2) [OF u q ascii refl, of now] prefix [OF go] by (simp add: Let_def)
qed

lemma add_update_settled:
  assumes u: "updates_inv u" and h: "hint_ok 0 rnd"
  shows "settled (pend (long_poll_query u)) (add_update_impl now ut rnd ty value_text timeout extra u)"
proof -
  have inv: "tq_inv (bot_queues u)" using u by (simp add: updates_inv_def)
  let ?p = "push rnd (tqueue_id u) (update_data ty value_text) (ut + timeout) extra 0 (bot_queues u)"
  obtain r t where p: "?p = (r, t)" by (cases ?p)
  have "tq_inv t" using push_inv [OF inv h, of "tqueue_id u" "update_data ty value_text" "ut + timeout" extra] p by simp
  then have u1: "updates_inv (u\<lparr>bot_queues := t\<rparr>)" using u by (simp add: updates_inv_def)
  have "r \<noteq> Inl check_failed"
    using push_spec [OF inv h, of "tqueue_id u" "update_data ty value_text" "ut + timeout" extra]
      push_rejected [OF inv, of "tqueue_id u" "update_data ty value_text" "ut + timeout" rnd extra 0] p
    by (cases "push_accepts (tqueue_id u) (update_data ty value_text) (ut + timeout) (bot_queues u)")
      (auto simp: check_failed_def)
  with p u u1 wakeup_settled(1) [OF u1, of now ut False] show ?thesis
    by (auto simp: add_update_impl_def settled_def split: sum.split)
qed

subsection \<open>Reachable states\<close>

text \<open>
  The events of the component. Other components share the queues and the settings: collection, the
  webhook actor and other bots change the queues (and keep their invariant), \<open>setWebhook\<close> changes the
  settings.
\<close>

datatype updates_event =
    Get_Updates query
  | Add_Update int update_type string int int
  | Poll_Timer
  | Abort_By_Webhook
  | Updates_Closed
  | Others tqueue webhook

fun updates_step :: "real \<Rightarrow> int \<Rightarrow> updates_event \<Rightarrow> updates_client \<Rightarrow> updates_result" where
  "updates_step now ut (Get_Updates q) u = process_get_updates_query now ut q u"
| "updates_step now ut (Add_Update rnd ty value_text timeout extra) u = add_update_impl now ut rnd ty value_text timeout extra u"
| "updates_step now ut Poll_Timer u = updates_raw_event now ut u"
| "updates_step now ut Abort_By_Webhook u = abort_long_poll now True u"
| "updates_step now ut Updates_Closed u = updates_on_closed now ut u"
| "updates_step now ut (Others t w) u = Some (u\<lparr>bot_queues := t, settings := w\<rparr>, [])"

fun updates_legal :: "updates_event \<Rightarrow> bool" where
  "updates_legal (Get_Updates q) = (q_state q = State_Query)"
| "updates_legal (Add_Update rnd ty value_text timeout extra) = hint_ok 0 rnd"
| "updates_legal (Others t w) = tq_inv t"
| "updates_legal _ = True"

fun brings :: "updates_event \<Rightarrow> nat" where
  "brings (Get_Updates q) = pend (Some q)"
| "brings _ = 0"

text \<open>A state with the number of queries handed in and ended so far.\<close>

inductive updates_reach :: "updates_client \<Rightarrow> nat \<Rightarrow> nat \<Rightarrow> bool" where
  updates_new: "tq_inv t \<Longrightarrow> updates_reach (new_updates_client w t qid) 0 0"
| updates_next:
    "updates_reach u taken ended \<Longrightarrow> updates_legal ev \<Longrightarrow> updates_step now ut ev u = Some (u', ms) \<Longrightarrow>
     updates_reach u' (taken + brings ev) (ended + nanswers ms)"

lemma updates_step_settled:
  assumes u: "updates_inv u" and l: "updates_legal ev"
  shows "settled (brings ev + pend (long_poll_query u)) (updates_step now ut ev u)"
proof (cases ev)
  case (Get_Updates q)
  with process_get_updates_settled [OF u] l show ?thesis by simp
next
  case (Add_Update rnd ty value_text timeout extra)
  with add_update_settled [OF u] l show ?thesis by simp
next
  case Poll_Timer
  with wakeup_settled(1) [OF u] show ?thesis by (simp add: updates_raw_event_def)
next
  case Abort_By_Webhook
  with abort_long_poll_settled [OF u, of now True] show ?thesis by (auto simp: settled_def)
next
  case Updates_Closed
  with wakeup_settled [OF u, of now ut] u show ?thesis by (force simp: updates_on_closed_def settled_def)
next
  case (Others t w)
  with u l show ?thesis by (simp add: settled_def updates_inv_def)
qed

lemma updates_reach_inv: "updates_reach u taken ended \<Longrightarrow> updates_inv u \<and> taken = ended + pend (long_poll_query u)"
proof (induction rule: updates_reach.induct)
  case (updates_new t w qid)
  then show ?case by (simp add: updates_inv_def new_updates_client_def)
next
  case (updates_next u taken ended ev now ut u' ms)
  with updates_step_settled [of u ev now ut] show ?case by (auto simp: settled_def)
qed

subsection \<open>Properties\<close>

text \<open>
  (C14) In every reachable state every event of \<open>getUpdates\<close> is handled without a failed check, and every
  query handed in has been answered exactly once, by updates or by a conflict, except at most one that
  waits; the timer of the wait, a conflict and the end of the client leave none waiting.
\<close>

theorem get_updates_settled:
  assumes "updates_reach u taken ended" and "updates_legal ev"
  shows "taken = ended + pend (long_poll_query u) \<and>
    (\<exists>u' ms. updates_step now ut ev u = Some (u', ms) \<and>
       (ev \<in> {Poll_Timer, Abort_By_Webhook, Updates_Closed} \<longrightarrow> long_poll_query u' = None))"
proof -
  from updates_reach_inv [OF assms(1)] have u: "updates_inv u" and t: "taken = ended + pend (long_poll_query u)" by auto
  from updates_step_settled [OF u assms(2), of now ut] obtain u' ms where
    s: "updates_step now ut ev u = Some (u', ms)" by (auto simp: settled_def)
  have "long_poll_query u' = None" if "ev \<in> {Poll_Timer, Abort_By_Webhook, Updates_Closed}"
    using that s wakeup_settled(2) [OF u] abort_long_poll_settled [OF u, of now True]
    by (auto simp: updates_raw_event_def updates_on_closed_def split: if_splits option.splits)
  with s t show ?thesis by blast
qed

text \<open>A query and a queue with one update for the examples.\<close>

definition sample_updates_query :: query where
  "sample_updates_query = new_query [] ''1:a'' False ''getupdates'' [] [] [] InvalidAddress False"

lemma sample_updates_query_state [simp]: "q_state sample_updates_query = State_Query" "\<not> q_is_internal sample_updates_query"
  by (simp_all add: sample_updates_query_def new_query_def)

theorem get_updates_settled_witness:
  "\<exists>u' ms. updates_step 0 50 (Get_Updates sample_updates_query) (new_updates_client (new_webhook None) new_tqueue 7) = Some (u', ms)"
proof -
  have "updates_reach (new_updates_client (new_webhook None) new_tqueue 7) 0 0" by (rule updates_new [OF tq_inv_new])
  from get_updates_settled [OF this, of "Get_Updates sample_updates_query" 0 50] show ?thesis by auto
qed

text \<open>
  (C4) What \<open>getUpdates\<close> with a non-negative offset does: an offset within the range of the queue confirms
  exactly the older updates, any other confirms nothing; a query that finds no update and has a
  timeout waits; every other query is answered with the oldest unconfirmed updates in order, at most
  \<open>limit\<close> of them, and with at least one if there is any.
\<close>

theorem get_updates_delivers:
  assumes "updates_inv u" and "q_state q = State_Query" and "0 \<le> offset" and "0 < limit"
    and "do_get_updates now ut offset limit timeout q u = Some (u', ms)"
    and "es = unconfirmed (tqueue_id u) ut offset (bot_queues u)"
  shows "pending_at (tqueue_id u) ut (bot_queues u') = es \<and>
    (if es = [] \<and> timeout \<noteq> 0 then long_poll_query u' = Some q
     else \<exists>k \<le> nat limit. (es \<noteq> [] \<longrightarrow> 0 < k) \<and> Answer_Updates (''['' @ join_updates (take k es) @ '']'') q \<in> set ms)"
proof -
  have inv: "tq_inv (bot_queues u)" using assms(1) by (simp add: updates_inv_def)
  from fetch_updates_spec [OF inv assms(3), of "tqueue_id u" ut "nat limit"] obtain o1 n out t where
    f: "fetch_updates (tqueue_id u) ut offset (nat limit) (bot_queues u) = Some (o1, n, out, t)" "tq_inv t" "length out \<le> n"
      "out = take (nat limit) (pending_at (tqueue_id u) ut t)" "pending_at (tqueue_id u) ut t = es"
    unfolding assms(6) by blast
  have out: "out = [] \<longleftrightarrow> es = []" using f(4,5) assms(4) by simp
  define u1 where "u1 = u\<lparr>bot_queues := t,
    last_pending_update_count := next_pending_update_count (n - length out) (last_pending_update_count u)\<rparr>"
  have "updates_inv u1" using assms(1) f(2) by (simp add: updates_inv_def u1_def next_pending_ge)
  from abort_long_poll_settled [OF this, of now False]
  have ab: "bot_queues u2 = t" if "abort_long_poll now False u1 = Some (u2, ms2)" for u2 ms2
    using that by (auto simp: u1_def)
  show ?thesis
  proof (cases "es = [] \<and> timeout \<noteq> 0")
    case True
    with out f assms(5) obtain u2 where "abort_long_poll now False u1 = Some (u2, ms)"
      "bot_queues u' = bot_queues u2" "long_poll_query u' = Some q"
      by (auto simp: do_get_updates_def u1_def Let_def)
    with True ab f(5) show ?thesis by simp
  next
    case False
    with out f(1,3) assms(5) have "bot_queues u' = t" "Answer_Updates (json_updates out) q \<in> set ms"
      by (auto simp: do_get_updates_def Let_def split: if_splits)
    with json_updates_take [OF f(2), of "nat limit" "tqueue_id u" ut] f(4,5) assms(4) False show ?thesis by auto
  qed
qed

definition sample_event :: raw_event where
  "sample_event = \<lparr>ev_log_id = 0, ev_id = 9, ev_expires_at = 100, ev_data = ''hello'', ev_extra = 0\<rparr>"

definition sample_queues :: tqueue where
  "sample_queues = \<lparr>queues = [7 \<mapsto> \<lparr>tail_id = 10, events = [sample_event], total_event_length = length ''hello'', gc_at = 100\<rparr>],
     queue_gc_at = [(100, 7)], callback = None\<rparr>"

lemma sample_queues_inv: "tq_inv sample_queues"
proof -
  have "hint_ok 9 5" by (simp add: hint_ok_def is_valid_id_def max_id_def)
  from push_inv [OF tq_inv_new this, of 7 "''hello''" 100 0]
  show ?thesis
    by (simp add: push_def do_push_def new_tqueue_def queue_of_def set_queue_def max_event_length_def
        max_queue_events_def max_total_event_length_def pick_tail_def event_id_empty_def event_id_next_def
        event_id_from_int32_def is_valid_id_def max_id_def is_ok_def schedule_queue_gc_def new_queue_def
        sample_queues_def sample_event_def)
qed

theorem get_updates_delivers_witness:
  "\<exists>u' ms. do_get_updates 0 50 0 5 0 sample_updates_query (new_updates_client (new_webhook None) sample_queues 7) = Some (u', ms) \<and>
     Answer_Updates (''['' @ join_updates [sample_event] @ '']'') sample_updates_query \<in> set ms"
proof -
  let ?u = "new_updates_client (new_webhook None) sample_queues 7"
  have inv: "updates_inv ?u" using sample_queues_inv by (simp add: updates_inv_def new_updates_client_def)
  from do_get_updates_settled(1) [OF inv, of sample_updates_query 0 50 0 5 0] obtain u' ms where
    d: "do_get_updates 0 50 0 5 0 sample_updates_query ?u = Some (u', ms)" by (auto simp: settled_def)
  have "unconfirmed 7 50 0 sample_queues = [sample_event]"
    by (simp add: unconfirmed_def acceptable_def pending_at_def queue_of_def sample_queues_def sample_event_def fresh_def)
  then have es: "[sample_event] = unconfirmed (tqueue_id ?u) 50 0 (bot_queues ?u)" by (simp add: new_updates_client_def)
  from get_updates_delivers [OF inv _ _ _ d es] obtain k :: nat where
    "0 < k" "Answer_Updates (''['' @ join_updates (take k [sample_event]) @ '']'') sample_updates_query \<in> set ms" by auto
  moreover have "take k [sample_event] = [sample_event]" using \<open>0 < k\<close> by (cases k) simp_all
  ultimately show ?thesis using d by auto
qed

subsection \<open>Negative offsets\<close>

text \<open>
  A negative offset \<open>-k\<close> asks for the last \<open>k\<close> updates. When the queue ends with the empty event that keeps
  the identifier of an expired or removed last update, that event is counted among the \<open>k\<close>: one update
  fewer is returned and the others are deleted, provided that there are more than \<open>k\<close> updates.
\<close>

lemma negative_offset_keeps_one_less:
  assumes inv: "tq_inv t" and q: "queues t qid = Some q" and es: "events q = es @ [e]" "ev_data e = []"
    and k: "0 < k" "k < length es" and f: "fetch_updates qid now (- int k) limit t = Some (o1, n, out, t')"
  shows "out = take limit (filter (fresh now) (drop (Suc (length es) - k) es)) \<and> length out < k \<and>
    pending_at qid now t' = filter (fresh now) (drop (Suc (length es) - k) es)"
proof -
  let ?t = "snd (clear_queue qid k t)"
  have "queue_size q = length es" using es by (simp add: queue_size_def)
  with q es k have "events (queue_of ?t qid) = drop (Suc (length es) - k) es @ [e]"
    by (simp add: clear_queue_def Let_def queue_of_def)
  then have p: "pending_at qid now ?t = filter (fresh now) (drop (Suc (length es) - k) es)"
    using es(2) by (simp add: pending_at_def fresh_def)
  have "fetch_updates qid now (- int k) limit t = fetch_updates qid now 0 limit ?t"
    using k(1) by (simp add: fetch_updates_def)
  with fetch_updates_spec [OF clear_queue_inv [OF inv], of 0 qid now limit qid k] f
  have out: "out = take limit (pending_at qid now t')" "pending_at qid now t' = pending_at qid now ?t"
    by (auto simp: unconfirmed_def acceptable_def)
  have "length out \<le> length (drop (Suc (length es) - k) es)"
    unfolding out p using length_filter_le [of "fresh now" "drop (Suc (length es) - k) es"]
    by simp
  also have "\<dots> < k" using k by simp
  finally show ?thesis using out p by simp
qed

text \<open>Three updates, the last of which expires first and is found expired by a reader.\<close>

definition sample_ops :: "tq_op list" where
  "sample_ops = [PushOp 5 7 ''A'' 100 0 0, PushOp 5 7 ''B'' 100 0 0, PushOp 5 7 ''C'' 10 0 0, GetOp 7 5 False 50 10]"

lemma sample_ops_queue:
  "\<exists>q. queues (fold exec_op sample_ops (set_callback (Some new_storage) new_tqueue)) 7 = Some q \<and>
     events q = [\<lparr>ev_log_id = 1, ev_id = 5, ev_expires_at = 100, ev_data = ''A'', ev_extra = 0\<rparr>,
       \<lparr>ev_log_id = 2, ev_id = 6, ev_expires_at = 100, ev_data = ''B'', ev_extra = 0\<rparr>] @
       [\<lparr>ev_log_id = 3, ev_id = 7, ev_expires_at = 10, ev_data = [], ev_extra = 0\<rparr>]"
  unfolding sample_ops_def
  by (simp add: push_def do_push_def new_tqueue_def queue_of_def set_queue_def max_event_length_def set_callback_def
      max_queue_events_def max_total_event_length_def pick_tail_def event_id_empty_def event_id_next_def
      event_id_from_int32_def is_valid_id_def max_id_def is_ok_def schedule_queue_gc_def new_queue_def new_storage_def
      storage_push_def get_events_def do_get_def get_queue_head_def pop_def Let_def)

lemma negative_offset_keeps_one_less_witness:
  "\<exists>o1 n t'. fetch_updates 7 50 (- 1) 100 (fold exec_op sample_ops (set_callback (Some new_storage) new_tqueue)) =
     Some (o1, n, [], t') \<and> pending_at 7 50 t' = [] \<and>
     length (pending_at 7 50 (fold exec_op sample_ops (set_callback (Some new_storage) new_tqueue))) = 2"
proof -
  let ?t = "fold exec_op sample_ops (set_callback (Some new_storage) new_tqueue)"
  have inv: "tq_inv ?t"
    by (rule exec_ops_inv) (simp add: sample_ops_def hint_ok_def is_valid_id_def max_id_def)
  from sample_ops_queue obtain q es e where q: "queues ?t 7 = Some q" "events q = es @ [e]" "ev_data e = []" "length es = 2"
    "filter (fresh 50) (es @ [e]) = es" by (auto simp: fresh_def)
  from fetch_updates_total [OF inv, of 7 50 "- int 1" 100] obtain o1 n out t' where
    f: "fetch_updates 7 50 (- int 1) 100 ?t = Some (o1, n, out, t')" by blast
  have "(0 :: nat) < 1" "(1 :: nat) < length es" using q(4) by simp_all
  from negative_offset_keeps_one_less [OF inv q(1-3) this f] have "out = [] \<and> pending_at 7 50 t' = []" using q(4) by simp
  moreover have "length (pending_at 7 50 ?t) = 2" using q by (simp add: pending_at_def queue_of_def)
  ultimately show ?thesis using f by auto
qed

end
