(* ===== verification/Http_Url.thy ===== *)
theory Http_Url
  imports Stream_Parser Ip_Address
begin

section \<open>URLs\<close>

text \<open>
  \<open>tdutils/td/utils/HttpUrl.h\<close>, \<open>HttpUrl.cpp\<close>: the parser of the URL of a webhook and the text of a
  parsed URL. The operating system's \<open>inet_pton\<close> for IPv6 is an argument.
\<close>

datatype protocol = Http | Https

record http_url =
  url_protocol :: protocol
  url_userinfo :: string
  url_host :: string
  url_is_ipv6 :: bool
  specified_port :: int
  url_port :: int
  url_query :: string

text \<open>The text of a URL; \<^const>\<open>None\<close> when the check that the query begins with a slash fails.\<close>

definition get_url :: "http_url \<Rightarrow> string option" where
  "get_url u =
     (if url_query u = [] \<or> hd (url_query u) \<noteq> CHR ''/'' then None
      else Some
        ((case url_protocol u of Http \<Rightarrow> ''http://'' | Https \<Rightarrow> ''https://'') @
         (if url_userinfo u \<noteq> [] then url_userinfo u @ ''@'' else []) @
         url_host u @
         (if specified_port u > 0 then '':'' @ show_int (specified_port u) else []) @
         url_query u))"

subsection \<open>Parsing\<close>

text \<open>
  The scan for the colon before the port, from the end of the text and never at its first character:
  the text before and after it, or \<^const>\<open>None\<close>. The first argument is the unscanned text, reversed.
\<close>

fun find_colon :: "string \<Rightarrow> string \<Rightarrow> (string \<times> string) option" where
  "find_colon [] acc = None"
| "find_colon [c] acc = None"
| "find_colon (c # cs) acc =
     (if c = CHR '':'' then Some (rev cs, acc)
      else if c = CHR '']'' \<or> c = CHR ''@'' then None
      else find_colon cs (c # acc))"

text \<open>Leading zeros are removed, but not the last digit.\<close>

fun drop_zeros :: "string \<Rightarrow> string" where
  "drop_zeros (c # d # cs) = (if c = CHR ''0'' then drop_zeros (d # cs) else c # d # cs)"
| "drop_zeros cs = cs"

definition parse_port :: "string \<Rightarrow> int" where
  "parse_port port_slice =
     (case to_integer_safe 32 (drop_zeros port_slice) of None \<Rightarrow> -1 | Some p \<Rightarrow> if p = 0 then -1 else p)"

text \<open>The text before and after the last \<open>@\<close>.\<close>

definition split_userinfo :: "string \<Rightarrow> string \<times> string" where
  "split_userinfo s =
     (if CHR ''@'' \<in> set s
      then (rev (tl (dropWhile (\<lambda>c. c \<noteq> CHR ''@'') (rev s))), rev (takeWhile (\<lambda>c. c \<noteq> CHR ''@'') (rev s)))
      else ([], s))"

definition quote_char :: "char \<Rightarrow> string" where
  "quote_char c =
     (if byte c \<le> 0x20 then [CHR ''%'', hex_digits ! (byte c div 16), hex_digits ! (byte c mod 16)] else [c])"

definition normalize_query :: "string \<Rightarrow> string" where
  "normalize_query query =
     (let q1 = rev (dropWhile is_space (rev query));
          q2 = (if q1 = [] then ''/'' else q1)
      in (if hd q2 \<noteq> CHR ''/'' then ''/'' else []) @ concat (map quote_char q2))"

definition is_hex_digit :: "char \<Rightarrow> bool" where
  "is_hex_digit c \<longleftrightarrow> hex_to_int c < 16"

definition url_part_char :: "bool \<Rightarrow> char \<Rightarrow> bool" where
  "url_part_char allow_colon c \<longleftrightarrow>
     is_alnum c \<or> c \<in> set ''.-_!$,~*();&+='' \<or> c = CHR 0x27 \<or> (allow_colon \<and> c = CHR '':'')"

text \<open>
  \<open>check_url_part\<close> may read one character behind the part: the terminating zero of the host, and the
  \<open>@\<close> behind the user information, here \<open>behind\<close>.
\<close>

fun check_url_part :: "char \<Rightarrow> string \<Rightarrow> bool \<Rightarrow> string \<Rightarrow> td_error option" where
  "check_url_part behind name allow_colon [] = None"
| "check_url_part behind name allow_colon (c # cs) =
     (if url_part_char allow_colon c then check_url_part behind name allow_colon cs
      else if c = CHR ''%'' then
        (case cs of
           h # l # cs' \<Rightarrow>
             if is_hex_digit h \<and> is_hex_digit l then check_url_part behind name allow_colon cs'
             else Some (Error 0 (''Wrong percent-encoded symbol in URL '' @ name))
         | [h] \<Rightarrow>
             if is_hex_digit h \<and> is_hex_digit behind then None
             else Some (Error 0 (''Wrong percent-encoded symbol in URL '' @ name))
         | [] \<Rightarrow> Some (Error 0 (''Wrong percent-encoded symbol in URL '' @ name)))
      else if byte c \<ge> 128 then check_url_part behind name allow_colon cs
      else Some (Error 0 (''Disallowed character in URL '' @ name)))"

definition ipv6_host_char :: "char \<Rightarrow> bool" where
  "ipv6_host_char c \<longleftrightarrow>
     c = CHR '':'' \<or> (byte CHR ''0'' \<le> byte c \<and> byte c \<le> byte CHR ''9'') \<or>
     (byte CHR ''a'' \<le> byte c \<and> byte c \<le> byte CHR ''f'') \<or> c = CHR ''.''"

definition check_host :: "bool \<Rightarrow> string \<Rightarrow> string \<Rightarrow> td_error option" where
  "check_host ipv6 host_str user =
     (if ipv6 then
        if list_all ipv6_host_char (butlast (tl host_str)) then None else Some (Error 0 ''Wrong IPv6 URL host'')
      else case check_url_part CHR 0x00 ''host'' False host_str of
             Some e \<Rightarrow> Some e
           | None \<Rightarrow> check_url_part CHR ''@'' ''userinfo'' True user)"

definition parse_protocol :: "protocol \<Rightarrow> string \<Rightarrow> (protocol \<times> parser) result" where
  "parse_protocol default_protocol url =
     (let (scheme, p) = read_till_nofail_any '':/?#@[]'' (new_parser url);
          (found, p1) = try_skip ''://'' p
      in if found then
           if to_lower scheme = ''http'' then Inr (Http, p1)
           else if to_lower scheme = ''https'' then Inr (Https, p1)
           else Inl (Error 0 ''Unsupported URL protocol'')
         else Inr (default_protocol, new_parser url))"

definition split_port :: "string \<Rightarrow> string \<times> int" where
  "split_port userinfo_host_port =
     (case find_colon (rev userinfo_host_port) [] of
        None \<Rightarrow> (userinfo_host_port, 0)
      | Some (before, port_slice) \<Rightarrow> (before, parse_port port_slice))"

text \<open>What \<open>parse_url\<close> does after it has cut the text into protocol, authority and query.\<close>

definition parse_parts :: "pton6 \<Rightarrow> protocol \<Rightarrow> string \<Rightarrow> string \<Rightarrow> http_url result" where
  "parse_parts pton proto userinfo_host_port query =
     (let (userinfo_host, port) = split_port userinfo_host_port in
      if port < 0 \<or> port > 65535 then Inl (Error 0 ''Wrong port number specified in the URL'')
      else
        let (user, host_name) = split_userinfo userinfo_host;
            ipv6 = (host_name \<noteq> [] \<and> hd host_name = CHR ''['' \<and> last host_name = CHR '']'')
        in if ipv6 \<and> isl (init_ipv6_port pton host_name 1)
           then Inl (Error 0 ''Wrong IPv6 address specified in the URL'')
           else if host_name = [] then Inl (Error 0 ''URL host is empty'')
           else if host_name = ''.'' then Inl (Error 0 ''Host is invalid'')
           else
             let host_str = to_lower host_name in
             case check_host ipv6 host_str user of
               Some e \<Rightarrow> Inl e
             | None \<Rightarrow>
                 Inr \<lparr>url_protocol = proto, url_userinfo = user, url_host = host_str, url_is_ipv6 = ipv6,
                   specified_port = port,
                   url_port = (if port = 0 then case proto of Http \<Rightarrow> 80 | Https \<Rightarrow> 443 else port),
                   url_query = normalize_query query\<rparr>)"

definition parse_url :: "pton6 \<Rightarrow> protocol \<Rightarrow> string \<Rightarrow> http_url result" where
  "parse_url pton default_protocol url =
     (case parse_protocol default_protocol url of
        Inl e \<Rightarrow> Inl e
      | Inr (proto, p) \<Rightarrow>
          let (userinfo_host_port, p1) = read_till_nofail_any ''/?#'' p
          in parse_parts pton proto userinfo_host_port (fst (read_all p1)))"

subsection \<open>Queries of URLs\<close>

text \<open>\<open>td::full_split\<close> without a limit.\<close>

function full_split :: "string \<Rightarrow> char \<Rightarrow> string list" where
  "full_split s d =
     (if s = [] then []
      else if d \<notin> set s then [s]
      else takeWhile (\<lambda>c. c \<noteq> d) s #
        (let s' = drop 1 (dropWhile (\<lambda>c. c \<noteq> d) s) in if s' = [] then [[]] else full_split s' d))"
  by pat_completeness auto
termination
proof (relation "measure (\<lambda>(s, d). length s)")
  fix s :: string and d s'
  assume "s \<noteq> []" and "s' = drop 1 (dropWhile (\<lambda>c. c \<noteq> d) s)"
  then show "((s', d), s, d) \<in> measure (\<lambda>(s, d). length s)"
    using length_dropWhile_le [of "\<lambda>c. c \<noteq> d" s] by (cases s) auto
qed simp

declare full_split.simps [simp del]

record url_query_parts =
  uq_path :: "string list"
  uq_args :: "(string \<times> string) list"

text \<open>The loop over the arguments; one with an empty key is left out. None of the calls makes the parser fail.\<close>

function parse_url_args :: "parser \<Rightarrow> (string \<times> string) list" where
  "parse_url_args p =
     (if rest p = [] \<or> failure p \<noteq> None then []
      else let (item, p1) = read_till_nofail CHR ''&'' p;
               (k, v) = split_at item CHR ''='';
               key = url_decode k True
           in (if key \<noteq> [] then [(key, url_decode v True)] else []) @ parse_url_args (skip_nofail CHR ''&'' p1))"
  by pat_completeness auto
termination
  by (relation "measure (\<lambda>p. length (rest p))") (auto, metis read_till_nofail_skip_less snd_conv)

declare parse_url_args.simps [simp del]

definition parse_url_query :: "string \<Rightarrow> url_query_parts" where
  "parse_url_query query0 =
     (let query = (if query0 \<noteq> [] \<and> hd query0 = CHR ''/'' then tl query0 else query0);
          in_path = (\<lambda>c. c \<noteq> CHR ''?'' \<and> c \<noteq> CHR ''#'');
          path = map (\<lambda>segment. url_decode segment False) (full_split (takeWhile in_path query) CHR ''/'');
          tail = dropWhile in_path query
      in \<lparr>uq_path = rev (dropWhile (\<lambda>segment. segment = []) (rev path)),
          uq_args = (if tail \<noteq> [] \<and> hd tail = CHR ''?''
                     then parse_url_args (new_parser (takeWhile (\<lambda>c. c \<noteq> CHR ''#'') (tl tail))) else [])\<rparr>)"

definition has_url_arg :: "string \<Rightarrow> url_query_parts \<Rightarrow> bool" where
  "has_url_arg key q \<longleftrightarrow> key \<in> fst ` set (uq_args q)"

definition get_url_arg :: "string \<Rightarrow> url_query_parts \<Rightarrow> string" where
  "get_url_arg key q = (case map_of (uq_args q) key of None \<Rightarrow> [] | Some v \<Rightarrow> v)"

definition get_url_host :: "pton6 \<Rightarrow> string \<Rightarrow> string" where
  "get_url_host pton url = (case parse_url pton Http url of Inl e \<Rightarrow> [] | Inr u \<Rightarrow> url_host u)"

definition get_url_query_file_name :: "string \<Rightarrow> string" where
  "get_url_query_file_name query =
     rev (takeWhile (\<lambda>c. c \<noteq> CHR ''/'') (rev (takeWhile (\<lambda>c. c \<noteq> CHR ''?'' \<and> c \<noteq> CHR ''#'') query)))"

definition get_url_file_name :: "pton6 \<Rightarrow> string \<Rightarrow> string" where
  "get_url_file_name pton url = (case parse_url pton Http url of Inl e \<Rightarrow> [] | Inr u \<Rightarrow> get_url_query_file_name (url_query u))"

subsection \<open>Parsing the text of a URL\<close>

lemma to_lower_char_other: "byte c < 65 \<or> 90 < byte c \<Longrightarrow> to_lower_char c = c"
  by (auto simp: to_lower_char_def)

lemma byte_to_lower_char: "byte (to_lower_char c) = (if 65 \<le> byte c \<and> byte c \<le> 90 then byte c + 32 else byte c)"
  by (simp add: to_lower_char_def)

lemma to_lower_char_eq:
  assumes "byte d < 65 \<or> 90 < byte d" and "byte d < 97 \<or> 122 < byte d"
  shows "to_lower_char c = d \<longleftrightarrow> c = d"
  using assms by (auto simp: byte_inject [symmetric] byte_to_lower_char split: if_splits)

lemma to_lower_idem [simp]: "to_lower (to_lower s) = to_lower s"
  by (simp add: to_lower_def to_lower_char_def)

lemma to_lower_separators [simp]:
  "to_lower_char c = CHR ''/'' \<longleftrightarrow> c = CHR ''/''" "to_lower_char c = CHR ''?'' \<longleftrightarrow> c = CHR ''?''"
  "to_lower_char c = CHR ''#'' \<longleftrightarrow> c = CHR ''#''" "to_lower_char c = CHR ''@'' \<longleftrightarrow> c = CHR ''@''"
  "to_lower_char c = CHR '':'' \<longleftrightarrow> c = CHR '':''" "to_lower_char c = CHR ''['' \<longleftrightarrow> c = CHR ''[''"
  "to_lower_char c = CHR '']'' \<longleftrightarrow> c = CHR '']''" "to_lower_char c = CHR ''.'' \<longleftrightarrow> c = CHR ''.''"
  by (rule to_lower_char_eq; simp add: byte_def)+

lemma to_lower_parts [simp]:
  "to_lower s = [] \<longleftrightarrow> s = []" "length (to_lower s) = length s" "s \<noteq> [] \<Longrightarrow> hd (to_lower s) = to_lower_char (hd s)"
  "s \<noteq> [] \<Longrightarrow> last (to_lower s) = to_lower_char (last s)" "to_lower s = ''.'' \<longleftrightarrow> s = ''.''"
  by (auto simp: to_lower_def hd_map last_map map_eq_Cons_conv)

lemma to_lower_member:
  "CHR ''/'' \<in> set (to_lower s) \<longleftrightarrow> CHR ''/'' \<in> set s" "CHR ''?'' \<in> set (to_lower s) \<longleftrightarrow> CHR ''?'' \<in> set s"
  "CHR ''#'' \<in> set (to_lower s) \<longleftrightarrow> CHR ''#'' \<in> set s" "CHR ''@'' \<in> set (to_lower s) \<longleftrightarrow> CHR ''@'' \<in> set s"
  by (induction s) (auto simp: to_lower_def eq_commute [where b = "to_lower_char c" for c])

text \<open>The separators of the host and of the whole authority.\<close>

definition same_kind :: "char \<Rightarrow> char \<Rightarrow> bool" where
  "same_kind c d \<longleftrightarrow> (c = CHR '':'' \<longleftrightarrow> d = CHR '':'') \<and> (c = CHR '']'' \<or> c = CHR ''@'' \<longleftrightarrow> d = CHR '']'' \<or> d = CHR ''@'')"

lemma find_colon_same_kind:
  "list_all2 same_kind cs ds \<Longrightarrow> find_colon ds acc' = None \<longleftrightarrow> find_colon cs acc = None"
proof (induction cs acc arbitrary: ds acc' rule: find_colon.induct)
  case (3 c c' cs acc)
  then obtain d d' ds' where ds: "ds = d # d' # ds'" "same_kind c d" "list_all2 same_kind (c' # cs) (d' # ds')"
    by (auto simp: list_all2_Cons1)
  then have kind: "c = CHR '':'' \<longleftrightarrow> d = CHR '':''" "c = CHR '']'' \<or> c = CHR ''@'' \<longleftrightarrow> d = CHR '']'' \<or> d = CHR ''@''"
    by (simp_all only: same_kind_def)
  consider "c = CHR '':''" | "c \<noteq> CHR '':''" "c = CHR '']'' \<or> c = CHR ''@''" | "c \<noteq> CHR '':''" "\<not> (c = CHR '']'' \<or> c = CHR ''@'')"
    by blast
  then show ?case
  proof cases
    case 2
    then have "d \<noteq> CHR '':''" "d = CHR '']'' \<or> d = CHR ''@''" using kind by blast+
    then show ?thesis using 2 ds(1) by (simp only: find_colon.simps if_True if_False)
  next
    case 3
    then have "d \<noteq> CHR '':''" "\<not> (d = CHR '']'' \<or> d = CHR ''@'')" using kind by blast+
    then show ?thesis using 3 ds "3.IH" [OF 3 ds(3), of "d # acc'"] by (simp only: find_colon.simps if_False)
  qed (use ds(1) kind in simp)
qed (auto simp: list_all2_Cons1)

lemma find_colon_shorter: "find_colon (cs @ [c]) acc = None \<Longrightarrow> find_colon cs acc = None"
proof (induction cs acc rule: find_colon.induct)
  case (3 c' c'' cs acc)
  then show ?case by (auto split: if_splits)
qed simp_all

lemma find_colon_SomeI:
  "ys \<noteq> [] \<Longrightarrow> \<forall>c \<in> set xs. c \<noteq> CHR '':'' \<and> c \<noteq> CHR '']'' \<and> c \<noteq> CHR ''@'' \<Longrightarrow>
   find_colon (xs @ CHR '':'' # ys) acc = Some (rev ys, rev xs @ acc)"
proof (induction xs arbitrary: acc)
  case Nil
  then show ?case by (cases ys) simp_all
next
  case (Cons x xs)
  obtain z zs where "xs @ CHR '':'' # ys = z # zs" by (cases xs) auto
  then show ?case using Cons by simp
qed

lemma find_colon_SomeD:
  "find_colon cs acc = Some (before, port) \<Longrightarrow> \<exists>xs. cs = xs @ CHR '':'' # rev before"
proof (induction cs acc rule: find_colon.induct)
  case (3 c c' cs acc)
  show ?case
  proof (cases "c = CHR '':''")
    case False
    then obtain xs where "c' # cs = xs @ CHR '':'' # rev before" using 3 by (auto split: if_splits)
    then have "c # c' # cs = (c # xs) @ CHR '':'' # rev before" by simp
    then show ?thesis by blast
  qed (use 3 in auto)
qed simp_all

lemma split_userinfo_join:
  assumes "CHR ''@'' \<notin> set h"
  shows "split_userinfo ((if user \<noteq> [] then user @ ''@'' else []) @ h) = (user, h)"
proof (cases "user = []")
  case False
  have "CHR ''@'' \<notin> set (rev h)" using assms by simp
  then have "takeWhile (\<lambda>c. c \<noteq> CHR ''@'') (rev h @ CHR ''@'' # rev user) = rev h"
    "dropWhile (\<lambda>c. c \<noteq> CHR ''@'') (rev h @ CHR ''@'' # rev user) = CHR ''@'' # rev user"
    by (simp_all add: takeWhile_append dropWhile_append)
  then show ?thesis using False by (simp add: split_userinfo_def)
qed (use assms in \<open>simp add: split_userinfo_def\<close>)

lemma split_userinfo_cases:
  assumes "split_userinfo s = (user, h)"
  shows "CHR ''@'' \<notin> set h \<and> (s = h \<and> user = [] \<or> s = user @ ''@'' @ h)"
proof (cases "CHR ''@'' \<in> set s")
  case True
  let ?P = "\<lambda>c. c \<noteq> CHR ''@''"
  have uh: "user = rev (tl (dropWhile ?P (rev s)))" "h = rev (takeWhile ?P (rev s))" using assms True by (auto simp: split_userinfo_def)
  have "dropWhile ?P (rev s) \<noteq> []" using True by (auto simp: dropWhile_eq_Nil_conv)
  then have "dropWhile ?P (rev s) = CHR ''@'' # rev user"
    using hd_dropWhile [of ?P "rev s"] uh(1) by (metis list.collapse rev_rev_ident)
  then have "rev s = rev h @ CHR ''@'' # rev user"
    using takeWhile_dropWhile_id [of ?P "rev s"] uh(2) by simp
  then have "rev (rev s) = user @ ''@'' @ h" by (simp only: rev_append rev.simps rev_rev_ident append.assoc append.simps)
  moreover have "CHR ''@'' \<notin> set h" unfolding uh(2) using set_takeWhileD by fastforce
  ultimately show ?thesis by simp
qed (use assms in \<open>auto simp: split_userinfo_def\<close>)

lemma same_kind_lower: "list_all2 same_kind cs (map to_lower_char cs)"
  by (auto simp: list_all2_conv_all_nth same_kind_def)

lemma same_kind_refl: "list_all2 same_kind cs cs"
  by (auto simp: list_all2_conv_all_nth same_kind_def)

lemma hd_show_nat: "0 < n \<Longrightarrow> hd (show_nat n) \<noteq> CHR ''0''"
proof (induction n rule: show_nat.induct)
  case (1 n)
  have "char_of (48 + n) \<noteq> CHR ''0''" if "n < 10"
  proof
    assume "char_of (48 + n) = CHR ''0''"
    then have "byte (char_of (48 + n)) = 48" by (simp add: byte_def)
    then show False using that 1(2) by simp
  qed
  then show ?case using 1 by (cases "n < 10") (simp_all add: hd_append show_nat.simps [of n])
qed

lemma drop_zeros_show: "0 < i \<Longrightarrow> drop_zeros (show_int i) = show_int i"
proof -
  assume "0 < i"
  then have "hd (show_int i) \<noteq> CHR ''0''" using hd_show_nat [of "nat i"] by (simp add: show_int_def del: show_nat.simps)
  then show ?thesis by (cases "show_int i" rule: drop_zeros.cases) auto
qed

lemma parse_port_show: "0 < p \<Longrightarrow> p \<le> 65535 \<Longrightarrow> parse_port (show_int p) = p"
  using to_integer_show_int [of 32 p] by (simp add: parse_port_def drop_zeros_show to_integer_safe_def Let_def)

lemma parse_port_nonzero: "parse_port s \<noteq> 0"
  by (simp add: parse_port_def split: option.split)

lemma split_port_lower:
  assumes port: "split_port auth = (uh, port)" "0 \<le> port" "port \<le> 65535" and user: "split_userinfo uh = (user, h)" and "h \<noteq> []"
  defines "uh' \<equiv> (if user \<noteq> [] then user @ ''@'' else []) @ to_lower h"
  shows "split_port (uh' @ (if port > 0 then '':'' @ show_int port else [])) = (uh', port)"
proof (cases "port > 0")
  case True
  have "find_colon (rev (show_int port) @ CHR '':'' # rev uh') [] = Some (rev (rev uh'), rev (rev (show_int port)) @ [])"
  proof (rule find_colon_SomeI)
    show "rev uh' \<noteq> []" using assms(5) by (simp add: uh'_def)
    show "\<forall>c \<in> set (rev (show_int port)). c \<noteq> CHR '':'' \<and> c \<noteq> CHR '']'' \<and> c \<noteq> CHR ''@''"
      using show_nat_digits [of "nat port"] True by (auto simp: show_int_def list_all_iff is_digit_def byte_def)
  qed
  then show ?thesis using True port(3) parse_port_show [of port] by (simp add: split_port_def)
next
  case False
  then have "find_colon (rev auth) [] = None" "uh = auth"
    using port(1,2) parse_port_nonzero by (auto simp: split_port_def split: option.splits)
  then have none: "find_colon (rev uh) [] = None" by simp
  have "find_colon (rev uh') [] = None"
  proof (cases "user = []")
    case True
    have "find_colon (rev h) [] = None"
      using split_userinfo_cases [OF user] none True find_colon_shorter [of "rev h" "CHR ''@''" "[]"] by auto
    moreover have "list_all2 same_kind (rev h) (rev uh')"
      using same_kind_lower [of "rev h"] True by (simp add: uh'_def to_lower_def rev_map)
    ultimately show ?thesis using find_colon_same_kind by blast
  next
    case False
    then have "rev uh = rev h @ CHR ''@'' # rev user" using split_userinfo_cases [OF user] by auto
    moreover have "list_all2 same_kind (rev h @ CHR ''@'' # rev user) (rev uh')"
      using same_kind_lower [of "rev h"] same_kind_refl [of "CHR ''@'' # rev user"] False
      by (simp add: uh'_def to_lower_def rev_map list_all2_appendI)
    ultimately show ?thesis using none find_colon_same_kind by metis
  qed
  then show ?thesis using False port(2) by (simp add: split_port_def)
qed

text \<open>The query.\<close>

definition plain_query :: "string \<Rightarrow> bool" where
  "plain_query q \<longleftrightarrow> q \<noteq> [] \<and> hd q = CHR ''/'' \<and> (\<forall>c \<in> set q. 32 < byte c)"

lemma normalize_plain: "plain_query q \<Longrightarrow> normalize_query q = q"
proof -
  assume q: "plain_query q"
  then have "32 < byte (hd (rev q))" by (simp add: plain_query_def hd_rev)
  then have "dropWhile is_space (rev q) = rev q" using q by (cases "rev q") (auto simp: is_space_def plain_query_def)
  moreover have "concat (map quote_char xs) = xs" if "\<forall>c \<in> set xs. 32 < byte c" for xs
    using that by (induction xs) (auto simp: quote_char_def)
  ultimately show ?thesis using q by (simp add: normalize_query_def Let_def plain_query_def)
qed

lemma normalize_query_plain: "plain_query (normalize_query q)"
proof -
  define q2 where "q2 = (let q1 = rev (dropWhile is_space (rev q)) in if q1 = [] then ''/'' else q1)"
  have q2: "q2 \<noteq> []" "normalize_query q = (if hd q2 \<noteq> CHR ''/'' then ''/'' else []) @ concat (map quote_char q2)"
    by (simp_all add: q2_def normalize_query_def Let_def)
  have "32 < byte c" if "c \<in> set (quote_char d)" for c d
  proof -
    have "\<forall>x \<in> set hex_digits. 32 < byte x" by (simp add: hex_digits_def byte_def)
    moreover have "byte d div 16 < 16" "byte d mod 16 < 16" using byte_div_16 by simp_all
    ultimately show ?thesis using that hex_digit_cases by (auto simp: quote_char_def byte_def split: if_splits)
  qed
  moreover have "32 < byte CHR ''/''" by (simp add: byte_def)
  moreover have "hd (concat (map quote_char q2)) = CHR ''/'' \<and> concat (map quote_char q2) \<noteq> []" if "hd q2 = CHR ''/''"
    using that q2(1) by (cases q2) (auto simp: quote_char_def byte_def)
  ultimately show ?thesis unfolding plain_query_def q2(2) by auto
qed

text \<open>The whole text.\<close>

definition authority :: "http_url \<Rightarrow> string" where
  "authority u = (if url_userinfo u \<noteq> [] then url_userinfo u @ ''@'' else []) @ url_host u @
     (if specified_port u > 0 then '':'' @ show_int (specified_port u) else [])"

definition scheme_text :: "protocol \<Rightarrow> string" where
  "scheme_text proto = (case proto of Http \<Rightarrow> ''http://'' | Https \<Rightarrow> ''https://'')"

lemma get_url_parts: "plain_query (url_query u) \<Longrightarrow> get_url u = Some (scheme_text (url_protocol u) @ authority u @ url_query u)"
  by (simp add: get_url_def plain_query_def scheme_text_def authority_def)

lemma parse_protocol_text: "parse_protocol d (scheme_text proto @ s) = Inr (proto, new_parser s)"
  by (cases proto) (simp_all add: parse_protocol_def scheme_text_def read_till_nofail_any_def new_parser_def try_skip_def to_lower_def
      to_lower_char_def byte_def)

lemma parse_url_text:
  assumes "\<forall>c \<in> set auth. c \<notin> set ''/?#''" and "plain_query q"
  shows "parse_url pton d (scheme_text proto @ auth @ q) = parse_parts pton proto auth q"
proof -
  obtain q' where q: "q = CHR ''/'' # q'" using assms(2) by (cases q) (auto simp: plain_query_def)
  have "read_till_nofail_any ''/?#'' (new_parser (auth @ q)) = (auth, new_parser q)"
    using assms(1) by (simp add: read_till_nofail_any_def new_parser_def q takeWhile_append dropWhile_append)
  then show ?thesis by (simp add: parse_url_def parse_protocol_text read_all_def new_parser_def)
qed

lemma parse_url_InrD:
  assumes "parse_url pton d u = Inr h"
  obtains proto auth q where "parse_parts pton proto auth q = Inr h" "\<forall>c \<in> set auth. c \<notin> set ''/?#''"
proof -
  obtain proto p where "parse_protocol d u = Inr (proto, p)" using assms by (auto simp: parse_url_def split: sum.splits)
  moreover obtain auth p1 where r: "read_till_nofail_any ''/?#'' p = (auth, p1)" by (cases "read_till_nofail_any ''/?#'' p")
  ultimately have "parse_parts pton proto auth (fst (read_all p1)) = Inr h" using assms by (simp add: parse_url_def)
  moreover have "\<forall>c \<in> set auth. c \<notin> set ''/?#''"
    using r set_takeWhileD by (fastforce simp: read_till_nofail_any_def split: option.splits)
  ultimately show ?thesis by (rule that)
qed

lemma split_port_subset: "split_port auth = (uh, port) \<Longrightarrow> set uh \<subseteq> set auth"
proof (cases "find_colon (rev auth) []")
  case (Some x)
  assume port: "split_port auth = (uh, port)"
  then obtain ps where "find_colon (rev auth) [] = Some (uh, ps)" using Some by (cases x) (auto simp: split_port_def)
  then obtain xs where "rev auth = xs @ CHR '':'' # rev uh" using find_colon_SomeD by blast
  then have "set (rev auth) = set (xs @ CHR '':'' # rev uh)" by simp
  then show ?thesis by auto
qed (simp add: split_port_def)

lemma init_ipv6_lower:
  assumes pton: "\<And>a. pton a \<noteq> None \<Longrightarrow> pton (to_lower a) \<noteq> None" and "h \<noteq> []" and "\<not> isl (init_ipv6_port pton h 1)"
  shows "\<not> isl (init_ipv6_port pton (to_lower h) 1)"
proof -
  define plain where "plain = (\<lambda>h :: string. if length h > 2 \<and> hd h = CHR ''['' \<and> last h = CHR '']'' then butlast (tl h) else h)"
  have "plain (to_lower h) = to_lower (plain h)" using assms(2) by (auto simp: plain_def to_lower_def map_butlast map_tl hd_map last_map)
  moreover have ok: "\<not> isl (init_ipv6_port pton g 1) \<longleftrightarrow> pton (plain g) \<noteq> None" for g
    by (auto simp: init_ipv6_port_def plain_def Let_def split: option.splits)
  ultimately show ?thesis using pton assms(3) by simp
qed

lemma parse_parts_again:
  assumes pton: "\<And>a. pton a \<noteq> None \<Longrightarrow> pton (to_lower a) \<noteq> None"
    and parts: "parse_parts pton proto auth q = Inr h" and seps: "\<forall>c \<in> set auth. c \<notin> set ''/?#''"
  shows "parse_parts pton (url_protocol h) (authority h) (url_query h) = Inr h" "plain_query (url_query h)"
    "\<forall>c \<in> set (authority h). c \<notin> set ''/?#''"
proof -
  obtain uh port where port: "split_port auth = (uh, port)" by (cases "split_port auth")
  obtain user hn where user: "split_userinfo uh = (user, hn)" by (cases "split_userinfo uh")
  define v6 where "v6 = (hn \<noteq> [] \<and> hd hn = CHR ''['' \<and> last hn = CHR '']'')"
  have range: "0 \<le> port" "port \<le> 65535" and hn: "hn \<noteq> []" "hn \<noteq> ''.''" and ip: "v6 \<Longrightarrow> \<not> isl (init_ipv6_port pton hn 1)"
    and check: "check_host v6 (to_lower hn) user = None"
    and h: "h = \<lparr>url_protocol = proto, url_userinfo = user, url_host = to_lower hn, url_is_ipv6 = v6, specified_port = port,
      url_port = (if port = 0 then case proto of Http \<Rightarrow> 80 | Https \<Rightarrow> 443 else port), url_query = normalize_query q\<rparr>"
    using parts [unfolded parse_parts_def port user prod.case Let_def, folded v6_def] by (auto split: if_splits option.splits)
  show plain: "plain_query (url_query h)" by (simp add: h normalize_query_plain)
  have sub: "set user \<subseteq> set auth" "set hn \<subseteq> set auth"
    using split_port_subset [OF port] split_userinfo_cases [OF user] by auto
  have "CHR ''/'' \<notin> set (show_int port)" "CHR ''?'' \<notin> set (show_int port)" "CHR ''#'' \<notin> set (show_int port)"
    by (rule show_int_no_char; simp add: is_digit_def byte_def)+
  moreover have "CHR ''/'' \<notin> set (to_lower hn)" "CHR ''?'' \<notin> set (to_lower hn)" "CHR ''#'' \<notin> set (to_lower hn)"
    using seps sub(2) by (auto simp: to_lower_member)
  ultimately show "\<forall>c \<in> set (authority h). c \<notin> set ''/?#''" using seps sub(1) by (auto simp: authority_def h)
  have "CHR ''@'' \<notin> set (to_lower hn)" using split_userinfo_cases [OF user] by (simp add: to_lower_member)
  note again = split_port_lower [OF port range user hn(1)] split_userinfo_join [OF this, of user]
  have v6': "(to_lower hn \<noteq> [] \<and> hd (to_lower hn) = CHR ''['' \<and> last (to_lower hn) = CHR '']'') = v6" using hn(1) by (simp add: v6_def)
  have sp: "split_port (authority h) = ((if user \<noteq> [] then user @ ''@'' else []) @ to_lower hn, port)"
    using again(1) unfolding authority_def h append.assoc by (simp only: http_url.simps append.assoc)
  show "parse_parts pton (url_protocol h) (authority h) (url_query h) = Inr h"
    unfolding parse_parts_def sp prod.case again(2) Let_def v6' normalize_plain [OF plain]
    using range hn init_ipv6_lower [OF pton hn(1) ip] check by (simp add: h)
qed

text \<open>
  (C32) A URL that was accepted can be printed, and parsing the printed text gives the same URL, whatever the
  default protocol is then: protocol, user information, host, port and query all survive. (\<open>inet_pton\<close>
  reads hexadecimal digits of either case.)
\<close>

theorem url_round_trip:
  assumes "\<And>a. pton a \<noteq> None \<Longrightarrow> pton (to_lower a) \<noteq> None" and "parse_url pton d u = Inr h"
  shows "\<exists>t. get_url h = Some t \<and> parse_url pton d' t = Inr h"
proof -
  obtain proto auth q where "parse_parts pton proto auth q = Inr h" "\<forall>c \<in> set auth. c \<notin> set ''/?#''"
    using parse_url_InrD [OF assms(2)] .
  from parse_parts_again [where pton = pton, OF assms(1) this] show ?thesis
    by (simp add: get_url_parts parse_url_text)
qed

theorem url_round_trip_witness:
  "\<exists>h t. parse_url (\<lambda>a. None) Https ''EX.org?a b'' = Inr h \<and> url_query h = ''/?a%20b'' \<and> get_url h = Some t \<and>
     parse_url (\<lambda>a. None) Http t = Inr h"
proof -
  let ?h = "\<lparr>url_protocol = Https, url_userinfo = [], url_host = ''ex.org'', url_is_ipv6 = False, specified_port = 0,
    url_port = 443, url_query = ''/?a%20b''\<rparr>"
  have "to_lower ''EX.org'' = ''ex.org''" by code_simp
  then have "parse_url (\<lambda>a. None) Https ''EX.org?a b'' = Inr ?h"
    by (simp add: parse_url_def parse_protocol_def read_till_nofail_any_def new_parser_def try_skip_def parse_parts_def split_port_def
        split_userinfo_def check_host_def url_part_char_def is_alnum_def is_alpha_def set_bit5_def normalize_query_def quote_char_def
        is_space_def hex_digits_def read_all_def byte_def)
  then show ?thesis using url_round_trip [of "\<lambda>a. None" Https "''EX.org?a b''" ?h Http] by auto
qed

end
