(* ===== verification/Base64.thy ===== *)
theory Base64
  imports Text_Utils
begin

section \<open>Base64\<close>

text \<open>
  \<open>tdutils/td/utils/base64.cpp\<close>: the two alphabets, encoding in groups of three bytes, the padding rules and
  decoding. Decoding inverts encoding and accepts nothing but encodings, so a text that the server accepts
  as base64 has only one spelling (up to the padding of the URL alphabet).
\<close>

subsection \<open>Definitions\<close>

definition base64_characters :: "bool \<Rightarrow> string" where
  "base64_characters is_url =
     (if is_url then ''ABCDEFGHIJKLMNOPQRSTUVWXYZabcdefghijklmnopqrstuvwxyz0123456789-_''
      else ''ABCDEFGHIJKLMNOPQRSTUVWXYZabcdefghijklmnopqrstuvwxyz0123456789+/'')"

text \<open>The table \<open>char_to_value\<close>: the position in the alphabet, or 64.\<close>

fun find_char :: "string \<Rightarrow> char \<Rightarrow> nat" where
  "find_char [] c = 0"
| "find_char (x # xs) c = (if x = c then 0 else Suc (find_char xs c))"

definition character_table :: "bool \<Rightarrow> char \<Rightarrow> nat" where
  "character_table is_url c =
     (if c \<in> set (base64_characters is_url) then find_char (base64_characters is_url) c else 64)"

text \<open>One round of the loop per group of up to three bytes, on the 24-bit number the code builds.\<close>

fun base64_encode_impl :: "bool \<Rightarrow> string \<Rightarrow> string" where
  "base64_encode_impl is_url [] = []"
| "base64_encode_impl is_url [x] =
     (let c = byte x * 2 ^ 16; ch = base64_characters is_url
      in [ch ! (c div 2 ^ 18), ch ! (c div 2 ^ 12 mod 64)] @ (if is_url then [] else ''==''))"
| "base64_encode_impl is_url [x, y] =
     (let c = byte x * 2 ^ 16 + byte y * 2 ^ 8; ch = base64_characters is_url
      in [ch ! (c div 2 ^ 18), ch ! (c div 2 ^ 12 mod 64), ch ! (c div 2 ^ 6 mod 64)] @ (if is_url then [] else ''=''))"
| "base64_encode_impl is_url (x # y # z # bs) =
     (let c = byte x * 2 ^ 16 + byte y * 2 ^ 8 + byte z; ch = base64_characters is_url
      in [ch ! (c div 2 ^ 18), ch ! (c div 2 ^ 12 mod 64), ch ! (c div 2 ^ 6 mod 64), ch ! (c mod 64)]
         @ base64_encode_impl is_url bs)"

definition base64_encode :: "string \<Rightarrow> string" where
  "base64_encode input = base64_encode_impl False input"

definition base64url_encode :: "string \<Rightarrow> string" where
  "base64url_encode input = base64_encode_impl True input"

definition base64_drop_padding :: "bool \<Rightarrow> string \<Rightarrow> string result" where
  "base64_drop_padding is_url base64 =
     (let padding_length = length (takeWhile (\<lambda>c. c = CHR ''='') (rev base64));
          b = rev (dropWhile (\<lambda>c. c = CHR ''='') (rev base64))
      in if padding_length \<ge> 3 then Inl (Error 0 ''Wrong string padding'')
         else if (\<not> is_url \<or> padding_length > 0) \<and> (length b + padding_length) mod 4 \<noteq> 0
         then Inl (Error 0 ''Wrong padding length'')
         else if is_url \<and> length b mod 4 = 1 then Inl (Error 0 ''Wrong string length'')
         else Inr b)"

text \<open>
  The decoding loop: groups of four, the last one shorter. In a group of one character the code writes two bytes, the
  second behind the end of the result when the length is 1 modulo 4, which \<open>base64_drop_padding\<close> rules out; here it
  is an error of its own.
\<close>

definition wrong_character :: td_error where
  "wrong_character = Error 0 ''Wrong character in the string''"

definition wrong_padding :: td_error where
  "wrong_padding = Error 0 ''Wrong padding in the string''"

fun do_base64_decode_impl :: "(char \<Rightarrow> nat) \<Rightarrow> string \<Rightarrow> string result" where
  "do_base64_decode_impl table [] = Inr []"
| "do_base64_decode_impl table [a] = Inl (Error 0 ''Out of bounds'')"
| "do_base64_decode_impl table [a, b] =
     (if table a = 64 \<or> table b = 64 then Inl wrong_character
      else let c = table a * 2 ^ 18 + table b * 2 ^ 12
           in if c mod 2 ^ 16 \<noteq> 0 then Inl wrong_padding else Inr [char_of (c div 2 ^ 16)])"
| "do_base64_decode_impl table [a, b, d] =
     (if table a = 64 \<or> table b = 64 \<or> table d = 64 then Inl wrong_character
      else let c = table a * 2 ^ 18 + table b * 2 ^ 12 + table d * 2 ^ 6
           in if c mod 2 ^ 8 \<noteq> 0 then Inl wrong_padding
              else Inr [char_of (c div 2 ^ 16), char_of (c div 2 ^ 8 mod 256)])"
| "do_base64_decode_impl table (a # b # d # e # s) =
     (if table a = 64 \<or> table b = 64 \<or> table d = 64 \<or> table e = 64 then Inl wrong_character
      else let c = table a * 2 ^ 18 + table b * 2 ^ 12 + table d * 2 ^ 6 + table e
           in map_sum id (\<lambda>bs. char_of (c div 2 ^ 16) # char_of (c div 2 ^ 8 mod 256) # char_of (c mod 256) # bs)
                (do_base64_decode_impl table s))"

definition base64_decode_impl :: "bool \<Rightarrow> string \<Rightarrow> string result" where
  "base64_decode_impl is_url base64 =
     (case base64_drop_padding is_url base64 of
        Inl e \<Rightarrow> Inl e
      | Inr b \<Rightarrow> do_base64_decode_impl (character_table is_url) b)"

definition base64_decode :: "string \<Rightarrow> string result" where
  "base64_decode base64 = base64_decode_impl False base64"

definition base64url_decode :: "string \<Rightarrow> string result" where
  "base64url_decode base64 = base64_decode_impl True base64"

definition is_base64_impl :: "bool \<Rightarrow> string \<Rightarrow> bool" where
  "is_base64_impl is_url input =
     (let padding_length = length (takeWhile (\<lambda>c. c = CHR ''='') (rev input));
          b = rev (dropWhile (\<lambda>c. c = CHR ''='') (rev input)); table = character_table is_url
      in if padding_length \<ge> 3 then False
         else if (\<not> is_url \<or> padding_length > 0) \<and> (length b + padding_length) mod 4 \<noteq> 0 then False
         else if is_url \<and> length b mod 4 = 1 then False
         else if list_ex (\<lambda>c. table c = 64) b then False
         else if length b mod 4 = 2 \<and> table (last b) mod 16 \<noteq> 0 then False
         else if length b mod 4 = 3 \<and> table (last b) mod 4 \<noteq> 0 then False
         else True)"

definition is_base64_characters_impl :: "bool \<Rightarrow> string \<Rightarrow> bool" where
  "is_base64_characters_impl is_url input = list_all (\<lambda>c. character_table is_url c \<noteq> 64) input"

definition base64_filter :: "string \<Rightarrow> string" where
  "base64_filter input = filter (\<lambda>c. character_table False c \<noteq> 64 \<or> c = CHR ''='') input"

subsection \<open>The alphabet\<close>

lemma find_char_nth: "distinct xs \<Longrightarrow> i < length xs \<Longrightarrow> find_char xs (xs ! i) = i"
  by (induction xs arbitrary: i) (auto simp: nth_Cons' split: if_splits)

lemma find_char_found: "c \<in> set xs \<Longrightarrow> find_char xs c < length xs \<and> xs ! find_char xs c = c"
  by (induction xs) auto

lemma alphabet:
  "length (base64_characters u) = 64" "distinct (base64_characters u)" "CHR ''='' \<notin> set (base64_characters u)"
  by (cases u; simp add: base64_characters_def)+

lemma character_table_nth [simp]: "n < 64 \<Longrightarrow> character_table u (base64_characters u ! n) = n"
  using find_char_nth [OF alphabet(2)] nth_mem [of n "base64_characters u"] by (simp add: character_table_def alphabet(1))

lemma nth_character_table:
  assumes "character_table u c \<noteq> 64"
  shows "character_table u c < 64" "base64_characters u ! character_table u c = c"
  using assms find_char_found [of c "base64_characters u"] by (auto simp: character_table_def alphabet(1) split: if_splits)

lemma nth_alphabet_not_padding [simp]: "n < 64 \<Longrightarrow> base64_characters u ! n \<noteq> CHR ''=''"
  using alphabet(3) [of u] nth_mem [of n "base64_characters u"] by (metis alphabet(1))

subsection \<open>The numbers of a group\<close>

lemma low_digit: "b < k \<Longrightarrow> (a * k + b) div k = a" "b < k \<Longrightarrow> (a * k + b) mod k = (b :: nat)"
  by simp_all

lemma sextets:
  fixes a :: nat
  assumes "a < 64" "b < 64" "d < 64" "e < 64" and "c = a * 2 ^ 18 + b * 2 ^ 12 + d * 2 ^ 6 + e"
  shows "c div 2 ^ 18 = a" "c div 2 ^ 12 mod 64 = b" "c div 2 ^ 6 mod 64 = d" "c mod 64 = e" "c < 2 ^ 24"
proof -
  have c: "c = ((a * 64 + b) * 64 + d) * 64 + e" using assms(5) by simp
  have 1: "c div 64 = (a * 64 + b) * 64 + d" "c mod 64 = e" unfolding c using low_digit [OF assms(4)] by blast+
  have "c div 4096 = c div 64 div 64" "c div 262144 = c div 4096 div 64" by (simp_all add: div_mult2_eq [symmetric])
  then have "c div 4096 = a * 64 + b" "c div 262144 = a" unfolding 1 using low_digit assms(2,3) by auto
  then show "c div 2 ^ 18 = a" "c div 2 ^ 12 mod 64 = b" "c div 2 ^ 6 mod 64 = d" "c mod 64 = e"
    using 1 assms(2) low_digit(2) [OF assms(3), of "a * 64 + b"] by simp_all
  show "c < 2 ^ 24" using assms by simp
qed

lemma octets:
  fixes x :: nat
  assumes "x < 256" "y < 256" "z < 256" and "c = x * 2 ^ 16 + y * 2 ^ 8 + z"
  shows "c div 2 ^ 16 = x" "c div 2 ^ 8 mod 256 = y" "c mod 256 = z" "c < 2 ^ 24"
proof -
  have c: "c = (x * 256 + y) * 256 + z" using assms by simp
  have 1: "c div 256 = x * 256 + y" "c mod 256 = z" unfolding c using low_digit [OF assms(3)] by blast+
  have "c div 65536 = c div 256 div 256" by (simp add: div_mult2_eq [symmetric])
  then show "c div 2 ^ 16 = x" "c div 2 ^ 8 mod 256 = y" "c mod 256 = z" using 1 assms(2) by simp_all
  show "c < 2 ^ 24" using assms by simp
qed

lemma join_sextets: "(c div 2 ^ 18) * 2 ^ 18 + (c div 2 ^ 12 mod 64) * 2 ^ 12 + (c div 2 ^ 6 mod 64) * 2 ^ 6 + c mod 64 = (c :: nat)"
proof -
  have "c div 4096 = c div 64 div 64" "c div 262144 = c div 4096 div 64" by (simp_all add: div_mult2_eq [symmetric])
  then have "c div 262144 * 64 + c div 4096 mod 64 = c div 4096" "c div 4096 * 64 + c div 64 mod 64 = c div 64"
    "c div 64 * 64 + c mod 64 = c" by (simp_all only: div_mult_mod_eq)
  then have "c div 262144 * 262144 + c div 4096 mod 64 * 4096 + c div 64 mod 64 * 64 + c mod 64 = c" by linarith
  then show ?thesis by simp
qed

lemma join_octets: "(c div 2 ^ 16) * 2 ^ 16 + (c div 2 ^ 8 mod 256) * 2 ^ 8 + c mod 256 = (c :: nat)"
proof -
  have "c div 65536 = c div 256 div 256" by (simp add: div_mult2_eq [symmetric])
  then have "c div 65536 * 256 + c div 256 mod 256 = c div 256" "c div 256 * 256 + c mod 256 = c"
    by (simp_all only: div_mult_mod_eq)
  then have "c div 65536 * 65536 + c div 256 mod 256 * 256 + c mod 256 = c" by linarith
  then show ?thesis by simp
qed

subsection \<open>Encoding without padding\<close>

text \<open>The four characters of a group, the characters of an encoding and the padding behind them.\<close>

definition sextet_chars :: "bool \<Rightarrow> nat \<Rightarrow> string" where
  "sextet_chars u c = map (nth (base64_characters u)) [c div 2 ^ 18, c div 2 ^ 12 mod 64, c div 2 ^ 6 mod 64, c mod 64]"

fun base64_body :: "bool \<Rightarrow> string \<Rightarrow> string" where
  "base64_body u [] = []"
| "base64_body u [x] = take 2 (sextet_chars u (byte x * 2 ^ 16))"
| "base64_body u [x, y] = take 3 (sextet_chars u (byte x * 2 ^ 16 + byte y * 2 ^ 8))"
| "base64_body u (x # y # z # bs) = sextet_chars u (byte x * 2 ^ 16 + byte y * 2 ^ 8 + byte z) @ base64_body u bs"

definition base64_padding :: "bool \<Rightarrow> nat \<Rightarrow> string" where
  "base64_padding u n = (if u then [] else if n mod 3 = 1 then ''=='' else if n mod 3 = 2 then ''='' else [])"

lemma base64_padding_add [simp]: "base64_padding u (Suc (Suc (Suc n))) = base64_padding u n"
proof -
  have "Suc (Suc (Suc n)) mod 3 = n mod 3" by presburger
  then show ?thesis by (simp add: base64_padding_def)
qed

lemma encode_body: "base64_encode_impl u bs = base64_body u bs @ base64_padding u (length bs)"
  by (induction u bs rule: base64_body.induct) (simp_all add: sextet_chars_def Let_def, simp_all add: base64_padding_def)

lemma length_body: "length (base64_body u bs) = (4 * length bs + 2) div 3"
  by (induction u bs rule: base64_body.induct) (simp_all add: sextet_chars_def)

lemma set_sextet_chars: "c < 2 ^ 24 \<Longrightarrow> set (sextet_chars u c) \<subseteq> set (base64_characters u)"
  by (auto simp: sextet_chars_def alphabet(1) intro!: nth_mem)

lemma group_less:
  "byte x * 2 ^ 16 < 2 ^ 24" "byte x * 2 ^ 16 + byte y * 2 ^ 8 < 2 ^ 24" "byte x * 2 ^ 16 + byte y * 2 ^ 8 + byte z < 2 ^ 24"
  using octets(4) [of "byte x" "byte y" "byte z", OF byte_less byte_less byte_less refl] by linarith+

lemma octet_chars:
  assumes "c = byte x * 2 ^ 16 + byte y * 2 ^ 8 + byte z"
  shows "char_of (c div 65536) = x" "char_of (c div 256) = y" "char_of c = z"
proof -
  have "c div 65536 = byte x" "c div 256 mod 256 = byte y" "c mod 256 = byte z"
    using octets(1-3) [of "byte x" "byte y" "byte z", OF byte_less byte_less byte_less assms] by simp_all
  then have "char_of (c div 65536) = x" "char_of (c div 256 mod 256) = y" "char_of (c mod 256) = z" by (simp_all only: char_of_byte)
  then show "char_of (c div 65536) = x" "char_of (c div 256) = y" "char_of c = z" by simp_all
qed

lemma set_body: "set (base64_body u bs) \<subseteq> set (base64_characters u)"
proof (induction u bs rule: base64_body.induct)
  case (2 u x)
  then show ?case using set_sextet_chars [OF group_less(1)] set_take_subset by fastforce
next
  case (3 u x y)
  then show ?case using set_sextet_chars [OF group_less(2)] set_take_subset by fastforce
next
  case (4 u x y z bs)
  then show ?case using set_sextet_chars [OF group_less(3)] by simp
qed simp

lemma drop_padding:
  assumes "CHR ''='' \<notin> set b"
  shows "takeWhile (\<lambda>c. c = CHR ''='') (rev (b @ replicate n CHR ''='')) = replicate n CHR ''=''"
    and "rev (dropWhile (\<lambda>c. c = CHR ''='') (rev (b @ replicate n CHR ''=''))) = b"
proof -
  have "takeWhile (\<lambda>c. c = CHR ''='') (rev b) = []" "dropWhile (\<lambda>c. c = CHR ''='') (rev b) = rev b"
    using assms by (cases "rev b"; force simp: takeWhile_eq_Nil_iff)+
  then show "takeWhile (\<lambda>c. c = CHR ''='') (rev (b @ replicate n CHR ''='')) = replicate n CHR ''=''"
    "rev (dropWhile (\<lambda>c. c = CHR ''='') (rev (b @ replicate n CHR ''=''))) = b"
    by (simp_all add: takeWhile_append dropWhile_append)
qed

subsection \<open>Decoding\<close>

lemma table_sextet_chars:
  assumes "c < 2 ^ 24"
  shows "character_table u (base64_characters u ! (c div 262144)) = c div 262144"
    "character_table u (base64_characters u ! (c div 4096 mod 64)) = c div 4096 mod 64"
    "character_table u (base64_characters u ! (c div 64 mod 64)) = c div 64 mod 64"
    "character_table u (base64_characters u ! (c mod 64)) = c mod 64" "c div 262144 \<noteq> 64"
  using assms by simp_all

lemma decode_group2:
  assumes "c < 2 ^ 24" "c mod 2 ^ 16 = 0"
  shows "do_base64_decode_impl (character_table u) (take 2 (sextet_chars u c)) = Inr [char_of (c div 2 ^ 16)]"
proof -
  obtain k where "c = k * 65536" using assms(2) by auto
  then have "c div 64 mod 64 = 0" "c mod 64 = 0" by simp_all
  then have "c div 262144 * 262144 + c div 4096 mod 64 * 4096 = c" using join_sextets [of c] by simp
  then show ?thesis using assms table_sextet_chars(1-4) [OF assms(1), of u] table_sextet_chars(5) [OF assms(1)]
    by (simp add: sextet_chars_def Let_def less_imp_neq)
qed

lemma decode_group3:
  assumes "c < 2 ^ 24" "c mod 2 ^ 8 = 0"
  shows "do_base64_decode_impl (character_table u) (take 3 (sextet_chars u c)) =
    Inr [char_of (c div 2 ^ 16), char_of (c div 2 ^ 8 mod 256)]"
proof -
  obtain k where "c = k * 256" using assms(2) by auto
  then have "c mod 64 = 0" by simp
  then have "c div 262144 * 262144 + c div 4096 mod 64 * 4096 + c div 64 mod 64 * 64 = c" using join_sextets [of c] by simp
  then show ?thesis using assms table_sextet_chars(1-4) [OF assms(1), of u] table_sextet_chars(5) [OF assms(1)]
    by (simp add: sextet_chars_def Let_def less_imp_neq)
qed

lemma decode_group4:
  assumes "c < 2 ^ 24"
  shows "do_base64_decode_impl (character_table u) (sextet_chars u c @ s) =
    map_sum id (\<lambda>bs. char_of (c div 2 ^ 16) # char_of (c div 2 ^ 8 mod 256) # char_of (c mod 256) # bs)
      (do_base64_decode_impl (character_table u) s)"
proof -
  have "c div 262144 * 262144 + c div 4096 mod 64 * 4096 + c div 64 mod 64 * 64 + c mod 64 = c" using join_sextets [of c] by simp
  then show ?thesis using assms table_sextet_chars(1-4) [OF assms(1), of u] table_sextet_chars(5) [OF assms(1)]
    by (simp add: sextet_chars_def Let_def less_imp_neq)
qed

lemma decode_body: "do_base64_decode_impl (character_table u) (base64_body u bs) = Inr bs"
proof (induction u bs rule: base64_body.induct)
  case (2 u x)
  then show ?case using decode_group2 [OF group_less(1) [of x], of u] by simp
next
  case (3 u x y)
  have "(byte x * 256 + byte y) * 256 mod 256 = 0" by (rule mod_mult_self2_is_0)
  then have "(byte x * 2 ^ 16 + byte y * 2 ^ 8) mod 2 ^ 8 = 0" by (simp add: algebra_simps)
  then show ?case
    using decode_group3 [OF group_less(2) [of x y], of u] octet_chars [of _ x y "CHR 0x00"] by (simp add: byte_def)
next
  case (4 u x y z bs)
  then show ?case
    using decode_group4 [OF group_less(3) [of x y z], of u "base64_body u bs"] octet_chars [OF refl, of x y z]
    by simp
qed simp

text \<open>And what is decoded is an encoding: the characters of a group are determined by its bytes.\<close>

lemma sextet_chars_table:
  assumes "A < 64" "B < 64" "D < 64" "E < 64"
  shows "sextet_chars u (A * 2 ^ 18 + B * 2 ^ 12 + D * 2 ^ 6 + E) = map (nth (base64_characters u)) [A, B, D, E]"
  unfolding sextet_chars_def sextets [OF assms refl] ..

lemma bytes_of_group:
  fixes c :: nat
  assumes "c < 2 ^ 24"
  shows "byte (char_of (c div 2 ^ 16)) * 2 ^ 16 + byte (char_of (c div 2 ^ 8 mod 256)) * 2 ^ 8 + byte (char_of (c mod 256)) = c"
proof -
  have "c div 2 ^ 16 < 256" using assms by simp
  then have "byte (char_of (c div 2 ^ 16)) = c div 2 ^ 16" "byte (char_of (c div 2 ^ 8 mod 256)) = c div 2 ^ 8 mod 256"
    "byte (char_of (c mod 256)) = c mod 256" by (simp_all only: byte_char_of mod_less_divisor zero_less_numeral)
  then show ?thesis using join_octets [of c] by (simp only:)
qed

lemma decode_inverse: "do_base64_decode_impl (character_table u) b = Inr bs \<Longrightarrow> b = base64_body u bs"
proof (induction "character_table u" b arbitrary: bs rule: do_base64_decode_impl.induct)
  case (3 a b)
  let ?A = "character_table u a" and ?B = "character_table u b"
  let ?c = "?A * 2 ^ 18 + ?B * 2 ^ 12"
  have ab: "?A \<noteq> 64" "?B \<noteq> 64" and mod: "?c mod 2 ^ 16 = 0" and bs: "bs = [char_of (?c div 2 ^ 16)]"
    using 3 by (auto simp: Let_def split: if_splits)
  note A = nth_character_table [OF ab(1)] and B = nth_character_table [OF ab(2)]
  have "?c div 2 ^ 16 < 256" using A(1) B(1) by simp
  then have "byte (char_of (?c div 2 ^ 16)) = ?c div 2 ^ 16" by (rule byte_char_of)
  then have "byte (char_of (?c div 2 ^ 16)) * 2 ^ 16 = ?c" using mod div_mult_mod_eq [of ?c "2 ^ 16"] by (metis add_0_right)
  then show ?case using sextet_chars_table [OF A(1) B(1), of 0 0 u] A(2) B(2) bs by simp
next
  case (4 a b d)
  let ?A = "character_table u a" and ?B = "character_table u b" and ?D = "character_table u d"
  let ?c = "?A * 2 ^ 18 + ?B * 2 ^ 12 + ?D * 2 ^ 6"
  have abd: "?A \<noteq> 64" "?B \<noteq> 64" "?D \<noteq> 64" and mod: "?c mod 2 ^ 8 = 0"
    and bs: "bs = [char_of (?c div 2 ^ 16), char_of (?c div 2 ^ 8 mod 256)]"
    using 4 by (auto simp: Let_def split: if_splits)
  note A = nth_character_table [OF abd(1)] and B = nth_character_table [OF abd(2)] and D = nth_character_table [OF abd(3)]
  have "?c < 2 ^ 24" using sextets(5) [OF A(1) B(1) D(1), of 0] by simp
  moreover have "byte (char_of (?c mod 256)) = 0" using mod by (simp add: byte_def)
  ultimately have "byte (char_of (?c div 2 ^ 16)) * 2 ^ 16 + byte (char_of (?c div 2 ^ 8 mod 256)) * 2 ^ 8 = ?c"
    using bytes_of_group [of ?c] by linarith
  then show ?case
    using sextet_chars_table [OF A(1) B(1) D(1), of 0 u] A(2) B(2) D(2) bs by (simp only: base64_body.simps) simp
next
  case (5 a b d e s)
  let ?A = "character_table u a" and ?B = "character_table u b" and ?D = "character_table u d" and ?E = "character_table u e"
  let ?c = "?A * 2 ^ 18 + ?B * 2 ^ 12 + ?D * 2 ^ 6 + ?E"
  have abde: "?A \<noteq> 64" "?B \<noteq> 64" "?D \<noteq> 64" "?E \<noteq> 64" using 5(2) by (auto split: if_splits)
  then obtain bs' where rec: "do_base64_decode_impl (character_table u) s = Inr bs'"
    and bs: "bs = char_of (?c div 2 ^ 16) # char_of (?c div 2 ^ 8 mod 256) # char_of (?c mod 256) # bs'"
    using 5(2) by (cases "do_base64_decode_impl (character_table u) s") (auto simp: Let_def)
  note A = nth_character_table [OF abde(1)] and B = nth_character_table [OF abde(2)] and D = nth_character_table [OF abde(3)]
    and E = nth_character_table [OF abde(4)]
  have "?c < 2 ^ 24" by (rule sextets(5) [OF A(1) B(1) D(1) E(1) refl])
  note c = bytes_of_group [OF this]
  have "s = base64_body u bs'" using 5(1) rec abde by simp
  then show ?case
    unfolding bs base64_body.simps c sextet_chars_table [OF A(1) B(1) D(1) E(1)] using A(2) B(2) D(2) E(2) by simp
qed simp_all

lemma padded_length: "length (base64_body False bs @ base64_padding False (length bs)) mod 4 = 0"
  by (induction "False" bs rule: base64_body.induct) (simp_all add: sextet_chars_def, simp_all add: base64_padding_def)

lemma body_length_not_1: "length (base64_body u bs) mod 4 \<noteq> 1"
  by (induction u bs rule: base64_body.induct) (simp_all add: sextet_chars_def)

lemma padding_replicate: "\<exists>n < 3. base64_padding u k = replicate n CHR ''=''"
proof (intro exI conjI)
  let ?n = "if u then 0 else if k mod 3 = 1 then 2 else if k mod 3 = 2 then 1 else 0 :: nat"
  show "?n < 3" "base64_padding u k = replicate ?n CHR ''=''" by (simp_all add: base64_padding_def numeral_2_eq_2)
qed

lemma drop_padding_encode: "base64_drop_padding u (base64_encode_impl u bs) = Inr (base64_body u bs)"
proof -
  obtain n where n: "n < 3" "base64_padding u (length bs) = replicate n CHR ''=''" using padding_replicate by blast
  have "CHR ''='' \<notin> set (base64_body u bs)" using set_body alphabet(3) by blast
  note drop_padding [OF this, of n]
  moreover have "(length (base64_body False bs) + n) mod 4 = 0" if "\<not> u" using padded_length [of bs] n(2) that by simp
  moreover have "n = 0" if u using n(2) that by (simp add: base64_padding_def)
  ultimately show ?thesis
    using n(1) body_length_not_1 [of u bs] unfolding encode_body n(2) base64_drop_padding_def Let_def by (cases u) simp_all
qed

text \<open>The test \<open>is_base64\<close> looks only at the last character of an incomplete group; it agrees with the decoder.\<close>

lemma unused_bits:
  fixes A :: nat
  shows "(A * 262144 + B * 4096) mod 65536 = 0 \<longleftrightarrow> B mod 16 = 0" "(A * 262144 + B * 4096 + D * 64) mod 256 = 0 \<longleftrightarrow> D mod 4 = 0"
proof -
  have "(65536 :: nat) = 4096 * 16" "A * 262144 + B * 4096 = 4096 * (A * 64 + B)" by simp_all
  then have "65536 dvd A * 262144 + B * 4096 \<longleftrightarrow> 16 dvd A * 64 + B" by (metis nat_mult_dvd_cancel_disj zero_neq_numeral)
  also have "\<dots> \<longleftrightarrow> 16 dvd B" by (rule dvd_add_right_iff) simp
  finally show "(A * 262144 + B * 4096) mod 65536 = 0 \<longleftrightarrow> B mod 16 = 0" by (simp only: mod_eq_0_iff_dvd)
  have "(256 :: nat) = 64 * 4" "A * 262144 + B * 4096 + D * 64 = 64 * (A * 4096 + B * 64 + D)" by simp_all
  then have "256 dvd A * 262144 + B * 4096 + D * 64 \<longleftrightarrow> 4 dvd A * 4096 + B * 64 + D"
    by (metis nat_mult_dvd_cancel_disj zero_neq_numeral)
  also have "\<dots> \<longleftrightarrow> 4 dvd D" by (rule dvd_add_right_iff) simp
  finally show "(A * 262144 + B * 4096 + D * 64) mod 256 = 0 \<longleftrightarrow> D mod 4 = 0" by (simp only: mod_eq_0_iff_dvd)
qed

lemma decodes_iff:
  "length b mod 4 \<noteq> 1 \<Longrightarrow> (\<exists>s. do_base64_decode_impl table b = Inr s) \<longleftrightarrow>
     \<not> list_ex (\<lambda>c. table c = 64) b \<and> (length b mod 4 = 2 \<longrightarrow> table (last b) mod 16 = 0) \<and>
     (length b mod 4 = 3 \<longrightarrow> table (last b) mod 4 = 0)"
proof (induction table b rule: do_base64_decode_impl.induct)
  case (3 table a b)
  then show ?case using unused_bits(1) [of "table a" "table b"] by (auto simp: Let_def)
next
  case (4 table a b d)
  then show ?case using unused_bits(2) [of "table a" "table b" "table d"] by (auto simp: Let_def)
next
  case (5 table a b d e s)
  have len: "length (a # b # d # e # s) mod 4 = length s mod 4" by simp
  have last: "s \<noteq> [] \<Longrightarrow> last (a # b # d # e # s) = last s" by simp
  show ?case
  proof (cases "table a = 64 \<or> table b = 64 \<or> table d = 64 \<or> table e = 64")
    case False
    then have "(\<exists>r. do_base64_decode_impl table (a # b # d # e # s) = Inr r) \<longleftrightarrow> (\<exists>r. do_base64_decode_impl table s = Inr r)"
      by (cases "do_base64_decode_impl table s") (auto simp: Let_def)
    also have "\<dots> \<longleftrightarrow> \<not> list_ex (\<lambda>c. table c = 64) s \<and> (length s mod 4 = 2 \<longrightarrow> table (last s) mod 16 = 0) \<and>
        (length s mod 4 = 3 \<longrightarrow> table (last s) mod 4 = 0)" using 5 False unfolding len by simp
    finally show ?thesis unfolding len using False last by (cases "s = []") simp_all
  qed auto
qed simp_all

lemma is_base64_decodes: "is_base64_impl u t \<longleftrightarrow> (\<exists>s. base64_decode_impl u t = Inr s)"
proof -
  define n where "n = length (takeWhile (\<lambda>c. c = CHR ''='') (rev t))"
  define b where "b = rev (dropWhile (\<lambda>c. c = CHR ''='') (rev t))"
  let ?bad = "n \<ge> 3 \<or> (\<not> u \<or> n > 0) \<and> (length b + n) mod 4 \<noteq> 0 \<or> u \<and> length b mod 4 = 1"
  have "length b mod 4 \<noteq> 1" if "\<not> ?bad"
  proof
    assume "length b mod 4 = 1"
    then have "(length b + n) mod 4 = 0" "n < 3" using that by auto
    then show False using \<open>length b mod 4 = 1\<close> by presburger
  qed
  then show ?thesis
    using decodes_iff [of b "character_table u"]
    by (auto simp: is_base64_impl_def base64_decode_impl_def base64_drop_padding_def Let_def n_def [symmetric] b_def [symmetric])
qed

lemma base64_decode_iff: "base64_decode t = Inr s \<longleftrightarrow> t = base64_encode s"
proof
  assume "t = base64_encode s"
  then show "base64_decode t = Inr s"
    by (simp add: base64_decode_def base64_encode_def base64_decode_impl_def drop_padding_encode decode_body)
next
  assume "base64_decode t = Inr s"
  then obtain b where b: "base64_drop_padding False t = Inr b" "do_base64_decode_impl (character_table False) b = Inr s"
    by (auto simp: base64_decode_def base64_decode_impl_def split: sum.splits)
  let ?n = "length (takeWhile (\<lambda>c. c = CHR ''='') (rev t))"
  have t: "t = b @ replicate ?n CHR ''=''" and n: "?n < 3" "(length b + ?n) mod 4 = 0"
  proof -
    have "rev t = replicate ?n CHR ''='' @ dropWhile (\<lambda>c. c = CHR ''='') (rev t)"
      using takeWhile_dropWhile_id [of "\<lambda>c. c = CHR ''=''" "rev t"] replicate_length_same [of "takeWhile (\<lambda>c. c = CHR ''='') (rev t)"]
      by (metis set_takeWhileD)
    then have "rev (rev t) = rev (dropWhile (\<lambda>c. c = CHR ''='') (rev t)) @ replicate ?n CHR ''=''"
      by (metis rev_append rev_replicate)
    then show "t = b @ replicate ?n CHR ''=''" "?n < 3" "(length b + ?n) mod 4 = 0"
      using b(1) by (auto simp: base64_drop_padding_def Let_def split: if_splits)
  qed
  have body: "b = base64_body False s" by (rule decode_inverse [OF b(2)])
  obtain m where m: "m < 3" "base64_padding False (length s) = replicate m CHR ''=''" using padding_replicate by blast
  have "(length b + m) mod 4 = 0" using padded_length [of s] m(2) body by simp
  then have "?n = m" using n m(1) by presburger
  then show "t = base64_encode s" using t body m(2) by (simp add: base64_encode_def encode_body)
qed

text \<open>
  (C33) Base64: a text decodes to the bytes \<open>s\<close> exactly when it is the encoding of \<open>s\<close>. So decoding inverts encoding
  for every byte string, and the decoder accepts nothing but the texts the encoder produces: every other
  text, with another padding, with bits set in the unused places or with a foreign character, is an error.
  And \<open>is_base64\<close> accepts exactly these texts.
\<close>

theorem base64_canonical:
  "(base64_decode t = Inr s \<longleftrightarrow> t = base64_encode s) \<and> (is_base64_impl False t \<longleftrightarrow> (\<exists>s'. t = base64_encode s'))"
  using is_base64_decodes [of False t] base64_decode_iff by (auto simp: base64_decode_def)

end
