(* ===== verification/Webhook_Actor.thy ===== *)
theory Webhook_Actor
  imports Client_Updates Http_Url Base64
begin

section \<open>The webhook actor\<close>

text \<open>
  \<open>WebhookActor.h\<close>, \<open>WebhookActor.cpp\<close>: the actor that pushes the updates of one bot to its URL. It loads
  updates from the shared queue, sorts them into queues by their \<open>extra\<close> number, sends the first
  update of each queue over one of its connections, repeats it after an error and forgets it after
  a success.

  The state holds the shared queue \<open>wa_tqueue\<close> and the log \<open>wa_out\<close> of all messages sent. A failed \<open>CHECK\<close> is
  \<^const>\<open>None\<close>. The hash tables are association lists. The clock is read once per handler; random
  numbers and the answers of the operating system about sockets and of the TLS library (by the number of the attempt) come
  with it in \<open>wa_env\<close>. Host names are resolved and proxy connections opened by other actors, whose
  answers are messages.
\<close>

subsection \<open>State\<close>

record wh_update =
  wu_id :: int
  wu_json :: string
  wu_expires_at :: int
  wu_last_send_time :: real
  wu_wakeup_at :: real
  wu_delay :: int
  wu_fail_count :: int
  wu_queue_id :: int

record wh_queue =
  wq_wakeup_at :: real
  wq_integer_wakeup_at :: int
  wq_id :: int

definition cast_int64 :: "real \<Rightarrow> int" where
  "cast_int64 x = (if 0 \<le> x then \<lfloor>x\<rfloor> else \<lceil>x\<rceil>)"

definition new_wh_queue :: "real \<Rightarrow> int \<Rightarrow> wh_queue" where
  "new_wh_queue w i = \<lparr>wq_wakeup_at = w, wq_integer_wakeup_at = cast_int64 (w * 10 ^ 9), wq_id = i\<rparr>"

definition wq_key :: "wh_queue \<Rightarrow> int \<times> int" where
  "wq_key q = (wq_integer_wakeup_at q, wq_id q)"

text \<open>\<open>std::set::emplace\<close>: nothing happens when an equal element is there.\<close>

fun queue_emplace :: "wh_queue \<Rightarrow> wh_queue list \<Rightarrow> wh_queue list" where
  "queue_emplace q [] = [q]"
| "queue_emplace q (x # xs) =
     (if wq_key q < wq_key x then q # x # xs
      else if wq_key q = wq_key x then x # xs
      else x # queue_emplace q xs)"

record wh_connection =
  wc_id :: "64 word"
  wc_event_id :: int
  wc_ip_generation :: int

definition new_wh_connection :: wh_connection where
  "new_wh_connection = \<lparr>wc_id = 0, wc_event_id = 0, wc_ip_generation = -1\<rparr>"

record wa_config =
  wa_tqueue_id :: int
  wa_url :: http_url
  wa_host_header :: string
  wa_cert_path :: string
  wa_fix_ip_address :: bool
  wa_from_db :: bool
  wa_max_connections :: int
  wa_secret_token :: string
  wa_local_mode :: bool
  wa_has_proxy :: bool
  wa_unix_time :: "real \<Rightarrow> int"
  wa_ip_str :: "ip_address \<Rightarrow> string"

datatype wa_msg =
    Webhook_Verified string
  | Webhook_Success
  | Webhook_Error string
  | Webhook_Closed "td_error option"
  | Webhook_Send query
  | Get_Host_By_Name string int
  | Create_Ssl_Context string
  | Open_Proxy "64 word" ip_address
  | Open_Http "64 word"
  | Http_Write "64 word" string string
  | Close_Later
  | Connection_Count int
  | Set_Timeout_At real
  | Yield

record webhook_actor =
  wa_tqueue :: tqueue
  wa_out :: "wa_msg list"
  wa_stopped :: bool
  has_callback :: bool
  tqueue_empty :: bool
  last_pending_update_count :: nat
  last_error_time :: real
  last_error_message :: string
  stop_flag :: bool
  was_checked :: bool
  tqueue_offset :: int
  max_loaded_updates :: nat
  update_map :: "(int \<times> wh_update) list"
  queue_updates :: "(int \<times> int list) list"
  wh_queues :: "wh_queue list"
  unique_queue_id :: int
  first_error_410_time :: real
  has_ssl_ctx :: bool
  wa_ip_address :: ip_address
  ip_generation :: int
  next_ip_address_resolve_time :: real
  is_ip_address_being_resolved :: bool
  pending_sockets :: "unit container"
  ready_sockets :: "nat list"
  connections :: "wh_connection container"
  ready_connections :: "64 word list"
  active_new_connection_flood :: flood_control
  pending_new_connection_flood :: flood_control
  last_success_time :: real
  wa_wakeup_at :: real
  last_update_was_successful :: bool

record wa_env =
  env_now :: real
  env_random :: "int \<Rightarrow> int \<Rightarrow> int"
  env_open :: "nat \<Rightarrow> td_error option"
  env_ssl :: "nat \<Rightarrow> (td_error \<times> string) option"

definition min_pending_updates_warning_wh :: nat where "min_pending_updates_warning_wh = 50"
definition ip_address_cache_time :: int where "ip_address_cache_time = 30 * 60"
definition webhook_max_resend_timeout :: int where "webhook_max_resend_timeout = 60"
definition webhook_drop_timeout :: int where "webhook_drop_timeout = 60 * 60 * 23"
definition max_retry_after :: int where "max_retry_after = 3600"
definition tqueue_event_buffer_size :: nat where "tqueue_event_buffer_size = 1000"

text \<open>
  The constructor, after the host name was converted by \<open>idn_to_ascii\<close> (the host in \<open>wa_url\<close>); \<open>cached\<close> is the
  address \<open>IPAddress::get_ip_address\<close> reads from the saved text.
\<close>

definition get_host_header :: "protocol \<Rightarrow> string \<Rightarrow> int \<Rightarrow> string" where
  "get_host_header proto host_name port =
     (if (proto = Https \<and> port = 443) \<or> (proto = Http \<and> port = 80) then host_name
      else host_name @ '':'' @ show_int port)"

definition new_webhook_actor :: "wa_config \<Rightarrow> ip_address \<Rightarrow> tqueue \<Rightarrow> webhook_actor option" where
  "new_webhook_actor cfg cached t =
     (if wa_max_connections cfg > 0
      then Some \<lparr>wa_tqueue = t, wa_out = [], wa_stopped = False, has_callback = True, tqueue_empty = False,
        last_pending_update_count = min_pending_updates_warning_wh, last_error_time = 0,
        last_error_message = ''<none>'', stop_flag = False, was_checked = False, tqueue_offset = 0,
        max_loaded_updates = 0, update_map = [], queue_updates = [], wh_queues = [], unique_queue_id = 2 ^ 60,
        first_error_410_time = 0, has_ssl_ctx = False, wa_ip_address = cached, ip_generation = 0,
        next_ip_address_resolve_time = 0, is_ip_address_being_resolved = False, pending_sockets = new_container,
        ready_sockets = [], connections = new_container, ready_connections = [],
        active_new_connection_flood = new_flood_control, pending_new_connection_flood = new_flood_control,
        last_success_time = 0, wa_wakeup_at = 0, last_update_was_successful = True\<rparr>
      else None)"

subsection \<open>Messages and errors\<close>

definition wa_send :: "wa_msg \<Rightarrow> webhook_actor \<Rightarrow> webhook_actor" where
  "wa_send m s = s\<lparr>wa_out := wa_out s @ [m]\<rparr>"

text \<open>A message to an empty callback is dropped.\<close>

definition to_callback :: "wa_msg \<Rightarrow> webhook_actor \<Rightarrow> webhook_actor" where
  "to_callback m s = (if has_callback s then wa_send m s else s)"

definition relax_wakeup_at :: "real \<Rightarrow> webhook_actor \<Rightarrow> webhook_actor" where
  "relax_wakeup_at w s = (if wa_wakeup_at s = 0 \<or> w < wa_wakeup_at s then s\<lparr>wa_wakeup_at := w\<rparr> else s)"

definition on_webhook_verified :: "wa_config \<Rightarrow> webhook_actor \<Rightarrow> webhook_actor" where
  "on_webhook_verified cfg s =
     to_callback (Webhook_Verified (if ip_is_valid (wa_ip_address s) then wa_ip_str cfg (wa_ip_address s) else [])) s"

definition check_ip_address :: "wa_config \<Rightarrow> ip_address \<Rightarrow> td_error option" where
  "check_ip_address cfg addr =
     (if \<not> ip_is_valid addr then Some (Error 0 ''Invalid IP address specified'')
      else if wa_local_mode cfg then None
      else if \<not> is_ipv4 addr then Some (Error 0 ''IPv6-only addresses are not allowed'')
      else if is_reserved addr = Some True then Some (Error 0 (''IP address '' @ wa_ip_str cfg addr @ '' is reserved''))
      else None)"

definition wa_on_error :: "td_error \<Rightarrow> webhook_actor \<Rightarrow> webhook_actor option" where
  "wa_on_error status s =
     (if \<not> was_checked s \<and> \<not> stop_flag s then
        if has_callback s then Some ((to_callback (Webhook_Closed (Some status)) s)\<lparr>has_callback := False, stop_flag := True\<rparr>)
        else None
      else Some s)"

definition on_webhook_error :: "real \<Rightarrow> string \<Rightarrow> webhook_actor \<Rightarrow> webhook_actor" where
  "on_webhook_error now error s =
     (if was_checked s
      then (to_callback (Webhook_Error error) s)\<lparr>last_error_time := now, last_error_message := error\<rparr> else s)"

definition on_connection_error :: "real \<Rightarrow> td_error \<Rightarrow> webhook_actor \<Rightarrow> webhook_actor" where
  "on_connection_error now error s = on_webhook_error now (err_message error) s"

text \<open>\<open>public_message\<close> is the text of the error shown to the user; the status returned is always an error.\<close>

definition create_webhook_error ::
  "real \<Rightarrow> string \<Rightarrow> td_error \<Rightarrow> string \<Rightarrow> bool \<Rightarrow> webhook_actor \<Rightarrow> webhook_actor option"
where
  "create_webhook_error now error_message result public_message is_public s =
     wa_on_error result
       (on_webhook_error now (if is_public then error_message @ '': '' @ public_message else error_message) s)"

subsection \<open>Connections\<close>

definition resolve_ip_address :: "wa_config \<Rightarrow> real \<Rightarrow> webhook_actor \<Rightarrow> webhook_actor" where
  "resolve_ip_address cfg now s =
     (if wa_fix_ip_address cfg \<or> is_ip_address_being_resolved s then s
      else if now < next_ip_address_resolve_time s then relax_wakeup_at (next_ip_address_resolve_time s) s
      else wa_send (Get_Host_By_Name (url_host (wa_url cfg)) (url_port (wa_url cfg)))
             (s\<lparr>is_ip_address_being_resolved := True\<rparr>))"

text \<open>A write through the pointer that \<open>Container::get\<close> returns.\<close>

definition container_modify :: "('d \<Rightarrow> 'd) \<Rightarrow> 64 word \<Rightarrow> 'd container \<Rightarrow> 'd container" where
  "container_modify f ident c =
     (case decode_id c ident of
        None \<Rightarrow> c
      | Some i \<Rightarrow> c\<lparr>slots := (slots c)[i := (slots c ! i)\<lparr>data := f (data (slots c ! i))\<rparr>]\<rparr>)"

text \<open>The two overloads of \<open>create_connection\<close>; the flag tells whether the status is OK.\<close>

definition create_connection_fd :: "wa_config \<Rightarrow> wa_env \<Rightarrow> nat \<Rightarrow> webhook_actor \<Rightarrow> (bool \<times> webhook_actor) option" where
  "create_connection_fd cfg env i s =
     (if url_protocol (wa_url cfg) \<noteq> Http \<and> \<not> has_ssl_ctx s then None
      else case (if url_protocol (wa_url cfg) = Http then None else env_ssl env i) of
             Some (e, public_message) \<Rightarrow>
               map_option (Pair False)
                 (create_webhook_error (env_now env) ''Can't create an SSL connection'' e public_message True s)
           | None \<Rightarrow>
               (case container_create new_wh_connection 0 (connections s) of
                  None \<Rightarrow> None
                | Some (cid, cs) \<Rightarrow>
                    let s1 = wa_send (Connection_Count 1) (wa_send (Open_Http cid)
                          (s\<lparr>connections := container_modify
                               (\<lambda>c. c\<lparr>wc_ip_generation := ip_generation s, wc_event_id := 0, wc_id := cid\<rparr>) cid cs,
                             ready_connections := cid # ready_connections s\<rparr>))
                    in Some (True, if \<not> was_checked s1 then on_webhook_verified cfg (s1\<lparr>was_checked := True\<rparr>) else s1)))"

definition create_connection :: "wa_config \<Rightarrow> wa_env \<Rightarrow> nat \<Rightarrow> webhook_actor \<Rightarrow> (bool \<times> webhook_actor) option" where
  "create_connection cfg env i s =
     (if \<not> ip_is_valid (wa_ip_address s) then None
      else if wa_has_proxy cfg then
        (case env_open env i of
           Some e \<Rightarrow>
             map_option (Pair False)
               (create_webhook_error (env_now env) ''Can't connect to the webhook proxy'' e [] False s)
         | None \<Rightarrow>
             let s1 = (if \<not> was_checked s then on_webhook_verified cfg (s\<lparr>was_checked := True\<rparr>) else s) in
             (case container_create () 0 (pending_sockets s1) of
                None \<Rightarrow> None
              | Some (sid, ps) \<Rightarrow> Some (False, wa_send (Open_Proxy sid (wa_ip_address s1)) (s1\<lparr>pending_sockets := ps\<rparr>))))
      else (case env_open env i of
              Some e \<Rightarrow>
                map_option (Pair False) (create_webhook_error (env_now env) ''Can't connect to the webhook'' e [] False s)
            | None \<Rightarrow> create_connection_fd cfg env i s))"

definition need_connections :: "wa_config \<Rightarrow> real \<Rightarrow> webhook_actor \<Rightarrow> nat \<times> bool" where
  "need_connections cfg now s =
     (let n0 = min (length (queue_updates s)) (nat (wa_max_connections cfg));
          n1 = (if \<not> was_checked s then 1 else n0);
          active = (\<not> last_success_time s + 10 < now)
      in (if active then max 1 n1 else min 1 n1, active))"

definition all_sockets :: "webhook_actor \<Rightarrow> nat" where
  "all_sockets s = container_size (connections s) + container_size (pending_sockets s) + length (ready_sockets s)"

text \<open>
  The first loop of \<open>create_new_connections\<close>; the flag is false when the function returns inside it. Every round
  opens a socket, so \<open>need\<close> rounds of fuel are enough.
\<close>

fun open_connections :: "wa_config \<Rightarrow> wa_env \<Rightarrow> nat \<Rightarrow> bool \<Rightarrow> nat \<Rightarrow> webhook_actor \<Rightarrow> (bool \<times> webhook_actor) option" where
  "open_connections cfg env need active fuel s =
     (if \<not> all_sockets s < need then Some (True, s)
      else case fuel of
             0 \<Rightarrow> None
           | Suc n \<Rightarrow>
               let flood = (if active then active_new_connection_flood s else pending_new_connection_flood s) in
               if env_now env < wakeup_at flood then Some (True, relax_wakeup_at (wakeup_at flood) s)
               else (case flood_add_event (env_now env) flood of
                       None \<Rightarrow> None
                     | Some flood' \<Rightarrow>
                         let s1 = (if active then s\<lparr>active_new_connection_flood := flood'\<rparr>
                                   else s\<lparr>pending_new_connection_flood := flood'\<rparr>)
                         in (case create_connection cfg env n s1 of
                               None \<Rightarrow> None
                             | Some (False, s2) \<Rightarrow> Some (False, relax_wakeup_at (env_now env + 1) s2)
                             | Some (True, s2) \<Rightarrow> open_connections cfg env need active n s2)))"

declare open_connections.simps [simp del]

text \<open>The second loop takes the opened sockets from the back.\<close>

fun use_sockets :: "wa_config \<Rightarrow> wa_env \<Rightarrow> nat \<Rightarrow> nat list \<Rightarrow> webhook_actor \<Rightarrow> webhook_actor option" where
  "use_sockets cfg env need [] s = Some s"
| "use_sockets cfg env need (fd # fds) s =
     (if container_size (connections s) + container_size (pending_sockets s) < need
      then (case create_connection_fd cfg env (need + length fds) (s\<lparr>ready_sockets := rev fds\<rparr>) of
              None \<Rightarrow> None
            | Some (False, s1) \<Rightarrow> Some (relax_wakeup_at (env_now env + 1) s1)
            | Some (True, s1) \<Rightarrow> use_sockets cfg env need fds s1)
      else Some s)"

definition create_new_connections :: "wa_config \<Rightarrow> wa_env \<Rightarrow> webhook_actor \<Rightarrow> webhook_actor option" where
  "create_new_connections cfg env s =
     (if \<not> ip_is_valid (wa_ip_address s) then Some s
      else if url_protocol (wa_url cfg) \<noteq> Http \<and> \<not> has_ssl_ctx s then Some s
      else
        let (need, active) = need_connections cfg (env_now env) s in
        (case open_connections cfg env need active need s of
           None \<Rightarrow> None
         | Some (False, s1) \<Rightarrow> Some s1
         | Some (True, s1) \<Rightarrow>
             map_option (\<lambda>s2. s2\<lparr>ready_sockets := []\<rparr>) (use_sockets cfg env need (rev (ready_sockets s1)) s1)))"

subsection \<open>Loading updates\<close>

definition load_update :: "wa_config \<Rightarrow> real \<Rightarrow> raw_event \<Rightarrow> webhook_actor \<Rightarrow> webhook_actor option" where
  "load_update cfg now e s =
     (if \<not> event_id_is_valid (ev_id e) then None
      else if map_of (update_map s) (ev_id e) \<noteq> None then Some s
      else if ev_expires_at e < wa_unix_time cfg now then None
      else case event_id_next (ev_id e) of
             Inl err \<Rightarrow> None
           | Inr nxt \<Rightarrow>
               let qid = (if ev_extra e = 0 then unique_queue_id s else ev_extra e);
                   u = \<lparr>wu_id = ev_id e, wu_json = ev_data e, wu_expires_at = ev_expires_at e, wu_last_send_time = 0,
                        wu_wakeup_at = now, wu_delay = 1, wu_fail_count = 0, wu_queue_id = qid\<rparr>;
                   ids = (case map_of (queue_updates s) qid of None \<Rightarrow> [] | Some is \<Rightarrow> is)
               in Some (s\<lparr>update_map := AList.update (ev_id e) u (update_map s),
                    tqueue_offset := nxt,
                    unique_queue_id := (if ev_extra e = 0 then unique_queue_id s + 1 else unique_queue_id s),
                    wh_queues := (if ids = [] then queue_emplace (new_wh_queue now qid) (wh_queues s) else wh_queues s),
                    queue_updates := AList.update qid (ids @ [ev_id e]) (queue_updates s)\<rparr>))"

fun load_all :: "wa_config \<Rightarrow> real \<Rightarrow> raw_event list \<Rightarrow> webhook_actor \<Rightarrow> webhook_actor option" where
  "load_all cfg now [] s = Some s"
| "load_all cfg now (e # es) s =
     (case load_update cfg now e s of None \<Rightarrow> None | Some s1 \<Rightarrow> load_all cfg now es s1)"

text \<open>The call of \<open>get\<close>, with a second attempt from the head: the number of updates left and the updates read.\<close>

definition read_tqueue :: "wa_config \<Rightarrow> real \<Rightarrow> nat \<Rightarrow> webhook_actor \<Rightarrow> (nat \<times> raw_event list \<times> webhook_actor) option" where
  "read_tqueue cfg now limit s =
     (let get = (\<lambda>offset. get_events (wa_tqueue_id cfg) offset False (wa_unix_time cfg now) limit) in
      if event_id_empty (tqueue_offset s) then Some (0, [], s)
      else case get (tqueue_offset s) (wa_tqueue s) of
             (Inr (count, es), t) \<Rightarrow> Some (count, es, s\<lparr>wa_tqueue := t\<rparr>)
           | (Inl err, t) \<Rightarrow>
               let head = get_head (wa_tqueue_id cfg) t in
               (case get head t of
                  (Inl err, t') \<Rightarrow> None
                | (Inr (count, es), t') \<Rightarrow> Some (count, es, s\<lparr>tqueue_offset := head, wa_tqueue := t'\<rparr>)))"

definition pending_warning :: "nat \<Rightarrow> nat \<Rightarrow> nat" where
  "pending_warning count last_count =
     (if count \<le> min_pending_updates_warning_wh div 2 then
        if last_count > min_pending_updates_warning_wh then min_pending_updates_warning_wh else last_count
      else if count \<ge> last_count then double_past count last_count
      else last_count)"

definition load_updates :: "wa_config \<Rightarrow> real \<Rightarrow> webhook_actor \<Rightarrow> webhook_actor option" where
  "load_updates cfg now s =
     (if tqueue_empty s then Some s
      else if length (queue_updates s) \<ge> max_loaded_updates s then
        (if length (queue_updates s) = max_loaded_updates s then Some s else None)
      else
        let s1 = (if event_id_empty (tqueue_offset s)
                  then s\<lparr>tqueue_offset := get_head (wa_tqueue_id cfg) (wa_tqueue s)\<rparr> else s);
            limit = min tqueue_event_buffer_size (max_loaded_updates s - length (queue_updates s))
        in (case read_tqueue cfg now limit s1 of
              None \<Rightarrow> None
            | Some (count, es, s2) \<Rightarrow>
                (case load_all cfg now es (if es = [] then s2\<lparr>tqueue_empty := True\<rparr> else s2) of
                   None \<Rightarrow> None
                 | Some s3 \<Rightarrow>
                     let s4 = s3\<lparr>last_pending_update_count := pending_warning count (last_pending_update_count s3)\<rparr>
                     in Some (if length es = count \<and> last_update_was_successful s4
                              then to_callback Webhook_Success s4 else s4))))"

subsection \<open>Results of requests\<close>

definition drop_event :: "wa_config \<Rightarrow> int \<Rightarrow> webhook_actor \<Rightarrow> webhook_actor option" where
  "drop_event cfg event_id s =
     (case map_of (update_map s) event_id of
        None \<Rightarrow> None
      | Some u \<Rightarrow>
          let qid = wu_queue_id u; um = AList.delete event_id (update_map s) in
          (case map_of (queue_updates s) qid of
             Some (e # ids) \<Rightarrow>
               if event_id \<noteq> e then None
               else
                 (case ids of
                    [] \<Rightarrow> Some (s\<lparr>update_map := um, queue_updates := AList.delete qid (queue_updates s),
                            wa_tqueue := forget (wa_tqueue_id cfg) event_id (wa_tqueue s)\<rparr>)
                  | e' # ids' \<Rightarrow>
                      if \<not> event_id_is_valid e' then None
                      else (case map_of um e' of
                              None \<Rightarrow> None
                            | Some u' \<Rightarrow>
                                Some (s\<lparr>update_map := um, queue_updates := AList.update qid ids (queue_updates s),
                                  wh_queues := queue_emplace (new_wh_queue (wu_wakeup_at u') (wu_queue_id u')) (wh_queues s),
                                  wa_tqueue := forget (wa_tqueue_id cfg) event_id (wa_tqueue s)\<rparr>)))
           | _ \<Rightarrow> None))"

definition on_update_ok :: "wa_config \<Rightarrow> real \<Rightarrow> int \<Rightarrow> webhook_actor \<Rightarrow> webhook_actor option" where
  "on_update_ok cfg now event_id s =
     (let s1 = s\<lparr>last_update_was_successful := True, last_success_time := now\<rparr>
      in if map_of (update_map s1) event_id = None then None else drop_event cfg event_id s1)"

text \<open>The new delay of an update and the time to wait after an error.\<close>

definition next_delays :: "wa_env \<Rightarrow> int \<Rightarrow> wh_update \<Rightarrow> int \<times> int" where
  "next_delays env retry_after u =
     (if retry_after = 0 \<and> wu_fail_count u > 0
      then let d = min (env_random env webhook_max_resend_timeout (webhook_max_resend_timeout * 2)) (wu_delay u * 2)
           in (d, d)
      else (wu_delay u, retry_after))"

definition on_update_error :: "wa_config \<Rightarrow> wa_env \<Rightarrow> int \<Rightarrow> int \<Rightarrow> webhook_actor \<Rightarrow> webhook_actor option" where
  "on_update_error cfg env event_id retry_after s =
     (let s1 = s\<lparr>last_update_was_successful := False\<rparr>; now = env_now env in
      case map_of (update_map s1) event_id of
        None \<Rightarrow> None
      | Some u \<Rightarrow>
          let (next_delay, next_effective_delay) = next_delays env (clamp retry_after 0 max_retry_after) u
          in if wa_unix_time cfg now + next_effective_delay > wu_expires_at u then drop_event cfg event_id s1
             else
               let u' = u\<lparr>wu_delay := next_delay, wu_wakeup_at := now + of_int next_effective_delay,
                          wu_fail_count := wu_fail_count u + 1\<rparr>
               in Some (s1\<lparr>update_map := AList.update event_id u' (update_map s1),
                    wh_queues := queue_emplace (new_wh_queue (wu_wakeup_at u') (wu_queue_id u')) (wh_queues s1)\<rparr>))"

subsection \<open>Sending\<close>

definition webhook_header :: "wa_config \<Rightarrow> nat \<Rightarrow> string result" where
  "webhook_header cfg body_size =
     (let h1 = add_header ''Host'' (wa_host_header cfg) (init_post (url_query (wa_url cfg)));
          h2 = (if url_userinfo (wa_url cfg) \<noteq> []
                then add_header ''Authorization'' (''Basic '' @ base64_encode (url_userinfo (wa_url cfg))) h1 else h1);
          h3 = (if wa_secret_token cfg \<noteq> []
                then add_header ''X-Telegram-Bot-Api-Secret-Token'' (wa_secret_token cfg) h2 else h2)
      in header_finish []
           (add_header ''Accept-Encoding'' ''gzip, deflate''
             (set_keep_alive (set_content_size body_size (set_content_type ''application/json'' h3)))))"

definition send_update :: "wa_config \<Rightarrow> real \<Rightarrow> webhook_actor \<Rightarrow> (bool \<times> webhook_actor) option" where
  "send_update cfg now s =
     (if ready_connections s = [] then Some (False, s)
      else case wh_queues s of
             [] \<Rightarrow> Some (False, s)
           | q # qs \<Rightarrow>
               if wq_wakeup_at q > now then Some (False, relax_wakeup_at (wq_wakeup_at q) s)
               else if wq_id q = 0 then None
               else (case map_of (queue_updates s) (wq_id q) of
                       Some (e # ids) \<Rightarrow>
                         if \<not> event_id_is_valid e then None
                         else (case map_of (update_map s) e of
                                 None \<Rightarrow> None
                               | Some u \<Rightarrow>
                                   if wu_json u = [] then None
                                   else
                                     let s1 = s\<lparr>wh_queues := qs,
                                                update_map := AList.update e (u\<lparr>wu_last_send_time := now\<rparr>) (update_map s)\<rparr>;
                                         body = json_update (wu_id u) (wu_json u)
                                     in (case webhook_header cfg (length body) of
                                           Inl err \<Rightarrow> Some (False, s1)
                                         | Inr header \<Rightarrow>
                                             let cid = last (ready_connections s)
                                             in Some (True, wa_send (Http_Write cid header body)
                                                  (s1\<lparr>ready_connections := butlast (ready_connections s),
                                                      connections := container_modify
                                                        (\<lambda>c. c\<lparr>wc_event_id := wu_id u\<rparr>) cid (connections s)\<rparr>))))
                     | _ \<Rightarrow> None))"

lemma send_update_less: "send_update cfg now s = Some (True, s') \<Longrightarrow> length (wh_queues s') < length (wh_queues s)"
  by (auto simp: send_update_def Let_def wa_send_def split: if_splits list.splits option.splits sum.splits)

function send_updates :: "wa_config \<Rightarrow> real \<Rightarrow> webhook_actor \<Rightarrow> webhook_actor option" where
  "send_updates cfg now s =
     (case send_update cfg now s of
        None \<Rightarrow> None
      | Some (True, s') \<Rightarrow> send_updates cfg now s'
      | Some (False, s') \<Rightarrow> Some s')"
  by pat_completeness auto
termination
  by (relation "measure (\<lambda>(cfg, now, s). length (wh_queues s))") (auto dest: send_update_less)

declare send_updates.simps [simp del]

subsection \<open>The loop\<close>

text \<open>\<open>stop\<close> ends in \<open>tear_down\<close>.\<close>

definition wa_tear_down :: "webhook_actor \<Rightarrow> webhook_actor" where
  "wa_tear_down s = wa_send (Connection_Count (- int (container_size (connections s)))) s"

definition wa_stop :: "webhook_actor \<Rightarrow> webhook_actor" where
  "wa_stop s = (if wa_stopped s then s else (wa_tear_down s)\<lparr>wa_stopped := True\<rparr>)"

definition unless_stopping :: "(webhook_actor \<Rightarrow> webhook_actor option) \<Rightarrow> webhook_actor \<Rightarrow> webhook_actor option" where
  "unless_stopping f s = (if stop_flag s then Some s else f s)"

definition end_loop :: "webhook_actor \<Rightarrow> webhook_actor" where
  "end_loop s =
     (if stop_flag s then wa_stop s
      else if wa_wakeup_at s \<noteq> 0 then wa_send (Set_Timeout_At (wa_wakeup_at s)) s else s)"

definition wa_loop :: "wa_config \<Rightarrow> wa_env \<Rightarrow> webhook_actor \<Rightarrow> webhook_actor option" where
  "wa_loop cfg env s =
     do { s1 \<leftarrow> unless_stopping (load_updates cfg (env_now env)) (s\<lparr>wa_wakeup_at := 0\<rparr>);
          s2 \<leftarrow> unless_stopping (\<lambda>s. Some (resolve_ip_address cfg (env_now env) s)) s1;
          s3 \<leftarrow> unless_stopping (create_new_connections cfg env) s2;
          s4 \<leftarrow> unless_stopping (send_updates cfg (env_now env)) s3;
          Some (end_loop s4) }"

definition wa_update :: "wa_config \<Rightarrow> wa_env \<Rightarrow> webhook_actor \<Rightarrow> webhook_actor option" where
  "wa_update cfg env s = wa_loop cfg env (s\<lparr>tqueue_empty := False\<rparr>)"

text \<open>The part of \<open>on_resolved_ip_address\<close> that looks at the answer.\<close>

definition take_ip_address :: "wa_config \<Rightarrow> ip_address result \<Rightarrow> webhook_actor \<Rightarrow> webhook_actor option" where
  "take_ip_address cfg r_ip_address s =
     (case r_ip_address of
        Inl e \<Rightarrow> wa_on_error e s
      | Inr a \<Rightarrow>
          (case check_ip_address cfg a of
             Some e \<Rightarrow> wa_on_error e s
           | None \<Rightarrow>
               Some (if wa_ip_address s \<noteq> a
                     then let s1 = s\<lparr>wa_ip_address := a, ip_generation := ip_generation s + 1\<rparr>
                          in if was_checked s1 then on_webhook_verified cfg s1 else s1
                     else s)))"

definition on_resolved_ip_address ::
  "wa_config \<Rightarrow> wa_env \<Rightarrow> ip_address result \<Rightarrow> webhook_actor \<Rightarrow> webhook_actor option"
where
  "on_resolved_ip_address cfg env r_ip_address s =
     (if \<not> is_ip_address_being_resolved s then None
      else
        let at_time = env_now env + of_int ip_address_cache_time + of_int (env_random env 0 (ip_address_cache_time div 10));
            s1 = relax_wakeup_at at_time (s\<lparr>is_ip_address_being_resolved := False, next_ip_address_resolve_time := at_time\<rparr>)
        in Option.bind (take_ip_address cfg r_ip_address s1) (wa_loop cfg env))"

text \<open>The answer about the TLS context: \<^const>\<open>None\<close> when it was created, else the error and its public text.\<close>

definition on_ssl_context_created ::
  "wa_config \<Rightarrow> wa_env \<Rightarrow> (td_error \<times> string) option \<Rightarrow> webhook_actor \<Rightarrow> webhook_actor option"
where
  "on_ssl_context_created cfg env r s =
     (case r of
        Some (e, public_message) \<Rightarrow>
          Option.bind (create_webhook_error (env_now env) ''Can't create an SSL context'' e public_message True s) (wa_loop cfg env)
      | None \<Rightarrow> wa_loop cfg env (s\<lparr>has_ssl_ctx := True\<rparr>))"

definition on_socket_ready_async ::
  "wa_config \<Rightarrow> wa_env \<Rightarrow> nat result \<Rightarrow> 64 word \<Rightarrow> webhook_actor \<Rightarrow> webhook_actor option"
where
  "on_socket_ready_async cfg env r_fd sid s =
     (let s1 = s\<lparr>pending_sockets := container_erase () sid (pending_sockets s)\<rparr> in
      Option.bind
        (case r_fd of
           Inr fd \<Rightarrow> Some (s1\<lparr>ready_sockets := ready_sockets s1 @ [fd]\<rparr>)
         | Inl e \<Rightarrow> wa_on_error e (on_webhook_error (env_now env) (err_message e) s1))
        (wa_loop cfg env))"

subsection \<open>Responses\<close>

record http_response = http_query +
  hr_code :: int
  hr_reason :: string
  hr_keep_alive :: bool
  hr_content :: string

definition get_retry_after :: "http_response \<Rightarrow> int" where
  "get_retry_after r =
     (let v = find_value (hq_headers r) ''retry-after'' in
      if v = [] then 0 else case to_integer_safe 32 v of None \<Rightarrow> 0 | Some n \<Rightarrow> max 0 n)"

definition print_http_query :: "http_response \<Rightarrow> string" where
  "print_http_query r =
     (if hq_type r = Type_Empty then ''EMPTY''
      else
        (case hq_type r of Type_Get \<Rightarrow> ''GET'' | Type_Post \<Rightarrow> ''POST'' | _ \<Rightarrow> ''RESPONSE'') @
        (if hq_type r = Type_Response then '':'' @ show_int (hr_code r) @ '':'' @ hr_reason r
         else '':'' @ hq_url_path r @ concat (map (\<lambda>(k, v). '':['' @ k @ '':'' @ v @ '']'') (hq_args r))) @
        (if hr_keep_alive r then '':keep-alive'' else []) @ [CHR 0x0A] @
        concat (map (\<lambda>(k, v). k @ ''='' @ v @ [CHR 0x0A]) (hq_headers r)) @
        ''BEGIN CONTENT'' @ [CHR 0x0A] @ hr_content r @ ''END CONTENT'' @ [CHR 0x0A])"

text \<open>\<open>to_lower_inplace\<close> on the argument \<open>method\<close> also changes the arguments that are passed on.\<close>

fun lower_method :: "(string \<times> string) list \<Rightarrow> (string \<times> string) list" where
  "lower_method [] = []"
| "lower_method ((k, v) # xs) = (if k = ''method'' then (k, to_lower v) # xs else (k, v) # lower_method xs)"

definition is_reply_method :: "string \<Rightarrow> bool" where
  "is_reply_method m \<longleftrightarrow>
     m \<noteq> [] \<and> m \<noteq> ''deletewebhook'' \<and> m \<noteq> ''setwebhook'' \<and> m \<noteq> ''close'' \<and> m \<noteq> ''logout'' \<and> \<not> begins_with m ''get''"

definition reply_query :: "wa_config \<Rightarrow> http_response \<Rightarrow> query" where
  "reply_query cfg r =
     (let token = show_int (wa_tqueue_id cfg mod 2 ^ 54)
      in new_query (hq_container r @ [token]) token (wa_tqueue_id cfg \<ge> 2 ^ 54) [] (lower_method (hq_args r)) (hq_headers r)
           (hq_files r) (hq_peer_address r) False)"

text \<open>The reading of a response: the error (empty for success), the delay asked for, whether to close the actor.\<close>

definition read_response ::
  "wa_config \<Rightarrow> real \<Rightarrow> http_response \<Rightarrow> webhook_actor \<Rightarrow> string \<times> int \<times> bool \<times> webhook_actor"
where
  "read_response cfg now r s =
     (if hq_type r = Type_Response then
        if 200 \<le> hr_code r \<and> hr_code r \<le> 299 then
          let s1 = (if is_reply_method (to_lower (find_value (hq_args r) ''method''))
                    then to_callback (Webhook_Send (reply_query cfg r)) s else s)
          in ([], 0, False, s1\<lparr>first_error_410_time := 0\<rparr>)
        else
          let error = ''Wrong response from the webhook: '' @ show_int (hr_code r) @ '' '' @ hr_reason r;
              first = first_error_410_time s;
              gone = (hr_code r = 410)
          in (error, get_retry_after r, gone \<and> first \<noteq> 0 \<and> now > first + of_int webhook_drop_timeout,
              on_webhook_error now error
                (s\<lparr>first_error_410_time := (if gone then if first = 0 then now else first else 0)\<rparr>))
      else
        let error = ''Wrong response from the webhook: '' @ print_http_query r
        in (error, 0, False, on_webhook_error now error s))"

definition settle_connection :: "64 word \<Rightarrow> wh_connection \<Rightarrow> bool \<Rightarrow> webhook_actor \<Rightarrow> webhook_actor" where
  "settle_connection cid conn closing_it s =
     (if closing_it
      then wa_send (Connection_Count (- 1))
             (s\<lparr>connections := container_erase new_wh_connection (wc_id conn) (connections s),
                ready_connections := filter (\<lambda>c. c \<noteq> cid) (ready_connections s)\<rparr>)
      else s\<lparr>connections := container_modify (\<lambda>c. c\<lparr>wc_event_id := 0\<rparr>) cid (connections s),
             ready_connections := cid # ready_connections s\<rparr>)"

definition wa_handle ::
  "wa_config \<Rightarrow> wa_env \<Rightarrow> 64 word \<Rightarrow> http_response option \<Rightarrow> webhook_actor \<Rightarrow> webhook_actor option"
where
  "wa_handle cfg env cid response s =
     (case container_get (connections s) cid of
        None \<Rightarrow> Some s
      | Some conn \<Rightarrow>
          let now = env_now env;
              (query_error, retry_after, need_close, s1) =
                (case response of
                   None \<Rightarrow> (''Webhook connection closed'', 0, False, s)
                 | Some r \<Rightarrow> read_response cfg now r s);
              close_connection =
                (case response of
                   None \<Rightarrow> True
                 | Some r \<Rightarrow> hq_type r \<noteq> Type_Response \<or> \<not> hr_keep_alive r \<or> ip_generation s \<noteq> wc_ip_generation conn);
              event_id = wc_event_id conn
          in do { s2 \<leftarrow> (if \<not> event_id_empty event_id
                          then if query_error = [] then on_update_ok cfg now event_id s1
                               else on_update_error cfg env event_id retry_after s1
                          else if query_error \<noteq> [] then Some s1 else None);
                  let s3 = settle_connection cid conn (need_close \<or> close_connection) s2;
                  if need_close then Some (wa_send Close_Later s3) else wa_loop cfg env s3 })"

subsection \<open>Start and end\<close>

text \<open>\<open>start_up\<close> in three parts: the initial values, the check of the protocol and the port, and the rest.\<close>

definition start_state :: "wa_config \<Rightarrow> wa_env \<Rightarrow> webhook_actor \<Rightarrow> webhook_actor" where
  "start_state cfg env s =
     (let now = env_now env; last_time = now - 2 * of_int ip_address_cache_time
      in s\<lparr>max_loaded_updates := nat (wa_max_connections cfg * 2), last_success_time := last_time,
           next_ip_address_resolve_time :=
             (if wa_from_db cfg then now + of_int (env_random env 0 ip_address_cache_time) else last_time),
           active_new_connection_flood := add_limit (1 / 2) 10 (active_new_connection_flood s),
           pending_new_connection_flood := add_limit 2 1 (pending_new_connection_flood s)\<rparr>)"

definition check_webhook_url :: "wa_config \<Rightarrow> webhook_actor \<Rightarrow> webhook_actor option" where
  "check_webhook_url cfg s =
     (if wa_local_mode cfg then Some s
      else if url_protocol (wa_url cfg) = Https then
        if url_port (wa_url cfg) \<noteq> 443 \<and> url_port (wa_url cfg) \<noteq> 88 \<and> url_port (wa_url cfg) \<noteq> 80 \<and> url_port (wa_url cfg) \<noteq> 8443
        then wa_on_error (Error 0 ''Webhook can be set up only on ports 80, 88, 443 or 8443'') s
        else Some s
      else wa_on_error (Error 0 ''An HTTPS URL must be provided for webhook'') s)"

definition finish_start_up :: "wa_config \<Rightarrow> webhook_actor \<Rightarrow> webhook_actor option" where
  "finish_start_up cfg s =
     (case (if wa_fix_ip_address cfg \<and> \<not> stop_flag s then check_ip_address cfg (wa_ip_address s) else None) of
        Some e \<Rightarrow> wa_on_error e s
      | None \<Rightarrow>
          let s1 = (if wa_from_db cfg \<and> \<not> stop_flag s then on_webhook_verified cfg (s\<lparr>was_checked := True\<rparr>) else s);
              s2 = (if url_protocol (wa_url cfg) \<noteq> Http \<and> \<not> stop_flag s1
                    then wa_send (Create_Ssl_Context (wa_cert_path cfg)) s1 else s1)
          in Some (wa_send Yield s2))"

definition wa_start_up :: "wa_config \<Rightarrow> wa_env \<Rightarrow> webhook_actor \<Rightarrow> webhook_actor option" where
  "wa_start_up cfg env s = Option.bind (check_webhook_url cfg (start_state cfg env s)) (finish_start_up cfg)"

definition wa_hangup_shared ::
  "wa_config \<Rightarrow> wa_env \<Rightarrow> wa_env \<Rightarrow> 64 word \<Rightarrow> webhook_actor \<Rightarrow> webhook_actor option"
where
  "wa_hangup_shared cfg env env' cid s = Option.bind (wa_handle cfg env cid None s) (wa_loop cfg env')"

definition wa_hangup :: "webhook_actor \<Rightarrow> webhook_actor" where
  "wa_hangup s = wa_stop (s\<lparr>has_callback := False\<rparr>)"

definition wa_close :: "webhook_actor \<Rightarrow> webhook_actor" where
  "wa_close s = wa_stop ((to_callback (Webhook_Closed None) s)\<lparr>has_callback := False\<rparr>)"

end
