(* ===== verification/Webhook_Actor_Proofs.thy ===== *)
theory Webhook_Actor_Proofs
  imports Webhook_Actor
begin

section \<open>Invariants of the webhook actor\<close>

text \<open>
  The books of the actor: every loaded update stands in exactly one queue, a queue is scheduled, or its first
  update is carried by exactly one connection. Every handler keeps them and none of its checks
  fails. The table of connections is used through the interface \<open>id_store\<close> of the object table, extended
  by writes through a pointer and by counting.
\<close>

subsection \<open>The object table under writes\<close>

lemma container_modify_slots [simp]:
  "length (slots (container_modify f ident c)) = length (slots c)"
  "empty_slots (container_modify f ident c) = empty_slots c"
  by (simp_all add: container_modify_def split: option.split)

lemma container_modify_size [simp]: "container_size (container_modify f ident c) = container_size c"
  by (simp add: container_size_def)

lemma nth_list_update_If: "xs[i := x] ! j = (if i = j \<and> j < length xs then x else xs ! j)"
  by (cases "i < length xs") (auto simp: nth_list_update list_update_beyond)

lemma container_modify_generation:
  "generation (slots (container_modify f ident c) ! i) = generation (slots c ! i)"
  by (auto simp: container_modify_def nth_list_update_If split: option.split)

lemma decode_id_modify: "decode_id (container_modify f ident c) other = decode_id c other"
  by (simp add: decode_id_def container_modify_generation Let_def)

lemma decode_id_inj:
  assumes "length (slots c) < 2 ^ 31" and "decode_id c a = Some i" and "decode_id c b = Some i"
  shows "a = b"
  using assms by (auto simp: decode_id_small split: if_splits intro: id_eqI)

lemma container_get_modify:
  assumes "length (slots c) < 2 ^ 31"
  shows "container_get (container_modify f ident c) other =
    (if other = ident then map_option f (container_get c other) else container_get c other)"
proof (cases "decode_id c other")
  case None
  then show ?thesis by (auto simp: container_get_def decode_id_modify)
next
  case (Some i)
  then have "i < length (slots c)" using assms by (auto simp: decode_id_small split: if_splits)
  moreover have "j \<noteq> i" if "decode_id c ident = Some j" "other \<noteq> ident" for j
    using decode_id_inj [OF assms Some] that by blast
  ultimately have "data (slots (container_modify f ident c) ! i) =
      (if other = ident then f (data (slots c ! i)) else data (slots c ! i))"
    using Some by (auto simp: container_modify_def split: option.split)
  then show ?thesis using Some by (auto simp: container_get_def decode_id_modify)
qed

lemma container_modify_rel:
  assumes "container_rel c issued m" and "ident \<in> set issued"
  shows "container_rel (container_modify f ident c) issued (m(ident := map_option f (m ident)))"
proof -
  have len: "length (slots c) < 2 ^ 31" using assms(1) by (simp add: container_rel_def)
  show ?thesis
    using assms unfolding container_rel_def container_modify_slots container_modify_generation container_get_modify [OF len]
    by (auto split: if_splits)
qed

lemma container_rel_empty_slots:
  assumes "container_rel c issued m"
  shows "length (empty_slots c) \<le> length (slots c)"
proof -
  have "card (set (empty_slots c)) \<le> card {..<length (slots c)}"
    using assms by (intro card_mono) (auto simp: container_rel_def)
  then show ?thesis using assms by (simp add: container_rel_def distinct_card)
qed

lemma container_size_create:
  assumes "container_rel c issued m" and "container_create d ty c = Some (ident, c')"
  shows "container_size c' = Suc (container_size c)"
  using assms(2) container_rel_empty_slots [OF assms(1)]
  by (auto simp: container_create_def container_store_def container_size_def Let_def Suc_diff_le split: if_splits)
    (metis Suc_diff_le Suc_pred length_greater_0_conv diff_Suc_Suc)

lemma container_size_erase: "container_size (container_erase d ident c) \<le> container_size c"
  by (simp add: container_erase_def container_release_def inc_generation_def container_size_def Let_def diff_le_mono2
      split: option.split)

lemma container_room_size:
  assumes "container_rel c issued m" and "container_size c < 2 ^ 31 - 1"
  shows "container_room c"
  using assms by (auto simp: container_room_def container_size_def)

subsection \<open>The schedule\<close>

lemma map_of_alist_update [simp]: "map_of (AList.update k v al) k' = (if k' = k then Some v else map_of al k')"
  by (simp add: update_conv)

lemma map_of_alist_remove [simp]: "map_of (AList.delete k al) k' = (if k' = k then None else map_of al k')"
  by (simp add: delete_conv')

lemma length_alist_update:
  "distinct (map fst al) \<Longrightarrow> length (AList.update k v al) = (if map_of al k = None then Suc (length al) else length al)"
  by (induction al) auto

lemma queue_emplace_new:
  assumes "wq_id q \<notin> wq_id ` set qs"
  shows "set (queue_emplace q qs) = insert q (set qs)"
    and "distinct (map wq_id qs) \<Longrightarrow> distinct (map wq_id (queue_emplace q qs))"
proof -
  show "set (queue_emplace q qs) = insert q (set qs)"
    using assms by (induction qs) (auto simp: wq_key_def)
  show "distinct (map wq_id qs) \<Longrightarrow> distinct (map wq_id (queue_emplace q qs))"
    using assms
  proof (induction qs)
    case (Cons x xs)
    then have "set (queue_emplace q xs) \<subseteq> insert q (set xs)"
      by (induction xs) (auto simp: wq_key_def split: if_splits)
    with Cons show ?case by (auto simp: wq_key_def)
  qed simp
qed

lemma queue_emplace_ids:
  assumes "q \<notin> wq_id ` set qs"
  shows "wq_id ` set (queue_emplace (new_wh_queue w q) qs) = insert q (wq_id ` set qs)"
    and "distinct (map wq_id qs) \<Longrightarrow> distinct (map wq_id (queue_emplace (new_wh_queue w q) qs))"
  using queue_emplace_new [of "new_wh_queue w q" qs] assms by (auto simp: new_wh_queue_def)

subsection \<open>The books\<close>

text \<open>Loaded updates, the queues they stand in and the scheduled queues.\<close>

definition update_ok :: "int \<Rightarrow> wh_update \<Rightarrow> bool" where
  "update_ok e u \<longleftrightarrow>
     wu_id u = e \<and> event_id_is_valid e \<and> wu_json u \<noteq> [] \<and> length (wu_json u) \<le> max_event_length \<and> 0 < wu_delay u"

definition books_inv :: "(int \<times> wh_update) list \<Rightarrow> (int \<times> int list) list \<Rightarrow> wh_queue list \<Rightarrow> bool" where
  "books_inv um qu qs \<longleftrightarrow>
     distinct (map fst qu) \<and> distinct (map wq_id qs) \<and> wq_id ` set qs \<subseteq> dom (map_of qu) \<and>
     (\<forall>q ids. map_of qu q = Some ids \<longrightarrow> q \<noteq> 0 \<and> ids \<noteq> [] \<and> distinct ids \<and>
        (\<forall>e \<in> set ids. \<exists>u. map_of um e = Some u \<and> wu_queue_id u = q)) \<and>
     (\<forall>e u. map_of um e = Some u \<longrightarrow> update_ok e u \<and> (\<exists>ids. map_of qu (wu_queue_id u) = Some ids \<and> e \<in> set ids))"

text \<open>A connection that carries an update carries the first of a queue that is not scheduled, and no other connection does.\<close>

definition carries :: "(64 word \<rightharpoonup> wh_connection) \<Rightarrow> 64 word \<Rightarrow> int \<Rightarrow> bool" where
  "carries cm cid e \<longleftrightarrow> e \<noteq> 0 \<and> (\<exists>c. cm cid = Some c \<and> wc_event_id c = e)"

definition flight_inv ::
  "(int \<times> wh_update) list \<Rightarrow> (int \<times> int list) list \<Rightarrow> wh_queue list \<Rightarrow> (64 word \<rightharpoonup> wh_connection) \<Rightarrow> bool"
where
  "flight_inv um qu qs cm \<longleftrightarrow>
     (\<forall>cid e. carries cm cid e \<longrightarrow>
        (\<exists>u ids. map_of um e = Some u \<and> map_of qu (wu_queue_id u) = Some (e # ids) \<and> wu_queue_id u \<notin> wq_id ` set qs)) \<and>
     (\<forall>cid cid' e. carries cm cid e \<and> carries cm cid' e \<longrightarrow> cid = cid')"

text \<open>No queue is forgotten: it is scheduled, or its first update is carried.\<close>

definition covered ::
  "(int \<times> int list) list \<Rightarrow> wh_queue list \<Rightarrow> (64 word \<rightharpoonup> wh_connection) \<Rightarrow> bool"
where
  "covered qu qs cm \<longleftrightarrow>
     (\<forall>q ids. map_of qu q = Some ids \<longrightarrow> q \<in> wq_id ` set qs \<or> (\<exists>cid. carries cm cid (hd ids)))"

definition ready_inv :: "64 word list \<Rightarrow> (64 word \<rightharpoonup> wh_connection) \<Rightarrow> bool" where
  "ready_inv rs cm \<longleftrightarrow>
     distinct rs \<and> (\<forall>cid \<in> set rs. \<exists>c. cm cid = Some c \<and> wc_event_id c = 0) \<and> (\<forall>cid c. cm cid = Some c \<longrightarrow> wc_id c = cid)"

lemma books_queue:
  assumes "books_inv um qu qs" and "map_of qu q = Some ids"
  shows "q \<noteq> 0" and "ids \<noteq> []" and "distinct ids"
    and "e \<in> set ids \<Longrightarrow> \<exists>u. map_of um e = Some u \<and> wu_queue_id u = q"
  using assms unfolding books_inv_def by blast+

lemma books_update:
  assumes "books_inv um qu qs" and "map_of um e = Some u"
  shows "update_ok e u" and "\<exists>ids. map_of qu (wu_queue_id u) = Some ids \<and> e \<in> set ids"
  using assms unfolding books_inv_def by blast+

lemma books_schedule:
  assumes "books_inv um qu qs"
  shows "distinct (map fst qu)" and "distinct (map wq_id qs)" and "q \<in> wq_id ` set qs \<Longrightarrow> \<exists>ids. map_of qu q = Some ids"
  using assms unfolding books_inv_def by blast+

lemma booksI:
  assumes "distinct (map fst qu)" and "distinct (map wq_id qs)" and "\<And>q. q \<in> wq_id ` set qs \<Longrightarrow> map_of qu q \<noteq> None"
    and "\<And>q ids. map_of qu q = Some ids \<Longrightarrow> q \<noteq> 0 \<and> ids \<noteq> [] \<and> distinct ids \<and>
      (\<forall>e \<in> set ids. \<exists>u. map_of um e = Some u \<and> wu_queue_id u = q)"
    and "\<And>e u. map_of um e = Some u \<Longrightarrow> update_ok e u \<and> (\<exists>ids. map_of qu (wu_queue_id u) = Some ids \<and> e \<in> set ids)"
  shows "books_inv um qu qs"
proof -
  have "wq_id ` set qs \<subseteq> dom (map_of qu)" using assms(3) by auto
  then show ?thesis unfolding books_inv_def using assms(1,2) by (intro conjI allI impI assms(4,5)) (assumption | rule assms)+
qed

lemma flightI:
  assumes "\<And>cid e. carries cm cid e \<Longrightarrow>
      \<exists>u ids. map_of um e = Some u \<and> map_of qu (wu_queue_id u) = Some (e # ids) \<and> wu_queue_id u \<notin> wq_id ` set qs"
    and "\<And>cid cid' e. carries cm cid e \<Longrightarrow> carries cm cid' e \<Longrightarrow> cid = cid'"
  shows "flight_inv um qu qs cm"
  unfolding flight_inv_def using assms by (intro conjI allI impI) blast+

lemma flightD:
  assumes "flight_inv um qu qs cm" and "carries cm cid e"
  obtains u ids where "map_of um e = Some u" "map_of qu (wu_queue_id u) = Some (e # ids)" "wu_queue_id u \<notin> wq_id ` set qs"
  using assms unfolding flight_inv_def by blast

lemma flight_inj: "flight_inv um qu qs cm \<Longrightarrow> carries cm cid e \<Longrightarrow> carries cm cid' e \<Longrightarrow> cid = cid'"
  unfolding flight_inv_def by blast

lemma coveredI:
  "(\<And>q ids. map_of qu q = Some ids \<Longrightarrow> q \<in> wq_id ` set qs \<or> (\<exists>cid. carries cm cid (hd ids))) \<Longrightarrow> covered qu qs cm"
  unfolding covered_def by blast

lemma coveredD:
  "covered qu qs cm \<Longrightarrow> map_of qu q = Some ids \<Longrightarrow> q \<in> wq_id ` set qs \<or> (\<exists>cid. carries cm cid (hd ids))"
  unfolding covered_def by blast

lemma books_load:
  fixes w :: real
  assumes books: "books_inv um qu qs" and new: "map_of um e = None" and u: "update_ok e u" "wu_queue_id u = q" "q \<noteq> 0"
    and ids: "ids = (case map_of qu q of None \<Rightarrow> [] | Some js \<Rightarrow> js)"
  defines "um' \<equiv> AList.update e u um" and "qu' \<equiv> AList.update q (ids @ [e]) qu"
    and "qs' \<equiv> if ids = [] then queue_emplace (new_wh_queue w q) qs else qs"
  shows "books_inv um' qu' qs'" and "flight_inv um qu qs cm \<Longrightarrow> flight_inv um' qu' qs' cm"
    and "covered qu qs cm \<Longrightarrow> covered qu' qs' cm"
proof -
  have nil: "ids = [] \<longleftrightarrow> map_of qu q = None" using books_queue(2) [OF books, of q] ids by (auto split: option.splits)
  then have unscheduled: "ids = [] \<Longrightarrow> q \<notin> wq_id ` set qs" using books_schedule(3) [OF books, of q] by auto
  have sched: "wq_id ` set qs' = (if ids = [] then insert q (wq_id ` set qs) else wq_id ` set qs)"
    and dist: "distinct (map wq_id qs')"
    using queue_emplace_ids [OF unscheduled, of w] books_schedule(2) [OF books] by (auto simp: qs'_def)
  have old: "map_of qu q = Some ids" if "ids \<noteq> []" using that ids by (auto split: option.splits)
  have e_new: "e \<notin> set ids" if "ids \<noteq> []" using books_queue(4) [OF books old [OF that], of e] new by auto
  show "books_inv um' qu' qs'"
    unfolding books_inv_def
  proof (intro conjI allI impI)
    show "distinct (map fst qu')" using books_schedule(1) [OF books] by (simp add: qu'_def distinct_update)
    show "wq_id ` set qs' \<subseteq> dom (map_of qu')" using books_schedule(3) [OF books] sched by (auto simp: qu'_def)
  next
    fix p js assume p: "map_of qu' p = Some js"
    have "p \<noteq> 0 \<and> js \<noteq> [] \<and> distinct js \<and> (\<forall>i \<in> set js. \<exists>v. map_of um' i = Some v \<and> wu_queue_id v = p)"
    proof (cases "p = q")
      case True
      then have "js = ids @ [e]" using p by (simp add: qu'_def)
      moreover have "distinct ids \<and> (\<forall>i \<in> set ids. \<exists>v. map_of um i = Some v \<and> wu_queue_id v = q)"
        using books_queue(3,4) [OF books old] by (cases "ids = []") simp_all
      ultimately show ?thesis using True u e_new new by (cases "ids = []") (auto simp: um'_def)
    next
      case False
      then have "map_of qu p = Some js" using p by (simp add: qu'_def)
      note old_ids = books_queue [OF books this]
      have "\<exists>v. map_of um' i = Some v \<and> wu_queue_id v = p" if "i \<in> set js" for i
        using old_ids(4) [OF that] new by (auto simp: um'_def)
      with old_ids(1-3) show ?thesis by blast
    qed
    then show "p \<noteq> 0" "js \<noteq> []" "distinct js" "\<forall>i \<in> set js. \<exists>v. map_of um' i = Some v \<and> wu_queue_id v = p" by auto
  next
    fix i v assume v: "map_of um' i = Some v"
    show "update_ok i v" using v u(1) books_update(1) [OF books] by (auto simp: um'_def split: if_splits)
    show "\<exists>js. map_of qu' (wu_queue_id v) = Some js \<and> i \<in> set js"
    proof (cases "i = e")
      case True
      then show ?thesis using v u by (simp add: um'_def qu'_def)
    next
      case False
      then obtain js where "map_of qu (wu_queue_id v) = Some js" "i \<in> set js"
        using v books_update(2) [OF books, of i v] by (auto simp: um'_def)
      then show ?thesis using ids by (auto simp: qu'_def)
    qed
  qed (rule dist)
  show "flight_inv um' qu' qs' cm" if fl: "flight_inv um qu qs cm"
  proof (rule flightI)
    fix cid i assume "carries cm cid i"
    then obtain v js where v: "map_of um i = Some v" "map_of qu (wu_queue_id v) = Some (i # js)"
      "wu_queue_id v \<notin> wq_id ` set qs" using flightD [OF fl] by metis
    moreover from v have "ids = i # js" if "wu_queue_id v = q" using that ids by simp
    moreover have "i \<noteq> e" using v new by auto
    ultimately show "\<exists>v js. map_of um' i = Some v \<and> map_of qu' (wu_queue_id v) = Some (i # js) \<and>
        wu_queue_id v \<notin> wq_id ` set qs'"
      using sched nil by (auto simp: um'_def qu'_def)
  qed (use flight_inj [OF fl] in blast)
  show "covered qu' qs' cm" if cov: "covered qu qs cm"
  proof (rule coveredI)
    fix p js assume p: "map_of qu' p = Some js"
    show "p \<in> wq_id ` set qs' \<or> (\<exists>cid. carries cm cid (hd js))"
    proof (cases "p = q")
      case True
      then show ?thesis using p sched coveredD [OF cov, of q ids] old by (auto simp: qu'_def)
    next
      case False
      then show ?thesis using p sched coveredD [OF cov, of p js] by (auto simp: qu'_def)
    qed
  qed
qed

text \<open>Rewriting a loaded update without moving it.\<close>

lemma books_rewrite:
  assumes "books_inv um qu qs" and "map_of um e = Some u" and "update_ok e v" and "wu_queue_id v = wu_queue_id u"
  shows "books_inv (AList.update e v um) qu qs"
  unfolding books_inv_def
proof (intro conjI allI impI)
  show "distinct (map fst qu)" "distinct (map wq_id qs)" "wq_id ` set qs \<subseteq> dom (map_of qu)"
    using books_schedule [OF assms(1)] by auto
next
  fix q js assume q: "map_of qu q = Some js"
  show "q \<noteq> 0" "js \<noteq> []" "distinct js" using books_queue(1-3) [OF assms(1) q] by simp_all
  show "\<forall>i \<in> set js. \<exists>v'. map_of (AList.update e v um) i = Some v' \<and> wu_queue_id v' = q"
    using books_queue(4) [OF assms(1) q] assms(2,4) by fastforce
next
  fix i v' assume "map_of (AList.update e v um) i = Some v'"
  then show "update_ok i v'" "\<exists>js. map_of qu (wu_queue_id v') = Some js \<and> i \<in> set js"
    using books_update [OF assms(1)] assms(2-4) by (auto split: if_splits)
qed

lemma flight_rewrite:
  assumes fl: "flight_inv um qu qs cm" and "map_of um e = Some u" and "wu_queue_id v = wu_queue_id u"
  shows "flight_inv (AList.update e v um) qu qs cm"
proof (rule flightI)
  fix cid i assume "carries cm cid i"
  then obtain u' ids where "map_of um i = Some u'" "map_of qu (wu_queue_id u') = Some (i # ids)" "wu_queue_id u' \<notin> wq_id ` set qs"
    by (rule flightD [OF fl])
  then show "\<exists>u ids. map_of (AList.update e v um) i = Some u \<and> map_of qu (wu_queue_id u) = Some (i # ids) \<and>
      wu_queue_id u \<notin> wq_id ` set qs"
    using assms(2,3) by (cases "i = e") auto
qed (use flight_inj [OF fl] in blast)

text \<open>Taking the next scheduled queue.\<close>

lemma books_change_schedule:
  "books_inv um qu qs \<Longrightarrow> distinct (map wq_id qs') \<Longrightarrow> wq_id ` set qs' \<subseteq> dom (map_of qu) \<Longrightarrow> books_inv um qu qs'"
  unfolding books_inv_def by (elim conjE, intro conjI)

lemma books_unschedule: "books_inv um qu (x # qs) \<Longrightarrow> books_inv um qu qs"
  by (rule books_change_schedule) (use books_schedule in \<open>fastforce\<close>)+

lemma flight_unschedule: "flight_inv um qu (x # qs) cm \<Longrightarrow> flight_inv um qu qs cm"
  by (rule flightI) (auto elim: flightD dest: flight_inj)

lemma scheduled_not_carried:
  assumes "books_inv um qu qs" and "flight_inv um qu qs cm" and "q \<in> wq_id ` set qs"
    and "map_of qu q = Some (e # ids)"
  shows "\<not> carries cm cid e"
proof
  assume "carries cm cid e"
  then show False
  proof (rule flightD [OF assms(2)])
    fix u js assume "map_of um e = Some u" "wu_queue_id u \<notin> wq_id ` set qs"
    then show False using books_queue(4) [OF assms(1,4), of e] assms(3) by auto
  qed
qed

text \<open>Giving the first update of an unscheduled queue to an idle connection.\<close>

lemma carries_give:
  assumes "cm cid = Some c" and "wc_event_id c = 0" and "e \<noteq> 0"
  shows "carries (cm(cid \<mapsto> c\<lparr>wc_event_id := e\<rparr>)) cid' i \<longleftrightarrow> (cid' = cid \<and> i = e) \<or> carries cm cid' i"
  using assms by (auto simp: carries_def)

lemma flight_give:
  assumes fl: "flight_inv um qu qs cm" and idle: "cm cid = Some c" "wc_event_id c = 0" "e \<noteq> 0"
    and u: "map_of um e = Some u" "map_of qu (wu_queue_id u) = Some (e # ids)" "wu_queue_id u \<notin> wq_id ` set qs"
    and free: "\<And>cid'. \<not> carries cm cid' e"
  shows "flight_inv um qu qs (cm(cid \<mapsto> c\<lparr>wc_event_id := e\<rparr>))"
proof (rule flightI, unfold carries_give [where cm = cm and cid = cid and c = c, OF idle])
  fix cid' i assume "(cid' = cid \<and> i = e) \<or> carries cm cid' i"
  then show "\<exists>v js. map_of um i = Some v \<and> map_of qu (wu_queue_id v) = Some (i # js) \<and> wu_queue_id v \<notin> wq_id ` set qs"
    using u flightD [OF fl] by metis
qed (use flight_inj [OF fl] free in blast)

lemma covered_give:
  assumes cov: "covered qu (x # qs) cm" and idle: "cm cid = Some c" "wc_event_id c = 0" "e \<noteq> 0"
    and qu: "map_of qu (wq_id x) = Some (e # ids)"
  shows "covered qu qs (cm(cid \<mapsto> c\<lparr>wc_event_id := e\<rparr>))"
proof (rule coveredI, unfold carries_give [where cm = cm and cid = cid and c = c, OF idle])
  fix q js assume q: "map_of qu q = Some js"
  show "q \<in> wq_id ` set qs \<or> (\<exists>cid'. cid' = cid \<and> hd js = e \<or> carries cm cid' (hd js))"
  proof (cases "q = wq_id x")
    case False
    with coveredD [OF cov q] show ?thesis by auto
  qed (use q qu in auto)
qed

text \<open>
  The end of a request. While the connection is settled, the books hold for the other connections; its queue is
  neither scheduled nor carried.
\<close>

lemma carries_without: "carries (cm(cid := None)) cid' i \<longleftrightarrow> cid' \<noteq> cid \<and> carries cm cid' i"
  by (auto simp: carries_def)

lemma flight_without: "flight_inv um qu qs cm \<Longrightarrow> flight_inv um qu qs (cm(cid := None))"
  by (rule flightI) (auto simp: carries_without elim: flightD dest: flight_inj)

lemma books_reschedule:
  assumes "books_inv um qu qs" and "map_of qu q = Some ids" and "q \<notin> wq_id ` set qs"
  shows "books_inv um qu (queue_emplace (new_wh_queue w q) qs)"
proof (rule books_change_schedule [OF assms(1)])
  show "distinct (map wq_id (queue_emplace (new_wh_queue w q) qs))"
    using queue_emplace_ids(2) [OF assms(3) books_schedule(2) [OF assms(1)]] .
  show "wq_id ` set (queue_emplace (new_wh_queue w q) qs) \<subseteq> dom (map_of qu)"
    unfolding queue_emplace_ids(1) [OF assms(3)] using assms(2) books_schedule(3) [OF assms(1)] by blast
qed

lemma flight_settle:
  assumes fl: "flight_inv um qu qs cm" and e: "carries cm cid e" "map_of qu q = Some (e # ids)"
    and um': "\<And>i. i \<noteq> e \<Longrightarrow> map_of um' i = map_of um i" and qu': "\<And>p. p \<noteq> q \<Longrightarrow> map_of qu' p = map_of qu p"
    and qs': "wq_id ` set qs' \<subseteq> insert q (wq_id ` set qs)"
  shows "flight_inv um' qu' qs' (cm(cid := None))"
proof (rule flightI, unfold carries_without)
  fix cid' i assume c: "cid' \<noteq> cid \<and> carries cm cid' i"
  then obtain v js where v: "map_of um i = Some v" "map_of qu (wu_queue_id v) = Some (i # js)" "wu_queue_id v \<notin> wq_id ` set qs"
    using flightD [OF fl] by metis
  have i: "i \<noteq> e" using c flight_inj [OF fl e(1), of cid'] by blast
  then have "wu_queue_id v \<noteq> q" using v(2) e(2) by auto
  with v i um' qu' qs' show "\<exists>v js. map_of um' i = Some v \<and> map_of qu' (wu_queue_id v) = Some (i # js) \<and> wu_queue_id v \<notin> wq_id ` set qs'"
    by (intro exI [of _ v] exI [of _ js]) auto
qed (use flight_inj [OF fl] in blast)

lemma covered_settle:
  assumes cov: "covered qu qs cm" and books: "books_inv um qu qs" and e: "carries cm cid e" "map_of qu q = Some (e # ids)"
    and qu': "\<And>p. p \<noteq> q \<Longrightarrow> map_of qu' p = map_of qu p" "map_of qu' q = None \<or> q \<in> wq_id ` set qs'"
    and qs': "wq_id ` set qs \<subseteq> wq_id ` set qs'"
  shows "covered qu' qs' (cm(cid := None))"
proof (rule coveredI, unfold carries_without)
  fix p js assume p: "map_of qu' p = Some js"
  show "p \<in> wq_id ` set qs' \<or> (\<exists>cid'. cid' \<noteq> cid \<and> carries cm cid' (hd js))"
  proof (cases "p = q \<or> p \<in> wq_id ` set qs")
    case False
    then have p': "map_of qu p = Some js" using p qu' by auto
    then obtain cid' where c: "carries cm cid' (hd js)" using coveredD [OF cov p'] False by blast
    have "cid' \<noteq> cid"
    proof
      assume "cid' = cid"
      then have "hd js = e" using c e(1) by (auto simp: carries_def)
      then have "e \<in> set js" using books_queue(2) [OF books p'] by auto
      then show False using books_queue(4) [OF books p', of e] books_queue(4) [OF books e(2), of e] False by auto
    qed
    then show ?thesis using c by blast
  qed (use p qu' qs' in auto)
qed

lemma books_drop:
  assumes books: "books_inv um qu qs" and q: "map_of qu q = Some (e # ids)" "q \<notin> wq_id ` set qs"
  shows "books_inv (AList.delete e um) (if ids = [] then AList.delete q qu else AList.update q ids qu) qs"
    (is "books_inv ?um ?qu qs")
proof (rule booksI)
  have qu_of: "map_of ?qu p = (if p = q then if ids = [] then None else Some ids else map_of qu p)" for p by simp
  have in_q: "p = q" if "map_of qu p = Some js" "e \<in> set js" for p js
    using books_queue(4) [OF books that] books_queue(4) [OF books q(1), of e] by auto
  show "distinct (map fst ?qu)" using books_schedule(1) [OF books] by (simp add: distinct_update distinct_delete)
  show "distinct (map wq_id qs)" using books_schedule(2) [OF books] .
  show "map_of ?qu p \<noteq> None" if "p \<in> wq_id ` set qs" for p
    using books_schedule(3) [OF books that] q(2) that unfolding qu_of by auto
  show "p \<noteq> 0 \<and> js \<noteq> [] \<and> distinct js \<and> (\<forall>i \<in> set js. \<exists>v. map_of ?um i = Some v \<and> wu_queue_id v = p)"
    if p: "map_of ?qu p = Some js" for p js
  proof (cases "p = q")
    case True
    then have js: "js = ids" "ids \<noteq> []" using p unfolding qu_of by (auto split: if_splits)
    note front = books_queue [OF books q(1)]
    have "\<exists>v. map_of ?um i = Some v \<and> wu_queue_id v = p" if "i \<in> set js" for i
      using front(3) front(4) [of i] that js(1) True by auto
    then show ?thesis using True js front(1,3) by auto
  next
    case False
    then have p': "map_of qu p = Some js" using p unfolding qu_of by simp
    then have "e \<notin> set js" using in_q False by blast
    then show ?thesis using books_queue [OF books p'] by fastforce
  qed
  show "update_ok i v \<and> (\<exists>js. map_of ?qu (wu_queue_id v) = Some js \<and> i \<in> set js)" if v: "map_of ?um i = Some v" for i v
  proof -
    have v': "map_of um i = Some v" "i \<noteq> e" using v by (auto split: if_splits)
    obtain js where "map_of qu (wu_queue_id v) = Some js" "i \<in> set js" using books_update(2) [OF books v'(1)] by blast
    then show ?thesis using books_update(1) [OF books v'(1)] v'(2) q(1) unfolding qu_of by auto
  qed
qed

subsection \<open>The invariant\<close>

fun open_id :: "wa_msg \<Rightarrow> 64 word list" where
  "open_id (Open_Http cid) = [cid]"
| "open_id m = []"

fun proxy_id :: "wa_msg \<Rightarrow> 64 word list" where
  "proxy_id (Open_Proxy sid a) = [sid]"
| "proxy_id m = []"

text \<open>The identifiers of connections and of proxy sockets ever issued, newest first.\<close>

definition opened :: "wa_msg list \<Rightarrow> 64 word list" where
  "opened ms = concat (map open_id (rev ms))"

definition proxied :: "wa_msg list \<Rightarrow> 64 word list" where
  "proxied ms = concat (map proxy_id (rev ms))"

lemma opened_append [simp]:
  "opened (ms @ ns) = opened ns @ opened ms" "opened (m # ms) = opened ms @ open_id m" "opened [] = []"
  "proxied (ms @ ns) = proxied ns @ proxied ms" "proxied (m # ms) = proxied ms @ proxy_id m" "proxied [] = []"
  by (simp_all add: opened_def proxied_def)

definition conn_map :: "webhook_actor \<Rightarrow> 64 word \<rightharpoonup> wh_connection" where
  "conn_map s cid = (if cid \<in> set (opened (wa_out s)) then container_get (connections s) cid else None)"

lemma conn_map_rel: "container_rel (connections s) (opened (wa_out s)) m \<Longrightarrow> conn_map s = m"
proof
  fix cid assume "container_rel (connections s) (opened (wa_out s)) m"
  then have "dom m \<subseteq> set (opened (wa_out s))" "cid \<in> set (opened (wa_out s)) \<Longrightarrow> container_get (connections s) cid = m cid"
    by (auto simp: container_rel_def)
  then show "conn_map s cid = m cid" by (cases "m cid") (auto simp: conn_map_def)
qed

text \<open>A webhook whose texts leave room for the other fields of the request header.\<close>

definition header_fits :: "wa_config \<Rightarrow> bool" where
  "header_fits cfg \<longleftrightarrow>
     length (url_query (wa_url cfg)) + length (wa_host_header cfg) + 2 * length (url_userinfo (wa_url cfg)) +
     length (wa_secret_token cfg) \<le> 3700"

definition loaded_inv :: "wa_config \<Rightarrow> (64 word \<rightharpoonup> wh_connection) \<Rightarrow> webhook_actor \<Rightarrow> bool" where
  "loaded_inv cfg cm s \<longleftrightarrow>
     books_inv (update_map s) (queue_updates s) (wh_queues s) \<and>
     flight_inv (update_map s) (queue_updates s) (wh_queues s) cm \<and>
     (header_fits cfg \<longrightarrow> covered (queue_updates s) (wh_queues s) cm) \<and>
     length (queue_updates s) \<le> max_loaded_updates s \<and>
     max_loaded_updates s \<le> nat (wa_max_connections cfg * 2) \<and> 0 < unique_queue_id s"

definition conn_sockets :: "webhook_actor \<Rightarrow> nat" where
  "conn_sockets s = container_size (connections s) + container_size (pending_sockets s)"

definition connections_inv :: "wa_config \<Rightarrow> webhook_actor \<Rightarrow> bool" where
  "connections_inv cfg s \<longleftrightarrow>
     container_rel (connections s) (opened (wa_out s)) (conn_map s) \<and> ready_inv (ready_connections s) (conn_map s) \<and>
     (\<exists>m. container_rel (pending_sockets s) (proxied (wa_out s)) m) \<and>
     conn_sockets s \<le> nat (wa_max_connections cfg)"

definition callback_inv :: "webhook_actor \<Rightarrow> bool" where
  "callback_inv s \<longleftrightarrow> (stop_flag s \<longrightarrow> \<not> has_callback s) \<and> (\<not> stop_flag s \<and> \<not> wa_stopped s \<longrightarrow> has_callback s)"

definition shared_inv :: "real \<Rightarrow> webhook_actor \<Rightarrow> bool" where
  "shared_inv t s \<longleftrightarrow>
     tq_inv (wa_tqueue s) \<and> flood_ok [(1 / 2, 10)] t (active_new_connection_flood s) \<and>
     flood_ok [(2, 1)] t (pending_new_connection_flood s)"

definition wa_inv :: "wa_config \<Rightarrow> real \<Rightarrow> webhook_actor \<Rightarrow> bool" where
  "wa_inv cfg t s \<longleftrightarrow> loaded_inv cfg (conn_map s) s \<and> connections_inv cfg s \<and> callback_inv s \<and> shared_inv t s"

text \<open>Between two messages, and inside a handler, an actor that was stopped has its stop flag set.\<close>

definition wa_ok :: "wa_config \<Rightarrow> real \<Rightarrow> webhook_actor \<Rightarrow> bool" where
  "wa_ok cfg t s \<longleftrightarrow> wa_inv cfg t s \<and> (wa_stopped s \<longrightarrow> stop_flag s)"

lemma shared_inv_mono: "shared_inv t s \<Longrightarrow> t \<le> t' \<Longrightarrow> shared_inv t' s"
  by (auto simp: shared_inv_def intro: flood_ok_mono)

lemma wa_ok_mono: "wa_ok cfg t s \<Longrightarrow> t \<le> t' \<Longrightarrow> wa_ok cfg t' s"
  by (auto simp: wa_ok_def wa_inv_def intro: shared_inv_mono)

text \<open>What the invariant reads of a state; every function that keeps it keeps the invariant.\<close>

definition wa_view :: "webhook_actor \<Rightarrow> _" where
  "wa_view s = ((update_map s, queue_updates s, wh_queues s, max_loaded_updates s, unique_queue_id s),
     (connections s, ready_connections s, pending_sockets s, length (ready_sockets s), opened (wa_out s), proxied (wa_out s)),
     (stop_flag s, has_callback s, wa_stopped s),
     (wa_tqueue s, active_new_connection_flood s, pending_new_connection_flood s))"

lemma wa_view_ok: "wa_view s' = wa_view s \<Longrightarrow> wa_ok cfg t s' \<longleftrightarrow> wa_ok cfg t s"
proof -
  assume v: "wa_view s' = wa_view s"
  then have "conn_map s' = conn_map s" by (intro ext) (simp add: wa_view_def conn_map_def)
  with v show ?thesis
    by (simp add: wa_view_def wa_ok_def wa_inv_def loaded_inv_def connections_inv_def callback_inv_def shared_inv_def
        conn_sockets_def)
qed

lemma wa_view_send: "open_id m = [] \<Longrightarrow> proxy_id m = [] \<Longrightarrow> wa_view (wa_send m s) = wa_view s"
  by (simp add: wa_view_def wa_send_def)

lemma wa_view_functions:
  "wa_view (relax_wakeup_at w s) = wa_view s" "wa_view (on_webhook_verified cfg s) = wa_view s"
  "wa_view (on_webhook_error now err s) = wa_view s" "wa_view (on_connection_error now e s) = wa_view s"
  "wa_view (resolve_ip_address cfg now s) = wa_view s" "wa_view (to_callback Webhook_Success s) = wa_view s"
  "wa_view (to_callback (Webhook_Send q) s) = wa_view s"
  by (auto simp: wa_view_def relax_wakeup_at_def on_webhook_verified_def to_callback_def wa_send_def on_webhook_error_def
      on_connection_error_def resolve_ip_address_def)

lemmas wa_view_simps = wa_view_send wa_view_functions

lemma wa_on_error_ok:
  assumes "wa_ok cfg t s"
  shows "\<exists>s'. wa_on_error e s = Some s' \<and> wa_ok cfg t s'"
proof (cases "was_checked s \<or> stop_flag s")
  case False
  then have cb: "has_callback s" using assms by (auto simp: wa_ok_def wa_inv_def callback_inv_def)
  let ?s = "(to_callback (Webhook_Closed (Some e)) s)\<lparr>has_callback := False, stop_flag := True\<rparr>"
  have "conn_map ?s = conn_map s" by (intro ext) (simp add: conn_map_def to_callback_def wa_send_def)
  then have "wa_ok cfg t ?s"
    using assms by (simp add: wa_ok_def wa_inv_def loaded_inv_def connections_inv_def callback_inv_def shared_inv_def
        conn_sockets_def to_callback_def wa_send_def)
  then show ?thesis using False cb by (simp add: wa_on_error_def)
qed (use assms in \<open>auto simp: wa_on_error_def\<close>)

lemma create_webhook_error_ok:
  assumes "wa_ok cfg t s"
  shows "\<exists>s'. create_webhook_error now msg e pm pub s = Some s' \<and> wa_ok cfg t s'"
  unfolding create_webhook_error_def by (rule wa_on_error_ok) (simp add: wa_view_ok [OF wa_view_functions(3)] assms)

subsection \<open>Opening connections\<close>

lemma carries_new: "cm cid = None \<Longrightarrow> wc_event_id c = 0 \<Longrightarrow> carries (cm(cid \<mapsto> c)) cid' e \<longleftrightarrow> carries cm cid' e"
  by (auto simp: carries_def)

lemma loaded_inv_carries:
  assumes "\<And>cid e. carries cm' cid e \<longleftrightarrow> carries cm cid e"
  shows "loaded_inv cfg cm' s \<longleftrightarrow> loaded_inv cfg cm s"
  by (simp add: loaded_inv_def flight_inv_def covered_def assms)

lemma loaded_inv_fields:
  "update_map s' = update_map s \<Longrightarrow> queue_updates s' = queue_updates s \<Longrightarrow> wh_queues s' = wh_queues s \<Longrightarrow>
   max_loaded_updates s' = max_loaded_updates s \<Longrightarrow> unique_queue_id s' = unique_queue_id s \<Longrightarrow>
   loaded_inv cfg cm s' \<longleftrightarrow> loaded_inv cfg cm s"
  by (simp add: loaded_inv_def)

lemma ready_inv_new:
  "ready_inv rs cm \<Longrightarrow> cm cid = None \<Longrightarrow> wc_event_id c = 0 \<Longrightarrow> wc_id c = cid \<Longrightarrow> ready_inv (cid # rs) (cm(cid \<mapsto> c))"
  by (auto simp: ready_inv_def)

text \<open>The connection that \<open>create_connection\<close> adds: it is idle and known under its own number.\<close>

definition with_connection :: "64 word \<Rightarrow> wh_connection container \<Rightarrow> webhook_actor \<Rightarrow> webhook_actor" where
  "with_connection cid cs s = wa_send (Connection_Count 1) (wa_send (Open_Http cid)
     (s\<lparr>connections := container_modify (\<lambda>c. c\<lparr>wc_ip_generation := ip_generation s, wc_event_id := 0, wc_id := cid\<rparr>) cid cs,
       ready_connections := cid # ready_connections s\<rparr>))"

lemma with_connection_ok:
  assumes ok: "wa_ok cfg t s" and room: "conn_sockets s < nat (wa_max_connections cfg)" and max: "wa_max_connections cfg < 2 ^ 31"
  shows "\<exists>cid cs. container_create new_wh_connection 0 (connections s) = Some (cid, cs) \<and>
    wa_ok cfg t (with_connection cid cs s) \<and> all_sockets (with_connection cid cs s) = Suc (all_sockets s)"
proof -
  have rel: "container_rel (connections s) (opened (wa_out s)) (conn_map s)"
    and ready: "ready_inv (ready_connections s) (conn_map s)"
    using ok by (auto simp: wa_ok_def wa_inv_def connections_inv_def)
  have "container_size (connections s) < 2 ^ 31 - 1" using room max by (simp add: conn_sockets_def)
  then have "container_room (connections s)" by (rule container_room_size [OF rel])
  from ids.rel_create [OF rel this, of new_wh_connection 0] obtain cid cs where
    create: "container_create new_wh_connection 0 (connections s) = Some (cid, cs)"
    and new: "cid \<notin> set (opened (wa_out s))"
    and rel1: "container_rel cs (cid # opened (wa_out s)) ((conn_map s)(cid \<mapsto> new_wh_connection))" by blast
  let ?c = "new_wh_connection\<lparr>wc_ip_generation := ip_generation s, wc_event_id := 0, wc_id := cid\<rparr>"
  let ?s = "with_connection cid cs s"
  have free: "conn_map s cid = None" using new by (simp add: conn_map_def)
  have out: "opened (wa_out ?s) = cid # opened (wa_out s)" "proxied (wa_out ?s) = proxied (wa_out s)"
    by (simp_all add: with_connection_def wa_send_def)
  have "container_rel (connections ?s) (opened (wa_out ?s)) ((conn_map s)(cid \<mapsto> ?c))"
    using container_modify_rel [OF rel1, of cid "\<lambda>c. c\<lparr>wc_ip_generation := ip_generation s, wc_event_id := 0, wc_id := cid\<rparr>"]
    unfolding out by (simp add: with_connection_def wa_send_def)
  note rel2 = this and cm = conn_map_rel [OF this]
  have size: "all_sockets ?s = Suc (all_sockets s)" "conn_sockets ?s = Suc (conn_sockets s)"
    using container_size_create [OF rel create] by (simp_all add: all_sockets_def conn_sockets_def with_connection_def wa_send_def)
  have "loaded_inv cfg (conn_map ?s) ?s"
  proof -
    have "loaded_inv cfg (conn_map s) ?s"
      using ok by (simp add: wa_ok_def wa_inv_def loaded_inv_def with_connection_def wa_send_def)
    then show ?thesis unfolding cm by (subst loaded_inv_carries [OF carries_new]) (simp_all add: free)
  qed
  moreover have "connections_inv cfg ?s"
    using ok ready_inv_new [OF ready free, of ?c] rel2 size room out unfolding cm connections_inv_def
    by (auto simp: wa_ok_def wa_inv_def connections_inv_def with_connection_def wa_send_def)
  ultimately have "wa_ok cfg t ?s"
    using ok by (simp add: wa_ok_def wa_inv_def callback_inv_def shared_inv_def with_connection_def wa_send_def)
  with create size show ?thesis by blast
qed

text \<open>What the loops over connections need to stay as it is.\<close>

definition keeps_link :: "webhook_actor \<Rightarrow> webhook_actor \<Rightarrow> bool" where
  "keeps_link s s' \<longleftrightarrow>
     wa_ip_address s' = wa_ip_address s \<and> has_ssl_ctx s' = has_ssl_ctx s \<and> ready_sockets s' = ready_sockets s"

lemma verified_ok:
  "wa_ok cfg t (on_webhook_verified cfg (s\<lparr>was_checked := b\<rparr>)) \<longleftrightarrow> wa_ok cfg t s"
  by (rule wa_view_ok) (simp add: wa_view_functions, simp add: wa_view_def)

lemma create_connection_fd_ok:
  assumes ok: "wa_ok cfg t s" and room: "conn_sockets s < nat (wa_max_connections cfg)" and max: "wa_max_connections cfg < 2 ^ 31"
    and ssl: "url_protocol (wa_url cfg) = Http \<or> has_ssl_ctx s"
  shows "\<exists>b s'. create_connection_fd cfg env i s = Some (b, s') \<and> wa_ok cfg t s' \<and>
    (b \<longrightarrow> all_sockets s' = Suc (all_sockets s) \<and> keeps_link s s')"
proof (cases "if url_protocol (wa_url cfg) = Http then None else env_ssl env i")
  case None
  obtain cid cs where c: "container_create new_wh_connection 0 (connections s) = Some (cid, cs)"
    "wa_ok cfg t (with_connection cid cs s)" "all_sockets (with_connection cid cs s) = Suc (all_sockets s)"
    using with_connection_ok [OF ok room max] by blast
  let ?s = "with_connection cid cs s"
  let ?s' = "if \<not> was_checked ?s then on_webhook_verified cfg (?s\<lparr>was_checked := True\<rparr>) else ?s"
  have "create_connection_fd cfg env i s = Some (True, ?s')"
    using ssl None c(1) unfolding create_connection_fd_def with_connection_def by (auto simp: Let_def)
  moreover have "wa_ok cfg t ?s'" using c(2) by (simp add: verified_ok)
  moreover have "all_sockets ?s' = all_sockets ?s" "keeps_link s ?s'"
    by (auto simp: all_sockets_def keeps_link_def on_webhook_verified_def to_callback_def wa_send_def with_connection_def)
  ultimately show ?thesis using c(3) by auto
next
  case (Some p)
  obtain e pm where p: "p = (e, pm)" by (cases p)
  show ?thesis
    using create_webhook_error_ok [OF ok] ssl Some p unfolding create_connection_fd_def
    by (fastforce split: if_splits)
qed

lemma with_proxy_ok:
  assumes ok: "wa_ok cfg t s" and room: "conn_sockets s < nat (wa_max_connections cfg)" and max: "wa_max_connections cfg < 2 ^ 31"
  shows "\<exists>sid ps. container_create () 0 (pending_sockets s) = Some (sid, ps) \<and>
    wa_ok cfg t (wa_send (Open_Proxy sid a) (s\<lparr>pending_sockets := ps\<rparr>))"
proof -
  obtain m where rel: "container_rel (pending_sockets s) (proxied (wa_out s)) m"
    using ok by (auto simp: wa_ok_def wa_inv_def connections_inv_def)
  have "container_size (pending_sockets s) < 2 ^ 31 - 1" using room max by (simp add: conn_sockets_def)
  then have "container_room (pending_sockets s)" by (rule container_room_size [OF rel])
  from ids.rel_create [OF rel this, of "()" 0] obtain sid ps where
    create: "container_create () 0 (pending_sockets s) = Some (sid, ps)"
    and rel1: "container_rel ps (sid # proxied (wa_out s)) (m(sid \<mapsto> ()))" by blast
  let ?s = "wa_send (Open_Proxy sid a) (s\<lparr>pending_sockets := ps\<rparr>)"
  have cm: "conn_map ?s = conn_map s" by (intro ext) (simp add: conn_map_def wa_send_def)
  have "conn_sockets ?s \<le> nat (wa_max_connections cfg)"
    using container_size_create [OF rel create] room by (simp add: conn_sockets_def wa_send_def)
  then have "connections_inv cfg ?s"
    using ok rel1 unfolding connections_inv_def cm by (auto simp: wa_ok_def wa_inv_def connections_inv_def wa_send_def)
  then have "wa_ok cfg t ?s"
    using ok unfolding wa_ok_def wa_inv_def cm by (simp add: loaded_inv_def callback_inv_def shared_inv_def wa_send_def)
  with create show ?thesis by blast
qed

lemma create_connection_ok:
  assumes ok: "wa_ok cfg t s" and room: "conn_sockets s < nat (wa_max_connections cfg)" and max: "wa_max_connections cfg < 2 ^ 31"
    and ssl: "url_protocol (wa_url cfg) = Http \<or> has_ssl_ctx s" and ip: "ip_is_valid (wa_ip_address s)"
  shows "\<exists>b s'. create_connection cfg env i s = Some (b, s') \<and> wa_ok cfg t s' \<and>
    (b \<longrightarrow> all_sockets s' = Suc (all_sockets s) \<and> keeps_link s s')"
proof (cases "env_open env i")
  case (Some e)
  then show ?thesis
    using create_webhook_error_ok [OF ok] ip unfolding create_connection_def by (fastforce split: if_splits)
next
  case None
  define s1 where "s1 = (if \<not> was_checked s then on_webhook_verified cfg (s\<lparr>was_checked := True\<rparr>) else s)"
  have "wa_ok cfg t s1" using ok by (simp add: verified_ok s1_def)
  moreover have "conn_sockets s1 = conn_sockets s"
    by (simp add: conn_sockets_def on_webhook_verified_def to_callback_def wa_send_def s1_def)
  ultimately obtain sid ps where "container_create () 0 (pending_sockets s1) = Some (sid, ps)"
    "wa_ok cfg t (wa_send (Open_Proxy sid (wa_ip_address s1)) (s1\<lparr>pending_sockets := ps\<rparr>))"
    using with_proxy_ok [of cfg t s1 "wa_ip_address s1"] room max by metis
  then show ?thesis
    using None ip create_connection_fd_ok [OF ok room max ssl, of env i]
    unfolding create_connection_def Let_def s1_def [symmetric] by (cases "wa_has_proxy cfg") auto
qed

lemma flood_of_ok:
  assumes "wa_ok cfg t s" and "t \<le> now"
    and "wakeup_at (if active then active_new_connection_flood s else pending_new_connection_flood s) \<le> now"
  shows "\<exists>fc. flood_add_event now (if active then active_new_connection_flood s else pending_new_connection_flood s) = Some fc \<and>
    wa_ok cfg now (if active then s\<lparr>active_new_connection_flood := fc\<rparr> else s\<lparr>pending_new_connection_flood := fc\<rparr>)"
proof -
  have cm: "conn_map (s\<lparr>active_new_connection_flood := fc\<rparr>) = conn_map s"
    "conn_map (s\<lparr>pending_new_connection_flood := fc\<rparr>) = conn_map s" for fc
    by (intro ext, simp add: conn_map_def)+
  note defs = wa_ok_def wa_inv_def loaded_inv_def connections_inv_def callback_inv_def shared_inv_def conn_sockets_def
  have ok: "wa_ok cfg now s" using wa_ok_mono assms(1,2) by blast
  have fl: "flood_ok [(1 / 2, 10)] t (active_new_connection_flood s)" "flood_ok [(2, 1)] t (pending_new_connection_flood s)"
    using assms(1) by (auto simp: defs)
  show ?thesis
  proof (cases active)
    case True
    then obtain fc where "flood_add_event now (active_new_connection_flood s) = Some fc" "flood_ok [(1 / 2, 10)] now fc"
      using flood_add_event_ok [OF fl(1) _ assms(2)] assms(3) by (auto simp: limits_ok_def)
    with True ok show ?thesis by (auto simp: defs cm)
  next
    case False
    then obtain fc where "flood_add_event now (pending_new_connection_flood s) = Some fc" "flood_ok [(2, 1)] now fc"
      using flood_add_event_ok [OF fl(2) _ assms(2)] assms(3) by (auto simp: limits_ok_def)
    with False ok show ?thesis by (auto simp: defs cm)
  qed
qed

lemma relax_ok: "wa_ok cfg t (relax_wakeup_at w s) \<longleftrightarrow> wa_ok cfg t s"
  by (rule wa_view_ok) (rule wa_view_functions)

lemma relax_fields [simp]:
  "wa_ip_address (relax_wakeup_at w s) = wa_ip_address s" "has_ssl_ctx (relax_wakeup_at w s) = has_ssl_ctx s"
  "wa_tqueue (relax_wakeup_at w s) = wa_tqueue s"
  by (simp_all add: relax_wakeup_at_def)

lemma open_connections_ok:
  assumes "wa_ok cfg (env_now env) s" and "need \<le> nat (wa_max_connections cfg)" and "wa_max_connections cfg < 2 ^ 31"
    and "url_protocol (wa_url cfg) = Http \<or> has_ssl_ctx s" and "ip_is_valid (wa_ip_address s)"
    and "need \<le> all_sockets s + fuel"
  shows "\<exists>b s'. open_connections cfg env need active fuel s = Some (b, s') \<and> wa_ok cfg (env_now env) s' \<and>
    (b \<longrightarrow> (url_protocol (wa_url cfg) = Http \<or> has_ssl_ctx s') \<and> ip_is_valid (wa_ip_address s'))"
  using assms
proof (induction fuel arbitrary: s)
  case 0
  then show ?case by (auto simp: open_connections.simps [of cfg env need active 0])
next
  case (Suc n)
  let ?fl = "if active then active_new_connection_flood s else pending_new_connection_flood s"
  consider "\<not> all_sockets s < need" | "all_sockets s < need" "env_now env < wakeup_at ?fl"
    | "all_sockets s < need" "\<not> env_now env < wakeup_at ?fl" by blast
  then show ?case
  proof cases
    case 2
    then show ?thesis using Suc.prems
      by (auto simp: open_connections.simps [of cfg env need active "Suc n"] relax_ok Let_def)
  next
    case 3
    then obtain fc where fc: "flood_add_event (env_now env) ?fl = Some fc"
      and ok1: "wa_ok cfg (env_now env) (if active then s\<lparr>active_new_connection_flood := fc\<rparr> else s\<lparr>pending_new_connection_flood := fc\<rparr>)"
        (is "wa_ok cfg _ ?s1")
      using flood_of_ok [OF Suc.prems(1) order_refl, of active] by auto
    have same: "all_sockets ?s1 = all_sockets s" "keeps_link s ?s1" "conn_sockets ?s1 < nat (wa_max_connections cfg)"
      using 3(1) Suc.prems(2) by (auto simp: all_sockets_def conn_sockets_def keeps_link_def)
    then obtain b s2 where s2: "create_connection cfg env n ?s1 = Some (b, s2)" "wa_ok cfg (env_now env) s2"
      "b \<longrightarrow> all_sockets s2 = Suc (all_sockets s) \<and> keeps_link s s2"
      using create_connection_ok [OF ok1 _ Suc.prems(3), of env n] Suc.prems 3(1) by (auto simp: keeps_link_def)
    show ?thesis
    proof (cases b)
      case False
      then show ?thesis using 3 fc s2
        by (auto simp: open_connections.simps [of cfg env need active "Suc n"] Let_def relax_ok)
    next
      case True
      then have "\<exists>b s'. open_connections cfg env need active n s2 = Some (b, s') \<and> wa_ok cfg (env_now env) s' \<and>
          (b \<longrightarrow> (url_protocol (wa_url cfg) = Http \<or> has_ssl_ctx s') \<and> ip_is_valid (wa_ip_address s'))"
        using Suc.prems s2 by (intro Suc.IH) (auto simp: keeps_link_def)
      then show ?thesis using 3 fc s2(1) True
        by (simp add: open_connections.simps [of cfg env need active "Suc n"] Let_def)
    qed
  qed (use Suc.prems in \<open>auto simp: open_connections.simps [of cfg env need active "Suc n"]\<close>)
qed

lemma fewer_ready_ok:
  assumes "wa_ok cfg t s"
  shows "wa_ok cfg t (s\<lparr>ready_sockets := fds\<rparr>)"
proof -
  have "conn_map (s\<lparr>ready_sockets := fds\<rparr>) = conn_map s" by (intro ext) (simp add: conn_map_def)
  then show ?thesis
    using assms by (auto simp: wa_ok_def wa_inv_def loaded_inv_def connections_inv_def callback_inv_def shared_inv_def conn_sockets_def)
qed

lemma use_sockets_ok:
  assumes "wa_ok cfg t s" and "wa_max_connections cfg < 2 ^ 31" and "url_protocol (wa_url cfg) = Http \<or> has_ssl_ctx s"
    and "need \<le> nat (wa_max_connections cfg)"
  shows "\<exists>s'. use_sockets cfg env need fds s = Some s' \<and> wa_ok cfg t s'"
  using assms
proof (induction fds arbitrary: s)
  case (Cons fd fds)
  show ?case
  proof (cases "container_size (connections s) + container_size (pending_sockets s) < need")
    case True
    let ?s = "s\<lparr>ready_sockets := rev fds\<rparr>"
    have "wa_ok cfg t ?s" using Cons.prems(1) by (rule fewer_ready_ok)
    moreover have "conn_sockets ?s < nat (wa_max_connections cfg)" using True Cons.prems(4) by (simp add: conn_sockets_def)
    ultimately obtain b s1 where s1: "create_connection_fd cfg env (need + length fds) ?s = Some (b, s1)" "wa_ok cfg t s1"
      "b \<longrightarrow> keeps_link ?s s1"
      using create_connection_fd_ok [of cfg t ?s env "need + length fds"] Cons.prems(2,3) by auto
    show ?thesis
    proof (cases b)
      case True
      then have "\<exists>s'. use_sockets cfg env need fds s1 = Some s' \<and> wa_ok cfg t s'"
        using s1 Cons.prems by (intro Cons.IH) (auto simp: keeps_link_def)
      then show ?thesis using s1(1) True Cons.prems(1) by simp
    qed (use s1 Cons.prems(1) in \<open>auto simp: relax_ok\<close>)
  qed (use Cons.prems(1) in simp)
qed simp

lemma create_new_connections_ok:
  assumes "wa_ok cfg (env_now env) s" and "0 < wa_max_connections cfg" "wa_max_connections cfg < 2 ^ 31"
  shows "\<exists>s'. create_new_connections cfg env s = Some s' \<and> wa_ok cfg (env_now env) s'"
proof (cases "ip_is_valid (wa_ip_address s) \<and> (url_protocol (wa_url cfg) = Http \<or> has_ssl_ctx s)")
  case True
  obtain need active where n: "need_connections cfg (env_now env) s = (need, active)" by fastforce
  then have le: "need \<le> nat (wa_max_connections cfg)" using assms(2) by (auto simp: need_connections_def Let_def split: if_splits)
  obtain b s1 where s1: "open_connections cfg env need active need s = Some (b, s1)" "wa_ok cfg (env_now env) s1"
    "b \<longrightarrow> (url_protocol (wa_url cfg) = Http \<or> has_ssl_ctx s1)"
    using open_connections_ok [of cfg env s need need active] assms True le by auto
  show ?thesis
  proof (cases b)
    case True
    then obtain s2 where "use_sockets cfg env need (rev (ready_sockets s1)) s1 = Some s2" "wa_ok cfg (env_now env) s2"
      using use_sockets_ok [OF s1(2) assms(3) _ le, of env "rev (ready_sockets s1)"] s1(3) by auto
    then show ?thesis using s1(1) n True \<open>ip_is_valid _ \<and> _\<close> fewer_ready_ok [of cfg "env_now env" s2 "[]"]
      by (auto simp: create_new_connections_def)
  qed (use s1 n True in \<open>auto simp: create_new_connections_def\<close>)
qed (use assms in \<open>auto simp: create_new_connections_def\<close>)

end
