(* ===== verification/Webhook_Actor_Spec.thy ===== *)
theory Webhook_Actor_Spec
  imports Webhook_Actor_Proofs
begin

section \<open>Delivery by the webhook actor\<close>

text \<open>
  The handlers that load, send and settle updates keep the invariant, hence the whole actor does, whatever the
  webhook, the resolver, the sockets and the other users of the queue do. On top of it: an update is given up
  only after a success or when it expires, at most one update of a queue is under way and it is the oldest, and
  an update whose request header does not fit is never sent again.
\<close>

subsection \<open>Loading\<close>

text \<open>What the loading, sending and settling of updates leaves alone.\<close>

definition rest_view :: "webhook_actor \<Rightarrow> _" where
  "rest_view s = (connections s, ready_connections s, pending_sockets s, ready_sockets s, wa_out s,
     (stop_flag s, has_callback s, wa_stopped s), (active_new_connection_flood s, pending_new_connection_flood s),
     max_loaded_updates s)"

lemma rest_view_ok:
  assumes "rest_view s' = rest_view s" and "wa_ok cfg t s" and "loaded_inv cfg (conn_map s) s'" and "tq_inv (wa_tqueue s')"
  shows "wa_ok cfg t s'" and "conn_map s' = conn_map s"
proof -
  show cm: "conn_map s' = conn_map s" using assms(1) by (intro ext) (simp add: rest_view_def conn_map_def)
  show "wa_ok cfg t s'"
    using assms unfolding wa_ok_def wa_inv_def cm
    by (simp add: rest_view_def connections_inv_def cm callback_inv_def shared_inv_def conn_sockets_def)
qed

definition loadable_event :: "wa_config \<Rightarrow> real \<Rightarrow> raw_event \<Rightarrow> bool" where
  "loadable_event cfg now e \<longleftrightarrow>
     event_id_is_valid (ev_id e) \<and> is_valid_id (ev_id e + 1) \<and> ev_data e \<noteq> [] \<and> length (ev_data e) \<le> max_event_length \<and>
     wa_unix_time cfg now \<le> ev_expires_at e"

lemma load_update_ok:
  assumes inv: "loaded_inv cfg cm s" and e: "loadable_event cfg now e"
    and room: "length (queue_updates s) < max_loaded_updates s"
  shows "\<exists>s'. load_update cfg now e s = Some s' \<and> loaded_inv cfg cm s' \<and>
    length (queue_updates s') \<le> Suc (length (queue_updates s)) \<and> rest_view s' = rest_view s \<and> wa_tqueue s' = wa_tqueue s"
proof (cases "map_of (update_map s) (ev_id e)")
  case (Some u)
  then show ?thesis using e inv by (auto simp: load_update_def loadable_event_def)
next
  case None
  define q where "q = (if ev_extra e = 0 then unique_queue_id s else ev_extra e)"
  define u where "u = \<lparr>wu_id = ev_id e, wu_json = ev_data e, wu_expires_at = ev_expires_at e, wu_last_send_time = 0,
    wu_wakeup_at = now, wu_delay = 1, wu_fail_count = 0, wu_queue_id = q\<rparr>"
  define ids where "ids = (case map_of (queue_updates s) q of None \<Rightarrow> [] | Some is \<Rightarrow> is)"
  let ?um = "AList.update (ev_id e) u (update_map s)" and ?qu = "AList.update q (ids @ [ev_id e]) (queue_updates s)"
    and ?qs = "if ids = [] then queue_emplace (new_wh_queue now q) (wh_queues s) else wh_queues s"
  have books: "books_inv (update_map s) (queue_updates s) (wh_queues s)" "0 < unique_queue_id s"
    using inv by (auto simp: loaded_inv_def)
  have u: "update_ok (ev_id e) u" "wu_queue_id u = q" "q \<noteq> 0"
    using e books(2) by (auto simp: update_ok_def u_def q_def loadable_event_def)
  let ?s = "s\<lparr>update_map := ?um, tqueue_offset := ev_id e + 1,
    unique_queue_id := (if ev_extra e = 0 then unique_queue_id s + 1 else unique_queue_id s), wh_queues := ?qs, queue_updates := ?qu\<rparr>"
  have load: "load_update cfg now e s = Some ?s"
    using e None by (simp add: load_update_def loadable_event_def event_id_next_def event_id_from_int32_def q_def u_def ids_def Let_def)
  have len: "length ?qu \<le> Suc (length (queue_updates s))"
    using length_alist_update [OF books_schedule(1) [OF books(1)], of q] by simp
  note loaded = books_load [OF books(1) None u ids_def, where w = now]
  have "loaded_inv cfg cm ?s"
    using loaded inv len room unfolding loaded_inv_def by simp
  then show ?thesis using load len by (auto simp: rest_view_def)
qed

lemma load_all_ok:
  assumes "loaded_inv cfg cm s" and "\<forall>e \<in> set es. loadable_event cfg now e"
    and "length (queue_updates s) + length es \<le> max_loaded_updates s"
  shows "\<exists>s'. load_all cfg now es s = Some s' \<and> loaded_inv cfg cm s' \<and> rest_view s' = rest_view s \<and>
    wa_tqueue s' = wa_tqueue s"
  using assms
proof (induction es arbitrary: s)
  case (Cons e es)
  then obtain s1 where s1: "load_update cfg now e s = Some s1" "loaded_inv cfg cm s1"
    "length (queue_updates s1) \<le> Suc (length (queue_updates s))" "rest_view s1 = rest_view s" "wa_tqueue s1 = wa_tqueue s"
    using load_update_ok [of cfg cm s now e] by auto
  moreover have "length (queue_updates s1) + length es \<le> max_loaded_updates s1"
    using s1(3,4) Cons.prems(3) by (simp add: rest_view_def)
  ultimately show ?case using Cons.IH [of s1] Cons.prems(2) by auto
qed simp

text \<open>Reading the queue: it always succeeds, from the head if need be, and drops no event that is still valid.\<close>

lemma get_events_keeps:
  assumes inv: "tq_inv t" and get: "get_events qid frm False ut limit t = (Inr (n, es), t')"
  shows "tq_inv t'" and "length es \<le> limit"
    and "e \<in> set es \<Longrightarrow> e \<in> set (events (queue_of t qid)) \<and> fresh ut e"
    and "filter (fresh ut) (events (queue_of t' qid)) = filter (fresh ut) (events (queue_of t qid))"
    and "p \<noteq> qid \<Longrightarrow> queue_of t' p = queue_of t p"
proof -
  show "tq_inv t'" using get_events_inv [OF inv, of qid frm False ut limit] get by simp
  have "length es \<le> limit \<and> (\<forall>e \<in> set es. e \<in> set (events (queue_of t qid)) \<and> fresh ut e) \<and>
    filter (fresh ut) (events (queue_of t' qid)) = filter (fresh ut) (events (queue_of t qid))"
  proof (cases "queues t qid")
    case None
    then show ?thesis using get by (auto simp: get_events_def)
  next
    case (Some q)
    then have "frm \<le> tail_id q + 10" "get_queue_head q - int max_queue_events \<le> frm"
      using get by (auto simp: get_events_def split: if_splits prod.splits)
    from get_events_result [OF inv Some this, of False ut limit] get Some show ?thesis
      by (auto simp: queue_of_def dest!: in_set_takeD)
  qed
  then show "length es \<le> limit" "e \<in> set es \<Longrightarrow> e \<in> set (events (queue_of t qid)) \<and> fresh ut e"
    "filter (fresh ut) (events (queue_of t' qid)) = filter (fresh ut) (events (queue_of t qid))" by auto
  show "p \<noteq> qid \<Longrightarrow> queue_of t' p = queue_of t p"
    using get by (auto simp: get_events_def set_queue_def queue_of_def split: option.splits if_splits prod.splits)
qed

lemma get_events_head:
  assumes "tq_inv t"
  shows "\<exists>n es t'. get_events qid (get_head qid t) False ut limit t = (Inr (n, es), t')"
proof (cases "queues t qid")
  case (Some q)
  then have "queue_inv (callback t \<noteq> None) q" using assms by (auto simp: tq_inv_def)
  then have "get_queue_head q \<le> tail_id q"
    by (auto simp: get_queue_head_def queue_inv_def events_inv_def event_inv_def split: list.splits)
  then have "get_head qid t \<le> tail_id q + 10" "get_queue_head q - int max_queue_events \<le> get_head qid t"
    using Some by (simp_all add: get_head_def)
  from get_events_result [OF assms Some this, of False ut limit] show ?thesis by blast
qed (auto simp: get_events_def)

text \<open>No event that is still valid was removed from the queue.\<close>

definition keeps_events :: "wa_config \<Rightarrow> real \<Rightarrow> tqueue \<Rightarrow> tqueue \<Rightarrow> bool" where
  "keeps_events cfg now t t' \<longleftrightarrow>
     filter (fresh (wa_unix_time cfg now)) (events (queue_of t' (wa_tqueue_id cfg))) =
       filter (fresh (wa_unix_time cfg now)) (events (queue_of t (wa_tqueue_id cfg))) \<and>
     (\<forall>p. p \<noteq> wa_tqueue_id cfg \<longrightarrow> queue_of t' p = queue_of t p)"

lemma keeps_events_refl [simp]: "keeps_events cfg now t t"
  by (simp add: keeps_events_def)

lemma keeps_events_trans: "keeps_events cfg now t t' \<Longrightarrow> keeps_events cfg now t' t'' \<Longrightarrow> keeps_events cfg now t t''"
  by (simp add: keeps_events_def)

lemma loadable_eventI:
  assumes "tq_inv t" and "e \<in> set (events (queue_of t (wa_tqueue_id cfg)))" and "fresh (wa_unix_time cfg now) e"
  shows "loadable_event cfg now e"
proof -
  have "queue_inv (callback t \<noteq> None) (queue_of t (wa_tqueue_id cfg))" by (rule queue_inv_queue_of [OF assms(1)])
  then have "event_inv (callback t \<noteq> None) (tail_id (queue_of t (wa_tqueue_id cfg))) e"
    "is_valid_id (tail_id (queue_of t (wa_tqueue_id cfg)))"
    using assms(2) by (auto simp: queue_inv_def events_inv_def)
  then show ?thesis
    using assms(3) by (auto simp: loadable_event_def event_inv_def is_valid_id_def event_id_is_valid_def event_id_empty_def fresh_def)
qed

lemma read_tqueue_ok:
  assumes "tq_inv (wa_tqueue s)"
  shows "\<exists>n es off t. read_tqueue cfg now limit s = Some (n, es, s\<lparr>tqueue_offset := off, wa_tqueue := t\<rparr>) \<and> tq_inv t \<and>
    keeps_events cfg now (wa_tqueue s) t \<and> length es \<le> limit \<and> (\<forall>e \<in> set es. loadable_event cfg now e)"
proof -
  let ?ut = "wa_unix_time cfg now" and ?qid = "wa_tqueue_id cfg"
  have got: "tq_inv t \<and> keeps_events cfg now (wa_tqueue s) t \<and> length es \<le> limit \<and> (\<forall>e \<in> set es. loadable_event cfg now e)"
    if g: "get_events ?qid frm False ?ut limit (wa_tqueue s) = (Inr (n, es), t)" for frm n es t
  proof (intro conjI ballI)
    show "tq_inv t" "length es \<le> limit" using get_events_keeps(1,2) [OF assms g] .
    show "keeps_events cfg now (wa_tqueue s) t"
      unfolding keeps_events_def using get_events_keeps(4,5) [OF assms g] by blast
    show "loadable_event cfg now e" if e: "e \<in> set es" for e
      using get_events_keeps(3) [OF assms g e] loadable_eventI [OF assms, of e] by blast
  qed
  show ?thesis
  proof (cases "event_id_empty (tqueue_offset s)")
    case True
    then show ?thesis
      by (intro exI [of _ 0] exI [of _ "[]"] exI [of _ "tqueue_offset s"] exI [of _ "wa_tqueue s"])
        (simp add: read_tqueue_def assms)
  next
    case False
    obtain r t where g: "get_events ?qid (tqueue_offset s) False ?ut limit (wa_tqueue s) = (r, t)" by fastforce
    show ?thesis
    proof (cases r)
      case (Inr p)
      obtain n es where "p = (n, es)" by (cases p)
      with got g Inr False have "read_tqueue cfg now limit s = Some (n, es, s\<lparr>tqueue_offset := tqueue_offset s, wa_tqueue := t\<rparr>)"
        by (simp add: read_tqueue_def)
      then show ?thesis using got g Inr \<open>p = (n, es)\<close> by blast
    next
      case (Inl err)
      then have t: "t = wa_tqueue s" using g by (auto simp: get_events_def split: option.splits if_splits prod.splits)
      obtain n es t' where g': "get_events ?qid (get_head ?qid (wa_tqueue s)) False ?ut limit (wa_tqueue s) = (Inr (n, es), t')"
        using get_events_head [OF assms] by blast
      then have "read_tqueue cfg now limit s = Some (n, es, s\<lparr>tqueue_offset := get_head ?qid (wa_tqueue s), wa_tqueue := t'\<rparr>)"
        using g Inl t False by (simp add: read_tqueue_def Let_def)
      then show ?thesis using got [OF g'] by blast
    qed
  qed
qed

lemma load_updates_ok:
  assumes ok: "wa_ok cfg t s"
  shows "\<exists>s'. load_updates cfg now s = Some s' \<and> wa_ok cfg t s' \<and> keeps_events cfg now (wa_tqueue s) (wa_tqueue s')"
proof -
  have inv: "loaded_inv cfg (conn_map s) s" "tq_inv (wa_tqueue s)" "length (queue_updates s) \<le> max_loaded_updates s"
    using ok by (auto simp: wa_ok_def wa_inv_def loaded_inv_def shared_inv_def)
  consider "tqueue_empty s \<or> length (queue_updates s) = max_loaded_updates s"
    | "\<not> tqueue_empty s" "length (queue_updates s) < max_loaded_updates s" using inv(3) by linarith
  then show ?thesis
  proof cases
    case 1
    then show ?thesis using ok by (auto simp: load_updates_def)
  next
    case 2
    define s1 where "s1 = (if event_id_empty (tqueue_offset s)
      then s\<lparr>tqueue_offset := get_head (wa_tqueue_id cfg) (wa_tqueue s)\<rparr> else s)"
    define limit where "limit = min tqueue_event_buffer_size (max_loaded_updates s - length (queue_updates s))"
    have s1: "rest_view s1 = rest_view s" "wa_tqueue s1 = wa_tqueue s" "loaded_inv cfg (conn_map s) s1"
      using inv by (auto simp: s1_def rest_view_def loaded_inv_def)
    obtain n es off t' where r: "read_tqueue cfg now limit s1 = Some (n, es, s1\<lparr>tqueue_offset := off, wa_tqueue := t'\<rparr>)"
      "tq_inv t'" "keeps_events cfg now (wa_tqueue s) t'" "length es \<le> limit" "\<forall>e \<in> set es. loadable_event cfg now e"
      using read_tqueue_ok [of s1] inv(2) s1(2) by metis
    let ?s2 = "s1\<lparr>tqueue_offset := off, wa_tqueue := t'\<rparr>"
    let ?s3 = "if es = [] then ?s2\<lparr>tqueue_empty := True\<rparr> else ?s2"
    have "loaded_inv cfg (conn_map s) ?s3" "rest_view ?s3 = rest_view s" "wa_tqueue ?s3 = t'"
      "length (queue_updates ?s3) + length es \<le> max_loaded_updates ?s3"
      using s1 r(4) 2(2) by (auto simp: loaded_inv_def rest_view_def limit_def s1_def)
    then obtain s4 where s4: "load_all cfg now es ?s3 = Some s4" "loaded_inv cfg (conn_map s) s4" "rest_view s4 = rest_view s"
      "wa_tqueue s4 = t'"
      using load_all_ok [of cfg "conn_map s" ?s3 es now] r(5) by auto
    let ?s5 = "s4\<lparr>last_pending_update_count := pending_warning n (last_pending_update_count s4)\<rparr>"
    let ?s6 = "if length es = n \<and> last_update_was_successful ?s5 then to_callback Webhook_Success ?s5 else ?s5"
    have "wa_ok cfg t ?s5"
      using rest_view_ok(1) [OF _ ok, of ?s5] s4 r(2) by (simp add: rest_view_def loaded_inv_def)
    then have "wa_ok cfg t ?s6" by (simp add: wa_view_ok [OF wa_view_functions(6)])
    moreover have "load_updates cfg now s = Some ?s6"
      using 2 r(1) s4(1) by (simp add: load_updates_def s1_def [symmetric] limit_def [symmetric] Let_def)
    moreover have "wa_tqueue ?s6 = t'" using s4(4) by (simp add: to_callback_def wa_send_def)
    ultimately show ?thesis using r(3) by auto
  qed
qed

subsection \<open>Request headers\<close>

lemma length_base64_encode_impl: "length (base64_encode_impl b s) \<le> 2 * length s + 2"
  by (induction b s rule: base64_encode_impl.induct) (simp_all add: Let_def le_SucI)

definition request_fields :: "wa_config \<Rightarrow> nat \<Rightarrow> (string \<times> string) list" where
  "request_fields cfg n =
     [(''Host'', wa_host_header cfg)] @
     (if url_userinfo (wa_url cfg) \<noteq> [] then [(''Authorization'', ''Basic '' @ base64_encode (url_userinfo (wa_url cfg)))] else []) @
     (if wa_secret_token cfg \<noteq> [] then [(''X-Telegram-Bot-Api-Secret-Token'', wa_secret_token cfg)] else []) @
     [(''Content-Type'', ''application/json''), (''Content-Length'', show_nat n), (''Connection'', ''keep-alive''),
      (''Accept-Encoding'', ''gzip, deflate'')]"

lemma webhook_header_fold:
  "webhook_header cfg n =
     header_finish [] (fold (\<lambda>(k, v). add_header k v) (request_fields cfg n) (init_post (url_query (wa_url cfg))))"
  by (simp add: webhook_header_def request_fields_def set_content_type_def set_keep_alive_def set_content_size_def Let_def)

definition request_line :: "wa_config \<Rightarrow> string" where
  "request_line cfg = ''POST '' @ url_query (wa_url cfg) @ '' HTTP/1.1'' @ crlf"

lemma length_header_lines:
  "length (concat (map (\<lambda>(k, v). header_line k v) hs)) = sum_list (map (\<lambda>(k, v). length k + length v + 4) hs)"
  by (induction hs) (auto simp: header_line_def crlf_def)

lemma webhook_header_fits:
  assumes "header_fits cfg" and "n < 10 ^ 19"
  shows "webhook_header cfg n =
    Inr (request_line cfg @ concat (map (\<lambda>(k, v). header_line k v) (request_fields cfg n)) @ crlf)"
proof -
  let ?hs = "request_fields cfg n" and ?b = "\<lparr>sb_text = request_line cfg, sb_error = False\<rparr>"
  note defs = sb_capacity_def max_header_def reserved_size_def crlf_def
  have "length (show_nat n) \<le> 19" using assms(2) by (intro length_show_nat) auto
  then have len: "length (request_line cfg) + sum_list (map (\<lambda>(k, v). length k + length v + 4) ?hs) < 4000"
    using assms(1) length_base64_encode_impl [of False "url_userinfo (wa_url cfg)"]
    by (simp add: header_fits_def request_fields_def request_line_def crlf_def base64_encode_def)
  have "length (url_query (wa_url cfg)) \<le> 3700" using assms(1) by (simp add: header_fits_def)
  then have init: "init_post (url_query (wa_url cfg)) = ?b"
    by (simp add: init_post_def sb_new_def request_line_def sb_append_fits defs)
  have "fold (\<lambda>(k, v). add_header k v) ?hs ?b =
      \<lparr>sb_text = request_line cfg @ concat (map (\<lambda>(k, v). header_line k v) ?hs), sb_error = False\<rparr>"
    using len by (subst fold_headers_fit) (simp_all add: defs)
  then show ?thesis
    unfolding webhook_header_fold init using len by (simp add: header_finish_def sb_append_fits length_header_lines defs)
qed

lemma length_json_update:
  assumes "event_id_is_valid i" and "length json \<le> max_event_length"
  shows "length (json_update i json) < 10 ^ 19"
proof -
  have "length (show_int i) \<le> 11"
    using length_show_int [of i 10] assms(1) by (simp add: event_id_is_valid_def is_valid_id_def max_id_def)
  then show ?thesis using assms(2) by (simp add: json_update_def max_event_length_def)
qed

subsection \<open>Sending\<close>

text \<open>The state after the first scheduled queue was taken, and after its update was given to a connection.\<close>

definition taken :: "real \<Rightarrow> wh_queue list \<Rightarrow> int \<Rightarrow> wh_update \<Rightarrow> webhook_actor \<Rightarrow> webhook_actor" where
  "taken now qs e u s =
     s\<lparr>wh_queues := qs, update_map := AList.update e (u\<lparr>wu_last_send_time := now\<rparr>) (update_map s)\<rparr>"

definition given :: "64 word \<Rightarrow> string \<Rightarrow> string \<Rightarrow> int \<Rightarrow> webhook_actor \<Rightarrow> webhook_actor" where
  "given cid header body e s = wa_send (Http_Write cid header body)
     (s\<lparr>ready_connections := butlast (ready_connections s),
       connections := container_modify (\<lambda>c. c\<lparr>wc_event_id := e\<rparr>) cid (connections s)\<rparr>)"

lemma ready_inv_give:
  assumes "ready_inv rs cm" and "rs \<noteq> []" and "cm (last rs) = Some c"
  shows "ready_inv (butlast rs) (cm(last rs \<mapsto> c\<lparr>wc_event_id := e\<rparr>))"
  using assms last_not_in_butlast [of rs] by (auto simp: ready_inv_def distinct_butlast dest: in_set_butlastD)

lemma given_ok:
  assumes ok: "wa_ok cfg t s0" and s: "rest_view s = rest_view s0" "wa_tqueue s = wa_tqueue s0" and ready: "ready_connections s \<noteq> []"
    and c: "conn_map s0 (last (ready_connections s)) = Some c"
    and upd: "loaded_inv cfg ((conn_map s0)(last (ready_connections s) \<mapsto> c\<lparr>wc_event_id := e\<rparr>)) s"
  shows "wa_ok cfg t (given (last (ready_connections s)) header body e s)"
proof -
  let ?cid = "last (ready_connections s)" let ?s = "given ?cid header body e s"
  have inv: "container_rel (connections s0) (opened (wa_out s0)) (conn_map s0)" "ready_inv (ready_connections s0) (conn_map s0)"
    using ok by (auto simp: wa_ok_def wa_inv_def connections_inv_def)
  have "?cid \<in> set (opened (wa_out s0))" using c by (auto simp: conn_map_def split: if_splits)
  then have rel: "container_rel (connections ?s) (opened (wa_out ?s)) ((conn_map s0)(?cid \<mapsto> c\<lparr>wc_event_id := e\<rparr>))"
    using container_modify_rel [OF inv(1), of ?cid "\<lambda>c. c\<lparr>wc_event_id := e\<rparr>"] c s(1)
    by (simp add: given_def wa_send_def rest_view_def)
  note cm = conn_map_rel [OF this]
  have "loaded_inv cfg (conn_map ?s) ?s"
    unfolding cm using upd by (subst loaded_inv_fields [of _ s]) (simp_all add: given_def wa_send_def)
  moreover have "ready_inv (ready_connections ?s) (conn_map ?s)"
    unfolding cm using ready_inv_give [OF inv(2), of c e] ready c s(1) by (simp add: given_def wa_send_def rest_view_def)
  moreover have "conn_sockets ?s = conn_sockets s0"
    using s(1) by (simp add: given_def wa_send_def rest_view_def conn_sockets_def)
  ultimately show ?thesis
    using ok rel s unfolding wa_ok_def wa_inv_def connections_inv_def cm
    by (auto simp: given_def wa_send_def rest_view_def callback_inv_def shared_inv_def)
qed

lemma taken_ok:
  assumes inv: "loaded_inv cfg cm s" and q: "wh_queues s = q # qs" and qu: "map_of (queue_updates s) (wq_id q) = Some (e # ids)"
    and u: "map_of (update_map s) e = Some u" and idle: "cm cid = Some c" "wc_event_id c = 0"
  shows "\<not> header_fits cfg \<Longrightarrow> loaded_inv cfg cm (taken now qs e u s)"
    and "loaded_inv cfg (cm(cid \<mapsto> c\<lparr>wc_event_id := e\<rparr>)) (taken now qs e u s)"
proof -
  let ?um = "AList.update e (u\<lparr>wu_last_send_time := now\<rparr>) (update_map s)" and ?qu = "queue_updates s"
  have books: "books_inv (update_map s) ?qu (q # qs)" and fl: "flight_inv (update_map s) ?qu (q # qs) cm"
    using inv q by (auto simp: loaded_inv_def)
  have qid: "wu_queue_id u = wq_id q" using books_queue(4) [OF books qu, of e] u by auto
  have uok: "update_ok e u" by (rule books_update(1) [OF books u])
  then have e0: "e \<noteq> 0" by (simp add: update_ok_def event_id_is_valid_def event_id_empty_def)
  have books': "books_inv ?um ?qu qs"
    by (rule books_rewrite [OF books_unschedule [OF books] u]) (use uok in \<open>simp_all add: update_ok_def\<close>)
  have fl': "flight_inv ?um ?qu qs cm" by (rule flight_rewrite [OF flight_unschedule [OF fl] u]) simp
  have free: "\<not> carries cm cid' e" for cid' by (rule scheduled_not_carried [OF books fl _ qu]) simp
  have unsched: "wq_id q \<notin> wq_id ` set qs" using books_schedule(2) [OF books] by auto
  have fl'': "flight_inv ?um ?qu qs (cm(cid \<mapsto> c\<lparr>wc_event_id := e\<rparr>))"
    by (rule flight_give [where cid = cid and c = c, OF fl' idle e0, of "u\<lparr>wu_last_send_time := now\<rparr>" ids]) (simp_all add: qid qu unsched free)
  show "loaded_inv cfg cm (taken now qs e u s)" if "\<not> header_fits cfg"
    using that books' fl' inv by (simp add: loaded_inv_def taken_def)
  show "loaded_inv cfg (cm(cid \<mapsto> c\<lparr>wc_event_id := e\<rparr>)) (taken now qs e u s)"
    using books' fl'' inv q covered_give [where cm = cm and cid = cid and c = c and x = q and qs = qs, OF _ idle e0 qu] by (auto simp: loaded_inv_def taken_def)
qed

lemma send_update_ok:
  assumes ok: "wa_ok cfg t s"
  shows "\<exists>b s'. send_update cfg now s = Some (b, s') \<and> wa_ok cfg t s' \<and> wa_tqueue s' = wa_tqueue s"
proof (cases "ready_connections s = [] \<or> wh_queues s = []")
  case True
  then show ?thesis using ok by (auto simp: send_update_def split: list.splits)
next
  case False
  then obtain q qs where q: "wh_queues s = q # qs" by (cases "wh_queues s") auto
  have inv: "loaded_inv cfg (conn_map s) s" "ready_inv (ready_connections s) (conn_map s)" "tq_inv (wa_tqueue s)"
    using ok by (auto simp: wa_ok_def wa_inv_def connections_inv_def shared_inv_def)
  have books: "books_inv (update_map s) (queue_updates s) (q # qs)" using inv(1) q by (simp add: loaded_inv_def)
  obtain ids0 where ids0: "map_of (queue_updates s) (wq_id q) = Some ids0" using books_schedule(3) [OF books, of "wq_id q"] by auto
  then obtain e ids where qu: "map_of (queue_updates s) (wq_id q) = Some (e # ids)"
    using books_queue(2) [OF books ids0] by (cases ids0) auto
  obtain u where u: "map_of (update_map s) e = Some u" using books_queue(4) [OF books qu, of e] by auto
  have uok: "update_ok e u" by (rule books_update(1) [OF books u])
  obtain c where c: "conn_map s (last (ready_connections s)) = Some c" "wc_event_id c = 0"
    using inv(2) False last_in_set [of "ready_connections s"] unfolding ready_inv_def by blast
  let ?s1 = "taken now qs e u s" and ?body = "json_update (wu_id u) (wu_json u)"
  have rest: "rest_view ?s1 = rest_view s" "wa_tqueue ?s1 = wa_tqueue s" "ready_connections ?s1 = ready_connections s"
    by (simp_all add: taken_def rest_view_def)
  note upd = taken_ok [OF inv(1) q qu u c, of now]
  show ?thesis
  proof (cases "wq_wakeup_at q > now")
    case True
    then show ?thesis using False q ok by (auto simp: send_update_def relax_ok)
  next
    case due: False
    have send: "send_update cfg now s = (case webhook_header cfg (length ?body) of Inl err \<Rightarrow> Some (False, ?s1)
        | Inr header \<Rightarrow> Some (True, given (last (ready_connections s)) header ?body e ?s1))"
      using False q due qu u uok books_queue(1) [OF books qu]
      by (simp add: send_update_def update_ok_def Let_def taken_def given_def split: sum.split)
    show ?thesis
    proof (cases "webhook_header cfg (length ?body)")
      case (Inl err)
      have "length ?body < 10 ^ 19" using uok by (intro length_json_update) (simp_all add: update_ok_def)
      then have "\<not> header_fits cfg" using webhook_header_fits [of cfg "length ?body"] Inl by auto
      then show ?thesis using send Inl rest_view_ok(1) [OF rest(1) ok] upd(1) inv(3) rest by auto
    next
      case (Inr header)
      have "wa_ok cfg t (given (last (ready_connections ?s1)) header ?body e ?s1)"
        using given_ok [OF ok rest(1,2), of c e header ?body] upd(2) False c(1) rest(3) by simp
      moreover have "wa_tqueue (given cid header ?body e ?s1) = wa_tqueue s" for cid
        using rest(2) by (simp add: given_def wa_send_def)
      ultimately show ?thesis using send Inr rest(3) by auto
    qed
  qed
qed

lemma send_updates_ok:
  assumes "wa_ok cfg t s"
  shows "\<exists>s'. send_updates cfg now s = Some s' \<and> wa_ok cfg t s' \<and> wa_tqueue s' = wa_tqueue s"
  using assms
proof (induction cfg now s rule: send_updates.induct)
  case (1 cfg now s)
  then obtain b s' where s': "send_update cfg now s = Some (b, s')" "wa_ok cfg t s'" "wa_tqueue s' = wa_tqueue s"
    using send_update_ok by blast
  then show ?case using 1 by (cases b) (auto simp: send_updates.simps [of cfg now s])
qed

subsection \<open>The loop\<close>

lemma tqueue_simps [simp]:
  "wa_tqueue (wa_send m s) = wa_tqueue s" "wa_tqueue (to_callback m s) = wa_tqueue s"
  "wa_tqueue (on_webhook_verified cfg s) = wa_tqueue s" "wa_tqueue (on_webhook_error now e s) = wa_tqueue s"
  "wa_tqueue (resolve_ip_address cfg now s) = wa_tqueue s" "wa_tqueue (end_loop s) = wa_tqueue s"
  by (simp_all add: wa_send_def to_callback_def on_webhook_verified_def on_webhook_error_def resolve_ip_address_def
      relax_wakeup_at_def end_loop_def wa_stop_def wa_tear_down_def)

lemma wa_on_error_tqueue: "wa_on_error e s = Some s' \<Longrightarrow> wa_tqueue s' = wa_tqueue s"
  by (auto simp: wa_on_error_def split: if_splits)

lemma create_webhook_error_tqueue: "create_webhook_error now msg e pm pub s = Some s' \<Longrightarrow> wa_tqueue s' = wa_tqueue s"
  by (auto simp: create_webhook_error_def dest: wa_on_error_tqueue)

lemma create_connection_fd_tqueue: "create_connection_fd cfg env i s = Some (b, s') \<Longrightarrow> wa_tqueue s' = wa_tqueue s"
  by (auto simp: create_connection_fd_def Let_def split: if_splits option.splits dest: create_webhook_error_tqueue)

lemma create_connection_tqueue: "create_connection cfg env i s = Some (b, s') \<Longrightarrow> wa_tqueue s' = wa_tqueue s"
  by (auto simp: create_connection_def Let_def split: if_splits option.splits
      dest: create_webhook_error_tqueue create_connection_fd_tqueue)

lemma open_connections_tqueue: "open_connections cfg env need active fuel s = Some (b, s') \<Longrightarrow> wa_tqueue s' = wa_tqueue s"
proof (induction fuel arbitrary: s active)
  case 0
  then show ?case by (auto simp: open_connections.simps [of cfg env need active 0] split: if_splits)
next
  case (Suc n)
  show ?case
    using Suc.prems
    by (auto simp: open_connections.simps [of cfg env need active "Suc n"] Let_def split: if_splits option.splits bool.splits
        dest!: Suc.IH create_connection_tqueue)
qed

lemma use_sockets_tqueue: "use_sockets cfg env need fds s = Some s' \<Longrightarrow> wa_tqueue s' = wa_tqueue s"
  by (induction fds arbitrary: s)
    (fastforce split: if_splits option.splits bool.splits dest!: create_connection_fd_tqueue)+

lemma create_new_connections_tqueue: "create_new_connections cfg env s = Some s' \<Longrightarrow> wa_tqueue s' = wa_tqueue s"
  by (auto simp: create_new_connections_def split: if_splits option.splits bool.splits prod.splits
      dest!: open_connections_tqueue use_sockets_tqueue)

lemma stop_ok: "wa_ok cfg t s \<Longrightarrow> stop_flag s \<Longrightarrow> wa_ok cfg t (wa_stop s)"
proof -
  assume ok: "wa_ok cfg t s" and f: "stop_flag s"
  have cm: "conn_map (wa_stop s) = conn_map s" by (intro ext) (simp add: conn_map_def wa_stop_def wa_tear_down_def wa_send_def)
  show ?thesis using ok f unfolding wa_ok_def wa_inv_def connections_inv_def cm
    by (simp add: wa_stop_def wa_tear_down_def wa_send_def loaded_inv_def callback_inv_def shared_inv_def conn_sockets_def)
qed

lemma end_loop_ok: "wa_ok cfg t s \<Longrightarrow> wa_ok cfg t (end_loop s)"
  by (simp add: end_loop_def stop_ok wa_view_ok [OF wa_view_send])

lemma unless_stopping_ok:
  assumes "wa_ok cfg t s" and "\<And>s. wa_ok cfg t s \<Longrightarrow> \<exists>s'. f s = Some s' \<and> wa_ok cfg t s' \<and> keeps_events cfg now (wa_tqueue s) (wa_tqueue s')"
  shows "\<exists>s'. unless_stopping f s = Some s' \<and> wa_ok cfg t s' \<and> keeps_events cfg now (wa_tqueue s) (wa_tqueue s')"
  using assms by (auto simp: unless_stopping_def)

lemma wa_loop_ok:
  assumes ok: "wa_ok cfg (env_now env) s" and max: "0 < wa_max_connections cfg" "wa_max_connections cfg < 2 ^ 31"
  shows "\<exists>s'. wa_loop cfg env s = Some s' \<and> wa_ok cfg (env_now env) s' \<and>
    keeps_events cfg (env_now env) (wa_tqueue s) (wa_tqueue s')"
proof -
  let ?t = "env_now env"
  let ?good = "\<lambda>s s'. wa_ok cfg ?t s' \<and> keeps_events cfg ?t (wa_tqueue s) (wa_tqueue s')"
  have "wa_ok cfg ?t (s\<lparr>wa_wakeup_at := 0\<rparr>)"
    using ok by (subst wa_view_ok [of _ s]) (simp_all add: wa_view_def)
  from unless_stopping_ok [OF this load_updates_ok, of ?t] obtain s1 where
    s1: "unless_stopping (load_updates cfg ?t) (s\<lparr>wa_wakeup_at := 0\<rparr>) = Some s1" "?good s s1" by auto
  have res: "\<exists>s'. Some (resolve_ip_address cfg ?t s) = Some s' \<and> ?good s s'" if "wa_ok cfg ?t s" for s
    using that by (simp add: wa_view_ok [OF wa_view_functions(5)])
  from unless_stopping_ok [OF _ res, of s1] s1(2) obtain s2 where
    s2: "unless_stopping (\<lambda>s. Some (resolve_ip_address cfg ?t s)) s1 = Some s2" "?good s1 s2" by blast
  have con: "\<exists>s'. create_new_connections cfg env s = Some s' \<and> ?good s s'" if "wa_ok cfg ?t s" for s
    using create_new_connections_ok [OF that max] create_new_connections_tqueue [of cfg env s] by fastforce
  from unless_stopping_ok [OF _ con, of s2] s2(2) obtain s3 where
    s3: "unless_stopping (create_new_connections cfg env) s2 = Some s3" "?good s2 s3" by blast
  have snd: "\<exists>s'. send_updates cfg ?t s = Some s' \<and> ?good s s'" if "wa_ok cfg ?t s" for s
    using send_updates_ok [OF that, of ?t] by fastforce
  from unless_stopping_ok [OF _ snd, of s3] s3(2) obtain s4 where
    s4: "unless_stopping (send_updates cfg ?t) s3 = Some s4" "?good s3 s4" by blast
  have "wa_loop cfg env s = Some (end_loop s4)" by (simp add: wa_loop_def s1 s2 s3 s4)
  moreover have "?good s (end_loop s4)"
    using s1(2) s2(2) s3(2) s4(2) by (auto simp: end_loop_ok intro: keeps_events_trans)
  ultimately show ?thesis by blast
qed

subsection \<open>Results of requests\<close>

lemma drop_event_ok:
  assumes inv: "loaded_inv cfg cm s" and e: "carries cm cid e"
  shows "\<exists>s'. drop_event cfg e s = Some s' \<and> rest_view s' = rest_view s \<and> loaded_inv cfg (cm(cid := None)) s' \<and>
    wa_tqueue s' = forget (wa_tqueue_id cfg) e (wa_tqueue s)"
proof -
  have books: "books_inv (update_map s) (queue_updates s) (wh_queues s)"
    and fl: "flight_inv (update_map s) (queue_updates s) (wh_queues s) cm"
    and cov: "header_fits cfg \<Longrightarrow> covered (queue_updates s) (wh_queues s) cm"
    and len: "length (queue_updates s) \<le> max_loaded_updates s" "0 < unique_queue_id s"
      "max_loaded_updates s \<le> nat (wa_max_connections cfg * 2)"
    using inv by (auto simp: loaded_inv_def)
  obtain u ids where u: "map_of (update_map s) e = Some u" and qu: "map_of (queue_updates s) (wu_queue_id u) = Some (e # ids)"
    and uns: "wu_queue_id u \<notin> wq_id ` set (wh_queues s)" by (rule flightD [OF fl e])
  let ?q = "wu_queue_id u" and ?um = "AList.delete e (update_map s)"
  note dropped = books_drop [OF books qu uns]
  show ?thesis
  proof (cases ids)
    case Nil
    let ?s = "s\<lparr>update_map := ?um, queue_updates := AList.delete ?q (queue_updates s),
      wa_tqueue := forget (wa_tqueue_id cfg) e (wa_tqueue s)\<rparr>"
    have "flight_inv ?um (AList.delete ?q (queue_updates s)) (wh_queues s) (cm(cid := None))"
      by (rule flight_settle [OF fl e qu]) auto
    moreover have "header_fits cfg \<longrightarrow> covered (AList.delete ?q (queue_updates s)) (wh_queues s) (cm(cid := None))"
      using covered_settle [OF cov books e qu] by auto
    moreover have "length (AList.delete ?q (queue_updates s)) \<le> max_loaded_updates s"
      using length_delete_le [of ?q "queue_updates s"] len by linarith
    ultimately have "loaded_inv cfg (cm(cid := None)) ?s" using dropped Nil len by (simp add: loaded_inv_def)
    moreover have "drop_event cfg e s = Some ?s" using u qu Nil by (simp add: drop_event_def Let_def)
    ultimately show ?thesis by (simp add: rest_view_def)
  next
    case (Cons e' ids')
    note front = books_queue(3,4) [OF books qu]
    obtain u' where u': "map_of (update_map s) e' = Some u'" "wu_queue_id u' = ?q" "e' \<noteq> e" using front(1) front(2) [of e'] Cons by auto
    let ?qu = "AList.update ?q ids (queue_updates s)" and ?qs = "queue_emplace (new_wh_queue (wu_wakeup_at u') ?q) (wh_queues s)"
    let ?s = "s\<lparr>update_map := ?um, queue_updates := ?qu, wh_queues := ?qs,
      wa_tqueue := forget (wa_tqueue_id cfg) e (wa_tqueue s)\<rparr>"
    have "books_inv ?um ?qu (wh_queues s)" using dropped Cons by simp
    then have "books_inv ?um ?qu ?qs" by (rule books_reschedule) (use uns in simp_all)
    moreover have "flight_inv ?um ?qu ?qs (cm(cid := None))"
      by (rule flight_settle [OF fl e qu]) (auto simp: queue_emplace_ids(1) [OF uns])
    moreover have "header_fits cfg \<longrightarrow> covered ?qu ?qs (cm(cid := None))"
      using covered_settle [OF cov books e qu, of ?qu ?qs] by (auto simp: queue_emplace_ids(1) [OF uns])
    moreover have "length ?qu \<le> max_loaded_updates s"
      using length_alist_update [OF books_schedule(1) [OF books], of ?q ids] qu len by simp
    ultimately have "loaded_inv cfg (cm(cid := None)) ?s" using len by (simp add: loaded_inv_def)
    moreover have "event_id_is_valid e'" using books_update(1) [OF books u'(1)] by (simp add: update_ok_def)
    then have "drop_event cfg e s = Some ?s" using u qu Cons u' by (simp add: drop_event_def Let_def)
    ultimately show ?thesis by (simp add: rest_view_def)
  qed
qed

lemma retry_ok:
  assumes inv: "loaded_inv cfg cm s" and e: "carries cm cid e" and u: "map_of (update_map s) e = Some u"
    and v: "update_ok e v" "wu_queue_id v = wu_queue_id u"
  defines "s' \<equiv> s\<lparr>update_map := AList.update e v (update_map s),
    wh_queues := queue_emplace (new_wh_queue (wu_wakeup_at v) (wu_queue_id v)) (wh_queues s)\<rparr>"
  shows "loaded_inv cfg (cm(cid := None)) s'"
proof -
  have books: "books_inv (update_map s) (queue_updates s) (wh_queues s)"
    and fl: "flight_inv (update_map s) (queue_updates s) (wh_queues s) cm"
    and cov: "header_fits cfg \<Longrightarrow> covered (queue_updates s) (wh_queues s) cm"
    using inv by (auto simp: loaded_inv_def)
  obtain ids where qu: "map_of (queue_updates s) (wu_queue_id u) = Some (e # ids)" and uns: "wu_queue_id u \<notin> wq_id ` set (wh_queues s)"
    using flightD [OF fl e] u by (metis option.inject)
  note sched = queue_emplace_ids(1) [OF uns, of "wu_wakeup_at v"]
  have "books_inv (update_map s') (queue_updates s') (wh_queues s')"
    using books_reschedule [OF books_rewrite [OF books u v] qu uns] v(2) by (simp add: s'_def)
  moreover have "flight_inv (update_map s') (queue_updates s') (wh_queues s') (cm(cid := None))"
    by (rule flight_settle [OF fl e qu]) (use sched v(2) in \<open>auto simp: s'_def\<close>)
  moreover have "header_fits cfg \<longrightarrow> covered (queue_updates s') (wh_queues s') (cm(cid := None))"
    using covered_settle [OF cov books e qu, of "queue_updates s'" "wh_queues s'"] sched v(2) by (auto simp: s'_def)
  ultimately show ?thesis using inv by (simp add: loaded_inv_def s'_def)
qed

text \<open>When an update is given up after an error: it would expire before the next attempt.\<close>

definition too_late :: "wa_config \<Rightarrow> wa_env \<Rightarrow> int \<Rightarrow> wh_update \<Rightarrow> bool" where
  "too_late cfg env retry_after u \<longleftrightarrow>
     wa_unix_time cfg (env_now env) + snd (next_delays env (clamp retry_after 0 max_retry_after) u) > wu_expires_at u"

text \<open>Random numbers are drawn from the interval asked for.\<close>

definition env_ok :: "wa_env \<Rightarrow> bool" where
  "env_ok env \<longleftrightarrow> (\<forall>a b. a \<le> b \<longrightarrow> a \<le> env_random env a b \<and> env_random env a b \<le> b)"

lemma next_delays_pos:
  assumes "env_ok env" and "0 < wu_delay u" and "next_delays env r u = (d, d')"
  shows "0 < d"
proof -
  have "webhook_max_resend_timeout \<le> env_random env webhook_max_resend_timeout (webhook_max_resend_timeout * 2)"
    using assms(1) by (simp add: env_ok_def webhook_max_resend_timeout_def)
  then show ?thesis using assms(2,3)
    by (auto simp: next_delays_def Let_def webhook_max_resend_timeout_def min_def split: if_splits)
qed

lemma on_update_error_ok:
  assumes inv: "loaded_inv cfg cm s" and e: "carries cm cid e" and env: "env_ok env"
  shows "\<exists>s' u. on_update_error cfg env e retry_after s = Some s' \<and> rest_view s' = rest_view s \<and>
    loaded_inv cfg (cm(cid := None)) s' \<and> map_of (update_map s) e = Some u \<and>
    wa_tqueue s' = (if too_late cfg env retry_after u then forget (wa_tqueue_id cfg) e (wa_tqueue s) else wa_tqueue s)"
proof -
  have books: "books_inv (update_map s) (queue_updates s) (wh_queues s)"
    and fl: "flight_inv (update_map s) (queue_updates s) (wh_queues s) cm" using inv by (auto simp: loaded_inv_def)
  obtain u where u: "map_of (update_map s) e = Some u" using flightD [OF fl e] by metis
  let ?s1 = "s\<lparr>last_update_was_successful := False\<rparr>"
  have inv1: "loaded_inv cfg cm ?s1" "rest_view ?s1 = rest_view s" using inv by (auto simp: loaded_inv_def rest_view_def)
  obtain d d' where d: "next_delays env (clamp retry_after 0 max_retry_after) u = (d, d')" by fastforce
  show ?thesis
  proof (cases "too_late cfg env retry_after u")
    case True
    then have "on_update_error cfg env e retry_after s = drop_event cfg e ?s1" using u d by (simp add: on_update_error_def too_late_def)
    then show ?thesis using drop_event_ok [OF inv1(1) e] inv1(2) True u by auto
  next
    case False
    let ?v = "u\<lparr>wu_delay := d, wu_wakeup_at := env_now env + of_int d', wu_fail_count := wu_fail_count u + 1\<rparr>"
    have uok: "update_ok e u" by (rule books_update(1) [OF books u])
    then have "update_ok e ?v" using next_delays_pos [OF env _ d] by (simp add: update_ok_def)
    then have "loaded_inv cfg (cm(cid := None)) (?s1\<lparr>update_map := AList.update e ?v (update_map ?s1),
        wh_queues := queue_emplace (new_wh_queue (wu_wakeup_at ?v) (wu_queue_id ?v)) (wh_queues ?s1)\<rparr>)"
      by (intro retry_ok [OF inv1(1) e, of u]) (use u in simp_all)
    then show ?thesis using False u d by (simp add: on_update_error_def too_late_def Let_def rest_view_def)
  qed
qed

lemma ready_inv_remove:
  "ready_inv rs cm \<Longrightarrow> ready_inv (filter (\<lambda>c. c \<noteq> cid) rs) (cm(cid := None))"
  by (auto simp: ready_inv_def)

lemma ready_inv_put:
  "ready_inv rs cm \<Longrightarrow> cm cid = Some c \<Longrightarrow> cid \<notin> set rs \<Longrightarrow> ready_inv (cid # rs) (cm(cid \<mapsto> c\<lparr>wc_event_id := 0\<rparr>))"
  by (auto simp: ready_inv_def)

lemma settle_connection_ok:
  assumes ok: "wa_ok cfg t s0" and s: "rest_view s = rest_view s0" and upd: "loaded_inv cfg ((conn_map s0)(cid := None)) s"
    and tq: "tq_inv (wa_tqueue s)" and c: "conn_map s0 cid = Some conn" and busy: "\<not> b \<Longrightarrow> wc_event_id conn \<noteq> 0"
  shows "wa_ok cfg t (settle_connection cid conn b s)"
proof -
  let ?s = "settle_connection cid conn b s"
  have inv: "container_rel (connections s0) (opened (wa_out s0)) (conn_map s0)" "ready_inv (ready_connections s0) (conn_map s0)"
    "connections_inv cfg s0" using ok by (auto simp: wa_ok_def wa_inv_def connections_inv_def)
  have cid: "wc_id conn = cid" "cid \<in> set (opened (wa_out s0))"
    using inv(2) c by (auto simp: ready_inv_def conn_map_def split: if_splits)
  define m where "m = (if b then (conn_map s0)(cid := None) else (conn_map s0)(cid \<mapsto> conn\<lparr>wc_event_id := 0\<rparr>))"
  have rel: "container_rel (connections ?s) (opened (wa_out ?s)) m"
  proof (cases b)
    case True
    then show ?thesis
      using ids.rel_erase [OF inv(1) cid(2), of new_wh_connection] cid(1) s
      by (simp add: m_def settle_connection_def wa_send_def rest_view_def)
  next
    case False
    then show ?thesis
      using container_modify_rel [OF inv(1) cid(2), of "\<lambda>c. c\<lparr>wc_event_id := 0\<rparr>"] c s
      by (simp add: m_def settle_connection_def wa_send_def rest_view_def)
  qed
  note cm = conn_map_rel [OF this]
  have "loaded_inv cfg m s \<longleftrightarrow> loaded_inv cfg ((conn_map s0)(cid := None)) s"
    by (rule loaded_inv_carries) (auto simp: m_def carries_def)
  then have "loaded_inv cfg m ?s"
    using upd by (subst loaded_inv_fields [of _ s]) (simp_all add: settle_connection_def wa_send_def)
  moreover have "ready_inv (ready_connections ?s) m"
  proof (cases b)
    case False
    then have "cid \<notin> set (ready_connections s0)" using inv(2) c busy by (auto simp: ready_inv_def)
    with ready_inv_put [OF inv(2) c] False s show ?thesis by (simp add: m_def settle_connection_def wa_send_def rest_view_def)
  qed (use ready_inv_remove [OF inv(2), of cid] s in \<open>simp add: m_def settle_connection_def wa_send_def rest_view_def\<close>)
  moreover have "conn_sockets ?s \<le> conn_sockets s0"
    using s container_size_erase [of new_wh_connection "wc_id conn" "connections s0"]
    by (simp add: settle_connection_def wa_send_def rest_view_def conn_sockets_def)
  ultimately show ?thesis
    using ok rel inv(3) s tq unfolding wa_ok_def wa_inv_def connections_inv_def cm
    by (auto simp: settle_connection_def wa_send_def rest_view_def callback_inv_def shared_inv_def)
qed

definition accepted :: "http_response option \<Rightarrow> bool" where
  "accepted response \<longleftrightarrow>
     (case response of None \<Rightarrow> False | Some r \<Rightarrow> hq_type r = Type_Response \<and> 200 \<le> hr_code r \<and> hr_code r \<le> 299)"

definition response_delay :: "http_response option \<Rightarrow> int" where
  "response_delay response =
     (case response of None \<Rightarrow> 0 | Some r \<Rightarrow> if hq_type r = Type_Response then get_retry_after r else 0)"

lemma read_response_view:
  assumes "read_response cfg now r s = (err, d, nc, s1)"
  shows "wa_view s1 = wa_view s" and "err = [] \<longleftrightarrow> accepted (Some r)" and "\<not> accepted (Some r) \<Longrightarrow> d = response_delay (Some r)"
proof -
  have view: "wa_view (s\<lparr>first_error_410_time := x\<rparr>) = wa_view s" for x s by (simp add: wa_view_def)
  show "wa_view s1 = wa_view s"
    using assms by (auto simp: read_response_def Let_def wa_view_functions view split: if_splits)
  show "err = [] \<longleftrightarrow> accepted (Some r)" "\<not> accepted (Some r) \<Longrightarrow> d = response_delay (Some r)"
    using assms by (auto simp: read_response_def Let_def accepted_def response_delay_def split: if_splits)
qed

text \<open>
  An update leaves the queue only when the webhook accepted it, or when the next attempt would come after it expired. Until
  then every valid event stays.
\<close>

definition may_forget :: "wa_config \<Rightarrow> wa_env \<Rightarrow> http_response option \<Rightarrow> webhook_actor \<Rightarrow> int \<Rightarrow> bool" where
  "may_forget cfg env response s e \<longleftrightarrow>
     accepted response \<or> (\<exists>u. map_of (update_map s) e = Some u \<and> too_late cfg env (response_delay response) u)"

lemma wa_view_parts:
  assumes "wa_view s' = wa_view s"
  shows "update_map s' = update_map s" "queue_updates s' = queue_updates s" "wh_queues s' = wh_queues s"
    "connections s' = connections s" "wa_tqueue s' = wa_tqueue s" "conn_map s' = conn_map s"
  using assms by (auto simp: wa_view_def conn_map_def fun_eq_iff)

lemma finish_request_ok:
  assumes inv: "loaded_inv cfg (conn_map s) s" and tq: "tq_inv (wa_tqueue s)" and c: "conn_map s cid = Some conn" and env: "env_ok env"
    and idle: "wc_event_id conn = 0 \<Longrightarrow> err \<noteq> []" and err: "err = [] \<longleftrightarrow> accepted response"
    and d: "\<not> accepted response \<Longrightarrow> d = response_delay response"
  shows "\<exists>s'. (if \<not> event_id_empty (wc_event_id conn)
      then if err = [] then on_update_ok cfg (env_now env) (wc_event_id conn) s else on_update_error cfg env (wc_event_id conn) d s
      else if err \<noteq> [] then Some s else None) = Some s' \<and> rest_view s' = rest_view s \<and>
    loaded_inv cfg ((conn_map s)(cid := None)) s' \<and> tq_inv (wa_tqueue s') \<and>
    (wa_tqueue s' = wa_tqueue s \<or>
     wa_tqueue s' = forget (wa_tqueue_id cfg) (wc_event_id conn) (wa_tqueue s) \<and> wc_event_id conn \<noteq> 0 \<and>
     may_forget cfg env response s (wc_event_id conn))"
proof (cases "wc_event_id conn = 0")
  case True
  have "loaded_inv cfg ((conn_map s)(cid := None)) s \<longleftrightarrow> loaded_inv cfg (conn_map s) s"
    by (rule loaded_inv_carries) (use True c in \<open>auto simp: carries_def\<close>)
  then have "loaded_inv cfg ((conn_map s)(cid := None)) s" using inv by simp
  then show ?thesis using True idle tq by (simp add: event_id_empty_def)
next
  case False
  let ?e = "wc_event_id conn"
  have e: "carries (conn_map s) cid ?e" using False c by (simp add: carries_def)
  show ?thesis
  proof (cases "err = []")
    case True
    let ?s1 = "s\<lparr>last_update_was_successful := True, last_success_time := env_now env\<rparr>"
    have "loaded_inv cfg (conn_map s) ?s1" using inv by (simp add: loaded_inv_def)
    from drop_event_ok [OF this e] obtain s' where s': "drop_event cfg ?e ?s1 = Some s'" "rest_view s' = rest_view s"
      "loaded_inv cfg ((conn_map s)(cid := None)) s'" "wa_tqueue s' = forget (wa_tqueue_id cfg) ?e (wa_tqueue s)"
      by (auto simp: rest_view_def)
    moreover have "map_of (update_map s) ?e \<noteq> None" using inv flightD [OF _ e] unfolding loaded_inv_def by (metis option.distinct(1))
    ultimately show ?thesis
      using True False err forget_inv [OF tq, of "wa_tqueue_id cfg" ?e] by (auto simp: on_update_ok_def event_id_empty_def may_forget_def)
  next
    case no: False
    from on_update_error_ok [OF inv e env, of d] obtain s' u where s': "on_update_error cfg env ?e d s = Some s'"
      "rest_view s' = rest_view s" "loaded_inv cfg ((conn_map s)(cid := None)) s'" "map_of (update_map s) ?e = Some u"
      "wa_tqueue s' = (if too_late cfg env d u then forget (wa_tqueue_id cfg) ?e (wa_tqueue s) else wa_tqueue s)" by blast
    then show ?thesis
      using no False err d tq forget_inv [OF tq, of "wa_tqueue_id cfg" ?e] by (auto simp: event_id_empty_def may_forget_def)
  qed
qed

definition forgets_only :: "wa_config \<Rightarrow> wa_env \<Rightarrow> 64 word \<Rightarrow> http_response option \<Rightarrow> webhook_actor \<Rightarrow> tqueue \<Rightarrow> bool" where
  "forgets_only cfg env cid response s t \<longleftrightarrow>
     t = wa_tqueue s \<or>
     (\<exists>c. conn_map s cid = Some c \<and> wc_event_id c \<noteq> 0 \<and> may_forget cfg env response s (wc_event_id c) \<and>
        t = forget (wa_tqueue_id cfg) (wc_event_id c) (wa_tqueue s))"

lemma wa_handle_ok:
  assumes ok: "wa_ok cfg (env_now env) s" and max: "0 < wa_max_connections cfg" "wa_max_connections cfg < 2 ^ 31" and env: "env_ok env"
    and cid: "cid \<in> set (opened (wa_out s))" and busy: "\<And>c. response \<noteq> None \<Longrightarrow> conn_map s cid = Some c \<Longrightarrow> wc_event_id c \<noteq> 0"
  shows "\<exists>s' t. wa_handle cfg env cid response s = Some s' \<and> wa_ok cfg (env_now env) s' \<and>
    keeps_events cfg (env_now env) t (wa_tqueue s') \<and> forgets_only cfg env cid response s t"
proof (cases "container_get (connections s) cid")
  case None
  then have "wa_handle cfg env cid response s = Some s" by (simp add: wa_handle_def)
  moreover have "forgets_only cfg env cid response s (wa_tqueue s)" by (simp add: forgets_only_def)
  ultimately show ?thesis using ok keeps_events_refl by blast
next
  case (Some conn)
  then have c: "conn_map s cid = Some conn" using cid by (simp add: conn_map_def)
  obtain err d nc s1 where r: "(case response of None \<Rightarrow> (''Webhook connection closed'', 0, False, s)
      | Some r \<Rightarrow> read_response cfg (env_now env) r s) = (err, d, nc, s1)" by (metis prod_cases4)
  have s1: "wa_view s1 = wa_view s" "err = [] \<longleftrightarrow> accepted response" "\<not> accepted response \<Longrightarrow> d = response_delay response"
  proof -
    have "wa_view s1 = wa_view s \<and> (err = [] \<longleftrightarrow> accepted response) \<and> (\<not> accepted response \<longrightarrow> d = response_delay response)"
    proof (cases response)
      case None
      then show ?thesis using r by (auto simp: accepted_def response_delay_def)
    next
      case (Some r')
      then show ?thesis using r read_response_view [of cfg "env_now env" r' s err d nc s1] by simp
    qed
    then show "wa_view s1 = wa_view s" "err = [] \<longleftrightarrow> accepted response" "\<not> accepted response \<Longrightarrow> d = response_delay response"
      by auto
  qed
  note same = wa_view_parts [OF s1(1)]
  have ok1: "wa_ok cfg (env_now env) s1" using ok by (simp add: wa_view_ok [OF s1(1)])
  then have inv: "loaded_inv cfg (conn_map s1) s1" "tq_inv (wa_tqueue s1)" by (auto simp: wa_ok_def wa_inv_def shared_inv_def)
  have "err \<noteq> []" if "wc_event_id conn = 0"
    using that busy [OF _ c] s1(2) by (cases response) (auto simp: accepted_def)
  from finish_request_ok [OF inv _ env this s1(2,3), of cid] c same(6) obtain s2 where s2:
    "(if \<not> event_id_empty (wc_event_id conn)
      then if err = [] then on_update_ok cfg (env_now env) (wc_event_id conn) s1 else on_update_error cfg env (wc_event_id conn) d s1
      else if err \<noteq> [] then Some s1 else None) = Some s2" "rest_view s2 = rest_view s1"
    "loaded_inv cfg ((conn_map s1)(cid := None)) s2" "tq_inv (wa_tqueue s2)"
    "wa_tqueue s2 = wa_tqueue s1 \<or> wa_tqueue s2 = forget (wa_tqueue_id cfg) (wc_event_id conn) (wa_tqueue s1) \<and>
       wc_event_id conn \<noteq> 0 \<and> may_forget cfg env response s1 (wc_event_id conn)"
    by auto
  define b where "b = (nc \<or> (case response of None \<Rightarrow> True
    | Some r \<Rightarrow> hq_type r \<noteq> Type_Response \<or> \<not> hr_keep_alive r \<or> ip_generation s \<noteq> wc_ip_generation conn))"
  let ?s3 = "settle_connection cid conn b s2"
  have "wc_event_id conn \<noteq> 0" if "\<not> b" using that busy [OF _ c] by (cases response) (auto simp: b_def)
  then have ok3: "wa_ok cfg (env_now env) ?s3"
    using settle_connection_ok [OF ok1 s2(2-4), of conn b] c same(6) by simp
  have tq3: "wa_tqueue ?s3 = wa_tqueue s2" by (simp add: settle_connection_def)
  have forg: "forgets_only cfg env cid response s (wa_tqueue s2)"
    using s2(5) c same by (auto simp: forgets_only_def may_forget_def)
  have handle: "wa_handle cfg env cid response s = (if nc then Some (wa_send Close_Later ?s3) else wa_loop cfg env ?s3)"
    using Some r s2(1) unfolding wa_handle_def b_def by (simp add: Let_def)
  show ?thesis
  proof (cases nc)
    case True
    then have "wa_handle cfg env cid response s = Some (wa_send Close_Later ?s3)" using handle by simp
    moreover have "wa_ok cfg (env_now env) (wa_send Close_Later ?s3)" using ok3 by (simp add: wa_view_ok [OF wa_view_send])
    moreover have "keeps_events cfg (env_now env) (wa_tqueue s2) (wa_tqueue (wa_send Close_Later ?s3))" using tq3 by simp
    ultimately show ?thesis using forg by blast
  next
    case False
    then show ?thesis using handle wa_loop_ok [OF ok3 max] tq3 forg by metis
  qed
qed

subsection \<open>The actor as a transition system\<close>

text \<open>The messages of the actor, and what the other users of the shared queue do to it.\<close>

datatype wa_event =
    Ev_Update wa_env
  | Ev_Loop wa_env
  | Ev_Resolved "ip_address result" wa_env
  | Ev_Ssl_Context "(td_error \<times> string) option" wa_env
  | Ev_Socket_Ready "nat result" "64 word" wa_env
  | Ev_Response "64 word" http_response wa_env
  | Ev_Connection_Hangup "64 word" wa_env wa_env
  | Ev_Connection_Error td_error wa_env
  | Ev_Close wa_env
  | Ev_Hangup wa_env
  | Ev_Queue tq_op wa_env

fun wa_deliver :: "wa_config \<Rightarrow> wa_event \<Rightarrow> webhook_actor \<Rightarrow> webhook_actor option" where
  "wa_deliver cfg (Ev_Update env) s = wa_update cfg env s"
| "wa_deliver cfg (Ev_Loop env) s = wa_loop cfg env s"
| "wa_deliver cfg (Ev_Resolved r env) s = on_resolved_ip_address cfg env r s"
| "wa_deliver cfg (Ev_Ssl_Context r env) s = on_ssl_context_created cfg env r s"
| "wa_deliver cfg (Ev_Socket_Ready r sid env) s = on_socket_ready_async cfg env r sid s"
| "wa_deliver cfg (Ev_Response cid r env) s = wa_handle cfg env cid (Some r) s"
| "wa_deliver cfg (Ev_Connection_Hangup cid env env') s = wa_hangup_shared cfg env env' cid s"
| "wa_deliver cfg (Ev_Connection_Error e env) s = Some (on_connection_error (env_now env) e s)"
| "wa_deliver cfg (Ev_Close env) s = Some (wa_close s)"
| "wa_deliver cfg (Ev_Hangup env) s = Some (wa_hangup s)"
| "wa_deliver cfg (Ev_Queue op env) s = Some (s\<lparr>wa_tqueue := exec_op op (wa_tqueue s)\<rparr>)"

fun ev_env :: "wa_event \<Rightarrow> wa_env" where
  "ev_env (Ev_Update env) = env"
| "ev_env (Ev_Loop env) = env"
| "ev_env (Ev_Resolved r env) = env"
| "ev_env (Ev_Ssl_Context r env) = env"
| "ev_env (Ev_Socket_Ready r sid env) = env"
| "ev_env (Ev_Response cid r env) = env"
| "ev_env (Ev_Connection_Hangup cid env env') = env'"
| "ev_env (Ev_Connection_Error e env) = env"
| "ev_env (Ev_Close env) = env"
| "ev_env (Ev_Hangup env) = env"
| "ev_env (Ev_Queue op env) = env"

text \<open>A stopped actor receives nothing any more.\<close>

fun is_queue_event :: "wa_event \<Rightarrow> bool" where
  "is_queue_event (Ev_Queue op env) = True"
| "is_queue_event ev = False"

definition wa_step :: "wa_config \<Rightarrow> wa_event \<Rightarrow> webhook_actor \<Rightarrow> webhook_actor option" where
  "wa_step cfg ev s = (if wa_stopped s \<and> \<not> is_queue_event ev then Some s else wa_deliver cfg ev s)"

text \<open>
  What the senders guarantee: the clock does not run backwards, the resolver answers a request, a proxy and a connection speak
  under a number they were given, and a connection passes on a response only to a request that was written to it
  (\<open>HttpConnectionBase\<close> reads only in the state after \<open>write_ok\<close>).
\<close>

fun ev_sender_ok :: "wa_event \<Rightarrow> webhook_actor \<Rightarrow> bool" where
  "ev_sender_ok (Ev_Resolved r env) s \<longleftrightarrow> is_ip_address_being_resolved s"
| "ev_sender_ok (Ev_Socket_Ready r sid env) s \<longleftrightarrow> sid \<in> set (proxied (wa_out s))"
| "ev_sender_ok (Ev_Response cid r env) s \<longleftrightarrow>
     cid \<in> set (opened (wa_out s)) \<and> (\<forall>c. container_get (connections s) cid = Some c \<longrightarrow> wc_event_id c \<noteq> 0)"
| "ev_sender_ok (Ev_Connection_Hangup cid env env') s \<longleftrightarrow>
     cid \<in> set (opened (wa_out s)) \<and> env_now env \<le> env_now env' \<and> env_ok env"
| "ev_sender_ok (Ev_Queue op env) s \<longleftrightarrow> op_ok op"
| "ev_sender_ok _ s \<longleftrightarrow> True"

fun ev_start :: "wa_event \<Rightarrow> real" where
  "ev_start (Ev_Connection_Hangup cid env env') = env_now env"
| "ev_start ev = env_now (ev_env ev)"

definition ev_ok :: "real \<Rightarrow> wa_event \<Rightarrow> webhook_actor \<Rightarrow> bool" where
  "ev_ok t ev s \<longleftrightarrow> t \<le> ev_start ev \<and> env_ok (ev_env ev) \<and> ev_sender_ok ev s"

inductive wa_reach :: "wa_config \<Rightarrow> real \<Rightarrow> webhook_actor \<Rightarrow> bool" for cfg where
  start: "new_webhook_actor cfg cached tq = Some s \<Longrightarrow> tq_inv tq \<Longrightarrow> wa_max_connections cfg < 2 ^ 31 \<Longrightarrow> 0 \<le> env_now env \<Longrightarrow>
    wa_start_up cfg env s = Some s' \<Longrightarrow> wa_reach cfg (env_now env) s'"
| step: "wa_reach cfg t s \<Longrightarrow> ev_ok t ev s \<Longrightarrow> wa_step cfg ev s = Some s' \<Longrightarrow> wa_reach cfg (env_now (ev_env ev)) s'"

inductive_cases wa_reachE: "wa_reach cfg t s"

lemma wa_loop_ok':
  assumes "wa_ok cfg t s" and "t \<le> env_now env" and "0 < wa_max_connections cfg" "wa_max_connections cfg < 2 ^ 31"
  shows "\<exists>s'. wa_loop cfg env s = Some s' \<and> wa_ok cfg (env_now env) s'"
  using wa_loop_ok [OF wa_ok_mono [OF assms(1,2)] assms(3,4)] by blast

lemma bind_loop_ok:
  assumes "\<exists>s'. r = Some s' \<and> wa_ok cfg t s'" and "t \<le> env_now env" and "0 < wa_max_connections cfg" "wa_max_connections cfg < 2 ^ 31"
  shows "\<exists>s'. Option.bind r (wa_loop cfg env) = Some s' \<and> wa_ok cfg (env_now env) s'"
  using assms wa_loop_ok' by fastforce

lemma take_ip_address_ok:
  assumes ok: "wa_ok cfg t s"
  shows "\<exists>s'. take_ip_address cfg r s = Some s' \<and> wa_ok cfg t s'"
proof -
  have v: "wa_view (s\<lparr>wa_ip_address := a, ip_generation := g\<rparr>) = wa_view s" for a g by (simp add: wa_view_def)
  have "wa_ok cfg t (s\<lparr>wa_ip_address := a, ip_generation := g\<rparr>)" for a g
    using ok by (simp add: wa_view_ok [OF v])
  then show ?thesis
    using ok wa_on_error_ok [OF ok]
    by (auto simp: take_ip_address_def Let_def wa_view_ok [OF wa_view_functions(2)] split: sum.splits option.splits)
qed

lemma on_resolved_ok:
  assumes ok: "wa_ok cfg t s" and r: "is_ip_address_being_resolved s" and t: "t \<le> env_now env"
    and max: "0 < wa_max_connections cfg" "wa_max_connections cfg < 2 ^ 31"
  shows "\<exists>s'. on_resolved_ip_address cfg env res s = Some s' \<and> wa_ok cfg (env_now env) s'"
proof -
  have v: "wa_view (relax_wakeup_at w (s\<lparr>is_ip_address_being_resolved := False, next_ip_address_resolve_time := w\<rparr>)) = wa_view s" for w
    unfolding wa_view_functions by (simp add: wa_view_def)
  have "wa_ok cfg t (relax_wakeup_at w (s\<lparr>is_ip_address_being_resolved := False, next_ip_address_resolve_time := w\<rparr>))" for w
    using ok by (simp only: wa_view_ok [OF v])
  from bind_loop_ok [OF take_ip_address_ok [OF this] t max] r show ?thesis
    by (simp add: on_resolved_ip_address_def Let_def)
qed

lemma on_ssl_context_created_ok:
  assumes ok: "wa_ok cfg t s" and t: "t \<le> env_now env" and max: "0 < wa_max_connections cfg" "wa_max_connections cfg < 2 ^ 31"
  shows "\<exists>s'. on_ssl_context_created cfg env res s = Some s' \<and> wa_ok cfg (env_now env) s'"
proof (cases res)
  case None
  have v: "wa_view (s\<lparr>has_ssl_ctx := True\<rparr>) = wa_view s" by (simp add: wa_view_def)
  have "wa_ok cfg t (s\<lparr>has_ssl_ctx := True\<rparr>)" using ok by (simp add: wa_view_ok [OF v])
  then show ?thesis using wa_loop_ok' [OF _ t max] None by (simp add: on_ssl_context_created_def)
next
  case (Some p)
  obtain e pm where "p = (e, pm)" by (cases p)
  then show ?thesis
    using bind_loop_ok [OF create_webhook_error_ok [OF ok] t max] Some by (simp add: on_ssl_context_created_def)
qed

lemma socket_ready_ok:
  assumes ok: "wa_ok cfg t s" and sid: "sid \<in> set (proxied (wa_out s))"
  shows "\<exists>s'. (case res of
        Inr fd \<Rightarrow> Some (s\<lparr>pending_sockets := container_erase () sid (pending_sockets s),
          ready_sockets := ready_sockets (s\<lparr>pending_sockets := container_erase () sid (pending_sockets s)\<rparr>) @ [fd]\<rparr>)
      | Inl e \<Rightarrow> wa_on_error e (on_webhook_error now (err_message e)
          (s\<lparr>pending_sockets := container_erase () sid (pending_sockets s)\<rparr>))) = Some s' \<and> wa_ok cfg t s'"
proof -
  let ?s = "s\<lparr>pending_sockets := container_erase () sid (pending_sockets s)\<rparr>"
  obtain m where rel: "container_rel (pending_sockets s) (proxied (wa_out s)) m" and le: "conn_sockets s \<le> nat (wa_max_connections cfg)"
    using ok by (auto simp: wa_ok_def wa_inv_def connections_inv_def)
  have cm: "conn_map ?s = conn_map s" by (intro ext) (simp add: conn_map_def)
  have "conn_sockets ?s \<le> nat (wa_max_connections cfg)"
    using le container_size_erase [of "()" sid "pending_sockets s"] by (simp add: conn_sockets_def)
  then have "connections_inv cfg ?s"
    using ok ids.rel_erase [OF rel sid, of "()"] unfolding connections_inv_def cm by (auto simp: wa_ok_def wa_inv_def connections_inv_def)
  then have ok1: "wa_ok cfg t ?s"
    using ok unfolding wa_ok_def wa_inv_def cm by (simp add: loaded_inv_def callback_inv_def shared_inv_def)
  have ready: "wa_ok cfg t (?s\<lparr>ready_sockets := fds\<rparr>)" for fds by (rule fewer_ready_ok [OF ok1])
  have err: "wa_ok cfg t (on_webhook_error now m ?s)" for now m using ok1 by (simp only: wa_view_ok [OF wa_view_functions(3)])
  show ?thesis using ready wa_on_error_ok [OF err] by (auto split: sum.split)
qed

lemma on_socket_ready_ok:
  assumes "wa_ok cfg t s" and "sid \<in> set (proxied (wa_out s))" and t: "t \<le> env_now env"
    and max: "0 < wa_max_connections cfg" "wa_max_connections cfg < 2 ^ 31"
  shows "\<exists>s'. on_socket_ready_async cfg env res sid s = Some s' \<and> wa_ok cfg (env_now env) s'"
  using bind_loop_ok [OF socket_ready_ok [OF assms(1,2)] t max] unfolding on_socket_ready_async_def Let_def by simp

lemma socket_ready_tqueue:
  "(case res of
        Inr fd \<Rightarrow> Some (s\<lparr>pending_sockets := container_erase () sid (pending_sockets s),
          ready_sockets := ready_sockets (s\<lparr>pending_sockets := container_erase () sid (pending_sockets s)\<rparr>) @ [fd]\<rparr>)
      | Inl e \<Rightarrow> wa_on_error e (on_webhook_error now (err_message e)
          (s\<lparr>pending_sockets := container_erase () sid (pending_sockets s)\<rparr>))) = Some s' \<Longrightarrow> wa_tqueue s' = wa_tqueue s"
  using wa_view_functions(3) [THEN wa_view_parts(5)] by (auto split: sum.splits dest: wa_on_error_tqueue)

lemma start_state_ok:
  assumes new: "new_webhook_actor cfg cached tq = Some s" and tq: "tq_inv tq" and t: "0 \<le> env_now env"
  shows "wa_ok cfg (env_now env) (start_state cfg env s)"
proof -
  let ?s = "start_state cfg env s"
  have fl: "flood_ok [(1 / 2, 10)] (env_now env) (add_limit (1 / 2) 10 new_flood_control)"
    "flood_ok [(2, 1)] (env_now env) (add_limit 2 1 new_flood_control)"
    using flood_ok_mono [OF flood_ok_initial [of "[(1 / 2, 10)]"] t] flood_ok_mono [OF flood_ok_initial [of "[(2, 1)]"] t]
    by (simp_all add: limits_ok_def flood_control_of_def)
  have cm: "conn_map ?s = Map.empty"
    using new by (intro ext) (auto simp: start_state_def new_webhook_actor_def conn_map_def Let_def split: if_splits)
  show ?thesis
    using new tq fl container_rel_new [where 'a = unit] container_rel_new [where 'a = wh_connection]
    unfolding wa_ok_def wa_inv_def connections_inv_def cm
    by (auto simp: start_state_def new_webhook_actor_def loaded_inv_def books_inv_def flight_inv_def carries_def covered_def
        ready_inv_def callback_inv_def shared_inv_def conn_sockets_def container_size_def new_container_def Let_def split: if_splits)
qed

lemma start_up_ok:
  assumes "new_webhook_actor cfg cached tq = Some s" and "tq_inv tq" and "0 \<le> env_now env"
  shows "\<exists>s'. wa_start_up cfg env s = Some s' \<and> wa_ok cfg (env_now env) s'"
proof -
  have "\<exists>s'. check_webhook_url cfg s = Some s' \<and> wa_ok cfg t s'" if "wa_ok cfg t s" for t s
    using that wa_on_error_ok [OF that] by (auto simp: check_webhook_url_def)
  from this [OF start_state_ok [OF assms]] obtain s2 where
    s2: "check_webhook_url cfg (start_state cfg env s) = Some s2" "wa_ok cfg (env_now env) s2" by blast
  have "\<exists>s'. finish_start_up cfg s2 = Some s' \<and> wa_ok cfg (env_now env) s'"
    using s2(2) wa_on_error_ok [OF s2(2)]
    by (auto simp: finish_start_up_def Let_def verified_ok wa_view_ok [OF wa_view_send] split: option.split)
  then show ?thesis using s2(1) by (simp add: wa_start_up_def)
qed

lemma wa_inv_stop: "wa_inv cfg t s \<Longrightarrow> wa_inv cfg t (wa_stop (s\<lparr>has_callback := False\<rparr>))"
proof -
  assume inv: "wa_inv cfg t s"
  let ?s = "wa_stop (s\<lparr>has_callback := False\<rparr>)"
  have cm: "conn_map ?s = conn_map s" by (intro ext) (simp add: conn_map_def wa_stop_def wa_tear_down_def wa_send_def)
  show ?thesis
    using inv unfolding wa_inv_def connections_inv_def cm
    by (simp add: wa_stop_def wa_tear_down_def wa_send_def loaded_inv_def callback_inv_def shared_inv_def conn_sockets_def)
qed

lemma wa_inv_tqueue: "wa_inv cfg t s \<Longrightarrow> tq_inv tq \<Longrightarrow> wa_inv cfg t (s\<lparr>wa_tqueue := tq\<rparr>)"
proof -
  assume inv: "wa_inv cfg t s" "tq_inv tq"
  have cm: "conn_map (s\<lparr>wa_tqueue := tq\<rparr>) = conn_map s" by (intro ext) (simp add: conn_map_def)
  show ?thesis
    using inv unfolding wa_inv_def connections_inv_def cm by (simp add: loaded_inv_def callback_inv_def shared_inv_def conn_sockets_def)
qed

lemma wa_step_inv:
  assumes inv: "wa_inv cfg t s" and max: "0 < wa_max_connections cfg" "wa_max_connections cfg < 2 ^ 31" and ev: "ev_ok t ev s"
    and running: "wa_stopped s \<Longrightarrow> is_queue_event ev"
  shows "\<exists>s'. wa_deliver cfg ev s = Some s' \<and> wa_inv cfg (env_now (ev_env ev)) s'"
proof -
  have t: "t \<le> ev_start ev" "env_ok (ev_env ev)" "ev_sender_ok ev s" using ev by (auto simp: ev_ok_def)
  have mono: "wa_inv cfg t' s" if "t \<le> t'" for t' using inv that by (auto simp: wa_inv_def intro: shared_inv_mono)
  have ok: "wa_ok cfg t s" if "\<not> wa_stopped s" using inv that by (simp add: wa_ok_def)
  have okD: "\<exists>s'. r = Some s' \<and> wa_inv cfg t' s'" if "\<exists>s'. r = Some s' \<and> wa_ok cfg t' s'" for r t'
    using that by (auto simp: wa_ok_def)
  show ?thesis
  proof (cases ev)
    case (Ev_Update env)
    then have "wa_ok cfg t (s\<lparr>tqueue_empty := False\<rparr>)"
      using ok running by (subst wa_view_ok [of _ s]) (auto simp: wa_view_def)
    then show ?thesis using wa_loop_ok' [OF _ _ max] t Ev_Update by (intro okD) (simp add: wa_update_def)
  next
    case (Ev_Loop env)
    then show ?thesis using wa_loop_ok' [OF ok _ max] t running by (intro okD) auto
  next
    case (Ev_Resolved r env)
    then show ?thesis using on_resolved_ok [OF ok _ _ max] t running by (intro okD) auto
  next
    case (Ev_Ssl_Context r env)
    then show ?thesis using on_ssl_context_created_ok [OF ok _ max] t running by (intro okD) auto
  next
    case (Ev_Socket_Ready r sid env)
    then show ?thesis using on_socket_ready_ok [OF ok _ _ max] t running by (intro okD) auto
  next
    case (Ev_Response cid r env)
    then have "wa_ok cfg (env_now env) s" using ok running t wa_ok_mono by auto
    then have "\<exists>s'. wa_handle cfg env cid (Some r) s = Some s' \<and> wa_ok cfg (env_now env) s'"
      using wa_handle_ok [of cfg env s cid "Some r"] max t Ev_Response by (auto simp: conn_map_def)
    then show ?thesis using Ev_Response by (intro okD) simp
  next
    case (Ev_Connection_Hangup cid env env')
    then have "wa_ok cfg (env_now env) s" using ok running t wa_ok_mono by auto
    then have "\<exists>s'. wa_handle cfg env cid None s = Some s' \<and> wa_ok cfg (env_now env) s'"
      using wa_handle_ok [of cfg env s cid None] max t Ev_Connection_Hangup by auto
    from bind_loop_ok [OF this _ max, of env'] show ?thesis
      using t Ev_Connection_Hangup by (intro okD) (simp add: wa_hangup_shared_def)
  next
    case (Ev_Connection_Error e env)
    then have "wa_ok cfg (env_now env) s" using ok running t wa_ok_mono by auto
    then show ?thesis using Ev_Connection_Error by (intro okD) (simp add: wa_view_ok [OF wa_view_functions(4)])
  next
    case (Ev_Close env)
    have "wa_ok cfg (env_now env) (to_callback (Webhook_Closed None) s)"
      using Ev_Close ok running t wa_ok_mono
      by (subst wa_view_ok [of _ s]) (auto simp: to_callback_def wa_view_send)
    then show ?thesis using Ev_Close wa_inv_stop by (simp add: wa_close_def wa_ok_def)
  next
    case (Ev_Hangup env)
    then show ?thesis using mono t wa_inv_stop by (simp add: wa_hangup_def)
  next
    case (Ev_Queue op env)
    have "tq_inv (exec_op op (wa_tqueue s))"
      using inv t(3) Ev_Queue by (intro exec_op_inv) (auto simp: wa_inv_def shared_inv_def)
    then show ?thesis using Ev_Queue mono t wa_inv_tqueue by simp
  qed
qed

lemma wa_reach_inv: "wa_reach cfg t s \<Longrightarrow> wa_inv cfg t s \<and> 0 < wa_max_connections cfg \<and> wa_max_connections cfg < 2 ^ 31"
proof (induction rule: wa_reach.induct)
  case (start cached tq s env s')
  then show ?case using start_up_ok [of cfg cached tq s env] by (auto simp: wa_ok_def new_webhook_actor_def split: if_splits)
next
  case (step t s ev s')
  show ?case
  proof (cases "wa_stopped s \<and> \<not> is_queue_event ev")
    case True
    have "env_now (ev_env ev) \<ge> t" using step.hyps(2) by (cases ev) (auto simp: ev_ok_def)
    then have "wa_inv cfg (env_now (ev_env ev)) s" using step.IH by (auto simp: wa_inv_def intro: shared_inv_mono)
    then show ?thesis using step True by (simp add: wa_step_def)
  next
    case False
    then have "wa_stopped s \<Longrightarrow> is_queue_event ev" by blast
    then show ?thesis using wa_step_inv [of cfg t s ev] step False unfolding wa_step_def by (auto split: if_splits)
  qed
qed

subsection \<open>Properties\<close>

text \<open>
  (C9) Whatever the webhook, the resolver, the proxies and the other users of the queue do, every message that follows the
  protocol of its sender is handled without a failed check; the actor never holds more connections than
  configured, nor more than twice as many queues of loaded updates.
\<close>

theorem webhook_actor_sound:
  assumes "wa_reach cfg t s" and "ev_ok t ev s"
  shows "(\<exists>s'. wa_step cfg ev s = Some s') \<and> container_size (connections s) \<le> nat (wa_max_connections cfg) \<and>
    length (queue_updates s) \<le> nat (wa_max_connections cfg * 2)"
proof -
  have inv: "wa_inv cfg t s" "0 < wa_max_connections cfg" "wa_max_connections cfg < 2 ^ 31" using wa_reach_inv [OF assms(1)] by auto
  have "\<exists>s'. wa_step cfg ev s = Some s'"
  proof (cases "wa_stopped s \<and> \<not> is_queue_event ev")
    case False
    then show ?thesis using wa_step_inv [OF inv assms(2)] by (auto simp: wa_step_def)
  qed (simp add: wa_step_def)
  moreover have "conn_sockets s \<le> nat (wa_max_connections cfg)"
    "length (queue_updates s) \<le> max_loaded_updates s" "max_loaded_updates s \<le> nat (wa_max_connections cfg * 2)"
    using inv(1) by (simp_all add: wa_inv_def connections_inv_def loaded_inv_def)
  ultimately show ?thesis by (auto simp: conn_sockets_def)
qed

text \<open>A webhook on the local network and a queue with two updates of one chat.\<close>

definition sample_webhook :: wa_config where
  "sample_webhook = \<lparr>wa_tqueue_id = 5,
     wa_url = \<lparr>url_protocol = Http, url_userinfo = [], url_host = ''h'', url_is_ipv6 = False, specified_port = 0, url_port = 80,
       url_query = ''/''\<rparr>,
     wa_host_header = ''h'', wa_cert_path = [], wa_fix_ip_address = False, wa_from_db = False, wa_max_connections = 1,
     wa_secret_token = [], wa_local_mode = True, wa_has_proxy = False, wa_unix_time = (\<lambda>t. \<lfloor>t\<rfloor>), wa_ip_str = (\<lambda>a. [])\<rparr>"

definition sample_env :: "real \<Rightarrow> wa_env" where
  "sample_env t = \<lparr>env_now = t, env_random = (\<lambda>a b. a), env_open = (\<lambda>i. None), env_ssl = (\<lambda>i. None)\<rparr>"

definition sample_tqueue :: tqueue where
  "sample_tqueue = \<lparr>queues = [5 \<mapsto> \<lparr>tail_id = 5, events = [
       \<lparr>ev_log_id = 0, ev_id = 3, ev_expires_at = 1000, ev_data = ''a'', ev_extra = 9\<rparr>,
       \<lparr>ev_log_id = 0, ev_id = 4, ev_expires_at = 1000, ev_data = ''b'', ev_extra = 9\<rparr>],
     total_event_length = 2, gc_at = 1000\<rparr>], queue_gc_at = [(1000, 5)], callback = None\<rparr>"

definition sample_actor :: webhook_actor where
  "sample_actor = the (Option.bind (new_webhook_actor sample_webhook InvalidAddress sample_tqueue) (wa_start_up sample_webhook (sample_env 100)))"

lemma sample_actor_reach: "wa_reach sample_webhook 100 sample_actor"
proof -
  have tq: "tq_inv sample_tqueue"
    by (auto simp: sample_tqueue_def tq_inv_def queue_inv_def events_inv_def event_inv_def is_valid_id_def max_id_def mirrors_def
        gc_inv_def max_event_length_def max_total_event_length_def max_queue_events_def split: if_splits)
  obtain s where s: "new_webhook_actor sample_webhook InvalidAddress sample_tqueue = Some s"
    by (simp add: new_webhook_actor_def sample_webhook_def)
  moreover from start_up_ok [OF s tq, of "sample_env 100"] obtain s' where
    "wa_start_up sample_webhook (sample_env 100) s = Some s'" by (auto simp: sample_env_def)
  ultimately have "wa_reach sample_webhook (env_now (sample_env 100)) sample_actor"
    using wa_reach.start [OF s tq, of "sample_env 100"] by (auto simp: sample_actor_def sample_webhook_def sample_env_def)
  then show ?thesis by (simp add: sample_env_def)
qed

lemma env_ok_sample: "env_ok (sample_env t)" "env_now (sample_env t) = t"
  by (simp_all add: env_ok_def sample_env_def)

theorem webhook_actor_sound_witness:
  "\<exists>s'. wa_step sample_webhook (Ev_Loop (sample_env 101)) sample_actor = Some s'"
  using webhook_actor_sound [OF sample_actor_reach, of "Ev_Loop (sample_env 101)"] by (simp add: ev_ok_def env_ok_sample)

definition sample_loop :: "webhook_actor" where
  "sample_loop = the (wa_step sample_webhook (Ev_Loop (sample_env 101)) sample_actor)"

lemma sample_actor_fields:
  "sample_actor = \<lparr>wa_tqueue = sample_tqueue, wa_out = [Yield], wa_stopped = False, has_callback = True, tqueue_empty = False,
    last_pending_update_count = 50, last_error_time = 0, last_error_message = ''<none>'', stop_flag = False, was_checked = False,
    tqueue_offset = 0, max_loaded_updates = 2, update_map = [], queue_updates = [], wh_queues = [], unique_queue_id = 2 ^ 60,
    first_error_410_time = 0, has_ssl_ctx = False, wa_ip_address = InvalidAddress, ip_generation = 0,
    next_ip_address_resolve_time = -3500, is_ip_address_being_resolved = False, pending_sockets = new_container, ready_sockets = [],
    connections = new_container, ready_connections = [],
    active_new_connection_flood = add_limit (1 / 2) 10 new_flood_control,
    pending_new_connection_flood = add_limit 2 1 new_flood_control, last_success_time = -3500, wa_wakeup_at = 0,
    last_update_was_successful = True\<rparr>"
  by (simp add: sample_actor_def new_webhook_actor_def sample_webhook_def sample_env_def wa_start_up_def start_state_def
      check_webhook_url_def finish_start_up_def wa_send_def ip_address_cache_time_def min_pending_updates_warning_wh_def Let_def)

lemma sample_read:
  "get_events 5 3 False 101 2 sample_tqueue = (Inr (2,
     [\<lparr>ev_log_id = 0, ev_id = 3, ev_expires_at = 1000, ev_data = ''a'', ev_extra = 9\<rparr>,
      \<lparr>ev_log_id = 0, ev_id = 4, ev_expires_at = 1000, ev_data = ''b'', ev_extra = 9\<rparr>]), sample_tqueue)"
  "get_head 5 sample_tqueue = 3"
  by (simp_all add: sample_tqueue_def get_events_def do_get_def get_head_def get_queue_head_def queue_of_def queue_size_def
      max_queue_events_def set_queue_def numeral_2_eq_2)

lemma sample_loop_fields:
  "sample_loop = sample_actor\<lparr>wa_out := [Yield, Webhook_Success, Get_Host_By_Name ''h'' 80], tqueue_offset := 5,
     update_map := [(3, \<lparr>wu_id = 3, wu_json = ''a'', wu_expires_at = 1000, wu_last_send_time = 0, wu_wakeup_at = 101, wu_delay = 1,
         wu_fail_count = 0, wu_queue_id = 9\<rparr>),
       (4, \<lparr>wu_id = 4, wu_json = ''b'', wu_expires_at = 1000, wu_last_send_time = 0, wu_wakeup_at = 101, wu_delay = 1,
         wu_fail_count = 0, wu_queue_id = 9\<rparr>)],
     queue_updates := [(9, [3, 4])], wh_queues := [new_wh_queue 101 9], is_ip_address_being_resolved := True\<rparr>"
  by (simp add: sample_loop_def wa_step_def wa_loop_def unless_stopping_def load_updates_def read_tqueue_def sample_read
      sample_actor_fields sample_env_def sample_webhook_def event_id_empty_def tqueue_event_buffer_size_def load_update_def
      event_id_is_valid_def is_valid_id_def max_id_def event_id_next_def event_id_from_int32_def pending_warning_def
      min_pending_updates_warning_wh_def to_callback_def wa_send_def resolve_ip_address_def relax_wakeup_at_def
      create_new_connections_def ip_is_valid_def send_updates.simps send_update_def end_loop_def Let_def)

lemma sample_loop_step: "wa_step sample_webhook (Ev_Loop (sample_env 101)) sample_actor = Some sample_loop"
proof -
  obtain s' where "wa_step sample_webhook (Ev_Loop (sample_env 101)) sample_actor = Some s'"
    using wa_step_inv [of sample_webhook 100 sample_actor "Ev_Loop (sample_env 101)"] wa_reach_inv [OF sample_actor_reach]
    by (auto simp: ev_ok_def env_ok_sample wa_step_def sample_actor_fields)
  then show ?thesis by (simp add: sample_loop_def)
qed

lemma sample_loop_reach: "wa_reach sample_webhook 101 sample_loop"
  using wa_reach.step [OF sample_actor_reach _ sample_loop_step] by (simp add: ev_ok_def env_ok_sample)

text \<open>
  (C8) No update is lost or sent twice at a time. If the request header fits its buffer, then in every reachable state
  each queue of loaded updates is either scheduled to be sent, or its oldest update is under way on exactly
  one connection, never both; and only the oldest update of a queue is ever under way, on one connection.
\<close>

theorem webhook_queue_progress:
  assumes "wa_reach cfg t s" and "header_fits cfg" and "map_of (queue_updates s) q = Some ids"
  shows "ids \<noteq> [] \<and> (q \<in> wq_id ` set (wh_queues s)) = (\<nexists>cid. carries (conn_map s) cid (hd ids)) \<and>
    (\<forall>e \<in> set ids. \<forall>cid cid'. carries (conn_map s) cid e \<and> carries (conn_map s) cid' e \<longrightarrow> cid = cid' \<and> e = hd ids)"
proof -
  have inv: "loaded_inv cfg (conn_map s) s" using wa_reach_inv [OF assms(1)] by (simp add: wa_inv_def)
  have books: "books_inv (update_map s) (queue_updates s) (wh_queues s)"
    and fl: "flight_inv (update_map s) (queue_updates s) (wh_queues s) (conn_map s)"
    and cov: "covered (queue_updates s) (wh_queues s) (conn_map s)" using inv assms(2) by (auto simp: loaded_inv_def)
  obtain e es where ids: "ids = e # es" using books_queue(2) [OF books assms(3)] by (cases ids) auto
  have front: "x = e" if x: "x \<in> set ids" and c: "carries (conn_map s) cid x" for x cid
  proof (rule flightD [OF fl c])
    fix u js assume "map_of (update_map s) x = Some u" "map_of (queue_updates s) (wu_queue_id u) = Some (x # js)"
    then show "x = e" using books_queue(4) [OF books assms(3) x] assms(3) ids by auto
  qed
  have "\<not> carries (conn_map s) cid e" if "q \<in> wq_id ` set (wh_queues s)" for cid
    by (rule scheduled_not_carried [OF books fl that]) (use assms(3) ids in simp)
  moreover have "q \<in> wq_id ` set (wh_queues s)" if "\<nexists>cid. carries (conn_map s) cid e"
    using coveredD [OF cov assms(3)] ids that by (metis list.sel(1))
  ultimately have "(q \<in> wq_id ` set (wh_queues s)) = (\<nexists>cid. carries (conn_map s) cid (hd ids))"
    unfolding ids list.sel(1) by blast
  moreover have "cid = cid' \<and> x = hd ids"
    if "x \<in> set ids" and "carries (conn_map s) cid x \<and> carries (conn_map s) cid' x" for x cid cid'
    using flight_inj [OF fl conjunct1 conjunct2, OF that(2) that(2)] front [OF that(1) conjunct1, OF that(2)] ids by simp
  moreover have "ids \<noteq> []" using ids by simp
  ultimately show ?thesis by (intro conjI ballI allI impI; (elim conjE)?; simp)
qed

theorem webhook_queue_progress_witness:
  "\<nexists>cid. carries (conn_map sample_loop) cid 3"
proof -
  have "header_fits sample_webhook" by (simp add: header_fits_def sample_webhook_def)
  moreover have "map_of (queue_updates sample_loop) 9 = Some [3, 4]" by (simp add: sample_loop_fields)
  moreover have "9 \<in> wq_id ` set (wh_queues sample_loop)" by (simp add: sample_loop_fields new_wh_queue_def)
  ultimately show ?thesis using webhook_queue_progress [OF sample_loop_reach] by fastforce
qed

subsection \<open>What leaves the queue\<close>

lemma forget_other:
  assumes "e \<in> set (events (queue_of t qid))" and "ev_id e \<noteq> i"
  shows "e \<in> set (events (queue_of (forget qid i t) qid))"
proof (cases "queues t qid")
  case (Some q)
  let ?P = "\<lambda>e. ev_id e \<noteq> i"
  have e: "e \<in> set (takeWhile ?P (events q)) \<union> set (dropWhile ?P (events q))"
    using assms(1) Some set_append [of "takeWhile ?P (events q)" "dropWhile ?P (events q)"] by (simp add: queue_of_def)
  show ?thesis
  proof (cases "dropWhile ?P (events q)")
    case Nil
    show ?thesis using assms(1) unfolding forget_def Some option.case Nil list.case Let_def .
  next
    case (Cons x xs)
    then have "ev_id x = i" using hd_dropWhile [of ?P "events q"] by auto
    then have "e \<in> set (takeWhile ?P (events q)) \<union> set xs" using e Cons assms(2) by auto
    then show ?thesis using Some Cons by (auto simp: forget_def queue_of_def set_queue_def split: prod.splits)
  qed
qed (use assms in \<open>simp add: queue_of_def\<close>)

fun answer_of :: "wa_event \<Rightarrow> (64 word \<times> http_response option \<times> wa_env) option" where
  "answer_of (Ev_Response cid r env) = Some (cid, Some r, env)"
| "answer_of (Ev_Connection_Hangup cid env env') = Some (cid, None, env)"
| "answer_of ev = None"

lemma loop_keeps:
  assumes "wa_ok cfg t s" and "t \<le> env_now env" and "wa_loop cfg env s = Some s'"
    and "0 < wa_max_connections cfg" "wa_max_connections cfg < 2 ^ 31"
  shows "keeps_events cfg (env_now env) (wa_tqueue s) (wa_tqueue s')"
  using wa_loop_ok [OF wa_ok_mono [OF assms(1,2)] assms(4,5)] assms(3) by auto

lemma bind_loop_keeps:
  assumes "\<exists>s1. r = Some s1 \<and> wa_ok cfg t s1" and "\<And>s1. r = Some s1 \<Longrightarrow> wa_tqueue s1 = tq" and "t \<le> env_now env"
    and "Option.bind r (wa_loop cfg env) = Some s'" and "0 < wa_max_connections cfg" "wa_max_connections cfg < 2 ^ 31"
  shows "keeps_events cfg (env_now env) tq (wa_tqueue s')"
  using assms loop_keeps by (auto simp: bind_eq_Some_conv)

lemma take_ip_address_tqueue: "take_ip_address cfg r s = Some s' \<Longrightarrow> wa_tqueue s' = wa_tqueue s"
  by (auto simp: take_ip_address_def Let_def on_webhook_verified_def to_callback_def wa_send_def
      split: sum.splits option.splits if_splits dest: wa_on_error_tqueue)

lemma other_steps_keep:
  assumes ok: "wa_ok cfg t s" and max: "0 < wa_max_connections cfg" "wa_max_connections cfg < 2 ^ 31"
    and ev: "ev_ok t ev s" "\<not> is_queue_event ev" "answer_of ev = None" and step: "wa_deliver cfg ev s = Some s'"
  shows "keeps_events cfg (env_now (ev_env ev)) (wa_tqueue s) (wa_tqueue s')"
proof (cases ev)
  case (Ev_Update env)
  have "wa_ok cfg t (s\<lparr>tqueue_empty := False\<rparr>)" using ok by (subst wa_view_ok [of _ s]) (auto simp: wa_view_def)
  from loop_keeps [OF this _ _ max, of env s'] show ?thesis using ev step Ev_Update by (simp add: ev_ok_def wa_update_def)
next
  case (Ev_Loop env)
  then show ?thesis using loop_keeps [OF ok _ _ max, of env s'] ev step by (simp add: ev_ok_def)
next
  case (Ev_Resolved r env)
  define w where "w = env_now env + of_int ip_address_cache_time + of_int (env_random env 0 (ip_address_cache_time div 10))"
  let ?s = "relax_wakeup_at w (s\<lparr>is_ip_address_being_resolved := False, next_ip_address_resolve_time := w\<rparr>)"
  have v: "wa_view ?s = wa_view s" unfolding wa_view_functions by (simp add: wa_view_def)
  have "wa_ok cfg t ?s" using ok by (simp only: wa_view_ok [OF v])
  note take_ip_address_ok [OF this, of r]
  moreover have "wa_tqueue s1 = wa_tqueue s" if "take_ip_address cfg r ?s = Some s1" for s1
    using take_ip_address_tqueue [OF that] by (simp add: relax_wakeup_at_def)
  moreover have "t \<le> env_now env" "Option.bind (take_ip_address cfg r ?s) (wa_loop cfg env) = Some s'"
    using ev step Ev_Resolved unfolding w_def by (simp_all add: ev_ok_def on_resolved_ip_address_def Let_def)
  ultimately have "keeps_events cfg (env_now env) (wa_tqueue s) (wa_tqueue s')" by (rule bind_loop_keeps [OF _ _ _ _ max])
  then show ?thesis using Ev_Resolved by simp
next
  case (Ev_Ssl_Context r env)
  have t: "t \<le> env_now env" using ev Ev_Ssl_Context by (simp add: ev_ok_def)
  show ?thesis
  proof (cases r)
    case None
    have v: "wa_view (s\<lparr>has_ssl_ctx := True\<rparr>) = wa_view s" by (simp add: wa_view_def)
    have "wa_ok cfg t (s\<lparr>has_ssl_ctx := True\<rparr>)" using ok by (simp add: wa_view_ok [OF v])
    from loop_keeps [OF this t _ max] show ?thesis using Ev_Ssl_Context None step by (simp add: on_ssl_context_created_def)
  next
    case (Some p)
    obtain e pm where p: "p = (e, pm)" by (cases p)
    let ?r = "create_webhook_error (env_now env) ''Can't create an SSL context'' e pm True s"
    have "keeps_events cfg (env_now env) (wa_tqueue s) (wa_tqueue s')"
      by (rule bind_loop_keeps [OF create_webhook_error_ok [OF ok] create_webhook_error_tqueue t _ max])
        (use Ev_Ssl_Context Some p step in \<open>simp_all add: on_ssl_context_created_def\<close>)
    then show ?thesis using Ev_Ssl_Context by simp
  qed
next
  case (Ev_Socket_Ready r sid env)
  have t: "t \<le> env_now env" and sid: "sid \<in> set (proxied (wa_out s))"
    using ev Ev_Socket_Ready by (simp_all add: ev_ok_def)
  from socket_ready_ok [OF ok sid] socket_ready_tqueue
  have "keeps_events cfg (env_now env) (wa_tqueue s) (wa_tqueue s')"
    by (rule bind_loop_keeps [OF _ _ t _ max]) (use Ev_Socket_Ready step in \<open>auto simp: on_socket_ready_async_def Let_def\<close>)
  then show ?thesis using Ev_Socket_Ready by simp
next
  case (Ev_Connection_Error e env)
  then show ?thesis using step wa_view_functions(4) [THEN wa_view_parts(5)] by auto
qed (use ev step in \<open>auto simp: wa_close_def wa_hangup_def wa_stop_def wa_tear_down_def to_callback_def wa_send_def\<close>)

lemma keeps_events_member:
  assumes "keeps_events cfg now t t'" and "e \<in> set (events (queue_of t (wa_tqueue_id cfg)))" and "fresh (wa_unix_time cfg now) e"
  shows "e \<in> set (events (queue_of t' (wa_tqueue_id cfg)))"
proof -
  have "e \<in> set (filter (fresh (wa_unix_time cfg now)) (events (queue_of t (wa_tqueue_id cfg))))" using assms(2,3) by simp
  also have "\<dots> = set (filter (fresh (wa_unix_time cfg now)) (events (queue_of t' (wa_tqueue_id cfg))))"
    using assms(1) by (simp add: keeps_events_def)
  finally show ?thesis by simp
qed

lemma forgets_only_member:
  assumes "forgets_only cfg env cid response s t" and "e \<in> set (events (queue_of (wa_tqueue s) (wa_tqueue_id cfg)))"
    and "\<nexists>c. container_get (connections s) cid = Some c \<and> wc_event_id c = ev_id e \<and> may_forget cfg env response s (ev_id e)"
  shows "e \<in> set (events (queue_of t (wa_tqueue_id cfg)))"
  using assms forget_other [OF assms(2)] unfolding forgets_only_def conn_map_def by (metis option.distinct(1))

lemma answers_forget_only:
  assumes ok: "wa_ok cfg t s" and max: "0 < wa_max_connections cfg" "wa_max_connections cfg < 2 ^ 31" and clock: "mono (wa_unix_time cfg)"
    and ev: "ev_ok t ev s" "answer_of ev = Some (cid, response, env)" and step: "wa_deliver cfg ev s = Some s'"
    and e: "e \<in> set (events (queue_of (wa_tqueue s) (wa_tqueue_id cfg)))" "fresh (wa_unix_time cfg (env_now (ev_env ev))) e"
    and kept: "\<nexists>c. container_get (connections s) cid = Some c \<and> wc_event_id c = ev_id e \<and> may_forget cfg env response s (ev_id e)"
  shows "e \<in> set (events (queue_of (wa_tqueue s') (wa_tqueue_id cfg)))"
proof -
  have later: "wa_ok cfg (env_now env) s" and env: "env_ok env" and cid: "cid \<in> set (opened (wa_out s))"
    and busy: "response \<noteq> None \<Longrightarrow> conn_map s cid = Some c \<Longrightarrow> wc_event_id c \<noteq> 0"
    and fresh: "fresh (wa_unix_time cfg (env_now env)) e" for c
    using ev ok wa_ok_mono e(2) monoD [OF clock, of "env_now env" "env_now (ev_env ev)"]
    by (cases ev; force simp: ev_ok_def conn_map_def fresh_def)+
  from wa_handle_ok [OF later max env cid busy] obtain s1 tq where
    s1: "wa_handle cfg env cid response s = Some s1" "wa_ok cfg (env_now env) s1"
      "keeps_events cfg (env_now env) tq (wa_tqueue s1)" "forgets_only cfg env cid response s tq" by blast
  have e1: "e \<in> set (events (queue_of (wa_tqueue s1) (wa_tqueue_id cfg)))"
    by (rule keeps_events_member [OF s1(3) forgets_only_member [OF s1(4) e(1) kept] fresh])
  show ?thesis
  proof (cases ev)
    case (Ev_Response i r env0)
    then show ?thesis using ev(2) s1(1) step e1 by simp
  next
    case (Ev_Connection_Hangup i env0 env')
    then have "wa_loop cfg env' s1 = Some s'" "env_now env \<le> env_now env'"
      using ev s1(1) step by (auto simp: wa_hangup_shared_def ev_ok_def)
    then show ?thesis using keeps_events_member [OF loop_keeps [OF s1(2) _ _ max] e1] e(2) Ev_Connection_Hangup by simp
  qed (use ev in simp_all)
qed

text \<open>
  (C3) No valid update is lost. When a reachable webhook actor handles a message, each event of its queue that has not
  expired is in the queue afterwards too, unless the message is the answer to the request that carries this very
  event (or the end of its connection) and either the webhook accepted it with a code 200 to 299, or the next attempt
  would come after the event expires.
\<close>

theorem webhook_forgets_only:
  assumes reach: "wa_reach cfg t s" and ev: "ev_ok t ev s" "\<not> is_queue_event ev" and clock: "mono (wa_unix_time cfg)"
    and step: "wa_step cfg ev s = Some s'"
    and e: "e \<in> set (events (queue_of (wa_tqueue s) (wa_tqueue_id cfg)))" "fresh (wa_unix_time cfg (env_now (ev_env ev))) e"
  shows "e \<in> set (events (queue_of (wa_tqueue s') (wa_tqueue_id cfg))) \<or>
    (\<exists>cid response env c. answer_of ev = Some (cid, response, env) \<and> container_get (connections s) cid = Some c \<and>
       wc_event_id c = ev_id e \<and> may_forget cfg env response s (ev_id e))"
proof (cases "wa_stopped s")
  case True
  then show ?thesis using step ev(2) e(1) by (simp add: wa_step_def)
next
  case False
  then have ok: "wa_ok cfg t s" and max: "0 < wa_max_connections cfg" "wa_max_connections cfg < 2 ^ 31"
    using wa_reach_inv [OF reach] by (auto simp: wa_ok_def)
  have deliver: "wa_deliver cfg ev s = Some s'" using step False by (simp add: wa_step_def)
  show ?thesis
  proof (cases "answer_of ev")
    case None
    then show ?thesis using keeps_events_member [OF other_steps_keep [OF ok max ev None deliver] e] by blast
  next
    case (Some p)
    obtain cid response env where p: "answer_of ev = Some (cid, response, env)" using Some by (cases p) auto
    from answers_forget_only [OF ok max clock ev(1) p deliver e] p show ?thesis by blast
  qed
qed

theorem webhook_forgets_only_witness:
  "\<lparr>ev_log_id = 0, ev_id = 3, ev_expires_at = 1000, ev_data = ''a'', ev_extra = 9\<rparr> \<in>
     set (events (queue_of (wa_tqueue sample_loop) 5))"
proof -
  let ?e = "\<lparr>ev_log_id = 0, ev_id = 3, ev_expires_at = 1000, ev_data = ''a'', ev_extra = 9\<rparr>"
  have "mono (wa_unix_time sample_webhook)" by (simp add: sample_webhook_def mono_def floor_mono)
  moreover have "ev_ok 100 (Ev_Loop (sample_env 101)) sample_actor" by (simp add: ev_ok_def env_ok_sample)
  moreover have "?e \<in> set (events (queue_of (wa_tqueue sample_actor) (wa_tqueue_id sample_webhook)))"
    by (simp add: sample_actor_fields sample_tqueue_def sample_webhook_def queue_of_def)
  moreover have "fresh (wa_unix_time sample_webhook (env_now (ev_env (Ev_Loop (sample_env 101))))) ?e"
    by (simp add: fresh_def sample_webhook_def sample_env_def)
  ultimately show ?thesis
    using webhook_forgets_only [OF sample_actor_reach, of "Ev_Loop (sample_env 101)" sample_loop ?e] sample_loop_step
    by (simp add: sample_webhook_def)
qed

end
