(* ===== verification/Spec2Isabelle.thy ===== *)
theory Spec2Isabelle
  imports Stream_Cleanup TQueue_Spec Id_Container Flood_Control Json_Skip Client_Webhook_Proofs
    Client_Send_Spec Client_Updates_Proofs Webhook_Actor_Spec
begin

text \<open>
  \<^bold>\<open>The program.\<close> A Bot API server built on TDLib (\<open>src/telegram-bot-api\<close>), extended by a streaming
  endpoint for files. The listener hands each HTTP request to a connection, which answers it at once,
  turns it into a file stream, or makes a query of it for the client manager. The manager
  owns one client per bot token and routes queries and streams to it. A client talks to TDLib,
  stores incoming updates in a persistent queue shared by all bots, hands them out by \<open>getUpdates\<close> or lets a
  webhook actor push them to the bot's URL, and downloads the files that are asked for. A
  stream connection sends the bytes of a file to the peer while TDLib still downloads it, and a cleanup manager
  keeps the working directory below its limits without deleting files in use.

  \<^bold>\<open>The theories\<close>, from the helpers up to the actors (paths below \<open>src/telegram-bot-api\<close>; \<open>utils/\<close> is
  \<open>td/tdutils/td/utils/\<close>, \<open>api/\<close> is \<open>telegram-bot-api/\<close>).

  \<^item> \<open>Prelude\<close>: \<open>td::Status\<close> as a record of code and message, results as sums, the integer
    ranges of the code, shared lemmas on lists, maps and words.
  \<^item> \<open>Text_Utils\<close> (\<open>utils/misc.h\<close>, \<open>misc.cpp\<close>, \<open>PathView\<close>), \<open>Stream_Parser\<close>
    (\<open>utils/Parser.h\<close>), \<open>Utf8\<close> (\<open>utils/utf8.h\<close>, \<open>utf8.cpp\<close>), \<open>Ip_Address\<close> (\<open>utils/port/IPAddress.cpp\<close>),
    \<open>Flood_Control\<close> (\<open>utils/FloodControlFast.h\<close>), \<open>Id_Container\<close> (\<open>utils/Container.h\<close>): one definition per
    function. \<open>check_utf8\<close> accepts exactly the encodings of scalar values; the flood control bounds the rate;
    the object table refines the partial map of its live objects (locale \<open>id_store\<close>), which the
    manager relies on.
  \<^item> \<open>Json\<close>, \<open>Json_Proofs\<close>, \<open>Json_Skip\<close> (\<open>utils/JsonBuilder.h\<close>, \<open>JsonBuilder.cpp\<close>): printing and parsing
    are inverse, the parser returns on every text, and skipping agrees with parsing.
  \<^item> \<open>Http_Header\<close> (\<open>td/tdnet/td/net/HttpHeaderCreator\<close> over \<open>utils/StringBuilder\<close>): a header
    that is reported as complete is not truncated.
  \<^item> \<open>TQueue\<close>, \<open>TQueue_Inv\<close>, \<open>TQueue_Ops\<close>, \<open>TQueue_Recovery\<close>, \<open>TQueue_Spec\<close> (\<open>td/tddb/td/db/TQueue.cpp\<close>):
    the queues of updates with their counters, their collection schedule and their storage. Every
    sequence of operations keeps the invariant, replaying the storage restores the queues, a client that
    confirms what it reads receives every update once and in order, and collection terminates.
  \<^item> \<open>Stream_Cursor\<close>, \<open>Stream_Route\<close>, \<open>Stream_Connection\<close>, \<open>Stream_Safety\<close> (\<open>api/FileStreamCursor.cpp\<close>,
    \<open>FileStreamRecovery.cpp\<close>, \<open>FileStreamRoute.cpp\<close>, \<open>FileStream.cpp\<close>): what is accepted as a stream, and the
    stream itself as a machine over the messages of TDLib, the disk and the socket. Whatever the
    messages, the response is the header and a prefix of the file without gaps and repetitions, or one JSON error, and a stopped stream has
    given back its slot and its local copies exactly once.
  \<^item> \<open>Workdir\<close>, \<open>Stream_Cleanup\<close> (\<open>api/WorkdirCleanupManager.cpp\<close>): cleanup runs delete only unused cache
    files, oldest first; the reference counts (locale \<open>file_guard\<close>) keep what is retained; together with the streams,
    whose messages to the manager are delivered later and in order, this gives \<open>streamed_file_not_deleted\<close> below.
  \<^item> \<open>Http_Frontend\<close> (\<open>api/HttpConnection.cpp\<close>, \<open>Query.cpp\<close>): the dispatch of a request and the one
    answer of a query.
  \<^item> \<open>Client_Manager\<close>, \<open>Client_Manager_Proofs\<close>, \<open>Client_Manager_Spec\<close> (\<open>api/ClientManager.cpp\<close>): the manager as
    a transition system. Quotas hold, no check fails, queries reach the client of their token, shutdown resolves every promise.
  \<^item> \<open>Client_Errors\<close>, \<open>Client_Webhook\<close>, \<open>Client_Webhook_Proofs\<close>, \<open>Client_Files\<close>, \<open>Client_Files_Proofs\<close>, \<open>Client_Files_Spec\<close>,
    \<open>Client_Updates\<close>, \<open>Client_Updates_Proofs\<close> (\<open>api/Client.cpp\<close>): the translation of TDLib errors, the settings of
    the webhook, the files and streams of a client, and \<open>getUpdates\<close>. Each is a state record with one function per
    handler; along every run each query is answered exactly once, waits, or is held by a named request.
  \<^item> \<open>Client_Send\<close>, \<open>Client_Send_Proofs\<close>, \<open>Client_Send_Spec\<close> (\<open>api/Client.cpp\<close>): a message from the query to its answer, with the
    limit per chat, the callbacks of TDLib, the tables of messages and stories not yet sent, queries for several messages,
    the release of uploaded files, and closing. Along every run (\<open>send_reach\<close>) no check fails, the count of each chat is
    exact, and every query is settled once or waits; together with \<open>Client_Files\<close> all deletions of local copies are covered.
  \<^item> \<open>Http_Url\<close> (\<open>utils/HttpUrl.cpp\<close>), \<open>Base64\<close> (\<open>utils/base64.cpp\<close>), \<open>Webhook_Actor\<close>, \<open>Webhook_Actor_Proofs\<close>,
    \<open>Webhook_Actor_Spec\<close> (\<open>api/WebhookActor.cpp\<close>): the actor that pushes updates to the URL of a bot, with all its handlers, over
    the queue of \<open>TQueue\<close>, the object table, the flood control and the header creator. As a transition system
    (\<open>wa_reach\<close>) it never fails a check, keeps its limits, sends the updates of one queue one at a time, and forgets a valid
    update only when the webhook took it or no attempt is left before it expires. A URL is parsed
    back from its text, and Base64 texts are unique.

  \<^bold>\<open>Conventions.\<close> A handler takes the state and its argument and returns the new state with the messages
  sent; a \<open>CHECK\<close> that fails is \<open>None\<close>; errors are values of a sum. Integers are \<open>int\<close> where the code checks their
  range before using them and words or explicit remainders where wrap-around is part of the
  behaviour. Time is an argument of every handler, as are answers of the disk, the resolver and TDLib. Log output is
  left out.

  \<^bold>\<open>Bounds and fuel.\<close> The loop of the garbage collection has fuel, the number of scheduled queues plus one,
  and is proved to end within it; so has the loop that opens connections of the webhook actor, the number needed. Header texts are bounded by the capacity of the buffer in the
  code. The object table is modelled up to the \<open>2 ^ 31\<close> slots its numbers can address. All other loops are structural or
  have a measure.

  \<^bold>\<open>Not modelled.\<close> The methods of \<open>Client.cpp\<close> that translate single Bot API methods into TDLib requests and
  TDLib objects into JSON (a large table of field copies), the reports of \<open>Stats\<close> and \<open>ClientManager\<close>,
  the socket and TLS layers, the actor scheduler, the encoding of binlog records, and TDLib below \<open>td/\<close> apart
  from the files named above: they are libraries the server only calls, and appear as arguments or as the messages they send.
\<close>

section \<open>Streams, their local copies and the cleanup of the working directory\<close>

text \<open>
  (C5) Whatever streams are opened, whatever messages they receive from TDLib, the disk and the connection, and
  however the delivery of their messages to the cleanup manager and its cleanup runs are interleaved with them, a cleanup
  run never deletes the local copy of a running stream once the message that retains it has been delivered. Before
  that delivery the manager does not know of the stream, and a run may delete the file.
\<close>

theorem streamed_file_not_deleted:
  assumes "fs_has_cleanup cfg" and "active_files m = Map.empty" and "sys = system_run cfg config evs m"
    and "(s, mail) \<in> set (sys_streams sys)" and "\<not> stopped s" and "local_path s \<noteq> []" and "Retain (local_path s) \<notin> set mail"
    and "run_cleanup config del files now_nsec free_space (sys_manager sys) = (m', ds)"
  shows "local_path s \<notin> cand_path ` set ds"
proof
  assume "local_path s \<in> cand_path ` set ds"
  then obtain d where d: "d \<in> set ds" "cand_path d = local_path s" by auto
  obtain res where "run_workdir_cleanup config (active_files (sys_manager sys)) del files now_nsec free_space = (res, ds)"
    using assms(8) by (auto simp: run_cleanup_def Let_def split: prod.splits)
  from cleanup_run_deletes [OF this d(1)] d(2)
  have cand: "is_workdir_cleanup_candidate (workdir config) (local_path s)"
    and idle: "\<not> is_active (active_files (sys_manager sys)) (local_path s)" by auto
  have inv: "system_inv cfg config sys" unfolding assms(3) by (rule system_run_inv [OF assms(2)])
  have "held_path cfg s = local_path s" using assms(1,5) by (simp add: held_path_def)
  then have "known_path cfg (s, mail) = local_path s" using retained_known [OF inv assms(4)] assms(6,7) by simp
  from known_copy_counted [OF inv assms(4) this assms(6) cand] idle show False by simp
qed

text \<open>A stream whose file is being downloaded to \<open>/w/a\<close>, and a cleanup that wants to delete everything.\<close>

definition example_config :: fs_config where
  "example_config = sample_config\<lparr>fs_has_cleanup := True\<rparr>"

definition example_events :: "system_event list" where
  "example_events = [system_event.Open_Stream 1 sample_route,
     system_event.Stream_Event 0 (FileReady 5 3 ''/w/a'' 0 0 False (exact_disk ''abc''))]"

definition example_cleanup :: workdir_cleanup_config where
  "example_cleanup = \<lparr>workdir = ''/w'', threshold_bytes = 10, target_bytes = 5, cleanup_interval = 60, file_ttl = 0, min_free_bytes = 0\<rparr>"

definition example_manager :: cleanup_manager where
  "example_manager = \<lparr>active_files = Map.empty, next_periodic_cleanup = 0, next_threshold_check = 0, cleanup_timeout = 0,
     workdir_bytes = 0, workdir_files = 0, workdir_cleanup_runs = 0, workdir_deleted_bytes = 0,
     workdir_disk_emergency = False, workdir_shutdown_requested = False\<rparr>"

lemma example_stream:
  "map (\<lambda>(s, mail). (stopped s, local_path s, mail))
     (sys_streams (system_run example_config example_cleanup (example_events @ [Deliver 0]) example_manager)) = [(False, ''/w/a'', [])]"
  by code_simp

theorem streamed_file_not_deleted_witness:
  "''/w/a'' \<notin> cand_path ` set (snd (run_cleanup example_cleanup (\<lambda>p n. True) [(''/w/a'', Some (12, 7))] 100 50
     (sys_manager (system_run example_config example_cleanup (example_events @ [Deliver 0]) example_manager))))"
proof -
  from example_stream [THEN map_eq_Cons_D] obtain s where
    s: "sys_streams (system_run example_config example_cleanup (example_events @ [Deliver 0]) example_manager) = [(s, [])]"
      "\<not> stopped s" "local_path s = ''/w/a''" by auto
  show ?thesis
    using streamed_file_not_deleted [where cfg = example_config and m = example_manager and config = example_cleanup and
      evs = "example_events @ [Deliver 0]" and s = s and mail = "[]", OF _ _ refl _ s(2) _ _ prod.collapse [symmetric],
      of "\<lambda>p n. True" "[(''/w/a'', Some (12, 7))]" 100 50] s
    by (simp add: example_config_def example_manager_def)
qed

text \<open>The same run before the delivery: the file of the running stream is deleted.\<close>

lemma undelivered_retain_does_not_protect:
  "cand_path ` set (snd (run_cleanup example_cleanup (\<lambda>p n. True) [(''/w/a'', Some (12, 7))] 100 50
     (sys_manager (system_run example_config example_cleanup example_events example_manager)))) = {''/w/a''}"
  by code_simp

end
